(* ===== verification/Prelude.thy ===== *)
theory Prelude
  imports "HOL-Library.Word" "HOL-Library.Monad_Syntax"
begin

text \<open>
  What the components share: names for the machine types of the Rust sources, the
  panic monad, and a small weakest-precondition calculus for it.

  A Rust operation that can panic (an index out of range, a subtraction of \<open>usize\<close>
  values below zero, an addition above the width, a failing assertion) is a function into
  \<open>'a option\<close>, where \<open>None\<close> is the panic. Arithmetic is checked, as in a build with
  debug assertions: a proof that a function returns \<open>Some\<close> therefore also shows that the
  release build computes the same value, because no operation wraps.
  Lengths, indices and counts (\<open>usize\<close>) are \<open>nat\<close>; a Unicode scalar value (\<open>char\<close>)
  is a \<open>nat\<close> as well; fixed-width data are words.
\<close>

type_synonym u8 = "8 word"
type_synonym u16 = "16 word"
type_synonym u32 = "32 word"
type_synonym u64 = "64 word"
type_synonym rchar = nat

named_theorems wp_simps \<open>weakest preconditions of the panic monad's primitives\<close>

subsection \<open>Panicking primitives\<close>

definition usub :: "nat \<Rightarrow> nat \<Rightarrow> nat option" where
  \<comment> \<open>\<open>usize\<close> subtraction: panics below zero\<close>
  "usub a b = (if b \<le> a then Some (a - b) else None)"

definition idx :: "'a list \<Rightarrow> nat \<Rightarrow> 'a option" where
  \<comment> \<open>\<open>xs[i]\<close> as a read\<close>
  "idx xs i = (if i < length xs then Some (xs ! i) else None)"

definition upd :: "'a list \<Rightarrow> nat \<Rightarrow> 'a \<Rightarrow> 'a list option" where
  \<comment> \<open>\<open>xs[i] = v\<close>\<close>
  "upd xs i v = (if i < length xs then Some (xs[i := v]) else None)"

definition subslice :: "'a list \<Rightarrow> nat \<Rightarrow> nat \<Rightarrow> 'a list option" where
  \<comment> \<open>\<open>&xs[a..b]\<close>\<close>
  "subslice xs a b = (if a \<le> b \<and> b \<le> length xs then Some (take (b - a) (drop a xs)) else None)"

definition copy_into :: "'a list \<Rightarrow> nat \<Rightarrow> nat \<Rightarrow> 'a list \<Rightarrow> 'a list option" where
  \<comment> \<open>\<open>xs[a..b].copy_from_slice(ys)\<close>: panics also when the lengths differ\<close>
  "copy_into xs a b ys =
     (if a \<le> b \<and> b \<le> length xs \<and> length ys = b - a
      then Some (take a xs @ ys @ drop b xs) else None)"

definition check :: "bool \<Rightarrow> unit option" where
  \<comment> \<open>\<open>assert!\<close> and \<open>debug_assert!\<close>\<close>
  "check b = (if b then Some () else None)"

fun foldM :: "('s \<Rightarrow> 'a \<Rightarrow> 's option) \<Rightarrow> 's \<Rightarrow> 'a list \<Rightarrow> 's option" where
  \<comment> \<open>a \<open>for\<close> loop over the elements of a list\<close>
  "foldM f s [] = Some s"
| "foldM f s (x # xs) = (case f s x of None \<Rightarrow> None | Some s' \<Rightarrow> foldM f s' xs)"

subsection \<open>Weakest preconditions\<close>

text \<open>\<open>wp m P\<close>: the computation does not panic and its result satisfies \<open>P\<close>.\<close>

definition wp :: "'a option \<Rightarrow> ('a \<Rightarrow> bool) \<Rightarrow> bool" where
  "wp m P = (case m of None \<Rightarrow> False | Some x \<Rightarrow> P x)"

lemma wp_Some [wp_simps]: "wp (Some x) P = P x"
  by (simp add: wp_def)

lemma wp_None [wp_simps]: "wp None P = False"
  by (simp add: wp_def)

lemma wp_bind [wp_simps]: "wp (Option.bind m f) P = wp m (\<lambda>x. wp (f x) P)"
  by (cases m) (simp_all add: wp_def)

lemma wp_if [wp_simps]: "wp (if b then m else n) P = (if b then wp m P else wp n P)"
  by simp

lemma wp_let [wp_simps]: "wp (let x = v in f x) P = wp (f v) P"
  by simp

lemma wp_usub [wp_simps]: "wp (usub a b) P = (b \<le> a \<and> P (a - b))"
  by (simp add: wp_def usub_def)

lemma wp_idx [wp_simps]: "wp (idx xs i) P = (i < length xs \<and> P (xs ! i))"
  by (simp add: wp_def idx_def)

lemma wp_upd [wp_simps]: "wp (upd xs i v) P = (i < length xs \<and> P (xs[i := v]))"
  by (simp add: wp_def upd_def)

lemma wp_subslice [wp_simps]:
  "wp (subslice xs a b) P = (a \<le> b \<and> b \<le> length xs \<and> P (take (b - a) (drop a xs)))"
  by (auto simp: wp_def subslice_def)

lemma wp_copy_into [wp_simps]:
  "wp (copy_into xs a b ys) P =
     (a \<le> b \<and> b \<le> length xs \<and> length ys = b - a \<and> P (take a xs @ ys @ drop b xs))"
  by (auto simp: wp_def copy_into_def)

lemma wp_check [wp_simps]: "wp (check b) P = (b \<and> P ())"
  by (simp add: wp_def check_def)

lemma wp_prod [wp_simps]: "wp (case p of (a, b) \<Rightarrow> f a b) P = (case p of (a, b) \<Rightarrow> wp (f a b) P)"
  by (simp split: prod.split)

lemma wp_map_option [wp_simps]: "wp (map_option f m) P = wp m (\<lambda>x. P (f x))"
  by (cases m) (simp_all add: wp_def)

lemma wp_mono: "wp m P \<Longrightarrow> (\<And>x. P x \<Longrightarrow> Q x) \<Longrightarrow> wp m Q"
  by (cases m) (simp_all add: wp_def)

lemma wp_conj: "wp m P \<Longrightarrow> wp m Q \<Longrightarrow> wp m (\<lambda>x. P x \<and> Q x)"
  by (cases m) (simp_all add: wp_def)

lemma wp_iff: "wp m P \<longleftrightarrow> (\<exists>x. m = Some x \<and> P x)"
  by (cases m) (simp_all add: wp_def)

lemma wpI: "m = Some x \<Longrightarrow> P x \<Longrightarrow> wp m P"
  by (simp add: wp_def)

lemma wpE:
  assumes "wp m P"
  obtains x where "m = Some x" and "P x"
  using assms by (auto simp: wp_iff)

lemma foldM_append:
  "foldM f s (xs @ ys) = (case foldM f s xs of None \<Rightarrow> None | Some s' \<Rightarrow> foldM f s' ys)"
  by (induction xs arbitrary: s) (simp_all split: option.split)

text \<open>The loop rule: an invariant indexed by the elements already processed.\<close>

lemma wp_foldM:
  assumes "I [] s"
    and "\<And>ys x zs s. xs = ys @ x # zs \<Longrightarrow> I ys s \<Longrightarrow> wp (f s x) (I (ys @ [x]))"
  shows "wp (foldM f s xs) (I xs)"
proof -
  have "wp (foldM f s zs) (I xs)" if "xs = ys @ zs" "I ys s" for ys zs s
    using that
  proof (induction zs arbitrary: ys s)
    case Nil
    then show ?case by (simp add: wp_Some)
  next
    case (Cons z zs)
    from assms(2) [OF Cons.prems] obtain s' where "f s z = Some s'" "I (ys @ [z]) s'"
      by (auto elim: wpE)
    with Cons.IH [of "ys @ [z]" s'] Cons.prems(1) show ?case by simp
  qed
  from this [of "[]"] assms(1) show ?thesis by simp
qed

lemma wp_foldM_inv:
  assumes "I s" and "\<And>x s. x \<in> set xs \<Longrightarrow> I s \<Longrightarrow> wp (f s x) I"
  shows "wp (foldM f s xs) I"
  using assms by (intro wp_foldM [where I = "\<lambda>_. I"]) auto

subsection \<open>Partial correctness\<close>

text \<open>\<open>wlp m P\<close>: if the computation returns, its result satisfies \<open>P\<close>. Used for what a
  step leaves unchanged; that it returns is always proved beside it, with \<open>wp\<close>.\<close>

named_theorems wlp_simps \<open>weakest liberal preconditions\<close>

definition wlp :: "'a option \<Rightarrow> ('a \<Rightarrow> bool) \<Rightarrow> bool" where
  "wlp m P = (case m of None \<Rightarrow> True | Some x \<Rightarrow> P x)"

lemma wlp_Some [wlp_simps]: "wlp (Some x) P = P x"
  by (simp add: wlp_def)

lemma wlp_None [wlp_simps]: "wlp None P = True"
  by (simp add: wlp_def)

lemma wlp_bind [wlp_simps]: "wlp (Option.bind m f) P = wlp m (\<lambda>x. wlp (f x) P)"
  by (cases m) (simp_all add: wlp_def)

lemma wlp_if [wlp_simps]: "wlp (if b then m else n) P = (if b then wlp m P else wlp n P)"
  by simp

lemma wlp_let [wlp_simps]: "wlp (let x = v in f x) P = wlp (f v) P"
  by simp

lemma wlp_prod [wlp_simps]:
  "wlp (case p of (a, b) \<Rightarrow> f a b) P = (case p of (a, b) \<Rightarrow> wlp (f a b) P)"
  by (simp split: prod.split)

lemma wlp_map_option [wlp_simps]: "wlp (map_option f m) P = wlp m (\<lambda>x. P (f x))"
  by (cases m) (simp_all add: wlp_def)

lemma wlp_upd [wlp_simps]: "wlp (upd xs i v) P = (i < length xs \<longrightarrow> P (xs[i := v]))"
  by (simp add: wlp_def upd_def)

lemma wlp_const: "(\<And>x. P x) \<Longrightarrow> wlp m P"
  by (cases m) (simp_all add: wlp_def)

lemma wlp_mono: "wlp m P \<Longrightarrow> (\<And>x. P x \<Longrightarrow> Q x) \<Longrightarrow> wlp m Q"
  by (cases m) (simp_all add: wlp_def)

lemma wlp_iff: "wlp m P \<longleftrightarrow> (\<forall>x. m = Some x \<longrightarrow> P x)"
  by (cases m) (simp_all add: wlp_def)

lemma wlpD: "wlp m P \<Longrightarrow> m = Some x \<Longrightarrow> P x"
  by (simp add: wlp_def)

lemma wp_wlp: "wp m P \<Longrightarrow> wlp m P"
  by (cases m) (simp_all add: wp_def wlp_def)

lemma wp_wlpI: "wp m P \<Longrightarrow> wlp m Q \<Longrightarrow> wp m (\<lambda>x. P x \<and> Q x)"
  by (cases m) (simp_all add: wp_def wlp_def)

subsection \<open>Lists\<close>

lemma subslice_full: "subslice xs 0 (length xs) = Some xs"
  by (simp add: subslice_def)

lemma length_subslice: "subslice xs a b = Some ys \<Longrightarrow> length ys = b - a"
  by (auto simp: subslice_def split: if_splits)

lemma subslice_append: "b \<le> length xs \<Longrightarrow> subslice (xs @ ys) a b = subslice xs a b"
  by (auto simp: subslice_def)

end
