(* ===== verification/Params.thy ===== *)
theory Params
  imports Prelude
begin

text \<open>
  \<open>copa/src/params.rs\<close>: the fixed-size list of parameters with optional subparameters that
  the parser hands to the performer. The two arrays are lists of length 32.
  The abstract view is a list of groups (one per parameter, its subparameters in order) and
  the group that is still open; \<open>push\<close> closes the open group, \<open>extend\<close> adds to it, and
  the iterator reads the groups back.
\<close>

definition MAX_PARAMS :: nat where
  "MAX_PARAMS = 32"

record params =
  subparams :: "u8 list"
  params_arr :: "u16 list"
  current_subparams :: u8
  params_len :: nat

definition params_default :: params where
  "params_default =
     \<lparr>subparams = replicate MAX_PARAMS 0, params_arr = replicate MAX_PARAMS 0,
      current_subparams = 0, params_len = 0\<rparr>"

definition params_is_empty :: "params \<Rightarrow> bool" where
  "params_is_empty ps \<longleftrightarrow> params_len ps = 0"

definition params_is_full :: "params \<Rightarrow> bool" where
  "params_is_full ps \<longleftrightarrow> params_len ps = MAX_PARAMS"

definition params_clear :: "params \<Rightarrow> params" where
  "params_clear ps = ps\<lparr>current_subparams := 0, params_len := 0\<rparr>"

definition u8_succ :: "u8 \<Rightarrow> u8 option" where
  \<comment> \<open>\<open>n + 1\<close> on \<open>u8\<close>\<close>
  "u8_succ n = (if unat n < 255 then Some (n + 1) else None)"

definition params_push :: "params \<Rightarrow> u16 \<Rightarrow> params option" where
  "params_push ps item = do {
     i \<leftarrow> usub (params_len ps) (unat (current_subparams ps));
     n \<leftarrow> u8_succ (current_subparams ps);
     sub \<leftarrow> upd (subparams ps) i n;
     arr \<leftarrow> upd (params_arr ps) (params_len ps) item;
     Some (ps\<lparr>subparams := sub, params_arr := arr, current_subparams := 0,
              params_len := params_len ps + 1\<rparr>)
   }"

definition params_extend :: "params \<Rightarrow> u16 \<Rightarrow> params option" where
  "params_extend ps item = do {
     i \<leftarrow> usub (params_len ps) (unat (current_subparams ps));
     n \<leftarrow> u8_succ (current_subparams ps);
     sub \<leftarrow> upd (subparams ps) i n;
     arr \<leftarrow> upd (params_arr ps) (params_len ps) item;
     Some (ps\<lparr>subparams := sub, params_arr := arr,
              current_subparams := current_subparams ps + 1,
              params_len := params_len ps + 1\<rparr>)
   }"

subsection \<open>The iterator\<close>

definition params_iter_next :: "params \<Rightarrow> nat \<Rightarrow> ((u16 list \<times> nat) option) option" where
  \<comment> \<open>\<open>ParamsIter::next\<close> at position \<open>index\<close>: the group and the next position\<close>
  "params_iter_next ps index =
     (if params_len ps \<le> index then Some None
      else do {
        n \<leftarrow> idx (subparams ps) index;
        g \<leftarrow> subslice (params_arr ps) index (index + unat n);
        Some (Some (g, index + unat n))
      })"

fun params_collect :: "nat \<Rightarrow> params \<Rightarrow> nat \<Rightarrow> u16 list list option" where
  \<comment> \<open>\<open>params.iter().collect()\<close>; \<open>None\<close> also when the fuel runs out\<close>
  "params_collect 0 ps index = None"
| "params_collect (Suc fuel) ps index =
     (case params_iter_next ps index of
        None \<Rightarrow> None
      | Some None \<Rightarrow> Some []
      | Some (Some (g, i)) \<Rightarrow> map_option (Cons g) (params_collect fuel ps i))"

definition params_iter :: "params \<Rightarrow> u16 list list option" where
  \<comment> \<open>every group takes at least one of the 32 positions, so 33 steps are enough\<close>
  "params_iter ps = params_collect (Suc MAX_PARAMS) ps 0"

definition params_size_hint :: "params \<Rightarrow> nat \<Rightarrow> (nat \<times> nat option) option" where
  "params_size_hint ps index = do {
     remaining \<leftarrow> usub (params_len ps) index;
     Some (remaining, Some remaining)
   }"

subsection \<open>The abstract view\<close>

definition group_starts :: "u16 list list \<Rightarrow> nat list" where
  "group_starts gs = map (\<lambda>k. length (concat (take k gs))) [0..<length gs]"

text \<open>\<open>params_rep ps gs cur\<close>: the closed groups are \<open>gs\<close>, the open one is \<open>cur\<close>.\<close>

definition params_rep :: "params \<Rightarrow> u16 list list \<Rightarrow> u16 list \<Rightarrow> bool" where
  "params_rep ps gs cur \<longleftrightarrow>
     length (subparams ps) = MAX_PARAMS \<and> length (params_arr ps) = MAX_PARAMS \<and>
     params_len ps = length (concat gs) + length cur \<and> params_len ps \<le> MAX_PARAMS \<and>
     take (params_len ps) (params_arr ps) = concat gs @ cur \<and>
     unat (current_subparams ps) = length cur \<and>
     (\<forall>g \<in> set gs. g \<noteq> []) \<and>
     (\<forall>k < length gs. unat (subparams ps ! length (concat (take k gs))) = length (gs ! k)) \<and>
     (cur \<noteq> [] \<longrightarrow> unat (subparams ps ! length (concat gs)) = length cur)"

lemma params_rep_len: "params_rep ps gs cur \<Longrightarrow> params_len ps \<le> MAX_PARAMS"
  by (simp add: params_rep_def)

lemma params_rep_default: "params_rep params_default [] []"
  by (simp add: params_rep_def params_default_def)

lemma params_rep_clear: "params_rep ps gs cur \<Longrightarrow> params_rep (params_clear ps) [] []"
  by (simp add: params_rep_def params_clear_def)

lemma unat_u8_succ: "unat (n :: u8) < 255 \<Longrightarrow> unat (n + 1) = Suc (unat n)"
  by (simp add: unat_word_ariths)

lemma group_start_less:
  assumes "k < length gs" "\<forall>g \<in> set gs. g \<noteq> []"
  shows "length (concat (take k gs)) < length (concat gs)"
proof -
  have "concat gs = concat (take k gs) @ gs ! k @ concat (drop (Suc k) gs)"
    using id_take_nth_drop [OF assms(1)] by (metis concat.simps(2) concat_append)
  moreover have "gs ! k \<noteq> []" using assms by simp
  ultimately show ?thesis by simp
qed

lemma params_push_rep:
  assumes "params_rep ps gs cur" and "\<not> params_is_full ps"
  shows "\<exists>ps'. params_push ps x = Some ps' \<and> params_rep ps' (gs @ [cur @ [x]]) []"
proof -
  have len: "params_len ps < 32" "length cur < 255"
    using assms by (auto simp: params_rep_def params_is_full_def MAX_PARAMS_def)
  with assms have push: "params_push ps x =
      Some (ps\<lparr>subparams := (subparams ps)[length (concat gs) := current_subparams ps + 1],
               params_arr := (params_arr ps)[params_len ps := x], current_subparams := 0,
               params_len := params_len ps + 1\<rparr>)"
    by (simp add: params_push_def params_rep_def usub_def u8_succ_def upd_def MAX_PARAMS_def)
  have "unat (current_subparams ps + 1) = Suc (length cur)"
    using len assms(1) by (simp add: unat_u8_succ params_rep_def)
  moreover have "\<forall>k < length gs. length (concat (take k gs)) \<noteq> length (concat gs)"
    using group_start_less assms(1) by (fastforce simp: params_rep_def)
  ultimately show ?thesis
    using assms(1) len
    unfolding push
    by (auto simp: params_rep_def MAX_PARAMS_def take_Suc_conv_app_nth less_Suc_eq nth_append
        nth_list_update)
qed

lemma params_extend_rep:
  assumes "params_rep ps gs cur" and "\<not> params_is_full ps"
  shows "\<exists>ps'. params_extend ps x = Some ps' \<and> params_rep ps' gs (cur @ [x])"
proof -
  have len: "params_len ps < 32" "length cur < 255"
    using assms by (auto simp: params_rep_def params_is_full_def MAX_PARAMS_def)
  with assms have ext: "params_extend ps x =
      Some (ps\<lparr>subparams := (subparams ps)[length (concat gs) := current_subparams ps + 1],
               params_arr := (params_arr ps)[params_len ps := x],
               current_subparams := current_subparams ps + 1,
               params_len := params_len ps + 1\<rparr>)"
    by (simp add: params_extend_def params_rep_def usub_def u8_succ_def upd_def MAX_PARAMS_def)
  have "unat (current_subparams ps + 1) = Suc (length cur)"
    using len assms(1) by (simp add: unat_u8_succ params_rep_def)
  moreover have "\<forall>k < length gs. length (concat (take k gs)) \<noteq> length (concat gs)"
    using group_start_less assms(1) by (fastforce simp: params_rep_def)
  ultimately show ?thesis
    using assms(1) len
    unfolding ext
    by (auto simp: params_rep_def MAX_PARAMS_def take_Suc_conv_app_nth nth_list_update)
qed

text \<open>The groups the iterator yields: the closed ones, and the open one if it is not empty.\<close>

definition all_groups :: "u16 list list \<Rightarrow> u16 list \<Rightarrow> u16 list list" where
  "all_groups gs cur = gs @ (if cur = [] then [] else [cur])"

lemma params_rep_nth:
  assumes "params_rep ps gs cur" and "k < length (all_groups gs cur)"
  defines "s \<equiv> length (concat (take k (all_groups gs cur)))"
  shows "params_iter_next ps s =
    Some (Some (all_groups gs cur ! k, length (concat (take (Suc k) (all_groups gs cur)))))"
proof -
  let ?all = "all_groups gs cur"
  have cat: "concat ?all = concat gs @ cur" by (simp add: all_groups_def)
  have ne: "\<forall>g \<in> set ?all. g \<noteq> []"
    using assms(1) by (auto simp: all_groups_def params_rep_def)
  have split: "concat ?all = concat (take k ?all) @ ?all ! k @ concat (drop (Suc k) ?all)"
    using id_take_nth_drop [OF assms(2)] by (metis concat.simps(2) concat_append)
  have n: "unat (subparams ps ! s) = length (?all ! k)"
  proof (cases "k < length gs")
    case True
    with assms(1) show ?thesis
      by (simp add: s_def all_groups_def params_rep_def nth_append)
  next
    case False
    with assms(2) have "k = length gs" "cur \<noteq> []" by (auto simp: all_groups_def split: if_splits)
    with assms(1) show ?thesis
      by (simp add: s_def all_groups_def params_rep_def nth_append)
  qed
  have stop: "length (concat (take (Suc k) ?all)) = s + length (?all ! k)"
    using assms(2) by (simp add: s_def take_Suc_conv_app_nth)
  have le: "s + length (?all ! k) \<le> params_len ps"
    using arg_cong [OF split, of length] assms(1) by (simp add: s_def cat params_rep_def)
  have pos: "length (?all ! k) > 0" using ne assms(2) by simp
  have "take (length (?all ! k)) (drop s (params_arr ps))
      = take (length (?all ! k)) (drop s (take (params_len ps) (params_arr ps)))"
    using le by (simp add: drop_take min_absorb1)
  also have "take (params_len ps) (params_arr ps) = concat ?all"
    using assms(1) unfolding cat params_rep_def by blast
  also have "take (length (?all ! k)) (drop s (concat ?all)) = ?all ! k"
    by (subst split) (simp add: s_def)
  finally have piece: "take (length (?all ! k)) (drop s (params_arr ps)) = ?all ! k" .
  have "params_len ps \<le> length (subparams ps)" "params_len ps \<le> length (params_arr ps)"
    using assms(1) by (auto simp: params_rep_def)
  moreover have "s < params_len ps" using le pos by linarith
  ultimately show ?thesis
    using le n piece by (simp add: params_iter_next_def stop idx_def subslice_def)
qed

lemma params_collect_rep:
  assumes "params_rep ps gs cur" and "k \<le> length (all_groups gs cur)"
    and "length (all_groups gs cur) - k < fuel"
  shows "params_collect fuel ps (length (concat (take k (all_groups gs cur))))
    = Some (drop k (all_groups gs cur))"
  using assms(2,3)
proof (induction fuel arbitrary: k)
  case (Suc fuel)
  show ?case
  proof (cases "k = length (all_groups gs cur)")
    case True
    have "length (concat (all_groups gs cur)) = params_len ps"
      using assms(1) by (simp add: all_groups_def params_rep_def)
    with True show ?thesis by (simp add: params_iter_next_def)
  next
    case False
    with Suc.prems have k: "k < length (all_groups gs cur)" by simp
    from Suc.IH [of "Suc k"] Suc.prems k
    show ?thesis by (simp add: params_rep_nth [OF assms(1) k] Cons_nth_drop_Suc)
  qed
qed simp

lemma length_le_concat: "\<forall>g \<in> set gs. g \<noteq> [] \<Longrightarrow> length gs \<le> length (concat gs)"
  by (induction gs) (auto simp: Suc_le_eq neq_Nil_conv)

lemma params_iter_rep:
  assumes "params_rep ps gs cur"
  shows "params_iter ps = Some (all_groups gs cur)"
proof -
  have "length (all_groups gs cur) \<le> length (concat (all_groups gs cur))"
    using assms by (intro length_le_concat) (auto simp: all_groups_def params_rep_def)
  also have "\<dots> \<le> MAX_PARAMS"
    using assms by (simp add: all_groups_def params_rep_def)
  finally show ?thesis
    using params_collect_rep [OF assms, of 0 "Suc MAX_PARAMS"] by (simp add: params_iter_def)
qed

end
