(* ===== verification/Utf8.thy ===== *)
theory Utf8
  imports Prelude
begin

text \<open>
  UTF-8 as the Rust standard library reads it: validation with the position and the length
  of the first error (\<open>core::str::from_utf8\<close>), the iterator \<open>str::chars\<close>, and the
  encoder \<open>char::encode_utf8\<close>.

  The parser calls two crates that are not part of the repository, \<open>simdutf8\<close> and
  \<open>memchr\<close>. They are a parameter of the model, the record \<open>text_lib\<close>; the locale
  \<open>text_lib_spec\<close> states what their documentation promises: the same answers as the
  standard library's validation, and the first position of a byte.
\<close>

subsection \<open>One character\<close>

datatype utf8_verdict = Valid nat | Invalid nat | Incomplete

definition is_cont :: "u8 \<Rightarrow> bool" where
  "is_cont b \<longleftrightarrow> 0x80 \<le> b \<and> b \<le> 0xBF"

definition second_of_3 :: "u8 \<Rightarrow> u8 \<Rightarrow> bool" where
  "second_of_3 a b \<longleftrightarrow>
     (if a = 0xE0 then 0xA0 \<le> b \<and> b \<le> 0xBF
      else if a = 0xED then 0x80 \<le> b \<and> b \<le> 0x9F
      else is_cont b)"

definition second_of_4 :: "u8 \<Rightarrow> u8 \<Rightarrow> bool" where
  "second_of_4 a b \<longleftrightarrow>
     (if a = 0xF0 then 0x90 \<le> b \<and> b \<le> 0xBF
      else if a = 0xF4 then 0x80 \<le> b \<and> b \<le> 0x8F
      else is_cont b)"

fun cont_bytes :: "nat \<Rightarrow> nat \<Rightarrow> u8 list \<Rightarrow> utf8_verdict" where
  \<comment> \<open>the last \<open>k\<close> continuation bytes of a character of which \<open>n\<close> bytes are accepted\<close>
  "cont_bytes n 0 bs = Valid n"
| "cont_bytes n (Suc k) [] = Incomplete"
| "cont_bytes n (Suc k) (b # bs) = (if is_cont b then cont_bytes (Suc n) k bs else Invalid n)"

fun utf8_step :: "u8 list \<Rightarrow> utf8_verdict" where
  "utf8_step [] = Incomplete"
| "utf8_step (a # bs) =
     (if a < 0x80 then Valid 1
      else if 0xC2 \<le> a \<and> a \<le> 0xDF then cont_bytes 1 1 bs
      else if 0xE0 \<le> a \<and> a \<le> 0xEF then
        (case bs of [] \<Rightarrow> Incomplete
         | b # cs \<Rightarrow> if second_of_3 a b then cont_bytes 2 1 cs else Invalid 1)
      else if 0xF0 \<le> a \<and> a \<le> 0xF4 then
        (case bs of [] \<Rightarrow> Incomplete
         | b # cs \<Rightarrow> if second_of_4 a b then cont_bytes 2 2 cs else Invalid 1)
      else Invalid 1)"

lemma cont_bytes_Valid: "cont_bytes n k bs = Valid m \<Longrightarrow> m = n + k \<and> k \<le> length bs"
  by (induction n k bs rule: cont_bytes.induct) (auto split: if_splits)

lemma cont_bytes_Invalid:
  "cont_bytes n k bs = Invalid m \<Longrightarrow> n \<le> m \<and> m < n + k \<and> m < n + length bs"
  by (induction n k bs rule: cont_bytes.induct) (auto split: if_splits)

lemma cont_bytes_Incomplete: "cont_bytes n k bs = Incomplete \<Longrightarrow> length bs < k"
  by (induction n k bs rule: cont_bytes.induct) (auto split: if_splits)

lemma cont_bytes_append:
  "cont_bytes n k bs \<noteq> Incomplete \<Longrightarrow> cont_bytes n k (bs @ cs) = cont_bytes n k bs"
  by (induction n k bs rule: cont_bytes.induct) (auto split: if_splits)

lemma utf8_step_Valid: "utf8_step bs = Valid n \<Longrightarrow> 1 \<le> n \<and> n \<le> 4 \<and> n \<le> length bs"
  by (cases bs) (auto split: if_splits list.splits dest!: cont_bytes_Valid)

lemma utf8_step_Invalid:
  "utf8_step bs = Invalid n \<Longrightarrow> 1 \<le> n \<and> n \<le> 3 \<and> n \<le> length bs"
  by (cases bs) (auto split: if_splits list.splits dest!: cont_bytes_Invalid)

lemma utf8_step_Incomplete: "utf8_step bs = Incomplete \<Longrightarrow> length bs \<le> 3"
  by (cases bs) (auto split: if_splits list.splits dest!: cont_bytes_Incomplete)

lemma utf8_step_append:
  "utf8_step bs \<noteq> Incomplete \<Longrightarrow> utf8_step (bs @ cs) = utf8_step bs"
  by (cases bs) (auto split: if_splits list.splits simp: cont_bytes_append)

lemma utf8_step_ascii: "a < 0x80 \<Longrightarrow> utf8_step (a # bs) = Valid 1"
  by simp

text \<open>An error after a proper prefix is found no earlier than the prefix ends.\<close>

lemma cont_bytes_prefix_Invalid:
  "cont_bytes n k bs = Incomplete \<Longrightarrow> cont_bytes n k (bs @ cs) = Invalid m \<Longrightarrow>
   n + length bs \<le> m"
  by (induction n k bs rule: cont_bytes.induct) (auto split: if_splits dest: cont_bytes_Invalid)

lemma cont_bytes_prefix_Valid:
  "cont_bytes n k bs = Incomplete \<Longrightarrow> cont_bytes n k (bs @ cs) = Valid m \<Longrightarrow>
   n + length bs < m"
  by (induction n k bs rule: cont_bytes.induct) (auto split: if_splits dest: cont_bytes_Valid)

lemma utf8_step_prefix_Invalid:
  "utf8_step bs = Incomplete \<Longrightarrow> utf8_step (bs @ cs) = Invalid m \<Longrightarrow> length bs \<le> m"
  by (cases bs)
    (auto split: if_splits list.splits dest!: cont_bytes_prefix_Invalid dest: cont_bytes_Invalid)

lemma utf8_step_prefix_Valid:
  "utf8_step bs = Incomplete \<Longrightarrow> utf8_step (bs @ cs) = Valid m \<Longrightarrow> length bs < m"
  using utf8_step_Valid [of cs m]
  by (cases bs)
    (auto split: if_splits list.splits dest!: cont_bytes_prefix_Valid dest: cont_bytes_Valid)

subsection \<open>Validation\<close>

datatype utf8_result = Utf8Ok | Utf8Err nat "nat option"
  \<comment> \<open>\<open>Utf8Error\<close>: \<open>valid_up_to()\<close> and \<open>error_len()\<close>\<close>

function std_utf8 :: "nat \<Rightarrow> u8 list \<Rightarrow> utf8_result" where
  "std_utf8 i bs =
     (if bs = [] then Utf8Ok
      else case utf8_step bs of
        Valid n \<Rightarrow> std_utf8 (i + n) (drop n bs)
      | Invalid n \<Rightarrow> Utf8Err i (Some n)
      | Incomplete \<Rightarrow> Utf8Err i None)"
  by pat_completeness auto
termination
  by (relation "measure (\<lambda>(i, bs). length bs)") (auto dest!: utf8_step_Valid)

declare std_utf8.simps [simp del]

lemma std_utf8_Nil [simp]: "std_utf8 i [] = Utf8Ok"
  by (simp add: std_utf8.simps)

definition std_from_utf8 :: "u8 list \<Rightarrow> utf8_result" where
  "std_from_utf8 bs = std_utf8 0 bs"

definition code_point :: "u8 list \<Rightarrow> rchar" where
  "code_point bs =
     (case bs of
        [a] \<Rightarrow> unat a
      | [a, b] \<Rightarrow> (unat a - 0xC0) * 64 + (unat b - 0x80)
      | [a, b, c] \<Rightarrow> (unat a - 0xE0) * 4096 + (unat b - 0x80) * 64 + (unat c - 0x80)
      | [a, b, c, d] \<Rightarrow> (unat a - 0xF0) * 262144 + (unat b - 0x80) * 4096
                         + (unat c - 0x80) * 64 + (unat d - 0x80)
      | _ \<Rightarrow> 0)"

function utf8_chars :: "u8 list \<Rightarrow> rchar list" where
  \<comment> \<open>\<open>str::chars\<close>, on the bytes of a valid string\<close>
  "utf8_chars bs =
     (if bs = [] then []
      else case utf8_step bs of
        Valid n \<Rightarrow> code_point (take n bs) # utf8_chars (drop n bs)
      | _ \<Rightarrow> [])"
  by pat_completeness auto
termination
  by (relation "measure length") (auto dest!: utf8_step_Valid)

declare utf8_chars.simps [simp del]

lemma std_utf8_shift:
  "std_utf8 (i + j) bs = (case std_utf8 j bs of Utf8Ok \<Rightarrow> Utf8Ok | Utf8Err v e \<Rightarrow> Utf8Err (i + v) e)"
proof (induction j bs rule: std_utf8.induct)
  case (1 j bs)
  show ?case
  proof (cases "bs = []")
    case False
    with 1 show ?thesis
      by (subst (1 2) std_utf8.simps) (auto split: utf8_verdict.splits simp: add.assoc)
  qed (subst (1 2) std_utf8.simps, simp)
qed

text \<open>The decomposition the parser relies on: an error splits the input into a valid prefix
  and a rest whose first character is bad.\<close>

lemma std_utf8_Err:
  "std_utf8 i bs = Utf8Err v e \<Longrightarrow>
     i \<le> v \<and> v - i < length bs \<and> std_utf8 i (take (v - i) bs) = Utf8Ok \<and>
     utf8_step (drop (v - i) bs) = (case e of None \<Rightarrow> Incomplete | Some n \<Rightarrow> Invalid n)"
proof (induction i bs rule: std_utf8.induct)
  case (1 i bs)
  show ?case
  proof (cases "bs = []")
    case True
    with 1 show ?thesis by (simp add: std_utf8.simps)
  next
    case False
    show ?thesis
    proof (cases "utf8_step bs")
      case (Valid n)
      note n = utf8_step_Valid [OF Valid]
      from 1(2) False Valid have "std_utf8 (i + n) (drop n bs) = Utf8Err v e"
        by (simp add: std_utf8.simps [of i])
      note IH = 1(1) [OF False Valid this]
      then have v: "i + n \<le> v" "v - (i + n) < length bs - n" by auto
      then have t: "take (v - i) bs = take n bs @ take (v - (i + n)) (drop n bs)"
        by (simp add: take_add [symmetric])
      have st: "utf8_step (take (v - i) bs) = Valid n"
      proof (rule ccontr)
        assume "utf8_step (take (v - i) bs) \<noteq> Valid n"
        moreover have "take (v - i) bs @ drop (v - i) bs = bs" by simp
        ultimately have inc: "utf8_step (take (v - i) bs) = Incomplete"
          using Valid utf8_step_append by metis
        from utf8_step_prefix_Valid [OF inc, of "drop (v - i) bs" n] Valid v
        show False by simp
      qed
      with v n IH False show ?thesis
        by (auto simp: std_utf8.simps [of i "take (v - i) bs"] take_drop)
    next
      case (Invalid n)
      with 1(2) False show ?thesis
        by (auto simp: std_utf8.simps [of i] split: option.splits)
    next
      case Incomplete
      with 1(2) False show ?thesis
        by (auto simp: std_utf8.simps [of i] split: option.splits)
    qed
  qed
qed

lemma std_from_utf8_Err:
  assumes "std_from_utf8 bs = Utf8Err v e"
  shows "v < length bs" and "std_from_utf8 (take v bs) = Utf8Ok"
    and "utf8_step (drop v bs) = (case e of None \<Rightarrow> Incomplete | Some n \<Rightarrow> Invalid n)"
  using std_utf8_Err [of 0 bs v e] assms by (simp_all add: std_from_utf8_def)

lemma std_from_utf8_Valid:
  "utf8_step bs = Valid n \<Longrightarrow>
   std_from_utf8 bs =
     (case std_from_utf8 (drop n bs) of Utf8Ok \<Rightarrow> Utf8Ok | Utf8Err v e \<Rightarrow> Utf8Err (n + v) e)"
  using std_utf8_shift [of n 0 "drop n bs"]
  by (cases "bs = []") (auto simp: std_from_utf8_def std_utf8.simps [of 0 bs])

lemma std_from_utf8_ascii: "\<forall>b \<in> set bs. b < 0x80 \<Longrightarrow> std_from_utf8 bs = Utf8Ok"
proof (induction bs)
  case Nil
  then show ?case by (simp add: std_from_utf8_def std_utf8.simps)
next
  case (Cons b bs)
  then show ?case
    using std_from_utf8_Valid [OF utf8_step_ascii [of b bs]] by simp
qed

lemma utf8_chars_Nil [simp]: "utf8_chars [] = []"
  by (simp add: utf8_chars.simps)

lemma utf8_chars_ascii: "\<forall>b \<in> set bs. b < 0x80 \<Longrightarrow> utf8_chars bs = map unat bs"
proof (induction bs)
  case (Cons b bs)
  then show ?case
    by (subst utf8_chars.simps) (simp add: code_point_def)
qed simp

subsection \<open>Encoding\<close>

definition is_scalar :: "rchar \<Rightarrow> bool" where
  \<comment> \<open>the values of the type \<open>char\<close>\<close>
  "is_scalar c \<longleftrightarrow> c < 0xD800 \<or> 0xE000 \<le> c \<and> c \<le> 0x10FFFF"

definition byte :: "nat \<Rightarrow> u8" where
  "byte n = word_of_nat n"

definition encode_utf8 :: "rchar \<Rightarrow> u8 list" where
  "encode_utf8 c =
     (if c < 0x80 then [byte c]
      else if c < 0x800 then [byte (0xC0 + c div 64), byte (0x80 + c mod 64)]
      else if c < 0x10000 then
        [byte (0xE0 + c div 4096), byte (0x80 + c div 64 mod 64), byte (0x80 + c mod 64)]
      else
        [byte (0xF0 + c div 262144), byte (0x80 + c div 4096 mod 64),
         byte (0x80 + c div 64 mod 64), byte (0x80 + c mod 64)])"

definition len_utf8 :: "rchar \<Rightarrow> nat" where
  "len_utf8 c = (if c < 0x80 then 1 else if c < 0x800 then 2 else if c < 0x10000 then 3 else 4)"

lemma length_encode_utf8 [simp]: "length (encode_utf8 c) = len_utf8 c"
  by (simp add: encode_utf8_def len_utf8_def)

lemma unat_byte: "n < 256 \<Longrightarrow> unat (byte n) = n"
  by (simp add: unat_of_nat byte_def)

lemma byte_compare:
  assumes "n < 256"
  shows "byte n < w \<longleftrightarrow> n < unat w" and "w < byte n \<longleftrightarrow> unat w < n"
    and "byte n \<le> w \<longleftrightarrow> n \<le> unat w" and "w \<le> byte n \<longleftrightarrow> unat w \<le> n"
    and "byte n = w \<longleftrightarrow> n = unat w"
  using assms unat_byte [OF assms]
  by (auto simp: word_less_nat_alt word_le_nat_alt) (simp add: byte_def)

lemma is_cont_byte: "n < 64 \<Longrightarrow> is_cont (byte (0x80 + n))"
  by (simp add: is_cont_def byte_compare)

lemma mod_64_less [simp]: "(n::nat) mod 64 < 64"
  by simp

lemma digits_3: "(c::nat) = c div 4096 * 4096 + c div 64 mod 64 * 64 + c mod 64"
proof -
  have "c = c div 64 * 64 + c mod 64" by (rule div_mult_mod_eq [symmetric])
  moreover have "c div 64 = c div 4096 * 64 + c div 64 mod 64"
    using div_mult_mod_eq [of "c div 64" 64, symmetric] div_mult2_eq [of c 64 64] by simp
  ultimately show ?thesis by linarith
qed

lemma digits_4:
  "(c::nat) = c div 262144 * 262144 + c div 4096 mod 64 * 4096 + c div 64 mod 64 * 64 + c mod 64"
proof -
  note digits_3 [of c]
  moreover have "c div 4096 = c div 262144 * 64 + c div 4096 mod 64"
    using div_mult_mod_eq [of "c div 4096" 64, symmetric] div_mult2_eq [of c 4096 64] by simp
  ultimately show ?thesis by linarith
qed

lemma encode_utf8_4:
  assumes "0x10000 \<le> c" "c \<le> (0x10FFFF::nat)"
  shows "c div 262144 \<le> 4"
    and "c div 262144 = 0 \<Longrightarrow> 16 \<le> c div 4096 mod 64"
    and "c div 262144 = 4 \<Longrightarrow> c div 4096 mod 64 < 16"
  using assms digits_4 [of c] mod_64_less [of c] mod_64_less [of "c div 64"]
    mod_64_less [of "c div 4096"]
  by linarith+

lemma encode_utf8_3:
  assumes "0x800 \<le> c" "c < (0x10000::nat)"
  shows "c div 4096 \<le> 15"
    and "c div 4096 = 0 \<Longrightarrow> 32 \<le> c div 64 mod 64"
    and "c div 4096 = 13 \<Longrightarrow> c < 0xD800 \<or> 0xE000 \<le> c \<Longrightarrow> c div 64 mod 64 < 32"
  using assms digits_3 [of c] mod_64_less [of c] mod_64_less [of "c div 64"]
  by linarith+

lemma cont_bytes_2:
  "is_cont a \<Longrightarrow> is_cont b \<Longrightarrow> cont_bytes n 2 (a # b # bs) = Valid (n + 2)"
  by (simp add: numeral_2_eq_2)

lemma second_of_3_byte:
  "k \<le> 15 \<Longrightarrow> n < 64 \<Longrightarrow>
   second_of_3 (byte (0xE0 + k)) (byte (0x80 + n)) \<longleftrightarrow> (k = 0 \<longrightarrow> 32 \<le> n) \<and> (k = 13 \<longrightarrow> n < 32)"
  by (auto simp: second_of_3_def byte_compare is_cont_byte)

lemma second_of_4_byte:
  "k \<le> 4 \<Longrightarrow> n < 64 \<Longrightarrow>
   second_of_4 (byte (0xF0 + k)) (byte (0x80 + n)) \<longleftrightarrow> (k = 0 \<longrightarrow> 16 \<le> n) \<and> (k = 4 \<longrightarrow> n < 16)"
  by (auto simp: second_of_4_def byte_compare is_cont_byte)

lemma encode_utf8_step:
  assumes "is_scalar c"
  shows "utf8_step (encode_utf8 c @ bs) = Valid (len_utf8 c) \<and> code_point (encode_utf8 c) = c"
proof -
  consider "c < 0x80" | "0x80 \<le> c" "c < 0x800" | "0x800 \<le> c" "c < 0x10000"
    | "0x10000 \<le> c" "c \<le> 0x10FFFF"
    using assms by (fastforce simp: is_scalar_def)
  then show ?thesis
  proof cases
    case 1
    then show ?thesis
      by (simp add: encode_utf8_def len_utf8_def byte_compare code_point_def unat_byte)
  next
    case 2
    then have "c div 64 < 32" "2 \<le> c div 64" by auto
    with 2 show ?thesis
      by (simp add: encode_utf8_def len_utf8_def byte_compare code_point_def unat_byte
          is_cont_byte)
  next
    case 3
    have "second_of_3 (byte (0xE0 + c div 4096)) (byte (0x80 + c div 64 mod 64))"
      using encode_utf8_3 [OF 3] assms by (auto simp: second_of_3_byte is_scalar_def)
    with 3 encode_utf8_3 [OF 3] digits_3 [of c] show ?thesis
      by (simp add: encode_utf8_def len_utf8_def byte_compare code_point_def unat_byte
          is_cont_byte)
  next
    case 4
    have "second_of_4 (byte (0xF0 + c div 262144)) (byte (0x80 + c div 4096 mod 64))"
      using encode_utf8_4 [OF 4] by (simp add: second_of_4_byte)
    with 4 encode_utf8_4 [OF 4] digits_4 [of c] show ?thesis
      by (simp add: encode_utf8_def len_utf8_def byte_compare code_point_def unat_byte
          is_cont_byte cont_bytes_2)
  qed
qed

definition encode_str :: "rchar list \<Rightarrow> u8 list" where
  \<comment> \<open>the bytes of a Rust string\<close>
  "encode_str cs = concat (map encode_utf8 cs)"

lemma encode_utf8_neq_Nil [simp]: "encode_utf8 c \<noteq> []"
  by (simp add: encode_utf8_def)

lemma utf8_chars_encode: "\<forall>c \<in> set cs. is_scalar c \<Longrightarrow> utf8_chars (encode_str cs) = cs"
proof (induction cs)
  case Nil
  then show ?case by (simp add: encode_str_def)
next
  case (Cons c cs)
  then have "is_scalar c" by simp
  note step = encode_utf8_step [OF this, of "encode_str cs"]
  have "encode_str (c # cs) = encode_utf8 c @ encode_str cs" by (simp add: encode_str_def)
  with step Cons show ?case by (subst utf8_chars.simps) simp
qed

lemma std_from_utf8_encode: "\<forall>c \<in> set cs. is_scalar c \<Longrightarrow> std_from_utf8 (encode_str cs) = Utf8Ok"
proof (induction cs)
  case Nil
  then show ?case by (simp add: encode_str_def std_from_utf8_def)
next
  case (Cons c cs)
  then have "is_scalar c" by simp
  note step = encode_utf8_step [OF this, of "encode_str cs"]
  have "encode_str (c # cs) = encode_utf8 c @ encode_str cs" by (simp add: encode_str_def)
  with std_from_utf8_Valid [of "encode_utf8 c @ encode_str cs"] step Cons
  show ?case by simp
qed

subsection \<open>The crates \<open>simdutf8\<close> and \<open>memchr\<close>\<close>

record text_lib =
  basic_from_utf8 :: "u8 list \<Rightarrow> bool"          \<comment> \<open>\<open>simdutf8::basic::from_utf8(..).is_ok()\<close>\<close>
  compat_from_utf8 :: "u8 list \<Rightarrow> utf8_result"  \<comment> \<open>\<open>simdutf8::compat::from_utf8\<close>\<close>
  memchr :: "u8 \<Rightarrow> u8 list \<Rightarrow> nat option"        \<comment> \<open>\<open>memchr::memchr\<close>\<close>

locale text_lib_spec =
  fixes lib :: text_lib
  assumes basic: "basic_from_utf8 lib bs \<longleftrightarrow> std_from_utf8 bs = Utf8Ok"
    and compat: "compat_from_utf8 lib bs = std_from_utf8 bs"
    and memchr_None: "memchr lib b bs = None \<Longrightarrow> b \<notin> set bs"
    and memchr_Some:
      "memchr lib b bs = Some i \<Longrightarrow> i < length bs \<and> bs ! i = b \<and> b \<notin> set (take i bs)"
begin

lemma memchr_absent: "b \<notin> set bs \<Longrightarrow> memchr lib b bs = None"
  using memchr_Some [of b bs] by (cases "memchr lib b bs") auto

lemma memchr_present: "b \<notin> set xs \<Longrightarrow> memchr lib b (xs @ b # ys) = Some (length xs)"
proof (cases "memchr lib b (xs @ b # ys)")
  case None
  then show ?thesis using memchr_None [of b "xs @ b # ys"] by simp
next
  case (Some i)
  assume b: "b \<notin> set xs"
  from memchr_Some [OF Some]
  have i: "(xs @ b # ys) ! i = b" "b \<notin> set (take i (xs @ b # ys))" by auto
  have "\<not> i < length xs" using i(1) b by (auto simp: nth_append)
  moreover have "\<not> length xs < i" using i(2) by (auto simp: take_append take_Cons')
  ultimately show ?thesis using Some by simp
qed

end

text \<open>The standard library's functions satisfy the laws.\<close>

fun find_byte :: "u8 \<Rightarrow> u8 list \<Rightarrow> nat option" where
  "find_byte b [] = None"
| "find_byte b (x # xs) = (if x = b then Some 0 else map_option Suc (find_byte b xs))"

definition std_text_lib :: text_lib where
  "std_text_lib =
     \<lparr>basic_from_utf8 = (\<lambda>bs. std_from_utf8 bs = Utf8Ok), compat_from_utf8 = std_from_utf8,
      memchr = find_byte\<rparr>"

lemma find_byte_None: "find_byte b bs = None \<Longrightarrow> b \<notin> set bs"
  by (induction bs) (auto split: if_splits)

lemma find_byte_Some:
  "find_byte b bs = Some i \<Longrightarrow> i < length bs \<and> bs ! i = b \<and> b \<notin> set (take i bs)"
  by (induction bs arbitrary: i) (auto split: if_splits)

interpretation std_lib: text_lib_spec std_text_lib
  by unfold_locales (auto simp: std_text_lib_def find_byte_None dest: find_byte_Some)

text \<open>Evaluation on concrete bytes.\<close>

lemma cont_bytes_numeral:
  "cont_bytes n (numeral k) bs =
     (case bs of [] \<Rightarrow> Incomplete
      | b # bs' \<Rightarrow> if is_cont b then cont_bytes (n + 1) (pred_numeral k) bs' else Invalid n)"
  by (cases bs) (simp_all add: numeral_eq_Suc)

lemma cont_bytes_1:
  "cont_bytes n 1 bs =
     (case bs of [] \<Rightarrow> Incomplete | b # bs' \<Rightarrow> if is_cont b then Valid (n + 1) else Invalid n)"
  by (cases bs) simp_all

lemmas utf8_eval =
  std_from_utf8_def std_utf8.simps cont_bytes_1 cont_bytes_numeral is_cont_def second_of_3_def
  second_of_4_def utf8_chars.simps code_point_def

end
