(* ===== verification/Copa.thy ===== *)
theory Copa
  imports Params Utf8
begin

text \<open>
  \<open>copa/src/lib.rs\<close>: the escape sequence parser. Its state is the record \<open>parser\<close>; every
  call of the trait \<open>Perform\<close> is an \<open>event\<close>, and each operation returns the new parser and
  the events it performs, in order (the parser never reads the performer, except for
  \<open>terminated\<close>, which \<open>advance_until_terminated\<close> takes as a parameter). The crate is built
  with its default feature \<open>std\<close>, so \<open>osc_raw\<close> is an unbounded vector.
\<close>

subsection \<open>State and events\<close>

datatype vt_state =
    CsiEntry | CsiIgnore | CsiIntermediate | CsiParam
  | DcsEntry | DcsIgnore | DcsIntermediate | DcsParam | DcsPassthrough
  | Escape | EscapeIntermediate | OscString | SosString | ApcString | PmString | Ground

datatype event =
    Print rchar
  | Execute u8
  | Hook params "u8 list" bool rchar
  | Put u8
  | Unhook
  | OscDispatch "u8 list list" bool
  | CsiDispatch params "u8 list" bool rchar
  | EscDispatch "u8 list" bool u8
  | SosStart | SosPut u8 | SosEnd
  | PmStart | PmPut u8 | PmEnd
  | ApcStart | ApcPut u8 | ApcEnd

definition MAX_INTERMEDIATES :: nat where "MAX_INTERMEDIATES = 2"
definition MAX_OSC_PARAMS :: nat where "MAX_OSC_PARAMS = 16"

record parser =
  pstate :: vt_state
  intermediates_arr :: "u8 list"
  intermediate_idx :: nat
  pparams :: params
  param :: u16
  osc_raw :: "u8 list"
  osc_params :: "(nat \<times> nat) list"
  osc_num_params :: nat
  ignoring :: bool
  partial_utf8 :: "u8 list"
  partial_utf8_len :: nat

definition parser_new :: parser where
  "parser_new =
     \<lparr>pstate = Ground, intermediates_arr = replicate MAX_INTERMEDIATES 0, intermediate_idx = 0,
      pparams = params_default, param = 0, osc_raw = [],
      osc_params = replicate MAX_OSC_PARAMS (0, 0), osc_num_params = 0, ignoring = False,
      partial_utf8 = replicate 4 0, partial_utf8_len = 0\<rparr>"

definition intermediates :: "parser \<Rightarrow> u8 list option" where
  "intermediates p = subslice (intermediates_arr p) 0 (intermediate_idx p)"

type_synonym step = "(parser \<times> event list) option"

subsection \<open>Actions\<close>

definition reset_params :: "parser \<Rightarrow> parser" where
  "reset_params p =
     p\<lparr>intermediate_idx := 0, ignoring := False, param := 0, pparams := params_clear (pparams p)\<rparr>"

definition action_collect :: "parser \<Rightarrow> u8 \<Rightarrow> parser option" where
  "action_collect p b =
     (if intermediate_idx p = MAX_INTERMEDIATES then Some (p\<lparr>ignoring := True\<rparr>)
      else do {
        arr \<leftarrow> upd (intermediates_arr p) (intermediate_idx p) b;
        Some (p\<lparr>intermediates_arr := arr, intermediate_idx := intermediate_idx p + 1\<rparr>)
      })"

definition action_subparam :: "parser \<Rightarrow> parser option" where
  "action_subparam p =
     (if params_is_full (pparams p) then Some (p\<lparr>ignoring := True\<rparr>)
      else do {
        ps \<leftarrow> params_extend (pparams p) (param p);
        Some (p\<lparr>pparams := ps, param := 0\<rparr>)
      })"

definition action_param :: "parser \<Rightarrow> parser option" where
  "action_param p =
     (if params_is_full (pparams p) then Some (p\<lparr>ignoring := True\<rparr>)
      else do {
        ps \<leftarrow> params_push (pparams p) (param p);
        Some (p\<lparr>pparams := ps, param := 0\<rparr>)
      })"

definition u16_saturating_mul :: "u16 \<Rightarrow> u16 \<Rightarrow> u16" where
  "u16_saturating_mul a b = word_of_nat (min 65535 (unat a * unat b))"

definition u16_saturating_add :: "u16 \<Rightarrow> u16 \<Rightarrow> u16" where
  "u16_saturating_add a b = word_of_nat (min 65535 (unat a + unat b))"

definition action_paramnext :: "parser \<Rightarrow> u8 \<Rightarrow> parser option" where
  "action_paramnext p b =
     (if params_is_full (pparams p) then Some (p\<lparr>ignoring := True\<rparr>)
      else do {
        d \<leftarrow> usub (unat b) (unat (0x30 :: u8));
        Some (p\<lparr>param := u16_saturating_add (u16_saturating_mul (param p) 10) (word_of_nat d)\<rparr>)
      })"

definition action_osc_put_param :: "parser \<Rightarrow> parser option" where
  "action_osc_put_param p =
     (let i = length (osc_raw p); k = osc_num_params p in
      if k = 0 then do {
        arr \<leftarrow> upd (osc_params p) k (0, i);
        Some (p\<lparr>osc_params := arr, osc_num_params := k + 1\<rparr>)
      }
      else if k = MAX_OSC_PARAMS then Some p
      else do {
        prev \<leftarrow> idx (osc_params p) (k - 1);
        arr \<leftarrow> upd (osc_params p) k (snd prev, i);
        Some (p\<lparr>osc_params := arr, osc_num_params := k + 1\<rparr>)
      })"

definition action_osc_put :: "parser \<Rightarrow> u8 \<Rightarrow> parser" where
  "action_osc_put p b = p\<lparr>osc_raw := osc_raw p @ [b]\<rparr>"

definition osc_dispatch :: "parser \<Rightarrow> u8 \<Rightarrow> event list option" where
  "osc_dispatch p b = do {
     check (osc_num_params p \<le> MAX_OSC_PARAMS);
     slices \<leftarrow> those (map (\<lambda>(s, e). subslice (osc_raw p) s e)
                        (take (osc_num_params p) (osc_params p)));
     Some [OscDispatch slices (b = 0x07)]
   }"

definition osc_end :: "parser \<Rightarrow> u8 \<Rightarrow> step" where
  "osc_end p b = do {
     p \<leftarrow> action_osc_put_param p;
     es \<leftarrow> osc_dispatch p b;
     Some (p\<lparr>osc_raw := [], osc_num_params := 0\<rparr>, es)
   }"

definition push_last_param :: "parser \<Rightarrow> parser option" where
  \<comment> \<open>the common head of \<open>action_csi_dispatch\<close> and \<open>action_hook\<close>\<close>
  "push_last_param p =
     (if params_is_full (pparams p) then Some (p\<lparr>ignoring := True\<rparr>)
      else do {
        ps \<leftarrow> params_push (pparams p) (param p);
        Some (p\<lparr>pparams := ps\<rparr>)
      })"

definition action_csi_dispatch :: "parser \<Rightarrow> u8 \<Rightarrow> step" where
  "action_csi_dispatch p b = do {
     p \<leftarrow> push_last_param p;
     is \<leftarrow> intermediates p;
     Some (p\<lparr>pstate := Ground\<rparr>, [CsiDispatch (pparams p) is (ignoring p) (unat b)])
   }"

definition action_hook :: "parser \<Rightarrow> u8 \<Rightarrow> step" where
  "action_hook p b = do {
     p \<leftarrow> push_last_param p;
     is \<leftarrow> intermediates p;
     Some (p\<lparr>pstate := DcsPassthrough\<rparr>, [Hook (pparams p) is (ignoring p) (unat b)])
   }"

definition action_esc_dispatch :: "parser \<Rightarrow> u8 \<Rightarrow> step" where
  \<comment> \<open>the body shared by the arms of \<open>advance_esc\<close> that dispatch\<close>
  "action_esc_dispatch p b = do {
     is \<leftarrow> intermediates p;
     Some (p\<lparr>pstate := Ground\<rparr>, [EscDispatch is (ignoring p) b])
   }"

definition action_apc_put :: "parser \<Rightarrow> u8 \<Rightarrow> parser \<times> event list" where
  "action_apc_put p b = (p\<lparr>osc_raw := osc_raw p @ [b]\<rparr>, [ApcPut b])"

definition action_apc_end :: "parser \<Rightarrow> event list" where
  "action_apc_end p = [ApcEnd]"

subsection \<open>One byte\<close>

definition btw :: "u8 \<Rightarrow> u8 \<Rightarrow> u8 \<Rightarrow> bool" where
  \<comment> \<open>the pattern \<open>lo..=hi\<close>\<close>
  "btw lo hi b \<longleftrightarrow> lo \<le> b \<and> b \<le> hi"

definition c0 :: "u8 \<Rightarrow> bool" where
  \<comment> \<open>the pattern \<open>0x00..=0x17 | 0x19 | 0x1C..=0x1F\<close>\<close>
  "c0 b \<longleftrightarrow> b \<le> 0x17 \<or> b = 0x19 \<or> btw 0x1C 0x1F b"

definition can_sub :: "u8 \<Rightarrow> bool" where
  \<comment> \<open>the pattern \<open>0x18 | 0x1A\<close>\<close>
  "can_sub b \<longleftrightarrow> b = 0x18 \<or> b = 0x1A"

definition stay :: "parser \<Rightarrow> event list \<Rightarrow> step" where
  "stay p es = Some (p, es)"

definition goto_state :: "vt_state \<Rightarrow> parser option \<Rightarrow> step" where
  \<comment> \<open>an action without performer calls, then \<open>self.state = s\<close>\<close>
  "goto_state s m = map_option (\<lambda>p. (p\<lparr>pstate := s\<rparr>, [])) m"

definition quiet :: "parser option \<Rightarrow> step" where
  "quiet m = map_option (\<lambda>p. (p, [])) m"

definition anywhere :: "parser \<Rightarrow> u8 \<Rightarrow> step" where
  "anywhere p b =
     (if can_sub b then Some (p\<lparr>pstate := Ground\<rparr>, [Execute b])
      else if b = 0x1B then Some ((reset_params p)\<lparr>pstate := Escape\<rparr>, [])
      else stay p [])"

definition advance_csi_entry :: "parser \<Rightarrow> u8 \<Rightarrow> step" where
  "advance_csi_entry p b =
     (if c0 b then stay p [Execute b]
      else if btw 0x20 0x2F b then goto_state CsiIntermediate (action_collect p b)
      else if btw 0x30 0x39 b then goto_state CsiParam (action_paramnext p b)
      else if b = 0x3A then goto_state CsiParam (action_subparam p)
      else if b = 0x3B then goto_state CsiParam (action_param p)
      else if btw 0x3C 0x3F b then goto_state CsiParam (action_collect p b)
      else if btw 0x40 0x7E b then action_csi_dispatch p b
      else anywhere p b)"

definition advance_csi_ignore :: "parser \<Rightarrow> u8 \<Rightarrow> step" where
  "advance_csi_ignore p b =
     (if c0 b then stay p [Execute b]
      else if btw 0x20 0x3F b then stay p []
      else if btw 0x40 0x7E b then Some (p\<lparr>pstate := Ground\<rparr>, [])
      else if b = 0x7F then stay p []
      else anywhere p b)"

definition advance_csi_intermediate :: "parser \<Rightarrow> u8 \<Rightarrow> step" where
  "advance_csi_intermediate p b =
     (if c0 b then stay p [Execute b]
      else if btw 0x20 0x2F b then quiet (action_collect p b)
      else if btw 0x30 0x3F b then Some (p\<lparr>pstate := CsiIgnore\<rparr>, [])
      else if btw 0x40 0x7E b then action_csi_dispatch p b
      else anywhere p b)"

definition advance_csi_param :: "parser \<Rightarrow> u8 \<Rightarrow> step" where
  "advance_csi_param p b =
     (if c0 b then stay p [Execute b]
      else if btw 0x20 0x2F b then goto_state CsiIntermediate (action_collect p b)
      else if btw 0x30 0x39 b then quiet (action_paramnext p b)
      else if b = 0x3A then quiet (action_subparam p)
      else if b = 0x3B then quiet (action_param p)
      else if btw 0x3C 0x3F b then Some (p\<lparr>pstate := CsiIgnore\<rparr>, [])
      else if btw 0x40 0x7E b then action_csi_dispatch p b
      else if b = 0x7F then stay p []
      else anywhere p b)"

definition advance_dcs_entry :: "parser \<Rightarrow> u8 \<Rightarrow> step" where
  "advance_dcs_entry p b =
     (if c0 b then stay p []
      else if btw 0x20 0x2F b then goto_state DcsIntermediate (action_collect p b)
      else if btw 0x30 0x39 b then goto_state DcsParam (action_paramnext p b)
      else if b = 0x3A then goto_state DcsParam (action_subparam p)
      else if b = 0x3B then goto_state DcsParam (action_param p)
      else if btw 0x3C 0x3F b then goto_state DcsParam (action_collect p b)
      else if btw 0x40 0x7E b then action_hook p b
      else if b = 0x7F then stay p []
      else anywhere p b)"

definition advance_dcs_intermediate :: "parser \<Rightarrow> u8 \<Rightarrow> step" where
  "advance_dcs_intermediate p b =
     (if c0 b then stay p []
      else if btw 0x20 0x2F b then quiet (action_collect p b)
      else if btw 0x30 0x3F b then Some (p\<lparr>pstate := DcsIgnore\<rparr>, [])
      else if btw 0x40 0x7E b then action_hook p b
      else if b = 0x7F then stay p []
      else anywhere p b)"

definition advance_dcs_param :: "parser \<Rightarrow> u8 \<Rightarrow> step" where
  "advance_dcs_param p b =
     (if c0 b then stay p []
      else if btw 0x20 0x2F b then goto_state DcsIntermediate (action_collect p b)
      else if btw 0x30 0x39 b then quiet (action_paramnext p b)
      else if b = 0x3A then quiet (action_subparam p)
      else if b = 0x3B then quiet (action_param p)
      else if btw 0x3C 0x3F b then Some (p\<lparr>pstate := DcsIgnore\<rparr>, [])
      else if btw 0x40 0x7E b then action_hook p b
      else if b = 0x7F then stay p []
      else anywhere p b)"

definition advance_dcs_passthrough :: "parser \<Rightarrow> u8 \<Rightarrow> step" where
  "advance_dcs_passthrough p b =
     (if b \<le> 0x17 \<or> b = 0x19 \<or> btw 0x1C 0x7E b then stay p [Put b]
      else if can_sub b then Some (p\<lparr>pstate := Ground\<rparr>, [Unhook, Execute b])
      else if b = 0x1B then Some ((reset_params p)\<lparr>pstate := Escape\<rparr>, [Unhook])
      else if b = 0x7F then stay p []
      else if b = 0x9C then Some (p\<lparr>pstate := Ground\<rparr>, [Unhook])
      else stay p [])"

definition advance_esc :: "parser \<Rightarrow> u8 \<Rightarrow> step" where
  "advance_esc p b =
     (if c0 b then stay p [Execute b]
      else if btw 0x20 0x2F b then goto_state EscapeIntermediate (action_collect p b)
      else if btw 0x30 0x4F b then action_esc_dispatch p b
      else if b = 0x50 then Some ((reset_params p)\<lparr>pstate := DcsEntry\<rparr>, [])
      else if btw 0x51 0x57 b then action_esc_dispatch p b
      else if b = 0x58 then Some (p\<lparr>pstate := SosString\<rparr>, [SosStart])
      else if btw 0x59 0x5A b then action_esc_dispatch p b
      else if b = 0x5B then Some ((reset_params p)\<lparr>pstate := CsiEntry\<rparr>, [])
      else if b = 0x5C then action_esc_dispatch p b
      else if b = 0x5D then
        Some (p\<lparr>osc_raw := [], osc_num_params := 0, pstate := OscString\<rparr>, [])
      else if b = 0x5E then Some (p\<lparr>pstate := PmString\<rparr>, [PmStart])
      else if b = 0x5F then Some (p\<lparr>pstate := ApcString\<rparr>, [ApcStart])
      else if btw 0x60 0x7E b then action_esc_dispatch p b
      else if can_sub b then Some (p\<lparr>pstate := Ground\<rparr>, [Execute b])
      else stay p [])"

definition advance_esc_intermediate :: "parser \<Rightarrow> u8 \<Rightarrow> step" where
  "advance_esc_intermediate p b =
     (if c0 b then stay p [Execute b]
      else if btw 0x20 0x2F b then quiet (action_collect p b)
      else if btw 0x30 0x7E b then action_esc_dispatch p b
      else if b = 0x7F then stay p []
      else anywhere p b)"

definition advance_osc_string :: "parser \<Rightarrow> u8 \<Rightarrow> step" where
  "advance_osc_string p b =
     (if b \<le> 0x06 \<or> btw 0x08 0x17 b \<or> b = 0x19 \<or> btw 0x1C 0x1F b then stay p []
      else if b = 0x07 then do {
        (p, es) \<leftarrow> osc_end p b;
        Some (p\<lparr>pstate := Ground\<rparr>, es)
      }
      else if can_sub b then do {
        (p, es) \<leftarrow> osc_end p b;
        Some (p\<lparr>pstate := Ground\<rparr>, es @ [Execute b])
      }
      else if b = 0x1B then do {
        (p, es) \<leftarrow> osc_end p b;
        Some ((reset_params p)\<lparr>pstate := Escape\<rparr>, es)
      }
      else if b = 0x3B then quiet (action_osc_put_param p)
      else stay (action_osc_put p b) [])"

definition advance_apc_string :: "parser \<Rightarrow> u8 \<Rightarrow> step" where
  "advance_apc_string p b =
     (if b \<le> 0x06 \<or> btw 0x08 0x17 b \<or> b = 0x19 \<or> btw 0x1C 0x1F b then stay p []
      else if b = 0x07 then
        Some (p\<lparr>osc_raw := [], osc_num_params := 0, pstate := Ground\<rparr>, action_apc_end p)
      else if can_sub b then
        (let (p, es) = action_apc_put p b in
         Some (p\<lparr>osc_raw := [], osc_num_params := 0, pstate := Ground\<rparr>,
               es @ action_apc_end p @ [Execute b]))
      else if b = 0x1B then
        Some (p\<lparr>osc_raw := [], osc_num_params := 0, pstate := Escape\<rparr>, action_apc_end p)
      else if b = 0x3B then do {
        let (p, es) = action_apc_put p b;
        p \<leftarrow> action_osc_put_param p;
        Some (p, es)
      }
      else (let (p, es) = action_apc_put p b in stay p es))"

definition advance_opaque_string ::
    "(u8 \<Rightarrow> event) \<Rightarrow> event \<Rightarrow> parser \<Rightarrow> u8 \<Rightarrow> step" where
  \<comment> \<open>the first two arguments are the dispatcher's \<open>opaque_put\<close> and \<open>opaque_end\<close>\<close>
  "advance_opaque_string opaque_put opaque_end p b =
     (if b = 0x07 then Some (p\<lparr>pstate := Ground\<rparr>, [opaque_end])
      else if can_sub b then Some (p\<lparr>pstate := Ground\<rparr>, [opaque_end, Execute b])
      else if b = 0x1B then Some (p\<lparr>pstate := Escape\<rparr>, [opaque_end])
      else if 0x20 \<le> b then stay p [opaque_put b]
      else stay p [])"

definition change_state :: "parser \<Rightarrow> u8 \<Rightarrow> step" where
  "change_state p b =
     (case pstate p of
        CsiEntry \<Rightarrow> advance_csi_entry p b
      | CsiIgnore \<Rightarrow> advance_csi_ignore p b
      | CsiIntermediate \<Rightarrow> advance_csi_intermediate p b
      | CsiParam \<Rightarrow> advance_csi_param p b
      | DcsEntry \<Rightarrow> advance_dcs_entry p b
      | DcsIgnore \<Rightarrow> anywhere p b
      | DcsIntermediate \<Rightarrow> advance_dcs_intermediate p b
      | DcsParam \<Rightarrow> advance_dcs_param p b
      | DcsPassthrough \<Rightarrow> advance_dcs_passthrough p b
      | Escape \<Rightarrow> advance_esc p b
      | EscapeIntermediate \<Rightarrow> advance_esc_intermediate p b
      | OscString \<Rightarrow> advance_osc_string p b
      | SosString \<Rightarrow> advance_opaque_string SosPut SosEnd p b
      | ApcString \<Rightarrow> advance_apc_string p b
      | PmString \<Rightarrow> advance_opaque_string PmPut PmEnd p b
      | Ground \<Rightarrow> None)"

subsection \<open>Text in the ground state\<close>

definition ground_event :: "rchar \<Rightarrow> event" where
  "ground_event c =
     (if c \<le> 0x1F \<or> 0x80 \<le> c \<and> c \<le> 0x9F then Execute (word_of_nat c) else Print c)"

definition ground_dispatch :: "u8 list \<Rightarrow> event list" where
  "ground_dispatch text = map ground_event (utf8_chars text)"

definition REPLACEMENT :: rchar where "REPLACEMENT = 0xFFFD"

definition to_escape :: "parser \<Rightarrow> parser" where
  "to_escape p = reset_params (p\<lparr>pstate := Escape\<rparr>)"

definition advance_ground :: "text_lib \<Rightarrow> parser \<Rightarrow> u8 list \<Rightarrow> (parser \<times> event list \<times> nat) option" where
  "advance_ground lib p bytes =
     (let num_bytes = length bytes;
          plain_chars = (case memchr lib 0x1B bytes of None \<Rightarrow> num_bytes | Some i \<Rightarrow> i) in
      if plain_chars = 0 then Some (to_escape p, [], 1)
      else do {
        plain \<leftarrow> subslice bytes 0 plain_chars;
        if basic_from_utf8 lib plain then
          (if plain_chars < num_bytes
           then Some (to_escape p, ground_dispatch plain, plain_chars + 1)
           else Some (p, ground_dispatch plain, plain_chars))
        else (case compat_from_utf8 lib plain of
          Utf8Ok \<Rightarrow> None
        | Utf8Err valid_bytes error_len \<Rightarrow> do {
            parsed \<leftarrow> subslice bytes 0 valid_bytes;
            (case error_len of
              Some len \<Rightarrow> do {
                bad \<leftarrow> idx bytes valid_bytes;
                Some (p, ground_dispatch parsed @
                        [if len = 1 \<and> bad \<le> 0x9F then Execute bad else Print REPLACEMENT],
                      valid_bytes + len)
              }
            | None \<Rightarrow>
                if plain_chars < num_bytes then
                  Some (to_escape p, ground_dispatch parsed @ [Print REPLACEMENT], plain_chars + 1)
                else do {
                  extra_bytes \<leftarrow> usub num_bytes valid_bytes;
                  let partial_len = partial_utf8_len p + extra_bytes;
                  extra \<leftarrow> subslice bytes valid_bytes (valid_bytes + extra_bytes);
                  arr \<leftarrow> copy_into (partial_utf8 p) (partial_utf8_len p) partial_len extra;
                  Some (p\<lparr>partial_utf8 := arr, partial_utf8_len := partial_len\<rparr>,
                        ground_dispatch parsed, num_bytes)
                })
          })
      })"

definition first_char :: "u8 list \<Rightarrow> rchar option" where
  \<comment> \<open>\<open>parsed.chars().next().unwrap_unchecked()\<close>: \<open>None\<close> would be undefined behaviour\<close>
  "first_char bs = (case utf8_chars bs of [] \<Rightarrow> None | c # _ \<Rightarrow> Some c)"

definition advance_partial_utf8 ::
    "text_lib \<Rightarrow> parser \<Rightarrow> u8 list \<Rightarrow> (parser \<times> event list \<times> nat) option" where
  "advance_partial_utf8 lib p bytes = do {
     let old_bytes = partial_utf8_len p;
     room \<leftarrow> usub (length (partial_utf8 p)) old_bytes;
     let to_copy = min (length bytes) room;
     new \<leftarrow> subslice bytes 0 to_copy;
     arr \<leftarrow> copy_into (partial_utf8 p) old_bytes (old_bytes + to_copy) new;
     let p = p\<lparr>partial_utf8 := arr, partial_utf8_len := old_bytes + to_copy\<rparr>;
     buf \<leftarrow> subslice (partial_utf8 p) 0 (partial_utf8_len p);
     if basic_from_utf8 lib buf then do {
       c \<leftarrow> first_char buf;
       n \<leftarrow> usub (len_utf8 c) old_bytes;
       Some (p\<lparr>partial_utf8_len := 0\<rparr>, [Print c], n)
     }
     else (case compat_from_utf8 lib buf of
       Utf8Ok \<Rightarrow> None
     | Utf8Err valid_bytes error_len \<Rightarrow>
         if valid_bytes > 0 then do {
           parsed \<leftarrow> subslice (partial_utf8 p) 0 valid_bytes;
           c \<leftarrow> first_char parsed;
           n \<leftarrow> usub valid_bytes old_bytes;
           Some (p\<lparr>partial_utf8_len := 0\<rparr>, [Print c], n)
         }
         else (case error_len of
           Some invalid_len \<Rightarrow> do {
             n \<leftarrow> usub invalid_len old_bytes;
             Some (p\<lparr>partial_utf8_len := 0\<rparr>, [Print REPLACEMENT], n)
           }
         | None \<Rightarrow> Some (p, [], to_copy)))
   }"

subsection \<open>The loops\<close>

definition advance_once :: "text_lib \<Rightarrow> parser \<Rightarrow> u8 list \<Rightarrow> nat \<Rightarrow> (parser \<times> event list \<times> nat) option" where
  \<comment> \<open>the body of both loops at position \<open>i\<close>; the last component is the new position\<close>
  "advance_once lib p bytes i =
     (if pstate p = Ground then do {
        rest \<leftarrow> subslice bytes i (length bytes);
        (p', es, n) \<leftarrow> advance_ground lib p rest;
        Some (p', es, i + n)
      }
      else do {
        b \<leftarrow> idx bytes i;
        (p', es) \<leftarrow> change_state p b;
        Some (p', es, i + 1)
      })"

partial_function (option) advance_loop ::
    "text_lib \<Rightarrow> parser \<Rightarrow> u8 list \<Rightarrow> nat \<Rightarrow> event list \<Rightarrow> (parser \<times> event list) option" where
  "advance_loop lib p bytes i done =
     (if i = length bytes then Some (p, done)
      else Option.bind (advance_once lib p bytes i)
        (\<lambda>r. advance_loop lib (fst r) bytes (snd (snd r)) (done @ fst (snd r))))"

definition advance_start :: "text_lib \<Rightarrow> parser \<Rightarrow> u8 list \<Rightarrow> (parser \<times> event list \<times> nat) option" where
  \<comment> \<open>the partial code point of an earlier call\<close>
  "advance_start lib p bytes =
     (if partial_utf8_len p \<noteq> 0 then advance_partial_utf8 lib p bytes else Some (p, [], 0))"

definition advance :: "text_lib \<Rightarrow> parser \<Rightarrow> u8 list \<Rightarrow> (parser \<times> event list) option" where
  "advance lib p bytes = do {
     (p', es, i) \<leftarrow> advance_start lib p bytes;
     advance_loop lib p' bytes i es
   }"

partial_function (option) advance_until_loop ::
    "text_lib \<Rightarrow> (event list \<Rightarrow> bool) \<Rightarrow> parser \<Rightarrow> u8 list \<Rightarrow> nat \<Rightarrow> event list
     \<Rightarrow> (parser \<times> event list \<times> nat) option" where
  \<comment> \<open>\<open>terminated\<close> is the performer's answer after the calls made so far\<close>
  "advance_until_loop lib terminated p bytes i done =
     (if i = length bytes \<or> terminated done then Some (p, done, i)
      else Option.bind (advance_once lib p bytes i)
        (\<lambda>r. advance_until_loop lib terminated (fst r) bytes (snd (snd r)) (done @ fst (snd r))))"

definition advance_until_terminated ::
    "text_lib \<Rightarrow> (event list \<Rightarrow> bool) \<Rightarrow> parser \<Rightarrow> u8 list \<Rightarrow> (parser \<times> event list \<times> nat) option" where
  "advance_until_terminated lib terminated p bytes = do {
     (p', es, i) \<leftarrow> advance_start lib p bytes;
     advance_until_loop lib terminated p' bytes i es
   }"

end
