(* ===== verification/CopaInv.thy ===== *)
theory CopaInv
  imports Copa
begin

text \<open>
  The invariant of the parser and the proof that no operation panics on a state that
  satisfies it, for any input. The locale \<open>text_lib_spec\<close> supplies the two crates.
\<close>

subsection \<open>The invariant\<close>

definition parser_wf :: "parser \<Rightarrow> bool" where
  "parser_wf p \<longleftrightarrow>
     length (intermediates_arr p) = MAX_INTERMEDIATES \<and> intermediate_idx p \<le> MAX_INTERMEDIATES \<and>
     (\<exists>gs cur. params_rep (pparams p) gs cur) \<and>
     length (osc_params p) = MAX_OSC_PARAMS \<and> osc_num_params p \<le> MAX_OSC_PARAMS \<and>
     (\<forall>k < osc_num_params p. fst (osc_params p ! k) \<le> snd (osc_params p ! k) \<and>
                             snd (osc_params p ! k) \<le> length (osc_raw p)) \<and>
     length (partial_utf8 p) = 4"

text \<open>Between two calls a partial code point may be stored, only in the ground state.\<close>

definition partial_ok :: "parser \<Rightarrow> bool" where
  "partial_ok p \<longleftrightarrow>
     partial_utf8_len p = 0 \<or>
     pstate p = Ground \<and> partial_utf8_len p \<le> 3 \<and>
     utf8_step (take (partial_utf8_len p) (partial_utf8 p)) = Incomplete"

definition parser_inv :: "parser \<Rightarrow> bool" where
  "parser_inv p \<longleftrightarrow> parser_wf p \<and> partial_ok p"

definition same_partial :: "parser \<Rightarrow> parser \<Rightarrow> bool" where
  "same_partial p q \<longleftrightarrow> partial_utf8 q = partial_utf8 p \<and> partial_utf8_len q = partial_utf8_len p"

definition keeps :: "parser \<Rightarrow> parser \<Rightarrow> bool" where
  "keeps p q \<longleftrightarrow> parser_wf q \<and> same_partial p q"

lemma parser_inv_new: "parser_inv parser_new"
  by (auto simp: parser_inv_def parser_wf_def partial_ok_def parser_new_def MAX_INTERMEDIATES_def
      MAX_OSC_PARAMS_def intro: params_rep_default)

subsection \<open>Actions\<close>

lemma keeps_state [simp]: "keeps p (q\<lparr>pstate := s\<rparr>) = keeps p q"
  by (simp add: keeps_def parser_wf_def same_partial_def)

lemma keeps_ignoring [simp]: "keeps p (q\<lparr>ignoring := b\<rparr>) = keeps p q"
  by (simp add: keeps_def parser_wf_def same_partial_def)

lemma keeps_param [simp]: "keeps p (q\<lparr>param := x\<rparr>) = keeps p q"
  by (simp add: keeps_def parser_wf_def same_partial_def)

lemma keeps_clear_osc: "keeps p q \<Longrightarrow> keeps p (q\<lparr>osc_raw := [], osc_num_params := 0\<rparr>)"
  by (auto simp: keeps_def parser_wf_def same_partial_def)

lemma keeps_push_raw: "keeps p q \<Longrightarrow> keeps p (q\<lparr>osc_raw := osc_raw q @ [b]\<rparr>)"
  by (fastforce simp: keeps_def parser_wf_def same_partial_def)

lemma keeps_params: "keeps p q \<Longrightarrow> params_rep ps gs cur \<Longrightarrow> keeps p (q\<lparr>pparams := ps\<rparr>)"
  by (auto simp: keeps_def parser_wf_def same_partial_def)

lemma keeps_refl: "parser_wf p \<Longrightarrow> keeps p p"
  by (simp add: keeps_def same_partial_def)

lemma keeps_wf: "keeps p q \<Longrightarrow> parser_wf q"
  by (simp add: keeps_def)

lemma keeps_reset_params: "keeps p q \<Longrightarrow> keeps p (reset_params q)"
  by (auto simp: keeps_def parser_wf_def same_partial_def reset_params_def
      intro: params_rep_clear)

lemma keeps_params_obtain:
  assumes "keeps p q"
  obtains gs cur where "params_rep (pparams q) gs cur"
  using assms by (auto simp: keeps_def parser_wf_def)

lemma keeps_params_rep: "keeps p q \<Longrightarrow> \<exists>gs cur. params_rep (pparams q) gs cur"
  by (auto simp: keeps_def parser_wf_def)

lemma wp_action_collect: "keeps p q \<Longrightarrow> wp (action_collect q b) (keeps p)"
  by (auto simp: action_collect_def wp_simps)
    (auto simp: keeps_def parser_wf_def same_partial_def)

lemma wp_params_push:
  assumes "keeps p q" "\<not> params_is_full (pparams q)"
  shows "wp (params_push (pparams q) x) (\<lambda>ps. keeps p (q\<lparr>pparams := ps\<rparr>))"
  using assms by (metis keeps_params keeps_params_obtain params_push_rep wpI)

lemma wp_params_extend:
  assumes "keeps p q" "\<not> params_is_full (pparams q)"
  shows "wp (params_extend (pparams q) x) (\<lambda>ps. keeps p (q\<lparr>pparams := ps\<rparr>))"
  using assms by (metis keeps_params keeps_params_obtain params_extend_rep wpI)

lemma wp_action_param: "keeps p q \<Longrightarrow> wp (action_param q) (keeps p)"
  using wp_params_push [of p q] by (simp add: action_param_def wp_simps)

lemma wp_action_subparam: "keeps p q \<Longrightarrow> wp (action_subparam q) (keeps p)"
  using wp_params_extend [of p q] by (simp add: action_subparam_def wp_simps)

lemma wp_push_last_param: "keeps p q \<Longrightarrow> wp (push_last_param q) (keeps p)"
  using wp_params_push [of p q] by (simp add: push_last_param_def wp_simps)

lemma wp_action_paramnext: "keeps p q \<Longrightarrow> 0x30 \<le> b \<Longrightarrow> wp (action_paramnext q b) (keeps p)"
  by (simp add: action_paramnext_def wp_simps word_le_nat_alt)

lemma wp_intermediates: "keeps p q \<Longrightarrow> wp (intermediates q) (\<lambda>_. True)"
  by (simp add: intermediates_def wp_simps keeps_def parser_wf_def)

lemma wp_action_osc_put_param: "keeps p q \<Longrightarrow> wp (action_osc_put_param q) (keeps p)"
  by (auto simp: action_osc_put_param_def wp_simps Let_def keeps_def same_partial_def parser_wf_def
      nth_list_update MAX_OSC_PARAMS_def less_Suc_eq)

lemma those_Some: "\<forall>x \<in> set xs. f x \<noteq> None \<Longrightarrow> those (map f xs) = Some (map (the \<circ> f) xs)"
  by (induction xs) auto

lemma wp_osc_dispatch: "keeps p q \<Longrightarrow> wp (osc_dispatch q b) (\<lambda>es. \<exists>xs t. es = [OscDispatch xs t])"
proof -
  assume "keeps p q"
  then have wf: "parser_wf q" by (rule keeps_wf)
  have "subslice (osc_raw q) (fst r) (snd r) \<noteq> None"
    if "r \<in> set (take (osc_num_params q) (osc_params q))" for r
    using that wf by (auto simp: parser_wf_def in_set_conv_nth subslice_def)
  then obtain slices where "those (map (\<lambda>(s, e). subslice (osc_raw q) s e)
      (take (osc_num_params q) (osc_params q))) = Some slices"
    by (subst (asm) those_Some) (auto simp: case_prod_unfold those_Some)
  with wf show ?thesis
    by (simp add: osc_dispatch_def wp_simps parser_wf_def)
qed

lemma wp_osc_end: "keeps p q \<Longrightarrow> wp (osc_end q b) (\<lambda>(q', es). keeps p q' \<and> (\<exists>xs t. es = [OscDispatch xs t]))"
  unfolding osc_end_def wp_simps
  by (rule wp_mono [OF wp_action_osc_put_param], assumption,
      rule wp_mono [OF wp_osc_dispatch], assumption) (auto simp: wp_simps keeps_clear_osc)

subsection \<open>One byte\<close>

fun event_wf :: "event \<Rightarrow> bool" where
  \<comment> \<open>a dispatched parameter list is a sequence of groups\<close>
  "event_wf (CsiDispatch ps _ _ _) = (\<exists>gs cur. params_rep ps gs cur)"
| "event_wf (Hook ps _ _ _) = (\<exists>gs cur. params_rep ps gs cur)"
| "event_wf _ = True"

lemma ground_wf: "list_all event_wf (ground_dispatch bs)"
  by (auto simp: list_all_iff ground_dispatch_def ground_event_def)

definition fine :: "parser \<Rightarrow> step \<Rightarrow> bool" where
  "fine p m \<longleftrightarrow> wp m (\<lambda>(q, es). keeps p q \<and> list_all event_wf es)"

named_theorems fine_intros \<open>steps that neither panic nor break the invariant\<close>

lemma fine_Some [fine_intros]: "keeps p q \<Longrightarrow> list_all event_wf es \<Longrightarrow> fine p (Some (q, es))"
  by (simp add: fine_def wp_simps)

lemma fine_stay [fine_intros]: "keeps p q \<Longrightarrow> list_all event_wf es \<Longrightarrow> fine p (stay q es)"
  by (simp add: fine_def wp_simps stay_def)

lemma fine_if [fine_intros]:
  "(c \<Longrightarrow> fine p m) \<Longrightarrow> (\<not> c \<Longrightarrow> fine p n) \<Longrightarrow> fine p (if c then m else n)"
  by simp

lemma fine_goto_state [fine_intros]: "wp m (keeps p) \<Longrightarrow> fine p (goto_state s m)"
  by (simp add: fine_def goto_state_def wp_simps)

lemma fine_quiet [fine_intros]: "wp m (keeps p) \<Longrightarrow> fine p (quiet m)"
  by (simp add: fine_def quiet_def wp_simps)

lemma fine_csi_dispatch [fine_intros]: "keeps p q \<Longrightarrow> fine p (action_csi_dispatch q b)"
  unfolding fine_def action_csi_dispatch_def wp_simps
  by (rule wp_mono [OF wp_push_last_param], assumption,
      rule wp_mono [OF wp_intermediates], assumption)
    (simp add: wp_simps keeps_params_rep)

lemma fine_hook [fine_intros]: "keeps p q \<Longrightarrow> fine p (action_hook q b)"
  unfolding fine_def action_hook_def wp_simps
  by (rule wp_mono [OF wp_push_last_param], assumption,
      rule wp_mono [OF wp_intermediates], assumption)
    (simp add: wp_simps keeps_params_rep)

lemma fine_esc_dispatch [fine_intros]: "keeps p q \<Longrightarrow> fine p (action_esc_dispatch q b)"
  unfolding fine_def action_esc_dispatch_def wp_simps
  by (rule wp_mono [OF wp_intermediates], assumption) (simp add: wp_simps)

lemma fine_osc_end:
  "keeps p q \<Longrightarrow> (\<And>q' es. keeps p q' \<Longrightarrow> list_all event_wf es \<Longrightarrow> fine p (f (q', es))) \<Longrightarrow> fine p (Option.bind (osc_end q b) f)"
  unfolding fine_def wp_simps
  by (rule wp_mono [OF wp_osc_end]) auto

lemmas fine_bytes =
  wp_action_collect wp_action_param wp_action_subparam wp_action_paramnext
  wp_action_osc_put_param keeps_reset_params keeps_clear_osc keeps_push_raw fine_osc_end

lemma fine_anywhere [fine_intros]: "keeps p q \<Longrightarrow> fine p (anywhere q b)"
  by (auto simp: anywhere_def intro!: fine_intros keeps_reset_params)

lemma btw_ge: "btw lo hi b \<Longrightarrow> lo \<le> b"
  by (simp add: btw_def)

lemma fine_csi_entry: "keeps p q \<Longrightarrow> fine p (advance_csi_entry q b)"
  by (auto simp: advance_csi_entry_def intro!: fine_intros fine_bytes dest: btw_ge)

lemma fine_csi_ignore: "keeps p q \<Longrightarrow> fine p (advance_csi_ignore q b)"
  by (auto simp: advance_csi_ignore_def intro!: fine_intros fine_bytes)

lemma fine_csi_intermediate: "keeps p q \<Longrightarrow> fine p (advance_csi_intermediate q b)"
  by (auto simp: advance_csi_intermediate_def intro!: fine_intros fine_bytes)

lemma fine_csi_param: "keeps p q \<Longrightarrow> fine p (advance_csi_param q b)"
  by (auto simp: advance_csi_param_def intro!: fine_intros fine_bytes dest: btw_ge)

lemma fine_dcs_entry: "keeps p q \<Longrightarrow> fine p (advance_dcs_entry q b)"
  by (auto simp: advance_dcs_entry_def intro!: fine_intros fine_bytes dest: btw_ge)

lemma fine_dcs_intermediate: "keeps p q \<Longrightarrow> fine p (advance_dcs_intermediate q b)"
  by (auto simp: advance_dcs_intermediate_def intro!: fine_intros fine_bytes)

lemma fine_dcs_param: "keeps p q \<Longrightarrow> fine p (advance_dcs_param q b)"
  by (auto simp: advance_dcs_param_def intro!: fine_intros fine_bytes dest: btw_ge)

lemma fine_dcs_passthrough: "keeps p q \<Longrightarrow> fine p (advance_dcs_passthrough q b)"
  by (auto simp: advance_dcs_passthrough_def intro!: fine_intros fine_bytes)

lemma fine_esc: "keeps p q \<Longrightarrow> fine p (advance_esc q b)"
  by (auto simp: advance_esc_def intro!: fine_intros fine_bytes)

lemma fine_esc_intermediate: "keeps p q \<Longrightarrow> fine p (advance_esc_intermediate q b)"
  by (auto simp: advance_esc_intermediate_def intro!: fine_intros fine_bytes)

lemma fine_osc_string: "keeps p q \<Longrightarrow> fine p (advance_osc_string q b)"
  by (auto simp: advance_osc_string_def action_osc_put_def intro!: fine_intros fine_bytes)

lemma fine_apc_string: "keeps p q \<Longrightarrow> fine p (advance_apc_string q b)"
  unfolding advance_apc_string_def action_apc_put_def Let_def prod.case
  using wp_action_osc_put_param [OF keeps_push_raw, of p q b]
  by (intro fine_if fine_Some fine_stay)
    (auto intro!: keeps_clear_osc keeps_push_raw simp: fine_def wp_simps action_apc_end_def
      dest: keeps_clear_osc [OF keeps_push_raw])

lemma fine_opaque_string: "keeps p q \<Longrightarrow> event_wf e \<Longrightarrow> (\<And>b. event_wf (f b)) \<Longrightarrow> fine p (advance_opaque_string f e q b)"
  by (auto simp: advance_opaque_string_def intro!: fine_intros fine_bytes)

lemma fine_change_state:
  assumes "keeps p q" "pstate q \<noteq> Ground"
  shows "fine p (change_state q b)"
  using assms unfolding change_state_def
  by (cases "pstate q")
    (simp_all add: fine_csi_entry fine_csi_ignore fine_csi_intermediate fine_csi_param
      fine_dcs_entry fine_dcs_intermediate fine_dcs_param fine_dcs_passthrough fine_esc
      fine_esc_intermediate fine_osc_string fine_apc_string fine_opaque_string fine_anywhere)

subsection \<open>Ground state, partial code points and the loops\<close>

text \<open>What a chunk of text leaves behind: progress within the input, and a stored partial
  code point only when the input is used up.\<close>

definition chunk_ok :: "u8 list \<Rightarrow> nat \<Rightarrow> parser \<times> event list \<times> nat \<Rightarrow> bool" where
  "chunk_ok bytes i = (\<lambda>(q, es, n).
     i \<le> n \<and> n \<le> length bytes \<and> parser_inv q \<and> list_all event_wf es \<and>
     (partial_utf8_len q = 0 \<or> n = length bytes))"

lemma wf_to_escape: "parser_wf q \<Longrightarrow> parser_wf (to_escape q)"
  using keeps_reset_params [of q "q\<lparr>pstate := Escape\<rparr>"] keeps_refl [of q]
  by (simp add: to_escape_def keeps_wf)

lemma partial_to_escape [simp]: "partial_utf8_len (to_escape q) = partial_utf8_len q"
  by (simp add: to_escape_def reset_params_def)

lemma cont_bytes_1_Valid: "cont_bytes n 1 bs = Valid m \<longleftrightarrow> m = Suc n \<and> (\<exists>b cs. bs = b # cs \<and> is_cont b)"
  by (cases bs) auto

lemma cont_bytes_2_Valid:
  "cont_bytes n 2 bs = Valid m \<longleftrightarrow> m = n + 2 \<and> (\<exists>b c cs. bs = b # c # cs \<and> is_cont b \<and> is_cont c)"
  by (cases bs; cases "tl bs") (auto simp: numeral_2_eq_2)

lemma len_code_point: "utf8_step bs = Valid n \<Longrightarrow> len_utf8 (code_point (take n bs)) = n"
proof -
  assume v: "utf8_step bs = Valid n"
  then obtain a as where bs: "bs = a # as" by (cases bs) auto
  have two: "len_utf8 ((unat a - 192) * 64 + k) = 2" if "194 \<le> unat a" "unat a \<le> 223" "k < 64" for k
    using that by (auto simp: len_utf8_def)
  have three: "len_utf8 ((unat a - 224) * 4096 + j * 64 + k) = 3"
    if "224 \<le> unat a" "unat a \<le> 239" "unat a = 224 \<Longrightarrow> 32 \<le> j" "j < 64" "k < 64" for j k
    using that by (cases "unat a = 224") (auto simp: len_utf8_def)
  have four: "len_utf8 ((unat a - 240) * 262144 + i * 4096 + j * 64 + k) = 4"
    if "240 \<le> unat a" "unat a = 240 \<Longrightarrow> 16 \<le> i" for i j k
    using that by (cases "unat a = 240") (auto simp: len_utf8_def)
  have eqs: "a = 0xE0 \<longleftrightarrow> unat a = 224" "a = 0xED \<longleftrightarrow> unat a = 237"
    "a = 0xF0 \<longleftrightarrow> unat a = 240" "a = 0xF4 \<longleftrightarrow> unat a = 244"
    by (simp_all add: word_unat_eq_iff)
  note [simp] = word_less_nat_alt word_le_nat_alt is_cont_def
  from v bs show ?thesis
    by (auto split: if_splits list.splits
        simp: eqs cont_bytes_1_Valid [unfolded One_nat_def] cont_bytes_2_Valid code_point_def
          second_of_3_def second_of_4_def len_utf8_def
        intro!: two three four)
qed

context text_lib_spec
begin

lemma plain_chars:
  assumes "bytes \<noteq> []" and "k = (case memchr lib 0x1B bytes of None \<Rightarrow> length bytes | Some i \<Rightarrow> i)"
  shows "k \<le> length bytes" and "k = 0 \<Longrightarrow> 1 \<le> length bytes"
  using assms memchr_Some by (auto split: option.splits simp: Suc_le_eq dest: less_imp_le)

lemma wp_advance_ground:
  assumes "parser_wf q" "partial_utf8_len q = 0" "pstate q = Ground" "bytes \<noteq> []"
  shows "wp (advance_ground lib q bytes) (chunk_ok bytes 1)"
proof -
  define k where "k = (case memchr lib 0x1B bytes of None \<Rightarrow> length bytes | Some i \<Rightarrow> i)"
  note k = plain_chars [OF assms(4) k_def]
  have esc: "parser_inv (to_escape q)"
    using assms by (simp add: parser_inv_def partial_ok_def wf_to_escape)
  have stay: "parser_inv q"
    using assms by (simp add: parser_inv_def partial_ok_def)
  note G = advance_ground_def [of lib q bytes, unfolded Let_def, folded k_def]
  consider (esc) "k = 0" | (ok) "k \<noteq> 0" "std_from_utf8 (take k bytes) = Utf8Ok"
    | (err) v e where "k \<noteq> 0" "std_from_utf8 (take k bytes) = Utf8Err v e"
    by (cases "std_from_utf8 (take k bytes)") auto
  then show ?thesis
  proof cases
    case esc
    with k \<open>parser_inv (to_escape q)\<close> assms show ?thesis
      by (simp add: G wp_simps chunk_ok_def)
  next
    case ok
    with k \<open>parser_inv (to_escape q)\<close> stay assms show ?thesis
      by (simp add: G wp_simps basic chunk_ok_def ground_wf)
  next
    case (err v e)
    note E = std_from_utf8_Err [OF err(2)]
    then have v: "v < k" "v < length bytes" using k by auto
    show ?thesis
    proof (cases e)
      case (Some n)
      with E(3) utf8_step_Invalid [of "drop v (take k bytes)" n]
      have "1 \<le> n" "v + n \<le> length bytes" using k v by auto
      with err Some v k stay assms show ?thesis
        by (simp add: G wp_simps basic compat chunk_ok_def ground_wf)
    next
      case None
      then have inc: "utf8_step (drop v (take k bytes)) = Incomplete" using E(3) by simp
      show ?thesis
      proof (cases "k < length bytes")
        case True
        with err None v k esc assms show ?thesis
          by (simp add: G wp_simps basic compat chunk_ok_def ground_wf)
      next
        case False
        with k have full: "k = length bytes" by simp
        with inc have inc: "utf8_step (drop v bytes) = Incomplete" by simp
        have len: "length bytes - v \<le> 3" using utf8_step_Incomplete [OF inc] by simp
        have four: "length (partial_utf8 q) = 4" using assms(1) by (simp add: parser_wf_def)
        define q' where "q' = q\<lparr>partial_utf8 := drop v bytes @ drop (length bytes - v) (partial_utf8 q),
          partial_utf8_len := length bytes - v\<rparr>"
        have "parser_inv q'"
          using assms inc len four
          by (auto simp: q'_def parser_inv_def partial_ok_def parser_wf_def)
        with err None v full assms len four \<open>bytes \<noteq> []\<close> show ?thesis
          by (simp add: G wp_simps basic compat chunk_ok_def ground_wf q'_def)
      qed
    qed
  qed
qed

lemma first_char_Valid:
  assumes "std_from_utf8 (take v bs) = Utf8Ok" "v \<noteq> 0" "bs \<noteq> []"
  shows "\<exists>n. utf8_step bs = Valid n \<and> n \<le> v \<and> first_char (take v bs) = Some (code_point (take n bs))"
proof -
  have ne: "take v bs \<noteq> []" using assms(2,3) by simp
  with assms(1) obtain n where n: "utf8_step (take v bs) = Valid n"
    by (cases "utf8_step (take v bs)")
      (auto simp: std_from_utf8_def std_utf8.simps [of 0 "take v bs"])
  then have "utf8_step bs = Valid n"
    using utf8_step_append [of "take v bs" "drop v bs"] by simp
  moreover have "n \<le> v" using utf8_step_Valid [OF n] by simp
  ultimately show ?thesis using n ne
    by (auto simp: first_char_def utf8_chars.simps [of "take v bs"] min_absorb1)
qed

lemma wp_advance_partial_utf8:
  assumes "parser_inv q" "partial_utf8_len q \<noteq> 0"
  shows "wp (advance_partial_utf8 lib q bytes) (chunk_ok bytes 0)"
proof -
  define old where "old = take (partial_utf8_len q) (partial_utf8 q)"
  define t where "t = min (length bytes) (4 - partial_utf8_len q)"
  define buf where "buf = old @ take t bytes"
  define q1 where "q1 = q\<lparr>partial_utf8 := buf @ drop (partial_utf8_len q + t) (partial_utf8 q),
    partial_utf8_len := partial_utf8_len q + t\<rparr>"
  from assms have wf: "parser_wf q" and G: "pstate q = Ground"
    and len: "length (partial_utf8 q) = 4" "partial_utf8_len q \<le> 3" "length old = partial_utf8_len q"
    and inc: "utf8_step old = Incomplete"
    by (auto simp: parser_inv_def partial_ok_def parser_wf_def old_def)
  have t: "t \<le> length bytes" "partial_utf8_len q + t \<le> 4" using len by (auto simp: t_def)
  have lbuf: "length buf = partial_utf8_len q + t" using t len by (simp add: buf_def)
  have ne: "buf \<noteq> []" using lbuf assms(2) by auto
  have wf1: "parser_wf q1"
    using wf t len lbuf by (auto simp: q1_def parser_wf_def)
  have inv0: "parser_inv (q1\<lparr>partial_utf8_len := 0\<rparr>)"
    using wf1 by (auto simp: parser_inv_def partial_ok_def parser_wf_def)
  have bufs: "take v (partial_utf8 q1) = take v buf" if "v \<le> length buf" for v
    using that by (simp add: q1_def)
  have A: "advance_partial_utf8 lib q bytes =
    (if basic_from_utf8 lib buf then do {
       c \<leftarrow> first_char buf;
       n \<leftarrow> usub (len_utf8 c) (partial_utf8_len q);
       Some (q1\<lparr>partial_utf8_len := 0\<rparr>, [Print c], n)
     }
     else (case compat_from_utf8 lib buf of
       Utf8Ok \<Rightarrow> None
     | Utf8Err valid_bytes error_len \<Rightarrow>
         if valid_bytes > 0 then do {
           parsed \<leftarrow> subslice (partial_utf8 q1) 0 valid_bytes;
           c \<leftarrow> first_char parsed;
           n \<leftarrow> usub valid_bytes (partial_utf8_len q);
           Some (q1\<lparr>partial_utf8_len := 0\<rparr>, [Print c], n)
         }
         else (case error_len of
           Some invalid_len \<Rightarrow> do {
             n \<leftarrow> usub invalid_len (partial_utf8_len q);
             Some (q1\<lparr>partial_utf8_len := 0\<rparr>, [Print REPLACEMENT], n)
           }
         | None \<Rightarrow> Some (q1, [], t))))"
  proof -
    have 1: "usub (length (partial_utf8 q)) (partial_utf8_len q) = Some (4 - partial_utf8_len q)"
      using len by (simp add: usub_def)
    have 2: "subslice bytes 0 t = Some (take t bytes)" using t by (simp add: subslice_def)
    have 3: "copy_into (partial_utf8 q) (partial_utf8_len q) (partial_utf8_len q + t)
        (take t bytes) = Some (partial_utf8 q1)"
      using t len by (simp add: copy_into_def q1_def buf_def old_def)
    have 4: "q\<lparr>partial_utf8 := partial_utf8 q1, partial_utf8_len := partial_utf8_len q + t\<rparr> = q1"
      by (simp add: q1_def)
    have 5: "subslice (partial_utf8 q1) 0 (partial_utf8_len q1) = Some buf"
      using t lbuf len bufs [of "length buf"] by (simp add: subslice_def q1_def)
    show ?thesis
      unfolding advance_partial_utf8_def Let_def 1 Option.bind.simps t_def [symmetric] 2 3 4 5 ..
  qed
  show ?thesis
  proof (cases "std_from_utf8 buf")
    case Utf8Ok
    then obtain n where n: "utf8_step buf = Valid n" "n \<le> length buf"
      "first_char buf = Some (code_point (take n buf))"
      using first_char_Valid [of "length buf" buf] ne by auto
    have "partial_utf8_len q < n"
      using utf8_step_prefix_Valid [OF inc] n(1) len by (simp add: buf_def)
    then show ?thesis
      using n Utf8Ok inv0 lbuf t
      by (simp add: A wp_simps basic len_code_point chunk_ok_def)
  next
    case (Utf8Err v e)
    note E = std_from_utf8_Err [OF Utf8Err]
    show ?thesis
    proof (cases "v = 0")
      case False
      then obtain n where n: "utf8_step buf = Valid n" "n \<le> v"
        "first_char (take v buf) = Some (code_point (take n buf))"
        using first_char_Valid [OF E(2) _ ne] by auto
      have "partial_utf8_len q < n"
        using utf8_step_prefix_Valid [OF inc] n(1) len by (simp add: buf_def)
      then show ?thesis
        using n Utf8Err False E(1) inv0 lbuf t bufs [of v] len
        by (simp add: A wp_simps basic compat chunk_ok_def q1_def)
    next
      case v0: True
      show ?thesis
      proof (cases e)
        case (Some m)
        with E(3) v0 have m: "utf8_step buf = Invalid m" by simp
        then have "partial_utf8_len q \<le> m"
          using utf8_step_prefix_Invalid [OF inc] len by (simp add: buf_def)
        moreover have "m \<le> length buf" using utf8_step_Invalid [OF m] by simp
        ultimately show ?thesis
          using Some Utf8Err v0 inv0 lbuf t
          by (simp add: A wp_simps basic compat chunk_ok_def)
      next
        case None
        with E(3) v0 have m: "utf8_step buf = Incomplete" by simp
        from utf8_step_Incomplete [OF this] lbuf have "t = length bytes"
          by (auto simp: t_def)
        moreover have "parser_inv q1"
          using wf1 m lbuf G utf8_step_Incomplete [OF m] bufs [of "length buf"]
          by (auto simp: parser_inv_def partial_ok_def q1_def)
        ultimately show ?thesis
          using None Utf8Err v0 by (simp add: A wp_simps basic compat chunk_ok_def)
      qed
    qed
  qed
qed

lemma wp_advance_start: "parser_inv q \<Longrightarrow> wp (advance_start lib q bytes) (chunk_ok bytes 0)"
  using wp_advance_partial_utf8 [of q bytes]
  by (simp add: advance_start_def wp_simps chunk_ok_def)

lemma wp_advance_once:
  assumes "parser_inv q" "partial_utf8_len q = 0" "i < length bytes"
  shows "wp (advance_once lib q bytes i) (chunk_ok bytes (Suc i))"
proof (cases "pstate q = Ground")
  case True
  have "drop i bytes \<noteq> []" using assms(3) by simp
  from wp_advance_ground [OF _ assms(2) True this] assms
  have "wp (advance_ground lib q (drop i bytes)) (chunk_ok (drop i bytes) 1)"
    by (simp add: parser_inv_def)
  then show ?thesis
    using True assms(3)
    by (auto simp: advance_once_def wp_simps chunk_ok_def elim!: wp_mono)
next
  case False
  from fine_change_state [OF keeps_refl False] assms
  have "wp (change_state q (bytes ! i)) (\<lambda>(q', es). keeps q q' \<and> list_all event_wf es)"
    by (simp add: fine_def parser_inv_def)
  then show ?thesis
    using False assms
    by (auto simp: advance_once_def wp_simps chunk_ok_def keeps_def same_partial_def
        parser_inv_def partial_ok_def elim!: wp_mono)
qed

text \<open>Termination and totality of the loop, by the number of bytes left.\<close>

lemma wp_advance_loop:
  assumes "parser_inv q" "partial_utf8_len q = 0 \<or> i = length bytes" "i \<le> length bytes" "list_all event_wf es"
  shows "wp (advance_loop lib q bytes i es) (\<lambda>(q', es'). parser_inv q' \<and> list_all event_wf es')"
  using assms
proof (induction "length bytes - i" arbitrary: q i es rule: less_induct)
  case less
  show ?case
  proof (cases "i = length bytes")
    case True
    with less.prems show ?thesis by (simp add: advance_loop.simps wp_simps)
  next
    case False
    with less.prems have "wp (advance_once lib q bytes i) (chunk_ok bytes (Suc i))"
      by (intro wp_advance_once) auto
    then obtain q' es' j where once: "advance_once lib q bytes i = Some (q', es', j)"
      and ok: "chunk_ok bytes (Suc i) (q', es', j)"
      by (metis prod_cases3 wpE)
    from ok have "wp (advance_loop lib q' bytes j (es @ es')) (\<lambda>(q', es'). parser_inv q' \<and> list_all event_wf es')"
      using False less.prems by (intro less.hyps) (auto simp: chunk_ok_def)
    with once False show ?thesis
      by (subst advance_loop.simps) simp
  qed
qed

lemma wp_advance: "parser_inv q \<Longrightarrow> wp (advance lib q bytes) (\<lambda>(q', es). parser_inv q' \<and> list_all event_wf es)"
  unfolding advance_def wp_simps
  by (rule wp_mono [OF wp_advance_start], assumption)
    (auto simp: chunk_ok_def wp_simps intro!: wp_advance_loop)

lemma wp_advance_until_loop:
  assumes "parser_inv q" "partial_utf8_len q = 0 \<or> i = length bytes" "i \<le> length bytes"
  shows "wp (advance_until_loop lib stop q bytes i es)
    (\<lambda>(q', es', n). parser_inv q' \<and> i \<le> n \<and> n \<le> length bytes \<and> (n < length bytes \<longrightarrow> stop es'))"
  using assms
proof (induction "length bytes - i" arbitrary: q i es rule: less_induct)
  case less
  show ?case
  proof (cases "i = length bytes \<or> stop es")
    case True
    with less.prems show ?thesis by (auto simp: advance_until_loop.simps wp_simps)
  next
    case False
    with less.prems have "wp (advance_once lib q bytes i) (chunk_ok bytes (Suc i))"
      by (intro wp_advance_once) auto
    then obtain q' es' j where once: "advance_once lib q bytes i = Some (q', es', j)"
      and ok: "chunk_ok bytes (Suc i) (q', es', j)"
      by (metis prod_cases3 wpE)
    from ok have "wp (advance_until_loop lib stop q' bytes j (es @ es'))
      (\<lambda>(q', es', n). parser_inv q' \<and> j \<le> n \<and> n \<le> length bytes \<and> (n < length bytes \<longrightarrow> stop es'))"
      using False less.prems by (intro less.hyps) (auto simp: chunk_ok_def)
    then have "wp (advance_until_loop lib stop q' bytes j (es @ es'))
      (\<lambda>(q', es', n). parser_inv q' \<and> i \<le> n \<and> n \<le> length bytes \<and> (n < length bytes \<longrightarrow> stop es'))"
      by (rule wp_mono) (use ok in \<open>auto simp: chunk_ok_def\<close>)
    with once False show ?thesis
      by (subst advance_until_loop.simps) simp
  qed
qed

end

end
