(* ===== verification/CopaRun.thy ===== *)
theory CopaRun
  imports CopaInv
begin

text \<open>
  The parser as a function of the remaining input: the loop of \<open>advance\<close> restated as a
  recursion over a suffix (\<open>run\<close>), its equations for one byte, and what it does with whole
  control sequences.
\<close>

definition run :: "text_lib \<Rightarrow> parser \<Rightarrow> u8 list \<Rightarrow> (parser \<times> event list) option" where
  "run lib p bytes = advance_loop lib p bytes 0 []"

definition after :: "event list \<Rightarrow> (parser \<times> event list) option \<Rightarrow> (parser \<times> event list) option" where
  "after es m = map_option (\<lambda>(q, es'). (q, es @ es')) m"

lemma after_Nil [simp]: "after [] m = m"
  by (cases m) (auto simp: after_def)

lemma after_after [simp]: "after es (after es' m) = after (es @ es') m"
  by (cases m) (auto simp: after_def)

lemma after_Some [simp]: "after es (Some (q, es')) = Some (q, es @ es')"
  by (simp add: after_def)

lemma bind_Some_map: "Option.bind m (\<lambda>x. Some (f x)) = map_option f m"
  by (cases m) simp_all

lemma advance_once_drop:
  assumes "i \<le> length bytes"
  shows "advance_once lib q bytes i =
    map_option (\<lambda>(p, es, n). (p, es, i + n)) (advance_once lib q (drop i bytes) 0)"
  using assms
  by (auto simp: advance_once_def subslice_def idx_def bind_Some_map case_prod_unfold option.map_comp
      comp_def)

context text_lib_spec
begin

lemma advance_loop_drop:
  assumes "parser_inv q" "partial_utf8_len q = 0 \<or> i = length bytes" "i \<le> length bytes"
  shows "advance_loop lib q bytes i es = after es (run lib q (drop i bytes))"
  using assms
proof (induction "length bytes - i" arbitrary: q bytes i es rule: less_induct)
  case less
  show ?case
  proof (cases "i = length bytes")
    case True
    then show ?thesis by (simp add: advance_loop.simps run_def)
  next
    case False
    with less.prems have i: "i < length bytes" "partial_utf8_len q = 0" by auto
    from wp_advance_once [OF less.prems(1) i(2), of 0 "drop i bytes"] i
    obtain q' es' n where once: "advance_once lib q (drop i bytes) 0 = Some (q', es', n)"
      and ok: "chunk_ok (drop i bytes) 1 (q', es', n)"
      by (auto elim!: wpE)
    note once' = advance_once_drop [OF less.prems(3), of lib q, unfolded once, simplified]
    from ok have n: "1 \<le> n" "n \<le> length bytes - i" "parser_inv q'"
      "partial_utf8_len q' = 0 \<or> n = length bytes - i"
      by (auto simp: chunk_ok_def)
    have "advance_loop lib q bytes i es = advance_loop lib q' bytes (i + n) (es @ es')"
      using False once' by (subst advance_loop.simps) simp
    also have "\<dots> = after (es @ es') (run lib q' (drop (i + n) bytes))"
      using n i by (intro less.hyps) auto
    also have "\<dots> = after es (after es' (run lib q' (drop n (drop i bytes))))"
      by (simp add: add.commute)
    also have "after es' (run lib q' (drop n (drop i bytes))) = advance_loop lib q' (drop i bytes) n es'"
      using n i by (intro less.hyps [symmetric]) auto
    also have "\<dots> = run lib q (drop i bytes)"
      unfolding run_def using i once by (subst (2) advance_loop.simps) simp
    finally show ?thesis .
  qed
qed

lemma run_once:
  assumes "parser_inv q" "partial_utf8_len q = 0" "bytes \<noteq> []"
    and "advance_once lib q bytes 0 = Some (q', es, n)"
  shows "run lib q bytes = after es (run lib q' (drop n bytes))"
proof -
  have "chunk_ok bytes 1 (q', es, n)"
    using wp_advance_once [OF assms(1,2), of 0 bytes] assms(3,4) by (simp add: wp_simps)
  moreover have "run lib q bytes = advance_loop lib q' bytes n es"
    unfolding run_def using assms(3,4) by (subst advance_loop.simps) simp
  ultimately show ?thesis
    using advance_loop_drop [of q' n bytes es] by (auto simp: chunk_ok_def)
qed

lemma run_Nil [simp]: "run lib q [] = Some (q, [])"
  by (simp add: run_def advance_loop.simps)

text \<open>One byte outside the ground state.\<close>

lemma run_byte:
  assumes "parser_inv q" "pstate q \<noteq> Ground" "change_state q b = Some (q', es)"
  shows "run lib q (b # bs) = after es (run lib q' bs)"
proof -
  have "partial_utf8_len q = 0" using assms(1,2) by (auto simp: parser_inv_def partial_ok_def)
  with run_once [OF assms(1) this, of "b # bs" q' es 1] assms(2,3)
  show ?thesis by (simp add: advance_once_def idx_def)
qed

lemma inv_change_state:
  assumes "parser_inv q" "pstate q \<noteq> Ground" "change_state q b = Some (q', es)"
  shows "parser_inv q'"
proof -
  from assms(1,2) have "parser_wf q" "partial_utf8_len q = 0"
    by (auto simp: parser_inv_def partial_ok_def)
  with fine_change_state [OF keeps_refl assms(2), where b = b] assms(3) show ?thesis
    by (simp add: fine_def wp_simps keeps_def same_partial_def parser_inv_def partial_ok_def)
qed

text \<open>In the ground state: an escape character, and a run of text without one.\<close>

lemma run_escape:
  assumes "parser_inv q" "partial_utf8_len q = 0" "pstate q = Ground"
  shows "run lib q (0x1B # bs) = run lib (to_escape q) bs"
proof -
  have "memchr lib 0x1B (0x1B # bs) = Some 0" using memchr_present [of "0x1B" "[]" bs] by simp
  then have "advance_once lib q (0x1B # bs) 0 = Some (to_escape q, [], 1)"
    using assms(3) by (simp add: advance_once_def advance_ground_def subslice_def)
  from run_once [OF assms(1,2) _ this] show ?thesis by simp
qed

lemma run_text_escape:
  assumes "parser_inv q" "partial_utf8_len q = 0" "pstate q = Ground"
    and "std_from_utf8 text = Utf8Ok" "0x1B \<notin> set text"
  shows "run lib q (text @ 0x1B # bs) = after (ground_dispatch text) (run lib (to_escape q) bs)"
proof (cases "text = []")
  case True
  with run_escape [OF assms(1,2,3)] show ?thesis by (simp add: ground_dispatch_def)
next
  case False
  have "memchr lib 0x1B (text @ 0x1B # bs) = Some (length text)"
    using assms(5) by (rule memchr_present)
  with False have "advance_once lib q (text @ 0x1B # bs) 0
      = Some (to_escape q, ground_dispatch text, length text + 1)"
    using assms(3,4)
    by (simp add: advance_once_def advance_ground_def subslice_def basic Let_def)
  from run_once [OF assms(1,2) _ this] show ?thesis by simp
qed

lemma run_text:
  assumes "parser_inv q" "partial_utf8_len q = 0" "pstate q = Ground"
    and "std_from_utf8 text = Utf8Ok" "0x1B \<notin> set text"
  shows "run lib q text = Some (q, ground_dispatch text)"
proof (cases "text = []")
  case True
  then show ?thesis by (simp add: ground_dispatch_def)
next
  case False
  have "memchr lib 0x1B text = None" using assms(5) by (rule memchr_absent)
  with False have "advance_once lib q text 0 = Some (q, ground_dispatch text, length text)"
    using assms(3,4)
    by (simp add: advance_once_def advance_ground_def subslice_def basic Let_def)
  from run_once [OF assms(1,2) False this] show ?thesis by simp
qed

lemma advance_run:
  assumes "parser_inv q" "partial_utf8_len q = 0"
  shows "advance lib q bytes = run lib q bytes"
  using assms by (simp add: advance_def advance_start_def run_def)

end

end
