(* ===== verification/CopaSpec.thy ===== *)
theory CopaSpec
  imports CopaRun
begin

text \<open>
  What whole control sequences do: a rendered CSI sequence is dispatched with exactly the
  parameters, subparameters and intermediates it was rendered from, an OSC string with
  exactly its parameters, and text is printed character by character.
\<close>

subsection \<open>Composition of inputs\<close>

definition leads :: "text_lib \<Rightarrow> parser \<Rightarrow> u8 list \<Rightarrow> parser \<Rightarrow> event list \<Rightarrow> bool" where
  "leads lib p bs q es \<longleftrightarrow> (\<forall>rest. run lib p (bs @ rest) = after es (run lib q rest))"

lemma leads_Nil [simp]: "leads lib p [] p []"
  by (simp add: leads_def)

lemma leads_trans: "leads lib p as q es \<Longrightarrow> leads lib q bs r es' \<Longrightarrow> leads lib p (as @ bs) r (es @ es')"
  by (simp add: leads_def)

lemma leads_trans_quiet: "leads lib p as q [] \<Longrightarrow> leads lib q bs r es \<Longrightarrow> leads lib p (as @ bs) r es"
  using leads_trans [of lib p as q "[]" bs r es] by simp

lemma leads_Cons_quiet: "leads lib p [a] q [] \<Longrightarrow> leads lib q bs r es \<Longrightarrow> leads lib p (a # bs) r es"
  using leads_trans_quiet [of lib p "[a]"] by simp

context text_lib_spec
begin

lemma leads_byte:
  assumes "parser_inv p" "pstate p \<noteq> Ground" "change_state p b = Some (q, es)"
  shows "leads lib p [b] q es"
  using run_byte [OF assms] by (simp add: leads_def)

lemma leads_run: "leads lib p bs q es \<Longrightarrow> run lib p bs = Some (q, es)"
  unfolding leads_def by (drule spec [of _ "[]"]) simp

end

subsection \<open>Rendering\<close>

fun decimal :: "nat \<Rightarrow> u8 list" where
  "decimal n = (if n < 10 then [byte (48 + n)] else decimal (n div 10) @ [byte (48 + n mod 10)])"

declare decimal.simps [simp del]

fun render_group :: "nat list \<Rightarrow> u8 list" where
  "render_group [] = []"
| "render_group [n] = decimal n"
| "render_group (n # m # ns) = decimal n @ 0x3A # render_group (m # ns)"

fun render_groups :: "nat list list \<Rightarrow> u8 list" where
  "render_groups [] = []"
| "render_groups [g] = render_group g"
| "render_groups (g # h # gs) = render_group g @ 0x3B # render_groups (h # gs)"

definition sat16 :: "nat \<Rightarrow> u16" where
  \<comment> \<open>the largest value a parameter can hold is 65535\<close>
  "sat16 n = word_of_nat (min 65535 n)"

definition render_csi :: "u8 list \<Rightarrow> nat list list \<Rightarrow> u8 list \<Rightarrow> u8 \<Rightarrow> u8 list" where
  \<comment> \<open>\<open>ESC [\<close>, a private marker or none, the parameters, the intermediates, the final byte\<close>
  "render_csi marker gs ints f = 0x1B # 0x5B # marker @ render_groups gs @ ints @ [f]"

subsection \<open>Numbers and parameters\<close>

definition csi_at :: "vt_state set \<Rightarrow> parser \<Rightarrow> u16 list list \<Rightarrow> u16 list \<Rightarrow> u16 \<Rightarrow> u8 list \<Rightarrow> bool" where
  "csi_at S p gs cur v ints \<longleftrightarrow>
     parser_inv p \<and> pstate p \<in> S \<and> params_rep (pparams p) gs cur \<and> param p = v \<and>
     \<not> ignoring p \<and> intermediate_idx p = length ints \<and>
     take (length ints) (intermediates_arr p) = ints"

abbreviation "in_params \<equiv> {CsiEntry, CsiParam}"

lemma csi_at_mono: "csi_at S p gs cur v ints \<Longrightarrow> S \<subseteq> T \<Longrightarrow> csi_at T p gs cur v ints"
  by (auto simp: csi_at_def)

lemma csi_at_notfull:
  "csi_at S p gs cur v ints \<Longrightarrow> length (concat gs) + length cur < MAX_PARAMS \<Longrightarrow>
   \<not> params_is_full (pparams p)"
  by (simp add: csi_at_def params_rep_def params_is_full_def)

lemma unat_sat16 [simp]: "unat (sat16 n) = min 65535 n"
  by (simp add: sat16_def unat_of_nat)

lemma sat16_0 [simp]: "sat16 0 = 0"
  by (simp add: sat16_def)

lemma sat16_digit:
  "d \<le> 9 \<Longrightarrow> u16_saturating_add (u16_saturating_mul (sat16 n) 10) (word_of_nat d) = sat16 (10 * n + d)"
  by (simp add: u16_saturating_add_def u16_saturating_mul_def unat_of_nat sat16_def
      min_def mult.commute)

lemma digit_range:
  "d \<le> 9 \<Longrightarrow> \<not> c0 (byte (48 + d))" "d \<le> 9 \<Longrightarrow> btw 0x30 0x39 (byte (48 + d))"
  "d \<le> 9 \<Longrightarrow> \<not> btw 0x20 0x2F (byte (48 + d))"
  by (simp_all add: c0_def btw_def byte_compare)

lemma change_digit:
  assumes "csi_at in_params p gs cur (sat16 n) ints" "d \<le> 9"
    and "length (concat gs) + length cur < MAX_PARAMS"
  shows "\<exists>q. change_state p (byte (48 + d)) = Some (q, []) \<and>
    csi_at {CsiParam} q gs cur (sat16 (10 * n + d)) ints"
proof -
  have nf: "\<not> params_is_full (pparams p)" using csi_at_notfull [OF assms(1,3)] .
  let ?q = "p\<lparr>param := sat16 (10 * n + d), pstate := CsiParam\<rparr>"
  from assms nf have "change_state p (byte (48 + d)) = Some (?q, [])"
    by (auto simp: csi_at_def change_state_def advance_csi_entry_def advance_csi_param_def
        digit_range goto_state_def quiet_def action_paramnext_def usub_def unat_byte sat16_digit)
  moreover from this assms(1) have "parser_inv ?q"
    by (auto simp: csi_at_def parser_inv_def parser_wf_def partial_ok_def)
  ultimately show ?thesis using assms(1) by (simp add: csi_at_def)
qed

lemma change_separator:
  assumes "csi_at {CsiParam} p gs cur v ints" "length (concat gs) + length cur < MAX_PARAMS"
  shows "\<exists>q. change_state p 0x3A = Some (q, []) \<and> csi_at {CsiParam} q gs (cur @ [v]) 0 ints"
    and "\<exists>q. change_state p 0x3B = Some (q, []) \<and> csi_at {CsiParam} q (gs @ [cur @ [v]]) [] 0 ints"
proof -
  have nf: "\<not> params_is_full (pparams p)" using csi_at_notfull [OF assms] .
  have st: "pstate p = CsiParam" and rep: "params_rep (pparams p) gs cur" and v: "param p = v"
    using assms(1) by (auto simp: csi_at_def)
  obtain ps where ps: "params_extend (pparams p) v = Some ps" "params_rep ps gs (cur @ [v])"
    using params_extend_rep [OF rep nf] by blast
  then have "change_state p 0x3A = Some (p\<lparr>pparams := ps, param := 0\<rparr>, [])"
    using st nf v by (simp add: change_state_def advance_csi_param_def c0_def btw_def quiet_def
        action_subparam_def)
  with ps assms(1) show "\<exists>q. change_state p 0x3A = Some (q, []) \<and> csi_at {CsiParam} q gs (cur @ [v]) 0 ints"
    by (auto simp: csi_at_def parser_inv_def parser_wf_def partial_ok_def)
  obtain ps where ps: "params_push (pparams p) v = Some ps" "params_rep ps (gs @ [cur @ [v]]) []"
    using params_push_rep [OF rep nf] by blast
  then have "change_state p 0x3B = Some (p\<lparr>pparams := ps, param := 0\<rparr>, [])"
    using st nf v by (simp add: change_state_def advance_csi_param_def c0_def btw_def quiet_def
        action_param_def)
  with ps assms(1) show "\<exists>q. change_state p 0x3B = Some (q, []) \<and>
      csi_at {CsiParam} q (gs @ [cur @ [v]]) [] 0 ints"
    by (auto simp: csi_at_def parser_inv_def parser_wf_def partial_ok_def)
qed

lemma csi_at_live: "csi_at S p gs cur v ints \<Longrightarrow> Ground \<notin> S \<Longrightarrow> parser_inv p \<and> pstate p \<noteq> Ground"
  by (auto simp: csi_at_def)

context text_lib_spec
begin

lemma leads_digit:
  assumes "csi_at in_params p gs cur (sat16 n) ints" "d \<le> 9"
    and "length (concat gs) + length cur < MAX_PARAMS"
  shows "\<exists>q. leads lib p [byte (48 + d)] q [] \<and> csi_at {CsiParam} q gs cur (sat16 (10 * n + d)) ints"
proof -
  have "parser_inv p" "pstate p \<noteq> Ground" using csi_at_live [OF assms(1)] by auto
  then show ?thesis using change_digit [OF assms] leads_byte by blast
qed

lemma leads_decimal:
  assumes "csi_at in_params p gs cur 0 ints" "length (concat gs) + length cur < MAX_PARAMS"
  shows "\<exists>q. leads lib p (decimal n) q [] \<and> csi_at {CsiParam} q gs cur (sat16 n) ints"
  using assms
proof (induction n rule: decimal.induct)
  case (1 n)
  show ?case
  proof (cases "n < 10")
    case True
    with leads_digit [of p gs cur 0 ints n] "1.prems" show ?thesis
      by (simp add: decimal.simps)
  next
    case False
    with "1.IH" "1.prems" obtain q where q: "leads lib p (decimal (n div 10)) q []"
      "csi_at {CsiParam} q gs cur (sat16 (n div 10)) ints" by blast
    have "n mod 10 \<le> 9" by arith
    from leads_digit [OF csi_at_mono [OF q(2)] this] "1.prems"
    obtain r where r: "leads lib q [byte (48 + n mod 10)] r []"
      "csi_at {CsiParam} r gs cur (sat16 n) ints" by auto
    with leads_trans_quiet [OF q(1) r(1)] False show ?thesis
      by (subst decimal.simps) auto
  qed
qed

lemma leads_separator:
  assumes "csi_at {CsiParam} p gs cur v ints" "length (concat gs) + length cur < MAX_PARAMS"
  shows "\<exists>q. leads lib p [0x3A] q [] \<and> csi_at {CsiParam} q gs (cur @ [v]) 0 ints"
    and "\<exists>q. leads lib p [0x3B] q [] \<and> csi_at {CsiParam} q (gs @ [cur @ [v]]) [] 0 ints"
proof -
  have "parser_inv p" "pstate p \<noteq> Ground" using csi_at_live [OF assms(1)] by auto
  with change_separator [OF assms] leads_byte
  show "\<exists>q. leads lib p [0x3A] q [] \<and> csi_at {CsiParam} q gs (cur @ [v]) 0 ints"
    and "\<exists>q. leads lib p [0x3B] q [] \<and> csi_at {CsiParam} q (gs @ [cur @ [v]]) [] 0 ints"
    by blast+
qed

lemma leads_group:
  assumes "g \<noteq> []" "csi_at in_params p gs cur 0 ints"
    and "length (concat gs) + length cur + length g \<le> MAX_PARAMS"
  shows "\<exists>q. leads lib p (render_group g) q [] \<and>
    csi_at {CsiParam} q gs (cur @ map sat16 (butlast g)) (sat16 (last g)) ints"
  using assms
proof (induction g arbitrary: p cur rule: render_group.induct)
  case 1
  then show ?case by simp
next
  case (2 n)
  then show ?case using leads_decimal [OF "2.prems"(2)] by simp
next
  case (3 n m ns)
  have room: "length (concat gs) + length cur < MAX_PARAMS" using "3.prems" by simp
  obtain q where q: "leads lib p (decimal n) q []" "csi_at {CsiParam} q gs cur (sat16 n) ints"
    using leads_decimal [OF "3.prems"(2) room] by blast
  obtain r where r: "leads lib q [0x3A] r []" "csi_at {CsiParam} r gs (cur @ [sat16 n]) 0 ints"
    using leads_separator(1) [OF q(2) room] by blast
  obtain t where t: "leads lib r (render_group (m # ns)) t []"
    "csi_at {CsiParam} t gs ((cur @ [sat16 n]) @ map sat16 (butlast (m # ns)))
       (sat16 (last (m # ns))) ints"
    using "3.IH" [OF _ csi_at_mono [OF r(2)]] "3.prems"(3) by auto
  from leads_trans_quiet [OF q(1) leads_Cons_quiet [OF r(1) t(1)]] t(2) show ?case by auto
qed

lemma leads_groups:
  assumes "G \<noteq> []" "\<forall>g \<in> set G. g \<noteq> []" "csi_at in_params p gs [] 0 ints"
    and "length (concat gs) + length (concat G) \<le> MAX_PARAMS"
  shows "\<exists>q. leads lib p (render_groups G) q [] \<and>
    csi_at {CsiParam} q (gs @ map (map sat16) (butlast G)) (map sat16 (butlast (last G)))
      (sat16 (last (last G))) ints"
  using assms
proof (induction G arbitrary: p gs rule: render_groups.induct)
  case 1
  then show ?case by simp
next
  case (2 g)
  then show ?case using leads_group [OF _ "2.prems"(3)] by simp
next
  case (3 g h G)
  from "3.prems"(2) have ne: "g \<noteq> []" by simp
  obtain q where q: "leads lib p (render_group g) q []"
    "csi_at {CsiParam} q gs (map sat16 (butlast g)) (sat16 (last g)) ints"
    using leads_group [OF ne "3.prems"(3)] "3.prems"(4) by auto
  have "length (concat gs) + length (map sat16 (butlast g)) < MAX_PARAMS"
    using "3.prems"(4) ne by (cases g) auto
  from leads_separator(2) [OF q(2) this]
  obtain r where r: "leads lib q [0x3B] r []"
    "csi_at {CsiParam} r (gs @ [map sat16 (butlast g) @ [sat16 (last g)]]) [] 0 ints" by blast
  have g: "map sat16 (butlast g) @ [sat16 (last g)] = map sat16 g"
    using ne by (metis append_butlast_last_id list.simps(8,9) map_append)
  obtain t where t: "leads lib r (render_groups (h # G)) t []"
    "csi_at {CsiParam} t ((gs @ [map sat16 g]) @ map (map sat16) (butlast (h # G)))
      (map sat16 (butlast (last (h # G)))) (sat16 (last (last (h # G)))) ints"
    using "3.IH" [OF _ _ csi_at_mono [OF r(2) [unfolded g]]] "3.prems"(2,4) by auto
  from leads_trans_quiet [OF q(1) leads_Cons_quiet [OF r(1) t(1)]] t(2) show ?case by auto
qed

end

subsection \<open>Markers, intermediates and the final byte\<close>

text \<open>The sequences the theorem is about.\<close>

definition csi_wf :: "u8 list \<Rightarrow> nat list list \<Rightarrow> u8 list \<Rightarrow> u8 \<Rightarrow> bool" where
  "csi_wf marker G ints f \<longleftrightarrow>
     G \<noteq> [] \<and> (\<forall>g \<in> set G. g \<noteq> []) \<and> length (concat G) \<le> MAX_PARAMS \<and>
     length marker \<le> 1 \<and> (\<forall>m \<in> set marker. btw 0x3C 0x3F m) \<and> (\<forall>i \<in> set ints. btw 0x20 0x2F i) \<and>
     length marker + length ints \<le> MAX_INTERMEDIATES \<and> btw 0x40 0x7E f"

lemma take_collect:
  "length xs = n \<Longrightarrow> n < length ys \<Longrightarrow> take n ys = xs \<Longrightarrow> take (Suc n) (ys[n := x]) = xs @ [x]"
  by (simp add: take_Suc_conv_app_nth)

lemma csi_at_collect:
  assumes "csi_at S p gs cur v ints" "length ints < MAX_INTERMEDIATES"
    and q: "q = p\<lparr>intermediates_arr := (intermediates_arr p)[length ints := b],
      intermediate_idx := length ints + 1, pstate := s\<rparr>" and "s \<noteq> Ground" "Ground \<notin> S"
  shows "action_collect p b = Some (p\<lparr>intermediates_arr := (intermediates_arr p)[length ints := b],
      intermediate_idx := length ints + 1\<rparr>)"
    and "csi_at {s} q gs cur v (ints @ [b])"
proof -
  have p: "parser_inv p" "pstate p \<noteq> Ground" and i: "intermediate_idx p = length ints"
    and l: "length (intermediates_arr p) = MAX_INTERMEDIATES"
    and t: "take (length ints) (intermediates_arr p) = ints"
    using assms by (auto simp: csi_at_def parser_inv_def parser_wf_def)
  show "action_collect p b = Some (p\<lparr>intermediates_arr := (intermediates_arr p)[length ints := b],
      intermediate_idx := length ints + 1\<rparr>)"
    using i l assms(2) by (simp add: action_collect_def upd_def)
  have "parser_inv q"
    using p q l assms(2) by (auto simp: parser_inv_def parser_wf_def partial_ok_def)
  moreover have "take (Suc (length ints)) (intermediates_arr q) = ints @ [b]"
    using take_collect [OF refl _ t] l assms(2) q by simp
  ultimately show "csi_at {s} q gs cur v (ints @ [b])"
    using assms(1) q by (simp add: csi_at_def)
qed

context text_lib_spec
begin

lemma leads_marker:
  assumes "csi_at {CsiEntry} p gs cur v ints" "length ints < MAX_INTERMEDIATES" "btw 0x3C 0x3F m"
  shows "\<exists>q. leads lib p [m] q [] \<and> csi_at {CsiParam} q gs cur v (ints @ [m])"
proof -
  have r: "\<not> c0 m" "\<not> btw 0x20 0x2F m" "\<not> btw 0x30 0x39 m" "m \<noteq> 0x3A" "m \<noteq> 0x3B"
    using assms(3) by (auto simp: c0_def btw_def word_le_nat_alt)
  note c = csi_at_collect [OF assms(1,2) refl, of CsiParam m, simplified]
  have step: "change_state p m = Some (p\<lparr>intermediates_arr := (intermediates_arr p)[length ints := m],
      intermediate_idx := length ints + 1, pstate := CsiParam\<rparr>, [])"
    using r assms(1,3) c(1)
    by (simp add: csi_at_def change_state_def advance_csi_entry_def goto_state_def)
  have "parser_inv p" "pstate p \<noteq> Ground" using csi_at_live [OF assms(1)] by auto
  from leads_byte [OF this step] c(2) show ?thesis by auto
qed

lemma leads_intermediate:
  assumes "csi_at {CsiParam, CsiIntermediate} p gs cur v ints" "length ints < MAX_INTERMEDIATES"
    "btw 0x20 0x2F m"
  shows "\<exists>q. leads lib p [m] q [] \<and> csi_at {CsiIntermediate} q gs cur v (ints @ [m])"
proof -
  have r: "\<not> c0 m"
    using assms(3) by (auto simp: c0_def btw_def word_le_nat_alt)
  note c = csi_at_collect [OF assms(1,2) refl, of CsiIntermediate m, simplified]
  have "pstate p = CsiIntermediate \<Longrightarrow> p\<lparr>intermediates_arr := arr, intermediate_idx := i\<rparr>
      = p\<lparr>intermediates_arr := arr, intermediate_idx := i, pstate := CsiIntermediate\<rparr>" for arr i
    by simp
  then have step: "change_state p m = Some (p\<lparr>intermediates_arr := (intermediates_arr p)[length ints := m],
      intermediate_idx := length ints + 1, pstate := CsiIntermediate\<rparr>, [])"
    using r assms(1,3) c(1)
    by (auto simp: csi_at_def change_state_def advance_csi_param_def advance_csi_intermediate_def
        goto_state_def quiet_def)
  have "parser_inv p" "pstate p \<noteq> Ground" using csi_at_live [OF assms(1)] by auto
  from leads_byte [OF this step] c(2) show ?thesis by auto
qed

lemma leads_intermediates:
  assumes "csi_at {CsiParam, CsiIntermediate} p gs cur v ints"
    "length ints + length ms \<le> MAX_INTERMEDIATES" "\<forall>m \<in> set ms. btw 0x20 0x2F m"
  shows "\<exists>q. leads lib p ms q [] \<and> csi_at {CsiParam, CsiIntermediate} q gs cur v (ints @ ms)"
  using assms
proof (induction ms arbitrary: p ints)
  case Nil
  then show ?case by (intro exI [of _ p]) simp
next
  case (Cons m ms)
  then obtain q where q: "leads lib p [m] q []" "csi_at {CsiIntermediate} q gs cur v (ints @ [m])"
    using leads_intermediate [of p gs cur v ints m] by auto
  from Cons.IH [OF csi_at_mono [OF q(2)]] Cons.prems(2,3)
  obtain r where "leads lib q ms r []" "csi_at {CsiParam, CsiIntermediate} r gs cur v ((ints @ [m]) @ ms)"
    by auto
  with leads_Cons_quiet [OF q(1)] show ?case by auto
qed

lemma leads_final:
  assumes "csi_at {CsiParam, CsiIntermediate} p gs cur v ints"
    "length (concat gs) + length cur < MAX_PARAMS" "btw 0x40 0x7E f"
  shows "\<exists>q ps. leads lib p [f] q [CsiDispatch ps ints False (unat f)] \<and>
    params_iter ps = Some (gs @ [cur @ [v]]) \<and>
    parser_inv q \<and> pstate q = Ground \<and> partial_utf8_len q = 0"
proof -
  have r: "\<not> c0 f" "\<not> btw 0x20 0x2F f" "\<not> btw 0x30 0x39 f" "\<not> btw 0x30 0x3F f" "f \<noteq> 0x3A" "f \<noteq> 0x3B"
    "\<not> btw 0x3C 0x3F f"
    using assms(3) by (auto simp: c0_def btw_def word_le_nat_alt)
  have p: "parser_inv p" "pstate p \<noteq> Ground" using csi_at_live [OF assms(1)] by auto
  have rep: "params_rep (pparams p) gs cur" using assms(1) by (simp add: csi_at_def)
  obtain ps where ps: "params_push (pparams p) v = Some ps" "params_rep ps (gs @ [cur @ [v]]) []"
    using params_push_rep [OF rep csi_at_notfull [OF assms(1,2)]] by blast
  have il: "length ints \<le> length (intermediates_arr p)"
    using assms(1) by (auto simp: csi_at_def parser_inv_def parser_wf_def)
  let ?q = "p\<lparr>pparams := ps, pstate := Ground\<rparr>"
  have "change_state p f = Some (?q, [CsiDispatch ps ints False (unat f)])"
    using r assms(1,3) ps(1) il csi_at_notfull [OF assms(1,2)]
    by (auto simp: csi_at_def change_state_def advance_csi_param_def advance_csi_intermediate_def
        action_csi_dispatch_def push_last_param_def intermediates_def subslice_def)
  moreover have "parser_inv ?q" "partial_utf8_len ?q = 0"
    using p ps(2) by (auto simp: parser_inv_def parser_wf_def partial_ok_def)
  moreover have "params_iter ps = Some (gs @ [cur @ [v]])"
    using params_iter_rep [OF ps(2)] by (simp add: all_groups_def)
  ultimately show ?thesis using leads_byte [OF p] by fastforce
qed

lemma leads_csi_start:
  assumes "parser_inv p" "partial_utf8_len p = 0" "pstate p = Ground"
  shows "\<exists>q. leads lib p [0x1B, 0x5B] q [] \<and> csi_at {CsiEntry} q [] [] 0 []"
proof -
  let ?e = "to_escape p"
  have e: "parser_inv ?e" "pstate ?e = Escape"
    using assms by (simp_all add: parser_inv_def partial_ok_def wf_to_escape)
      (simp add: to_escape_def reset_params_def)
  let ?q = "(reset_params ?e)\<lparr>pstate := CsiEntry\<rparr>"
  have step: "change_state ?e 0x5B = Some (?q, [])"
    using e by (simp add: change_state_def advance_esc_def c0_def btw_def can_sub_def)
  have 1: "leads lib p [0x1B] ?e []"
    using run_escape [OF assms] by (simp add: leads_def)
  have 2: "leads lib ?e [0x5B] ?q []"
    using leads_byte [OF e(1) _ step] e(2) by simp
  have "parser_inv ?q" using inv_change_state [OF e(1) _ step] e(2) by simp
  moreover obtain gs cur where "params_rep (pparams ?e) gs cur"
    using e(1) by (auto simp: parser_inv_def parser_wf_def)
  ultimately have "csi_at {CsiEntry} ?q [] [] 0 []"
    by (auto simp: csi_at_def reset_params_def intro: params_rep_clear)
  with leads_trans_quiet [OF 1 2] show ?thesis by auto
qed

lemma leads_csi:
  assumes p: "parser_inv p" "partial_utf8_len p = 0" "pstate p = Ground"
    and wf: "csi_wf marker G ints f"
  shows "\<exists>q ps. leads lib p (render_csi marker G ints f) q [CsiDispatch ps (marker @ ints) False (unat f)] \<and>
    params_iter ps = Some (map (map sat16) G) \<and>
    parser_inv q \<and> pstate q = Ground \<and> partial_utf8_len q = 0"
proof -
  from wf have G: "G \<noteq> []" "\<forall>g \<in> set G. g \<noteq> []" "length (concat G) \<le> MAX_PARAMS"
    by (auto simp: csi_wf_def)
  obtain a where a: "leads lib p [0x1B, 0x5B] a []" "csi_at {CsiEntry} a [] [] 0 []"
    using leads_csi_start [OF p] by blast
  obtain b where b: "leads lib a marker b []" "csi_at in_params b [] [] 0 marker"
  proof (cases marker)
    case Nil
    then show ?thesis by (intro that [of a]) (auto intro: csi_at_mono [OF a(2)])
  next
    case (Cons m ms)
    with wf have "ms = []" "btw 0x3C 0x3F m" by (auto simp: csi_wf_def)
    with Cons that leads_marker [OF a(2), of m] show ?thesis
      by (auto simp: MAX_INTERMEDIATES_def intro: csi_at_mono)
  qed
  obtain c where c: "leads lib b (render_groups G) c []"
    "csi_at {CsiParam} c (map (map sat16) (butlast G)) (map sat16 (butlast (last G)))
      (sat16 (last (last G))) marker"
    using leads_groups [OF G(1,2) b(2)] G(3) by auto
  have "csi_at {CsiParam, CsiIntermediate} c (map (map sat16) (butlast G)) (map sat16 (butlast (last G)))
      (sat16 (last (last G))) marker"
    by (rule csi_at_mono [OF c(2)]) simp
  from leads_intermediates [OF this] wf
  obtain d where d: "leads lib c ints d []"
    "csi_at {CsiParam, CsiIntermediate} d (map (map sat16) (butlast G)) (map sat16 (butlast (last G)))
      (sat16 (last (last G))) (marker @ ints)"
    unfolding csi_wf_def by blast
  have last: "last G \<noteq> []" "G = butlast G @ [last G]" using G by auto
  have cat: "length (concat (map (map sat16) xs)) = length (concat xs)" for xs
    by (induction xs) auto
  have "length (concat G) = length (concat (butlast G)) + length (last G)"
    by (subst last(2)) simp
  moreover have "0 < length (last G)" using last(1) by simp
  ultimately have room: "length (concat (map (map sat16) (butlast G))) + length (map sat16 (butlast (last G))) < MAX_PARAMS"
    using G(3) unfolding cat length_map length_butlast by linarith
  have whole: "map (map sat16) (butlast G) @ [map sat16 (butlast (last G)) @ [sat16 (last (last G))]]
      = map (map sat16) G"
    using last by (metis append_butlast_last_id list.simps(8,9) map_append)
  have "btw 0x40 0x7E f" using wf by (simp add: csi_wf_def)
  from leads_final [OF d(2) room this] whole
  obtain q ps where q: "leads lib d [f] q [CsiDispatch ps (marker @ ints) False (unat f)]"
    "params_iter ps = Some (map (map sat16) G)" "parser_inv q" "pstate q = Ground" "partial_utf8_len q = 0"
    by auto
  from leads_trans_quiet [OF a(1) leads_trans_quiet [OF b(1) leads_trans_quiet [OF c(1)
        leads_trans_quiet [OF d(1) q(1)]]]] q
  show ?thesis by (auto simp: render_csi_def)
qed

end

end
