(* ===== verification/CopaOsc.thy ===== *)
theory CopaOsc
  imports CopaSpec
begin

text \<open>OSC strings and plain text: what the performer receives.\<close>

subsection \<open>OSC strings\<close>

fun render_osc_params :: "u8 list list \<Rightarrow> u8 list" where
  "render_osc_params [] = []"
| "render_osc_params [x] = x"
| "render_osc_params (x # y # ys) = x @ 0x3B # render_osc_params (y # ys)"

definition render_osc :: "u8 list list \<Rightarrow> u8 list" where
  \<comment> \<open>\<open>ESC ]\<close>, the parameters separated by semicolons, \<open>BEL\<close>\<close>
  "render_osc xs = 0x1B # 0x5D # render_osc_params xs @ [0x07]"

definition osc_byte :: "u8 \<Rightarrow> bool" where
  \<comment> \<open>a byte that belongs to a parameter: no control character and no semicolon\<close>
  "osc_byte b \<longleftrightarrow> 0x20 \<le> b \<and> b \<noteq> 0x3B"

definition osc_wf :: "u8 list list \<Rightarrow> bool" where
  "osc_wf xs \<longleftrightarrow> xs \<noteq> [] \<and> length xs \<le> MAX_OSC_PARAMS \<and> (\<forall>x \<in> set xs. \<forall>b \<in> set x. osc_byte b)"

text \<open>The parameters are recorded as ranges of \<open>osc_raw\<close>, which holds them concatenated:
  \<open>xs\<close> are the closed ones, \<open>cur\<close> is the one being read.\<close>

definition osc_ranges :: "u8 list list \<Rightarrow> (nat \<times> nat) list" where
  "osc_ranges xs =
     map (\<lambda>k. (length (concat (take k xs)), length (concat (take (Suc k) xs)))) [0..<length xs]"

definition osc_at :: "parser \<Rightarrow> u8 list list \<Rightarrow> u8 list \<Rightarrow> bool" where
  "osc_at p xs cur \<longleftrightarrow>
     parser_inv p \<and> pstate p = OscString \<and> osc_raw p = concat xs @ cur \<and>
     osc_num_params p = length xs \<and> take (length xs) (osc_params p) = osc_ranges xs"

lemma osc_ranges_snoc:
  "osc_ranges (xs @ [x]) = osc_ranges xs @ [(length (concat xs), length (concat xs) + length x)]"
  by (auto simp: osc_ranges_def)

lemma last_osc_range:
  "xs \<noteq> [] \<Longrightarrow> osc_ranges xs ! (length xs - 1) = (length (concat (butlast xs)), length (concat xs))"
  by (cases xs rule: rev_cases) (auto simp: osc_ranges_def nth_append)

lemma osc_put_param:
  assumes "parser_inv p" "osc_raw p = concat xs @ cur" "osc_num_params p = length xs"
    and "take (length xs) (osc_params p) = osc_ranges xs" "length xs < MAX_OSC_PARAMS"
  shows "action_osc_put_param p =
    Some (p\<lparr>osc_params := (osc_params p)[length xs := (length (concat xs), length (concat xs) + length cur)],
             osc_num_params := length xs + 1\<rparr>)"
    and "take (Suc (length xs)) ((osc_params p)[length xs := (length (concat xs), length (concat xs) + length cur)])
      = osc_ranges (xs @ [cur])"
proof -
  have len: "length (osc_params p) = MAX_OSC_PARAMS"
    using assms(1) by (auto simp: parser_inv_def parser_wf_def)
  show "action_osc_put_param p =
    Some (p\<lparr>osc_params := (osc_params p)[length xs := (length (concat xs), length (concat xs) + length cur)],
             osc_num_params := length xs + 1\<rparr>)"
  proof (cases "xs = []")
    case True
    with assms len show ?thesis by (simp add: action_osc_put_param_def upd_def)
  next
    case False
    then have "length xs - 1 < length xs" by simp
    with assms(4) have "osc_params p ! (length xs - 1) = osc_ranges xs ! (length xs - 1)"
      by (metis nth_take)
    with last_osc_range [OF False] False assms len show ?thesis
      by (simp add: action_osc_put_param_def upd_def idx_def Let_def)
  qed
  show "take (Suc (length xs)) ((osc_params p)[length xs := (length (concat xs), length (concat xs) + length cur)])
      = osc_ranges (xs @ [cur])"
    using assms(4,5) len by (simp add: take_Suc_conv_app_nth osc_ranges_snoc)
qed

lemma those_map_Some: "those (map Some xs) = Some xs"
  by (induction xs) auto

lemma subslice_ranges:
  assumes "raw = concat xs"
  shows "those (map (\<lambda>(s, e). subslice raw s e) (osc_ranges xs)) = Some xs"
proof -
  have "subslice raw (length (concat (take k xs))) (length (concat (take (Suc k) xs))) = Some (xs ! k)"
    if "k < length xs" for k
  proof -
    have "concat xs = concat (take k xs) @ xs ! k @ concat (drop (Suc k) xs)"
      using id_take_nth_drop [OF that] by (metis concat.simps(2) concat_append)
    moreover have "length (concat (take (Suc k) xs)) = length (concat (take k xs)) + length (xs ! k)"
      using that by (simp add: take_Suc_conv_app_nth)
    ultimately show ?thesis by (simp add: assms subslice_def)
  qed
  then have "map (\<lambda>(s, e). subslice raw s e) (osc_ranges xs) = map Some xs"
    by (auto simp: osc_ranges_def intro: nth_equalityI)
  then show ?thesis by (simp add: those_map_Some)
qed

lemma osc_at_live: "osc_at p xs cur \<Longrightarrow> parser_inv p \<and> pstate p \<noteq> Ground"
  by (auto simp: osc_at_def)

lemma inv_osc_raw:
  "parser_inv p \<Longrightarrow> osc_raw p = r \<Longrightarrow> parser_inv (p\<lparr>osc_raw := r @ bs\<rparr>)"
  by (fastforce simp: parser_inv_def parser_wf_def partial_ok_def)

lemma change_osc_byte:
  assumes "osc_at p xs cur" "osc_byte b"
  shows "\<exists>q. change_state p b = Some (q, []) \<and> osc_at q xs (cur @ [b])"
proof (intro exI conjI)
  show "change_state p b = Some (action_osc_put p b, [])"
    using assms
    by (auto simp: osc_at_def change_state_def advance_osc_string_def osc_byte_def btw_def can_sub_def
        stay_def word_le_nat_alt)
  show "osc_at (action_osc_put p b) xs (cur @ [b])"
    using assms(1) inv_osc_raw [of p "concat xs @ cur" "[b]"] by (simp add: osc_at_def action_osc_put_def)
qed

lemma osc_end_at:
  assumes "osc_at p xs cur" "length xs < MAX_OSC_PARAMS"
  shows "\<exists>q. osc_end p b = Some (q, [OscDispatch (xs @ [cur]) (b = 0x07)])"
proof -
  from assms have p: "parser_inv p" "osc_raw p = concat xs @ cur" "osc_num_params p = length xs"
    "take (length xs) (osc_params p) = osc_ranges xs" by (auto simp: osc_at_def)
  note put = osc_put_param [OF p(1-4) assms(2)]
  have "those (map (\<lambda>(s, e). subslice (osc_raw p) s e) (osc_ranges (xs @ [cur]))) = Some (xs @ [cur])"
    by (rule subslice_ranges) (simp add: p(2))
  with put assms(2) show ?thesis by (simp add: osc_end_def osc_dispatch_def check_def)
qed

lemma fine_osc_end_result:
  assumes "parser_wf p" "osc_end p b = Some (q, es)"
  shows "keeps p q"
  using wp_osc_end [OF keeps_refl [OF assms(1)], of b] assms(2) by (simp add: wp_simps)

context text_lib_spec
begin

lemma change_osc_separator:
  assumes "osc_at p xs cur" "length xs < MAX_OSC_PARAMS"
  shows "\<exists>q. change_state p 0x3B = Some (q, []) \<and> osc_at q (xs @ [cur]) []"
proof -
  from assms have p: "parser_inv p" "osc_raw p = concat xs @ cur" "osc_num_params p = length xs"
    "take (length xs) (osc_params p) = osc_ranges xs" "pstate p = OscString" by (auto simp: osc_at_def)
  note put = osc_put_param [OF p(1-4) assms(2)]
  let ?q = "p\<lparr>osc_params := (osc_params p)[length xs := (length (concat xs), length (concat xs) + length cur)],
             osc_num_params := length xs + 1\<rparr>"
  have c: "change_state p 0x3B = Some (?q, [])"
    using p(5) put(1)
    by (simp add: change_state_def advance_osc_string_def btw_def can_sub_def quiet_def)
  moreover have "parser_inv ?q" using inv_change_state [OF p(1) _ c] p(5) by simp
  ultimately show ?thesis using p put(2) by (auto simp: osc_at_def)
qed

lemma leads_osc_start:
  assumes "parser_inv p" "partial_utf8_len p = 0" "pstate p = Ground"
  shows "\<exists>q. leads lib p [0x1B, 0x5D] q [] \<and> osc_at q [] []"
proof -
  let ?e = "to_escape p"
  let ?q = "?e\<lparr>osc_raw := [], osc_num_params := 0, pstate := OscString\<rparr>"
  have e: "parser_inv ?e" "pstate ?e = Escape"
    using assms by (simp_all add: parser_inv_def partial_ok_def wf_to_escape)
      (simp add: to_escape_def reset_params_def)
  have step: "change_state ?e 0x5D = Some (?q, [])"
    using e by (simp add: change_state_def advance_esc_def c0_def btw_def can_sub_def)
  have "leads lib p [0x1B] ?e []"
    using run_escape [OF assms] by (simp add: leads_def)
  moreover have "leads lib ?e [0x5D] ?q []"
    using leads_byte [OF e(1) _ step] e(2) by simp
  moreover have "parser_inv ?q" using inv_change_state [OF e(1) _ step] e(2) by simp
  then have "osc_at ?q [] []" by (simp add: osc_at_def osc_ranges_def)
  ultimately show ?thesis using leads_Cons_quiet by blast
qed

lemma leads_osc_text:
  assumes "osc_at p xs cur" "\<forall>b \<in> set bs. osc_byte b"
  shows "\<exists>q. leads lib p bs q [] \<and> osc_at q xs (cur @ bs)"
  using assms
proof (induction bs arbitrary: p cur)
  case Nil
  then show ?case by (intro exI [of _ p]) simp
next
  case (Cons b bs)
  then obtain q where q: "change_state p b = Some (q, [])" "osc_at q xs (cur @ [b])"
    using change_osc_byte [of p xs cur b] by auto
  with Cons.IH [of q "cur @ [b]"] Cons.prems(2)
  obtain r where "leads lib q bs r []" "osc_at r xs (cur @ b # bs)" by auto
  with leads_Cons_quiet [OF leads_byte [OF _ _ q(1)]] osc_at_live [OF Cons.prems(1)] show ?case by blast
qed

lemma leads_osc_params:
  assumes "osc_at p xs cur" "ys \<noteq> []" "length xs + length ys \<le> MAX_OSC_PARAMS"
    and "\<forall>y \<in> set ys. \<forall>b \<in> set y. osc_byte b" "cur = []"
  shows "\<exists>q. leads lib p (render_osc_params ys) q [] \<and> osc_at q (xs @ butlast ys) (last ys)"
  using assms
proof (induction ys arbitrary: p xs cur rule: render_osc_params.induct)
  case 1
  then show ?case by simp
next
  case (2 x)
  with leads_osc_text [of p xs cur x] show ?case by simp
next
  case (3 x y ys)
  then obtain q where q: "leads lib p x q []" "osc_at q xs x"
    using leads_osc_text [of p xs cur x] by auto
  obtain r where r: "change_state q 0x3B = Some (r, [])" "osc_at r (xs @ [x]) []"
    using change_osc_separator [OF q(2)] 3 by auto
  from 3 r(2) obtain t where t: "leads lib r (render_osc_params (y # ys)) t []"
    "osc_at t ((xs @ [x]) @ butlast (y # ys)) (last (y # ys))"
    using "3.IH" [of r "xs @ [x]" "[]"] by auto
  have "leads lib q [0x3B] r []" using leads_byte [OF _ _ r(1)] osc_at_live [OF q(2)] by blast
  from leads_trans_quiet [OF q(1) leads_Cons_quiet [OF this t(1)]] t(2) show ?case by auto
qed

lemma leads_osc_bel:
  assumes "osc_at p xs cur" "length xs < MAX_OSC_PARAMS"
  shows "\<exists>q. leads lib p [0x07] q [OscDispatch (xs @ [cur]) True] \<and>
    parser_inv q \<and> pstate q = Ground \<and> partial_utf8_len q = 0"
proof -
  from osc_end_at [OF assms, of "0x07"] obtain q where
    q: "osc_end p 0x07 = Some (q, [OscDispatch (xs @ [cur]) True])" by auto
  let ?q = "q\<lparr>pstate := Ground\<rparr>"
  have p: "parser_inv p" "pstate p \<noteq> Ground" "pstate p = OscString"
    using assms(1) by (auto simp: osc_at_def)
  then have c: "change_state p 0x07 = Some (?q, [OscDispatch (xs @ [cur]) True])"
    using q by (simp add: change_state_def advance_osc_string_def btw_def)
  have "keeps p q"
    using fine_osc_end_result [OF _ q] p by (simp add: parser_inv_def)
  moreover have "partial_utf8_len p = 0" using p by (auto simp: parser_inv_def partial_ok_def)
  ultimately have "partial_utf8_len ?q = 0" by (simp add: keeps_def same_partial_def)
  with leads_byte [OF p(1,2) c] inv_change_state [OF p(1,2) c] show ?thesis by fastforce
qed

lemma leads_osc:
  assumes "parser_inv p" "partial_utf8_len p = 0" "pstate p = Ground" "osc_wf xs"
  shows "\<exists>q. leads lib p (render_osc xs) q [OscDispatch xs True] \<and>
    parser_inv q \<and> pstate q = Ground \<and> partial_utf8_len q = 0"
proof -
  from assms(4) have xs: "xs \<noteq> []" "length xs \<le> MAX_OSC_PARAMS" "\<forall>x \<in> set xs. \<forall>b \<in> set x. osc_byte b"
    by (auto simp: osc_wf_def)
  obtain a where a: "leads lib p [0x1B, 0x5D] a []" "osc_at a [] []"
    using leads_osc_start [OF assms(1-3)] by blast
  from leads_osc_params [OF a(2) xs(1) _ xs(3)] xs(2)
  obtain b where b: "leads lib a (render_osc_params xs) b []" "osc_at b (butlast xs) (last xs)" by auto
  have "length (butlast xs) < MAX_OSC_PARAMS" using xs(1,2) by (cases xs rule: rev_cases) auto
  from leads_osc_bel [OF b(2) this] xs(1)
  obtain q where q: "leads lib b [0x07] q [OscDispatch xs True]" "parser_inv q" "pstate q = Ground"
    "partial_utf8_len q = 0" by auto
  from leads_trans_quiet [OF a(1) leads_trans_quiet [OF b(1) q(1)]] q(2-4)
  show ?thesis by (auto simp: render_osc_def)
qed

end

end
