(* ===== verification/CopaProps.thy ===== *)
theory CopaProps
  imports CopaOsc
begin

text \<open>
  Whole-input facts about the parser of \<open>copa/src/lib.rs\<close>: totality over any sequence of
  chunks, agreement with a byte-at-a-time reference machine, the bracketing protocol of the
  performer's calls, and what well-formed sequences dispatch.
\<close>

subsection \<open>A byte-at-a-time reference machine\<close>

text \<open>The parser takes text in bulk (\<open>memchr\<close> for the next escape, one validation of the
  text before it). The reference machine handles one ASCII byte after the other.\<close>

definition byte_step :: "parser \<Rightarrow> u8 \<Rightarrow> step" where
  "byte_step p b =
     (if pstate p = Ground
      then (if b = 0x1B then Some (to_escape p, []) else Some (p, [ground_event (unat b)]))
      else change_state p b)"

fun byte_run :: "parser \<Rightarrow> u8 list \<Rightarrow> step" where
  "byte_run p [] = Some (p, [])"
| "byte_run p (b # bs) =
     (case byte_step p b of None \<Rightarrow> None | Some (q, es) \<Rightarrow> after es (byte_run q bs))"

definition ascii :: "u8 list \<Rightarrow> bool" where
  "ascii bs \<longleftrightarrow> (\<forall>b \<in> set bs. b < 0x80)"

lemma ascii_Cons [simp]: "ascii (b # bs) \<longleftrightarrow> b < 0x80 \<and> ascii bs"
  by (simp add: ascii_def)

lemma ascii_append [simp]: "ascii (xs @ ys) \<longleftrightarrow> ascii xs \<and> ascii ys"
  by (auto simp: ascii_def)

lemma ground_dispatch_ascii: "ascii bs \<Longrightarrow> ground_dispatch bs = map (ground_event \<circ> unat) bs"
  by (simp add: ground_dispatch_def utf8_chars_ascii ascii_def)

lemma after_None: "after es None = None"
  by (simp add: after_def)

lemma after_eq_Some: "after es m = Some (q, fs) \<longleftrightarrow> (\<exists>es'. m = Some (q, es') \<and> fs = es @ es')"
  by (cases m) (auto simp: after_def)

lemma byte_run_append:
  "byte_run p (xs @ ys) =
     (case byte_run p xs of None \<Rightarrow> None | Some (q, es) \<Rightarrow> after es (byte_run q ys))"
  by (induction xs arbitrary: p) (auto simp: after_None split: option.splits)

context text_lib_spec
begin

lemma run_ground_byte:
  assumes "parser_inv p" "partial_utf8_len p = 0" "pstate p = Ground" "ascii (b # bs)" "b \<noteq> 0x1B"
  shows "run lib p (b # bs) = after [ground_event (unat b)] (run lib p bs)"
proof -
  define t r where tr: "t = takeWhile (\<lambda>x. x \<noteq> 0x1B) bs" "r = dropWhile (\<lambda>x. x \<noteq> 0x1B) bs"
  then have bs: "bs = t @ r" by simp
  have t: "ascii (b # t)" "0x1B \<notin> set (b # t)" "0x1B \<notin> set t"
    using assms(4,5) unfolding bs by (auto dest: set_takeWhileD simp: tr(1) ascii_def)
  then have u: "std_from_utf8 (b # t) = Utf8Ok" "std_from_utf8 t = Utf8Ok"
    by (auto intro!: std_from_utf8_ascii simp: ascii_def)
  have g: "ground_dispatch (b # t) = ground_event (unat b) # ground_dispatch t"
    using t by (simp add: ground_dispatch_ascii)
  show ?thesis
  proof (cases r)
    case Nil
    with run_text [OF assms(1-3) u(1) t(2)] run_text [OF assms(1-3) u(2) t(3)] g bs show ?thesis by simp
  next
    case (Cons e r')
    then have "dropWhile (\<lambda>x. x \<noteq> 0x1B) bs = e # r'" by (simp only: tr(2))
    from hd_dropWhile [of "\<lambda>x. x \<noteq> 0x1B" bs, unfolded this] have "e = 0x1B" by simp
    with Cons g bs run_text_escape [OF assms(1-3) u(1) t(2), of r'] run_text_escape [OF assms(1-3) u(2) t(3), of r']
    show ?thesis by simp
  qed
qed

lemma byte_step_once:
  assumes "parser_inv p" "partial_utf8_len p = 0" "ascii (b # bs)"
  shows "\<exists>r fs. byte_step p b = Some (r, fs) \<and> parser_inv r \<and> partial_utf8_len r = 0 \<and>
    run lib p (b # bs) = after fs (run lib r bs)"
proof (cases "pstate p = Ground")
  case True
  show ?thesis
  proof (cases "b = 0x1B")
    case esc: True
    with True assms run_escape [of p bs] wf_to_escape [of p] show ?thesis
      by (simp add: byte_step_def parser_inv_def partial_ok_def)
  next
    case False
    with run_ground_byte [OF _ _ True _ False] True assms show ?thesis
      by (simp add: byte_step_def)
  qed
next
  case False
  from fine_change_state [OF keeps_refl False, of b] assms(1)
  obtain r fs where r: "change_state p b = Some (r, fs)" "keeps p r"
    by (auto simp: fine_def parser_inv_def elim!: wpE)
  with assms have "partial_utf8_len r = 0" by (simp add: keeps_def same_partial_def)
  with run_byte [OF _ False r(1)] inv_change_state [OF _ False r(1)] r False assms show ?thesis
    by (simp add: byte_step_def)
qed

lemma run_bytes:
  assumes "parser_inv p" "partial_utf8_len p = 0" "ascii bs"
  shows "run lib p bs = byte_run p bs \<and>
    (\<exists>q es. byte_run p bs = Some (q, es) \<and> parser_inv q \<and> partial_utf8_len q = 0)"
  using assms
proof (induction bs arbitrary: p)
  case Nil
  then show ?case by simp
next
  case (Cons b bs)
  from byte_step_once [OF Cons.prems]
  obtain r fs where r: "byte_step p b = Some (r, fs)" "parser_inv r" "partial_utf8_len r = 0"
    "run lib p (b # bs) = after fs (run lib r bs)" by blast
  from Cons.IH [OF r(2,3)] Cons.prems(3) r show ?case by auto
qed

subsection \<open>Resuming after \<open>advance_until_terminated\<close>\<close>

lemma advance_nothing:
  assumes "parser_inv p"
  shows "advance lib p [] = Some (p, [])"
proof (cases "partial_utf8_len p = 0")
  case True
  then show ?thesis by (simp add: advance_run [OF assms])
next
  case False
  let ?n = "partial_utf8_len p"
  let ?buf = "take ?n (partial_utf8 p)"
  have len: "length (partial_utf8 p) = 4" "?n \<le> 3" and inc: "utf8_step ?buf = Incomplete"
    using assms False by (auto simp: parser_inv_def parser_wf_def partial_ok_def)
  then have "?buf \<noteq> []" using False by auto
  then have err: "std_from_utf8 ?buf = Utf8Err 0 None"
    using inc by (simp add: std_from_utf8_def std_utf8.simps [of 0 ?buf])
  have "advance_partial_utf8 lib p [] = Some (p, [], 0)"
    using len err
    by (simp add: advance_partial_utf8_def usub_def subslice_def copy_into_def basic compat Let_def)
  then show ?thesis using False by (simp add: advance_def advance_start_def advance_loop.simps)
qed

lemma advance_loop_from:
  assumes "parser_inv p" "partial_utf8_len p = 0 \<or> i = length bytes" "i \<le> length bytes"
  shows "advance_loop lib p bytes i es = after es (advance lib p (drop i bytes))"
  using advance_loop_drop [OF assms, of es] advance_run [OF assms(1)] advance_nothing [OF assms(1)]
    assms(2) by auto

lemma advance_until_loop_resume:
  assumes "parser_inv p" "partial_utf8_len p = 0 \<or> i = length bytes" "i \<le> length bytes"
    and "advance_until_loop lib stop p bytes i es = Some (q, es', n)"
  shows "advance_loop lib p bytes i es = after es' (advance lib q (drop n bytes))"
  using assms
proof (induction "length bytes - i" arbitrary: p i es rule: less_induct)
  case less
  show ?case
  proof (cases "i = length bytes \<or> stop es")
    case True
    with less.prems(4) have "q = p" "es' = es" "n = i"
      by (auto simp: advance_until_loop.simps split: if_splits)
    with advance_loop_from [OF less.prems(1-3)] show ?thesis by simp
  next
    case False
    with less.prems have "wp (advance_once lib p bytes i) (chunk_ok bytes (Suc i))"
      by (intro wp_advance_once) auto
    then obtain r fs j where once: "advance_once lib p bytes i = Some (r, fs, j)"
      and ok: "chunk_ok bytes (Suc i) (r, fs, j)"
      by (metis prod_cases3 wpE)
    have "advance_loop lib p bytes i es = advance_loop lib r bytes j (es @ fs)"
      using once False by (subst advance_loop.simps) simp
    moreover have "advance_until_loop lib stop r bytes j (es @ fs) = Some (q, es', n)"
      using less.prems(4) once False by (subst (asm) advance_until_loop.simps) simp
    ultimately show ?thesis
      using less.hyps [of j r "es @ fs"] ok False less.prems(3) by (auto simp: chunk_ok_def)
  qed
qed

end
subsection \<open>The bracketing protocol of the performer's calls\<close>

text \<open>A device control string is \<open>hook\<close>, \<open>put\<close>s, \<open>unhook\<close>; the SOS, PM and APC strings
  have start, put and end calls. The protocol is a small automaton over events.\<close>

datatype bracket = Closed | InDcs | InSos | InPm | InApc

fun proto :: "bracket \<Rightarrow> event \<Rightarrow> bracket option" where
  "proto Closed (Hook _ _ _ _) = Some InDcs"
| "proto Closed SosStart = Some InSos"
| "proto Closed PmStart = Some InPm"
| "proto Closed ApcStart = Some InApc"
| "proto Closed (Print _) = Some Closed"
| "proto Closed (Execute _) = Some Closed"
| "proto Closed (OscDispatch _ _) = Some Closed"
| "proto Closed (CsiDispatch _ _ _ _) = Some Closed"
| "proto Closed (EscDispatch _ _ _) = Some Closed"
| "proto InDcs (Put _) = Some InDcs"
| "proto InDcs Unhook = Some Closed"
| "proto InSos (SosPut _) = Some InSos"
| "proto InSos SosEnd = Some Closed"
| "proto InPm (PmPut _) = Some InPm"
| "proto InPm PmEnd = Some Closed"
| "proto InApc (ApcPut _) = Some InApc"
| "proto InApc ApcEnd = Some Closed"
| "proto _ _ = None"

fun bracket_of :: "vt_state \<Rightarrow> bracket" where
  "bracket_of DcsPassthrough = InDcs"
| "bracket_of SosString = InSos"
| "bracket_of PmString = InPm"
| "bracket_of ApcString = InApc"
| "bracket_of _ = Closed"

definition brackets :: "bracket \<Rightarrow> parser \<times> event list \<Rightarrow> bool" where
  "brackets k = (\<lambda>(q, es). foldM proto k es = Some (bracket_of (pstate q)))"

definition bracketed :: "parser \<Rightarrow> step \<Rightarrow> bool" where
  \<comment> \<open>if the step returns, its events lead from the old state's bracket to the new one's\<close>
  "bracketed p m \<longleftrightarrow> (\<forall>r. m = Some r \<longrightarrow> brackets (bracket_of (pstate p)) r)"

lemma bracketed_Some: "bracketed p (Some r) = brackets (bracket_of (pstate p)) r"
  by (simp add: bracketed_def)

lemma bracketed_if: "bracketed p (if c then m else n) = (if c then bracketed p m else bracketed p n)"
  by simp

lemma bracketed_stay: "bracketed p (stay q es) = brackets (bracket_of (pstate p)) (q, es)"
  by (simp add: bracketed_def stay_def)

lemma bracketed_goto: "bracket_of (pstate p) = bracket_of s \<Longrightarrow> bracketed p (goto_state s m)"
  by (auto simp: bracketed_def goto_state_def brackets_def)

lemma collect_pstate: "action_collect p b = Some q \<Longrightarrow> pstate q = pstate p"
  by (auto simp: action_collect_def Option.bind_eq_Some_conv split: if_splits)

lemma subparam_pstate: "action_subparam p = Some q \<Longrightarrow> pstate q = pstate p"
  by (auto simp: action_subparam_def Option.bind_eq_Some_conv split: if_splits)

lemma param_pstate: "action_param p = Some q \<Longrightarrow> pstate q = pstate p"
  by (auto simp: action_param_def Option.bind_eq_Some_conv split: if_splits)

lemma paramnext_pstate: "action_paramnext p b = Some q \<Longrightarrow> pstate q = pstate p"
  by (auto simp: action_paramnext_def Option.bind_eq_Some_conv split: if_splits)

lemma osc_put_param_pstate: "action_osc_put_param p = Some q \<Longrightarrow> pstate q = pstate p"
  unfolding action_osc_put_param_def Let_def
  by (cases "osc_num_params p = 0"; cases "osc_num_params p = MAX_OSC_PARAMS")
    (auto simp only: if_True if_False Option.bind_eq_Some_conv option.inject simp_thms, simp_all)

lemma bracketed_quiet: "(\<And>q. m = Some q \<Longrightarrow> pstate q = pstate p) \<Longrightarrow> bracketed p (quiet m)"
  by (cases m) (simp_all add: bracketed_def quiet_def brackets_def)

lemma bracketed_anywhere: "bracket_of (pstate p) = Closed \<Longrightarrow> bracketed p (anywhere p b)"
  by (auto simp: anywhere_def bracketed_def brackets_def stay_def split: if_splits)

lemma bracketed_csi: "bracket_of (pstate p) = Closed \<Longrightarrow> bracketed p (action_csi_dispatch p b)"
  by (auto simp: action_csi_dispatch_def bracketed_def brackets_def Option.bind_eq_Some_conv)

lemma bracketed_hook: "bracket_of (pstate p) = Closed \<Longrightarrow> bracketed p (action_hook p b)"
  by (auto simp: action_hook_def bracketed_def brackets_def Option.bind_eq_Some_conv)

lemma bracketed_esc: "bracket_of (pstate p) = Closed \<Longrightarrow> bracketed p (action_esc_dispatch p b)"
  by (auto simp: action_esc_dispatch_def bracketed_def brackets_def Option.bind_eq_Some_conv)

lemma osc_end_events: "osc_end p b = Some (q, es) \<Longrightarrow> \<exists>xs t. es = [OscDispatch xs t]"
  by (auto simp: osc_end_def osc_dispatch_def Option.bind_eq_Some_conv)

lemma bracketed_osc_end:
  assumes "pstate p = OscString"
    and "\<And>q xs t. brackets Closed (f (q, [OscDispatch xs t]))"
  shows "bracketed p (Option.bind (osc_end p b) (\<lambda>x. Some (f x)))"
proof (cases "osc_end p b")
  case (Some r)
  then obtain q xs t where "r = (q, [OscDispatch xs t])" using osc_end_events by (cases r) blast
  with Some assms show ?thesis by (simp add: bracketed_def)
qed (simp add: bracketed_def)

lemma bracketed_osc: "pstate p = OscString \<Longrightarrow> bracketed p (advance_osc_string p b)"
  by (simp add: advance_osc_string_def bracketed_if bracketed_stay bracketed_quiet osc_put_param_pstate
      bracketed_osc_end case_prod_unfold brackets_def action_osc_put_def)

lemma bracketed_apc: "pstate p = ApcString \<Longrightarrow> bracketed p (advance_apc_string p b)"
  using osc_put_param_pstate [of "p\<lparr>osc_raw := osc_raw p @ [b]\<rparr>"]
  by (simp add: advance_apc_string_def action_apc_put_def action_apc_end_def bracketed_if
      bracketed_stay bracketed_Some brackets_def Let_def)
    (auto simp: bracketed_def brackets_def Option.bind_eq_Some_conv)

lemma bracketed_opaque:
  assumes "proto (bracket_of (pstate p)) (put b) = Some (bracket_of (pstate p))"
    "proto (bracket_of (pstate p)) fin = Some Closed"
  shows "bracketed p (advance_opaque_string put fin p b)"
  using assms by (auto simp: advance_opaque_string_def bracketed_def brackets_def stay_def split: if_splits)

lemmas bracketed_rules =
  bracketed_anywhere bracketed_csi bracketed_hook bracketed_esc bracketed_goto bracketed_quiet
  collect_pstate subparam_pstate param_pstate paramnext_pstate

lemma bracketed_change_state: "pstate p \<noteq> Ground \<Longrightarrow> bracketed p (change_state p b)"
proof (cases "pstate p")
  case DcsPassthrough
  then show ?thesis
    by (simp add: change_state_def advance_dcs_passthrough_def bracketed_if bracketed_stay
        bracketed_Some brackets_def)
next
  case Escape
  then show ?thesis
    by (simp add: change_state_def advance_esc_def bracketed_if bracketed_stay bracketed_Some
        brackets_def bracketed_goto bracketed_esc)
qed (simp_all add: change_state_def bracketed_osc bracketed_apc bracketed_opaque bracketed_anywhere
    advance_csi_entry_def advance_csi_ignore_def advance_csi_intermediate_def advance_csi_param_def
    advance_dcs_entry_def advance_dcs_intermediate_def advance_dcs_param_def
    advance_esc_intermediate_def bracketed_if bracketed_stay bracketed_Some brackets_def bracketed_rules)

lemma bracketed_events:
  assumes "bracketed p m" "m = Some (q, es)"
  shows "foldM proto (bracket_of (pstate p)) es = Some (bracket_of (pstate q))"
  using assms by (simp add: bracketed_def brackets_def)

definition loose :: "event \<Rightarrow> bool" where
  \<comment> \<open>the calls made for text\<close>
  "loose e \<longleftrightarrow> (\<exists>c. e = Print c) \<or> (\<exists>b. e = Execute b)"

lemma proto_loose: "\<forall>e \<in> set es. loose e \<Longrightarrow> foldM proto Closed es = Some Closed"
  by (induction es) (auto simp: loose_def)

lemma loose_dispatch: "e \<in> set (ground_dispatch bs) \<Longrightarrow> loose e"
  by (auto simp: ground_dispatch_def ground_event_def loose_def)

lemma wlp_utf8_result [wlp_simps]:
  "wlp (case r of Utf8Ok \<Rightarrow> m | Utf8Err v e \<Rightarrow> f v e) P =
   (case r of Utf8Ok \<Rightarrow> wlp m P | Utf8Err v e \<Rightarrow> wlp (f v e) P)"
  by (simp split: utf8_result.split)

lemma wlp_option [wlp_simps]:
  "wlp (case r of None \<Rightarrow> m | Some v \<Rightarrow> f v) P = (case r of None \<Rightarrow> wlp m P | Some v \<Rightarrow> wlp (f v) P)"
  by (simp split: option.split)

lemma loose_simps [simp]: "loose (Print c)" "loose (Execute b)"
  by (simp_all add: loose_def)

lemma loose_ground:
  assumes "pstate p = Ground"
  shows "wlp (advance_ground lib p bs) (\<lambda>(q, es, n). bracket_of (pstate q) = Closed \<and> (\<forall>e \<in> set es. loose e))"
  unfolding advance_ground_def wlp_simps
  by (auto simp: to_escape_def reset_params_def assms dest: loose_dispatch
      split: utf8_result.splits option.splits intro!: wlp_const)

lemma loose_partial:
  "wlp (advance_partial_utf8 lib p bs) (\<lambda>(q, es, n). pstate q = pstate p \<and> (\<forall>e \<in> set es. loose e))"
  unfolding advance_partial_utf8_def wlp_simps
  by (auto split: utf8_result.splits option.splits intro!: wlp_const)

lemma proto_once:
  assumes "advance_once lib p bs i = Some (q, es, n)"
  shows "foldM proto (bracket_of (pstate p)) es = Some (bracket_of (pstate q))"
proof (cases "pstate p = Ground")
  case True
  with assms obtain bs' m where "advance_ground lib p bs' = Some (q, es, m)"
    by (auto simp: advance_once_def Option.bind_eq_Some_conv)
  with loose_ground [OF True, of lib bs'] True show ?thesis by (simp add: proto_loose wlp_simps)
next
  case False
  with assms obtain b where "change_state p b = Some (q, es)"
    by (auto simp: advance_once_def Option.bind_eq_Some_conv)
  from bracketed_events [OF bracketed_change_state [OF False] this] show ?thesis .
qed

definition accepted :: "bracket \<Rightarrow> parser \<Rightarrow> event list \<Rightarrow> bool" where
  "accepted k p es \<longleftrightarrow> foldM proto k es = Some (bracket_of (pstate p))"

lemma accepted_append:
  "accepted k p es \<Longrightarrow> foldM proto (bracket_of (pstate p)) fs = Some (bracket_of (pstate q)) \<Longrightarrow>
   accepted k q (es @ fs)"
  by (simp add: accepted_def foldM_append)

fun feed :: "text_lib \<Rightarrow> parser \<Rightarrow> u8 list list \<Rightarrow> step" where
  \<comment> \<open>one call of \<open>advance\<close> per chunk read from the terminal's process\<close>
  "feed lib p [] = Some (p, [])"
| "feed lib p (c # cs) =
     (case advance lib p c of None \<Rightarrow> None | Some (q, es) \<Rightarrow> after es (feed lib q cs))"

context text_lib_spec
begin

lemma accepted_loop:
  assumes "parser_inv p" "partial_utf8_len p = 0 \<or> i = length bytes" "i \<le> length bytes"
    and "accepted k p es" "advance_loop lib p bytes i es = Some (q, es')"
  shows "accepted k q es'"
  using assms
proof (induction "length bytes - i" arbitrary: p i es rule: less_induct)
  case less
  show ?case
  proof (cases "i = length bytes")
    case True
    with less.prems show ?thesis by (simp add: advance_loop.simps)
  next
    case False
    with less.prems have "wp (advance_once lib p bytes i) (chunk_ok bytes (Suc i))"
      by (intro wp_advance_once) auto
    then obtain r fs j where once: "advance_once lib p bytes i = Some (r, fs, j)"
      and ok: "chunk_ok bytes (Suc i) (r, fs, j)"
      by (metis prod_cases3 wpE)
    have "advance_loop lib r bytes j (es @ fs) = Some (q, es')"
      using less.prems(5) once False by (subst (asm) advance_loop.simps) simp
    with ok False less.prems(3,4) accepted_append [OF _ proto_once [OF once]] show ?thesis
      by (intro less.hyps [of j r "es @ fs"]) (auto simp: chunk_ok_def)
  qed
qed

lemma accepted_advance:
  assumes "parser_inv p" "advance lib p bytes = Some (q, es)"
  shows "foldM proto (bracket_of (pstate p)) es = Some (bracket_of (pstate q))"
proof -
  from wp_advance_start [OF assms(1), of bytes]
  obtain r fs j where start: "advance_start lib p bytes = Some (r, fs, j)"
    and ok: "chunk_ok bytes 0 (r, fs, j)"
    by (metis prod_cases3 wpE)
  have "accepted (bracket_of (pstate p)) r fs"
  proof (cases "partial_utf8_len p = 0")
    case True
    with start show ?thesis by (auto simp: advance_start_def accepted_def)
  next
    case False
    with start loose_partial [of lib p bytes]
    have "pstate r = pstate p" "\<forall>e \<in> set fs. loose e" by (simp_all add: advance_start_def wlp_simps)
    moreover have "pstate p = Ground" using False assms(1) by (auto simp: parser_inv_def partial_ok_def)
    ultimately show ?thesis by (simp add: accepted_def proto_loose)
  qed
  moreover have "advance_loop lib r bytes j fs = Some (q, es)"
    using assms(2) start by (simp add: advance_def)
  ultimately have "accepted (bracket_of (pstate p)) q es"
    using accepted_loop [of r j bytes "bracket_of (pstate p)" fs q es] ok by (simp add: chunk_ok_def)
  then show ?thesis by (simp add: accepted_def)
qed

lemma feed_ok:
  assumes "parser_inv p"
  shows "\<exists>q es. feed lib p cs = Some (q, es) \<and> parser_inv q \<and>
    foldM proto (bracket_of (pstate p)) es = Some (bracket_of (pstate q))"
  using assms
proof (induction cs arbitrary: p)
  case Nil
  then show ?case by simp
next
  case (Cons c cs)
  from wp_advance [OF Cons.prems, of c]
  obtain r fs where r: "advance lib p c = Some (r, fs)" "parser_inv r" by (auto elim!: wpE)
  from Cons.IH [OF r(2)] accepted_advance [OF Cons.prems r(1)] r(1) show ?case
    by (auto simp: foldM_append)
qed

lemma until_resume:
  assumes "parser_inv p"
  shows "\<exists>q es n. advance_until_terminated lib stop p bytes = Some (q, es, n) \<and> parser_inv q \<and>
    n \<le> length bytes \<and> (n < length bytes \<longrightarrow> stop es) \<and>
    advance lib p bytes = after es (advance lib q (drop n bytes))"
proof -
  from wp_advance_start [OF assms, of bytes]
  obtain r fs j where start: "advance_start lib p bytes = Some (r, fs, j)"
    and ok: "chunk_ok bytes 0 (r, fs, j)"
    by (metis prod_cases3 wpE)
  then have pre: "parser_inv r" "partial_utf8_len r = 0 \<or> j = length bytes" "j \<le> length bytes"
    by (auto simp: chunk_ok_def)
  from wp_advance_until_loop [OF this, of stop fs]
  obtain q es n where loop: "advance_until_loop lib stop r bytes j fs = Some (q, es, n)"
    "parser_inv q" "n \<le> length bytes" "n < length bytes \<longrightarrow> stop es"
    by (auto elim!: wpE)
  from advance_until_loop_resume [OF pre loop(1)] loop start show ?thesis
    by (simp add: advance_def advance_until_terminated_def)
qed

lemma feed_bytes:
  assumes "parser_inv p" "partial_utf8_len p = 0" "ascii (concat cs)"
  shows "feed lib p cs = byte_run p (concat cs)"
  using assms
proof (induction cs arbitrary: p)
  case Nil
  then show ?case by simp
next
  case (Cons c cs)
  then have "ascii c" by simp
  from run_bytes [OF Cons.prems(1,2) this] obtain q es where
    q: "run lib p c = byte_run p c" "byte_run p c = Some (q, es)" "parser_inv q" "partial_utf8_len q = 0"
    by blast
  with Cons show ?case by (simp add: advance_run byte_run_append)
qed

end

subsection \<open>Cancelling a sequence\<close>

definition cancelled :: "u8 \<Rightarrow> parser \<times> event list \<Rightarrow> bool" where
  "cancelled b = (\<lambda>(q, es). pstate q = Ground \<and> es \<noteq> [] \<and> last es = Execute b)"

lemma not_can_sub:
  assumes "can_sub b"
  shows "\<not> c0 b" "\<not> btw 0x20 0x2F b" "\<not> btw 0x30 0x39 b" "\<not> btw 0x3C 0x3F b" "\<not> btw 0x40 0x7E b"
    "\<not> btw 0x20 0x3F b" "\<not> btw 0x30 0x3F b" "\<not> btw 0x1C 0x7E b" "\<not> btw 0x30 0x4F b" "\<not> btw 0x51 0x57 b"
    "\<not> btw 0x59 0x5A b" "\<not> btw 0x60 0x7E b" "\<not> btw 0x30 0x7E b" "\<not> btw 0x08 0x17 b" "\<not> btw 0x1C 0x1F b"
    "\<not> b \<le> 0x06" "\<not> b \<le> 0x17" "b \<noteq> 0x19" "b \<noteq> 0x3A" "b \<noteq> 0x3B" "b \<noteq> 0x7F" "b \<noteq> 0x07" "b \<noteq> 0x1B"
    "b \<noteq> 0x50" "b \<noteq> 0x58" "b \<noteq> 0x5B" "b \<noteq> 0x5C" "b \<noteq> 0x5D" "b \<noteq> 0x5E" "b \<noteq> 0x5F"
  using assms by (auto simp: can_sub_def c0_def btw_def)

lemma wlp_cancel:
  assumes "pstate p \<noteq> Ground" "can_sub b"
  shows "wlp (change_state p b) (cancelled b)"
proof (cases "pstate p")
  case OscString
  then show ?thesis using assms(2) not_can_sub [OF assms(2)]
    by (simp add: change_state_def advance_osc_string_def wlp_simps cancelled_def)
      (rule wlp_const, simp)
qed (use assms(1,2) not_can_sub [OF assms(2)] in
    \<open>simp_all add: change_state_def advance_csi_entry_def advance_csi_ignore_def
      advance_csi_intermediate_def advance_csi_param_def advance_dcs_entry_def
      advance_dcs_intermediate_def advance_dcs_param_def advance_dcs_passthrough_def advance_esc_def
      advance_esc_intermediate_def advance_apc_string_def action_apc_put_def advance_opaque_string_def
      anywhere_def wlp_simps cancelled_def\<close>)

context text_lib_spec
begin

lemma advance_cancel:
  assumes "parser_inv p" "pstate p \<noteq> Ground" "can_sub b"
  shows "\<exists>q es. advance lib p [b] = Some (q, es @ [Execute b]) \<and> pstate q = Ground \<and>
    parser_inv q \<and> partial_utf8_len q = 0"
proof -
  from fine_change_state [OF keeps_refl assms(2), of b] assms(1)
  obtain q es where q: "change_state p b = Some (q, es)" "keeps p q"
    by (auto simp: fine_def parser_inv_def elim!: wpE)
  have p0: "partial_utf8_len p = 0" using assms by (auto simp: parser_inv_def partial_ok_def)
  have "pstate q = Ground" "es \<noteq> []" "last es = Execute b"
    using wlp_cancel [OF assms(2,3)] q(1) by (auto simp: wlp_simps cancelled_def)
  moreover have "advance lib p [b] = Some (q, es)"
    using run_byte [OF assms(1,2) q(1), of "[]"] advance_run [OF assms(1) p0] by simp
  moreover have "partial_utf8_len q = 0" using q(2) p0 by (simp add: keeps_def same_partial_def)
  ultimately show ?thesis using inv_change_state [OF assms(1,2) q(1)]
    by (metis append_butlast_last_id)
qed

end

subsection \<open>Two runs on a split code point\<close>

lemma advance_loop_step:
  "advance_once lib p bytes i = Some (q, fs, j) \<Longrightarrow> i < length bytes \<Longrightarrow>
   advance_loop lib p bytes i es = advance_loop lib q bytes j (es @ fs)"
  by (subst advance_loop.simps) simp

lemma advance_loop_end: "i = length bytes \<Longrightarrow> advance_loop lib p bytes i es = Some (p, es)"
  by (simp add: advance_loop.simps)

definition split_p :: "parser" where
  "split_p = parser_new\<lparr>partial_utf8 := [0xC3, 0, 0, 0], partial_utf8_len := 1\<rparr>"

definition split_q :: "parser" where
  "split_q = parser_new\<lparr>partial_utf8 := [0xC3, 0xA9, 0x41, 0xE2]\<rparr>"

lemmas split_run_eval =
  utf8_eval advance_start_def advance_once_def advance_ground_def advance_partial_utf8_def
  ground_dispatch_def ground_event_def first_char_def len_utf8_def subslice_def copy_into_def usub_def
  std_text_lib_def parser_new_def split_p_def split_q_def Let_def

lemma split_run:
  "feed std_text_lib parser_new [[0xC3], [0xA9, 0x41, 0xE2, 0x82, 0xAC]] =
     Some (split_q, [Print 0xE9, Print 0x20AC])"
proof -
  have "advance_start std_text_lib parser_new [0xC3] = Some (parser_new, [], 0)"
    and a: "advance_once std_text_lib parser_new [0xC3] 0 = Some (split_p, [], 1)"
    by (simp_all add: split_run_eval numeral_3_eq_3)
  with advance_loop_step [OF a]
  have 1: "advance std_text_lib parser_new [0xC3] = Some (split_p, [])" by (simp add: advance_def advance_loop_end)
  have "advance_start std_text_lib split_p [0xA9, 0x41, 0xE2, 0x82, 0xAC] = Some (split_q, [Print 0xE9], 2)"
    and a: "advance_once std_text_lib split_q [0xA9, 0x41, 0xE2, 0x82, 0xAC] 2 = Some (split_q, [Print 0x20AC], 5)"
    by (simp_all add: split_run_eval numeral_3_eq_3)
  with advance_loop_step [OF a] 1 show ?thesis
    by (simp add: advance_def advance_loop_end)
qed

lemma whole_run:
  "feed std_text_lib parser_new [[0xC3, 0xA9, 0x41, 0xE2, 0x82, 0xAC]] =
     Some (parser_new, [Print 0xE9, Print 0x41, Print 0x20AC])"
proof -
  let ?b = "[0xC3, 0xA9, 0x41, 0xE2, 0x82, 0xAC] :: u8 list"
  have "advance_start std_text_lib parser_new ?b = Some (parser_new, [], 0)"
    and a: "advance_once std_text_lib parser_new ?b 0 =
      Some (parser_new, [Print 0xE9, Print 0x41, Print 0x20AC], 6)"
    by (simp_all add: split_run_eval numeral_3_eq_3)
  with advance_loop_step [OF a] show ?thesis
    by (simp add: advance_def advance_loop_end)
qed

lemma parser_total_std: "\<exists>p es. feed std_text_lib parser_new chunks = Some (p, es)"
  using std_lib.feed_ok [OF parser_inv_new] by blast

subsection \<open>Characters cut by the end of a chunk\<close>

lemma utf8_step_byte: "0x80 \<le> b \<Longrightarrow> utf8_step [b] = Incomplete \<or> utf8_step [b] = Invalid 1"
  by (auto simp: not_less [symmetric])

lemma encode_two:
  assumes "0x80 \<le> c" "c < 0x800"
  shows "\<exists>x y. encode_utf8 c = [x, y] \<and> \<not> x < 0x80 \<and> x \<noteq> 0x1B \<and> utf8_step [x] = Incomplete \<and>
    (\<forall>bs. utf8_step (x # y # bs) = Valid 2) \<and> utf8_chars [x, y] = [c] \<and> is_scalar c"
proof -
  have c: "is_scalar c" using assms by (simp add: is_scalar_def)
  let ?x = "byte (0xC0 + c div 64)" and ?y = "byte (0x80 + c mod 64)"
  have e: "encode_utf8 c = [?x, ?y]" using assms by (simp add: encode_utf8_def)
  have "c div 64 < 32" "2 \<le> c div 64" using assms by auto
  then have "\<not> ?x < 0x80" "?x \<noteq> 0x1B" "utf8_step [?x] = Incomplete"
    by (auto simp: byte_compare)
  moreover have "utf8_step (?x # ?y # bs) = Valid 2" for bs
    using encode_utf8_step [OF c, of bs] assms by (simp add: e len_utf8_def)
  moreover have "utf8_chars [?x, ?y] = [c]" using utf8_chars_encode [of "[c]"] c by (simp add: encode_str_def e)
  ultimately show ?thesis using e c by blast
qed

lemma encode_head: "0x80 \<le> d \<Longrightarrow> is_scalar d \<Longrightarrow> encode_utf8 d \<noteq> [] \<and> 0x80 \<le> hd (encode_utf8 d)"
  by (auto simp: encode_utf8_def byte_compare is_scalar_def)

lemma encode_no_escape:
  assumes "is_scalar c" "c \<noteq> 0x1B"
  shows "0x1B \<notin> set (encode_utf8 c)"
proof -
  have "c div 64 < 32" if "c < 0x800" using that by auto
  moreover have "c div 4096 < 16" if "c < 0x10000" using that by auto
  moreover have "c div 262144 < 8" using assms(1) by (auto simp: is_scalar_def)
  ultimately show ?thesis
    using assms by (auto simp: encode_utf8_def dest!: sym [of "0x1B :: u8"] simp: byte_compare)
qed

lemma encode_str_no_escape: "\<forall>c \<in> set cs. is_scalar c \<Longrightarrow> 0x1B \<notin> set cs \<Longrightarrow> 0x1B \<notin> set (encode_str cs)"
  using encode_no_escape by (auto simp: encode_str_def)

context text_lib_spec
begin

lemma run_str:
  assumes "parser_inv p" "partial_utf8_len p = 0" "pstate p = Ground" "\<forall>c \<in> set cs. is_scalar c" "0x1B \<notin> set cs"
  shows "run lib p (encode_str cs) = Some (p, map ground_event cs)"
  using run_text [OF assms(1-3) std_from_utf8_encode [OF assms(4)] encode_str_no_escape [OF assms(4,5)]]
  by (simp add: ground_dispatch_def utf8_chars_encode [OF assms(4)])

lemma split_loses:
  assumes "parser_inv p" "pstate p = Ground" "partial_utf8_len p = 0"
    and "0xA0 \<le> c" "c < 0x800" "a < 0x80" "0x80 \<le> d" "\<forall>x \<in> set (d # ds). is_scalar x" "0x1B \<notin> set ds"
  shows "\<exists>q. feed lib p [take 1 (encode_utf8 c), drop 1 (encode_utf8 c) @ encode_str (a # d # ds)] =
      Some (q, map ground_event (c # d # ds))"
proof -
  have "0x80 \<le> c" using assms(4) by simp
  from encode_two [OF this assms(5)] obtain x y where e: "encode_utf8 c = [x, y]" "\<not> x < 0x80" "x \<noteq> 0x1B"
      "utf8_step [x] = Incomplete" "utf8_chars [x, y] = [c]" "is_scalar c"
    and e_two: "\<And>bs. utf8_step (x # y # bs) = Valid 2"
    by blast
  obtain b bs where b: "encode_utf8 d = b # bs" "0x80 \<le> b" using encode_head [OF assms(7)] assms(8) by (cases "encode_utf8 d") auto
  have "a < 256" using assms(6) by simp
  then have byte_a: "encode_utf8 a = [byte a]" "byte a < 0x80" using assms(6) by (simp_all add: encode_utf8_def byte_compare)
  let ?rest = "encode_str (d # ds)"
  have rest: "?rest = b # bs @ encode_str ds" by (simp add: encode_str_def b(1))
  have second: "drop 1 (encode_utf8 c) @ encode_str (a # d # ds) = y # byte a # ?rest"
    by (simp add: e(1) encode_str_def byte_a(1))
  have len: "length (partial_utf8 p) = 4" using assms(1) by (simp add: parser_inv_def parser_wf_def)
  define p1 where "p1 = p\<lparr>partial_utf8 := x # drop 1 (partial_utf8 p), partial_utf8_len := 1\<rparr>"
  define p2 where "p2 = p\<lparr>partial_utf8 := [x, y, byte a, b], partial_utf8_len := 0\<rparr>"
  have one: "std_from_utf8 [x] = Utf8Err 0 None"
    using e(4) by (simp add: std_from_utf8_def std_utf8.simps [of 0 "[x]"] del: utf8_step.simps)
  have "memchr lib 0x1B [x] = None" using e(3) by (intro memchr_absent) simp
  then have "advance_once lib p [x] 0 = Some (p1, [], 1)"
    using assms(2,3) one len
    by (simp add: advance_once_def advance_ground_def subslice_def basic compat Let_def usub_def copy_into_def p1_def ground_dispatch_def)
  from run_once [OF assms(1,3) _ this] have first: "advance lib p [x] = Some (p1, [])"
    by (simp add: advance_run [OF assms(1,3)])
  obtain err where "std_from_utf8 [b] = Utf8Err 0 err"
    using utf8_step_byte [OF b(2)] by (auto simp: std_from_utf8_def std_utf8.simps [of 0 "[b]"] simp del: utf8_step.simps)
  then have "std_from_utf8 [byte a, b] = Utf8Err 1 err"
    using std_from_utf8_Valid [OF utf8_step_ascii [OF byte_a(2), of "[b]"]] by simp
  then have four: "std_from_utf8 [x, y, byte a, b] = Utf8Err 3 err"
    using std_from_utf8_Valid [OF e_two [of "[byte a, b]"]] by simp
  have "is_scalar a" using assms(6) by (simp add: is_scalar_def)
  then have "utf8_chars [x, y, byte a] = [c, a]"
    using utf8_chars_encode [of "[c, a]"] e(1,6) byte_a(1) by (simp add: encode_str_def)
  then have "advance_partial_utf8 lib p1 (y # byte a # ?rest) = Some (p2, [Print c], 2)"
    using four len
    by (simp add: advance_partial_utf8_def p1_def p2_def rest subslice_def copy_into_def usub_def Let_def basic compat first_char_def
        numeral_3_eq_3)
  then have second_step: "advance_start lib p1 (y # byte a # ?rest) = Some (p2, [Print c], 2)"
    by (simp add: advance_start_def p1_def)
  have p2: "parser_inv p2" "partial_utf8_len p2 = 0" "pstate p2 = Ground"
    using assms(1,2) by (auto simp: p2_def parser_inv_def parser_wf_def partial_ok_def)
  have "0x1B \<notin> set (d # ds)" using assms(7,9) by auto
  from run_str [OF p2 assms(8) this] have "advance lib p1 (y # byte a # ?rest) = Some (p2, [Print c] @ map ground_event (d # ds))"
    using advance_loop_drop [OF p2(1), of 2 "y # byte a # ?rest" "[Print c]"] p2(2)
    by (simp add: advance_def second_step)
  moreover have "ground_event c = Print c" using assms(4) by (simp add: ground_event_def)
  ultimately show ?thesis using first unfolding second by (simp add: e(1))
qed

end

subsection \<open>Properties\<close>

text \<open>C2. The parser is total: whatever bytes the terminal's process writes and however the
  pseudo-terminal cuts them into chunks, no call of \<open>advance\<close> panics (no index, slice,
  subtraction or \<open>copy_from_slice\<close> fails) or runs forever, and the parser's invariant holds
  afterwards: the counts stay inside their arrays, the OSC ranges inside \<open>osc_raw\<close>, and a
  partial code point is at most three bytes, kept in the ground state only.\<close>

theorem parser_total:
  assumes "text_lib_spec lib"
  shows "\<exists>p es. feed lib parser_new chunks = Some (p, es) \<and> parser_inv p"
  using text_lib_spec.feed_ok [OF assms parser_inv_new] by blast

theorem parser_total_witness:
  "\<exists>p es. feed std_text_lib parser_new [[0xE2, 0x82], [0xAC, 0x1B, 0x5B, 0x3B], [0xFF, 0x6D]] = Some (p, es) \<and>
     parser_inv p"
  by (rule parser_total [OF std_lib.text_lib_spec_axioms])

text \<open>C4. The calls on the performer are well bracketed, over any sequence of chunks: \<open>put\<close>
  and \<open>unhook\<close> come only after a \<open>hook\<close>, and the start, put and end calls of SOS, PM and APC
  strings nest in nothing else; what is open at the end is what the parser's state says.\<close>

theorem performer_calls_bracketed:
  assumes "text_lib_spec lib" "feed lib parser_new chunks = Some (p, es)"
  shows "foldM proto Closed es = Some (bracket_of (pstate p))"
  using text_lib_spec.feed_ok [OF assms(1) parser_inv_new, of chunks] assms(2)
  by (simp add: parser_new_def)

theorem performer_calls_bracketed_witness:
  "\<exists>p es. feed std_text_lib parser_new [[0x1B, 0x50, 0x31], [0x71, 0x41, 0x1B], [0x5C]] = Some (p, es) \<and>
     foldM proto Closed es = Some (bracket_of (pstate p))"
  using parser_total_std performer_calls_bracketed [OF std_lib.text_lib_spec_axioms] by blast

text \<open>C5. On ASCII input the bulk parser (search for the next escape, one validation of the text
  before it, chunk by chunk) makes the same calls as the byte-at-a-time reference machine on
  the concatenated input: in particular where the input is cut does not matter.\<close>

theorem advance_bytewise:
  assumes "text_lib_spec lib" "parser_inv p" "partial_utf8_len p = 0" "ascii (concat chunks)"
  shows "feed lib p chunks = byte_run p (concat chunks)"
  using text_lib_spec.feed_bytes assms by blast

theorem advance_bytewise_witness:
  "feed std_text_lib parser_new [[0x41, 0x1B], [0x5B, 0x31, 0x6D, 0x42]] =
     byte_run parser_new [0x41, 0x1B, 0x5B, 0x31, 0x6D, 0x42]"
  using advance_bytewise [OF std_lib.text_lib_spec_axioms parser_inv_new,
      of "[[0x41, 0x1B], [0x5B, 0x31, 0x6D, 0x42]]"]
  by (simp add: ascii_def parser_new_def)

text \<open>\<open>advance_until_terminated\<close> returns, keeps the invariant, stops early only when the
  performer asked for it, and loses nothing: \<open>advance\<close> on the rest of the input completes
  exactly the calls that \<open>advance\<close> on all of it makes.\<close>

theorem until_terminated_resumes:
  assumes "text_lib_spec lib" "parser_inv p"
  shows "\<exists>q es n. advance_until_terminated lib stop p bytes = Some (q, es, n) \<and> parser_inv q \<and>
    n \<le> length bytes \<and> (n < length bytes \<longrightarrow> stop es) \<and>
    advance lib p bytes = after es (advance lib q (drop n bytes))"
  using text_lib_spec.until_resume [OF assms] .

theorem until_terminated_resumes_witness:
  "\<exists>q es n. advance_until_terminated std_text_lib (\<lambda>es. Execute 0x07 \<in> set es) parser_new
      [0x1B, 0x07, 0x63, 0x41] = Some (q, es, n) \<and>
    parser_inv q \<and> n \<le> length [0x1B, 0x07, 0x63, 0x41 :: u8] \<and>
    (n < length [0x1B, 0x07, 0x63, 0x41 :: u8] \<longrightarrow> Execute 0x07 \<in> set es) \<and>
    advance std_text_lib parser_new [0x1B, 0x07, 0x63, 0x41] =
      after es (advance std_text_lib q (drop n [0x1B, 0x07, 0x63, 0x41]))"
  using until_terminated_resumes [OF std_lib.text_lib_spec_axioms parser_inv_new,
      of "\<lambda>es. Execute 0x07 \<in> set es" "[0x1B, 0x07, 0x63, 0x41]"] .

text \<open>C24. A control sequence comes back as it was written: \<open>ESC [\<close>, an optional private marker,
  up to 32 parameters in groups (subparameters after a colon), up to two intermediates and a
  final byte lead to exactly one \<open>csi_dispatch\<close>, with every parameter at its value (65535 when
  it is larger), the groups as they were, the marker and intermediates in order and the ignore
  flag off; the parser is back in the ground state.\<close>

theorem csi_roundtrip:
  assumes "text_lib_spec lib" "parser_inv p" "partial_utf8_len p = 0" "pstate p = Ground"
    and "csi_wf marker G ints f"
  shows "\<exists>q ps. advance lib p (render_csi marker G ints f) =
      Some (q, [CsiDispatch ps (marker @ ints) False (unat f)]) \<and>
    params_iter ps = Some (map (map sat16) G) \<and> parser_inv q \<and> pstate q = Ground"
  using text_lib_spec.leads_csi [OF assms] text_lib_spec.leads_run [OF assms(1)]
    text_lib_spec.advance_run [OF assms(1-3)] by metis

theorem csi_roundtrip_witness:
  "\<exists>q ps. advance std_text_lib parser_new (render_csi [0x3F] [[38, 2], [70000]] [0x24] 0x6D) =
      Some (q, [CsiDispatch ps [0x3F, 0x24] False 0x6D]) \<and>
    params_iter ps = Some [[38, 2], [65535]] \<and> parser_inv q \<and> pstate q = Ground"
  using csi_roundtrip [OF std_lib.text_lib_spec_axioms parser_inv_new, of "[0x3F]" "[[38, 2], [70000]]" "[0x24]" "0x6D"]
  by (simp add: parser_new_def csi_wf_def MAX_PARAMS_def MAX_INTERMEDIATES_def btw_def sat16_def)

text \<open>C25. An operating system command comes back as it was written: up to 16 parameters of
  printable or non-ASCII bytes, separated by semicolons and closed by BEL, lead to exactly one
  \<open>osc_dispatch\<close> with these parameters.\<close>

theorem osc_roundtrip:
  assumes "text_lib_spec lib" "parser_inv p" "partial_utf8_len p = 0" "pstate p = Ground" "osc_wf xs"
  shows "\<exists>q. advance lib p (render_osc xs) = Some (q, [OscDispatch xs True]) \<and>
    parser_inv q \<and> pstate q = Ground"
  using text_lib_spec.leads_osc [OF assms] text_lib_spec.leads_run [OF assms(1)]
    text_lib_spec.advance_run [OF assms(1-3)] by metis

theorem osc_roundtrip_witness:
  "\<exists>q. advance std_text_lib parser_new (render_osc [[0x38], [], [0x61, 0xC3, 0xA9]]) =
      Some (q, [OscDispatch [[0x38], [], [0x61, 0xC3, 0xA9]] True]) \<and> parser_inv q \<and> pstate q = Ground"
  using osc_roundtrip [OF std_lib.text_lib_spec_axioms parser_inv_new, of "[[0x38], [], [0x61, 0xC3, 0xA9]]"]
  by (simp add: parser_new_def osc_wf_def osc_byte_def MAX_OSC_PARAMS_def)

text \<open>C26. Text comes back as it was written: the UTF-8 encoding of any string without an escape,
  in one chunk, leads to one \<open>print\<close> per character (\<open>execute\<close> for the control characters C0
  and C1), in order, and leaves the parser as it was.\<close>

theorem text_roundtrip:
  assumes "text_lib_spec lib" "parser_inv p" "partial_utf8_len p = 0" "pstate p = Ground"
    and "\<forall>c \<in> set cs. is_scalar c" "0x1B \<notin> set (encode_str cs)"
  shows "advance lib p (encode_str cs) = Some (p, map ground_event cs)"
  using text_lib_spec.run_text [OF assms(1-4) std_from_utf8_encode [OF assms(5)] assms(6)]
    text_lib_spec.advance_run [OF assms(1-3)]
  by (simp add: ground_dispatch_def utf8_chars_encode [OF assms(5)])

theorem text_roundtrip_witness:
  "advance std_text_lib parser_new (encode_str [0x41, 0x85, 0x20AC, 0x1F600]) =
     Some (parser_new, [Print 0x41, Execute 0x85, Print 0x20AC, Print 0x1F600])"
  using text_roundtrip [OF std_lib.text_lib_spec_axioms parser_inv_new, of "[0x41, 0x85, 0x20AC, 0x1F600]"]
  by (simp add: parser_new_def is_scalar_def encode_str_def encode_utf8_def byte_def ground_event_def)

text \<open>CAN and SUB abandon any sequence: from every state but ground, the parser returns to the
  ground state and the control character is executed, after whatever the sequence owed the
  performer (the unhook, or the end of the string).\<close>

theorem cancel_returns_to_ground:
  assumes "text_lib_spec lib" "parser_inv p" "pstate p \<noteq> Ground" "can_sub b"
  shows "\<exists>q es. advance lib p [b] = Some (q, es @ [Execute b]) \<and> pstate q = Ground \<and>
    parser_inv q \<and> partial_utf8_len q = 0"
  using text_lib_spec.advance_cancel assms by blast

theorem cancel_returns_to_ground_witness:
  "\<exists>q es. advance std_text_lib (to_escape parser_new) [0x18] = Some (q, es @ [Execute 0x18]) \<and>
    pstate q = Ground \<and> parser_inv q \<and> partial_utf8_len q = 0"
  using cancel_returns_to_ground [OF std_lib.text_lib_spec_axioms, of "to_escape parser_new" "0x18"]
    wf_to_escape [of parser_new] parser_inv_new
  by (simp add: parser_inv_def partial_ok_def can_sub_def)
    (simp add: to_escape_def reset_params_def parser_new_def)

text \<open>C31. Text is lost at the end of a chunk: when a chunk ends inside a character of two bytes and the next one
  goes on with an ASCII character and then one that is not ASCII, the ASCII character is lost, although the same
  text in one chunk is printed whole. The reason is the buffer of four bytes for the partial code point: it takes
  the ASCII character and the first byte of the one after it, \<open>advance_partial_utf8\<close> then prints the first
  character only, but skips everything in the buffer that is valid. This holds for all such characters, in every
  ground state.\<close>

theorem split_code_point_loses_text:
  assumes "text_lib_spec lib" "parser_inv p" "pstate p = Ground" "partial_utf8_len p = 0"
    and "0xA0 \<le> c" "c < 0x800" "a < 0x80" "a \<noteq> 0x1B" "0x80 \<le> d" "\<forall>x \<in> set (d # ds). is_scalar x" "0x1B \<notin> set ds"
  shows "\<exists>q. feed lib p [take 1 (encode_utf8 c), drop 1 (encode_utf8 c) @ encode_str (a # d # ds)] =
      Some (q, map ground_event (c # d # ds)) \<and>
    feed lib p [encode_str (c # a # d # ds)] = Some (p, map ground_event (c # a # d # ds))"
  using text_lib_spec.split_loses [OF assms(1-7,9-11)] text_lib_spec.run_str [OF assms(1,2,4,3), of "c # a # d # ds"]
    text_lib_spec.advance_run [OF assms(1,2,4)] assms(5-11) by (auto simp: is_scalar_def)

theorem split_code_point_loses_text_witness:
  "\<exists>q. feed std_text_lib parser_new [[0xC3], [0xA9, 0x41, 0xE2, 0x82, 0xAC]] = Some (q, [Print 0xE9, Print 0x20AC]) \<and>
    feed std_text_lib parser_new [[0xC3, 0xA9, 0x41, 0xE2, 0x82, 0xAC]] = Some (parser_new, [Print 0xE9, Print 0x41, Print 0x20AC])"
  using split_code_point_loses_text [OF std_lib.text_lib_spec_axioms parser_inv_new, of "0xE9" "0x41" "0x20AC" "[]"]
  by (simp add: parser_new_def is_scalar_def encode_str_def encode_utf8_def byte_def ground_event_def)

end
