(* ===== verification/Square.thy ===== *)
theory Square
  imports Utf8
begin

unbundle bit_operations_syntax

text \<open>
  \<open>rio-backend/src/crosswords/square.rs\<close>: a terminal cell packed into 64 bits. The accessors
  and mutators are written with the masks and shifts of the source; \<open>cell_view\<close> is the
  unpacked cell, and the lemmas show that every mutator changes its own field and no other.
\<close>

subsection \<open>Layout\<close>

type_synonym square = u64

definition CODEPOINT_MASK :: u64 where "CODEPOINT_MASK = push_bit 21 1 - 1"
definition WIDE_SHIFT :: nat where "WIDE_SHIFT = 21"
definition WIDE_MASK :: u64 where "WIDE_MASK = push_bit WIDE_SHIFT 0x3"
definition CELL_FLAGS_SHIFT :: nat where "CELL_FLAGS_SHIFT = 23"
definition CELL_FLAGS_MASK :: u64 where "CELL_FLAGS_MASK = push_bit CELL_FLAGS_SHIFT 0x7F"
definition CONTENT_TAG_SHIFT :: nat where "CONTENT_TAG_SHIFT = 30"
definition STYLE_ID_SHIFT :: nat where "STYLE_ID_SHIFT = 32"
definition STYLE_ID_MASK :: u64 where "STYLE_ID_MASK = push_bit STYLE_ID_SHIFT 0xFFFF"
definition EXTRAS_ID_SHIFT :: nat where "EXTRAS_ID_SHIFT = 48"
definition EXTRAS_ID_MASK :: u64 where "EXTRAS_ID_MASK = push_bit EXTRAS_ID_SHIFT 0xFFFF"
definition BG_PALETTE_SHIFT :: nat where "BG_PALETTE_SHIFT = 32"
definition BG_PALETTE_MASK :: u64 where "BG_PALETTE_MASK = push_bit BG_PALETTE_SHIFT 0xFF"
definition BG_RGB_R_SHIFT :: nat where "BG_RGB_R_SHIFT = 32"
definition BG_RGB_G_SHIFT :: nat where "BG_RGB_G_SHIFT = 40"
definition BG_RGB_B_SHIFT :: nat where "BG_RGB_B_SHIFT = 48"

datatype wide = Narrow | Wide | Spacer | LeadingSpacer

definition wide_from_bits :: "u64 \<Rightarrow> wide" where
  "wide_from_bits bits =
     (let b = drop_bit WIDE_SHIFT bits AND 0x3 in
      if b = 0 then Narrow else if b = 1 then Wide else if b = 2 then Spacer else LeadingSpacer)"

fun wide_bits :: "wide \<Rightarrow> u64" where
  \<comment> \<open>\<open>w as u64\<close>\<close>
  "wide_bits Narrow = 0"
| "wide_bits Wide = 1"
| "wide_bits Spacer = 2"
| "wide_bits LeadingSpacer = 3"

datatype content_tag = Codepoint | BgPalette | BgRgb

definition content_tag_from_bits :: "u64 \<Rightarrow> content_tag" where
  "content_tag_from_bits bits =
     (let b = drop_bit CONTENT_TAG_SHIFT bits AND 0x3 in
      if b = 0 then Codepoint else if b = 1 then BgPalette else BgRgb)"

fun content_tag_bits :: "content_tag \<Rightarrow> u64" where
  "content_tag_bits Codepoint = 0"
| "content_tag_bits BgPalette = 1"
| "content_tag_bits BgRgb = 2"

type_synonym cell_flags = u8

definition CF_WRAPLINE :: cell_flags where "CF_WRAPLINE = push_bit 0 1"
definition CF_GRAPHICS :: cell_flags where "CF_GRAPHICS = push_bit 1 1"
definition CF_HYPERLINK :: cell_flags where "CF_HYPERLINK = push_bit 2 1"
definition CF_GRAPHEME :: cell_flags where "CF_GRAPHEME = push_bit 3 1"

definition cell_flags_all :: cell_flags where
  "cell_flags_all = CF_WRAPLINE OR CF_GRAPHICS OR CF_HYPERLINK OR CF_GRAPHEME"

subsection \<open>Accessors and mutators\<close>

definition char_from_u32 :: "nat \<Rightarrow> rchar option" where
  "char_from_u32 n = (if is_scalar n then Some n else None)"

definition sq_c :: "square \<Rightarrow> rchar" where
  "sq_c s = (case char_from_u32 (unat (s AND CODEPOINT_MASK)) of Some c \<Rightarrow> c | None \<Rightarrow> 0)"

definition sq_set_c :: "square \<Rightarrow> rchar \<Rightarrow> square" where
  \<comment> \<open>the assertion \<open>cp <= CODEPOINT_MASK\<close> holds for every \<open>char\<close>: lemma \<open>scalar_fits\<close>\<close>
  "sq_set_c s c = (s AND NOT CODEPOINT_MASK) OR (word_of_nat c AND CODEPOINT_MASK)"

definition sq_from_char :: "rchar \<Rightarrow> square" where
  "sq_from_char c = sq_set_c 0 c"

definition sq_wide :: "square \<Rightarrow> wide" where
  "sq_wide s = wide_from_bits s"

definition sq_set_wide :: "square \<Rightarrow> wide \<Rightarrow> square" where
  "sq_set_wide s w = (s AND NOT WIDE_MASK) OR push_bit WIDE_SHIFT (wide_bits w)"

definition sq_cell_flags :: "square \<Rightarrow> cell_flags" where
  "sq_cell_flags s = ucast (drop_bit CELL_FLAGS_SHIFT (s AND CELL_FLAGS_MASK)) AND cell_flags_all"

definition sq_set_cell_flags :: "square \<Rightarrow> cell_flags \<Rightarrow> square" where
  "sq_set_cell_flags s f = (s AND NOT CELL_FLAGS_MASK) OR push_bit CELL_FLAGS_SHIFT (ucast f)"

definition sq_insert_cell_flag :: "square \<Rightarrow> cell_flags \<Rightarrow> square" where
  "sq_insert_cell_flag s f = sq_set_cell_flags s (sq_cell_flags s OR f)"

definition sq_remove_cell_flag :: "square \<Rightarrow> cell_flags \<Rightarrow> square" where
  "sq_remove_cell_flag s f = sq_set_cell_flags s (sq_cell_flags s AND NOT f)"

definition sq_contains_cell_flag :: "square \<Rightarrow> cell_flags \<Rightarrow> bool" where
  "sq_contains_cell_flag s f \<longleftrightarrow> sq_cell_flags s AND f = f"

definition sq_style_id :: "square \<Rightarrow> u16" where
  "sq_style_id s = ucast (drop_bit STYLE_ID_SHIFT (s AND STYLE_ID_MASK))"

definition sq_set_style_id :: "square \<Rightarrow> u16 \<Rightarrow> square" where
  "sq_set_style_id s i = (s AND NOT STYLE_ID_MASK) OR push_bit STYLE_ID_SHIFT (ucast i)"

definition sq_extras_id :: "square \<Rightarrow> u16 option" where
  "sq_extras_id s =
     (let i = ucast (drop_bit EXTRAS_ID_SHIFT (s AND EXTRAS_ID_MASK)) in
      if i = 0 then None else Some i)"

definition sq_set_extras_id :: "square \<Rightarrow> u16 option \<Rightarrow> square" where
  "sq_set_extras_id s i =
     (s AND NOT EXTRAS_ID_MASK) OR push_bit EXTRAS_ID_SHIFT (ucast (case i of None \<Rightarrow> 0 | Some x \<Rightarrow> x))"

definition sq_content_tag :: "square \<Rightarrow> content_tag" where
  "sq_content_tag s = content_tag_from_bits s"

definition sq_set_bg_palette :: "square \<Rightarrow> u8 \<Rightarrow> square" where
  "sq_set_bg_palette s i =
     (s AND CELL_FLAGS_MASK) OR push_bit CONTENT_TAG_SHIFT (content_tag_bits BgPalette) OR
     push_bit BG_PALETTE_SHIFT (ucast i)"

definition sq_set_bg_rgb :: "square \<Rightarrow> u8 \<Rightarrow> u8 \<Rightarrow> u8 \<Rightarrow> square" where
  "sq_set_bg_rgb s r g b =
     (s AND CELL_FLAGS_MASK) OR push_bit CONTENT_TAG_SHIFT (content_tag_bits BgRgb) OR
     push_bit BG_RGB_R_SHIFT (ucast r) OR push_bit BG_RGB_G_SHIFT (ucast g) OR
     push_bit BG_RGB_B_SHIFT (ucast b)"

definition sq_bg_palette_index :: "square \<Rightarrow> u8" where
  "sq_bg_palette_index s = ucast (drop_bit BG_PALETTE_SHIFT (s AND BG_PALETTE_MASK))"

definition sq_bg_rgb :: "square \<Rightarrow> u8 \<times> u8 \<times> u8" where
  "sq_bg_rgb s =
     (ucast (drop_bit BG_RGB_R_SHIFT s AND 0xFF), ucast (drop_bit BG_RGB_G_SHIFT s AND 0xFF),
      ucast (drop_bit BG_RGB_B_SHIFT s AND 0xFF))"

definition sq_is_bg_only :: "square \<Rightarrow> bool" where
  "sq_is_bg_only s \<longleftrightarrow> sq_content_tag s \<noteq> Codepoint"

definition sq_clear :: "square \<Rightarrow> square" where
  "sq_clear s = 0"

definition sq_with_style_id :: "square \<Rightarrow> u16 \<Rightarrow> square" where
  "sq_with_style_id s i = sq_set_style_id s i"

definition sq_reset :: "square \<Rightarrow> square \<Rightarrow> square" where
  "sq_reset s template = sq_with_style_id 0 (sq_style_id template)"

definition sq_is_default :: "square \<Rightarrow> bool" where "sq_is_default s \<longleftrightarrow> s = 0"
definition sq_is_wide :: "square \<Rightarrow> bool" where "sq_is_wide s \<longleftrightarrow> sq_wide s = Wide"
definition sq_is_spacer :: "square \<Rightarrow> bool" where "sq_is_spacer s \<longleftrightarrow> sq_wide s = Spacer"
definition sq_is_leading_spacer :: "square \<Rightarrow> bool" where
  "sq_is_leading_spacer s \<longleftrightarrow> sq_wide s = LeadingSpacer"

definition sq_wrapline :: "square \<Rightarrow> bool" where
  "sq_wrapline s \<longleftrightarrow> sq_contains_cell_flag s CF_WRAPLINE"

definition sq_set_wrapline :: "square \<Rightarrow> bool \<Rightarrow> square" where
  "sq_set_wrapline s on =
     (if on then sq_insert_cell_flag s CF_WRAPLINE else sq_remove_cell_flag s CF_WRAPLINE)"

definition sq_has_extras :: "square \<Rightarrow> bool" where "sq_has_extras s \<longleftrightarrow> sq_extras_id s \<noteq> None"
definition sq_has_grapheme :: "square \<Rightarrow> bool" where
  "sq_has_grapheme s \<longleftrightarrow> sq_contains_cell_flag s CF_GRAPHEME"
definition sq_has_hyperlink :: "square \<Rightarrow> bool" where
  "sq_has_hyperlink s \<longleftrightarrow> sq_contains_cell_flag s CF_HYPERLINK"
definition sq_has_graphics :: "square \<Rightarrow> bool" where
  "sq_has_graphics s \<longleftrightarrow> sq_contains_cell_flag s CF_GRAPHICS"

definition DEFAULT_STYLE_ID :: u16 where "DEFAULT_STYLE_ID = 0"

definition sq_is_empty :: "square \<Rightarrow> bool" where
  "sq_is_empty s \<longleftrightarrow>
     (if s = 0 then True
      else if sq_is_bg_only s then False
      else (sq_c s = 0 \<or> sq_c s = 9) \<and> sq_style_id s = DEFAULT_STYLE_ID \<and>
           sq_extras_id s = None \<and> \<not> sq_contains_cell_flag s CF_WRAPLINE \<and> sq_wide s = Narrow)"

subsection \<open>The unpacked cell\<close>

definition get_bits :: "nat \<Rightarrow> nat \<Rightarrow> u64 \<Rightarrow> u64" where
  "get_bits sh n w = take_bit n (drop_bit sh w)"

record cell_view =
  v_cp :: u64
  v_wide :: u64
  v_flags :: u64
  v_tag :: u64
  v_style :: u64
  v_extras :: u64

definition view :: "square \<Rightarrow> cell_view" where
  "view s = \<lparr>v_cp = get_bits 0 21 s, v_wide = get_bits 21 2 s, v_flags = get_bits 23 7 s,
             v_tag = get_bits 30 2 s, v_style = get_bits 32 16 s, v_extras = get_bits 48 16 s\<rparr>"

lemma masks:
  "CODEPOINT_MASK = mask 21" "WIDE_MASK = push_bit 21 (mask 2)" "CELL_FLAGS_MASK = push_bit 23 (mask 7)"
  "STYLE_ID_MASK = push_bit 32 (mask 16)" "EXTRAS_ID_MASK = push_bit 48 (mask 16)"
  "BG_PALETTE_MASK = push_bit 32 (mask 8)"
  by (simp_all add: CODEPOINT_MASK_def WIDE_MASK_def CELL_FLAGS_MASK_def STYLE_ID_MASK_def
      EXTRAS_ID_MASK_def BG_PALETTE_MASK_def WIDE_SHIFT_def CELL_FLAGS_SHIFT_def STYLE_ID_SHIFT_def
      EXTRAS_ID_SHIFT_def BG_PALETTE_SHIFT_def mask_eq_exp_minus_1)

lemmas shifts = WIDE_SHIFT_def CELL_FLAGS_SHIFT_def CONTENT_TAG_SHIFT_def STYLE_ID_SHIFT_def
  EXTRAS_ID_SHIFT_def BG_PALETTE_SHIFT_def BG_RGB_R_SHIFT_def BG_RGB_G_SHIFT_def BG_RGB_B_SHIFT_def

lemma bit_get_bits: "bit (get_bits sh n w) i \<longleftrightarrow> i < n \<and> bit w (sh + i)"
  by (simp add: get_bits_def bit_simps)

definition put_bits :: "nat \<Rightarrow> nat \<Rightarrow> u64 \<Rightarrow> u64 \<Rightarrow> u64" where
  "put_bits sh n w v = (w AND NOT (push_bit sh (mask n))) OR push_bit sh (take_bit n v)"

lemma get_put_same: "sh + n \<le> 64 \<Longrightarrow> get_bits sh n (put_bits sh n w v) = take_bit n v"
  by (rule bit_word_eqI) (auto simp: get_bits_def put_bits_def bit_simps)

lemma get_put_other:
  "sh + n \<le> sh' \<or> sh' + n' \<le> sh \<Longrightarrow> sh' + n' \<le> 64 \<Longrightarrow> get_bits sh' n' (put_bits sh n w v) = get_bits sh' n' w"
  by (rule bit_word_eqI) (auto simp: get_bits_def put_bits_def bit_simps)

lemma take_bit_ucast: "take_bit 16 (ucast (i :: u16) :: u64) = ucast i"
  by (rule bit_word_eqI) (auto simp: bit_simps dest: bit_imp_le_length)

lemma take_bit_wide: "take_bit 2 (wide_bits w) = wide_bits w"
  by (cases w) simp_all

lemma setters_put_bits:
  "sq_set_c s c = put_bits 0 21 s (word_of_nat c)"
  "sq_set_wide s w = put_bits 21 2 s (wide_bits w)"
  "sq_set_style_id s i = put_bits 32 16 s (ucast i)"
  "sq_set_extras_id s e = put_bits 48 16 s (ucast (case e of None \<Rightarrow> 0 | Some x \<Rightarrow> x))"
  by (simp add: sq_set_c_def put_bits_def masks take_bit_eq_mask)
    (simp_all add: sq_set_wide_def sq_set_style_id_def sq_set_extras_id_def put_bits_def
      masks shifts take_bit_ucast take_bit_wide)

lemma set_flags_put_bits:
  assumes "take_bit 7 f = f"
  shows "sq_set_cell_flags s f = put_bits 23 7 s (ucast f)"
proof -
  have "take_bit 7 (ucast f :: u64) = ucast f" by (metis assms unsigned_take_bit_eq)
  then show ?thesis by (simp add: sq_set_cell_flags_def put_bits_def masks shifts)
qed

lemma view_put_bits:
  "view (put_bits 0 21 s v) = view s\<lparr>v_cp := take_bit 21 v\<rparr>"
  "view (put_bits 21 2 s v) = view s\<lparr>v_wide := take_bit 2 v\<rparr>"
  "view (put_bits 23 7 s v) = view s\<lparr>v_flags := take_bit 7 v\<rparr>"
  "view (put_bits 32 16 s v) = view s\<lparr>v_style := take_bit 16 v\<rparr>"
  "view (put_bits 48 16 s v) = view s\<lparr>v_extras := take_bit 16 v\<rparr>"
  by (simp_all add: view_def get_put_same get_put_other)

lemma view_inject: "view s = view t \<longleftrightarrow> s = t"
proof
  assume v: "view s = view t"
  show "s = t"
  proof (rule bit_word_eqI)
    fix n assume "n < LENGTH(64)"
    then consider "n < 21" | "21 \<le> n" "n < 23" | "23 \<le> n" "n < 30" | "30 \<le> n" "n < 32"
      | "32 \<le> n" "n < 48" | "48 \<le> n" "n < 64" by force
    moreover have "bit s n = bit t n" if "get_bits sh k s = get_bits sh k t" "sh \<le> n" "n < sh + k" for sh k
      using that bit_get_bits [of sh k s "n - sh"] bit_get_bits [of sh k t "n - sh"]
      by (simp add: less_diff_conv2 add.commute)
    note bits = this
    ultimately show "bit s n = bit t n"
      using v bits [of 0 21] bits [of 21 2] bits [of 23 7] bits [of 30 2] bits [of 32 16] bits [of 48 16]
      unfolding view_def cell_view.simps by cases simp_all
  qed
qed simp

text \<open>The accessors read their own field.\<close>

lemma flags_all: "cell_flags_all = 0xF"
  by (simp add: cell_flags_all_def CF_WRAPLINE_def CF_GRAPHICS_def CF_HYPERLINK_def CF_GRAPHEME_def)

lemma accessors_view:
  "sq_c s = (case char_from_u32 (unat (v_cp (view s))) of Some c \<Rightarrow> c | None \<Rightarrow> 0)"
  "sq_wide s = (if v_wide (view s) = 0 then Narrow else if v_wide (view s) = 1 then Wide
                else if v_wide (view s) = 2 then Spacer else LeadingSpacer)"
  "sq_content_tag s = (if v_tag (view s) = 0 then Codepoint else if v_tag (view s) = 1 then BgPalette
                       else BgRgb)"
  "sq_style_id s = ucast (v_style (view s))"
  "sq_extras_id s = (if v_extras (view s) = 0 then None else Some (ucast (v_extras (view s))))"
  "sq_cell_flags s = ucast (v_flags (view s)) AND 0xF"
proof -
  have three: "(3 :: u64) = mask 2" by (simp add: mask_eq_exp_minus_1)
  show "sq_c s = (case char_from_u32 (unat (v_cp (view s))) of Some c \<Rightarrow> c | None \<Rightarrow> 0)"
    by (simp add: sq_c_def view_def get_bits_def masks take_bit_eq_mask)
  show "sq_wide s = (if v_wide (view s) = 0 then Narrow else if v_wide (view s) = 1 then Wide
                else if v_wide (view s) = 2 then Spacer else LeadingSpacer)"
    by (simp add: sq_wide_def wide_from_bits_def view_def get_bits_def shifts three take_bit_eq_mask)
  show "sq_content_tag s = (if v_tag (view s) = 0 then Codepoint else if v_tag (view s) = 1 then BgPalette
                       else BgRgb)"
    by (simp add: sq_content_tag_def content_tag_from_bits_def view_def get_bits_def shifts three
        take_bit_eq_mask)
  have drop: "drop_bit k (s AND push_bit k (mask n)) = get_bits k n s" if "k + n \<le> 64" for k n
    using that by (intro bit_word_eqI) (auto simp: get_bits_def bit_simps)
  show "sq_style_id s = ucast (v_style (view s))"
    unfolding sq_style_id_def masks shifts by (simp only: drop) (simp add: view_def)
  have "(ucast (get_bits 48 16 s) :: u16) = 0 \<longleftrightarrow> get_bits 48 16 s = 0"
  proof
    assume z: "(ucast (get_bits 48 16 s) :: u16) = 0"
    show "get_bits 48 16 s = 0"
    proof (rule bit_word_eqI)
      fix n
      have "\<not> bit (ucast (get_bits 48 16 s) :: u16) n" by (simp add: z)
      then show "bit (get_bits 48 16 s) n = bit 0 n" by (auto simp: bit_simps bit_get_bits)
    qed
  qed simp
  then show "sq_extras_id s = (if v_extras (view s) = 0 then None else Some (ucast (v_extras (view s))))"
    unfolding sq_extras_id_def masks shifts by (simp only: drop) (simp add: view_def Let_def)
  show "sq_cell_flags s = ucast (v_flags (view s)) AND 0xF"
    unfolding sq_cell_flags_def masks shifts by (simp only: drop) (simp add: view_def flags_all)
qed

text \<open>Each mutator changes its own field.\<close>

lemma scalar_fits: "is_scalar c \<Longrightarrow> c < 2 ^ 21"
  by (auto simp: is_scalar_def)

lemma view_setters:
  "view (sq_set_c s c) = view s\<lparr>v_cp := take_bit 21 (word_of_nat c)\<rparr>"
  "view (sq_set_wide s w) = view s\<lparr>v_wide := wide_bits w\<rparr>"
  "view (sq_set_style_id s i) = view s\<lparr>v_style := ucast i\<rparr>"
  "view (sq_set_extras_id s e) = view s\<lparr>v_extras := ucast (case e of None \<Rightarrow> 0 | Some x \<Rightarrow> x)\<rparr>"
  "take_bit 7 f = f \<Longrightarrow> view (sq_set_cell_flags s f) = view s\<lparr>v_flags := ucast f\<rparr>"
  by (simp_all only: setters_put_bits set_flags_put_bits view_put_bits take_bit_ucast take_bit_wide)
    (metis unsigned_take_bit_eq)

subsection \<open>What an accessor reads after a mutator\<close>

definition fields ::
    "square \<Rightarrow> rchar \<times> wide \<times> cell_flags \<times> content_tag \<times> u16 \<times> u16 option" where
  "fields s = (sq_c s, sq_wide s, sq_cell_flags s, sq_content_tag s, sq_style_id s, sq_extras_id s)"

lemma cp_of_char:
  assumes "is_scalar c"
  shows "unat (take_bit 21 (word_of_nat c) :: u64) = c"
proof -
  have "c < 2 ^ 21" using scalar_fits [OF assms] .
  then have "take_bit 21 c = c" by (simp add: take_bit_nat_eq_self)
  moreover have "c < 2 ^ 64" using \<open>c < 2 ^ 21\<close> by simp
  then have "take_bit 64 c = c" by (simp add: take_bit_nat_eq_self)
  ultimately show ?thesis by (simp add: unsigned_take_bit_eq unsigned_of_nat)
qed

lemma style_of_ucast: "(ucast (ucast (i :: u16) :: u64) :: u16) = i"
  by (rule bit_word_eqI) (simp add: bit_simps)

lemma extras_ucast_0: "(ucast (i :: u16) :: u64) = 0 \<longleftrightarrow> i = 0"
  by (metis style_of_ucast unsigned_0)

lemma fields_set_c: "is_scalar c \<Longrightarrow> fields (sq_set_c s c) =
    (c, sq_wide s, sq_cell_flags s, sq_content_tag s, sq_style_id s, sq_extras_id s)"
  by (simp add: fields_def accessors_view view_setters cp_of_char char_from_u32_def)

lemma fields_set_wide: "fields (sq_set_wide s w) =
    (sq_c s, w, sq_cell_flags s, sq_content_tag s, sq_style_id s, sq_extras_id s)"
  by (cases w) (simp_all add: fields_def accessors_view view_setters)

lemma fields_set_style_id: "fields (sq_set_style_id s i) =
    (sq_c s, sq_wide s, sq_cell_flags s, sq_content_tag s, i, sq_extras_id s)"
  by (simp add: fields_def accessors_view view_setters style_of_ucast)

lemma fields_set_extras_id: "e \<noteq> Some 0 \<Longrightarrow> fields (sq_set_extras_id s e) =
    (sq_c s, sq_wide s, sq_cell_flags s, sq_content_tag s, sq_style_id s, e)"
  by (auto simp: fields_def accessors_view view_setters style_of_ucast extras_ucast_0 split: option.split)

lemma fields_set_cell_flags: "f AND cell_flags_all = f \<Longrightarrow> fields (sq_set_cell_flags s f) =
    (sq_c s, sq_wide s, f, sq_content_tag s, sq_style_id s, sq_extras_id s)"
proof -
  assume f: "f AND cell_flags_all = f"
  have "(15 :: u8) = mask 4" by (simp add: mask_eq_exp_minus_1)
  with f have "take_bit 4 f = f" by (simp add: flags_all take_bit_eq_mask)
  moreover have "take_bit 7 (take_bit 4 f) = take_bit 4 f" by simp
  ultimately have 7: "take_bit 7 f = f" by simp
  have "(ucast (ucast f :: u64) :: u8) = f" by (rule bit_word_eqI) (simp add: bit_simps)
  with f 7 show ?thesis by (simp add: fields_def accessors_view view_setters flags_all)
qed

lemma bg_view:
  "view (sq_set_bg_palette s i) =
     \<lparr>v_cp = 0, v_wide = 0, v_flags = v_flags (view s), v_tag = 1, v_style = ucast i, v_extras = 0\<rparr>"
  "view (sq_set_bg_rgb s r g b) =
     \<lparr>v_cp = 0, v_wide = 0, v_flags = v_flags (view s), v_tag = 2,
      v_style = ucast r OR push_bit 8 (ucast g), v_extras = ucast b\<rparr>"
  unfolding sq_set_bg_palette_def sq_set_bg_rgb_def view_def
  by (auto simp: get_bits_def masks shifts intro!: bit_word_eqI)
    (auto simp: bit_simps dest: bit_imp_le_length)

lemma bg_readers:
  "sq_bg_palette_index (sq_set_bg_palette s i) = i"
  "sq_bg_rgb (sq_set_bg_rgb s r g b) = (r, g, b)"
proof -
  show "sq_bg_palette_index (sq_set_bg_palette s i) = i"
    unfolding sq_bg_palette_index_def sq_set_bg_palette_def masks shifts
    by (rule bit_word_eqI) (auto simp: bit_simps dest: bit_imp_le_length)
  have ff: "(0xFF :: u64) = mask 8" by (simp add: mask_eq_exp_minus_1)
  show "sq_bg_rgb (sq_set_bg_rgb s r g b) = (r, g, b)"
    unfolding sq_bg_rgb_def sq_set_bg_rgb_def masks shifts ff prod.inject
    by (intro conjI bit_word_eqI) (auto simp: bit_simps dest: bit_imp_le_length)
qed

lemma fields_set_bg_palette:
  "fields (sq_set_bg_palette s i) = (0, Narrow, sq_cell_flags s, BgPalette, ucast i, None)"
proof -
  have "(ucast (ucast i :: u64) :: u16) = ucast i"
    by (rule bit_word_eqI) (auto simp: bit_simps dest: bit_imp_le_length)
  then show ?thesis
    by (simp add: fields_def accessors_view bg_view char_from_u32_def is_scalar_def)
qed

lemma fields_set_bg_rgb:
  "fields (sq_set_bg_rgb s r g b) =
     (0, Narrow, sq_cell_flags s, BgRgb, ucast r OR push_bit 8 (ucast g),
      if b = 0 then None else Some (ucast b))"
proof -
  have 1: "(ucast (ucast r OR push_bit 8 (ucast g) :: u64) :: u16) = ucast r OR push_bit 8 (ucast g)"
    and 2: "(ucast (ucast b :: u64) :: u16) = ucast b"
    by (rule bit_word_eqI; auto simp: bit_simps dest: bit_imp_le_length)+
  have "(ucast (ucast b :: u64) :: u8) = b" by (rule bit_word_eqI) (simp add: bit_simps)
  then have "(ucast b :: u64) = 0 \<longleftrightarrow> b = 0" by (metis unsigned_0)
  with 1 2 show ?thesis
    by (simp add: fields_def accessors_view bg_view char_from_u32_def is_scalar_def)
qed

lemma fields_0: "fields 0 = (0, Narrow, 0, Codepoint, 0, None)"
  by (simp add: fields_def accessors_view view_def get_bits_def char_from_u32_def is_scalar_def)

lemma fieldsD:
  assumes "fields s = (c, w, f, t, i, e)"
  shows "sq_c s = c" "sq_wide s = w" "sq_cell_flags s = f" "sq_content_tag s = t" "sq_style_id s = i"
    "sq_extras_id s = e"
  using assms by (simp_all add: fields_def)

lemmas sq_simps =
  fieldsD [OF fields_set_wide] fieldsD [OF fields_set_style_id] fieldsD [OF fields_0]
  fieldsD [OF fields_set_bg_palette] fieldsD [OF fields_set_bg_rgb]

lemmas sq_set_c_simps = fieldsD [OF fields_set_c]

lemma fields_reset: "fields (sq_reset s t) = (0, Narrow, 0, Codepoint, sq_style_id t, None)"
  by (simp add: sq_reset_def sq_with_style_id_def fields_set_style_id sq_simps)

lemma fields_set_wrapline:
  "fields (sq_set_wrapline s on) =
     (sq_c s, sq_wide s,
      (if on then sq_cell_flags s OR CF_WRAPLINE else sq_cell_flags s AND NOT CF_WRAPLINE),
      sq_content_tag s, sq_style_id s, sq_extras_id s)"
proof -
  have all: "sq_cell_flags s AND cell_flags_all = sq_cell_flags s"
    by (simp add: sq_cell_flags_def and.assoc)
  have w: "CF_WRAPLINE AND cell_flags_all = CF_WRAPLINE"
    by (simp add: flags_all CF_WRAPLINE_def)
  have "(sq_cell_flags s OR CF_WRAPLINE) AND cell_flags_all = sq_cell_flags s OR CF_WRAPLINE"
    using all w by (simp add: word_ao_dist)
  moreover have "(sq_cell_flags s AND NOT CF_WRAPLINE) AND cell_flags_all = sq_cell_flags s AND NOT CF_WRAPLINE"
    using all by (metis and.assoc and.commute)
  ultimately show ?thesis
    by (simp add: sq_set_wrapline_def sq_insert_cell_flag_def sq_remove_cell_flag_def
        fields_set_cell_flags)
qed

lemma sq_wrapline_set [simp]: "sq_wrapline (sq_set_wrapline s on) = on"
  using fieldsD(3) [OF fields_set_wrapline [of s on]]
  by (simp add: sq_wrapline_def sq_contains_cell_flag_def CF_WRAPLINE_def word_ao_dist and.assoc)

text \<open>The trait \<open>GridSquare\<close>: what the rows and the grid need of their cells.\<close>

locale grid_square =
  fixes is_empty :: "'a \<Rightarrow> bool"
    and reset :: "'a \<Rightarrow> 'a \<Rightarrow> 'a"
    and default :: 'a
  assumes reset_uniform: "reset x t = reset y t"
    and default_empty: "is_empty default"
    and reset_default: "reset x default = default"

lemma sq_reset_0: "sq_reset s 0 = 0"
  by (simp add: sq_reset_def sq_with_style_id_def sq_simps) (simp add: sq_set_style_id_def)

interpretation square_cell: grid_square sq_is_empty sq_reset 0
proof
  fix s t x y :: square
  show "sq_reset s t = sq_reset x t" by (simp add: sq_reset_def)
  show "sq_is_empty 0" by (simp add: sq_is_empty_def)
  show "sq_reset s 0 = 0" by (rule sq_reset_0)
qed

subsection \<open>Properties\<close>

text \<open>The packed cell behaves as a record: every mutator changes the field it names to the
  value given and leaves the five others as they were (the hypotheses say that the arguments
  are values of the source's types: a Unicode scalar, a non-zero extras id, known flag bits),
  and the two background encodings drop the text but keep the flags and return their colour.\<close>

theorem cell_mutators:
  assumes "is_scalar c" "e \<noteq> Some 0" "f AND cell_flags_all = f"
  shows "fields (sq_set_c s c) =
      (c, sq_wide s, sq_cell_flags s, sq_content_tag s, sq_style_id s, sq_extras_id s) \<and>
    fields (sq_set_wide s w) =
      (sq_c s, w, sq_cell_flags s, sq_content_tag s, sq_style_id s, sq_extras_id s) \<and>
    fields (sq_set_cell_flags s f) =
      (sq_c s, sq_wide s, f, sq_content_tag s, sq_style_id s, sq_extras_id s) \<and>
    fields (sq_set_style_id s i) =
      (sq_c s, sq_wide s, sq_cell_flags s, sq_content_tag s, i, sq_extras_id s) \<and>
    fields (sq_set_extras_id s e) =
      (sq_c s, sq_wide s, sq_cell_flags s, sq_content_tag s, sq_style_id s, e) \<and>
    sq_cell_flags (sq_set_bg_rgb s r g b) = sq_cell_flags s \<and> sq_bg_rgb (sq_set_bg_rgb s r g b) = (r, g, b) \<and>
    sq_cell_flags (sq_set_bg_palette s p) = sq_cell_flags s \<and>
    sq_bg_palette_index (sq_set_bg_palette s p) = p"
  using assms
  by (simp add: fields_set_c fields_set_wide fields_set_cell_flags fields_set_style_id
      fields_set_extras_id sq_simps bg_readers)

theorem cell_mutators_witness:
  "fields (sq_set_c 0 0x1F600) = (0x1F600, Narrow, 0, Codepoint, 0, None) \<and>
   sq_extras_id (sq_set_extras_id 0 (Some 7)) = Some 7"
  using cell_mutators [where c = "0x1F600" and e = "Some 7" and f = 0 and s = 0] by (simp add: is_scalar_def fields_def sq_simps)

text \<open>A cell with an inline RGB background answers \<open>has_extras\<close> with its blue component: for
  any non-zero blue it reports an extras slot, although the cell holds none.\<close>

theorem rgb_background_reads_as_extras:
  "sq_is_bg_only (sq_set_bg_rgb s r g b) \<and> (sq_has_extras (sq_set_bg_rgb s r g b) \<longleftrightarrow> b \<noteq> 0)"
  by (simp add: sq_is_bg_only_def sq_has_extras_def sq_simps)

end
