(* ===== verification/Row.thy ===== *)
theory Row
  imports Square
begin

text \<open>
  \<open>crosswords/grid/row.rs\<close>: a row of cells, with the bookkeeping of the source: \<open>occ\<close> (an
  upper bound of the modified cells), the placeholder flag and the damage flag. The type of
  cells is a type variable; what \<open>GridSquare\<close> gives is passed as an argument. \<open>LineLength\<close>
  of \<open>square.rs\<close> is here too.
\<close>

subsection \<open>Operations\<close>

record 'a grid_row =
  cells :: "'a list"
  occ :: nat
  kitty_virtual_placeholder :: bool
  dirty :: bool

definition row_default :: "'a grid_row" where
  "row_default = \<lparr>cells = [], occ = 0, kitty_virtual_placeholder = False, dirty = True\<rparr>"

definition row_new :: "'a \<Rightarrow> nat \<Rightarrow> 'a grid_row option" where
  \<comment> \<open>the first argument is \<open>T::default()\<close>\<close>
  "row_new dflt columns = do {
     check (columns \<ge> 1);
     Some \<lparr>cells = replicate columns dflt, occ = 0, kitty_virtual_placeholder = False, dirty = True\<rparr>
   }"

definition row_copy_from :: "'a grid_row \<Rightarrow> 'a grid_row \<Rightarrow> 'a grid_row" where
  "row_copy_from r src =
     r\<lparr>cells := cells src, occ := occ src, kitty_virtual_placeholder := kitty_virtual_placeholder src\<rparr>"

definition row_grow :: "'a \<Rightarrow> 'a grid_row \<Rightarrow> nat \<Rightarrow> 'a grid_row" where
  "row_grow dflt r columns =
     (if length (cells r) \<ge> columns then r
      else r\<lparr>cells := cells r @ replicate (columns - length (cells r)) dflt\<rparr>)"

definition rposition :: "('a \<Rightarrow> bool) \<Rightarrow> 'a list \<Rightarrow> nat option" where
  \<comment> \<open>\<open>iter().rposition(P)\<close>: the last index whose element satisfies \<open>P\<close>\<close>
  "rposition P xs =
     (case dropWhile (Not \<circ> P) (rev xs) of [] \<Rightarrow> None | y # ys \<Rightarrow> Some (length ys))"

definition row_shrink ::
    "('a \<Rightarrow> bool) \<Rightarrow> 'a grid_row \<Rightarrow> nat \<Rightarrow> 'a grid_row \<times> 'a list option" where
  "row_shrink is_empty r columns =
     (if length (cells r) \<le> columns then (r, None)
      else
        (let new_row = drop columns (cells r);
             index = (case rposition (\<lambda>c. \<not> is_empty c) new_row of None \<Rightarrow> 0 | Some i \<Rightarrow> i + 1);
             new_row = take index new_row;
             r = r\<lparr>cells := take columns (cells r), occ := min (occ r) columns, dirty := True\<rparr>
         in (r, if new_row = [] then None else Some new_row)))"

definition row_reset :: "('a \<Rightarrow> 'a \<Rightarrow> 'a) \<Rightarrow> 'a \<Rightarrow> 'a grid_row \<Rightarrow> 'a grid_row option" where
  "row_reset cell_reset template r = do {
     check (cells r \<noteq> []);
     Some (r\<lparr>cells := map (\<lambda>c. cell_reset c template) (cells r), occ := 0,
             kitty_virtual_placeholder := False, dirty := True\<rparr>)
   }"

definition row_from_vec :: "'a list \<Rightarrow> nat \<Rightarrow> 'a grid_row" where
  "row_from_vec v n = \<lparr>cells = v, occ = n, kitty_virtual_placeholder = False, dirty = True\<rparr>"

definition row_len :: "'a grid_row \<Rightarrow> nat" where "row_len r = length (cells r)"

definition row_last :: "'a grid_row \<Rightarrow> 'a option" where
  "row_last r = (if cells r = [] then None else Some (last (cells r)))"

definition row_last_mut :: "'a grid_row \<Rightarrow> ('a \<Rightarrow> 'a) \<Rightarrow> 'a grid_row" where
  \<comment> \<open>\<open>if let Some(c) = row.last_mut() { f(c) }\<close>\<close>
  "row_last_mut r f =
     r\<lparr>cells := (if cells r = [] then [] else (cells r)[length (cells r) - 1 := f (last (cells r))]),
       occ := length (cells r), dirty := True\<rparr>"

definition row_append :: "'a grid_row \<Rightarrow> 'a list \<Rightarrow> 'a grid_row" where
  "row_append r v = r\<lparr>cells := cells r @ v, occ := occ r + length v, dirty := True\<rparr>"

definition row_append_front :: "'a grid_row \<Rightarrow> 'a list \<Rightarrow> 'a grid_row" where
  "row_append_front r v = r\<lparr>cells := v @ cells r, occ := occ r + length v, dirty := True\<rparr>"

definition row_front_split_off :: "'a grid_row \<Rightarrow> nat \<Rightarrow> ('a grid_row \<times> 'a list) option" where
  \<comment> \<open>\<open>split_off\<close> panics past the end; the row keeps the tail, the front is returned\<close>
  "row_front_split_off r at = do {
     check (at \<le> length (cells r));
     Some (r\<lparr>cells := drop at (cells r), occ := occ r - at, dirty := True\<rparr>, take at (cells r))
   }"

definition row_is_clear :: "('a \<Rightarrow> bool) \<Rightarrow> 'a grid_row \<Rightarrow> bool" where
  "row_is_clear is_empty r \<longleftrightarrow> list_all is_empty (cells r)"

subsection \<open>Indexing\<close>

text \<open>\<open>row[i]\<close> as a read, and the mutable borrows as functions that map the cells borrowed:
  \<open>row[i]\<close>, \<open>row[a..b]\<close>, \<open>row[..b]\<close>, \<open>row[a..]\<close>, \<open>row[..]\<close> and \<open>row[..=b]\<close>.\<close>

definition row_index :: "'a grid_row \<Rightarrow> nat \<Rightarrow> 'a option" where
  "row_index r i = idx (cells r) i"

definition row_index_range :: "'a grid_row \<Rightarrow> nat \<Rightarrow> nat \<Rightarrow> 'a list option" where
  "row_index_range r a b = subslice (cells r) a b"

definition row_index_mut :: "'a grid_row \<Rightarrow> nat \<Rightarrow> ('a \<Rightarrow> 'a) \<Rightarrow> 'a grid_row option" where
  "row_index_mut r i f = do {
     c \<leftarrow> idx (cells r) i;
     Some (r\<lparr>cells := (cells r)[i := f c], occ := max (occ r) (i + 1), dirty := True\<rparr>)
   }"

definition map_range :: "nat \<Rightarrow> nat \<Rightarrow> ('a \<Rightarrow> 'a) \<Rightarrow> 'a list \<Rightarrow> 'a list option" where
  \<comment> \<open>\<open>for x in &mut xs[a..b] { f(x) }\<close>\<close>
  "map_range a b f xs =
     (if a \<le> b \<and> b \<le> length xs
      then Some (take a xs @ map f (take (b - a) (drop a xs)) @ drop b xs) else None)"

definition row_index_mut_range :: "'a grid_row \<Rightarrow> nat \<Rightarrow> nat \<Rightarrow> ('a \<Rightarrow> 'a) \<Rightarrow> 'a grid_row option" where
  "row_index_mut_range r a b f = do {
     cs \<leftarrow> map_range a b f (cells r);
     Some (r\<lparr>cells := cs, occ := max (occ r) b, dirty := True\<rparr>)
   }"

definition row_index_mut_to :: "'a grid_row \<Rightarrow> nat \<Rightarrow> ('a \<Rightarrow> 'a) \<Rightarrow> 'a grid_row option" where
  "row_index_mut_to r b f = do {
     cs \<leftarrow> map_range 0 b f (cells r);
     Some (r\<lparr>cells := cs, occ := max (occ r) b, dirty := True\<rparr>)
   }"

definition row_index_mut_from :: "'a grid_row \<Rightarrow> nat \<Rightarrow> ('a \<Rightarrow> 'a) \<Rightarrow> 'a grid_row option" where
  "row_index_mut_from r a f = do {
     cs \<leftarrow> map_range a (length (cells r)) f (cells r);
     Some (r\<lparr>cells := cs, occ := length (cells r), dirty := True\<rparr>)
   }"

definition row_index_mut_full :: "'a grid_row \<Rightarrow> ('a \<Rightarrow> 'a) \<Rightarrow> 'a grid_row" where
  \<comment> \<open>also \<open>for cell in &mut row\<close>\<close>
  "row_index_mut_full r f =
     r\<lparr>cells := map f (cells r), occ := length (cells r), dirty := True\<rparr>"

definition row_index_mut_to_inclusive :: "'a grid_row \<Rightarrow> nat \<Rightarrow> ('a \<Rightarrow> 'a) \<Rightarrow> 'a grid_row option" where
  "row_index_mut_to_inclusive r b f = do {
     cs \<leftarrow> map_range 0 (b + 1) f (cells r);
     Some (r\<lparr>cells := cs, occ := max (occ r) b, dirty := True\<rparr>)
   }"

definition line_length :: "square grid_row \<Rightarrow> nat option" where
  "line_length r = do {
     l \<leftarrow> usub (length (cells r)) 1;
     c \<leftarrow> idx (cells r) l;
     if sq_wrapline c then Some (length (cells r))
     else Some (case dropWhile (\<lambda>c. \<not> (sq_c c \<noteq> 0 \<or> sq_has_extras c)) (rev (cells r)) of
                  [] \<Rightarrow> 0 | y # ys \<Rightarrow> length ys + 1)
   }"

subsection \<open>Lemmas\<close>

lemma map_range_length: "map_range a b f xs = Some ys \<Longrightarrow> length ys = length xs"
  by (auto simp: map_range_def split: if_splits)

lemma map_range_nth:
  "map_range a b f xs = Some ys \<Longrightarrow> i < length xs \<Longrightarrow> ys ! i = (if a \<le> i \<and> i < b then f (xs ! i) else xs ! i)"
  by (auto simp: map_range_def nth_append split: if_splits)

lemma wp_map_range [wp_simps]:
  "wp (map_range a b f xs) P =
     (a \<le> b \<and> b \<le> length xs \<and> P (take a xs @ map f (take (b - a) (drop a xs)) @ drop b xs))"
  by (auto simp: map_range_def wp_def)

lemma wp_row_index_mut [wp_simps]:
  "wp (row_index_mut r i f) P = (i < length (cells r) \<and>
     P (r\<lparr>cells := (cells r)[i := f (cells r ! i)], occ := max (occ r) (i + 1), dirty := True\<rparr>))"
  by (simp add: row_index_mut_def wp_simps)

lemma wp_row_reset [wp_simps]:
  "wp (row_reset cr t r) P = (cells r \<noteq> [] \<and>
     P (r\<lparr>cells := map (\<lambda>c. cr c t) (cells r), occ := 0, kitty_virtual_placeholder := False, dirty := True\<rparr>))"
  by (auto simp: row_reset_def wp_simps)

lemma dropWhile_rev_last:
  assumes "dropWhile (Not \<circ> P) (rev xs) = y # ys"
  shows "length ys < length xs" "P (xs ! length ys)" "\<forall>i. length ys < i \<and> i < length xs \<longrightarrow> \<not> P (xs ! i)"
proof -
  define zs where "zs = takeWhile (Not \<circ> P) (rev xs)"
  have "rev xs = zs @ y # ys" unfolding zs_def assms [symmetric] by simp
  then have xs: "xs = rev ys @ y # rev zs" by (metis rev.simps(2) rev_append rev_rev_ident append.assoc append_Cons append_Nil)
  show "length ys < length xs" by (simp add: xs)
  have "P y" using hd_dropWhile [of "Not \<circ> P" "rev xs"] assms by simp
  then show "P (xs ! length ys)" by (simp add: xs nth_append)
  have zs: "\<forall>z \<in> set zs. \<not> P z" unfolding zs_def by (auto dest: set_takeWhileD)
  show "\<forall>i. length ys < i \<and> i < length xs \<longrightarrow> \<not> P (xs ! i)"
  proof (intro allI impI)
    fix i assume i: "length ys < i \<and> i < length xs"
    then obtain k where "i = Suc (length ys + k)" using less_imp_Suc_add by blast
    with i have "xs ! i = rev zs ! k" "k < length (rev zs)" by (auto simp: xs nth_append)
    then have "xs ! i \<in> set zs" by (metis nth_mem set_rev)
    with zs show "\<not> P (xs ! i)" by blast
  qed
qed

lemma dropWhile_rev_none: "dropWhile (Not \<circ> P) (rev xs) = [] \<Longrightarrow> i < length xs \<Longrightarrow> \<not> P (xs ! i)"
  by (auto simp: dropWhile_eq_Nil_conv)

lemma rposition_Some:
  "rposition P xs = Some i \<Longrightarrow> i < length xs \<and> P (xs ! i) \<and> (\<forall>j. i < j \<and> j < length xs \<longrightarrow> \<not> P (xs ! j))"
  using dropWhile_rev_last [of P xs] by (auto simp: rposition_def split: list.splits)

lemma rposition_None: "rposition P xs = None \<Longrightarrow> i < length xs \<Longrightarrow> \<not> P (xs ! i)"
  using dropWhile_rev_none [of P xs i] by (auto simp: rposition_def split: list.splits)

definition content_cell :: "square \<Rightarrow> bool" where
  "content_cell c \<longleftrightarrow> sq_c c \<noteq> 0 \<or> sq_has_extras c"

lemma line_length_cases:
  assumes "cells r \<noteq> []" "\<not> sq_wrapline (last (cells r))"
  obtains n where "line_length r = Some n" "n \<le> length (cells r)"
    "n \<noteq> 0 \<longrightarrow> content_cell (cells r ! (n - 1))"
    "\<forall>i. n \<le> i \<and> i < length (cells r) \<longrightarrow> \<not> content_cell (cells r ! i)"
proof -
  let ?d = "dropWhile (Not \<circ> content_cell) (rev (cells r))"
  have e: "line_length r = Some (case ?d of [] \<Rightarrow> 0 | y # ys \<Rightarrow> length ys + 1)"
    using assms by (simp add: line_length_def usub_def idx_def Suc_le_eq last_conv_nth comp_def
        content_cell_def)
  show thesis
  proof (cases ?d)
    case Nil
    with e that [of 0] dropWhile_rev_none [OF Nil] show thesis by simp
  next
    case (Cons y ys)
    with e that [of "length ys + 1"] dropWhile_rev_last [OF Cons] show thesis by (auto simp: Suc_le_eq)
  qed
qed

subsection \<open>Properties\<close>

text \<open>The length of a line: a soft-wrapped row is full; otherwise everything from the length
  on is blank (no character, no extras) and the cell before it is not. It never panics on a
  row that has cells.\<close>

theorem line_length_spec:
  assumes "cells r \<noteq> []"
  shows "\<exists>n. line_length r = Some n \<and> n \<le> length (cells r) \<and>
    (if sq_wrapline (last (cells r)) then n = length (cells r)
     else (n \<noteq> 0 \<longrightarrow> content_cell (cells r ! (n - 1))) \<and>
          (\<forall>i. n \<le> i \<and> i < length (cells r) \<longrightarrow> \<not> content_cell (cells r ! i)))"
proof (cases "sq_wrapline (last (cells r))")
  case True
  with assms show ?thesis by (simp add: line_length_def usub_def idx_def Suc_le_eq last_conv_nth)
next
  case False
  from line_length_cases [OF assms False] show ?thesis using False by metis
qed

theorem line_length_spec_witness:
  "\<exists>n. line_length (row_from_vec [sq_from_char 0x41, 0, 0] 3) = Some n \<and> n \<le> 3"
  using line_length_spec [of "row_from_vec [sq_from_char 0x41, 0, 0] 3"] by (auto simp: row_from_vec_def)

text \<open>\<open>occ\<close> is documented as an upper bound of the modified cells, and the mutable borrows
  raise it past the last cell they give out, but the one of \<open>row[..=b]\<close> only raises it to \<open>b\<close>:
  after writing through it on a fresh row, cell \<open>b\<close> is modified and lies outside \<open>occ\<close>.\<close>

theorem inclusive_borrow_underestimates_occ:
  assumes "b < columns" "f dflt \<noteq> dflt" "row_new dflt columns = Some r"
  shows "\<exists>r'. row_index_mut_to_inclusive r b f = Some r' \<and> occ r' = b \<and>
    cells r' ! b \<noteq> cells r ! b \<and> (\<exists>r''. row_index_mut r b f = Some r'' \<and> occ r'' = b + 1)"
  using assms
  by (auto simp: row_index_mut_to_inclusive_def row_index_mut_def row_new_def check_def map_range_def
      idx_def nth_append split: if_splits)

theorem inclusive_borrow_underestimates_occ_witness:
  "\<exists>r r'. row_new (0 :: square) 2 = Some r \<and>
     row_index_mut_to_inclusive r 1 (\<lambda>_. 1) = Some r' \<and> occ r' = 1"
  using inclusive_borrow_underestimates_occ [of 1 2 "\<lambda>_. 1" "0 :: square" "the (row_new (0 :: square) 2)"]
  by (auto simp: row_new_def check_def)

end
