(* ===== verification/Storage.thy ===== *)
theory Storage
  imports Row
begin

text \<open>
  \<open>crosswords/grid/storage.rs\<close>: the ring buffer of rows. \<open>ring\<close> is the list the buffer stands
  for, from the bottom line of the screen up into the history; the operations are shown to be
  the list operations they implement. The interface that the grid scrolls through is the
  locale \<open>line_store\<close>.
\<close>

subsection \<open>Operations\<close>

definition MAX_CACHE_SIZE :: nat where "MAX_CACHE_SIZE = 1000"

record 'a storage =
  inner :: "'a grid_row list"
  zero :: nat
  visible_lines :: nat
  st_len :: nat

definition replicate_rows :: "'a \<Rightarrow> nat \<Rightarrow> nat \<Rightarrow> 'a grid_row list option" where
  \<comment> \<open>what \<open>resize_with(.., || Row::new(columns))\<close> appends\<close>
  "replicate_rows dflt n columns =
     (if n = 0 then Some [] else map_option (replicate n) (row_new dflt columns))"

definition storage_with_capacity :: "'a \<Rightarrow> nat \<Rightarrow> nat \<Rightarrow> 'a storage option" where
  "storage_with_capacity dflt visible columns = do {
     rows \<leftarrow> replicate_rows dflt visible columns;
     Some \<lparr>inner = rows, zero = 0, visible_lines = visible, st_len = visible\<rparr>
   }"

definition rezero :: "'a storage \<Rightarrow> 'a storage" where
  "rezero s = (if zero s = 0 then s
     else s\<lparr>inner := drop (zero s) (inner s) @ take (zero s) (inner s), zero := 0\<rparr>)"

definition storage_truncate :: "'a storage \<Rightarrow> 'a storage" where
  "storage_truncate s = (let s = rezero s in s\<lparr>inner := take (st_len s) (inner s)\<rparr>)"

definition shrink_lines :: "'a storage \<Rightarrow> nat \<Rightarrow> 'a storage option" where
  "shrink_lines s shrinkage = do {
     l \<leftarrow> usub (st_len s) shrinkage;
     let s = s\<lparr>st_len := l\<rparr>;
     Some (if length (inner s) > st_len s + MAX_CACHE_SIZE then storage_truncate s else s)
   }"

definition initialize :: "'a \<Rightarrow> 'a storage \<Rightarrow> nat \<Rightarrow> nat \<Rightarrow> 'a storage option" where
  "initialize dflt s additional_rows columns = do {
     s \<leftarrow> (if st_len s + additional_rows > length (inner s) then do {
            let s = rezero s;
            rows \<leftarrow> replicate_rows dflt (max additional_rows MAX_CACHE_SIZE) columns;
            Some (s\<lparr>inner := inner s @ rows\<rparr>)
          } else Some s);
     Some (s\<lparr>st_len := st_len s + additional_rows\<rparr>)
   }"

definition compute_index :: "'a storage \<Rightarrow> int \<Rightarrow> nat option" where
  "compute_index s requested = do {
     check (requested < int (visible_lines s));
     let positive = nat (int (visible_lines s) - requested - 1);
     check (positive < st_len s);
     let zeroed = zero s + positive;
     Some (if zeroed \<ge> length (inner s) then zeroed - length (inner s) else zeroed)
   }"

definition storage_index :: "'a storage \<Rightarrow> int \<Rightarrow> 'a grid_row option" where
  "storage_index s l = do {
     i \<leftarrow> compute_index s l;
     idx (inner s) i
   }"

definition storage_modify ::
    "'a storage \<Rightarrow> int \<Rightarrow> ('a grid_row \<Rightarrow> 'a grid_row option) \<Rightarrow> 'a storage option" where
  \<comment> \<open>a call of \<open>f\<close> on \<open>&mut storage[l]\<close>\<close>
  "storage_modify s l f = do {
     i \<leftarrow> compute_index s l;
     r \<leftarrow> idx (inner s) i;
     r \<leftarrow> f r;
     Some (s\<lparr>inner := (inner s)[i := r]\<rparr>)
   }"

definition storage_swap :: "'a storage \<Rightarrow> int \<Rightarrow> int \<Rightarrow> 'a storage option" where
  "storage_swap s a b = do {
     a \<leftarrow> compute_index s a;
     b \<leftarrow> compute_index s b;
     ra \<leftarrow> idx (inner s) a;
     rb \<leftarrow> idx (inner s) b;
     Some (s\<lparr>inner := (inner s)[a := rb, b := ra]\<rparr>)
   }"

definition rotate :: "'a storage \<Rightarrow> int \<Rightarrow> 'a storage option" where
  "rotate s count = do {
     check (nat \<bar>count\<bar> \<le> length (inner s));
     check (length (inner s) \<noteq> 0);
     Some (s\<lparr>zero := nat (int (zero s) + count + int (length (inner s))) mod length (inner s)\<rparr>)
   }"

definition rotate_down :: "'a storage \<Rightarrow> nat \<Rightarrow> 'a storage option" where
  "rotate_down s count = do {
     check (length (inner s) \<noteq> 0);
     Some (s\<lparr>zero := (zero s + count) mod length (inner s)\<rparr>)
   }"

definition grow_visible_lines :: "'a \<Rightarrow> 'a storage \<Rightarrow> nat \<Rightarrow> 'a storage option" where
  "grow_visible_lines dflt s next = do {
     growage \<leftarrow> usub next (visible_lines s);
     r \<leftarrow> storage_index s 0;
     s \<leftarrow> initialize dflt s growage (row_len r);
     Some (s\<lparr>visible_lines := next\<rparr>)
   }"

definition shrink_visible_lines :: "'a storage \<Rightarrow> nat \<Rightarrow> 'a storage option" where
  "shrink_visible_lines s next = do {
     shrinkage \<leftarrow> usub (visible_lines s) next;
     s \<leftarrow> shrink_lines s shrinkage;
     Some (s\<lparr>visible_lines := next\<rparr>)
   }"

definition replace_inner :: "'a storage \<Rightarrow> 'a grid_row list \<Rightarrow> 'a storage" where
  "replace_inner s v = s\<lparr>st_len := length v, inner := v, zero := 0\<rparr>"

definition take_all :: "'a storage \<Rightarrow> 'a storage \<times> 'a grid_row list" where
  "take_all s = (let s = storage_truncate s in (s\<lparr>inner := [], st_len := 0\<rparr>, inner s))"

subsection \<open>The list a buffer stands for\<close>

definition ring :: "'a storage \<Rightarrow> 'a grid_row list" where
  "ring s = map (\<lambda>k. inner s ! ((zero s + k) mod length (inner s))) [0..<st_len s]"

definition storage_wf :: "nat \<Rightarrow> 'a storage \<Rightarrow> bool" where
  \<comment> \<open>every row, cached ones included, has \<open>w\<close> cells\<close>
  "storage_wf w s \<longleftrightarrow>
     zero s < length (inner s) \<and> st_len s \<le> length (inner s) \<and> visible_lines s \<le> st_len s \<and>
     (\<forall>r \<in> set (inner s). length (cells r) = w)"

definition in_store :: "'a storage \<Rightarrow> int \<Rightarrow> bool" where
  "in_store s l \<longleftrightarrow> int (visible_lines s) - int (st_len s) \<le> l \<and> l < int (visible_lines s)"

definition pos_of :: "'a storage \<Rightarrow> int \<Rightarrow> nat" where
  \<comment> \<open>a line's index in the list\<close>
  "pos_of s l = nat (int (visible_lines s) - l - 1)"

definition row_at :: "'a storage \<Rightarrow> int \<Rightarrow> 'a grid_row" where
  "row_at s l = ring s ! pos_of s l"

lemma length_ring [simp]: "length (ring s) = st_len s"
  by (simp add: ring_def)

lemma ring_nth: "k < st_len s \<Longrightarrow> ring s ! k = inner s ! ((zero s + k) mod length (inner s))"
  by (simp add: ring_def)

lemma pos_of_less: "in_store s l \<Longrightarrow> pos_of s l < st_len s"
  by (auto simp: in_store_def pos_of_def)

lemma pos_of_inject: "in_store s l \<Longrightarrow> in_store s m \<Longrightarrow> pos_of s l = pos_of s m \<longleftrightarrow> l = m"
  by (auto simp: in_store_def pos_of_def)

lemma wrap_index:
  "a < n \<Longrightarrow> b \<le> n \<Longrightarrow> (if a + b \<ge> n then a + b - n else a + b) = (a + b) mod (n::nat)"
  by (auto simp: mod_if)

lemma compute_index_ok:
  assumes "storage_wf w s" "in_store s l"
  shows "compute_index s l = Some ((zero s + pos_of s l) mod length (inner s))"
proof -
  have "pos_of s l < st_len s" by (rule pos_of_less [OF assms(2)])
  with assms wrap_index [of "zero s" "length (inner s)" "pos_of s l"] show ?thesis
    by (auto simp: compute_index_def check_def Let_def storage_wf_def in_store_def pos_of_def)
qed

lemma compute_index_less:
  "storage_wf w s \<Longrightarrow> (zero s + k) mod length (inner s) < length (inner s)"
  by (intro mod_less_divisor) (auto simp: storage_wf_def)

lemma storage_index_ok:
  assumes "storage_wf w s" "in_store s l"
  shows "storage_index s l = Some (row_at s l)"
  using compute_index_ok [OF assms] compute_index_less [OF assms(1)] pos_of_less [OF assms(2)]
  by (simp add: storage_index_def idx_def row_at_def ring_nth)

lemma row_at_width:
  assumes "storage_wf w s" "in_store s l"
  shows "length (cells (row_at s l)) = w"
  using assms pos_of_less [OF assms(2)] compute_index_less [OF assms(1), of "pos_of s l"]
  by (auto simp: row_at_def ring_nth storage_wf_def)

text \<open>Two offsets inside the buffer hit the same slot only when they are equal.\<close>

lemma slot_inject:
  assumes "z < n" "j < n" "k < (n::nat)"
  shows "(z + j) mod n = (z + k) mod n \<longleftrightarrow> j = k"
  using assms by (auto simp flip: wrap_index split: if_splits)

lemma ring_update:
  assumes "storage_wf w s" "k < st_len s"
  shows "ring (s\<lparr>inner := (inner s)[(zero s + k) mod length (inner s) := r]\<rparr>) = (ring s)[k := r]"
proof (rule nth_equalityI)
  fix j assume "j < length (ring (s\<lparr>inner := (inner s)[(zero s + k) mod length (inner s) := r]\<rparr>))"
  then have j: "j < st_len s" by simp
  have "(zero s + k) mod length (inner s) = (zero s + j) mod length (inner s) \<longleftrightarrow> k = j"
    using assms j by (intro slot_inject) (auto simp: storage_wf_def)
  then show "ring (s\<lparr>inner := (inner s)[(zero s + k) mod length (inner s) := r]\<rparr>) ! j = (ring s)[k := r] ! j"
    using j assms compute_index_less [OF assms(1)] by (simp add: ring_nth nth_list_update)
qed simp

lemma storage_modify_ok:
  assumes "storage_wf w s" "in_store s l" "f (row_at s l) = Some r" "length (cells r) = w"
  shows "\<exists>s'. storage_modify s l f = Some s' \<and> storage_wf w s' \<and> ring s' = (ring s)[pos_of s l := r] \<and>
    visible_lines s' = visible_lines s \<and> st_len s' = st_len s"
proof (intro exI conjI)
  let ?i = "(zero s + pos_of s l) mod length (inner s)"
  let ?s = "s\<lparr>inner := (inner s)[?i := r]\<rparr>"
  have i: "?i < length (inner s)" by (rule compute_index_less [OF assms(1)])
  have "inner s ! ?i = row_at s l" using pos_of_less [OF assms(2)] by (simp add: row_at_def ring_nth)
  then show "storage_modify s l f = Some ?s"
    using compute_index_ok [OF assms(1,2)] i assms(3) by (simp add: storage_modify_def idx_def)
  show "storage_wf w ?s"
    using assms(1,4) by (auto simp: storage_wf_def dest!: set_update_subset_insert [THEN subsetD])
  show "ring ?s = (ring s)[pos_of s l := r]" by (rule ring_update [OF assms(1) pos_of_less [OF assms(2)]])
qed simp_all

lemma storage_swap_ok:
  assumes "storage_wf w s" "in_store s a" "in_store s b"
  shows "\<exists>s'. storage_swap s a b = Some s' \<and> storage_wf w s' \<and>
    ring s' = (ring s)[pos_of s a := row_at s b, pos_of s b := row_at s a] \<and>
    visible_lines s' = visible_lines s \<and> st_len s' = st_len s"
proof (intro exI conjI)
  let ?i = "(zero s + pos_of s a) mod length (inner s)" and ?j = "(zero s + pos_of s b) mod length (inner s)"
  let ?t = "s\<lparr>inner := (inner s)[?i := row_at s b]\<rparr>"
  let ?s = "s\<lparr>inner := (inner s)[?i := row_at s b, ?j := row_at s a]\<rparr>"
  have ij: "?i < length (inner s)" "?j < length (inner s)"
    by (rule compute_index_less [OF assms(1)])+
  have at: "inner s ! ?i = row_at s a" "inner s ! ?j = row_at s b"
    using pos_of_less [OF assms(2)] pos_of_less [OF assms(3)] by (simp_all add: row_at_def ring_nth)
  then show "storage_swap s a b = Some ?s"
    using compute_index_ok [OF assms(1,2)] compute_index_ok [OF assms(1,3)] ij
    by (simp add: storage_swap_def idx_def)
  have rows: "row_at s a \<in> set (inner s)" "row_at s b \<in> set (inner s)"
    using at ij by (metis nth_mem)+
  then show "storage_wf w ?s"
    using assms(1) by (auto simp: storage_wf_def dest!: set_update_subset_insert [THEN subsetD])
  have t: "storage_wf w ?t"
    using assms(1) rows by (auto simp: storage_wf_def dest!: set_update_subset_insert [THEN subsetD])
  have "ring ?t = (ring s)[pos_of s a := row_at s b]"
    by (rule ring_update [OF assms(1) pos_of_less [OF assms(2)]])
  with ring_update [OF t, of "pos_of s b" "row_at s a"] pos_of_less [OF assms(3)]
  show "ring ?s = (ring s)[pos_of s a := row_at s b, pos_of s b := row_at s a]" by simp
qed simp_all

subsection \<open>Rotation, growing and shrinking\<close>

lemma rezero_ring:
  assumes "storage_wf w s"
  shows "ring (rezero s) = ring s" "storage_wf w (rezero s)" "zero (rezero s) = 0"
    "length (inner (rezero s)) = length (inner s)" "st_len (rezero s) = st_len s"
    "visible_lines (rezero s) = visible_lines s"
proof -
  show "ring (rezero s) = ring s"
  proof (rule nth_equalityI)
    fix k assume "k < length (ring (rezero s))"
    then have k: "k < st_len s" by (simp add: rezero_def split: if_splits)
    then have "k < length (inner s)" "zero s < length (inner s)" using assms by (auto simp: storage_wf_def)
    then have "(drop (zero s) (inner s) @ take (zero s) (inner s)) ! k = inner s ! ((zero s + k) mod length (inner s))"
      by (auto simp: nth_append add.commute simp flip: wrap_index)
    with k \<open>k < length (inner s)\<close> show "ring (rezero s) ! k = ring s ! k" by (simp add: ring_nth rezero_def)
  qed (simp add: rezero_def)
  show "storage_wf w (rezero s)"
    using assms by (auto simp: storage_wf_def rezero_def dest: in_set_dropD in_set_takeD)
  show "zero (rezero s) = 0" "st_len (rezero s) = st_len s" "visible_lines (rezero s) = visible_lines s"
    by (simp_all add: rezero_def)
  show "length (inner (rezero s)) = length (inner s)" using assms by (simp add: rezero_def storage_wf_def)
qed

lemma truncate_ring:
  assumes "storage_wf w s" "0 < st_len s"
  shows "ring (storage_truncate s) = ring s" "storage_wf w (storage_truncate s)"
    "st_len (storage_truncate s) = st_len s" "visible_lines (storage_truncate s) = visible_lines s"
    "inner (storage_truncate s) = ring s"
proof -
  note z = rezero_ring [OF assms(1)]
  let ?z = "rezero s"
  have len: "st_len s \<le> length (inner ?z)" using assms(1) z by (simp add: storage_wf_def)
  have in_eq: "inner (storage_truncate s) = take (st_len s) (inner ?z)"
    by (simp add: storage_truncate_def Let_def z(5))
  have "take (st_len s) (inner ?z) = ring ?z"
    using len z(3,5) assms(2) by (intro nth_equalityI) (auto simp: ring_nth)
  with in_eq z(1) show i: "inner (storage_truncate s) = ring s" by simp
  show "st_len (storage_truncate s) = st_len s" "visible_lines (storage_truncate s) = visible_lines s"
    by (simp_all add: storage_truncate_def Let_def z)
  have zt: "zero (storage_truncate s) = 0" by (simp add: storage_truncate_def Let_def z)
  show "ring (storage_truncate s) = ring s"
    using i zt by (intro nth_equalityI) (auto simp: ring_nth storage_truncate_def Let_def z(5))
  show "storage_wf w (storage_truncate s)"
    using z(2) zt assms(2) in_eq len
    by (auto simp: storage_wf_def storage_truncate_def Let_def z dest: in_set_takeD)
qed

lemma ring_shorter:
  "ring (s\<lparr>st_len := n\<rparr>) = take n (ring s)" if "n \<le> st_len s"
  using that by (intro nth_equalityI) (auto simp: ring_nth)

lemma shrink_lines_ok:
  assumes "storage_wf w s" "n \<le> st_len s - visible_lines s" "0 < visible_lines s"
  shows "\<exists>s'. shrink_lines s n = Some s' \<and> storage_wf w s' \<and> ring s' = take (st_len s - n) (ring s) \<and>
    st_len s' = st_len s - n \<and> visible_lines s' = visible_lines s"
proof -
  let ?s = "s\<lparr>st_len := st_len s - n\<rparr>"
  have v: "visible_lines s \<le> st_len s" using assms(1) by (simp add: storage_wf_def)
  have wf: "storage_wf w ?s" and pos: "0 < st_len ?s"
    using assms v by (auto simp: storage_wf_def)
  have "shrink_lines s n = Some (if length (inner ?s) > st_len ?s + MAX_CACHE_SIZE then storage_truncate ?s else ?s)"
    using assms(2) v by (simp add: shrink_lines_def usub_def Let_def)
  then show ?thesis
    using wf truncate_ring [OF wf pos] by (auto simp: ring_shorter)
qed

lemma replicate_rows_ok:
  "0 < w \<Longrightarrow> \<exists>rows. replicate_rows d n w = Some rows \<and> length rows = n \<and> (\<forall>r \<in> set rows. length (cells r) = w)"
  by (auto simp: replicate_rows_def row_new_def check_def)

lemma initialize_ok:
  assumes "storage_wf w s" "0 < w"
  shows "\<exists>s'. initialize d s n w = Some s' \<and> storage_wf w s' \<and> st_len s' = st_len s + n \<and>
    visible_lines s' = visible_lines s \<and> take (st_len s) (ring s') = ring s"
proof (cases "st_len s + n > length (inner s)")
  case False
  let ?s = "s\<lparr>st_len := st_len s + n\<rparr>"
  have "take (st_len s) (ring ?s) = ring s" by (intro nth_equalityI) (auto simp: ring_nth)
  with False assms(1) show ?thesis by (simp add: initialize_def storage_wf_def)
next
  case True
  let ?m = "max n MAX_CACHE_SIZE"
  obtain rows where rows: "replicate_rows d ?m w = Some rows" "length rows = ?m"
    "\<forall>r \<in> set rows. length (cells r) = w"
    using replicate_rows_ok [OF assms(2), of d ?m] by blast
  note z = rezero_ring [OF assms(1)]
  let ?s = "(rezero s)\<lparr>inner := inner (rezero s) @ rows, st_len := st_len s + n\<rparr>"
  have wf: "storage_wf w ?s"
    using z(2) rows assms(1) unfolding storage_wf_def by (auto simp: z)
  have "ring s = ring (rezero s)" by (simp add: z)
  also have "\<dots> = take (st_len s) (ring ?s)"
  proof (rule nth_equalityI)
    fix k assume "k < length (ring (rezero s))"
    then have k: "k < st_len s" by (simp add: z)
    moreover have "k < length (inner s)" using k assms(1) by (simp add: storage_wf_def)
    ultimately show "ring (rezero s) ! k = take (st_len s) (ring ?s) ! k"
      using ring_nth [of k "rezero s"] ring_nth [of k ?s] z(3-5) by (simp add: nth_append)
  qed (simp add: z)
  finally show ?thesis
    using True rows(1) wf by (simp add: initialize_def Let_def z)
qed

text \<open>Rotation by \<open>- n\<close>: the buffer's list moves up by \<open>n\<close>, and \<open>n\<close> rows of the buffer come in
  below (their content is whatever the slots held).\<close>

lemma rotate_ok:
  assumes "storage_wf w s" "n \<le> length (inner s)"
  shows "\<exists>s'. rotate s (- int n) = Some s' \<and> storage_wf w s' \<and> st_len s' = st_len s \<and>
    visible_lines s' = visible_lines s \<and>
    (\<forall>k. n \<le> k \<and> k < st_len s \<longrightarrow> ring s' ! k = ring s ! (k - n))"
proof -
  let ?L = "length (inner s)"
  let ?s = "s\<lparr>zero := (zero s + ?L - n) mod ?L\<rparr>"
  have L: "0 < ?L" using assms(1) by (auto simp: storage_wf_def)
  have "nat (int (zero s) + - int n + int ?L) = zero s + ?L - n" using assms(2) by linarith
  then have r: "rotate s (- int n) = Some ?s"
    using assms(2) L by (simp add: rotate_def check_def)
  have wf: "storage_wf w ?s" using assms(1) L by (simp add: storage_wf_def)
  have "ring ?s ! k = ring s ! (k - n)" if "n \<le> k" "k < st_len s" for k
  proof -
    have "((zero s + ?L - n) mod ?L + k) mod ?L = (zero s + ?L - n + k) mod ?L"
      by (simp add: mod_add_left_eq)
    also have "zero s + ?L - n + k = zero s + (k - n) + ?L" using that assms(2) by linarith
    finally have "((zero s + ?L - n) mod ?L + k) mod ?L = (zero s + (k - n)) mod ?L" by simp
    with that show ?thesis by (simp add: ring_nth)
  qed
  with r wf show ?thesis by auto
qed

lemma rotate_down_ok:
  assumes "storage_wf w s"
  shows "\<exists>s'. rotate_down s n = Some s' \<and> storage_wf w s' \<and> st_len s' = st_len s \<and>
    visible_lines s' = visible_lines s \<and> (\<forall>k. k + n < st_len s \<longrightarrow> ring s' ! k = ring s ! (k + n))"
proof -
  let ?L = "length (inner s)"
  let ?s = "s\<lparr>zero := (zero s + n) mod ?L\<rparr>"
  have L: "0 < ?L" using assms by (auto simp: storage_wf_def)
  have "rotate_down s n = Some ?s" using L by (simp add: rotate_down_def check_def)
  moreover have "storage_wf w ?s" using assms L by (simp add: storage_wf_def)
  moreover have "ring ?s ! k = ring s ! (k + n)" if "k + n < st_len s" for k
    using that by (simp add: ring_nth mod_add_left_eq) (simp add: ac_simps)
  ultimately show ?thesis by auto
qed

end
