(* ===== verification/LineStore.thy ===== *)
theory LineStore
  imports Storage
begin

text \<open>
  The interface between \<open>Grid\<close> and \<open>Storage\<close>: lines that can be swapped and modified. The
  loops of \<open>grid/mod.rs\<close> over such lines are analysed once, in the locale, and hold for
  \<open>Storage\<close> by the interpretation at the end.
\<close>

lemma upto_at:
  assumes "[a..b] = ys @ x # zs"
  shows "x = a + int (length ys)" "x \<le> b" "a \<le> x"
proof -
  have "x \<in> set [a..b]" by (simp add: assms)
  then show "x \<le> b" "a \<le> x" by simp_all
  have "length ys < length [a..b]" by (simp add: assms)
  then have "[a..b] ! length ys = a + int (length ys)" by (intro nth_upto) simp
  then show "x = a + int (length ys)" by (simp add: assms)
qed

lemma rev_upto_at:
  assumes "rev [a..b] = ys @ x # zs"
  shows "x = b - int (length ys)" "x \<le> b" "a \<le> x"
proof -
  have e: "[a..b] = rev zs @ x # rev ys" using assms by (metis append.assoc append_Cons append_Nil rev.simps(2) rev_append rev_rev_ident)
  from upto_at [OF e] show "x \<le> b" "a \<le> x" by simp_all
  have "length [a..b] = length ys + length zs + 1" by (simp add: e)
  with upto_at(1) [OF e] \<open>x \<le> b\<close> \<open>a \<le> x\<close> show "x = b - int (length ys)" by simp
qed

locale line_store =
  fixes inv :: "'s \<Rightarrow> bool"
    and shape :: "'s \<Rightarrow> 'h"
    and dom :: "'h \<Rightarrow> int \<Rightarrow> bool"
    and at :: "'s \<Rightarrow> int \<Rightarrow> 'r"
    and good :: "'r \<Rightarrow> bool"
    and swap :: "'s \<Rightarrow> int \<Rightarrow> int \<Rightarrow> 's option"
    and modify :: "'s \<Rightarrow> int \<Rightarrow> ('r \<Rightarrow> 'r option) \<Rightarrow> 's option"
  assumes good_at: "inv s \<Longrightarrow> dom (shape s) l \<Longrightarrow> good (at s l)"
    and swap_ok: "inv s \<Longrightarrow> dom (shape s) a \<Longrightarrow> dom (shape s) b \<Longrightarrow>
      wp (swap s a b) (\<lambda>t. inv t \<and> shape t = shape s \<and>
        (\<forall>l. dom (shape s) l \<longrightarrow> at t l = at s (if l = a then b else if l = b then a else l)))"
    and modify_ok: "inv s \<Longrightarrow> dom (shape s) a \<Longrightarrow> f (at s a) = Some r \<Longrightarrow> good r \<Longrightarrow>
      wp (modify s a f) (\<lambda>t. inv t \<and> shape t = shape s \<and>
        (\<forall>l. dom (shape s) l \<longrightarrow> at t l = (if l = a then r else at s l)))"
begin

text \<open>Swapping every line of \<open>[a, b)\<close>, from the top, with the one \<open>n\<close> below it: the lines move up
  by \<open>n\<close>, and the \<open>n\<close> top lines end up, in some order, in the \<open>n\<close> bottom places.\<close>

lemma swap_up:
  assumes "inv s" "0 \<le> n" "\<And>l. a \<le> l \<Longrightarrow> l < b + n \<Longrightarrow> dom (shape s) l" "a \<le> b"
    and step: "\<And>t i. step t i = swap t i (i + n) \<or> step t i = swap t (i + n) i"
  shows "wp (foldM step s [a..b - 1]) (\<lambda>t. inv t \<and> shape t = shape s \<and>
    (\<forall>l. dom (shape s) l \<longrightarrow> a \<le> l \<longrightarrow> l < b \<longrightarrow> at t l = at s (l + n)) \<and>
    (\<forall>l. dom (shape s) l \<longrightarrow> l < a \<or> b + n \<le> l \<longrightarrow> at t l = at s l) \<and>
    (\<forall>P. (\<forall>l. a \<le> l \<longrightarrow> l < a + n \<longrightarrow> P (at s l)) \<longrightarrow> (\<forall>l. b \<le> l \<longrightarrow> l < b + n \<longrightarrow> P (at t l))))"
proof -
  let ?I = "\<lambda>ys t. inv t \<and> shape t = shape s \<and>
    (\<forall>l. dom (shape s) l \<longrightarrow> a \<le> l \<longrightarrow> l < a + int (length ys) \<longrightarrow> at t l = at s (l + n)) \<and>
    (\<forall>l. dom (shape s) l \<longrightarrow> l < a \<or> a + int (length ys) + n \<le> l \<longrightarrow> at t l = at s l) \<and>
    (\<forall>P. (\<forall>l. a \<le> l \<longrightarrow> l < a + n \<longrightarrow> P (at s l)) \<longrightarrow>
         (\<forall>l. a + int (length ys) \<le> l \<longrightarrow> l < a + int (length ys) + n \<longrightarrow> P (at t l)))"
  have "wp (foldM step s [a..b - 1]) (?I [a..b - 1])"
  proof (rule wp_foldM)
    fix ys x zs t
    assume split: "[a..b - 1] = ys @ x # zs" and I: "?I ys t"
    note x = upto_at [OF split]
    have doms: "dom (shape t) x" "dom (shape t) (x + n)" using I x assms(2,3) by auto
    have "wp (step t x) (\<lambda>u. inv u \<and> shape u = shape t \<and>
        (\<forall>l. dom (shape t) l \<longrightarrow> at u l = at t (if l = x then x + n else if l = x + n then x else l)))"
      using step [of t x]
    proof
      assume "step t x = swap t x (x + n)"
      with swap_ok [of t x "x + n"] I doms show ?thesis by simp
    next
      assume e: "step t x = swap t (x + n) x"
      have "wp (swap t (x + n) x) (\<lambda>u. inv u \<and> shape u = shape t \<and>
        (\<forall>l. dom (shape t) l \<longrightarrow> at u l = at t (if l = x + n then x else if l = x then x + n else l)))"
        using swap_ok [of t "x + n" x] I doms by simp
      then show ?thesis unfolding e by (rule wp_mono) (use assms(2) in auto)
    qed
    then show "wp (step t x) (?I (ys @ [x]))"
    proof (rule wp_mono)
      fix u
      assume u: "inv u \<and> shape u = shape t \<and>
        (\<forall>l. dom (shape t) l \<longrightarrow> at u l = at t (if l = x then x + n else if l = x + n then x else l))"
      have len: "a + int (length (ys @ [x])) = x + 1" using x(1) by simp
      have P: "P (at u l)" if "\<forall>l. a \<le> l \<longrightarrow> l < a + n \<longrightarrow> P (at s l)" "x + 1 \<le> l" "l < x + 1 + n" for P l
      proof -
        have prev: "P (at t m)" if "x \<le> m" "m < x + n" for m
          using I [THEN conjunct2, THEN conjunct2, THEN conjunct2, THEN conjunct2, THEN spec, of P,
              THEN mp, OF \<open>\<forall>l. a \<le> l \<longrightarrow> l < a + n \<longrightarrow> P (at s l)\<close>] that x(1) by simp
        have "dom (shape t) l" using that x I assms(3) by auto
        then show ?thesis using u that assms(2) prev by auto
      qed
      have up: "at u l = at s (l + n)" if "dom (shape s) l" "a \<le> l" "l < x + 1" for l
      proof (cases "l = x")
        case True
        with u I that doms x show ?thesis by auto
      next
        case False
        with u I that x assms(2) show ?thesis by auto
      qed
      have out: "at u l = at s l" if "dom (shape s) l" "l < a \<or> x + 1 + n \<le> l" for l
      proof -
        have "l \<noteq> x" "l \<noteq> x + n" using that x assms(2) by auto
        then have "at u l = at t l" using u that(1) I [THEN conjunct2, THEN conjunct1] by simp
        also have "at t l = at s l"
          using I [THEN conjunct2, THEN conjunct2, THEN conjunct2, THEN conjunct1] that x by auto
        finally show ?thesis .
      qed
      show "?I (ys @ [x]) u"
        unfolding len
      proof (intro conjI allI impI)
        show "inv u" "shape u = shape s"
          using u [THEN conjunct1] u [THEN conjunct2, THEN conjunct1] I [THEN conjunct2, THEN conjunct1] by simp_all
      next
        fix Q l
        assume "\<forall>l. a \<le> l \<longrightarrow> l < a + n \<longrightarrow> Q (at s l)" "x + 1 \<le> l" "l < x + 1 + n"
        then show "Q (at u l)" by (rule P)
      qed (fact up, fact out)
    qed
  qed (use assms(1) in auto)
  moreover have "a + int (length [a..b - 1]) = b" using assms(4) by simp
  ultimately show ?thesis by (simp only:)
qed

text \<open>Swapping every line of \<open>[a, b)\<close>, from the bottom, with the one \<open>n\<close> above it: the lines move
  down by \<open>n\<close>, and the \<open>n\<close> bottom lines end up in the \<open>n\<close> top places.\<close>

lemma swap_down:
  assumes "inv s" "0 \<le> n" "\<And>l. a - n \<le> l \<Longrightarrow> l < b \<Longrightarrow> dom (shape s) l" "a \<le> b"
  shows "wp (foldM (\<lambda>s i. swap s i (i - n)) s (rev [a..b - 1])) (\<lambda>t. inv t \<and> shape t = shape s \<and>
    (\<forall>l. dom (shape s) l \<longrightarrow> a \<le> l \<longrightarrow> l < b \<longrightarrow> at t l = at s (l - n)) \<and>
    (\<forall>l. dom (shape s) l \<longrightarrow> l < a - n \<or> b \<le> l \<longrightarrow> at t l = at s l) \<and>
    (\<forall>P. (\<forall>l. b - n \<le> l \<longrightarrow> l < b \<longrightarrow> P (at s l)) \<longrightarrow> (\<forall>l. a - n \<le> l \<longrightarrow> l < a \<longrightarrow> P (at t l))))"
proof -
  let ?I = "\<lambda>ys t. inv t \<and> shape t = shape s \<and>
    (\<forall>l. dom (shape s) l \<longrightarrow> b - int (length ys) \<le> l \<longrightarrow> l < b \<longrightarrow> at t l = at s (l - n)) \<and>
    (\<forall>l. dom (shape s) l \<longrightarrow> l < b - int (length ys) - n \<or> b \<le> l \<longrightarrow> at t l = at s l) \<and>
    (\<forall>P. (\<forall>l. b - n \<le> l \<longrightarrow> l < b \<longrightarrow> P (at s l)) \<longrightarrow>
         (\<forall>l. b - int (length ys) - n \<le> l \<longrightarrow> l < b - int (length ys) \<longrightarrow> P (at t l)))"
  have "wp (foldM (\<lambda>s i. swap s i (i - n)) s (rev [a..b - 1])) (?I (rev [a..b - 1]))"
  proof (rule wp_foldM)
    fix ys x zs t
    assume split: "rev [a..b - 1] = ys @ x # zs" and I: "?I ys t"
    note x = rev_upto_at [OF split]
    have doms: "dom (shape t) x" "dom (shape t) (x - n)" using I x assms(2,3) by auto
    have "wp (swap t x (x - n)) (\<lambda>u. inv u \<and> shape u = shape t \<and>
        (\<forall>l. dom (shape t) l \<longrightarrow> at u l = at t (if l = x then x - n else if l = x - n then x else l)))"
      using swap_ok [of t x "x - n"] I doms by simp
    then show "wp (swap t x (x - n)) (?I (ys @ [x]))"
    proof (rule wp_mono)
      fix u
      assume u: "inv u \<and> shape u = shape t \<and>
        (\<forall>l. dom (shape t) l \<longrightarrow> at u l = at t (if l = x then x - n else if l = x - n then x else l))"
      have len: "b - int (length (ys @ [x])) = x" using x(1) by simp
      have P: "P (at u l)" if "\<forall>l. b - n \<le> l \<longrightarrow> l < b \<longrightarrow> P (at s l)" "x - n \<le> l" "l < x" for P l
      proof -
        have prev: "P (at t m)" if "x + 1 - n \<le> m" "m < x + 1" for m
          using I [THEN conjunct2, THEN conjunct2, THEN conjunct2, THEN conjunct2, THEN spec, of P,
              THEN mp, OF \<open>\<forall>l. b - n \<le> l \<longrightarrow> l < b \<longrightarrow> P (at s l)\<close>] that x(1) by simp
        have "dom (shape t) l" using that x I assms(3) by auto
        then show ?thesis using u that assms(2) prev by auto
      qed
      have dn: "at u l = at s (l - n)" if "dom (shape s) l" "x \<le> l" "l < b" for l
      proof (cases "l = x")
        case True
        with u I that doms x show ?thesis by auto
      next
        case False
        with u I that x assms(2) show ?thesis by auto
      qed
      have out: "at u l = at s l" if "dom (shape s) l" "l < x - n \<or> b \<le> l" for l
      proof -
        have "l \<noteq> x" "l \<noteq> x - n" using that x assms(2) by auto
        then have "at u l = at t l" using u that(1) I [THEN conjunct2, THEN conjunct1] by simp
        also have "at t l = at s l"
          using I [THEN conjunct2, THEN conjunct2, THEN conjunct2, THEN conjunct1] that x by auto
        finally show ?thesis .
      qed
      show "?I (ys @ [x]) u"
        unfolding len
      proof (intro conjI allI impI)
        show "inv u" "shape u = shape s"
          using u [THEN conjunct1] u [THEN conjunct2, THEN conjunct1] I [THEN conjunct2, THEN conjunct1] by simp_all
      next
        fix Q l
        assume "\<forall>l. b - n \<le> l \<longrightarrow> l < b \<longrightarrow> Q (at s l)" "x - n \<le> l" "l < x"
        then show "Q (at u l)" by (rule P)
      qed (fact dn, fact out)
    qed
  qed (use assms(1) in auto)
  moreover have "b - int (length (rev [a..b - 1])) = a" using assms(4) by simp
  ultimately show ?thesis by (simp only:)
qed

text \<open>Modifying each of a list of lines.\<close>

lemma modify_lines:
  assumes "inv s" "distinct ls" "\<And>l. l \<in> set ls \<Longrightarrow> dom (shape s) l"
    and f: "\<And>l r. l \<in> set ls \<Longrightarrow> good r \<Longrightarrow> f r = Some (g r) \<and> good (g r)"
  shows "wp (foldM (\<lambda>s i. modify s i f) s ls) (\<lambda>t. inv t \<and> shape t = shape s \<and>
    (\<forall>l. dom (shape s) l \<longrightarrow> at t l = (if l \<in> set ls then g (at s l) else at s l)))"
  using assms
proof (induction ls arbitrary: s)
  case Nil
  then show ?case by (simp add: wp_Some)
next
  case (Cons l ls)
  have l: "dom (shape s) l" using Cons.prems(3) by simp
  have "f (at s l) = Some (g (at s l))" "good (g (at s l))"
    using Cons.prems(4) [of l "at s l"] good_at [OF Cons.prems(1) l] by auto
  from modify_ok [where f = f, OF Cons.prems(1) l this]
  obtain t where t: "modify s l f = Some t" "inv t" "shape t = shape s"
    "\<And>m. dom (shape s) m \<Longrightarrow> at t m = (if m = l then g (at s l) else at s m)"
    by (auto elim!: wpE)
  have "wp (foldM (\<lambda>s i. modify s i f) t ls) (\<lambda>u. inv u \<and> shape u = shape t \<and>
    (\<forall>l. dom (shape t) l \<longrightarrow> at u l = (if l \<in> set ls then g (at t l) else at t l)))"
    using Cons.prems t(2,3) by (intro Cons.IH) auto
  then show ?case
    unfolding foldM.simps t(1) option.case
    by (rule wp_mono) (use t Cons.prems(2) in auto)
qed

end

subsection \<open>Storage is a line store\<close>

definition storage_shape :: "'a storage \<Rightarrow> nat \<times> nat" where
  "storage_shape s = (visible_lines s, st_len s)"

definition shape_line :: "nat \<times> nat \<Rightarrow> int \<Rightarrow> bool" where
  "shape_line = (\<lambda>(v, n) l. int v - int n \<le> l \<and> l < int v)"

lemma shape_line_in_store: "shape_line (storage_shape s) l = in_store s l"
  by (simp add: shape_line_def storage_shape_def in_store_def)

lemma same_shape:
  "visible_lines t = visible_lines s \<Longrightarrow> st_len t = st_len s \<Longrightarrow>
   storage_shape t = storage_shape s \<and> pos_of t = pos_of s \<and> in_store t = in_store s"
  by (auto simp: storage_shape_def pos_of_def in_store_def fun_eq_iff)

interpretation store: line_store "storage_wf w" storage_shape shape_line row_at
  "\<lambda>r. length (cells r) = w" storage_swap storage_modify for w
proof
  fix s :: "'a storage" and l a b :: int and f and r :: "'a grid_row"
  assume wf: "storage_wf w s"
  show "length (cells (row_at s l)) = w" if "shape_line (storage_shape s) l"
    using row_at_width [OF wf] that by (simp add: shape_line_in_store)
  show "wp (storage_swap s a b) (\<lambda>t. storage_wf w t \<and> storage_shape t = storage_shape s \<and>
        (\<forall>l. shape_line (storage_shape s) l \<longrightarrow>
          row_at t l = row_at s (if l = a then b else if l = b then a else l)))"
    if "shape_line (storage_shape s) a" "shape_line (storage_shape s) b"
  proof -
    have ab: "in_store s a" "in_store s b" using that by (simp_all add: shape_line_in_store)
    from storage_swap_ok [OF wf ab] obtain t where t: "storage_swap s a b = Some t" "storage_wf w t"
      "ring t = (ring s)[pos_of s a := row_at s b, pos_of s b := row_at s a]"
      "visible_lines t = visible_lines s" "st_len t = st_len s" by blast
    note sh = same_shape [OF t(4,5)]
    have "row_at t l = row_at s (if l = a then b else if l = b then a else l)" if "in_store s l" for l
      using pos_of_inject [OF ab(1) that] pos_of_inject [OF ab(2) that] pos_of_less [OF ab(1)]
        pos_of_less [OF ab(2)] sh t(3)
      by (auto simp: row_at_def nth_list_update)
    with t sh show ?thesis by (auto simp: wp_Some shape_line_in_store)
  qed
  show "wp (storage_modify s a f) (\<lambda>t. storage_wf w t \<and> storage_shape t = storage_shape s \<and>
        (\<forall>l. shape_line (storage_shape s) l \<longrightarrow> row_at t l = (if l = a then r else row_at s l)))"
    if "shape_line (storage_shape s) a" "f (row_at s a) = Some r" "length (cells r) = w"
  proof -
    have a: "in_store s a" using that(1) by (simp add: shape_line_in_store)
    from storage_modify_ok [where f = f, OF wf a that(2,3)] obtain t where t: "storage_modify s a f = Some t"
      "storage_wf w t" "ring t = (ring s)[pos_of s a := r]"
      "visible_lines t = visible_lines s" "st_len t = st_len s" by blast
    note sh = same_shape [OF t(4,5)]
    have "row_at t l = (if l = a then r else row_at s l)" if "in_store s l" for l
      using pos_of_inject [OF a that] pos_of_less [OF a] sh t(3) by (auto simp: row_at_def)
    with t sh show ?thesis by (auto simp: wp_Some shape_line_in_store)
  qed
qed

lemma storage_swap_up:
  assumes "storage_wf w s" "0 \<le> n" "\<And>l. a \<le> l \<Longrightarrow> l < b + n \<Longrightarrow> in_store s l" "a \<le> b"
    and "\<And>t i. step t i = storage_swap t i (i + n) \<or> step t i = storage_swap t (i + n) i"
  shows "wp (foldM step s [a..b - 1]) (\<lambda>u. storage_wf w u \<and> storage_shape u = storage_shape s \<and>
    (\<forall>l. a \<le> l \<longrightarrow> l < b \<longrightarrow> row_at u l = row_at s (l + n)) \<and>
    (\<forall>l. in_store s l \<longrightarrow> l < a \<or> b + n \<le> l \<longrightarrow> row_at u l = row_at s l) \<and>
    (\<forall>P. (\<forall>l. a \<le> l \<longrightarrow> l < a + n \<longrightarrow> P (row_at s l)) \<longrightarrow> (\<forall>l. b \<le> l \<longrightarrow> l < b + n \<longrightarrow> P (row_at u l))))"
proof (rule wp_mono [OF store.swap_up [OF assms(1,2) _ assms(4,5)]])
  show "a \<le> l \<Longrightarrow> l < b + n \<Longrightarrow> shape_line (storage_shape s) l" for l
    using assms(3) by (simp add: shape_line_in_store)
  have "in_store s l" if "a \<le> l" "l < b" for l using assms(2,3) that by simp
  then show "storage_wf w u \<and> storage_shape u = storage_shape s \<and>
    (\<forall>l. a \<le> l \<longrightarrow> l < b \<longrightarrow> row_at u l = row_at s (l + n)) \<and>
    (\<forall>l. in_store s l \<longrightarrow> l < a \<or> b + n \<le> l \<longrightarrow> row_at u l = row_at s l) \<and>
    (\<forall>P. (\<forall>l. a \<le> l \<longrightarrow> l < a + n \<longrightarrow> P (row_at s l)) \<longrightarrow> (\<forall>l. b \<le> l \<longrightarrow> l < b + n \<longrightarrow> P (row_at u l)))"
    if "storage_wf w u \<and> storage_shape u = storage_shape s \<and>
      (\<forall>l. shape_line (storage_shape s) l \<longrightarrow> a \<le> l \<longrightarrow> l < b \<longrightarrow> row_at u l = row_at s (l + n)) \<and>
      (\<forall>l. shape_line (storage_shape s) l \<longrightarrow> l < a \<or> b + n \<le> l \<longrightarrow> row_at u l = row_at s l) \<and>
      (\<forall>P. (\<forall>l. a \<le> l \<longrightarrow> l < a + n \<longrightarrow> P (row_at s l)) \<longrightarrow> (\<forall>l. b \<le> l \<longrightarrow> l < b + n \<longrightarrow> P (row_at u l)))" for u
    using that unfolding shape_line_in_store by (elim conjE, intro conjI) auto
qed

lemma storage_swap_up_lines:
  assumes "storage_wf w s" "0 \<le> n" "\<And>l. a \<le> l \<Longrightarrow> l < b + n \<Longrightarrow> in_store s l" "a \<le> b"
    and "\<And>t i. step t i = storage_swap t i (i + n) \<or> step t i = storage_swap t (i + n) i"
  shows "wp (foldM step s [a..b - 1]) (\<lambda>u. storage_wf w u \<and> storage_shape u = storage_shape s \<and>
    (\<forall>l. a \<le> l \<longrightarrow> l < b \<longrightarrow> row_at u l = row_at s (l + n)) \<and>
    (\<forall>l. in_store s l \<longrightarrow> l < a \<or> b + n \<le> l \<longrightarrow> row_at u l = row_at s l))"
  by (rule wp_mono [OF storage_swap_up [OF assms(1,2) _ assms(4,5)]], rule assms(3), assumption+)
    (elim conjE, intro conjI, assumption+)

lemma storage_swap_down:
  assumes "storage_wf w s" "0 \<le> n" "\<And>l. a - n \<le> l \<Longrightarrow> l < b \<Longrightarrow> in_store s l" "a \<le> b"
  shows "wp (foldM (\<lambda>s i. storage_swap s i (i - n)) s (rev [a..b - 1])) (\<lambda>u. storage_wf w u \<and>
    storage_shape u = storage_shape s \<and>
    (\<forall>l. a \<le> l \<longrightarrow> l < b \<longrightarrow> row_at u l = row_at s (l - n)) \<and>
    (\<forall>l. in_store s l \<longrightarrow> l < a - n \<or> b \<le> l \<longrightarrow> row_at u l = row_at s l))"
proof (rule wp_mono [OF store.swap_down [OF assms(1,2) _ assms(4)]])
  show "a - n \<le> l \<Longrightarrow> l < b \<Longrightarrow> shape_line (storage_shape s) l" for l
    using assms(3) by (simp add: shape_line_in_store)
  have "in_store s l" if "a \<le> l" "l < b" for l using assms(2,3) that by simp
  then show "storage_wf w u \<and> storage_shape u = storage_shape s \<and>
    (\<forall>l. a \<le> l \<longrightarrow> l < b \<longrightarrow> row_at u l = row_at s (l - n)) \<and>
    (\<forall>l. in_store s l \<longrightarrow> l < a - n \<or> b \<le> l \<longrightarrow> row_at u l = row_at s l)"
    if "storage_wf w u \<and> storage_shape u = storage_shape s \<and>
      (\<forall>l. shape_line (storage_shape s) l \<longrightarrow> a \<le> l \<longrightarrow> l < b \<longrightarrow> row_at u l = row_at s (l - n)) \<and>
      (\<forall>l. shape_line (storage_shape s) l \<longrightarrow> l < a - n \<or> b \<le> l \<longrightarrow> row_at u l = row_at s l) \<and>
      (\<forall>P. (\<forall>l. b - n \<le> l \<longrightarrow> l < b \<longrightarrow> P (row_at s l)) \<longrightarrow> (\<forall>l. a - n \<le> l \<longrightarrow> l < a \<longrightarrow> P (row_at u l)))" for u
    using that unfolding shape_line_in_store by (elim conjE, intro conjI) auto
qed

end
