(* ===== verification/Pos.thy ===== *)
theory Pos
  imports Square "HOL-Library.Signed_Division"
begin

text \<open>
  \<open>crosswords/pos.rs\<close>: positions, the cursor, the graphic character sets, and the arithmetic
  on positions. A \<open>Line\<close> is an \<open>int\<close> (0 is the top of the screen, history is negative), a
  \<open>Column\<close> a \<open>nat\<close>; the trait \<open>Dimensions\<close> is the record \<open>dims\<close> of the numbers it gives.
\<close>

subsection \<open>Positions\<close>

datatype pos = Pos (row: int) (col: nat)

text \<open>The derived order: by row, then by column.\<close>

definition pos_le :: "pos \<Rightarrow> pos \<Rightarrow> bool" where
  "pos_le p q \<longleftrightarrow> row p < row q \<or> row p = row q \<and> col p \<le> col q"

definition pos_lt :: "pos \<Rightarrow> pos \<Rightarrow> bool" where
  "pos_lt p q \<longleftrightarrow> row p < row q \<or> row p = row q \<and> col p < col q"

instantiation pos :: linorder
begin

definition less_eq_pos :: "pos \<Rightarrow> pos \<Rightarrow> bool" where
  "less_eq_pos = pos_le"

definition less_pos :: "pos \<Rightarrow> pos \<Rightarrow> bool" where
  "less_pos = pos_lt"

instance
  by standard (auto simp: less_eq_pos_def less_pos_def pos_le_def pos_lt_def intro: pos.expand)

end

datatype direction = DirLeft | DirRight

fun opposite :: "direction \<Rightarrow> direction" where
  "opposite DirRight = DirLeft"
| "opposite DirLeft = DirRight"

datatype boundary = BCursor | BGrid | BNone

subsection \<open>Character sets and the cursor\<close>

datatype standard_charset = Ascii | SpecialCharacterAndLineDrawing

datatype charset_index = G0 | G1 | G2 | G3

fun charset_index_nat :: "charset_index \<Rightarrow> nat" where
  "charset_index_nat G0 = 0"
| "charset_index_nat G1 = 1"
| "charset_index_nat G2 = 2"
| "charset_index_nat G3 = 3"

type_synonym charsets = "standard_charset list"

definition charsets_default :: charsets where "charsets_default = replicate 4 Ascii"

definition charsets_get :: "charsets \<Rightarrow> charset_index \<Rightarrow> standard_charset option" where
  "charsets_get cs i = idx cs (charset_index_nat i)"

definition charsets_set :: "charsets \<Rightarrow> charset_index \<Rightarrow> standard_charset \<Rightarrow> charsets option" where
  "charsets_set cs i v = upd cs (charset_index_nat i) v"

definition line_drawing :: "(rchar \<times> rchar) list" where
  "line_drawing =
     [(0x5F, 0x20), (0x60, 0x25C6), (0x61, 0x2592), (0x62, 0x2409), (0x63, 0x240C), (0x64, 0x240D),
      (0x65, 0x240A), (0x66, 0xB0), (0x67, 0xB1), (0x68, 0x2424), (0x69, 0x240B), (0x6A, 0x2518),
      (0x6B, 0x2510), (0x6C, 0x250C), (0x6D, 0x2514), (0x6E, 0x253C), (0x6F, 0x23BA), (0x70, 0x23BB),
      (0x71, 0x2500), (0x72, 0x23BC), (0x73, 0x23BD), (0x74, 0x251C), (0x75, 0x2524), (0x76, 0x2534),
      (0x77, 0x252C), (0x78, 0x2502), (0x79, 0x2264), (0x7A, 0x2265), (0x7B, 0x3C0), (0x7C, 0x2260),
      (0x7D, 0xA3), (0x7E, 0xB7)]"

definition charset_map :: "standard_charset \<Rightarrow> rchar \<Rightarrow> rchar" where
  "charset_map s c =
     (case s of
        Ascii \<Rightarrow> c
      | SpecialCharacterAndLineDrawing \<Rightarrow> (case map_of line_drawing c of None \<Rightarrow> c | Some d \<Rightarrow> d))"

record 'a cursor =
  cpos :: pos
  template :: 'a
  charsets :: charsets
  should_wrap :: bool

definition cursor_default :: "'a \<Rightarrow> 'a cursor" where
  \<comment> \<open>the argument is the cell type's default\<close>
  "cursor_default d = \<lparr>cpos = Pos 0 0, template = d, charsets = charsets_default, should_wrap = False\<rparr>"

lemma charset_map_scalar: "is_scalar c \<Longrightarrow> is_scalar (charset_map s c)"
proof -
  assume c: "is_scalar c"
  have "\<forall>d \<in> snd ` set line_drawing. is_scalar d" by (simp add: line_drawing_def is_scalar_def)
  then have "map_of line_drawing c = Some d \<Longrightarrow> is_scalar d" for d by (force dest: map_of_SomeD)
  with c show "is_scalar (charset_map s c)"
    by (auto simp: charset_map_def split: standard_charset.split option.split)
qed

subsection \<open>Dimensions\<close>

record dims =
  total_lines :: nat
  screen_lines :: nat
  columns :: nat

definition last_column :: "dims \<Rightarrow> nat option" where
  "last_column d = usub (columns d) 1"

definition history_size :: "dims \<Rightarrow> nat" where
  "history_size d = total_lines d - screen_lines d"

definition topmost_line :: "dims \<Rightarrow> int" where
  "topmost_line d = - int (history_size d)"

definition bottommost_line :: "dims \<Rightarrow> int" where
  "bottommost_line d = int (screen_lines d) - 1"

definition line_grid_clamp :: "int \<Rightarrow> dims \<Rightarrow> boundary \<Rightarrow> int option" where
  \<comment> \<open>\<open>%\<close> truncates towards zero and panics on a zero divisor\<close>
  "line_grid_clamp l d b =
     (case b of
        BCursor \<Rightarrow> Some (max 0 (min (bottommost_line d) l))
      | BGrid \<Rightarrow> Some (max (topmost_line d) (min (bottommost_line d) l))
      | BNone \<Rightarrow>
          if total_lines d = 0 then None
          else if l \<ge> int (screen_lines d)
          then Some (topmost_line d + (l - int (screen_lines d)) smod int (total_lines d))
          else Some (bottommost_line d + (l - int (screen_lines d) + 1) smod int (total_lines d)))"

definition pos_grid_clamp :: "pos \<Rightarrow> dims \<Rightarrow> boundary \<Rightarrow> pos option" where
  "pos_grid_clamp p d b = do {
     lc \<leftarrow> last_column d;
     let p = Pos (row p) (min (col p) lc);
     (if b = BCursor \<and> row p < 0 then Some (Pos 0 0)
      else if b = BGrid \<and> row p < topmost_line d then Some (Pos (topmost_line d) 0)
      else if (b = BCursor \<or> b = BGrid) \<and> row p > bottommost_line d
      then Some (Pos (bottommost_line d) lc)
      else if b = BNone then do {
        l \<leftarrow> line_grid_clamp (row p) d b;
        Some (Pos l (col p))
      }
      else Some p)
   }"

definition pos_sub :: "pos \<Rightarrow> dims \<Rightarrow> boundary \<Rightarrow> nat \<Rightarrow> pos option" where
  "pos_sub p d b rhs = do {
     let cols = columns d;
     n \<leftarrow> usub (rhs + cols) 1;
     check (cols \<noteq> 0);
     let line_changes = (n - col p) div cols;
     c \<leftarrow> usub (cols + col p) (rhs mod cols);
     pos_grid_clamp (Pos (row p - int line_changes) (c mod cols)) d b
   }"

definition pos_add :: "pos \<Rightarrow> dims \<Rightarrow> boundary \<Rightarrow> nat \<Rightarrow> pos option" where
  "pos_add p d b rhs = do {
     let cols = columns d;
     check (cols \<noteq> 0);
     pos_grid_clamp (Pos (row p + int ((rhs + col p) div cols)) ((col p + rhs) mod cols)) d b
   }"

subsection \<open>Clamping\<close>

definition dims_ok :: "dims \<Rightarrow> bool" where
  "dims_ok d \<longleftrightarrow> 0 < screen_lines d \<and> screen_lines d \<le> total_lines d \<and> 0 < columns d"

definition in_grid :: "dims \<Rightarrow> pos \<Rightarrow> bool" where
  "in_grid d p \<longleftrightarrow> topmost_line d \<le> row p \<and> row p \<le> bottommost_line d \<and> col p < columns d"

definition on_screen :: "dims \<Rightarrow> pos \<Rightarrow> bool" where
  "on_screen d p \<longleftrightarrow> 0 \<le> row p \<and> row p \<le> bottommost_line d \<and> col p < columns d"

lemma last_column_Some: "dims_ok d \<Longrightarrow> last_column d = Some (columns d - 1)"
  by (simp add: last_column_def usub_def dims_ok_def)

lemma smod_bounds:
  fixes a n :: int
  assumes "0 < n"
  shows "0 \<le> a \<Longrightarrow> 0 \<le> a smod n \<and> a smod n < n" "a \<le> 0 \<Longrightarrow> a smod n \<le> 0 \<and> - n < a smod n"
  using assms pos_mod_bound [OF assms, of "\<bar>a\<bar>"] pos_mod_sign [OF assms, of "\<bar>a\<bar>"]
  by (auto simp: signed_modulo_int_def sgn_if)

lemma smod_small:
  fixes a n :: int
  assumes "\<bar>a\<bar> < n"
  shows "a smod n = a"
  using assms by (auto simp: signed_modulo_int_def sgn_if)

lemma line_grid_clamp_ok:
  assumes "dims_ok d"
  shows "wp (line_grid_clamp l d b) (\<lambda>m. topmost_line d \<le> m \<and> m \<le> bottommost_line d \<and>
    (b = BCursor \<longrightarrow> 0 \<le> m) \<and>
    ((if b = BCursor then 0 else topmost_line d) \<le> l \<longrightarrow> l \<le> bottommost_line d \<longrightarrow> m = l))"
proof (cases b)
  case BNone
  let ?t = "int (total_lines d)" and ?s = "int (screen_lines d)"
  have d: "0 < ?t" "?s \<le> ?t" "topmost_line d = ?s - ?t" "bottommost_line d = ?s - 1"
    using assms by (auto simp: dims_ok_def topmost_line_def bottommost_line_def history_size_def)
  have "0 \<le> (l - ?s) smod ?t \<and> (l - ?s) smod ?t < ?t" if "l \<ge> ?s"
    using smod_bounds [OF d(1), of "l - ?s"] that by simp
  moreover have "(l - ?s + 1) smod ?t \<le> 0 \<and> - ?t < (l - ?s + 1) smod ?t" if "\<not> l \<ge> ?s"
    using smod_bounds [OF d(1), of "l - ?s + 1"] that by simp
  moreover have "(l - ?s + 1) smod ?t = l - ?s + 1" if "?s - ?t \<le> l" "l \<le> ?s - 1"
    using that by (intro smod_small) auto
  ultimately show ?thesis
    using BNone d by (auto simp: line_grid_clamp_def wp_simps)
qed (use assms in \<open>auto simp: line_grid_clamp_def wp_simps topmost_line_def bottommost_line_def dims_ok_def\<close>)

lemma pos_grid_clamp_ok:
  assumes "dims_ok d"
  shows "wp (pos_grid_clamp p d b) (\<lambda>q. in_grid d q \<and> (b = BCursor \<longrightarrow> on_screen d q) \<and>
    (in_grid d p \<and> (b = BCursor \<longrightarrow> on_screen d p) \<longrightarrow> q = p))"
proof -
  have t: "topmost_line d \<le> 0" "0 \<le> bottommost_line d"
    using assms by (simp_all add: topmost_line_def bottommost_line_def dims_ok_def)
  have c: "min (col p) (columns d - 1) < columns d" using assms by (auto simp: dims_ok_def)
  show ?thesis
  proof (cases "b = BNone")
    case True
    with line_grid_clamp_ok [OF assms, of "row p" b] c show ?thesis
      by (auto simp: pos_grid_clamp_def last_column_Some [OF assms] wp_simps Let_def in_grid_def
          elim!: wp_mono intro: pos.expand)
  next
    case False
    then have "b = BCursor \<or> b = BGrid" by (cases b) auto
    with assms t c show ?thesis
      by (auto simp: pos_grid_clamp_def last_column_Some wp_simps Let_def in_grid_def on_screen_def
          dims_ok_def intro: pos.expand)
  qed
qed

subsection \<open>Linear offsets\<close>

text \<open>The cells in reading order: a position inside the columns is its linear offset.\<close>

definition offset :: "dims \<Rightarrow> pos \<Rightarrow> int" where
  "offset d p = row p * int (columns d) + int (col p)"

lemma offset_inject:
  "col p < columns d \<Longrightarrow> col q < columns d \<Longrightarrow> offset d p = offset d q \<Longrightarrow> p = q"
proof -
  assume c: "col p < columns d" "col q < columns d" and o: "offset d p = offset d q"
  have "offset d r div int (columns d) = row r \<and> offset d r mod int (columns d) = int (col r)"
    if "col r < columns d" for r
    using that by (simp add: offset_def)
  with c o show "p = q" by (metis of_nat_eq_iff pos.expand)
qed

definition pos_add_raw :: "pos \<Rightarrow> dims \<Rightarrow> nat \<Rightarrow> pos" where
  "pos_add_raw p d n = Pos (row p + int ((n + col p) div columns d)) ((col p + n) mod columns d)"

definition pos_sub_raw :: "pos \<Rightarrow> dims \<Rightarrow> nat \<Rightarrow> pos" where
  "pos_sub_raw p d n =
     Pos (row p - int ((n + columns d - 1 - col p) div columns d))
       ((columns d + col p - n mod columns d) mod columns d)"

lemma pos_add_raw: "0 < columns d \<Longrightarrow> pos_add p d b n = pos_grid_clamp (pos_add_raw p d n) d b"
  by (simp add: pos_add_def pos_add_raw_def check_def Let_def)

lemma pos_sub_raw: "0 < columns d \<Longrightarrow> pos_sub p d b n = pos_grid_clamp (pos_sub_raw p d n) d b"
  using less_imp_le [OF mod_less_divisor [of "columns d" n], THEN trans_le_add1, of "col p"]
  by (simp add: pos_sub_def pos_sub_raw_def check_def Let_def usub_def)

lemma offset_add:
  assumes "0 < columns d"
  shows "offset d (pos_add_raw p d n) = offset d p + int n" "col (pos_add_raw p d n) < columns d"
proof -
  have "(n + col p) div columns d * columns d + (n + col p) mod columns d = n + col p"
    by (rule div_mult_mod_eq)
  then have "int ((n + col p) div columns d) * int (columns d) + int ((n + col p) mod columns d) = int n + int (col p)"
    by (metis of_nat_add of_nat_mult)
  then show "offset d (pos_add_raw p d n) = offset d p + int n"
    by (simp add: offset_def pos_add_raw_def algebra_simps)
  show "col (pos_add_raw p d n) < columns d" using assms by (simp add: pos_add_raw_def)
qed

lemma offset_sub:
  assumes "col p < columns d"
  shows "offset d (pos_sub_raw p d n) = offset d p - int n" "col (pos_sub_raw p d n) < columns d"
proof -
  define C q r k where defs: "C = columns d" "q = n div C" "r = n mod C" "k = col p"
  have n: "n = q * C + r" "r < C" "k < C" using assms by (simp_all add: defs)
  have r: "n mod C = r" by (simp add: defs)
  have lines: "n + C - 1 - k = q * C + (r + (C - 1 - k))" using n by simp
  have raw: "pos_sub_raw p d n =
      Pos (row p - int ((q * C + (r + (C - 1 - k))) div C)) ((C + k - r) mod C)"
    unfolding pos_sub_raw_def using lines r defs(1,4) by simp
  have "(q * C + m) div C = q + m div C" for m using n by simp
  note raw = raw [unfolded this]
  have "offset d (pos_sub_raw p d n) = offset d p - int n \<and> col (pos_sub_raw p d n) < columns d"
  proof (cases "r \<le> k")
    case True
    then have "(r + (C - 1 - k)) div C = 0" "C + k - r = C + (k - r)" using n(2,3)
      by (intro div_less, linarith) (use True in linarith)
    moreover have "(C + (k - r)) mod C = k - r" using n(3) by simp
    ultimately have "(r + (C - 1 - k)) div C = 0" "(C + k - r) mod C = k - r" by simp_all
    with raw True n show ?thesis
      by (simp add: offset_def flip: defs) (simp add: algebra_simps of_nat_diff)
  next
    case False
    then have m: "r + (C - 1 - k) = C + (r - 1 - k)" "r - 1 - k < C" "C + k - r < C" using n(2,3) by linarith+
    have "(C + j) div C = 1" if "j < C" for j
      by (subst div_add_self1) (use n(2) that in auto)
    from this [OF m(2)] m(3) have "(r + (C - 1 - k)) div C = 1" "(C + k - r) mod C = C + k - r"
      by (simp_all only: m(1) mod_less)
    with raw False n show ?thesis
      by (simp add: offset_def flip: defs) (simp add: algebra_simps of_nat_diff)
  qed
  then show "offset d (pos_sub_raw p d n) = offset d p - int n" "col (pos_sub_raw p d n) < columns d" by simp_all
qed

subsection \<open>Properties\<close>

text \<open>Moving a position is moving its linear offset, clamped at the boundary: \<open>add\<close> and \<open>sub\<close>
  never panic on a grid with at least one column, the result lies inside the grid (on the
  screen, for the cursor's boundary), and where nothing is clamped the offset in reading order
  changes by exactly the number of cells, so that \<open>sub\<close> undoes \<open>add\<close>.\<close>

theorem pos_arithmetic:
  assumes "dims_ok d" "in_grid d p"
  shows "\<exists>q r. pos_add p d BGrid n = Some q \<and> in_grid d q \<and>
      (in_grid d (pos_add_raw p d n) \<longrightarrow> offset d q = offset d p + int n \<and> pos_sub q d BGrid n = Some p) \<and>
    pos_sub p d BGrid n = Some r \<and> in_grid d r \<and>
      (in_grid d (pos_sub_raw p d n) \<longrightarrow> offset d r = offset d p - int n \<and> pos_add r d BGrid n = Some p)"
proof -
  have c: "0 < columns d" "col p < columns d" using assms by (auto simp: dims_ok_def in_grid_def)
  note clamp = pos_grid_clamp_ok [OF assms(1), where b = BGrid]
  obtain q where q: "pos_grid_clamp (pos_add_raw p d n) d BGrid = Some q" "in_grid d q"
    "in_grid d (pos_add_raw p d n) \<longrightarrow> q = pos_add_raw p d n"
    using clamp [of "pos_add_raw p d n"] by (auto elim!: wpE)
  obtain r where r: "pos_grid_clamp (pos_sub_raw p d n) d BGrid = Some r" "in_grid d r"
    "in_grid d (pos_sub_raw p d n) \<longrightarrow> r = pos_sub_raw p d n"
    using clamp [of "pos_sub_raw p d n"] by (auto elim!: wpE)
  have id: "pos_grid_clamp p d BGrid = Some p"
    using clamp [of p] assms(2) by (auto elim!: wpE)
  have sub_add: "pos_sub_raw (pos_add_raw p d n) d n = p"
    using offset_add [OF c(1), of p n] offset_sub [of "pos_add_raw p d n" d n] c(2)
    by (intro offset_inject [of _ d]) simp_all
  have add_sub: "pos_add_raw (pos_sub_raw p d n) d n = p"
    using offset_sub [OF c(2), of n] offset_add [OF c(1), of "pos_sub_raw p d n" n] c(2)
    by (intro offset_inject [of _ d]) simp_all
  show ?thesis
    using q r id sub_add add_sub offset_add [OF c(1), of p n] offset_sub [OF c(2), of n] c(1)
    by (auto simp: pos_add_raw pos_sub_raw)
qed

theorem pos_arithmetic_witness:
  "\<exists>q. pos_add (Pos 0 78) \<lparr>total_lines = 30, screen_lines = 24, columns = 80\<rparr> BGrid 5 = Some q \<and>
     offset \<lparr>total_lines = 30, screen_lines = 24, columns = 80\<rparr> q = 83"
  using pos_arithmetic [of "\<lparr>total_lines = 30, screen_lines = 24, columns = 80\<rparr>" "Pos 0 78" 5]
  by (auto simp: dims_ok_def in_grid_def topmost_line_def bottommost_line_def history_size_def
      pos_add_raw_def offset_def)

end
