(* ===== verification/Style.thy ===== *)
theory Style
  imports Square
begin

text \<open>
  \<open>config/colors/mod.rs\<close> (the colour types) and \<open>crosswords/style.rs\<close>: the colours and
  attributes of a cell and the table that interns them. The table's contract is the locale
  \<open>intern_table\<close>, which \<open>StyleSet\<close> satisfies.
\<close>

subsection \<open>Colours\<close>

datatype named_color =
    Black | Red | Green | Yellow | Blue | Magenta | Cyan | White
  | LightBlack | LightRed | LightGreen | LightYellow | LightBlue | LightMagenta | LightCyan | LightWhite
  | Foreground | Background | CursorColor
  | DimBlack | DimRed | DimGreen | DimYellow | DimBlue | DimMagenta | DimCyan | DimWhite
  | LightForeground | DimForeground

fun named_index :: "named_color \<Rightarrow> nat" where
  \<comment> \<open>\<open>named as u16\<close>\<close>
  "named_index Black = 0" | "named_index Red = 1" | "named_index Green = 2"
| "named_index Yellow = 3" | "named_index Blue = 4" | "named_index Magenta = 5"
| "named_index Cyan = 6" | "named_index White = 7" | "named_index LightBlack = 8"
| "named_index LightRed = 9" | "named_index LightGreen = 10" | "named_index LightYellow = 11"
| "named_index LightBlue = 12" | "named_index LightMagenta = 13" | "named_index LightCyan = 14"
| "named_index LightWhite = 15" | "named_index Foreground = 256" | "named_index Background = 257"
| "named_index CursorColor = 258" | "named_index DimBlack = 259" | "named_index DimRed = 260"
| "named_index DimGreen = 261" | "named_index DimYellow = 262" | "named_index DimBlue = 263"
| "named_index DimMagenta = 264" | "named_index DimCyan = 265" | "named_index DimWhite = 266"
| "named_index LightForeground = 267" | "named_index DimForeground = 268"

fun to_light :: "named_color \<Rightarrow> named_color" where
  "to_light Foreground = LightForeground"
| "to_light Black = LightBlack"
| "to_light Red = LightRed"
| "to_light Green = LightGreen"
| "to_light Yellow = LightYellow"
| "to_light Blue = LightBlue"
| "to_light Magenta = LightMagenta"
| "to_light Cyan = LightCyan"
| "to_light White = LightWhite"
| "to_light DimForeground = Foreground"
| "to_light DimBlack = Black"
| "to_light DimRed = Red"
| "to_light DimGreen = Green"
| "to_light DimYellow = Yellow"
| "to_light DimBlue = Blue"
| "to_light DimMagenta = Magenta"
| "to_light DimCyan = Cyan"
| "to_light DimWhite = White"
| "to_light c = c"

fun to_dim :: "named_color \<Rightarrow> named_color" where
  "to_dim Black = DimBlack"
| "to_dim Red = DimRed"
| "to_dim Green = DimGreen"
| "to_dim Yellow = DimYellow"
| "to_dim Blue = DimBlue"
| "to_dim Magenta = DimMagenta"
| "to_dim Cyan = DimCyan"
| "to_dim White = DimWhite"
| "to_dim Foreground = DimForeground"
| "to_dim LightBlack = Black"
| "to_dim LightRed = Red"
| "to_dim LightGreen = Green"
| "to_dim LightYellow = Yellow"
| "to_dim LightBlue = Blue"
| "to_dim LightMagenta = Magenta"
| "to_dim LightCyan = Cyan"
| "to_dim LightWhite = White"
| "to_dim LightForeground = Foreground"
| "to_dim c = c"

record color_rgb =
  rgb_r :: u8
  rgb_g :: u8
  rgb_b :: u8

datatype ansi_color = Named named_color | Spec color_rgb | Indexed u8

lemma named_index_inj: "named_index a = named_index b \<Longrightarrow> a = b"
  by (cases a; cases b) simp_all

lemma to_dim_to_light: "to_dim c \<noteq> c \<Longrightarrow> to_light (to_dim c) = c"
  by (cases c) simp_all

lemma to_light_to_dim: "to_light c \<noteq> c \<Longrightarrow> to_dim (to_light c) = c"
  by (cases c) simp_all

subsection \<open>Styles\<close>

type_synonym style_flags = u16

definition SF_INVERSE :: style_flags where "SF_INVERSE = push_bit 0 1"
definition SF_BOLD :: style_flags where "SF_BOLD = push_bit 1 1"
definition SF_ITALIC :: style_flags where "SF_ITALIC = push_bit 2 1"
definition SF_DIM :: style_flags where "SF_DIM = push_bit 3 1"
definition SF_HIDDEN :: style_flags where "SF_HIDDEN = push_bit 4 1"
definition SF_STRIKEOUT :: style_flags where "SF_STRIKEOUT = push_bit 5 1"
definition SF_UNDERLINE :: style_flags where "SF_UNDERLINE = push_bit 6 1"
definition SF_DOUBLE_UNDERLINE :: style_flags where "SF_DOUBLE_UNDERLINE = push_bit 7 1"
definition SF_UNDERCURL :: style_flags where "SF_UNDERCURL = push_bit 8 1"
definition SF_DOTTED_UNDERLINE :: style_flags where "SF_DOTTED_UNDERLINE = push_bit 9 1"
definition SF_DASHED_UNDERLINE :: style_flags where "SF_DASHED_UNDERLINE = push_bit 10 1"

definition SF_ALL_UNDERLINES :: style_flags where
  "SF_ALL_UNDERLINES = SF_UNDERLINE OR SF_DOUBLE_UNDERLINE OR SF_UNDERCURL OR SF_DOTTED_UNDERLINE OR
     SF_DASHED_UNDERLINE"

definition SF_DIM_BOLD :: style_flags where "SF_DIM_BOLD = SF_DIM OR SF_BOLD"

record style =
  st_fg :: ansi_color
  st_bg :: ansi_color
  st_underline_color :: "ansi_color option"
  st_flags :: style_flags

definition style_default :: style where
  "style_default = \<lparr>st_fg = Named Foreground, st_bg = Named Background, st_underline_color = None,
     st_flags = 0\<rparr>"

subsection \<open>The intern table\<close>

record style_set =
  styles :: "style list"
  lookup :: "style \<rightharpoonup> u16"

definition style_set_new :: style_set where
  "style_set_new = \<lparr>styles = [style_default], lookup = [style_default \<mapsto> DEFAULT_STYLE_ID]\<rparr>"

definition style_get :: "style_set \<Rightarrow> u16 \<Rightarrow> style" where
  "style_get t i =
     (if i = DEFAULT_STYLE_ID then style_default
      else if unat i < length (styles t) then styles t ! unat i else style_default)"

definition style_get_unchecked :: "style_set \<Rightarrow> u16 \<Rightarrow> style option" where
  \<comment> \<open>the assertion's failure is \<open>None\<close>\<close>
  "style_get_unchecked t i = idx (styles t) (unat i)"

definition U16_MAX :: nat where "U16_MAX = 65535"

definition style_intern :: "style_set \<Rightarrow> style \<Rightarrow> style_set \<times> u16" where
  "style_intern t st =
     (case lookup t st of
        Some i \<Rightarrow> (t, i)
      | None \<Rightarrow>
          if length (styles t) \<ge> U16_MAX then (t, DEFAULT_STYLE_ID)
          else (let i = word_of_nat (length (styles t)) in
                (t\<lparr>styles := styles t @ [st], lookup := (lookup t)(st \<mapsto> i)\<rparr>, i)))"

definition style_set_len :: "style_set \<Rightarrow> nat" where "style_set_len t = length (styles t)"

subsection \<open>Its contract\<close>

text \<open>An intern table hands out ids: an id, once valid, keeps its value; the id of an interned
  value reads back that value, unless the table is full, when it is the default id; equal
  values share an id.\<close>

locale intern_table =
  fixes inv :: "'t \<Rightarrow> bool"
    and valid :: "'t \<Rightarrow> 'i \<Rightarrow> bool"
    and get :: "'t \<Rightarrow> 'i \<Rightarrow> 'v"
    and intern :: "'t \<Rightarrow> 'v \<Rightarrow> 't \<times> 'i"
    and full :: "'t \<Rightarrow> 'v \<Rightarrow> bool"
    and dflt :: 'i
  assumes inv_intern: "inv t \<Longrightarrow> inv (fst (intern t v))"
    and valid_intern: "inv t \<Longrightarrow> valid t i \<Longrightarrow> valid (fst (intern t v)) i"
    and get_stable: "inv t \<Longrightarrow> valid t i \<Longrightarrow> get (fst (intern t v)) i = get t i"
    and valid_new: "inv t \<Longrightarrow> valid (fst (intern t v)) (snd (intern t v))"
    and get_new: "inv t \<Longrightarrow> \<not> full t v \<Longrightarrow> get (fst (intern t v)) (snd (intern t v)) = v"
    and full_new: "inv t \<Longrightarrow> full t v \<Longrightarrow> intern t v = (t, dflt)"
    and get_inject: "inv t \<Longrightarrow> valid t i \<Longrightarrow> valid t j \<Longrightarrow> get t i = get t j \<Longrightarrow> i = j"
begin

text \<open>Any number of interned values leaves the valid ids as they were.\<close>

lemma intern_all:
  "inv t \<Longrightarrow> inv (fold (\<lambda>v t. fst (intern t v)) vs t) \<and>
     (\<forall>i. valid t i \<longrightarrow> valid (fold (\<lambda>v t. fst (intern t v)) vs t) i \<and>
          get (fold (\<lambda>v t. fst (intern t v)) vs t) i = get t i)"
  by (induction vs arbitrary: t) (auto simp: inv_intern valid_intern get_stable)

lemma intern_again:
  assumes "inv t" "\<not> full t v"
  shows "full (fst (intern t v)) v \<or> intern (fst (intern t v)) v = (fst (intern (fst (intern t v)) v), snd (intern t v))"
proof (cases "full (fst (intern t v)) v")
  case False
  let ?t = "fst (intern t v)"
  have "get (fst (intern ?t v)) (snd (intern ?t v)) = v"
    using get_new [OF inv_intern [OF assms(1)] False] .
  moreover have "get (fst (intern ?t v)) (snd (intern t v)) = v"
    using get_stable [OF inv_intern [OF assms(1)] valid_new [OF assms(1)]] get_new [OF assms] by simp
  ultimately have "snd (intern ?t v) = snd (intern t v)"
    using get_inject assms inv_intern valid_new valid_intern by metis
  then show ?thesis by (metis prod.collapse)
qed simp

end

definition style_inv :: "style_set \<Rightarrow> bool" where
  "style_inv t \<longleftrightarrow>
     0 < length (styles t) \<and> length (styles t) \<le> U16_MAX \<and> styles t ! 0 = style_default \<and>
     (\<forall>v i. lookup t v = Some i \<longleftrightarrow> unat i < length (styles t) \<and> styles t ! unat i = v)"

definition style_valid :: "style_set \<Rightarrow> u16 \<Rightarrow> bool" where
  "style_valid t i \<longleftrightarrow> unat i < length (styles t)"

definition style_full :: "style_set \<Rightarrow> style \<Rightarrow> bool" where
  "style_full t v \<longleftrightarrow> lookup t v = None \<and> length (styles t) \<ge> U16_MAX"

lemma style_get_valid: "style_inv t \<Longrightarrow> style_valid t i \<Longrightarrow> style_get t i = styles t ! unat i"
  by (auto simp: style_inv_def style_valid_def style_get_def DEFAULT_STYLE_ID_def)

lemma style_inv_new: "style_inv style_set_new"
  by (auto simp: style_inv_def style_set_new_def U16_MAX_def DEFAULT_STYLE_ID_def unat_eq_0)

lemma unat_next: "n < U16_MAX \<Longrightarrow> unat (word_of_nat n :: u16) = n"
  by (simp add: unat_of_nat U16_MAX_def)

lemma style_intern_push:
  assumes "style_inv t" "lookup t v = None" "length (styles t) < U16_MAX"
  shows "style_inv (t\<lparr>styles := styles t @ [v], lookup := (lookup t)(v \<mapsto> word_of_nat (length (styles t)))\<rparr>)"
proof -
  have "unat (i :: u16) = length (styles t) \<longleftrightarrow> i = word_of_nat (length (styles t))" for i
    using unat_next [OF assms(3)] by (metis word_unat_eq_iff)
  moreover have "styles t ! unat i \<noteq> v" if "unat (i :: u16) < length (styles t)" for i
    using assms(1,2) that unfolding style_inv_def by (metis option.distinct(1))
  ultimately show ?thesis using assms
    by (auto simp: style_inv_def nth_append less_Suc_eq unat_next)
qed

interpretation style_table: intern_table style_inv style_valid style_get style_intern style_full DEFAULT_STYLE_ID
proof
  fix t v i j
  assume t: "style_inv t"
  show inv': "style_inv (fst (style_intern t v))"
    using t style_intern_push [OF t, of v]
    by (auto simp: style_intern_def Let_def split: option.split)
  show "style_valid (fst (style_intern t v)) (snd (style_intern t v))"
    using t by (auto simp: style_intern_def style_valid_def style_inv_def unat_next DEFAULT_STYLE_ID_def
        Let_def split: option.split)
  show "style_full t v \<Longrightarrow> style_intern t v = (t, DEFAULT_STYLE_ID)"
    by (auto simp: style_full_def style_intern_def)
  show "style_get (fst (style_intern t v)) (snd (style_intern t v)) = v" if "\<not> style_full t v"
  proof (cases "lookup t v")
    case None
    moreover from that t None have "(word_of_nat (length (styles t)) :: u16) \<noteq> 0"
      using unat_next [of "length (styles t)"]
      by (auto simp: style_full_def style_inv_def not_le dest: arg_cong [of _ _ unat])
    ultimately show ?thesis using that t
      by (auto simp: style_full_def style_intern_def style_get_def Let_def unat_next style_inv_def
          DEFAULT_STYLE_ID_def unat_eq_0)
  next
    case (Some k)
    with t have "style_valid t k" "styles t ! unat k = v"
      unfolding style_inv_def style_valid_def by blast+
    with style_get_valid [OF t] Some show ?thesis by (simp add: style_intern_def)
  qed
  assume i: "style_valid t i"
  show i': "style_valid (fst (style_intern t v)) i"
    using i by (auto simp: style_intern_def style_valid_def Let_def split: option.split)
  show "style_get (fst (style_intern t v)) i = style_get t i"
    using i style_get_valid [OF t i] style_get_valid [OF inv' i']
    by (auto simp: style_intern_def style_valid_def Let_def nth_append split: option.splits)
  assume j: "style_valid t j" and eq: "style_get t i = style_get t j"
  with t i style_get_valid [OF t i] style_get_valid [OF t j] have "styles t ! unat i = styles t ! unat j"
    by simp
  with t i j show "i = j" unfolding style_inv_def style_valid_def by (metis option.inject)
qed

subsection \<open>Properties\<close>

text \<open>C36. Interning is sound: the table's invariant is kept, the id returned reads back the style
  (the default style when the table already holds 65535 others), interning it again returns
  the same id without changing the table, and no id handed out before changes its meaning.\<close>

theorem style_intern_sound:
  assumes "style_inv t" "style_intern t v = (t', i)"
  shows "style_inv t' \<and> style_valid t' i \<and>
    style_get t' i = (if style_full t v then style_default else v) \<and>
    (\<not> style_full t v \<longrightarrow> style_intern t' v = (t', i)) \<and>
    (\<forall>k. style_valid t k \<longrightarrow> style_valid t' k \<and> style_get t' k = style_get t k)"
proof (intro conjI impI)
  note r = assms(2)
  show "style_inv t'" "style_valid t' i"
    using style_table.inv_intern style_table.valid_new assms by (metis fst_conv snd_conv)+
  show "style_get t' i = (if style_full t v then style_default else v)"
    using style_table.get_new [OF assms(1), of v] style_table.full_new [OF assms(1), of v] r
    by (auto simp: style_get_def)
  show "style_intern t' v = (t', i)" if "\<not> style_full t v"
  proof -
    have "lookup t' v = Some i"
      using that r by (auto simp: style_full_def style_intern_def Let_def split: option.splits if_splits)
    then show ?thesis by (simp add: style_intern_def)
  qed
  show "\<forall>k. style_valid t k \<longrightarrow> style_valid t' k \<and> style_get t' k = style_get t k"
    using style_table.valid_intern [OF assms(1)] style_table.get_stable [OF assms(1)] r
    by (metis fst_conv)
qed

theorem style_intern_sound_witness:
  "style_get (fst (style_intern style_set_new (style_default\<lparr>st_flags := SF_BOLD\<rparr>))) 1 =
     style_default\<lparr>st_flags := SF_BOLD\<rparr>"
proof -
  let ?v = "style_default\<lparr>st_flags := SF_BOLD\<rparr>"
  have ne: "?v \<noteq> style_default" by (simp add: style_default_def SF_BOLD_def)
  have r: "style_intern style_set_new ?v = (fst (style_intern style_set_new ?v), 1)"
    using ne by (simp add: style_intern_def style_set_new_def Let_def U16_MAX_def)
  from style_intern_sound [OF style_inv_new r] ne show ?thesis
    by (simp add: style_full_def style_set_new_def U16_MAX_def)
qed

end
