(* ===== verification/Extras.thy ===== *)
theory Extras
  imports Square
begin

text \<open>
  The rare per-cell data: \<open>Hyperlink\<close> and \<open>Extras\<close> of \<open>crosswords/square.rs\<close> and the
  slot table \<open>ExtrasTable\<close> of \<open>crosswords/grid/mod.rs\<close>, whose contract is the locale
  \<open>slot_table\<close>.
\<close>

subsection \<open>Hyperlinks\<close>

fun show_nat :: "nat \<Rightarrow> string" where
  \<comment> \<open>\<open>to_string\<close> of an unsigned integer\<close>
  "show_nat n = (if n < 10 then [char_of (48 + n)] else show_nat (n div 10) @ [char_of (48 + n mod 10)])"

declare show_nat.simps [simp del]

record hyperlink =
  hl_id :: string
  hl_uri :: string

definition hyperlink_new :: "u32 \<Rightarrow> string option \<Rightarrow> string \<Rightarrow> hyperlink \<times> u32" where
  \<comment> \<open>the counter \<open>HYPERLINK_ID_SUFFIX\<close> is threaded through; \<open>fetch_add\<close> wraps\<close>
  "hyperlink_new suffix i uri =
     (case i of
        Some i \<Rightarrow> (\<lparr>hl_id = i, hl_uri = uri\<rparr>, suffix)
      | None \<Rightarrow> (\<lparr>hl_id = show_nat (unat suffix) @ ''_rio'', hl_uri = uri\<rparr>, suffix + 1))"

lemma show_nat_ends_in_digit:
  "show_nat n \<noteq> [] \<and> last (show_nat n) = char_of (48 + n mod 10)"
  by (cases "n < 10") (simp_all add: show_nat.simps [of n])

lemma digit_inj: "m < 10 \<Longrightarrow> n < 10 \<Longrightarrow> (char_of (48 + m) :: char) = char_of (48 + n) \<Longrightarrow> m = (n::nat)"
proof -
  assume mn: "m < 10" "n < 10" and e: "(char_of (48 + m) :: char) = char_of (48 + n)"
  have "(of_char (char_of (48 + m) :: char) :: nat) = of_char (char_of (48 + n) :: char)" by (simp only: e)
  with mn show "m = n" by simp
qed

lemma show_nat_inj: "show_nat m = show_nat n \<Longrightarrow> m = n"
proof (induction m arbitrary: n rule: less_induct)
  case (less m)
  have "(char_of (48 + m mod 10) :: char) = char_of (48 + n mod 10)"
    using show_nat_ends_in_digit [of m] show_nat_ends_in_digit [of n] less.prems by simp
  then have mods: "m mod 10 = n mod 10" by (rule digit_inj [rotated 2]) simp_all
  have nonempty: "show_nat k \<noteq> []" for k using show_nat_ends_in_digit by blast
  show ?case
  proof (cases "m < 10 \<or> n < 10")
    case True
    then have "m < 10 \<and> n < 10"
      using less.prems nonempty nonempty [THEN not_sym]
      by (auto simp: show_nat.simps [of m] show_nat.simps [of n] split: if_splits)
    with mods show ?thesis by simp
  next
    case False
    then have "show_nat (m div 10) = show_nat (n div 10)"
      using less.prems by (simp add: show_nat.simps [of m] show_nat.simps [of n])
    then have "m div 10 = n div 10" using False by (intro less.IH) auto
    with mods show ?thesis by (metis div_mult_mod_eq)
  qed
qed

subsection \<open>Extras and their table\<close>

record texture_ref =
  tx_id :: u64
  tx_width :: u16
  tx_height :: u16
  tx_cell_height :: nat

record graphic_cell =
  gc_texture :: texture_ref
  gc_offset_x :: u16
  gc_offset_y :: u16

record extras =
  zerowidth :: "rchar list"
  ex_hyperlink :: "hyperlink option"
  ex_graphic :: "graphic_cell list option"

definition extras_default :: extras where
  "extras_default = \<lparr>zerowidth = [], ex_hyperlink = None, ex_graphic = None\<rparr>"

definition extras_is_empty :: "extras \<Rightarrow> bool" where
  "extras_is_empty e \<longleftrightarrow> zerowidth e = [] \<and> ex_hyperlink e = None \<and> ex_graphic e = None"

record extras_table =
  slots :: "extras option list"
  free_slots :: "u16 list"

definition extras_table_new :: extras_table where
  "extras_table_new = \<lparr>slots = [None], free_slots = []\<rparr>"

definition extras_get :: "extras_table \<Rightarrow> u16 \<Rightarrow> extras option" where
  "extras_get t i = (if unat i < length (slots t) then slots t ! unat i else None)"

definition extras_modify :: "extras_table \<Rightarrow> u16 \<Rightarrow> (extras \<Rightarrow> extras) \<Rightarrow> extras_table" where
  \<comment> \<open>\<open>if let Some(e) = get_mut(i) { f(e) }\<close>\<close>
  "extras_modify t i f =
     (case extras_get t i of
        None \<Rightarrow> t
      | Some e \<Rightarrow> t\<lparr>slots := (slots t)[unat i := Some (f e)]\<rparr>)"

definition extras_alloc :: "extras_table \<Rightarrow> extras \<Rightarrow> (extras_table \<times> u16) option" where
  "extras_alloc t e =
     (if free_slots t \<noteq> [] then do {
        let i = last (free_slots t);
        s \<leftarrow> upd (slots t) (unat i) (Some e);
        Some (t\<lparr>slots := s, free_slots := butlast (free_slots t)\<rparr>, i)
      }
      else if length (slots t) \<ge> 65535 then Some (t, 0)
      else Some (t\<lparr>slots := slots t @ [Some e]\<rparr>, word_of_nat (length (slots t))))"

definition extras_free :: "extras_table \<Rightarrow> u16 \<Rightarrow> extras_table" where
  "extras_free t i =
     (if i = 0 then t
      else case extras_get t i of
        None \<Rightarrow> t
      | Some _ \<Rightarrow> t\<lparr>slots := (slots t)[unat i := None], free_slots := free_slots t @ [i]\<rparr>)"

definition extras_clear :: "extras_table \<Rightarrow> extras_table" where
  "extras_clear t = t\<lparr>slots := [None], free_slots := []\<rparr>"

subsection \<open>The contract of a slot table\<close>

locale slot_table =
  fixes inv :: "'t \<Rightarrow> bool"
    and get :: "'t \<Rightarrow> 'i \<Rightarrow> 'v option"
    and alloc :: "'t \<Rightarrow> 'v \<Rightarrow> ('t \<times> 'i) option"
    and free :: "'t \<Rightarrow> 'i \<Rightarrow> 't"
    and none :: 'i
  assumes get_none: "inv t \<Longrightarrow> get t none = None"
    and alloc_ok: "inv t \<Longrightarrow>
      wp (alloc t v) (\<lambda>(t', i). inv t' \<and>
        (if i = none then t' = t
         else get t i = None \<and> get t' i = Some v \<and> (\<forall>j. j \<noteq> i \<longrightarrow> get t' j = get t j)))"
    and free_ok: "inv t \<Longrightarrow> inv (free t i) \<and> get (free t i) i = None \<and>
      (\<forall>j. j \<noteq> i \<longrightarrow> get (free t i) j = get t j)"
begin

text \<open>The live slots of the table.\<close>

definition live :: "'t \<Rightarrow> 'i set" where "live t = {i. get t i \<noteq> None}"

lemma alloc_live:
  assumes "inv t"
  shows "wp (alloc t v) (\<lambda>(t', i). live t' = (if i = none then live t else insert i (live t)) \<and>
    (i \<noteq> none \<longrightarrow> i \<notin> live t))"
proof (rule wp_mono [OF alloc_ok [OF assms]], clarify)
  fix t' i
  assume a: "if i = none then t' = t else get t i = None \<and> get t' i = Some v \<and> (\<forall>j. j \<noteq> i \<longrightarrow> get t' j = get t j)"
  show "live t' = (if i = none then live t else insert i (live t)) \<and> (i \<noteq> none \<longrightarrow> i \<notin> live t)"
  proof (cases "i = none")
    case False
    with a have "get t' j \<noteq> None \<longleftrightarrow> j = i \<or> get t j \<noteq> None" for j by (cases "j = i") simp_all
    with False a show ?thesis by (auto simp: live_def)
  qed (use a in simp)
qed

lemma free_live: "inv t \<Longrightarrow> live (free t i) = live t - {i}"
proof -
  assume "inv t"
  with free_ok [of t i] have "get (free t i) j \<noteq> None \<longleftrightarrow> j \<noteq> i \<and> get t j \<noteq> None" for j
    by (cases "j = i") simp_all
  then show "live (free t i) = live t - {i}" by (auto simp: live_def)
qed

lemma free_all_live: "inv t \<Longrightarrow> inv (fold (\<lambda>i t. free t i) is t) \<and> live (fold (\<lambda>i t. free t i) is t) = live t - set is"
  by (induction "is" arbitrary: t) (auto simp: free_ok free_live)

lemma alloc_free:
  assumes "inv t" "alloc t v = Some (t', i)" "i \<noteq> none"
  shows "get (free t' i) j = get t j"
  using assms alloc_ok [OF assms(1), of v] free_ok [of t' i] by (auto simp: wp_Some) metis

end

definition extras_inv :: "extras_table \<Rightarrow> bool" where
  "extras_inv t \<longleftrightarrow>
     0 < length (slots t) \<and> length (slots t) \<le> 65535 \<and> slots t ! 0 = None \<and> distinct (free_slots t) \<and>
     (\<forall>i \<in> set (free_slots t). i \<noteq> 0 \<and> unat i < length (slots t) \<and> slots t ! unat i = None)"

lemma extras_inv_new: "extras_inv extras_table_new"
  by (simp add: extras_inv_def extras_table_new_def)

lemma extras_inv_clear: "extras_inv (extras_clear t)"
  by (simp add: extras_inv_def extras_clear_def)

lemma unat_eq_iff: "unat (i :: u16) = unat j \<longleftrightarrow> i = j"
  by (simp add: word_unat_eq_iff)

lemma extras_alloc_ok:
  assumes "extras_inv t"
  shows "wp (extras_alloc t v) (\<lambda>(t', i). extras_inv t' \<and>
        (if i = 0 then t' = t
         else extras_get t i = None \<and> extras_get t' i = Some v \<and>
              (\<forall>j. j \<noteq> i \<longrightarrow> extras_get t' j = extras_get t j)))"
proof (cases "free_slots t = []")
  case False
  define i where "i = last (free_slots t)"
  have fs: "free_slots t = butlast (free_slots t) @ [i]" using False by (simp add: i_def)
  have mem: "i \<in> set (free_slots t)" using False by (simp add: i_def)
  then have i: "i \<noteq> 0" "unat i < length (slots t)" "slots t ! unat i = None"
    using assms by (auto simp: extras_inv_def)
  then have "unat i \<noteq> 0" by (simp add: unat_eq_0)
  have free: "distinct (butlast (free_slots t))" "i \<notin> set (butlast (free_slots t))"
    "set (butlast (free_slots t)) \<subseteq> set (free_slots t)"
    using assms fs unfolding extras_inv_def
    by (metis distinct_butlast, metis distinct_append disjoint_iff list.set_intros(1), auto dest: in_set_butlastD)
  let ?t = "t\<lparr>slots := (slots t)[unat i := Some v], free_slots := butlast (free_slots t)\<rparr>"
  have "extras_alloc t v = Some (?t, i)"
    using False i by (simp add: extras_alloc_def upd_def Let_def flip: i_def)
  moreover have "extras_inv ?t"
    unfolding extras_inv_def
  proof (intro conjI ballI)
    fix j assume "j \<in> set (free_slots ?t)"
    then have "j \<in> set (free_slots t)" "j \<noteq> i" using free by auto
    then show "j \<noteq> 0" "unat j < length (slots ?t)" "slots ?t ! unat j = None"
      using assms by (auto simp: extras_inv_def unat_eq_iff)
  qed (use assms \<open>unat i \<noteq> 0\<close> free in \<open>auto simp: extras_inv_def\<close>)
  moreover have "extras_get t i = None" "extras_get ?t i = Some v"
    "\<forall>j. j \<noteq> i \<longrightarrow> extras_get ?t j = extras_get t j"
    using i by (auto simp: extras_get_def unat_eq_iff)
  ultimately show ?thesis using i(1) by (simp add: wp_simps)
next
  case True
  show ?thesis
  proof (cases "length (slots t) \<ge> 65535")
    case True
    with \<open>free_slots t = []\<close> assms show ?thesis by (simp add: extras_alloc_def wp_simps)
  next
    case False
    then have n: "unat (word_of_nat (length (slots t)) :: u16) = length (slots t)"
      by (simp add: unat_of_nat)
    let ?i = "word_of_nat (length (slots t)) :: u16"
    let ?t = "t\<lparr>slots := slots t @ [Some v]\<rparr>"
    have nz: "?i \<noteq> 0" using n assms by (metis extras_inv_def less_irrefl unat_0)
    have eq: "unat (j :: u16) = length (slots t) \<longleftrightarrow> j = ?i" for j
      using n by (metis word_unat_eq_iff)
    have "extras_alloc t v = Some (?t, ?i)" using True False by (simp add: extras_alloc_def)
    moreover have "extras_inv ?t" using assms True False by (simp add: extras_inv_def nth_append)
    moreover have "extras_get t ?i = None" "extras_get ?t ?i = Some v"
      using n by (simp_all add: extras_get_def)
    moreover have "extras_get ?t j = extras_get t j" if "j \<noteq> ?i" for j
      using that eq [of j] by (simp add: extras_get_def nth_append less_Suc_eq)
    ultimately show ?thesis using nz by (simp add: wp_simps)
  qed
qed

lemma extras_free_ok:
  assumes "extras_inv t"
  shows "extras_inv (extras_free t i) \<and> extras_get (extras_free t i) i = None \<and>
    (\<forall>j. j \<noteq> i \<longrightarrow> extras_get (extras_free t i) j = extras_get t j)"
proof (cases "i = 0 \<or> extras_get t i = None")
  case True
  with assms show ?thesis
    by (auto simp: extras_free_def extras_inv_def extras_get_def)
next
  case False
  then obtain e where e: "slots t ! unat i = Some e" "unat i < length (slots t)" "i \<noteq> 0"
    by (auto simp: extras_get_def split: if_splits)
  moreover have "i \<notin> set (free_slots t)" using e assms by (auto simp: extras_inv_def)
  moreover have "unat i \<noteq> 0" using e(3) by (simp add: unat_eq_0)
  ultimately show ?thesis
    using assms by (auto simp: extras_free_def extras_get_def extras_inv_def nth_list_update unat_eq_iff)
qed

interpretation extras_slots: slot_table extras_inv extras_get extras_alloc extras_free 0
  by unfold_locales
    (use extras_alloc_ok extras_free_ok in \<open>auto simp: extras_get_def extras_inv_def\<close>)

lemma extras_modify_get:
  "extras_get (extras_modify t i f) j =
     (if j = i then map_option f (extras_get t i) else extras_get t j)"
  by (auto simp: extras_modify_def extras_get_def unat_eq_iff split: option.splits)

lemma extras_modify_inv: "extras_inv t \<Longrightarrow> extras_inv (extras_modify t i f)"
  by (auto simp: extras_modify_def extras_inv_def extras_get_def nth_list_update split: option.splits)

subsection \<open>Properties\<close>

text \<open>Allocating a slot never panics and never gives out one that is in use: the id returned
  had no extras before and has the new ones now, all other slots keep theirs, and when all
  65535 ids are taken the table is unchanged and the id is 0, which means none.\<close>

theorem extras_alloc_fresh:
  assumes "extras_inv t"
  shows "\<exists>t' i. extras_alloc t e = Some (t', i) \<and> extras_inv t' \<and>
    (if i = 0 then t' = t
     else extras_get t i = None \<and> extras_get t' i = Some e \<and>
          (\<forall>j. j \<noteq> i \<longrightarrow> extras_get t' j = extras_get t j) \<and>
          (\<forall>j. extras_get (extras_free t' i) j = extras_get t j))"
  using extras_slots.alloc_ok [OF assms, of e] extras_slots.alloc_free [OF assms, of e]
  by (fastforce simp: wp_iff)

theorem extras_alloc_fresh_witness:
  "\<exists>t' i. extras_alloc (extras_free (extras_table_new\<lparr>slots := [None, Some extras_default]\<rparr>) 1) extras_default
       = Some (t', i) \<and> extras_inv t' \<and>
     (i \<noteq> 0 \<longrightarrow> extras_get t' i = Some extras_default)"
proof -
  have "extras_inv (extras_table_new\<lparr>slots := [None, Some extras_default]\<rparr>)"
    by (simp add: extras_inv_def extras_table_new_def)
  then have "extras_inv (extras_free (extras_table_new\<lparr>slots := [None, Some extras_default]\<rparr>) 1)"
    using extras_free_ok by blast
  from extras_alloc_fresh [OF this, of extras_default] show ?thesis by (auto split: if_splits)
qed

text \<open>Hyperlinks without an explicit id get ids of their own: the ids generated from two
  counter values differ when the values do, and the counter moves on with every one.\<close>

theorem hyperlink_ids_distinct:
  "hl_id (fst (hyperlink_new m None u)) = hl_id (fst (hyperlink_new n None v)) \<longleftrightarrow> m = n"
  by (auto simp: hyperlink_new_def dest: show_nat_inj simp: word_unat_eq_iff)

end
