(* ===== verification/Grid.thy ===== *)
theory Grid
  imports LineStore Pos Style Extras
begin

text \<open>
  \<open>crosswords/grid/mod.rs\<close>: the grid of a screen with its history, instantiated, as in the
  terminal, at \<open>Square\<close>. Lines are those of the line store; a region \<open>start..end\<close> is a pair.
\<close>

subsection \<open>State\<close>

datatype scroll = Delta int | PageUp | PageDown | ScrollTop | ScrollBottom

record grid =
  gcursor :: "square cursor"
  saved_cursor :: "square cursor"
  raw :: "square storage"
  g_columns :: nat
  g_lines :: nat
  display_offset :: nat
  max_scroll_limit :: nat
  g_style_set :: style_set
  g_extras :: extras_table

definition grid_new :: "nat \<Rightarrow> nat \<Rightarrow> nat \<Rightarrow> grid option" where
  "grid_new lines cols limit = do {
     s \<leftarrow> storage_with_capacity 0 lines cols;
     Some \<lparr>gcursor = cursor_default 0, saved_cursor = cursor_default 0, raw = s, g_columns = cols,
           g_lines = lines, display_offset = 0, max_scroll_limit = limit,
           g_style_set = style_set_new, g_extras = extras_table_new\<rparr>
   }"

definition grid_dims :: "grid \<Rightarrow> dims" where
  \<comment> \<open>\<open>impl Dimensions for Grid\<close>\<close>
  "grid_dims g = \<lparr>total_lines = st_len (raw g), screen_lines = g_lines g, columns = g_columns g\<rparr>"

definition grid_history :: "grid \<Rightarrow> nat" where
  "grid_history g = history_size (grid_dims g)"

definition grid_cell :: "grid \<Rightarrow> pos \<Rightarrow> square option" where
  \<comment> \<open>\<open>grid[pos]\<close>\<close>
  "grid_cell g p = do {
     r \<leftarrow> storage_index (raw g) (row p);
     row_index r (col p)
   }"

definition on_raw :: "grid \<Rightarrow> square storage option \<Rightarrow> grid option" where
  "on_raw g m = map_option (\<lambda>s. g\<lparr>raw := s\<rparr>) m"

definition grid_modify_row :: "grid \<Rightarrow> int \<Rightarrow> (square grid_row \<Rightarrow> square grid_row option) \<Rightarrow> grid option" where
  \<comment> \<open>a call of \<open>f\<close> on \<open>&mut grid[line]\<close>\<close>
  "grid_modify_row g l f = on_raw g (storage_modify (raw g) l f)"

definition grid_modify_cell :: "grid \<Rightarrow> pos \<Rightarrow> (square \<Rightarrow> square) \<Rightarrow> grid option" where
  "grid_modify_cell g p f = grid_modify_row g (row p) (\<lambda>r. row_index_mut r (col p) f)"

definition cursor_square :: "grid \<Rightarrow> (square \<Rightarrow> square) \<Rightarrow> grid option" where
  \<comment> \<open>a call of \<open>f\<close> on the cell under the cursor; \<open>cursor_cell\<close> is the same\<close>
  "cursor_square g f = grid_modify_cell g (cpos (gcursor g)) f"

subsection \<open>History and display offset\<close>

definition update_history :: "grid \<Rightarrow> nat \<Rightarrow> grid option" where
  "update_history g history = do {
     let current = grid_history g;
     g \<leftarrow> (if current > history then on_raw g (shrink_lines (raw g) (current - history)) else Some g);
     Some (g\<lparr>display_offset := min (display_offset g) history, max_scroll_limit := history\<rparr>)
   }"

definition scroll_display :: "grid \<Rightarrow> scroll \<Rightarrow> grid" where
  "scroll_display g sc = g\<lparr>display_offset :=
     (case sc of
        Delta count \<Rightarrow> min (nat (max (int (display_offset g) + count) 0)) (grid_history g)
      | PageUp \<Rightarrow> min (display_offset g + g_lines g) (grid_history g)
      | PageDown \<Rightarrow> display_offset g - g_lines g
      | ScrollTop \<Rightarrow> grid_history g
      | ScrollBottom \<Rightarrow> 0)\<rparr>"

definition increase_scroll_limit :: "grid \<Rightarrow> nat \<Rightarrow> grid option" where
  "increase_scroll_limit g count = do {
     room \<leftarrow> usub (max_scroll_limit g) (grid_history g);
     let count = min count room;
     if count \<noteq> 0 then on_raw g (initialize 0 (raw g) count (g_columns g)) else Some g
   }"

definition decrease_scroll_limit :: "grid \<Rightarrow> nat \<Rightarrow> grid option" where
  "decrease_scroll_limit g count = do {
     let count = min count (grid_history g);
     if count \<noteq> 0 then do {
       g \<leftarrow> on_raw g (shrink_lines (raw g) (min count (grid_history g)));
       Some (g\<lparr>display_offset := min (display_offset g) (grid_history g)\<rparr>)
     } else Some g
   }"

definition clear_history :: "grid \<Rightarrow> grid option" where
  "clear_history g = do {
     g \<leftarrow> on_raw g (shrink_lines (raw g) (grid_history g));
     Some (g\<lparr>display_offset := 0\<rparr>)
   }"

subsection \<open>Scrolling\<close>

definition reset_lines :: "square \<Rightarrow> square storage \<Rightarrow> int list \<Rightarrow> square storage option" where
  "reset_lines t s ls = foldM (\<lambda>s i. storage_modify s i (row_reset sq_reset t)) s ls"

definition mark_dirty :: "square storage \<Rightarrow> int list \<Rightarrow> square storage option" where
  "mark_dirty s ls = foldM (\<lambda>s i. storage_modify s i (\<lambda>r. Some (r\<lparr>dirty := True\<rparr>))) s ls"

definition grid_template :: "grid \<Rightarrow> square" where
  "grid_template g = template (gcursor g)"

definition scroll_down :: "grid \<Rightarrow> int \<times> int \<Rightarrow> nat \<Rightarrow> grid option" where
  "scroll_down g region positions =
     (let (start, end) = region; n = int positions in
      if end - start \<le> n then on_raw g (reset_lines (grid_template g) (raw g) [start..end - 1])
      else do {
        s \<leftarrow>
          (if max_scroll_limit g = 0 then do {
             s \<leftarrow> foldM (\<lambda>s i. storage_swap s i (i - n)) (raw g) [end..int (g_lines g) - 1];
             s \<leftarrow> rotate_down s positions;
             s \<leftarrow> reset_lines (grid_template g) s [0..n - 1];
             foldM (\<lambda>s i. storage_swap s i (i + n)) s [0..start - 1]
           }
           else do {
             s \<leftarrow> foldM (\<lambda>s i. storage_swap s i (i - n)) (raw g) (rev [start + n..end - 1]);
             reset_lines (grid_template g) s (rev [start..start + n - 1])
           });
        on_raw g (mark_dirty s [start..end - 1])
      })"

definition scroll_up :: "grid \<Rightarrow> int \<times> int \<Rightarrow> nat \<Rightarrow> grid option" where
  "scroll_up g region positions =
     (let (start, end) = region; n = int positions in
      if end - start \<le> n \<and> start \<noteq> 0
      then on_raw g (reset_lines (grid_template g) (raw g) [start..end - 1])
      else do {
        let g = (if display_offset g \<noteq> 0
                 then g\<lparr>display_offset := min (display_offset g + positions) (max_scroll_limit g)\<rparr> else g);
        g \<leftarrow>
          (if start = 0 then do {
             g \<leftarrow> increase_scroll_limit g positions;
             s \<leftarrow> foldM (\<lambda>s i. storage_swap s i (i + n)) (raw g) (rev [0..start - 1]);
             s \<leftarrow> rotate s (- n);
             on_raw g (foldM (\<lambda>s i. storage_swap s i (i - n)) s (rev [end..int (g_lines g) - 1]))
           }
           else on_raw g (foldM (\<lambda>s i. storage_swap s i (i + n)) (raw g) [start..end - n - 1]));
        s \<leftarrow> reset_lines (grid_template g) (raw g) [end - n..end - 1];
        on_raw g (mark_dirty s [start..end - 1])
      })"

definition reset_region :: "grid \<Rightarrow> int \<times> int \<Rightarrow> grid option" where
  \<comment> \<open>the bounds are resolved to \<open>start..end\<close> by the callers' ranges\<close>
  "reset_region g region =
     (let (start, end) = region in do {
        check (start < int (g_lines g));
        check (end \<le> int (g_lines g));
        on_raw g (reset_lines (grid_template g) (raw g) [start..end - 1])
      })"

definition grid_reset :: "grid \<Rightarrow> grid option" where
  "grid_reset g = do {
     g \<leftarrow> clear_history g;
     let g = g\<lparr>saved_cursor := cursor_default 0, gcursor := cursor_default 0, display_offset := 0\<rparr>;
     on_raw g (reset_lines (grid_template g) (raw g) [topmost_line (grid_dims g)..int (g_lines g) - 1])
   }"

subsection \<open>Iterators\<close>

definition iter_prev :: "grid \<Rightarrow> pos \<Rightarrow> (pos \<times> square) option option" where
  \<comment> \<open>\<open>BidirectionalIterator::prev\<close>: \<open>None\<close> is a panic, \<open>Some None\<close> the end\<close>
  "iter_prev g current = do {
     lc \<leftarrow> last_column (grid_dims g);
     if current = Pos (topmost_line (grid_dims g)) 0 then Some None
     else do {
       let current = (if col current = 0 then Pos (row current - 1) lc else Pos (row current) (col current - 1));
       c \<leftarrow> grid_cell g current;
       Some (Some (current, c))
     }
   }"

definition iter_next :: "grid \<Rightarrow> pos \<Rightarrow> pos \<Rightarrow> (pos \<times> square) option option" where
  \<comment> \<open>\<open>Iterator::next\<close> of an iterator at \<open>current\<close> that ends at \<open>end_pos\<close>\<close>
  "iter_next g end_pos current =
     (if current \<ge> end_pos then Some None
      else do {
        lc \<leftarrow> last_column (grid_dims g);
        let current = (if col current = lc then Pos (row current + 1) 0 else Pos (row current) (col current + 1));
        c \<leftarrow> grid_cell g current;
        Some (Some (current, c))
      })"

definition iter_from_end :: "grid \<Rightarrow> pos option" where
  \<comment> \<open>the end of \<open>iter_from\<close>\<close>
  "iter_from_end g = map_option (Pos (bottommost_line (grid_dims g))) (last_column (grid_dims g))"

definition display_iter_start :: "grid \<Rightarrow> pos option" where
  "display_iter_start g = map_option (Pos (- int (display_offset g) - 1)) (last_column (grid_dims g))"

definition display_iter_end :: "grid \<Rightarrow> pos option" where
  "display_iter_end g = map_option
     (Pos (min (- int (display_offset g) - 1 + int (g_lines g)) (bottommost_line (grid_dims g))))
     (last_column (grid_dims g))"

partial_function (option) viewport_scan :: "grid \<Rightarrow> pos \<Rightarrow> pos option" where
  \<comment> \<open>the loop of \<open>clear_viewport\<close>; the result is \<open>iter.current\<close>\<close>
  "viewport_scan g current =
     Option.bind (iter_prev g current) (\<lambda>r.
       case r of
         None \<Rightarrow> Some current
       | Some (p, c) \<Rightarrow> if \<not> sq_is_empty c \<or> row p < 0 then Some p else viewport_scan g p)"

definition clear_viewport :: "grid \<Rightarrow> grid option" where
  "clear_viewport g = do {
     current \<leftarrow> viewport_scan g (Pos (int (g_lines g) - 1) (g_columns g));
     check (row current \<ge> -1);
     let positions = nat (row current + 1);
     g \<leftarrow> scroll_up g (0, int (g_lines g)) positions;
     rest \<leftarrow> usub (g_lines g) positions;
     on_raw g (reset_lines (grid_template g) (raw g) [0..int rest - 1])
   }"

subsection \<open>Styles\<close>

definition style_of :: "grid \<Rightarrow> square \<Rightarrow> style" where
  "style_of g c = style_get (g_style_set g) (sq_style_id c)"

definition set_template_style_id :: "grid \<Rightarrow> u16 \<Rightarrow> grid" where
  "set_template_style_id g i =
     g\<lparr>gcursor := (gcursor g)\<lparr>template := sq_set_style_id (template (gcursor g)) i\<rparr>\<rparr>"

definition set_template_style :: "grid \<Rightarrow> style \<Rightarrow> grid" where
  "set_template_style g st =
     (let (t, i) = style_intern (g_style_set g) st in set_template_style_id (g\<lparr>g_style_set := t\<rparr>) i)"

definition update_template_style :: "grid \<Rightarrow> (style \<Rightarrow> style) \<Rightarrow> grid" where
  "update_template_style g f = set_template_style g (f (style_of g (template (gcursor g))))"

definition blank_with_bg :: "grid \<Rightarrow> ansi_color \<Rightarrow> grid \<times> square" where
  "blank_with_bg g bg =
     (case bg of
        Named c \<Rightarrow>
          if c = Background then (g, 0)
          else if named_index c < 16 then (g, sq_set_bg_palette 0 (word_of_nat (named_index c)))
          else (let (t, i) = style_intern (g_style_set g) (style_default\<lparr>st_bg := bg\<rparr>) in
                (g\<lparr>g_style_set := t\<rparr>, sq_with_style_id 0 i))
      | Indexed i \<Rightarrow> (g, sq_set_bg_palette 0 i)
      | Spec rgb \<Rightarrow> (g, sq_set_bg_rgb 0 (rgb_r rgb) (rgb_g rgb) (rgb_b rgb)))"

end
