(* ===== verification/GridProps.thy ===== *)
theory GridProps
  imports Grid
begin

text \<open>
  Scrolling, clearing and the invariant of the grid: the ring buffer's swaps and rotations are
  shown to move the lines as a list of lines would.
\<close>

subsection \<open>The invariant\<close>

definition grid_wf :: "grid \<Rightarrow> bool" where
  "grid_wf g \<longleftrightarrow>
     storage_wf (g_columns g) (raw g) \<and> visible_lines (raw g) = g_lines g \<and>
     0 < g_lines g \<and> 0 < g_columns g \<and> grid_history g \<le> max_scroll_limit g \<and>
     style_inv (g_style_set g) \<and> extras_inv (g_extras g)"

definition grid_line :: "grid \<Rightarrow> int \<Rightarrow> square list" where
  \<comment> \<open>the cells of a line\<close>
  "grid_line g l = cells (row_at (raw g) l)"

definition has_line :: "grid \<Rightarrow> int \<Rightarrow> bool" where
  "has_line g l \<longleftrightarrow> - int (grid_history g) \<le> l \<and> l < int (g_lines g)"

definition blank_line :: "grid \<Rightarrow> square list" where
  \<comment> \<open>a line reset to the cursor's template\<close>
  "blank_line g = replicate (g_columns g) (sq_reset 0 (grid_template g))"

definition same_frame :: "grid \<Rightarrow> grid \<Rightarrow> bool" where
  \<comment> \<open>everything but the lines and the display offset\<close>
  "same_frame g h \<longleftrightarrow>
     gcursor h = gcursor g \<and> saved_cursor h = saved_cursor g \<and> g_columns h = g_columns g \<and>
     g_lines h = g_lines g \<and> max_scroll_limit h = max_scroll_limit g \<and> g_style_set h = g_style_set g \<and>
     g_extras h = g_extras g"

lemma same_frame_refl [simp]: "same_frame g g"
  by (simp add: same_frame_def)

lemma same_frame_trans: "same_frame f g \<Longrightarrow> same_frame g h \<Longrightarrow> same_frame f h"
  by (simp add: same_frame_def)

lemma same_frame_blank: "same_frame g h \<Longrightarrow> blank_line h = blank_line g \<and> grid_template h = grid_template g"
  by (simp add: same_frame_def blank_line_def grid_template_def)

lemma grid_history_raw: "grid_history g = st_len (raw g) - g_lines g"
  by (simp add: grid_history_def grid_dims_def history_size_def)

lemma has_line_in_store:
  assumes "grid_wf g"
  shows "in_store (raw g) l \<longleftrightarrow> has_line g l"
proof -
  have "g_lines g \<le> st_len (raw g)" "visible_lines (raw g) = g_lines g"
    using assms by (auto simp: grid_wf_def storage_wf_def)
  then show ?thesis by (auto simp: in_store_def has_line_def grid_history_raw)
qed

lemma dims_ok_grid: "grid_wf g \<Longrightarrow> dims_ok (grid_dims g)"
  by (auto simp: grid_wf_def dims_ok_def grid_dims_def storage_wf_def)

lemma grid_new_ok:
  assumes "0 < lines" "0 < cols"
  shows "\<exists>g. grid_new lines cols limit = Some g \<and> grid_wf g \<and> grid_history g = 0 \<and>
    g_lines g = lines \<and> g_columns g = cols \<and> max_scroll_limit g = limit \<and> display_offset g = 0 \<and>
    gcursor g = cursor_default 0 \<and> saved_cursor g = cursor_default 0 \<and>
    (\<forall>l. has_line g l \<longrightarrow> grid_line g l = replicate cols 0)"
proof -
  let ?r = "\<lparr>cells = replicate cols (0 :: square), occ = 0, kitty_virtual_placeholder = False, dirty = True\<rparr>"
  let ?s = "\<lparr>inner = replicate lines ?r, zero = 0, visible_lines = lines, st_len = lines\<rparr>"
  let ?g = "\<lparr>gcursor = cursor_default 0, saved_cursor = cursor_default 0, raw = ?s, g_columns = cols,
           g_lines = lines, display_offset = 0, max_scroll_limit = limit,
           g_style_set = style_set_new, g_extras = extras_table_new\<rparr>"
  have e: "grid_new lines cols limit = Some ?g"
    using assms by (simp add: grid_new_def storage_with_capacity_def replicate_rows_def row_new_def check_def)
  have wf: "grid_wf ?g"
    using assms by (simp add: grid_wf_def storage_wf_def grid_history_raw style_inv_new extras_inv_new)
  have "grid_line ?g l = replicate cols 0" if "has_line ?g l" for l
  proof -
    have "pos_of ?s l < lines" using that by (auto simp: has_line_def grid_history_raw pos_of_def)
    then show ?thesis by (simp add: grid_line_def row_at_def ring_nth)
  qed
  with e wf show ?thesis by (auto simp: grid_history_raw)
qed

subsection \<open>Resetting and marking lines\<close>

definition reset_row :: "square \<Rightarrow> square grid_row \<Rightarrow> square grid_row" where
  "reset_row t r = r\<lparr>cells := map (\<lambda>c. sq_reset c t) (cells r), occ := 0,
     kitty_virtual_placeholder := False, dirty := True\<rparr>"

lemma cells_reset_row: "cells (reset_row t r) = replicate (length (cells r)) (sq_reset 0 t)"
proof -
  have "map (\<lambda>c. sq_reset c t) (cells r) = map (\<lambda>c. sq_reset 0 t) (cells r)"
    by (rule map_cong) (simp_all add: sq_reset_def)
  then show ?thesis by (simp add: reset_row_def map_replicate_const)
qed

lemma reset_lines_ok:
  assumes "storage_wf w s" "0 < w" "distinct ls" "\<And>l. l \<in> set ls \<Longrightarrow> in_store s l"
  shows "wp (reset_lines t s ls) (\<lambda>u. storage_wf w u \<and> storage_shape u = storage_shape s \<and>
    (\<forall>l. in_store s l \<longrightarrow> row_at u l = (if l \<in> set ls then reset_row t (row_at s l) else row_at s l)))"
proof -
  have "row_reset sq_reset t r = Some (reset_row t r) \<and> length (cells (reset_row t r)) = w"
    if "length (cells r) = w" for r
    using that assms(2) by (auto simp: row_reset_def reset_row_def check_def)
  then show ?thesis
    unfolding reset_lines_def
    using store.modify_lines [OF assms(1,3), of "row_reset sq_reset t" "reset_row t"] assms(4)
    by (simp add: shape_line_in_store)
qed

lemma mark_dirty_ok:
  assumes "storage_wf w s" "distinct ls" "\<And>l. l \<in> set ls \<Longrightarrow> in_store s l"
  shows "wp (mark_dirty s ls) (\<lambda>u. storage_wf w u \<and> storage_shape u = storage_shape s \<and>
    (\<forall>l. in_store s l \<longrightarrow> cells (row_at u l) = cells (row_at s l)))"
  unfolding mark_dirty_def
  using store.modify_lines [OF assms(1,2), of "\<lambda>r. Some (r\<lparr>dirty := True\<rparr>)" "\<lambda>r. r\<lparr>dirty := True\<rparr>"] assms(3)
  by (auto simp: shape_line_in_store elim!: wp_mono)

lemma shape_in_store: "storage_shape u = storage_shape s \<Longrightarrow> in_store u = in_store s"
  by (auto simp: storage_shape_def in_store_def fun_eq_iff)

definition store_line :: "'a storage \<Rightarrow> int \<Rightarrow> 'a list" where
  "store_line s l = cells (row_at s l)"

definition moved :: "nat \<Rightarrow> 'a storage \<Rightarrow> (int \<Rightarrow> 'a list) \<Rightarrow> 'a storage \<Rightarrow> bool" where
  \<comment> \<open>the new buffer has the old one's shape, and its lines are those of \<open>f\<close>\<close>
  "moved w s f u \<longleftrightarrow> storage_wf w u \<and> storage_shape u = storage_shape s \<and>
     (\<forall>l. in_store s l \<longrightarrow> store_line u l = f l)"

lemma reset_lines_moved:
  assumes "storage_wf w s" "0 < w" "distinct ls" "\<And>l. l \<in> set ls \<Longrightarrow> in_store s l"
  shows "wp (reset_lines t s ls)
    (moved w s (\<lambda>l. if l \<in> set ls then replicate w (sq_reset 0 t) else store_line s l))"
  by (rule wp_mono [OF reset_lines_ok [OF assms]])
    (auto simp: moved_def store_line_def cells_reset_row row_at_width [OF assms(1)] split: if_splits)

lemma mark_dirty_moved:
  assumes "storage_wf w s" "distinct ls" "\<And>l. l \<in> set ls \<Longrightarrow> in_store s l"
  shows "wp (mark_dirty s ls) (moved w s (store_line s))"
  by (rule wp_mono [OF mark_dirty_ok [OF assms]]) (auto simp: moved_def store_line_def)

lemma moved_trans:
  "moved w s f u \<Longrightarrow> moved w u h v \<Longrightarrow> (\<And>l. in_store s l \<Longrightarrow> h l = k l) \<Longrightarrow> moved w s k v"
  unfolding moved_def shape_line_in_store [symmetric] by simp

text \<open>A region of lines moves by \<open>n\<close> and the lines it leaves are reset.\<close>

lemma region_up:
  assumes wf: "storage_wf w s" "0 < w" and b: "0 \<le> n" "a + n \<le> b"
    and ls: "\<And>l. a \<le> l \<Longrightarrow> l < b \<Longrightarrow> in_store s l"
  shows "wp (do { s \<leftarrow> foldM (\<lambda>s i. storage_swap s i (i + n)) s [a..b - n - 1];
                  reset_lines t s [b - n..b - 1] })
    (moved w s (\<lambda>l. if a \<le> l \<and> l < b - n then store_line s (l + n)
                    else if b - n \<le> l \<and> l < b then replicate w (sq_reset 0 t) else store_line s l))"
    (is "wp _ (moved w s ?f)")
  unfolding wp_bind
proof (rule wp_mono [OF storage_swap_up_lines [OF wf(1) b(1)]])
  show "in_store s l" if "a \<le> l" "l < b - n + n" for l using that ls by simp
  show "a \<le> b - n" using b by simp
  fix u assume u: "storage_wf w u \<and> storage_shape u = storage_shape s \<and>
      (\<forall>l. a \<le> l \<longrightarrow> l < b - n \<longrightarrow> row_at u l = row_at s (l + n)) \<and>
      (\<forall>l. in_store s l \<longrightarrow> l < a \<or> b - n + n \<le> l \<longrightarrow> row_at u l = row_at s l)"
  then have st: "in_store u = in_store s" by (intro shape_in_store) simp
  have "wp (reset_lines t u [b - n..b - 1])
      (moved w u (\<lambda>l. if l \<in> set [b - n..b - 1] then replicate w (sq_reset 0 t) else store_line u l))"
    by (rule reset_lines_moved) (use u wf(2) ls b st in auto)
  then show "wp (reset_lines t u [b - n..b - 1]) (moved w s ?f)"
  proof (rule wp_mono)
    fix v assume v: "moved w u (\<lambda>l. if l \<in> set [b - n..b - 1] then replicate w (sq_reset 0 t) else store_line u l) v"
    have "store_line v l = ?f l" if "in_store s l" for l
    proof -
      have "store_line v l = (if l \<in> set [b - n..b - 1] then replicate w (sq_reset 0 t) else store_line u l)"
        using v that st by (simp add: moved_def)
      moreover have "store_line u l = store_line s (l + n)" if "a \<le> l" "l < b - n"
        using u that by (simp add: store_line_def)
      moreover have "store_line u l = store_line s l" if "l < a \<or> b \<le> l"
        using u that \<open>in_store s l\<close> by (auto simp: store_line_def)
      ultimately show ?thesis by auto
    qed
    then show "moved w s ?f v" using u v by (simp add: moved_def)
  qed
qed simp

lemma region_down:
  assumes wf: "storage_wf w s" "0 < w" and b: "0 \<le> n" "a + n \<le> b"
    and ls: "\<And>l. a \<le> l \<Longrightarrow> l < b \<Longrightarrow> in_store s l"
  shows "wp (do { s \<leftarrow> foldM (\<lambda>s i. storage_swap s i (i - n)) s (rev [a + n..b - 1]);
                  reset_lines t s (rev [a..a + n - 1]) })
    (moved w s (\<lambda>l. if a + n \<le> l \<and> l < b then store_line s (l - n)
                    else if a \<le> l \<and> l < a + n then replicate w (sq_reset 0 t) else store_line s l))"
    (is "wp _ (moved w s ?f)")
  unfolding wp_bind
proof (rule wp_mono [OF storage_swap_down [OF wf(1) b(1)]])
  show "in_store s l" if "a + n - n \<le> l" "l < b" for l using that ls by simp
  show "a + n \<le> b" using b by simp
  fix u assume u: "storage_wf w u \<and> storage_shape u = storage_shape s \<and>
      (\<forall>l. a + n \<le> l \<longrightarrow> l < b \<longrightarrow> row_at u l = row_at s (l - n)) \<and>
      (\<forall>l. in_store s l \<longrightarrow> l < a + n - n \<or> b \<le> l \<longrightarrow> row_at u l = row_at s l)"
  then have st: "in_store u = in_store s" by (intro shape_in_store) simp
  let ?ls = "rev [a..a + n - 1]"
  have "wp (reset_lines t u ?ls)
      (moved w u (\<lambda>l. if l \<in> set ?ls then replicate w (sq_reset 0 t) else store_line u l))"
    by (rule reset_lines_moved) (use u wf(2) ls b st in auto)
  then show "wp (reset_lines t u ?ls) (moved w s ?f)"
  proof (rule wp_mono)
    fix v assume v: "moved w u (\<lambda>l. if l \<in> set ?ls then replicate w (sq_reset 0 t) else store_line u l) v"
    have "store_line v l = ?f l" if "in_store s l" for l
    proof -
      have "store_line v l = (if l \<in> set ?ls then replicate w (sq_reset 0 t) else store_line u l)"
        using v that st by (simp add: moved_def)
      moreover have "store_line u l = store_line s (l - n)" if "a + n \<le> l" "l < b"
        using u that by (simp add: store_line_def)
      moreover have "store_line u l = store_line s l" if "l < a \<or> b \<le> l"
        using u that \<open>in_store s l\<close> by (auto simp: store_line_def)
      ultimately show ?thesis by auto
    qed
    then show "moved w s ?f v" using u v by (simp add: moved_def)
  qed
qed

subsection \<open>Scrolling through the history\<close>

lemma rotate_lines:
  assumes "storage_wf w s" "n \<le> visible_lines s"
    and s1: "storage_wf w s1" "st_len s1 = st_len s + c" "visible_lines s1 = visible_lines s"
      "take (st_len s) (ring s1) = ring s" "c \<le> n"
  shows "wp (rotate s1 (- int n)) (\<lambda>u. storage_wf w u \<and> storage_shape u = storage_shape s1 \<and>
    (\<forall>l. in_store s1 l \<longrightarrow> l < int (visible_lines s) - int n \<longrightarrow> row_at u l = row_at s (l + int n)))"
proof -
  have "n \<le> length (inner s1)" using s1(1,3) assms(2) by (auto simp: storage_wf_def)
  from rotate_ok [OF s1(1) this] obtain u where u: "rotate s1 (- int n) = Some u" "storage_wf w u"
    "st_len u = st_len s1" "visible_lines u = visible_lines s1"
    "\<forall>k. n \<le> k \<and> k < st_len s1 \<longrightarrow> ring u ! k = ring s1 ! (k - n)" by blast
  have "row_at u l = row_at s (l + int n)" if "in_store s1 l" "l < int (visible_lines s) - int n" for l
  proof -
    have k: "n \<le> pos_of s1 l" "pos_of s1 l < st_len s1" "pos_of s1 l - n = pos_of s (l + int n)"
      "pos_of s1 l - n < st_len s"
      using that pos_of_less [OF that(1)] s1(2,3,5) by (auto simp: pos_of_def)
    then have "ring u ! pos_of s1 l = take (st_len s) (ring s1) ! (pos_of s1 l - n)" using u(5) by simp
    also have "\<dots> = ring s ! pos_of s (l + int n)" by (simp add: s1(4) k(3))
    finally show ?thesis using u(4) by (simp add: row_at_def pos_of_def)
  qed
  with u show ?thesis by (auto simp: wp_Some storage_shape_def)
qed

lemma history_up:
  assumes wf: "storage_wf w s" "0 < w" and e: "n \<le> e" "e \<le> visible_lines s"
    and s1: "storage_wf w s1" "st_len s1 = st_len s + c" "visible_lines s1 = visible_lines s"
      "take (st_len s) (ring s1) = ring s" "c \<le> n"
  shows "wp (do { s \<leftarrow> rotate s1 (- int n);
                  s \<leftarrow> foldM (\<lambda>s i. storage_swap s i (i - int n)) s (rev [int e..int (visible_lines s1) - 1]);
                  reset_lines t s [int e - int n..int e - 1] })
    (moved w s1 (\<lambda>l. if l < int e - int n then store_line s (l + int n)
                     else if l < int e then replicate w (sq_reset 0 t) else store_line s l))"
    (is "wp _ (moved w s1 ?f)")
  unfolding wp_bind
proof (rule wp_mono [OF rotate_lines [OF wf(1) _ s1]])
  let ?V = "int (visible_lines s1)"
  show "n \<le> visible_lines s" using e by simp
  fix u assume u: "storage_wf w u \<and> storage_shape u = storage_shape s1 \<and>
    (\<forall>l. in_store s1 l \<longrightarrow> l < int (visible_lines s) - int n \<longrightarrow> row_at u l = row_at s (l + int n))"
  then have stu: "in_store u = in_store s1" by (intro shape_in_store) simp
  have lines: "in_store s1 l" if "0 \<le> l" "l < ?V" for l
    using that s1(1) by (auto simp: in_store_def storage_wf_def)
  show "wp (foldM (\<lambda>s i. storage_swap s i (i - int n)) u (rev [int e..?V - 1]))
      (\<lambda>x. wp (reset_lines t x [int e - int n..int e - 1]) (moved w s1 ?f))"
  proof (rule wp_mono [OF storage_swap_down [of w]])
    show "storage_wf w u" "0 \<le> int n" "int e \<le> ?V" using u e s1(3) by simp_all
    show "in_store u l" if "int e - int n \<le> l" "l < ?V" for l
      unfolding stu using that e by (intro lines) auto
    fix v assume v: "storage_wf w v \<and> storage_shape v = storage_shape u \<and>
      (\<forall>l. int e \<le> l \<longrightarrow> l < ?V \<longrightarrow> row_at v l = row_at u (l - int n)) \<and>
      (\<forall>l. in_store u l \<longrightarrow> l < int e - int n \<or> ?V \<le> l \<longrightarrow> row_at v l = row_at u l)"
    then have stv: "in_store v = in_store s1" using stu shape_in_store [of v u] by simp
    let ?ls = "[int e - int n..int e - 1]"
    have "wp (reset_lines t v ?ls)
      (moved w v (\<lambda>l. if l \<in> set ?ls then replicate w (sq_reset 0 t) else store_line v l))"
    proof (rule reset_lines_moved)
      show "in_store v l" if "l \<in> set ?ls" for l
        unfolding stv using that e s1(3) by (intro lines) auto
    qed (use v wf in simp_all)
    then show "wp (reset_lines t v ?ls) (moved w s1 ?f)"
    proof (rule wp_mono)
      fix x assume x: "moved w v (\<lambda>l. if l \<in> set ?ls then replicate w (sq_reset 0 t) else store_line v l) x"
      have "store_line x l = ?f l" if l: "in_store s1 l" for l
      proof -
        have below: "l < ?V" using l by (simp add: in_store_def)
        have 1: "store_line x l = (if l \<in> set ?ls then replicate w (sq_reset 0 t) else store_line v l)"
          using x l stv by (simp add: moved_def)
        have 2: "store_line v l = store_line s (l + int n)" if "l < int e - int n"
          using u v that l stu e s1(3) by (simp add: store_line_def)
        have 3: "store_line v l = store_line s l" if "int e \<le> l"
        proof -
          have "in_store s1 (l - int n)" using that e below by (intro lines) auto
          with u v that below e s1(3) show ?thesis by (simp add: store_line_def)
        qed
        from 1 2 3 show ?thesis by auto
      qed
      then show "moved w s1 ?f x" using u v x by (simp add: moved_def)
    qed
  qed
qed

subsection \<open>Scrolling the grid\<close>

definition offset_after :: "grid \<Rightarrow> nat \<Rightarrow> nat" where
  "offset_after g n =
     (if display_offset g = 0 then 0 else min (display_offset g + n) (max_scroll_limit g))"

definition grid_moved :: "grid \<Rightarrow> nat \<Rightarrow> (int \<Rightarrow> square list) \<Rightarrow> grid \<Rightarrow> bool" where
  \<comment> \<open>the new grid is well formed, has \<open>k\<close> lines of history and the lines of \<open>f\<close>\<close>
  "grid_moved g k f h \<longleftrightarrow> grid_wf h \<and> same_frame g h \<and> grid_history h = k \<and>
     (\<forall>l. has_line h l \<longrightarrow> grid_line h l = f l)"

lemma moved_grid:
  assumes "grid_wf g" "moved (g_columns g) (raw g) f u"
  shows "grid_moved g (grid_history g) f (g\<lparr>display_offset := d, raw := u\<rparr>)"
    and "grid_moved g (grid_history g) f (g\<lparr>raw := u\<rparr>)"
proof -
  from assms have sh: "visible_lines u = visible_lines (raw g)" "st_len u = st_len (raw g)"
    "in_store u = in_store (raw g)"
    by (auto simp: moved_def storage_shape_def intro!: shape_in_store)
  have key: "grid_moved g (grid_history g) f h"
    if "raw h = u" "same_frame g h" for h
  proof -
    from that assms sh have wf: "grid_wf h"
      by (auto simp: grid_wf_def moved_def same_frame_def grid_history_raw)
    have "grid_history h = grid_history g" using that sh by (simp add: grid_history_raw same_frame_def)
    with wf assms that sh has_line_in_store [OF wf] show ?thesis
      by (auto simp: grid_moved_def moved_def grid_line_def store_line_def)
  qed
  show "grid_moved g (grid_history g) f (g\<lparr>display_offset := d, raw := u\<rparr>)"
    "grid_moved g (grid_history g) f (g\<lparr>raw := u\<rparr>)"
    by (rule key; simp add: same_frame_def)+
qed

lemma screen_lines_in_store:
  "grid_wf g \<Longrightarrow> 0 \<le> l \<Longrightarrow> l < int (g_lines g) \<Longrightarrow> in_store (raw g) l"
  by (simp add: has_line_in_store has_line_def)

lemma grid_reset_lines:
  assumes "grid_wf g" "distinct ls" "\<And>l. l \<in> set ls \<Longrightarrow> has_line g l"
  shows "wp (on_raw g (reset_lines (grid_template g) (raw g) ls))
    (\<lambda>h. grid_moved g (grid_history g) (\<lambda>l. if l \<in> set ls then blank_line g else grid_line g l) h \<and>
         display_offset h = display_offset g)"
proof -
  have "wp (reset_lines (grid_template g) (raw g) ls) (moved (g_columns g) (raw g)
      (\<lambda>l. if l \<in> set ls then replicate (g_columns g) (sq_reset 0 (grid_template g)) else store_line (raw g) l))"
    using assms by (intro reset_lines_moved) (auto simp: grid_wf_def has_line_in_store)
  then show ?thesis
    unfolding on_raw_def wp_map_option
  proof (rule wp_mono)
    fix u assume "moved (g_columns g) (raw g)
      (\<lambda>l. if l \<in> set ls then replicate (g_columns g) (sq_reset 0 (grid_template g)) else store_line (raw g) l) u"
    from moved_grid(2) [OF assms(1) this]
    show "grid_moved g (grid_history g) (\<lambda>l. if l \<in> set ls then blank_line g else grid_line g l) (g\<lparr>raw := u\<rparr>) \<and>
      display_offset (g\<lparr>raw := u\<rparr>) = display_offset g"
      unfolding blank_line_def store_line_def grid_line_def by simp
  qed
qed

lemma grid_mark_dirty:
  assumes "grid_wf g" "\<And>l. l \<in> set ls \<Longrightarrow> in_store (raw g) l" "distinct ls"
    and "moved (g_columns g) (raw g) f u"
  shows "wp (mark_dirty u ls) (moved (g_columns g) (raw g) f)"
proof -
  have st: "in_store u = in_store (raw g)" using assms(4) by (auto simp: moved_def intro: shape_in_store)
  have "wp (mark_dirty u ls) (moved (g_columns g) u (store_line u))"
    using assms st by (intro mark_dirty_moved) (auto simp: moved_def)
  then show ?thesis
    by (rule wp_mono) (rule moved_trans [OF assms(4)], use assms(4) st in \<open>simp_all add: moved_def\<close>)
qed

text \<open>A region that starts below the first line: no history is made.\<close>

lemma display_offset_after:
  "(if display_offset g \<noteq> 0
    then g\<lparr>display_offset := min (display_offset g + n) (max_scroll_limit g)\<rparr> else g) =
   g\<lparr>display_offset := offset_after g n\<rparr>"
  by (simp add: offset_after_def)

lemma scroll_up_region:
  assumes wf: "grid_wf g" and r: "0 < a" "a < b" "b \<le> int (g_lines g)"
  shows "wp (scroll_up g (a, b) n)
    (\<lambda>h. grid_moved g (grid_history g)
           (\<lambda>l. if a \<le> l \<and> l < b - int n then grid_line g (l + int n)
                else if a \<le> l \<and> l < b then blank_line g else grid_line g l) h \<and>
         display_offset h = (if int n < b - a then offset_after g n else display_offset g))"
    (is "wp _ ?P")
proof (cases "b - a \<le> int n")
  case True
  have "wp (on_raw g (reset_lines (grid_template g) (raw g) [a..b - 1]))
    (\<lambda>h. grid_moved g (grid_history g) (\<lambda>l. if l \<in> set [a..b - 1] then blank_line g else grid_line g l) h \<and>
         display_offset h = display_offset g)"
    using r by (intro grid_reset_lines [OF wf]) (auto simp: has_line_def)
  moreover have "scroll_up g (a, b) n = on_raw g (reset_lines (grid_template g) (raw g) [a..b - 1])"
    using True r by (simp add: scroll_up_def)
  ultimately show ?thesis
    using True by (auto elim!: wp_mono simp: grid_moved_def)
next
  case False
  let ?g = "g\<lparr>display_offset := offset_after g n\<rparr>"
  let ?t = "grid_template g"
  let ?f = "\<lambda>l. if a \<le> l \<and> l < b - int n then store_line (raw g) (l + int n)
    else if b - int n \<le> l \<and> l < b then replicate (g_columns g) (sq_reset 0 ?t) else store_line (raw g) l"
  have st: "in_store (raw g) l" if "a \<le> l" "l < b" for l
    using that r by (intro screen_lines_in_store [OF wf]) auto
  have "wp (do { s \<leftarrow> foldM (\<lambda>s i. storage_swap s i (i + int n)) (raw g) [a..b - int n - 1];
                  reset_lines ?t s [b - int n..b - 1] }) (moved (g_columns g) (raw g) ?f)"
    using wf False by (intro region_up st) (auto simp: grid_wf_def)
  moreover have "wp (mark_dirty u [a..b - 1]) (\<lambda>v. ?P (g\<lparr>display_offset := offset_after g n, raw := v\<rparr>))"
    if u: "moved (g_columns g) (raw g) ?f u" for u
  proof -
    have "wp (mark_dirty u [a..b - 1]) (moved (g_columns g) (raw g) ?f)"
      by (rule grid_mark_dirty [OF wf _ _ u]) (use st in auto)
    then show ?thesis
    proof (rule wp_mono)
      fix v assume "moved (g_columns g) (raw g) ?f v"
      from moved_grid(1) [OF wf this, of "offset_after g n"] False
      show "?P (g\<lparr>display_offset := offset_after g n, raw := v\<rparr>)"
        unfolding blank_line_def store_line_def grid_line_def grid_moved_def by auto
    qed
  qed
  ultimately have core: "wp (do { s \<leftarrow> foldM (\<lambda>s i. storage_swap s i (i + int n)) (raw g) [a..b - int n - 1];
      s \<leftarrow> reset_lines ?t s [b - int n..b - 1]; mark_dirty s [a..b - 1] })
    (\<lambda>v. ?P (g\<lparr>display_offset := offset_after g n, raw := v\<rparr>))"
    unfolding wp_bind by (elim wp_mono) blast
  have "?thesis \<longleftrightarrow> wp (do { s \<leftarrow> foldM (\<lambda>s i. storage_swap s i (i + int n)) (raw g) [a..b - int n - 1];
      s \<leftarrow> reset_lines ?t s [b - int n..b - 1]; mark_dirty s [a..b - 1] })
    (\<lambda>v. ?P (g\<lparr>display_offset := offset_after g n, raw := v\<rparr>))"
    using False r unfolding scroll_up_def Let_def prod.case display_offset_after
    by (simp add: on_raw_def wp_simps grid_template_def)
  with core show ?thesis by blast
qed

text \<open>A region that starts at the first line: the lines that leave it become history, up to the
  limit, and the fixed lines below it stay where they are.\<close>

lemma increase_scroll_limit_ok:
  assumes "grid_wf g"
  shows "\<exists>s. increase_scroll_limit g n = Some (g\<lparr>raw := s\<rparr>) \<and> storage_wf (g_columns g) s \<and>
    st_len s = st_len (raw g) + min n (max_scroll_limit g - grid_history g) \<and>
    visible_lines s = visible_lines (raw g) \<and> take (st_len (raw g)) (ring s) = ring (raw g)"
proof -
  let ?c = "min n (max_scroll_limit g - grid_history g)"
  have wf: "storage_wf (g_columns g) (raw g)" "0 < g_columns g" "grid_history g \<le> max_scroll_limit g"
    using assms by (auto simp: grid_wf_def)
  show ?thesis
  proof (cases "?c = 0")
    case True
    then have "n = 0 \<or> max_scroll_limit g = grid_history g" using wf(3) by (auto simp: min_def split: if_splits)
    then have "increase_scroll_limit g n = Some (g\<lparr>raw := raw g\<rparr>)"
      using wf(3) by (auto simp: increase_scroll_limit_def usub_def Let_def)
    with True wf show ?thesis by (intro exI [of _ "raw g"]) simp
  next
    case False
    from initialize_ok [OF wf(1,2), of 0 ?c] False wf(3) show ?thesis
      by (auto simp: increase_scroll_limit_def usub_def Let_def on_raw_def)
  qed
qed

lemma scroll_up_top:
  assumes wf: "grid_wf g" and e: "n \<le> e" "e \<le> g_lines g"
  shows "wp (scroll_up g (0, int e) n)
    (\<lambda>h. grid_moved g (min (grid_history g + n) (max_scroll_limit g))
           (\<lambda>l. if l < int e - int n then grid_line g (l + int n)
                else if l < int e then blank_line g else grid_line g l) h \<and>
         display_offset h = offset_after g n)"
    (is "wp _ ?P")
proof -
  let ?g = "g\<lparr>display_offset := offset_after g n\<rparr>"
  let ?t = "grid_template g" and ?w = "g_columns g" and ?V = "int (g_lines g)"
  let ?f = "\<lambda>l. if l < int e - int n then store_line (raw g) (l + int n)
    else if l < int e then replicate ?w (sq_reset 0 ?t) else store_line (raw g) l"
  have sf: "grid_wf ?g" "grid_history ?g = grid_history g"
    using wf by (simp_all add: grid_wf_def grid_history_raw)
  obtain s where s: "increase_scroll_limit ?g n = Some (?g\<lparr>raw := s\<rparr>)" "storage_wf ?w s"
    "st_len s = st_len (raw g) + min n (max_scroll_limit g - grid_history g)"
    "visible_lines s = visible_lines (raw g)" "take (st_len (raw g)) (ring s) = ring (raw g)"
    using increase_scroll_limit_ok [OF sf(1), of n] sf(2) by auto
  have vis: "visible_lines (raw g) = g_lines g" and w: "storage_wf ?w (raw g)" "0 < ?w"
    "g_lines g \<le> st_len (raw g)" "grid_history g \<le> max_scroll_limit g"
    using wf by (auto simp: grid_wf_def storage_wf_def)
  have up: "wp (do { u \<leftarrow> rotate s (- int n);
                 u \<leftarrow> foldM (\<lambda>s i. storage_swap s i (i - int n)) u (rev [int e..?V - 1]);
                 reset_lines ?t u [int e - int n..int e - 1] }) (moved ?w s ?f)"
    using history_up [OF w(1,2) e(1) _ s(2,3,4,5), of ?t] e(2) vis s(4) by simp
  have "wp (mark_dirty u [0..int e - 1]) (\<lambda>v. ?P (g\<lparr>display_offset := offset_after g n, raw := v\<rparr>))"
    if u: "moved ?w s ?f u" for u
  proof -
    have st: "in_store s l" if "0 \<le> l" "l < ?V" for l
      using that w(3) s(3,4) vis by (simp add: in_store_def)
    have stu: "in_store u = in_store s" using u by (auto simp: moved_def intro: shape_in_store)
    have "wp (mark_dirty u [0..int e - 1]) (moved ?w u (store_line u))"
      using u e(2) by (intro mark_dirty_moved) (auto simp: moved_def stu intro!: st)
    then show ?thesis
    proof (rule wp_mono)
      fix v assume v: "moved ?w u (store_line u) v"
      let ?h = "g\<lparr>display_offset := offset_after g n, raw := v\<rparr>"
      have "moved ?w s ?f v"
        by (rule moved_trans [OF u v]) (use u stu in \<open>auto simp: moved_def\<close>)
      then have m: "storage_wf ?w v" "visible_lines v = g_lines g"
        "st_len v = st_len (raw g) + min n (max_scroll_limit g - grid_history g)"
        "\<And>l. in_store s l \<Longrightarrow> store_line v l = ?f l"
        using s(3,4) vis by (auto simp: moved_def storage_shape_def)
      have hist: "grid_history ?h = min (grid_history g + n) (max_scroll_limit g)"
        using m(3) w(3,4) by (simp add: grid_history_raw)
      then have wfh: "grid_wf ?h" using m wf by (simp add: grid_wf_def)
      have "grid_line ?h l = (if l < int e - int n then grid_line g (l + int n)
          else if l < int e then blank_line g else grid_line g l)" if "has_line ?h l" for l
      proof -
        have "in_store v l" using that has_line_in_store [OF wfh] by simp
        then have "in_store s l" using m(2,3) s(3,4) vis by (simp add: in_store_def)
        from m(4) [OF this] show ?thesis
          unfolding grid_line_def store_line_def blank_line_def by simp
      qed
      with wfh hist show "?P ?h" by (simp add: grid_moved_def same_frame_def)
    qed
  qed
  with up have core: "wp (do { u \<leftarrow> rotate s (- int n);
                 u \<leftarrow> foldM (\<lambda>s i. storage_swap s i (i - int n)) u (rev [int e..?V - 1]);
                 u \<leftarrow> reset_lines ?t u [int e - int n..int e - 1];
                 mark_dirty u [0..int e - 1] })
      (\<lambda>v. ?P (g\<lparr>display_offset := offset_after g n, raw := v\<rparr>))"
    unfolding wp_bind by (elim wp_mono) blast
  have "?thesis \<longleftrightarrow> wp (do { u \<leftarrow> rotate s (- int n);
                 u \<leftarrow> foldM (\<lambda>s i. storage_swap s i (i - int n)) u (rev [int e..?V - 1]);
                 u \<leftarrow> reset_lines ?t u [int e - int n..int e - 1];
                 mark_dirty u [0..int e - 1] })
      (\<lambda>v. ?P (g\<lparr>display_offset := offset_after g n, raw := v\<rparr>))"
    unfolding scroll_up_def Let_def prod.case display_offset_after
    by (simp add: on_raw_def wp_simps grid_template_def s(1))
  with core show ?thesis by blast
qed

subsection \<open>Scrolling down\<close>

lemma map_upto_shift: "map (\<lambda>i. i + n) [a..b] = [a + n..b + n]"
  by (rule nth_equalityI) auto

lemma foldM_map: "foldM f s (map g xs) = foldM (\<lambda>s x. f s (g x)) s xs"
  by (induction xs arbitrary: s) (auto split: option.split)

lemma whole_down:
  assumes wf: "storage_wf w s" "0 < w" "st_len s = visible_lines s"
    and r: "0 \<le> a" "a + int n \<le> e" "e \<le> int (visible_lines s)"
  shows "wp (do { s \<leftarrow> foldM (\<lambda>s i. storage_swap s i (i - int n)) s [e..int (visible_lines s) - 1];
                  s \<leftarrow> rotate_down s n;
                  s \<leftarrow> reset_lines t s [0..int n - 1];
                  foldM (\<lambda>s i. storage_swap s i (i + int n)) s [0..a - 1] })
    (moved w s (\<lambda>l. if a + int n \<le> l \<and> l < e then store_line s (l - int n)
                    else if a \<le> l \<and> l < a + int n then replicate w (sq_reset 0 t) else store_line s l))"
    (is "wp _ (moved w s ?f)")
proof -
  let ?V = "int (visible_lines s)" and ?n = "int n"
  have st: "in_store s l \<longleftrightarrow> 0 \<le> l \<and> l < ?V" for l using wf(3) by (auto simp: in_store_def)
  have "wp (foldM (\<lambda>s i. storage_swap s (i + ?n) (i + ?n - ?n)) s [e - ?n..?V - ?n - 1])
    (\<lambda>u. storage_wf w u \<and> storage_shape u = storage_shape s \<and>
    (\<forall>l. e - ?n \<le> l \<longrightarrow> l < ?V - ?n \<longrightarrow> row_at u l = row_at s (l + ?n)) \<and>
    (\<forall>l. in_store s l \<longrightarrow> l < e - ?n \<or> ?V - ?n + ?n \<le> l \<longrightarrow> row_at u l = row_at s l))"
    by (rule storage_swap_up_lines [OF wf(1)]) (use r st in auto)
  moreover have "[e..?V - 1] = map (\<lambda>i. i + ?n) [e - ?n..?V - ?n - 1]" by (simp add: map_upto_shift)
  ultimately have one: "wp (foldM (\<lambda>s i. storage_swap s i (i - ?n)) s [e..?V - 1])
    (\<lambda>u. storage_wf w u \<and> storage_shape u = storage_shape s \<and>
    (\<forall>l. e - ?n \<le> l \<longrightarrow> l < ?V - ?n \<longrightarrow> row_at u l = row_at s (l + ?n)) \<and>
    (\<forall>l. in_store s l \<longrightarrow> l < e - ?n \<or> ?V - ?n + ?n \<le> l \<longrightarrow> row_at u l = row_at s l))"
    by (simp only: foldM_map)
  show ?thesis
    unfolding wp_bind
  proof (rule wp_mono [OF one])
    fix u assume u: "storage_wf w u \<and> storage_shape u = storage_shape s \<and>
      (\<forall>l. e - ?n \<le> l \<longrightarrow> l < ?V - ?n \<longrightarrow> row_at u l = row_at s (l + ?n)) \<and>
      (\<forall>l. in_store s l \<longrightarrow> l < e - ?n \<or> ?V - ?n + ?n \<le> l \<longrightarrow> row_at u l = row_at s l)"
    then have shu: "st_len u = st_len s" "visible_lines u = visible_lines s" by (auto simp: storage_shape_def)
    from rotate_down_ok [of w u n] u obtain v where v: "rotate_down u n = Some v" "storage_wf w v"
      "st_len v = st_len u" "visible_lines v = visible_lines u"
      "\<forall>k. k + n < st_len u \<longrightarrow> ring v ! k = ring u ! (k + n)" by blast
    have atv: "row_at v l = row_at u (l - ?n)" if "?n \<le> l" "l < ?V" for l
    proof -
      have "pos_of v l + n < st_len u" "pos_of u (l - ?n) = pos_of v l + n"
        using that shu v(3,4) wf(3) by (auto simp: pos_of_def)
      with v(5) show ?thesis by (simp add: row_at_def)
    qed
    have stv: "in_store v = in_store s" using v(3,4) shu by (intro shape_in_store) (simp add: storage_shape_def)
    have "wp (reset_lines t v [0..?n - 1]) (moved w v
        (\<lambda>l. if l \<in> set [0..?n - 1] then replicate w (sq_reset 0 t) else store_line v l))"
      using r by (intro reset_lines_moved [OF v(2) wf(2)]) (auto simp: stv st)
    then have "wp (reset_lines t v [0..?n - 1]) (\<lambda>x. wp (foldM (\<lambda>s i. storage_swap s i (i + ?n)) x [0..a - 1])
        (moved w s ?f))"
    proof (rule wp_mono)
      fix x assume x: "moved w v (\<lambda>l. if l \<in> set [0..?n - 1] then replicate w (sq_reset 0 t) else store_line v l) x"
      then have "storage_shape x = storage_shape v" by (simp add: moved_def)
      then have stx: "in_store x = in_store s" using shape_in_store [of x v] stv by simp
      have xl: "store_line x l = (if l < ?n then replicate w (sq_reset 0 t) else store_line u (l - ?n))"
        if "0 \<le> l" "l < ?V" for l
        using x that atv [of l] stv st by (auto simp: moved_def store_line_def)
      show "wp (foldM (\<lambda>s i. storage_swap s i (i + ?n)) x [0..a - 1]) (moved w s ?f)"
      proof (rule wp_mono [OF storage_swap_up [of w]])
        show "storage_wf w x" using x by (simp add: moved_def)
        show "in_store x l" if "0 \<le> l" "l < a + ?n" for l using that r by (simp add: stx st)
        fix y assume y: "storage_wf w y \<and> storage_shape y = storage_shape x \<and>
          (\<forall>l. 0 \<le> l \<longrightarrow> l < a \<longrightarrow> row_at y l = row_at x (l + ?n)) \<and>
          (\<forall>l. in_store x l \<longrightarrow> l < 0 \<or> a + ?n \<le> l \<longrightarrow> row_at y l = row_at x l) \<and>
          (\<forall>P. (\<forall>l. 0 \<le> l \<longrightarrow> l < 0 + ?n \<longrightarrow> P (row_at x l)) \<longrightarrow> (\<forall>l. a \<le> l \<longrightarrow> l < a + ?n \<longrightarrow> P (row_at y l)))"
        note y_shape = y [THEN conjunct2, THEN conjunct1]
          and y_top = y [THEN conjunct2, THEN conjunct2, THEN conjunct1, rule_format]
          and y_rest = y [THEN conjunct2, THEN conjunct2, THEN conjunct2, THEN conjunct1, rule_format]
          and y_mid = y [THEN conjunct2, THEN conjunct2, THEN conjunct2, THEN conjunct2, rule_format]
        have "store_line y l = ?f l" if "in_store s l" for l
        proof -
          from that have l: "0 \<le> l" "l < ?V" by (simp_all add: st)
          consider "l < a" | "a \<le> l" "l < a + ?n" | "a + ?n \<le> l" "l < e" | "e \<le> l" by linarith
          then show ?thesis
          proof cases
            case 1
            then have "store_line y l = store_line u l"
              using xl [of "l + ?n"] y_top [OF l(1)] l r by (simp add: store_line_def)
            also have "\<dots> = store_line s l" using u that 1 r by (simp add: store_line_def)
            finally show ?thesis using 1 by simp
          next
            case 2
            have "cells (row_at y l) = replicate w (sq_reset 0 t)"
              by (rule y_mid [of "\<lambda>r. cells r = replicate w (sq_reset 0 t)"])
                (use 2 xl r in \<open>auto simp: store_line_def\<close>)
            with 2 show ?thesis by (simp add: store_line_def)
          next
            case 3
            then have "store_line y l = store_line u (l - ?n)"
              using xl [OF l] y_rest [of l] that stx r by (simp add: store_line_def)
            also have "\<dots> = store_line s (l - ?n)" using u 3 r st by (simp add: store_line_def)
            finally show ?thesis using 3 by simp
          next
            case 4
            then have "store_line y l = store_line u (l - ?n)"
              using xl [OF l] y_rest [of l] that stx r by (simp add: store_line_def)
            also have "\<dots> = store_line s l" using u 4 l by (simp add: store_line_def)
            finally show ?thesis using 4 r by simp
          qed
        qed
        moreover have "storage_shape y = storage_shape s"
          using y_shape x v(3,4) shu by (simp add: moved_def storage_shape_def)
        ultimately show "moved w s ?f y" using y [THEN conjunct1] by (simp add: moved_def)
      qed (use r in simp_all)
    qed
    with v(1) show "wp (rotate_down u n) (\<lambda>x. wp (reset_lines t x [0..?n - 1])
        (\<lambda>x. wp (foldM (\<lambda>s i. storage_swap s i (i + ?n)) x [0..a - 1]) (moved w s ?f)))"
      by (simp add: wp_Some)
  qed
qed

lemma scroll_down_ok:
  assumes wf: "grid_wf g" and r: "0 \<le> a" "a < b" "b \<le> int (g_lines g)"
  shows "wp (scroll_down g (a, b) n)
    (\<lambda>h. grid_moved g (grid_history g)
           (\<lambda>l. if a + int n \<le> l \<and> l < b then grid_line g (l - int n)
                else if a \<le> l \<and> l < b then blank_line g else grid_line g l) h \<and>
         display_offset h = display_offset g)"
    (is "wp _ ?P")
proof (cases "b - a \<le> int n")
  case True
  have "wp (on_raw g (reset_lines (grid_template g) (raw g) [a..b - 1]))
    (\<lambda>h. grid_moved g (grid_history g) (\<lambda>l. if l \<in> set [a..b - 1] then blank_line g else grid_line g l) h \<and>
         display_offset h = display_offset g)"
    using r by (intro grid_reset_lines [OF wf]) (auto simp: has_line_def)
  moreover have "scroll_down g (a, b) n = on_raw g (reset_lines (grid_template g) (raw g) [a..b - 1])"
    using True by (simp add: scroll_down_def Let_def)
  ultimately show ?thesis
    using True by (auto elim!: wp_mono simp: grid_moved_def)
next
  case False
  let ?t = "grid_template g" and ?w = "g_columns g"
  let ?f = "\<lambda>l. if a + int n \<le> l \<and> l < b then store_line (raw g) (l - int n)
    else if a \<le> l \<and> l < a + int n then replicate ?w (sq_reset 0 ?t) else store_line (raw g) l"
  have st: "in_store (raw g) l" if "a \<le> l" "l < b" for l
    using that r by (intro screen_lines_in_store [OF wf]) auto
  have w: "storage_wf ?w (raw g)" "0 < ?w" "visible_lines (raw g) = g_lines g"
    using wf by (auto simp: grid_wf_def)
  define m where "m = (if max_scroll_limit g = 0 then do {
             s \<leftarrow> foldM (\<lambda>s i. storage_swap s i (i - int n)) (raw g) [b..int (g_lines g) - 1];
             s \<leftarrow> rotate_down s n;
             s \<leftarrow> reset_lines ?t s [0..int n - 1];
             foldM (\<lambda>s i. storage_swap s i (i + int n)) s [0..a - 1]
           }
           else do {
             s \<leftarrow> foldM (\<lambda>s i. storage_swap s i (i - int n)) (raw g) (rev [a + int n..b - 1]);
             reset_lines ?t s (rev [a..a + int n - 1])
           })"
  have "wp m (moved ?w (raw g) ?f)"
  proof (cases "max_scroll_limit g = 0")
    case True
    then have "st_len (raw g) = visible_lines (raw g)"
      using wf by (auto simp: grid_wf_def grid_history_raw storage_wf_def)
    then show ?thesis
      unfolding m_def if_P [OF True] using whole_down [OF w(1,2), of a n b ?t] r False w(3) by simp
  next
    case nz: False
    show ?thesis
      unfolding m_def if_not_P [OF nz] using False by (intro region_down [OF w(1,2)] st) auto
  qed
  moreover have "wp (mark_dirty u [a..b - 1]) (\<lambda>v. ?P (g\<lparr>raw := v\<rparr>))"
    if u: "moved ?w (raw g) ?f u" for u
  proof -
    have "wp (mark_dirty u [a..b - 1]) (moved ?w (raw g) ?f)"
      by (rule grid_mark_dirty [OF wf _ _ u]) (use st in auto)
    then show ?thesis
    proof (rule wp_mono)
      fix v assume "moved ?w (raw g) ?f v"
      from moved_grid(2) [OF wf this] False
      show "?P (g\<lparr>raw := v\<rparr>)"
        unfolding blank_line_def store_line_def grid_line_def grid_moved_def by auto
    qed
  qed
  ultimately have core: "wp m (\<lambda>u. wp (mark_dirty u [a..b - 1]) (\<lambda>v. ?P (g\<lparr>raw := v\<rparr>)))"
    by (rule wp_mono)
  have "scroll_down g (a, b) n = Option.bind m (\<lambda>u. on_raw g (mark_dirty u [a..b - 1]))"
    unfolding scroll_down_def Let_def prod.case m_def if_not_P [OF False] ..
  with core show ?thesis by (simp only: wp_bind on_raw_def wp_map_option)
qed

subsection \<open>Clearing\<close>

lemma reset_region_ok:
  assumes wf: "grid_wf g" and r: "0 \<le> a" "a < int (g_lines g)" "b \<le> int (g_lines g)"
  shows "wp (reset_region g (a, b))
    (\<lambda>h. grid_moved g (grid_history g) (\<lambda>l. if a \<le> l \<and> l < b then blank_line g else grid_line g l) h \<and>
         display_offset h = display_offset g)"
proof -
  have "wp (on_raw g (reset_lines (grid_template g) (raw g) [a..b - 1]))
    (\<lambda>h. grid_moved g (grid_history g) (\<lambda>l. if l \<in> set [a..b - 1] then blank_line g else grid_line g l) h \<and>
         display_offset h = display_offset g)"
    using r by (intro grid_reset_lines [OF wf]) (auto simp: has_line_def)
  then show ?thesis
    using r by (simp add: reset_region_def wp_simps)
qed

lemma shrink_history_ok:
  assumes wf: "grid_wf g" and n: "n \<le> grid_history g"
  shows "\<exists>s. shrink_lines (raw g) n = Some s \<and>
    (\<forall>d m. grid_history g - n \<le> m \<longrightarrow>
      (let h = g\<lparr>raw := s, display_offset := d, max_scroll_limit := m\<rparr> in
       grid_wf h \<and> grid_history h = grid_history g - n \<and>
       (\<forall>l. has_line h l \<longrightarrow> grid_line h l = grid_line g l)))"
proof -
  have w: "storage_wf (g_columns g) (raw g)" "visible_lines (raw g) = g_lines g" "0 < g_lines g"
    using wf by (auto simp: grid_wf_def)
  have "n \<le> st_len (raw g) - visible_lines (raw g)" using n w by (simp add: grid_history_raw)
  from shrink_lines_ok [OF w(1) this] w obtain s where s: "shrink_lines (raw g) n = Some s"
    "storage_wf (g_columns g) s" "ring s = take (st_len (raw g) - n) (ring (raw g))"
    "st_len s = st_len (raw g) - n" "visible_lines s = g_lines g" by auto
  have "grid_wf h \<and> grid_history h = grid_history g - n \<and> (\<forall>l. has_line h l \<longrightarrow> grid_line h l = grid_line g l)"
    if "grid_history g - n \<le> m" and h: "h = g\<lparr>raw := s, display_offset := d, max_scroll_limit := m\<rparr>" for d m h
  proof -
    have hist: "grid_history h = grid_history g - n" using s(4) by (simp add: h grid_history_raw)
    then have wfh: "grid_wf h" using wf s that by (simp add: grid_wf_def)
    have "grid_line h l = grid_line g l" if "has_line h l" for l
    proof -
      have "in_store s l" using has_line_in_store [OF wfh] that by (simp add: h)
      then have "pos_of s l < st_len s" by (rule pos_of_less)
      moreover have "pos_of s l = pos_of (raw g) l" using s(5) w(2) by (simp add: pos_of_def)
      ultimately show ?thesis using s(3,4) by (simp add: grid_line_def row_at_def h)
    qed
    with hist wfh show ?thesis by blast
  qed
  with s(1) show ?thesis by (auto simp: Let_def)
qed

lemma update_history_ok:
  assumes wf: "grid_wf g"
  shows "wp (update_history g n) (\<lambda>h. grid_wf h \<and> grid_history h = min (grid_history g) n \<and>
    max_scroll_limit h = n \<and> display_offset h = min (display_offset g) n \<and>
    (\<forall>l. has_line h l \<longrightarrow> grid_line h l = grid_line g l))"
proof (cases "grid_history g > n")
  case True
  with shrink_history_ok [OF wf, of "grid_history g - n"] obtain s where
    s: "shrink_lines (raw g) (grid_history g - n) = Some s"
    "\<forall>d m. n \<le> m \<longrightarrow> (let h = g\<lparr>raw := s, display_offset := d, max_scroll_limit := m\<rparr> in
       grid_wf h \<and> grid_history h = n \<and> (\<forall>l. has_line h l \<longrightarrow> grid_line h l = grid_line g l))"
    by auto
  from s(2) [rule_format, of n "min (display_offset g) n"] s(1) True show ?thesis
    by (simp add: update_history_def Let_def on_raw_def wp_simps)
next
  case False
  then have "grid_wf (g\<lparr>display_offset := min (display_offset g) n, max_scroll_limit := n\<rparr>)"
    using wf by (simp add: grid_wf_def grid_history_raw)
  with False show ?thesis
    by (simp add: update_history_def wp_simps grid_history_raw grid_line_def)
qed

lemma clear_history_ok:
  assumes wf: "grid_wf g"
  shows "wp (clear_history g) (\<lambda>h. grid_wf h \<and> same_frame g h \<and> grid_history h = 0 \<and>
    display_offset h = 0 \<and> (\<forall>l. has_line h l \<longrightarrow> grid_line h l = grid_line g l))"
proof -
  from shrink_history_ok [OF wf order_refl] obtain s where
    s: "shrink_lines (raw g) (grid_history g) = Some s"
    "\<forall>d m. (let h = g\<lparr>raw := s, display_offset := d, max_scroll_limit := m\<rparr> in
       grid_wf h \<and> grid_history h = 0 \<and> (\<forall>l. has_line h l \<longrightarrow> grid_line h l = grid_line g l))"
    by auto
  have "g\<lparr>raw := s, display_offset := 0, max_scroll_limit := max_scroll_limit g\<rparr> = g\<lparr>raw := s, display_offset := 0\<rparr>"
    by simp
  with s(2) [rule_format, where d = 0 and m = "max_scroll_limit g"] s(1) show ?thesis
    by (simp add: clear_history_def on_raw_def wp_simps Let_def same_frame_def)
qed

lemma grid_reset_ok:
  assumes wf: "grid_wf g"
  shows "wp (grid_reset g) (\<lambda>h. grid_wf h \<and> grid_history h = 0 \<and> display_offset h = 0 \<and>
    g_lines h = g_lines g \<and> g_columns h = g_columns g \<and> max_scroll_limit h = max_scroll_limit g \<and>
    gcursor h = cursor_default 0 \<and> saved_cursor h = cursor_default 0 \<and>
    (\<forall>l. has_line h l \<longrightarrow> grid_line h l = replicate (g_columns g) 0))"
  unfolding grid_reset_def wp_bind
proof (rule wp_mono [OF clear_history_ok [OF wf]])
  fix h assume h: "grid_wf h \<and> same_frame g h \<and> grid_history h = 0 \<and> display_offset h = 0 \<and>
    (\<forall>l. has_line h l \<longrightarrow> grid_line h l = grid_line g l)"
  let ?k = "h\<lparr>saved_cursor := cursor_default 0, gcursor := cursor_default 0, display_offset := 0\<rparr>"
  have k: "grid_wf ?k" "grid_history ?k = 0" "g_lines ?k = g_lines g" "g_columns ?k = g_columns g"
    using h by (auto simp: grid_wf_def grid_history_raw same_frame_def)
  have top: "topmost_line (grid_dims ?k) = 0"
    using k(2) by (simp add: topmost_line_def grid_history_def)
  have "wp (on_raw ?k (reset_lines (grid_template ?k) (raw ?k) [0..int (g_lines g) - 1]))
    (\<lambda>x. grid_moved ?k (grid_history ?k)
          (\<lambda>l. if l \<in> set [0..int (g_lines g) - 1] then blank_line ?k else grid_line ?k l) x \<and>
         display_offset x = display_offset ?k)"
    using k by (intro grid_reset_lines) (auto simp: has_line_def)
  then show "wp (let g = h\<lparr>saved_cursor := cursor_default 0, gcursor := cursor_default 0, display_offset := 0\<rparr>
      in on_raw g (reset_lines (grid_template g) (raw g) [topmost_line (grid_dims g)..int (g_lines g) - 1]))
     (\<lambda>h. grid_wf h \<and> grid_history h = 0 \<and> display_offset h = 0 \<and>
       g_lines h = g_lines g \<and> g_columns h = g_columns g \<and> max_scroll_limit h = max_scroll_limit g \<and>
       gcursor h = cursor_default 0 \<and> saved_cursor h = cursor_default 0 \<and>
       (\<forall>l. has_line h l \<longrightarrow> grid_line h l = replicate (g_columns g) 0))"
    unfolding Let_def top k(3)
  proof (rule wp_mono)
    fix x assume x: "grid_moved ?k (grid_history ?k)
          (\<lambda>l. if l \<in> set [0..int (g_lines g) - 1] then blank_line ?k else grid_line ?k l) x \<and>
         display_offset x = display_offset ?k"
    have "blank_line ?k = replicate (g_columns g) 0"
      using k(4) by (simp add: blank_line_def grid_template_def cursor_default_def sq_reset_0)
    moreover have "l \<in> set [0..int (g_lines g) - 1]" if "has_line x l" for l
      using that x k by (auto simp: has_line_def grid_moved_def same_frame_def)
    ultimately show "grid_wf x \<and> grid_history x = 0 \<and> display_offset x = 0 \<and>
       g_lines x = g_lines g \<and> g_columns x = g_columns g \<and> max_scroll_limit x = max_scroll_limit g \<and>
       gcursor x = cursor_default 0 \<and> saved_cursor x = cursor_default 0 \<and>
       (\<forall>l. has_line x l \<longrightarrow> grid_line x l = replicate (g_columns g) 0)"
      using x h k by (auto simp: grid_moved_def same_frame_def)
  qed
qed

lemma grid_cell_ok:
  assumes "grid_wf g" "has_line g (row p)" "col p < g_columns g"
  shows "grid_cell g p = Some (grid_line g (row p) ! col p)"
proof -
  have w: "storage_wf (g_columns g) (raw g)" and st: "in_store (raw g) (row p)"
    using assms has_line_in_store [OF assms(1)] by (auto simp: grid_wf_def)
  show ?thesis
    using storage_index_ok [OF w st] row_at_width [OF w st] assms(3)
    by (simp add: grid_cell_def row_index_def idx_def grid_line_def)
qed

lemma grid_line_length: "grid_wf g \<Longrightarrow> has_line g l \<Longrightarrow> length (grid_line g l) = g_columns g"
  using row_at_width [of "g_columns g" "raw g" l] has_line_in_store [of g l]
  by (simp add: grid_line_def grid_wf_def)

definition empty_between :: "grid \<Rightarrow> pos \<Rightarrow> pos \<Rightarrow> bool" where
  \<comment> \<open>the cells of the lines after that of \<open>p\<close> and before \<open>cur\<close>\<close>
  "empty_between g p cur \<longleftrightarrow>
     (\<forall>l i. row p < l \<and> (l < row cur \<or> l = row cur \<and> i < col cur) \<and> i < g_columns g \<longrightarrow>
        sq_is_empty (grid_line g l ! i))"

lemma viewport_scan_ok:
  assumes wf: "grid_wf g" and "0 \<le> row cur" "row cur < int (g_lines g)" "col cur \<le> g_columns g"
  shows "wp (viewport_scan g cur) (\<lambda>p. -1 \<le> row p \<and> row p \<le> row cur \<and> empty_between g p cur)"
  using assms(2-)
proof (induction "nat (row cur) * (g_columns g + 1) + col cur" arbitrary: cur rule: less_induct)
  case less
  let ?c = "g_columns g"
  have c: "0 < ?c" using wf by (simp add: grid_wf_def)
  have lc: "last_column (grid_dims g) = Some (?c - 1)" using c by (simp add: last_column_def usub_def grid_dims_def)
  have top: "topmost_line (grid_dims g) = - int (grid_history g)" by (simp add: topmost_line_def grid_history_def)
  show ?case
  proof (cases "cur = Pos (topmost_line (grid_dims g)) 0")
    case True
    then have "viewport_scan g cur = Some cur"
      using lc by (subst viewport_scan.simps) (simp add: iter_prev_def)
    with less.prems True show ?thesis by (auto simp: wp_Some empty_between_def)
  next
    case False
    define p where "p = (if col cur = 0 then Pos (row cur - 1) (?c - 1) else Pos (row cur) (col cur - 1))"
    have "- int (grid_history g) \<le> row p"
      using False less.prems by (cases cur) (auto simp: p_def top)
    then have hl: "has_line g (row p)" "col p < ?c"
      using less.prems c by (auto simp: has_line_def p_def)
    then have prev: "iter_prev g cur = Some (Some (p, grid_line g (row p) ! col p))"
      using False lc grid_cell_ok [OF wf hl]
      by (cases "col cur = 0") (simp_all add: iter_prev_def Let_def p_def)
    have range: "-1 \<le> row p" "row p \<le> row cur" using less.prems(1) by (auto simp: p_def)
    have near: "empty_between g p cur" by (auto simp: empty_between_def p_def)
    show ?thesis
    proof (cases "\<not> sq_is_empty (grid_line g (row p) ! col p) \<or> row p < 0")
      case True
      then have "viewport_scan g cur = Some p"
        using prev by (subst viewport_scan.simps) simp
      with range near show ?thesis by (simp add: wp_Some)
    next
      case go: False
      have "nat (row p) * (?c + 1) + col p < nat (row cur) * (?c + 1) + col cur"
      proof (cases "col cur = 0")
        case True
        have "1 \<le> row cur" using go True by (simp add: p_def)
        then have "nat (row cur) = Suc (nat (row cur - 1))" by linarith
        with True c show ?thesis by (simp add: p_def)
      qed (simp add: p_def)
      then have "wp (viewport_scan g p) (\<lambda>q. -1 \<le> row q \<and> row q \<le> row p \<and> empty_between g q p)"
        using go range hl less.prems by (intro less.hyps) auto
      moreover have "viewport_scan g cur = viewport_scan g p"
        using prev go by (subst viewport_scan.simps) simp
      moreover have "empty_between g q cur" if "empty_between g q p" for q
        unfolding empty_between_def
      proof (intro allI impI)
        fix l i
        assume a: "row q < l \<and> (l < row cur \<or> l = row cur \<and> i < col cur) \<and> i < ?c"
        then consider "l < row p \<or> l = row p \<and> i < col p" | "l = row p" "i = col p"
          by (cases "col cur = 0") (force simp: p_def)+
        then show "sq_is_empty (grid_line g l ! i)"
          using that a go by cases (auto simp: empty_between_def)
      qed
      ultimately show ?thesis using range by (auto elim!: wp_mono)
    qed
  qed
qed

lemma clear_viewport_ok:
  assumes wf: "grid_wf g"
  shows "wp (clear_viewport g) (\<lambda>h. \<exists>n \<le> g_lines g.
    (\<forall>l i. int n \<le> l \<and> l < int (g_lines g) \<and> i < g_columns g \<longrightarrow> sq_is_empty (grid_line g l ! i)) \<and>
    grid_moved g (min (grid_history g + n) (max_scroll_limit g))
      (\<lambda>l. if 0 \<le> l then blank_line g else grid_line g (l + int n)) h)"
  unfolding clear_viewport_def wp_bind
proof (rule wp_mono [OF viewport_scan_ok [OF wf]])
  have L: "0 < g_lines g" using wf by (simp add: grid_wf_def)
  then show "0 \<le> row (Pos (int (g_lines g) - 1) (g_columns g))"
    "row (Pos (int (g_lines g) - 1) (g_columns g)) < int (g_lines g)"
    "col (Pos (int (g_lines g) - 1) (g_columns g)) \<le> g_columns g" by simp_all
  fix p
  assume p: "-1 \<le> row p \<and> row p \<le> row (Pos (int (g_lines g) - 1) (g_columns g)) \<and>
    empty_between g p (Pos (int (g_lines g) - 1) (g_columns g))"
  define n where "n = nat (row p + 1)"
  have n: "int n = row p + 1" "n \<le> g_lines g" using p by (auto simp: n_def)
  have rest: "sq_is_empty (grid_line g l ! i)" if "int n \<le> l" "l < int (g_lines g)" "i < g_columns g" for l i
  proof -
    have "row p < l \<and> (l < int (g_lines g) - 1 \<or> l = int (g_lines g) - 1 \<and> i < g_columns g)"
      using that n by linarith
    with p that(3) show ?thesis by (simp add: empty_between_def)
  qed
  have up: "wp (scroll_up g (0, int (g_lines g)) n) (\<lambda>h. grid_moved g (min (grid_history g + n) (max_scroll_limit g))
           (\<lambda>l. if l < int (g_lines g) - int n then grid_line g (l + int n)
                else if l < int (g_lines g) then blank_line g else grid_line g l) h \<and>
         display_offset h = offset_after g n)"
    using scroll_up_top [OF wf n(2) order_refl] .
  have step: "wp (on_raw h (reset_lines (grid_template h) (raw h) [0..int (g_lines h - n) - 1]))
      (grid_moved g (min (grid_history g + n) (max_scroll_limit g))
        (\<lambda>l. if 0 \<le> l then blank_line g else grid_line g (l + int n)))"
    if h: "grid_moved g (min (grid_history g + n) (max_scroll_limit g))
           (\<lambda>l. if l < int (g_lines g) - int n then grid_line g (l + int n)
                else if l < int (g_lines g) then blank_line g else grid_line g l) h" for h
  proof -
    from h have hw: "grid_wf h" "same_frame g h" "g_lines h = g_lines g"
      by (auto simp: grid_moved_def same_frame_def)
    note bl = same_frame_blank [OF hw(2)]
    have "wp (on_raw h (reset_lines (grid_template h) (raw h) [0..int (g_lines h - n) - 1]))
      (\<lambda>x. grid_moved h (grid_history h) (\<lambda>l. if l \<in> set [0..int (g_lines h - n) - 1] then blank_line h else grid_line h l) x \<and>
         display_offset x = display_offset h)"
      using hw n by (intro grid_reset_lines) (auto simp: has_line_def)
    then show ?thesis
    proof (rule wp_mono)
      fix x
      assume x: "grid_moved h (grid_history h) (\<lambda>l. if l \<in> set [0..int (g_lines h - n) - 1] then blank_line h else grid_line h l) x \<and>
         display_offset x = display_offset h"
      have "has_line x = has_line h" using x by (auto simp: has_line_def grid_moved_def same_frame_def fun_eq_iff)
      moreover have "same_frame g x" using x hw(2) same_frame_trans by (auto simp: grid_moved_def)
      moreover have "l < int (g_lines g)" if "has_line h l" for l using that hw(3) by (simp add: has_line_def)
      ultimately show "grid_moved g (min (grid_history g + n) (max_scroll_limit g))
        (\<lambda>l. if 0 \<le> l then blank_line g else grid_line g (l + int n)) x"
        using x h n(2) bl hw(3) by (auto simp: grid_moved_def)
    qed
  qed
  have fin: "wp (scroll_up g (0, int (g_lines g)) n) (\<lambda>h. wp (usub (g_lines h) n)
      (\<lambda>r. wp (on_raw h (reset_lines (grid_template h) (raw h) [0..int r - 1])) (\<lambda>x. \<exists>n \<le> g_lines g.
      (\<forall>l i. int n \<le> l \<and> l < int (g_lines g) \<and> i < g_columns g \<longrightarrow> sq_is_empty (grid_line g l ! i)) \<and>
      grid_moved g (min (grid_history g + n) (max_scroll_limit g))
        (\<lambda>l. if 0 \<le> l then blank_line g else grid_line g (l + int n)) x)))"
  proof (rule wp_mono [OF up], elim conjE)
    fix h
    assume h: "grid_moved g (min (grid_history g + n) (max_scroll_limit g))
           (\<lambda>l. if l < int (g_lines g) - int n then grid_line g (l + int n)
                else if l < int (g_lines g) then blank_line g else grid_line g l) h"
    then have "n \<le> g_lines h" using n(2) by (simp add: grid_moved_def same_frame_def)
    moreover have "wp (on_raw h (reset_lines (grid_template h) (raw h) [0..int (g_lines h - n) - 1]))
      (\<lambda>x. \<exists>n \<le> g_lines g.
      (\<forall>l i. int n \<le> l \<and> l < int (g_lines g) \<and> i < g_columns g \<longrightarrow> sq_is_empty (grid_line g l ! i)) \<and>
      grid_moved g (min (grid_history g + n) (max_scroll_limit g))
        (\<lambda>l. if 0 \<le> l then blank_line g else grid_line g (l + int n)) x)"
      by (rule wp_mono [OF step [OF h]], rule exI [of _ n]) (use rest n(2) in simp)
    ultimately
    show "wp (usub (g_lines h) n)
      (\<lambda>r. wp (on_raw h (reset_lines (grid_template h) (raw h) [0..int r - 1])) (\<lambda>x. \<exists>n \<le> g_lines g.
      (\<forall>l i. int n \<le> l \<and> l < int (g_lines g) \<and> i < g_columns g \<longrightarrow> sq_is_empty (grid_line g l ! i)) \<and>
      grid_moved g (min (grid_history g + n) (max_scroll_limit g))
        (\<lambda>l. if 0 \<le> l then blank_line g else grid_line g (l + int n)) x))"
      unfolding wp_usub by (rule conjI)
  qed
  show "wp (check (-1 \<le> row p)) (\<lambda>_. wp (let positions = nat (row p + 1) in
      Option.bind (scroll_up g (0, int (g_lines g)) positions) (\<lambda>g. Option.bind (usub (g_lines g) positions)
        (\<lambda>rest. on_raw g (reset_lines (grid_template g) (raw g) [0..int rest - 1])))) (\<lambda>h. \<exists>n \<le> g_lines g.
      (\<forall>l i. int n \<le> l \<and> l < int (g_lines g) \<and> i < g_columns g \<longrightarrow> sq_is_empty (grid_line g l ! i)) \<and>
      grid_moved g (min (grid_history g + n) (max_scroll_limit g))
        (\<lambda>l. if 0 \<le> l then blank_line g else grid_line g (l + int n)) h))"
    unfolding wp_check Let_def wp_bind using p fin by (simp add: n_def)
qed

subsection \<open>Properties\<close>

text \<open>C32. Scrolling up a region that starts at the first line moves its lines up by \<open>n\<close>: the
  lines that leave the screen become the newest lines of the history, which grows by \<open>n\<close> up to
  its limit (the oldest lines fall out), the \<open>n\<close> lines at the region's bottom are blank, and the
  fixed lines below the region, the cursors and the tables are untouched. Nothing panics and
  the grid stays well formed.\<close>

theorem scroll_up_into_history:
  assumes "grid_wf g" "n \<le> e" "e \<le> g_lines g"
  shows "\<exists>h. scroll_up g (0, int e) n = Some h \<and> grid_wf h \<and> same_frame g h \<and>
    grid_history h = min (grid_history g + n) (max_scroll_limit g) \<and>
    (\<forall>l. - int (grid_history h) \<le> l \<and> l < int (g_lines g) \<longrightarrow> grid_line h l =
      (if l < int e - int n then grid_line g (l + int n)
       else if l < int e then blank_line g else grid_line g l))"
  using scroll_up_top [OF assms]
  by (auto simp: wp_iff grid_moved_def has_line_def same_frame_def)

theorem scroll_up_into_history_witness:
  "\<exists>g h. grid_new 3 2 10 = Some g \<and> scroll_up g (0, 2) 1 = Some h \<and> grid_history h = 1 \<and>
     grid_line h (-1) = grid_line g 0 \<and> grid_line h 1 = blank_line g \<and> grid_line h 2 = grid_line g 2"
proof -
  obtain g where g: "grid_new 3 2 10 = Some g" "grid_wf g" "grid_history g = 0" "g_lines g = 3"
    "max_scroll_limit g = 10" using grid_new_ok [of 3 2 10] by auto
  from scroll_up_into_history [OF g(2), of 1 2] g(3-5)
  obtain h where h: "scroll_up g (0, 2) 1 = Some h" "grid_history h = 1"
    "\<forall>l. -1 \<le> l \<and> l < 3 \<longrightarrow> grid_line h l =
      (if l < 1 then grid_line g (l + 1) else if l < 2 then blank_line g else grid_line g l)" by auto
  from g(1) h(1,2) h(3) [rule_format, of "-1"] h(3) [rule_format, of 1] h(3) [rule_format, of 2]
  show ?thesis by auto
qed

text \<open>C33. Scrolling inside a region moves only the region's lines: upwards in a region below the
  first line nothing goes to the history, downwards the same holds in every region; the lines
  that come in are blank, all others (the history included) stay, and a count of the region's
  size or more just clears it. The two implementations of scrolling down, with a history by
  swapping and without one by rotating the ring buffer, have this same effect.\<close>

theorem scroll_region:
  assumes "grid_wf g" "0 \<le> a" "a < b" "b \<le> int (g_lines g)"
  shows "(\<exists>h. scroll_down g (a, b) n = Some h \<and> grid_wf h \<and> same_frame g h \<and>
      grid_history h = grid_history g \<and> display_offset h = display_offset g \<and>
      (\<forall>l. has_line g l \<longrightarrow> grid_line h l =
        (if a + int n \<le> l \<and> l < b then grid_line g (l - int n)
         else if a \<le> l \<and> l < b then blank_line g else grid_line g l))) \<and>
    (0 < a \<longrightarrow> (\<exists>h. scroll_up g (a, b) n = Some h \<and> grid_wf h \<and> same_frame g h \<and>
      grid_history h = grid_history g \<and>
      (\<forall>l. has_line g l \<longrightarrow> grid_line h l =
        (if a \<le> l \<and> l < b - int n then grid_line g (l + int n)
         else if a \<le> l \<and> l < b then blank_line g else grid_line g l))))"
proof -
  have moved: "\<exists>h. m = Some h \<and> grid_wf h \<and> same_frame g h \<and> grid_history h = grid_history g \<and> P h \<and>
      (\<forall>l. has_line g l \<longrightarrow> grid_line h l = f l)"
    if m: "wp m (\<lambda>h. grid_moved g (grid_history g) f h \<and> P h)" for m f P
  proof -
    from m obtain h where h: "m = Some h" "grid_moved g (grid_history g) f h" "P h" by (auto simp: wp_iff)
    then have "has_line h = has_line g" by (auto simp: grid_moved_def has_line_def same_frame_def fun_eq_iff)
    with h show ?thesis by (auto simp: grid_moved_def)
  qed
  from moved [OF scroll_up_region [OF assms(1) _ assms(3,4), of n]]
  have up: "0 < a \<Longrightarrow> \<exists>h. scroll_up g (a, b) n = Some h \<and> grid_wf h \<and> same_frame g h \<and>
      grid_history h = grid_history g \<and>
      (\<forall>l. has_line g l \<longrightarrow> grid_line h l =
        (if a \<le> l \<and> l < b - int n then grid_line g (l + int n)
         else if a \<le> l \<and> l < b then blank_line g else grid_line g l))" by blast
  from moved [OF scroll_down_ok [OF assms, of n]] up show ?thesis by simp
qed

theorem scroll_region_witness:
  "\<exists>g h. grid_new 4 2 0 = Some g \<and> scroll_down g (1, 3) 1 = Some h \<and>
     grid_line h 2 = grid_line g 1 \<and> grid_line h 3 = grid_line g 3 \<and> grid_line h 1 = blank_line g"
proof -
  obtain g where g: "grid_new 4 2 0 = Some g" "grid_wf g" "grid_history g = 0" "g_lines g = 4"
    using grid_new_ok [of 4 2 0] by auto
  have "has_line g l \<longleftrightarrow> 0 \<le> l \<and> l < 4" for l using g by (simp add: has_line_def)
  with scroll_region [OF g(2), of 1 3 1] g(4) obtain h where h: "scroll_down g (1, 3) 1 = Some h"
    "\<forall>l. 0 \<le> l \<and> l < 4 \<longrightarrow> grid_line h l =
      (if 2 \<le> l \<and> l < 3 then grid_line g (l - 1) else if 1 \<le> l \<and> l < 3 then blank_line g else grid_line g l)"
    by auto
  from g(1) h(1) h(2) [rule_format, of 1] h(2) [rule_format, of 2] h(2) [rule_format, of 3]
  show ?thesis by auto
qed

text \<open>C34. Clearing the viewport loses nothing that was visible: everything from some line \<open>n\<close> on was
  empty, the \<open>n\<close> lines above it move into the history (the oldest history falling out at the
  limit), and the screen is blank afterwards. The backward search over the cells always ends.\<close>

theorem clear_viewport_keeps_content:
  assumes "grid_wf g"
  shows "\<exists>h n. clear_viewport g = Some h \<and> n \<le> g_lines g \<and>
    (\<forall>l i. int n \<le> l \<and> l < int (g_lines g) \<and> i < g_columns g \<longrightarrow> sq_is_empty (grid_line g l ! i)) \<and>
    grid_wf h \<and> same_frame g h \<and> grid_history h = min (grid_history g + n) (max_scroll_limit g) \<and>
    (\<forall>l. has_line h l \<longrightarrow> grid_line h l = (if 0 \<le> l then blank_line g else grid_line g (l + int n)))"
  using clear_viewport_ok [OF assms] by (auto simp: wp_iff grid_moved_def)

theorem clear_viewport_keeps_content_witness:
  "\<exists>g h. grid_new 2 2 5 = Some g \<and> clear_viewport g = Some h \<and> grid_wf h"
proof -
  obtain g where "grid_new 2 2 5 = Some g" "grid_wf g" using grid_new_ok [of 2 2 5] by auto
  with clear_viewport_keeps_content [of g] show ?thesis by blast
qed



end
