(* ===== verification/Modes.thy ===== *)
theory Modes
  imports Prelude
begin

unbundle bit_operations_syntax

text \<open>
  The terminal's modes: the bit set \<open>Mode\<close> of \<open>crosswords/mod.rs\<close>, the keyboard modes of
  \<open>ansi/mod.rs\<close> and their embedding, and the ANSI and DEC private mode numbers of
  \<open>ansi/mode.rs\<close>.
\<close>

subsection \<open>Bit sets\<close>

type_synonym mode = u32

definition bit_contains :: "'a::len word \<Rightarrow> 'a word \<Rightarrow> bool" where
  \<comment> \<open>\<open>bitflags\<close>: every bit of \<open>f\<close> is set\<close>
  "bit_contains m f \<longleftrightarrow> m AND f = f"

definition bit_insert :: "'a::len word \<Rightarrow> 'a word \<Rightarrow> 'a word" where "bit_insert m f = m OR f"
definition bit_remove :: "'a::len word \<Rightarrow> 'a word \<Rightarrow> 'a word" where "bit_remove m f = m AND NOT f"

definition M_SHOW_CURSOR :: mode where "M_SHOW_CURSOR = 1"
definition M_APP_CURSOR :: mode where "M_APP_CURSOR = push_bit 1 1"
definition M_APP_KEYPAD :: mode where "M_APP_KEYPAD = push_bit 2 1"
definition M_MOUSE_REPORT_CLICK :: mode where "M_MOUSE_REPORT_CLICK = push_bit 3 1"
definition M_BRACKETED_PASTE :: mode where "M_BRACKETED_PASTE = push_bit 4 1"
definition M_SGR_MOUSE :: mode where "M_SGR_MOUSE = push_bit 5 1"
definition M_MOUSE_MOTION :: mode where "M_MOUSE_MOTION = push_bit 6 1"
definition M_LINE_WRAP :: mode where "M_LINE_WRAP = push_bit 7 1"
definition M_LINE_FEED_NEW_LINE :: mode where "M_LINE_FEED_NEW_LINE = push_bit 8 1"
definition M_ORIGIN :: mode where "M_ORIGIN = push_bit 9 1"
definition M_INSERT :: mode where "M_INSERT = push_bit 10 1"
definition M_FOCUS_IN_OUT :: mode where "M_FOCUS_IN_OUT = push_bit 11 1"
definition M_ALT_SCREEN :: mode where "M_ALT_SCREEN = push_bit 12 1"
definition M_MOUSE_DRAG :: mode where "M_MOUSE_DRAG = push_bit 13 1"
definition M_UTF8_MOUSE :: mode where "M_UTF8_MOUSE = push_bit 14 1"
definition M_ALTERNATE_SCROLL :: mode where "M_ALTERNATE_SCROLL = push_bit 15 1"
definition M_VI :: mode where "M_VI = push_bit 16 1"
definition M_URGENCY_HINTS :: mode where "M_URGENCY_HINTS = push_bit 17 1"
definition M_DISAMBIGUATE_ESC_CODES :: mode where "M_DISAMBIGUATE_ESC_CODES = push_bit 18 1"
definition M_REPORT_EVENT_TYPES :: mode where "M_REPORT_EVENT_TYPES = push_bit 19 1"
definition M_REPORT_ALTERNATE_KEYS :: mode where "M_REPORT_ALTERNATE_KEYS = push_bit 20 1"
definition M_REPORT_ALL_KEYS_AS_ESC :: mode where "M_REPORT_ALL_KEYS_AS_ESC = push_bit 21 1"
definition M_REPORT_ASSOCIATED_TEXT :: mode where "M_REPORT_ASSOCIATED_TEXT = push_bit 22 1"
definition M_WIN32_INPUT_MODE :: mode where "M_WIN32_INPUT_MODE = push_bit 23 1"
definition M_SIXEL_DISPLAY :: mode where "M_SIXEL_DISPLAY = push_bit 28 1"
definition M_SIXEL_PRIV_PALETTE :: mode where "M_SIXEL_PRIV_PALETTE = push_bit 29 1"
definition M_SIXEL_CURSOR_TO_THE_RIGHT :: mode where "M_SIXEL_CURSOR_TO_THE_RIGHT = push_bit 31 1"

definition M_MOUSE_MODE :: mode where
  "M_MOUSE_MODE = M_MOUSE_REPORT_CLICK OR M_MOUSE_MOTION OR M_MOUSE_DRAG"

definition M_KITTY_KEYBOARD_PROTOCOL :: mode where
  "M_KITTY_KEYBOARD_PROTOCOL = M_DISAMBIGUATE_ESC_CODES OR M_REPORT_EVENT_TYPES OR
     M_REPORT_ALTERNATE_KEYS OR M_REPORT_ALL_KEYS_AS_ESC OR M_REPORT_ASSOCIATED_TEXT"

definition mode_default :: mode where
  "mode_default = M_SHOW_CURSOR OR M_LINE_WRAP OR M_ALTERNATE_SCROLL OR M_URGENCY_HINTS OR M_SIXEL_PRIV_PALETTE"

definition mode_set :: "mode \<Rightarrow> mode \<Rightarrow> bool \<Rightarrow> mode" where
  "mode_set m f on = (if on then bit_insert m f else bit_remove m f)"

subsection \<open>Keyboard modes\<close>

type_synonym keyboard_modes = u8

definition K_DISAMBIGUATE_ESC_CODES :: keyboard_modes where "K_DISAMBIGUATE_ESC_CODES = 1"
definition K_REPORT_EVENT_TYPES :: keyboard_modes where "K_REPORT_EVENT_TYPES = 2"
definition K_REPORT_ALTERNATE_KEYS :: keyboard_modes where "K_REPORT_ALTERNATE_KEYS = 4"
definition K_REPORT_ALL_KEYS_AS_ESC :: keyboard_modes where "K_REPORT_ALL_KEYS_AS_ESC = 8"
definition K_REPORT_ASSOCIATED_TEXT :: keyboard_modes where "K_REPORT_ASSOCIATED_TEXT = 16"

definition kb_truncate :: "u8 \<Rightarrow> keyboard_modes" where
  \<comment> \<open>\<open>from_bits_truncate\<close>\<close>
  "kb_truncate b = b AND 0x1F"

datatype kb_apply = KbReplace | KbUnion | KbDifference

definition mode_of_kb :: "keyboard_modes \<Rightarrow> mode" where
  "mode_of_kb v =
     (let m = mode_set 0 M_DISAMBIGUATE_ESC_CODES (bit_contains v K_DISAMBIGUATE_ESC_CODES);
          m = mode_set m M_REPORT_EVENT_TYPES (bit_contains v K_REPORT_EVENT_TYPES);
          m = mode_set m M_REPORT_ALTERNATE_KEYS (bit_contains v K_REPORT_ALTERNATE_KEYS);
          m = mode_set m M_REPORT_ALL_KEYS_AS_ESC (bit_contains v K_REPORT_ALL_KEYS_AS_ESC)
      in mode_set m M_REPORT_ASSOCIATED_TEXT (bit_contains v K_REPORT_ASSOCIATED_TEXT))"

datatype mode_state = NotSupported | ModeSet | ModeReset

definition mode_state_of :: "bool \<Rightarrow> mode_state" where
  "mode_state_of b = (if b then ModeSet else ModeReset)"

fun mode_state_u8 :: "mode_state \<Rightarrow> nat" where
  "mode_state_u8 NotSupported = 0"
| "mode_state_u8 ModeSet = 1"
| "mode_state_u8 ModeReset = 2"

subsection \<open>Mode numbers\<close>

datatype named_mode = ModeInsert | ModeLineFeedNewLine

datatype ansi_mode = NamedAnsi named_mode | UnknownAnsi u16

fun named_mode_u16 :: "named_mode \<Rightarrow> u16" where
  "named_mode_u16 ModeInsert = 4"
| "named_mode_u16 ModeLineFeedNewLine = 20"

definition ansi_mode_new :: "u16 \<Rightarrow> ansi_mode" where
  "ansi_mode_new m =
     (if m = 4 then NamedAnsi ModeInsert
      else if m = 20 then NamedAnsi ModeLineFeedNewLine
      else UnknownAnsi m)"

fun ansi_mode_raw :: "ansi_mode \<Rightarrow> u16" where
  "ansi_mode_raw (NamedAnsi m) = named_mode_u16 m"
| "ansi_mode_raw (UnknownAnsi m) = m"

datatype named_private_mode =
    CursorKeys | ColumnMode | Origin | LineWrap | BlinkingCursor | ShowCursor | ReportMouseClicks
  | ReportCellMouseMotion | ReportAllMouseMotion | ReportFocusInOut | Utf8Mouse | SgrMouse
  | AlternateScroll | UrgencyHints | SwapScreenAndSetRestoreCursor | BracketedPaste | SyncUpdate
  | Win32InputMode

datatype private_mode = NamedPrivate named_private_mode | UnknownPrivate u16

fun named_private_mode_u16 :: "named_private_mode \<Rightarrow> u16" where
  "named_private_mode_u16 CursorKeys = 1"
| "named_private_mode_u16 ColumnMode = 3"
| "named_private_mode_u16 Origin = 6"
| "named_private_mode_u16 LineWrap = 7"
| "named_private_mode_u16 BlinkingCursor = 12"
| "named_private_mode_u16 ShowCursor = 25"
| "named_private_mode_u16 ReportMouseClicks = 1000"
| "named_private_mode_u16 ReportCellMouseMotion = 1002"
| "named_private_mode_u16 ReportAllMouseMotion = 1003"
| "named_private_mode_u16 ReportFocusInOut = 1004"
| "named_private_mode_u16 Utf8Mouse = 1005"
| "named_private_mode_u16 SgrMouse = 1006"
| "named_private_mode_u16 AlternateScroll = 1007"
| "named_private_mode_u16 UrgencyHints = 1042"
| "named_private_mode_u16 SwapScreenAndSetRestoreCursor = 1049"
| "named_private_mode_u16 BracketedPaste = 2004"
| "named_private_mode_u16 SyncUpdate = 2026"
| "named_private_mode_u16 Win32InputMode = 9001"

definition private_modes :: "(u16 \<times> named_private_mode) list" where
  "private_modes =
     [(1, CursorKeys), (3, ColumnMode), (6, Origin), (7, LineWrap), (12, BlinkingCursor),
      (25, ShowCursor), (1000, ReportMouseClicks), (1002, ReportCellMouseMotion),
      (1003, ReportAllMouseMotion), (1004, ReportFocusInOut), (1005, Utf8Mouse), (1006, SgrMouse),
      (1007, AlternateScroll), (1042, UrgencyHints), (1049, SwapScreenAndSetRestoreCursor),
      (2004, BracketedPaste), (2026, SyncUpdate), (9001, Win32InputMode)]"

definition private_mode_new :: "u16 \<Rightarrow> private_mode" where
  "private_mode_new m =
     (case map_of private_modes m of Some n \<Rightarrow> NamedPrivate n | None \<Rightarrow> UnknownPrivate m)"

fun private_mode_raw :: "private_mode \<Rightarrow> u16" where
  "private_mode_raw (NamedPrivate m) = named_private_mode_u16 m"
| "private_mode_raw (UnknownPrivate m) = m"

subsection \<open>Lemmas\<close>

text \<open>Bit sets bit by bit.\<close>

lemma bit_contains_bits: "bit_contains m f \<longleftrightarrow> (\<forall>i. bit f i \<longrightarrow> bit m i)"
  by (auto simp: bit_contains_def bit_eq_iff bit_simps dest: bit_imp_le_length)

lemma bit_insert_bits: "bit (bit_insert m f) i \<longleftrightarrow> bit m i \<or> bit f i"
  by (auto simp: bit_insert_def bit_simps)

lemma bit_remove_bits: "bit (bit_remove m f) i \<longleftrightarrow> bit m i \<and> \<not> bit f i"
  using bit_imp_le_length by (auto simp: bit_remove_def bit_simps)

lemma contains_insert: "bit_contains (bit_insert m f) f"
  by (simp add: bit_contains_bits bit_insert_bits)

lemma mode_new_raw:
  "ansi_mode_raw (ansi_mode_new m) = m" "private_mode_raw (private_mode_new m) = m"
proof -
  show "ansi_mode_raw (ansi_mode_new m) = m" by (simp add: ansi_mode_new_def)
  have "\<forall>(a, b) \<in> set private_modes. named_private_mode_u16 b = a" by (simp add: private_modes_def)
  then show "private_mode_raw (private_mode_new m) = m"
    by (auto simp: private_mode_new_def split: option.split dest!: map_of_SomeD)
qed

lemma private_new_named: "private_mode_new (named_private_mode_u16 n) = NamedPrivate n"
  by (cases n) (simp_all add: private_mode_new_def private_modes_def)

text \<open>The kitty bits of a mode.\<close>

lemmas mode_bit_defs = M_DISAMBIGUATE_ESC_CODES_def M_REPORT_EVENT_TYPES_def M_REPORT_ALTERNATE_KEYS_def
  M_REPORT_ALL_KEYS_AS_ESC_def M_REPORT_ASSOCIATED_TEXT_def

definition kitty_bits :: "mode \<Rightarrow> mode" where "kitty_bits m = m AND M_KITTY_KEYBOARD_PROTOCOL"

definition with_kitty :: "mode \<Rightarrow> keyboard_modes \<Rightarrow> mode" where
  \<comment> \<open>\<open>mode &= !KITTY_KEYBOARD_PROTOCOL; mode |= Mode::from(v)\<close>\<close>
  "with_kitty m v = bit_remove m M_KITTY_KEYBOARD_PROTOCOL OR mode_of_kb v"

lemma kitty_eval: "M_KITTY_KEYBOARD_PROTOCOL = 0x7C0000"
  by (simp add: M_KITTY_KEYBOARD_PROTOCOL_def mode_bit_defs push_bit_eq_mult)

lemma mode_of_kb_within: "mode_of_kb v AND M_KITTY_KEYBOARD_PROTOCOL = mode_of_kb v"
  by (simp add: mode_of_kb_def mode_set_def bit_insert_def bit_remove_def Let_def kitty_eval mode_bit_defs
      push_bit_eq_mult)

lemma with_kitty_bits: "kitty_bits (with_kitty m v) = mode_of_kb v"
proof -
  have "(bit_remove m M_KITTY_KEYBOARD_PROTOCOL) AND M_KITTY_KEYBOARD_PROTOCOL = 0"
    by (simp add: bit_remove_def and.assoc)
  then show ?thesis
    by (simp add: kitty_bits_def with_kitty_def bit.conj_disj_distrib2 mode_of_kb_within)
qed

lemma with_kitty_other: "bit_remove (with_kitty m v) M_KITTY_KEYBOARD_PROTOCOL = bit_remove m M_KITTY_KEYBOARD_PROTOCOL"
proof -
  have "mode_of_kb v AND NOT M_KITTY_KEYBOARD_PROTOCOL = 0"
    by (subst mode_of_kb_within [symmetric]) (simp add: and.assoc)
  then show ?thesis
    by (simp add: with_kitty_def bit_remove_def bit.conj_disj_distrib2 and.assoc)
qed

lemma kb_truncate_mode: "mode_of_kb (kb_truncate v) = mode_of_kb v"
  by (simp add: mode_of_kb_def kb_truncate_def bit_contains_def and.assoc K_DISAMBIGUATE_ESC_CODES_def
      K_REPORT_EVENT_TYPES_def K_REPORT_ALTERNATE_KEYS_def K_REPORT_ALL_KEYS_AS_ESC_def K_REPORT_ASSOCIATED_TEXT_def)

end
