(* ===== verification/Damage.thy ===== *)
theory Damage
  imports Prelude Pos
begin

text \<open>
  The bookkeeping of \<open>crosswords/mod.rs\<close> beside the grid: the damage of the screen's lines
  (\<open>LineDamage\<close>, \<open>TermDamageState\<close>, \<open>TermDamageIterator\<close>) and the tab stops (\<open>TabStops\<close>).
  A selection range is the record the selection theory and the damage share.
\<close>

subsection \<open>Damage\<close>

record selection_range =
  sr_start :: pos
  sr_end :: pos
  sr_block :: bool

record line_damage =
  ld_line :: nat
  ld_damaged :: bool

record damage_state =
  dm_full :: bool
  dm_lines :: "line_damage list"
  dm_last_cursor :: pos
  dm_last_vi_cursor :: "pos option"
  dm_last_selection :: "selection_range option"

definition line_undamaged :: "nat \<Rightarrow> line_damage" where
  "line_undamaged l = \<lparr>ld_line = l, ld_damaged = False\<rparr>"

definition damage_new :: "nat \<Rightarrow> damage_state" where
  "damage_new n = \<lparr>dm_full = True, dm_lines = map line_undamaged [0..<n], dm_last_cursor = Pos 0 0,
     dm_last_vi_cursor = None, dm_last_selection = None\<rparr>"

definition damage_resize :: "damage_state \<Rightarrow> nat \<Rightarrow> damage_state" where
  "damage_resize d n = d\<lparr>dm_last_cursor := Pos 0 0, dm_last_vi_cursor := None, dm_last_selection := None,
     dm_full := True, dm_lines := map line_undamaged [0..<n]\<rparr>"

definition damage_mark :: "damage_state \<Rightarrow> nat \<Rightarrow> damage_state option" where
  \<comment> \<open>\<open>TermDamageState::damage_line\<close>\<close>
  "damage_mark d l = do {
     x \<leftarrow> idx (dm_lines d) l;
     Some (d\<lparr>dm_lines := (dm_lines d)[l := x\<lparr>ld_damaged := True\<rparr>]\<rparr>)
   }"

definition damage_selection :: "damage_state \<Rightarrow> selection_range \<Rightarrow> nat \<Rightarrow> damage_state option" where
  "damage_selection d s off =
     (let last_visible = int (length (dm_lines d)) - 1 in
      if row (sr_end s) + int off < 0 \<or> \<bar>row (sr_start s)\<bar> < int off - last_visible then Some d
      else
        (let start = max (row (sr_start s) + int off) 0;
             end = max 0 (min (row (sr_end s) + int off) last_visible)
         in foldM (\<lambda>d l. damage_mark d (nat l)) d [start..end]))"

definition damage_reset :: "damage_state \<Rightarrow> damage_state" where
  "damage_reset d = d\<lparr>dm_full := False, dm_lines := map (\<lambda>l. l\<lparr>ld_damaged := False\<rparr>) (dm_lines d)\<rparr>"

definition damage_iter :: "damage_state \<Rightarrow> nat \<Rightarrow> line_damage list" where
  \<comment> \<open>the items of \<open>TermDamageIterator::new(&lines, display_offset)\<close>\<close>
  "damage_iter d off =
     map (\<lambda>l. \<lparr>ld_line = ld_line l + off, ld_damaged = True\<rparr>)
       (filter ld_damaged (take (length (dm_lines d) - off) (dm_lines d)))"

subsection \<open>Tab stops\<close>

definition INITIAL_TABSTOPS :: nat where "INITIAL_TABSTOPS = 8"

definition tabs_new :: "nat \<Rightarrow> bool list" where
  "tabs_new cols = map (\<lambda>i. i mod INITIAL_TABSTOPS = 0) [0..<cols]"

definition tabs_clear_all :: "bool list \<Rightarrow> bool list" where
  "tabs_clear_all ts = replicate (length ts) False"

definition tabs_resize :: "bool list \<Rightarrow> nat \<Rightarrow> bool list" where
  "tabs_resize ts cols =
     take cols ts @ map (\<lambda>i. i mod INITIAL_TABSTOPS = 0) [length ts..<cols]"

subsection \<open>Lemmas\<close>

definition damage_wf :: "nat \<Rightarrow> damage_state \<Rightarrow> bool" where
  \<comment> \<open>one entry per line of the screen, numbered in order, and the last cursor on the screen\<close>
  "damage_wf n d \<longleftrightarrow> map ld_line (dm_lines d) = [0..<n] \<and>
     0 \<le> row (dm_last_cursor d) \<and> row (dm_last_cursor d) < int n"

definition damaged :: "damage_state \<Rightarrow> nat \<Rightarrow> bool" where
  \<comment> \<open>what a redraw will refresh\<close>
  "damaged d l \<longleftrightarrow> dm_full d \<or> (l < length (dm_lines d) \<and> ld_damaged (dm_lines d ! l))"

lemma damage_wf_length: "damage_wf n d \<Longrightarrow> length (dm_lines d) = n"
  by (metis damage_wf_def diff_zero length_map length_upt)

lemma damage_new_wf: "0 < n \<Longrightarrow> damage_wf n (damage_new n)"
  by (simp add: damage_wf_def damage_new_def comp_def line_undamaged_def)

lemma damage_resize_wf: "0 < n \<Longrightarrow> damage_wf n (damage_resize d n)"
  by (simp add: damage_wf_def damage_resize_def comp_def line_undamaged_def)

lemma damage_mark_ok:
  assumes "damage_wf n d" "l < n"
  shows "\<exists>d'. damage_mark d l = Some d' \<and> damage_wf n d' \<and> dm_full d' = dm_full d \<and>
    dm_last_cursor d' = dm_last_cursor d \<and> dm_last_selection d' = dm_last_selection d \<and>
    (\<forall>k. damaged d' k \<longleftrightarrow> damaged d k \<or> k = l)"
proof -
  note len = damage_wf_length [OF assms(1)]
  have ls: "map ld_line (dm_lines d) = [0..<n]" using assms(1) by (simp add: damage_wf_def)
  have "ld_line (dm_lines d ! l) = map ld_line (dm_lines d) ! l" using len assms(2) by simp
  then have "ld_line (dm_lines d ! l) = [0..<n] ! l" unfolding ls .
  then have "map ld_line ((dm_lines d)[l := (dm_lines d ! l)\<lparr>ld_damaged := True\<rparr>]) = [0..<n]"
    using ls by (simp add: map_update list_update_id)
  with assms len show ?thesis
    by (auto simp: damage_mark_def idx_def damage_wf_def damaged_def nth_list_update)
qed

lemma damage_reset_wf: "damage_wf n d \<Longrightarrow> damage_wf n (damage_reset d)"
  by (simp add: damage_wf_def damage_reset_def comp_def)

lemma damage_mark_range:
  assumes "damage_wf n d" "\<And>l. l \<in> set ls \<Longrightarrow> 0 \<le> l \<and> l < int n"
  shows "wp (foldM (\<lambda>d l. damage_mark d (nat l)) d ls) (\<lambda>d'. damage_wf n d' \<and> dm_full d' = dm_full d \<and>
    dm_last_cursor d' = dm_last_cursor d \<and> dm_last_selection d' = dm_last_selection d \<and>
    (\<forall>k. damaged d' k \<longleftrightarrow> damaged d k \<or> int k \<in> set ls))"
  using assms
proof (induction ls arbitrary: d)
  case (Cons l ls)
  from Cons.prems(2) have l: "nat l < n" "0 \<le> l" by (auto simp: nat_less_iff)
  from damage_mark_ok [OF Cons.prems(1) l(1)] obtain e where
    e: "damage_mark d (nat l) = Some e" "damage_wf n e" "dm_full e = dm_full d"
      "dm_last_cursor e = dm_last_cursor d" "dm_last_selection e = dm_last_selection d"
      "\<forall>k. damaged e k \<longleftrightarrow> damaged d k \<or> k = nat l" by blast
  have "int k = l \<longleftrightarrow> k = nat l" for k using l(2) by auto
  with Cons.IH [OF e(2)] Cons.prems(2) e show ?case by (auto simp: wp_iff)
qed (simp add: wp_simps)

lemma damage_selection_ok:
  assumes "damage_wf n d" "0 < n"
  shows "wp (damage_selection d s off) (\<lambda>d'. damage_wf n d' \<and> dm_full d' = dm_full d \<and>
    dm_last_cursor d' = dm_last_cursor d \<and>
    (\<forall>k. damaged d k \<longrightarrow> damaged d' k) \<and>
    (\<forall>k < n. row (sr_start s) + int off \<le> int k \<and> int k \<le> row (sr_end s) + int off \<longrightarrow> damaged d' k))"
proof -
  note len = damage_wf_length [OF assms(1)]
  show ?thesis
  proof (cases "row (sr_end s) + int off < 0 \<or> \<bar>row (sr_start s)\<bar> < int off - (int n - 1)")
    case True
    then have "\<not> (row (sr_start s) + int off \<le> int k \<and> int k \<le> row (sr_end s) + int off)" if "k < n" for k
      using that by linarith
    with True assms len show ?thesis by (auto simp: damage_selection_def wp_simps Let_def)
  next
    case False
    let ?ls = "[max (row (sr_start s) + int off) 0..max 0 (min (row (sr_end s) + int off) (int n - 1))]"
    have "wp (foldM (\<lambda>d l. damage_mark d (nat l)) d ?ls) (\<lambda>d'. damage_wf n d' \<and> dm_full d' = dm_full d \<and>
        dm_last_cursor d' = dm_last_cursor d \<and> dm_last_selection d' = dm_last_selection d \<and>
        (\<forall>k. damaged d' k \<longleftrightarrow> damaged d k \<or> int k \<in> set ?ls))"
      using assms(2) by (intro damage_mark_range [OF assms(1)]) auto
    moreover have "damage_selection d s off = foldM (\<lambda>d l. damage_mark d (nat l)) d ?ls"
      using False len by (simp add: damage_selection_def Let_def)
    ultimately have "wp (damage_selection d s off) (\<lambda>d'. damage_wf n d' \<and> dm_full d' = dm_full d \<and>
        dm_last_cursor d' = dm_last_cursor d \<and> dm_last_selection d' = dm_last_selection d \<and>
        (\<forall>k. damaged d' k \<longleftrightarrow> damaged d k \<or> int k \<in> set ?ls))" by (simp only:)
    then show ?thesis
    proof (rule wp_mono, elim conjE, intro conjI)
      fix d'
      assume d': "\<forall>k. damaged d' k \<longleftrightarrow> damaged d k \<or> int k \<in> set ?ls"
      then show "\<forall>k. damaged d k \<longrightarrow> damaged d' k" by blast
      have "int k \<in> set ?ls"
        if "k < n" "row (sr_start s) + int off \<le> int k" "int k \<le> row (sr_end s) + int off" for k
        using that by simp
      with d' show "\<forall>k < n. row (sr_start s) + int off \<le> int k \<and> int k \<le> row (sr_end s) + int off \<longrightarrow> damaged d' k"
        by blast
    qed
  qed
qed

lemma length_tabs [simp]: "length (tabs_new c) = c" "length (tabs_clear_all ts) = length ts"
  "length (tabs_resize ts c) = c"
  by (auto simp: tabs_new_def tabs_clear_all_def tabs_resize_def)

lemma damage_iter_visible:
  assumes "damage_wf n d"
  shows "ld_line ` set (damage_iter d off) = {l + off | l. l < n - off \<and> ld_damaged (dm_lines d ! l)}"
proof -
  have nth: "ld_line (dm_lines d ! i) = i" if "i < n" for i
    using assms that damage_wf_length [OF assms] by (metis add_0 damage_wf_def nth_map nth_upt)
  have "set (take (n - off) (dm_lines d)) = (!) (dm_lines d) ` {..<n - off}"
    using damage_wf_length [OF assms] by (simp add: nth_image [symmetric] lessThan_atLeast0)
  then have "ld_line ` set (damage_iter d off) =
      (\<lambda>l. ld_line (dm_lines d ! l) + off) ` {l. l < n - off \<and> ld_damaged (dm_lines d ! l)}"
    using damage_wf_length [OF assms] by (auto simp: damage_iter_def image_image image_iff Bex_def)
  also have "\<dots> = (\<lambda>l. l + off) ` {l. l < n - off \<and> ld_damaged (dm_lines d ! l)}"
    using nth by (intro image_cong) auto
  finally show ?thesis by auto
qed

end
