(* ===== verification/Selection.thy ===== *)
theory Selection
  imports Damage
begin

text \<open>
  \<open>selection.rs\<close>: the selection of cells, its rotation with scrolling text and its conversion
  to a range. The conversion of semantic and line selections searches the grid; the two search
  functions are arguments here and are given by the terminal's theory.
\<close>

subsection \<open>State\<close>

type_synonym side = direction

record anchor =
  an_point :: pos
  an_side :: side

datatype selection_type = SelSimple | SelBlock | SelSemantic | SelLines

record selection =
  sel_ty :: selection_type
  sel_start :: anchor
  sel_end :: anchor

definition anchor_new :: "pos \<Rightarrow> side \<Rightarrow> anchor" where
  "anchor_new p s = \<lparr>an_point = p, an_side = s\<rparr>"

definition selection_new :: "selection_type \<Rightarrow> pos \<Rightarrow> side \<Rightarrow> selection" where
  "selection_new ty loc s = \<lparr>sel_ty = ty, sel_start = anchor_new loc s, sel_end = anchor_new loc s\<rparr>"

definition selection_update :: "selection \<Rightarrow> pos \<Rightarrow> side \<Rightarrow> selection" where
  "selection_update s p d = s\<lparr>sel_end := anchor_new p d\<rparr>"

subsection \<open>Ranges\<close>

definition range_contains :: "selection_range \<Rightarrow> pos \<Rightarrow> bool" where
  "range_contains r p \<longleftrightarrow>
     row (sr_start r) \<le> row p \<and> row (sr_end r) \<ge> row p \<and>
     (col (sr_start r) \<le> col p \<or> (row (sr_start r) \<noteq> row p \<and> \<not> sr_block r)) \<and>
     (col (sr_end r) \<ge> col p \<or> (row (sr_end r) \<noteq> row p \<and> \<not> sr_block r))"

datatype cursor_shape = ShapeBlock | ShapeUnderline | ShapeBeam | ShapeHidden

definition range_contains_square :: "selection_range \<Rightarrow> pos \<times> square \<Rightarrow> pos \<Rightarrow> cursor_shape \<Rightarrow> bool" where
  "range_contains_square r indexed point shape =
     (let (p, sq) = indexed in
      if shape = ShapeBlock \<and> point = p \<and>
         (sr_start r = p \<or> sr_end r = p \<or>
          (sr_block r \<and>
           ((row (sr_start r) = row p \<and> col (sr_end r) = col p) \<or>
            (row (sr_end r) = row p \<and> col (sr_start r) = col p))))
      then False
      else if range_contains r p then True
      else sq_wide sq = Wide \<and> range_contains r (Pos (row p) (col p + 1)))"

subsection \<open>Operations\<close>

definition ordered_ends :: "selection \<Rightarrow> bool" where
  \<comment> \<open>the anchors are not swapped\<close>
  "ordered_ends s \<longleftrightarrow> \<not> (an_point (sel_start s) > an_point (sel_end s))"

definition with_ends :: "selection \<Rightarrow> anchor \<Rightarrow> anchor \<Rightarrow> selection" where
  \<comment> \<open>writing through the two references, which are swapped when the anchors are\<close>
  "with_ends s a b =
     (if ordered_ends s then s\<lparr>sel_start := a, sel_end := b\<rparr> else s\<lparr>sel_start := b, sel_end := a\<rparr>)"

definition lower_anchor :: "selection \<Rightarrow> anchor" where
  "lower_anchor s = (if ordered_ends s then sel_start s else sel_end s)"

definition upper_anchor :: "selection \<Rightarrow> anchor" where
  "upper_anchor s = (if ordered_ends s then sel_end s else sel_start s)"

definition set_row :: "anchor \<Rightarrow> int \<Rightarrow> anchor" where
  "set_row a l = a\<lparr>an_point := Pos l (col (an_point a))\<rparr>"

definition rotate_start :: "dims \<Rightarrow> selection_type \<Rightarrow> int \<times> int \<Rightarrow> int \<Rightarrow> anchor \<Rightarrow> anchor" where
  \<comment> \<open>the start after \<open>start.point.row = min(..)\<close> and the clamp to the region's top\<close>
  "rotate_start d ty region delta a =
     (let (lo, hi) = region;
          a = set_row a (min (row (an_point a) - delta) (bottommost_line d)) in
      if row (an_point a) < lo \<and> lo \<noteq> 0 then
        (let a = (if ty \<noteq> SelBlock then \<lparr>an_point = Pos (row (an_point a)) 0, an_side = DirLeft\<rparr> else a)
         in set_row a lo)
      else a)"

definition selection_rotate :: "selection \<Rightarrow> dims \<Rightarrow> int \<times> int \<Rightarrow> int \<Rightarrow> selection option option" where
  \<comment> \<open>\<open>None\<close> is a panic (no last column), \<open>Some None\<close> the result \<open>None\<close>\<close>
  "selection_rotate s d region delta =
     (let (lo, hi) = region; a = lower_anchor s; b = upper_anchor s; bl = bottommost_line d;
          in_range = (\<lambda>l. (l \<ge> lo \<or> lo = 0) \<and> l < hi);
          moved = in_range (row (an_point a));
          new_row = min (row (an_point a) - delta) bl in
      if moved \<and> new_row \<ge> hi \<and> row (an_point b) < hi then Some None
      else
        (let a = (if moved then rotate_start d (sel_ty s) region delta a else a) in
         if in_range (row (an_point b)) then
           (let b = set_row b (min (row (an_point b) - delta) bl) in
            if row (an_point b) < row (an_point a) then Some None
            else if row (an_point b) \<ge> hi then do {
              lc \<leftarrow> last_column d;
              let b = (if sel_ty s \<noteq> SelBlock
                       then \<lparr>an_point = Pos (row (an_point b)) lc, an_side = DirRight\<rparr> else b);
              Some (Some (with_ends s a (set_row b (hi - 1))))
            }
            else Some (Some (with_ends s a b)))
         else Some (Some (with_ends s a b))))"

definition selection_is_empty :: "selection \<Rightarrow> bool" where
  "selection_is_empty s =
     (case sel_ty s of
        SelSimple \<Rightarrow>
          (let a = lower_anchor s; b = upper_anchor s in
           a = b \<or>
           (an_side a = DirRight \<and> an_side b = DirLeft \<and> row (an_point a) = row (an_point b) \<and>
            col (an_point a) + 1 = col (an_point b)))
      | SelBlock \<Rightarrow>
          (let a = sel_start s; b = sel_end s in
           (col (an_point a) = col (an_point b) \<and> an_side a = an_side b) \<or>
           (col (an_point a) + 1 = col (an_point b) \<and> an_side a = DirRight \<and> an_side b = DirLeft) \<or>
           (col (an_point b) + 1 = col (an_point a) \<and> an_side a = DirLeft \<and> an_side b = DirRight))
      | SelSemantic \<Rightarrow> False
      | SelLines \<Rightarrow> False)"

definition intersects_range :: "selection \<Rightarrow> int \<Rightarrow> int \<Rightarrow> bool" where
  \<comment> \<open>the bounds resolved to the inclusive \<open>range_top\<close> and \<open>range_bottom\<close> of the code\<close>
  "intersects_range s range_top range_bottom =
     (let a = row (an_point (sel_start s)); b = row (an_point (sel_end s));
          (a, b) = (if a > b then (b, a) else (a, b))
      in range_bottom \<ge> a \<and> range_top \<le> b)"

definition include_all :: "selection \<Rightarrow> selection" where
  "include_all s =
     (let a = an_point (sel_start s); b = an_point (sel_end s);
          (sa, sb) =
            (if sel_ty s = SelBlock
             then if col a > col b \<or> (col a = col b \<and> row a > row b) then (DirRight, DirLeft)
                  else (DirLeft, DirRight)
             else if a > b then (DirRight, DirLeft) else (DirLeft, DirRight))
      in s\<lparr>sel_start := (sel_start s)\<lparr>an_side := sa\<rparr>, sel_end := (sel_end s)\<lparr>an_side := sb\<rparr>\<rparr>)"

definition range_simple :: "selection \<Rightarrow> anchor \<Rightarrow> anchor \<Rightarrow> nat \<Rightarrow> selection_range option option" where
  "range_simple s a b cols =
     (if selection_is_empty s then Some None
      else do {
        b \<leftarrow> (if an_side b = DirLeft \<and> an_point a \<noteq> an_point b
              then if col (an_point b) = 0
                   then map_option (\<lambda>lc. b\<lparr>an_point := Pos (row (an_point b) - 1) lc\<rparr>) (usub cols 1)
                   else Some (b\<lparr>an_point := Pos (row (an_point b)) (col (an_point b) - 1)\<rparr>)
              else Some b);
        let p = an_point a;
        let p = (if an_side a = DirRight \<and> p \<noteq> an_point b
                 then if col p + 1 = cols then Pos (row p + 1) 0 else Pos (row p) (col p + 1)
                 else p);
        Some (Some \<lparr>sr_start = p, sr_end = an_point b, sr_block = False\<rparr>)
      })"

definition range_block :: "selection \<Rightarrow> anchor \<Rightarrow> anchor \<Rightarrow> selection_range option" where
  "range_block s a b =
     (if selection_is_empty s then None
      else
        (let (a, b) =
           (if col (an_point a) > col (an_point b)
            then (\<lparr>an_point = Pos (row (an_point a)) (col (an_point b)), an_side = an_side b\<rparr>,
                  \<lparr>an_point = Pos (row (an_point b)) (col (an_point a)), an_side = an_side a\<rparr>)
            else (a, b));
           q = an_point b;
           q = (if an_side b = DirLeft \<and> an_point a \<noteq> q \<and> col q > 0 then Pos (row q) (col q - 1) else q);
           p = an_point a;
           p = (if an_side a = DirRight \<and> p \<noteq> q then Pos (row p) (col p + 1) else p)
         in Some \<lparr>sr_start = p, sr_end = q, sr_block = True\<rparr>))"

definition selection_to_range ::
    "(pos \<Rightarrow> pos \<Rightarrow> selection_range option) \<Rightarrow> (pos \<Rightarrow> pos \<Rightarrow> selection_range option) \<Rightarrow>
     dims \<Rightarrow> selection \<Rightarrow> selection_range option option" where
  \<comment> \<open>the first two arguments are \<open>range_lines\<close> and \<open>range_semantic\<close> on the terminal\<close>
  "selection_to_range range_lines range_semantic d s =
     (let a = lower_anchor s; b = upper_anchor s in
      if row (an_point b) < topmost_line d then Some None
      else do {
        p \<leftarrow> pos_grid_clamp (an_point a) d BGrid;
        let a = a\<lparr>an_point := p\<rparr>;
        (case sel_ty s of
           SelSimple \<Rightarrow> range_simple s a b (columns d)
         | SelBlock \<Rightarrow> Some (range_block s a b)
         | SelLines \<Rightarrow> map_option Some (range_lines (an_point a) (an_point b))
         | SelSemantic \<Rightarrow> map_option Some (range_semantic (an_point a) (an_point b)))
      })"

subsection \<open>Lemmas\<close>

lemma ends_ordered: "an_point (lower_anchor s) \<le> an_point (upper_anchor s)"
  by (auto simp: lower_anchor_def upper_anchor_def ordered_ends_def)

lemma row_set_row [simp]: "row (an_point (set_row a l)) = l" "col (an_point (set_row a l)) = col (an_point a)"
  "an_side (set_row a l) = an_side a"
  by (simp_all add: set_row_def)

lemma le_row: "p \<le> q \<Longrightarrow> row p \<le> row (q::pos)"
  by (auto simp: less_eq_pos_def pos_le_def)

lemma selection_rotate_total: "0 < columns d \<Longrightarrow> \<exists>r. selection_rotate s d region delta = Some r"
  by (cases region) (auto simp: selection_rotate_def Let_def last_column_def usub_def)

text \<open>What the anchors of a rotated selection are: both moved with the text of the region and
  clamped to it, whichever of them is the lower one.\<close>

lemma with_ends_rows:
  "{row (an_point (sel_start (with_ends s a b))), row (an_point (sel_end (with_ends s a b)))} =
   {row (an_point a), row (an_point b)}"
  by (auto simp: with_ends_def)

definition selected_rows :: "selection \<Rightarrow> int \<times> int" where
  "selected_rows s = (row (an_point (lower_anchor s)), row (an_point (upper_anchor s)))"

definition rotated_row :: "dims \<Rightarrow> int \<times> int \<Rightarrow> int \<Rightarrow> int \<Rightarrow> int" where
  \<comment> \<open>the line a line's text is on after the region \<open>lo..hi\<close> has moved up by \<open>delta\<close>\<close>
  "rotated_row d region delta l =
     (let (lo, hi) = region in
      if (lo \<le> l \<or> lo = 0) \<and> l < hi then min (l - delta) (bottommost_line d) else l)"

lemma rotate_start_row:
  "row (an_point (rotate_start d ty (lo, hi) delta a)) =
     (let l = min (row (an_point a) - delta) (bottommost_line d) in
      if l < lo \<and> lo \<noteq> 0 then lo else l)"
  by (simp add: rotate_start_def Let_def)

lemma rotate_inside:
  assumes "0 < columns d"
    and "lo \<le> row (an_point (lower_anchor s)) \<or> lo = 0" "row (an_point (lower_anchor s)) < hi"
    and "lo \<le> row (an_point (upper_anchor s)) \<or> lo = 0" "row (an_point (upper_anchor s)) < hi"
  shows "selection_rotate s d (lo, hi) delta =
    (let l' = min (row (an_point (lower_anchor s)) - delta) (bottommost_line d);
         m' = min (row (an_point (upper_anchor s)) - delta) (bottommost_line d);
         a = rotate_start d (sel_ty s) (lo, hi) delta (lower_anchor s);
         b = (if hi \<le> m'
              then if sel_ty s = SelBlock then set_row (upper_anchor s) (hi - 1)
                else \<lparr>an_point = Pos (hi - 1) (columns d - 1), an_side = DirRight\<rparr>
              else set_row (upper_anchor s) m')
     in if hi \<le> l' then Some None else if m' < row (an_point a) then Some None else Some (Some (with_ends s a b)))"
proof -
  have lc: "last_column d = Some (columns d - 1)" using assms(1) by (simp add: last_column_def usub_def)
  have set2: "set_row (set_row b x) y = set_row b y" for b x y by (simp add: set_row_def)
  have in_region: "((lo \<le> row (an_point (lower_anchor s)) \<or> lo = 0) \<and> row (an_point (lower_anchor s)) < hi) = True"
    "((lo \<le> row (an_point (upper_anchor s)) \<or> lo = 0) \<and> row (an_point (upper_anchor s)) < hi) = True"
    using assms(2-5) by auto
  show ?thesis
    unfolding selection_rotate_def Let_def prod.case in_region if_True simp_thms row_set_row lc Option.bind.bind_lunit
    using assms(5) by (auto simp: set2 set_row_def simp del: min.bounded_iff min_less_iff_disj min_less_iff_conj min_le_iff_disj)
qed

subsection \<open>Properties\<close>

text \<open>C37. A selection that lies in the scrolled region follows its text. With the start and the end taken in
  reading order, each moves with its line and keeps its column and side. A start that would leave the region
  at its top goes to the top line, to its first column unless the selection is a block (a region whose
  top is the first line has no top: the text goes on into the history); an end that would leave it at its
  bottom goes to the last line of the region, to its last column unless the selection is a block. A
  selection whose text has left the region altogether is dropped, with one exception: in a region that ends
  at the last line of the screen, start and end are first limited to that line, so a selection whose text has
  gone out below stays there. The kind of the selection and the order of its anchors are kept, and rotating
  never panics.\<close>

theorem rotate_follows_text:
  fixes delta :: int
  assumes "0 < columns d" "lo < hi" "hi \<le> bottommost_line d + 1"
    and "selected_rows s = (l, m)" "lo \<le> l \<or> lo = 0" "m < hi"
  defines "l' \<equiv> min (l - delta) (bottommost_line d)" and "m' \<equiv> min (m - delta) (bottommost_line d)"
  defines "a \<equiv> (if lo \<noteq> 0 \<and> l' < lo
      then if sel_ty s = SelBlock then set_row (lower_anchor s) lo else \<lparr>an_point = Pos lo 0, an_side = DirLeft\<rparr>
      else set_row (lower_anchor s) l')"
    and "b \<equiv> (if hi \<le> m'
      then if sel_ty s = SelBlock then set_row (upper_anchor s) (hi - 1)
        else \<lparr>an_point = Pos (hi - 1) (columns d - 1), an_side = DirRight\<rparr>
      else set_row (upper_anchor s) m')"
  shows "selection_rotate s d (lo, hi) delta = Some
    (if hi \<le> l' \<or> (lo \<noteq> 0 \<and> m - delta < lo) then None
     else Some (if ordered_ends s then s\<lparr>sel_start := a, sel_end := b\<rparr> else s\<lparr>sel_start := b, sel_end := a\<rparr>))"
proof -
  define p q where pq: "p = lower_anchor s" "q = upper_anchor s"
  have rows: "row (an_point p) = l" "row (an_point q) = m" "l \<le> m"
    using assms(4) le_row [OF ends_ordered [of s]] by (auto simp: selected_rows_def pq)
  have le: "l' \<le> m'" and lc: "last_column d = Some (columns d - 1)"
    using rows(3) assms(1) by (auto simp: l'_def m'_def last_column_def usub_def)
  have start: "rotate_start d (sel_ty s) (lo, hi) delta p = a" and a_row: "row (an_point a) = (if lo \<noteq> 0 \<and> l' < lo then lo else l')"
    by (auto simp: rotate_start_def a_def Let_def rows set_row_def pq [symmetric] l'_def)
  have inside: "lo \<le> m \<or> lo = 0" "l < hi"
    using assms(5,6) rows(3) by auto
  have "selection_rotate s d (lo, hi) delta =
    (if hi \<le> l' then Some None
     else if m' < row (an_point a) then Some None
     else Some (Some (with_ends s a b)))"
    using rotate_inside [OF assms(1), of lo s hi delta, folded pq] assms(5,6) inside
    unfolding rows Let_def start l'_def [symmetric] m'_def [symmetric] b_def pq [symmetric] by blast
  moreover have "m' < row (an_point a) \<longleftrightarrow> lo \<noteq> 0 \<and> m - delta < lo" if "\<not> hi \<le> l'"
    using that le assms(2,3) by (auto simp: a_row m'_def)
  ultimately show ?thesis by (auto simp: with_ends_def)
qed

theorem rotate_follows_text_witness:
  "selection_rotate (selection_new SelSimple (Pos 5 2) DirLeft)
      \<lparr>total_lines = 24, screen_lines = 24, columns = 80\<rparr> (2, 10) 4 = Some None \<and>
   selection_rotate (selection_new SelSimple (Pos 5 2) DirLeft)
      \<lparr>total_lines = 24, screen_lines = 24, columns = 80\<rparr> (2, 10) 2 = Some (Some (selection_new SelSimple (Pos 3 2) DirLeft))"
proof -
  let ?d = "\<lparr>total_lines = 24, screen_lines = 24, columns = 80\<rparr> :: dims"
  let ?s = "selection_new SelSimple (Pos 5 2) DirLeft"
  have s: "selected_rows ?s = (5, 5)"
    by (simp add: selected_rows_def lower_anchor_def upper_anchor_def ordered_ends_def selection_new_def anchor_new_def)
  show ?thesis
    using rotate_follows_text [of ?d 2 10 ?s 5 5 4] rotate_follows_text [of ?d 2 10 ?s 5 5 2] s
    by (simp add: bottommost_line_def lower_anchor_def upper_anchor_def ordered_ends_def selection_new_def anchor_new_def set_row_def)
qed

end
