(* ===== verification/KittyStore.thy ===== *)
theory KittyStore
  imports Style "HOL-Library.AList" "HOL-Library.Multiset"
begin

text \<open>
  \<open>ansi/graphics.rs\<close>: the images a terminal keeps, per screen, with their placements and the
  accounting of their memory; the image record is \<open>GraphicData\<close> of the renderer. A hash map is
  an association list with distinct keys (its order stands for the unspecified order of
  iteration); an \<open>Instant\<close> is a number, and the clock's reading an argument. Liveness of a
  placed texture (a weak reference's count) is an argument as well.
\<close>

subsection \<open>State\<close>

datatype color_type = ColorRgb | ColorRgba

datatype resize_parameter = ResizeAuto | ResizeCells u32 | ResizePixels u32 | ResizeWindowPercent u32

record resize_command =
  rc_width :: resize_parameter
  rc_height :: resize_parameter
  rc_preserve :: bool

record graphic_data =
  gd_id :: u64
  gd_width :: nat
  gd_height :: nat
  gd_color_type :: color_type
  gd_pixels :: "u8 list"
  gd_is_opaque :: bool
  gd_resize :: "resize_command option"
  gd_display_width :: "nat option"
  gd_display_height :: "nat option"
  gd_transmit_time :: nat

record stored_image =
  si_data :: graphic_data
  si_time :: nat

record kitty_placement =
  kp_image_id :: u32
  kp_placement_id :: u32
  kp_source_x :: u32
  kp_source_y :: u32
  kp_source_width :: u32
  kp_source_height :: u32
  kp_dest_col :: nat
  kp_dest_row :: int
  kp_columns :: u32
  kp_rows :: u32
  kp_pixel_width :: u32
  kp_pixel_height :: u32
  kp_cell_x_offset :: u32
  kp_cell_y_offset :: u32
  kp_z_index :: int
  kp_transmit_time :: nat

record virtual_placement =
  vp_image_id :: u32
  vp_placement_id :: u32
  vp_columns :: u32
  vp_rows :: u32
  vp_x :: u32
  vp_y :: u32

record kitty_screen =
  ks_images :: "(u32 \<times> stored_image) list"
  ks_numbers :: "(u32 \<times> u32) list"
  ks_placements :: "((u32 \<times> u32) \<times> kitty_placement) list"
  ks_virtual :: "((u32 \<times> u32) \<times> virtual_placement) list"

record graphics =
  gr_pending :: "graphic_data list"
  gr_pending_images :: "(u32 \<times> graphic_data) list"
  gr_texture_operations :: "u64 list"
  gr_sixel_palette :: "color_rgb list option"
  gr_active :: kitty_screen
    \<comment> \<open>the fields \<open>kitty_images\<close>, \<open>kitty_image_numbers\<close>, \<open>kitty_placements\<close>, \<open>kitty_virtual_placements\<close>\<close>
  gr_inactive :: kitty_screen
  gr_total_bytes :: nat
  gr_total_limit :: nat
  gr_timestamps :: "(u64 \<times> nat) list"
  gr_placed :: "u64 list"
  gr_next_placement_id :: u32
  gr_dirty :: bool

definition kitty_screen_empty :: kitty_screen where
  "kitty_screen_empty = \<lparr>ks_images = [], ks_numbers = [], ks_placements = [], ks_virtual = []\<rparr>"

definition graphics_default :: graphics where
  "graphics_default = \<lparr>gr_pending = [], gr_pending_images = [], gr_texture_operations = [],
     gr_sixel_palette = None, gr_active = kitty_screen_empty, gr_inactive = kitty_screen_empty,
     gr_total_bytes = 0, gr_total_limit = 320 * 1024 * 1024, gr_timestamps = [], gr_placed = [],
     gr_next_placement_id = 0, gr_dirty = False\<rparr>"

subsection \<open>Operations\<close>

definition has_pending_updates :: "graphics \<Rightarrow> bool" where
  "has_pending_updates g \<longleftrightarrow> gr_pending g \<noteq> [] \<or> gr_pending_images g \<noteq> [] \<or> gr_texture_operations g \<noteq> []"

record update_queues =
  uq_pending :: "graphic_data list"
  uq_pending_images :: "(u32 \<times> graphic_data) list"
  uq_remove :: "u64 list"

definition take_queues :: "graphics \<Rightarrow> graphics \<times> update_queues option" where
  "take_queues g =
     (let remove = gr_texture_operations g; g = g\<lparr>gr_texture_operations := []\<rparr> in
      if remove = [] \<and> gr_pending g = [] \<and> gr_pending_images g = [] then (g, None)
      else (g\<lparr>gr_pending := [], gr_pending_images := []\<rparr>,
            Some \<lparr>uq_pending = gr_pending g, uq_pending_images = gr_pending_images g, uq_remove = remove\<rparr>))"

definition allocate_placement_id :: "graphics \<Rightarrow> graphics \<times> u32" where
  "allocate_placement_id g =
     (let i = (if gr_next_placement_id g < 0x80000000 then 0x80000000 else gr_next_placement_id g);
          next = (if i = -1 then 0x80000000 else i + 1)
      in (g\<lparr>gr_next_placement_id := next\<rparr>, i))"

definition swap_kitty_screen_state :: "graphics \<Rightarrow> graphics" where
  "swap_kitty_screen_state g = g\<lparr>gr_active := gr_inactive g, gr_inactive := gr_active g, gr_dirty := True\<rparr>"

definition image_bytes :: "graphic_data \<Rightarrow> nat" where
  \<comment> \<open>\<open>calculate_graphic_bytes\<close>\<close>
  "image_bytes d = length (gd_pixels d)"

definition screen_bytes :: "kitty_screen \<Rightarrow> nat" where
  "screen_bytes s = sum_list (map (\<lambda>(_, i). image_bytes (si_data i)) (ks_images s))"

definition clear_all_kitty_state :: "graphics \<Rightarrow> graphics" where
  "clear_all_kitty_state g =
     g\<lparr>gr_total_bytes := gr_total_bytes g - screen_bytes (gr_inactive g),
       gr_active := kitty_screen_empty, gr_inactive := kitty_screen_empty, gr_dirty := True\<rparr>"

datatype candidate_source = FromPending | FromActive | FromInactive

record candidate =
  cd_id :: u64
  cd_time :: nat
  cd_used :: bool
  cd_bytes :: nat
  cd_source :: candidate_source

fun tier_for :: "candidate_source \<Rightarrow> bool \<Rightarrow> nat" where
  "tier_for FromInactive used = 0"
| "tier_for FromPending used = (if used then 2 else 1)"
| "tier_for FromActive used = (if used then 2 else 1)"

definition candidates :: "graphics \<Rightarrow> u64 set \<Rightarrow> candidate list" where
  "candidates g used =
     List.map_filter (\<lambda>d. map_option (\<lambda>t. \<lparr>cd_id = gd_id d, cd_time = t, cd_used = gd_id d \<in> used,
         cd_bytes = image_bytes d, cd_source = FromPending\<rparr>) (map_of (gr_timestamps g) (gd_id d))) (gr_pending g)
     @ map (\<lambda>(i, s). \<lparr>cd_id = ucast i, cd_time = si_time s, cd_used = ucast i \<in> used,
         cd_bytes = image_bytes (si_data s), cd_source = FromActive\<rparr>) (ks_images (gr_active g))
     @ map (\<lambda>(i, s). \<lparr>cd_id = ucast i, cd_time = si_time s, cd_used = False,
         cd_bytes = image_bytes (si_data s), cd_source = FromInactive\<rparr>) (ks_images (gr_inactive g))"

definition cand_key :: "candidate \<Rightarrow> nat \<times> nat" where
  "cand_key c = (tier_for (cd_source c) (cd_used c), cd_time c)"

definition cand_le :: "candidate \<Rightarrow> candidate \<Rightarrow> bool" where
  "cand_le a b \<longleftrightarrow> fst (cand_key a) < fst (cand_key b) \<or>
     (fst (cand_key a) = fst (cand_key b) \<and> snd (cand_key a) \<le> snd (cand_key b))"

fun cand_insert :: "candidate \<Rightarrow> candidate list \<Rightarrow> candidate list" where
  \<comment> \<open>a stable insertion sort for \<open>sort_by\<close>\<close>
  "cand_insert c [] = [c]"
| "cand_insert c (d # ds) = (if cand_le c d then c # d # ds else d # cand_insert c ds)"

definition cand_sort :: "candidate list \<Rightarrow> candidate list" where
  "cand_sort cs = foldr cand_insert cs []"

fun take_until_freed :: "nat \<Rightarrow> nat \<Rightarrow> candidate list \<Rightarrow> nat \<times> candidate list" where
  \<comment> \<open>the selecting loop: bytes freed so far, and what is evicted\<close>
  "take_until_freed need freed [] = (freed, [])"
| "take_until_freed need freed (c # cs) =
     (if freed \<ge> need then (freed, [])
      else (let (f, es) = take_until_freed need (freed + cd_bytes c) cs in (f, c # es)))"

definition screen_remove :: "kitty_screen \<Rightarrow> u32 \<Rightarrow> kitty_screen" where
  "screen_remove s i = s\<lparr>ks_images := AList.delete i (ks_images s),
     ks_numbers := filter (\<lambda>(_, v). v \<noteq> i) (ks_numbers s)\<rparr>"

definition evict_one :: "candidate \<Rightarrow> graphics \<Rightarrow> graphics" where
  "evict_one c g =
     (let i = (ucast (cd_id c) :: u32);
          g = (case cd_source c of
                 FromPending \<Rightarrow> g\<lparr>gr_pending := filter (\<lambda>d. gd_id d \<noteq> cd_id c) (gr_pending g)\<rparr>
               | FromActive \<Rightarrow> g\<lparr>gr_active := screen_remove (gr_active g) i\<rparr>
               | FromInactive \<Rightarrow> g\<lparr>gr_inactive := screen_remove (gr_inactive g) i\<rparr>)
      in g\<lparr>gr_timestamps := AList.delete (cd_id c) (gr_timestamps g),
           gr_texture_operations := gr_texture_operations g @ [cd_id c]\<rparr>)"

definition sweep_placements :: "kitty_screen \<Rightarrow> kitty_screen" where
  "sweep_placements s = s\<lparr>ks_placements :=
     filter (\<lambda>(_, p). kp_image_id p \<in> fst ` set (ks_images s)) (ks_placements s)\<rparr>"

definition evict_images :: "graphics \<Rightarrow> nat \<Rightarrow> u64 set \<Rightarrow> graphics \<times> bool" where
  "evict_images g required used =
     (if gr_total_bytes g + required \<le> gr_total_limit g then (g, True)
      else
        (let need = gr_total_bytes g + required - gr_total_limit g; cs = candidates g used in
         if cs = [] then (g, False)
         else
           (let (freed, evicted) = take_until_freed need 0 (cand_sort cs);
                g = fold evict_one evicted g;
                g = g\<lparr>gr_active := sweep_placements (gr_active g), gr_inactive := sweep_placements (gr_inactive g)\<rparr>
            in (g\<lparr>gr_total_bytes := gr_total_bytes g - freed\<rparr>, freed \<ge> need))))"

definition make_room :: "graphics \<Rightarrow> u32 \<Rightarrow> nat \<Rightarrow> graphics" where
  \<comment> \<open>evict before storing; images with placements and the one stored are the last to go\<close>
  "make_room g i new_bytes =
     (if gr_total_bytes g + new_bytes > gr_total_limit g
      then fst (evict_images g new_bytes
        (insert (ucast i) ((\<lambda>(_, p). ucast (kp_image_id p)) ` set (ks_placements (gr_active g)))))
      else g)"

definition forget_bytes :: "graphics \<Rightarrow> u32 \<Rightarrow> graphics" where
  "forget_bytes g i =
     (case map_of (ks_images (gr_active g)) i of
        Some old \<Rightarrow> g\<lparr>gr_total_bytes := gr_total_bytes g - image_bytes (si_data old)\<rparr>
      | None \<Rightarrow> g)"

definition store_kitty_image :: "graphics \<Rightarrow> nat \<Rightarrow> u32 \<Rightarrow> u32 option \<Rightarrow> graphic_data \<Rightarrow> graphics" where
  \<comment> \<open>the second argument is the clock\<close>
  "store_kitty_image g now i number d =
     (let d = d\<lparr>gd_transmit_time := now\<rparr>; new_bytes = image_bytes d;
          g = forget_bytes (make_room g i new_bytes) i;
          g = g\<lparr>gr_active := (gr_active g)\<lparr>ks_images :=
                AList.update i \<lparr>si_data = d, si_time = now\<rparr> (ks_images (gr_active g))\<rparr>,
              gr_total_bytes := gr_total_bytes g + new_bytes\<rparr>
      in case number of
           Some n \<Rightarrow> g\<lparr>gr_active := (gr_active g)\<lparr>ks_numbers := AList.update n i (ks_numbers (gr_active g))\<rparr>\<rparr>
         | None \<Rightarrow> g)"

definition get_kitty_image :: "graphics \<Rightarrow> u32 \<Rightarrow> stored_image option" where
  "get_kitty_image g i = map_of (ks_images (gr_active g)) i"

definition get_kitty_image_by_number :: "graphics \<Rightarrow> u32 \<Rightarrow> stored_image option" where
  "get_kitty_image_by_number g n = Option.bind (map_of (ks_numbers (gr_active g)) n) (get_kitty_image g)"

definition delete_kitty_images :: "graphics \<Rightarrow> (u32 \<Rightarrow> stored_image \<Rightarrow> bool) \<Rightarrow> graphics" where
  "delete_kitty_images g P =
     (let s = gr_active g; s = s\<lparr>ks_images := filter (\<lambda>(i, m). \<not> P i m) (ks_images s)\<rparr>
      in g\<lparr>gr_active := s\<lparr>ks_numbers := filter (\<lambda>(_, i). i \<in> fst ` set (ks_images s)) (ks_numbers s)\<rparr>\<rparr>)"

definition register_placed_texture :: "graphics \<Rightarrow> u64 \<Rightarrow> graphics" where
  "register_placed_texture g i = g\<lparr>gr_placed := i # filter (\<lambda>j. j \<noteq> i) (gr_placed g)\<rparr>"

definition collect_active_graphic_ids :: "(u64 \<Rightarrow> bool) \<Rightarrow> graphics \<Rightarrow> graphics \<times> u64 set" where
  "collect_active_graphic_ids alive g =
     (let placed = filter alive (gr_placed g) in
      (g\<lparr>gr_placed := placed\<rparr>,
       set placed \<union> (\<lambda>(_, p). ucast (kp_image_id p)) ` set (ks_placements (gr_active g))))"

definition track_graphic :: "graphics \<Rightarrow> nat \<Rightarrow> u64 \<Rightarrow> nat \<Rightarrow> graphics" where
  "track_graphic g now i bytes = g\<lparr>gr_timestamps := AList.update i now (gr_timestamps g),
     gr_total_bytes := gr_total_bytes g + bytes\<rparr>"

definition untrack_graphic :: "graphics \<Rightarrow> u64 \<Rightarrow> nat \<Rightarrow> graphics" where
  "untrack_graphic g i bytes = g\<lparr>gr_timestamps := AList.delete i (gr_timestamps g),
     gr_total_bytes := gr_total_bytes g - bytes\<rparr>"

subsection \<open>Accounting\<close>

definition screen_wf :: "kitty_screen \<Rightarrow> bool" where
  \<comment> \<open>a hash map's keys are distinct, and every number leads to an image\<close>
  "screen_wf s \<longleftrightarrow> distinct (map fst (ks_images s)) \<and> distinct (map fst (ks_numbers s)) \<and>
     snd ` set (ks_numbers s) \<subseteq> fst ` set (ks_images s)"

definition accounted :: "nat \<Rightarrow> graphics \<Rightarrow> bool" where
  \<comment> \<open>the counter is the stored images' size plus \<open>k\<close>, what has gone to the renderer\<close>
  "accounted k g \<longleftrightarrow> gr_total_bytes g = screen_bytes (gr_active g) + screen_bytes (gr_inactive g) + k"

definition kitty_wf :: "graphics \<Rightarrow> bool" where
  "kitty_wf g \<longleftrightarrow> gr_pending g = [] \<and> screen_wf (gr_active g) \<and> screen_wf (gr_inactive g)"

definition cand_screen :: "graphics \<Rightarrow> candidate \<Rightarrow> kitty_screen" where
  "cand_screen g c = (if cd_source c = FromActive then gr_active g else gr_inactive g)"

definition cand_valid :: "graphics \<Rightarrow> candidate \<Rightarrow> bool" where
  "cand_valid g c \<longleftrightarrow> cd_source c \<noteq> FromPending \<and>
     (\<exists>s. map_of (ks_images (cand_screen g c)) (ucast (cd_id c)) = Some s \<and> cd_bytes c = image_bytes (si_data s))"

definition cand_name :: "candidate \<Rightarrow> candidate_source \<times> u32" where
  "cand_name c = (cd_source c, ucast (cd_id c))"

lemma screen_bytes_delete:
  assumes "distinct (map fst xs)" "map_of xs i = Some s"
  shows "sum_list (map (\<lambda>(_, m). image_bytes (si_data m)) xs) =
    image_bytes (si_data s) + sum_list (map (\<lambda>(_, m). image_bytes (si_data m)) (AList.delete i xs))"
  using assms
proof (induction xs)
  case (Cons x xs)
  show ?case
  proof (cases "fst x = i")
    case True
    with Cons.prems have "i \<notin> fst ` set xs" by auto
    then have "AList.delete i xs = xs" by (rule AList.delete_id)
    with True Cons.prems show ?thesis by (cases x) auto
  qed (use Cons in \<open>cases x; auto\<close>)
qed simp

lemma screen_bytes_update:
  assumes "distinct (map fst xs)"
  shows "sum_list (map (\<lambda>(_, m). image_bytes (si_data m)) (AList.update i t xs)) +
      (case map_of xs i of Some s \<Rightarrow> image_bytes (si_data s) | None \<Rightarrow> 0) =
    sum_list (map (\<lambda>(_, m). image_bytes (si_data m)) xs) + image_bytes (si_data t)"
  using assms
proof (induction xs)
  case (Cons x xs)
  have "fst x = i \<Longrightarrow> map_of xs i = None" using Cons.prems by (auto simp: map_of_eq_None_iff)
  with Cons show ?case by (cases x) (auto split: option.splits)
qed simp

lemma keys_delete: "fst ` set (AList.delete i xs) = fst ` set xs - {i}"
  by (auto simp: AList.delete_eq image_iff)

lemma distinct_filter_keys: "distinct (map fst xs) \<Longrightarrow> distinct (map fst (filter P xs))"
  by (induction xs) auto

lemma screen_remove_effect:
  assumes "screen_wf s" "map_of (ks_images s) i = Some m"
  shows "screen_wf (screen_remove s i)"
    and "screen_bytes s = image_bytes (si_data m) + screen_bytes (screen_remove s i)"
    and "j \<noteq> i \<Longrightarrow> map_of (ks_images (screen_remove s i)) j = map_of (ks_images s) j"
proof -
  show "screen_bytes s = image_bytes (si_data m) + screen_bytes (screen_remove s i)"
    using assms screen_bytes_delete [of "ks_images s" i m]
    by (simp add: screen_wf_def screen_bytes_def screen_remove_def)
  have "snd ` set (filter (\<lambda>(_, v). v \<noteq> i) (ks_numbers s)) \<subseteq> fst ` set (ks_images s) - {i}"
    using assms(1) by (auto simp: screen_wf_def)
  with assms(1) show "screen_wf (screen_remove s i)"
    by (simp add: screen_wf_def screen_remove_def distinct_delete distinct_filter_keys keys_delete)
qed (simp add: screen_remove_def)

lemma evict_one_effect:
  assumes "kitty_wf g" "cand_valid g c"
  shows "kitty_wf (evict_one c g)"
    and "gr_total_bytes (evict_one c g) = gr_total_bytes g"
    and "gr_total_limit (evict_one c g) = gr_total_limit g"
    and "screen_bytes (gr_active g) + screen_bytes (gr_inactive g) =
      cd_bytes c + (screen_bytes (gr_active (evict_one c g)) + screen_bytes (gr_inactive (evict_one c g)))"
    and "cand_valid g d \<Longrightarrow> cand_name d \<noteq> cand_name c \<Longrightarrow> cand_valid (evict_one c g) d"
proof -
  let ?i = "ucast (cd_id c) :: u32"
  obtain m where m: "map_of (ks_images (cand_screen g c)) ?i = Some m" "cd_bytes c = image_bytes (si_data m)"
    "cd_source c \<noteq> FromPending" using assms(2) by (auto simp: cand_valid_def)
  have wf: "screen_wf (cand_screen g c)" using assms(1) by (simp add: kitty_wf_def cand_screen_def)
  note rm = screen_remove_effect [OF wf m(1)]
  show "gr_total_bytes (evict_one c g) = gr_total_bytes g" "gr_total_limit (evict_one c g) = gr_total_limit g"
    by (simp_all add: evict_one_def Let_def split: candidate_source.split)
  have src: "cd_source c = FromActive \<or> cd_source c = FromInactive" using m(3) by (cases "cd_source c") auto
  from src rm(1) assms(1) show "kitty_wf (evict_one c g)"
    by (elim disjE) (simp_all add: kitty_wf_def evict_one_def Let_def cand_screen_def)
  from src rm(2) m(2) show "screen_bytes (gr_active g) + screen_bytes (gr_inactive g) =
      cd_bytes c + (screen_bytes (gr_active (evict_one c g)) + screen_bytes (gr_inactive (evict_one c g)))"
    by (elim disjE) (simp_all add: evict_one_def Let_def cand_screen_def)
  assume d: "cand_valid g d" "cand_name d \<noteq> cand_name c"
  then have srcd: "cd_source d = FromActive \<or> cd_source d = FromInactive"
    by (cases "cd_source d") (auto simp: cand_valid_def)
  show "cand_valid (evict_one c g) d"
  proof (cases "cd_source d = cd_source c")
    case True
    with d(2) have "ucast (cd_id d) \<noteq> ?i" by (simp add: cand_name_def)
    from rm(3) [OF this] True src d(1) show ?thesis
      by (elim disjE) (simp_all add: cand_valid_def evict_one_def Let_def cand_screen_def)
  next
    case False
    with src srcd d(1) show ?thesis
      by (elim disjE) (simp_all add: cand_valid_def evict_one_def Let_def cand_screen_def)
  qed
qed

lemma evict_list_effect:
  assumes "kitty_wf g" "\<forall>c \<in> set cs. cand_valid g c" "distinct (map cand_name cs)"
  shows "kitty_wf (fold evict_one cs g) \<and> gr_total_bytes (fold evict_one cs g) = gr_total_bytes g \<and>
    gr_total_limit (fold evict_one cs g) = gr_total_limit g \<and>
    screen_bytes (gr_active g) + screen_bytes (gr_inactive g) = sum_list (map cd_bytes cs) +
      (screen_bytes (gr_active (fold evict_one cs g)) + screen_bytes (gr_inactive (fold evict_one cs g)))"
  using assms
proof (induction cs arbitrary: g)
  case (Cons c cs)
  have c: "cand_valid g c" using Cons.prems(2) by simp
  note e = evict_one_effect [OF Cons.prems(1) c]
  have "\<forall>d \<in> set cs. cand_valid (evict_one c g) d"
    using Cons.prems(2,3) by (auto intro!: e(5)) (metis image_eqI)
  from Cons.IH [OF e(1) this] Cons.prems(3) e(2-4) show ?case by simp
qed simp

lemma set_cand_sort: "mset (cand_sort cs) = mset cs"
proof -
  have "mset (cand_insert c ds) = add_mset c (mset ds)" for c ds by (induction ds) auto
  then show ?thesis by (induction cs) (auto simp: cand_sort_def)
qed

lemma take_until_freed_spec:
  "take_until_freed need freed cs = (f, es) \<Longrightarrow>
   (\<exists>rest. cs = es @ rest \<and> (rest \<noteq> [] \<longrightarrow> need \<le> f)) \<and> f = freed + sum_list (map cd_bytes es)"
proof (induction cs arbitrary: freed f es)
  case (Cons c cs)
  show ?case
  proof (cases "freed \<ge> need")
    case False
    obtain f' es' where r: "take_until_freed need (freed + cd_bytes c) cs = (f', es')" by force
    with Cons.IH [OF r] Cons.prems False show ?thesis by auto
  qed (use Cons.prems in simp)
qed simp

lemma candidates_valid:
  assumes "kitty_wf g"
  shows "\<forall>c \<in> set (candidates g used). cand_valid g c" "distinct (map cand_name (candidates g used))"
    "sum_list (map cd_bytes (candidates g used)) = screen_bytes (gr_active g) + screen_bytes (gr_inactive g)"
proof -
  have cast: "(ucast (ucast i :: u64) :: u32) = i" for i by (simp add: ucast_up_ucast_id is_up)
  have d: "distinct (map fst (ks_images (gr_active g)))" "distinct (map fst (ks_images (gr_inactive g)))"
    "gr_pending g = []"
    using assms by (auto simp: kitty_wf_def screen_wf_def)
  show "\<forall>c \<in> set (candidates g used). cand_valid g c"
    using d by (auto simp: candidates_def map_filter_simps cand_valid_def cand_screen_def cast)
  show "distinct (map cand_name (candidates g used))"
    using d by (auto simp: candidates_def map_filter_simps cand_name_def cast comp_def split_def
        distinct_map inj_on_def intro: prod_eqI)
  show "sum_list (map cd_bytes (candidates g used)) = screen_bytes (gr_active g) + screen_bytes (gr_inactive g)"
    by (simp add: candidates_def d(3) map_filter_simps screen_bytes_def comp_def split_def)
qed

lemma sum_list_mset_eq: "mset xs = mset ys \<Longrightarrow> sum_list (map f xs) = sum_list (map f ys)"
  for f :: "'a \<Rightarrow> nat"
  by (metis mset_map sum_mset_sum_list)

lemma sweep_screen [simp]: "screen_wf (sweep_placements s) = screen_wf s"
  "screen_bytes (sweep_placements s) = screen_bytes s"
  by (simp_all add: screen_wf_def screen_bytes_def sweep_placements_def)

lemma evict_images_effect:
  assumes "kitty_wf g" "accounted k g" "evict_images g n used = (h, ok)"
  shows "kitty_wf h \<and> accounted k h \<and> gr_total_limit h = gr_total_limit g \<and>
    (ok \<longleftrightarrow> gr_total_bytes h + n \<le> gr_total_limit h) \<and> (k + n \<le> gr_total_limit g \<longrightarrow> ok)"
proof (cases "gr_total_bytes g + n \<le> gr_total_limit g")
  case True
  with assms show ?thesis by (auto simp: evict_images_def)
next
  case False
  define need where "need = gr_total_bytes g + n - gr_total_limit g"
  define cs where "cs = candidates g used"
  note cand = candidates_valid [OF assms(1), of used, folded cs_def]
  show ?thesis
  proof (cases "cs = []")
    case True
    then have "screen_bytes (gr_active g) + screen_bytes (gr_inactive g) = 0" using cand(3) by simp
    with True False assms show ?thesis
      by (auto simp: evict_images_def Let_def cs_def [symmetric] accounted_def)
  next
    case nonempty: False
    obtain f es where fe: "take_until_freed need 0 (cand_sort cs) = (f, es)" by force
    from take_until_freed_spec [OF fe] obtain rest where
      rest: "cand_sort cs = es @ rest" "rest \<noteq> [] \<longrightarrow> need \<le> f" "f = sum_list (map cd_bytes es)" by auto
    have m: "mset cs = mset (es @ rest)" using set_cand_sort [of cs] rest(1) by simp
    have es: "\<forall>c \<in> set es. cand_valid g c"
      using cand(1) mset_eq_setD [OF m] by auto
    have "distinct (map cand_name (es @ rest))"
      using cand(2) m by (metis mset_eq_imp_distinct_iff mset_map)
    then have "distinct (map cand_name es)" by simp
    note e = evict_list_effect [OF assms(1) es this]
    have total: "sum_list (map cd_bytes es) + sum_list (map cd_bytes rest) =
        screen_bytes (gr_active g) + screen_bytes (gr_inactive g)"
      using sum_list_mset_eq [OF m, of cd_bytes] cand(3) by simp
    define g' where "g' = fold evict_one es g"
    have h: "h = g'\<lparr>gr_active := sweep_placements (gr_active g'), gr_inactive := sweep_placements (gr_inactive g'),
        gr_total_bytes := gr_total_bytes g' - f\<rparr>" "ok = (need \<le> f)"
      using assms(3) False nonempty fe
      by (auto simp: evict_images_def Let_def cs_def [symmetric] need_def [symmetric] g'_def)
    have "need \<le> f" if "k + n \<le> gr_total_limit g"
      using rest(2,3) total that assms(2) by (cases "rest = []") (auto simp: accounted_def need_def)
    with h e False rest(3) assms(2) show ?thesis
      by (auto simp: kitty_wf_def accounted_def g'_def [symmetric] need_def)
  qed
qed

lemma store_image_screen:
  assumes "screen_wf s"
  shows "screen_wf (s\<lparr>ks_images := AList.update i m (ks_images s)\<rparr>)"
    "screen_bytes (s\<lparr>ks_images := AList.update i m (ks_images s)\<rparr>) +
      (case map_of (ks_images s) i of Some old \<Rightarrow> image_bytes (si_data old) | None \<Rightarrow> 0) =
     screen_bytes s + image_bytes (si_data m)"
  using assms screen_bytes_update [of "ks_images s" i m]
  by (auto simp: screen_wf_def screen_bytes_def distinct_update dom_update)

lemma store_number_screen:
  assumes "screen_wf s" "i \<in> fst ` set (ks_images s)"
  shows "screen_wf (s\<lparr>ks_numbers := AList.update n i (ks_numbers s)\<rparr>)"
proof -
  have "snd ` set (AList.update n i xs) \<subseteq> insert i (snd ` set xs)" for xs :: "(u32 \<times> u32) list"
    by (induction xs) auto
  from this [of "ks_numbers s"] assms show ?thesis by (auto simp: screen_wf_def distinct_update)
qed

lemma store_kitty_image_ok:
  assumes "kitty_wf g" "accounted k g"
  and h_def: "h = store_kitty_image g now i number d"
  shows "kitty_wf h" "accounted k h"
    "k + image_bytes d \<le> gr_total_limit g \<Longrightarrow> gr_total_bytes h \<le> gr_total_limit g"
    "get_kitty_image h i = Some \<lparr>si_data = d\<lparr>gd_transmit_time := now\<rparr>, si_time = now\<rparr>"
    "number = Some n \<Longrightarrow> get_kitty_image_by_number h n = get_kitty_image h i"
proof -
  let ?d = "d\<lparr>gd_transmit_time := now\<rparr>" and ?m = "\<lparr>si_data = d\<lparr>gd_transmit_time := now\<rparr>, si_time = now\<rparr>"
  have size: "image_bytes ?d = image_bytes d" by (simp add: image_bytes_def)
  define e where "e = make_room g i (image_bytes d)"
  obtain e' ok where ev: "evict_images g (image_bytes d)
      (insert (ucast i) ((\<lambda>(_, p). ucast (kp_image_id p)) ` set (ks_placements (gr_active g)))) = (e', ok)" by force
  have e: "kitty_wf e" "accounted k e"
    "k + image_bytes d \<le> gr_total_limit g \<longrightarrow> gr_total_bytes e + image_bytes d \<le> gr_total_limit g"
    using evict_images_effect [OF assms(1,2) ev] assms(1,2) ev by (auto simp: e_def make_room_def)
  define f where "f = forget_bytes e i"
  have fa: "gr_active f = gr_active e" by (simp add: f_def forget_bytes_def split: option.split)
  define s where "s = (gr_active e)\<lparr>ks_images := AList.update i ?m (ks_images (gr_active e))\<rparr>"
  define s' where "s' = (case number of Some n \<Rightarrow> s\<lparr>ks_numbers := AList.update n i (ks_numbers s)\<rparr> | None \<Rightarrow> s)"
  have h: "h = f\<lparr>gr_active := s', gr_total_bytes := gr_total_bytes f + image_bytes d\<rparr>"
    by (simp add: h_def store_kitty_image_def Let_def size e_def [symmetric] f_def [symmetric]
        s'_def s_def fa split: option.split)
  have wfa: "screen_wf (gr_active e)" using e(1) by (simp add: kitty_wf_def)
  note s = store_image_screen [OF wfa, of i ?m, folded s_def]
  have dom: "i \<in> fst ` set (ks_images s)" by (simp add: s_def dom_update)
  have s': "screen_wf s'" "ks_images s' = ks_images s" "screen_bytes s' = screen_bytes s"
    using s(1) store_number_screen [OF s(1) dom] by (auto simp: s'_def screen_bytes_def split: option.split)
  have le: "map_of (ks_images (gr_active e)) i = Some old \<Longrightarrow> image_bytes (si_data old) \<le> screen_bytes (gr_active e)" for old
    using screen_remove_effect(2) [OF wfa] by (metis le_add1)
  show "kitty_wf h" using e(1) s'(1) by (auto simp: h f_def forget_bytes_def kitty_wf_def split: option.split)
  show "accounted k h"
    using e(2) s(2) s'(3) le size by (auto simp: h f_def forget_bytes_def accounted_def image_bytes_def split: option.splits)
  show "gr_total_bytes h \<le> gr_total_limit g" if "k + image_bytes d \<le> gr_total_limit g"
    using e(3) that by (auto simp: h f_def forget_bytes_def split: option.split)
  show get: "get_kitty_image h i = Some ?m"
    by (simp add: get_kitty_image_def h s'(2)) (simp add: s_def update_conv')
  assume "number = Some n"
  with get show "get_kitty_image_by_number h n = get_kitty_image h i"
    by (simp add: get_kitty_image_by_number_def) (simp add: h s'_def update_conv')
qed

subsection \<open>Properties\<close>

text \<open>C38. Storing an image keeps the accounting: the byte counter is the size of all images of
  both screens plus what has gone to the renderer, replacing an image returns its bytes, and
  when the new image and what cannot be evicted fit the limit, the counter ends within it
  however much has to be evicted. The image is found under its id and its number afterwards,
  and no number leads to an image that is not there.\<close>

theorem store_within_limit:
  assumes "kitty_wf g" "accounted k g" "h = store_kitty_image g now i number d"
  shows "kitty_wf h \<and> accounted k h \<and>
    (k + image_bytes d \<le> gr_total_limit g \<longrightarrow> gr_total_bytes h \<le> gr_total_limit g) \<and>
    get_kitty_image h i = Some \<lparr>si_data = d\<lparr>gd_transmit_time := now\<rparr>, si_time = now\<rparr> \<and>
    (\<forall>n. number = Some n \<longrightarrow> get_kitty_image_by_number h n = get_kitty_image h i)"
  using store_kitty_image_ok [OF assms] by simp

theorem store_within_limit_witness:
  "\<exists>h d. h = store_kitty_image (graphics_default\<lparr>gr_total_limit := 10\<rparr>) 0 1 (Some 7) d \<and>
     gd_pixels d = [1, 2, 3] \<and> gr_total_bytes h \<le> 10 \<and> get_kitty_image_by_number h 7 = get_kitty_image h 1"
proof -
  let ?g = "graphics_default\<lparr>gr_total_limit := 10\<rparr>"
  let ?d = "\<lparr>gd_id = 1, gd_width = 1, gd_height = 1, gd_color_type = ColorRgb, gd_pixels = [1, 2, 3],
    gd_is_opaque = True, gd_resize = None, gd_display_width = None, gd_display_height = None, gd_transmit_time = 0\<rparr>"
  have "kitty_wf ?g" "accounted 0 ?g"
    by (simp_all add: kitty_wf_def accounted_def graphics_default_def kitty_screen_empty_def screen_wf_def screen_bytes_def)
  from store_within_limit [OF this refl, where d = ?d and now = 0 and i = 1 and number = "Some 7"]
  have "gr_total_bytes (store_kitty_image ?g 0 1 (Some 7) ?d) \<le> 10"
    "get_kitty_image_by_number (store_kitty_image ?g 0 1 (Some 7) ?d) 7 = get_kitty_image (store_kitty_image ?g 0 1 (Some 7) ?d) 1"
    by (auto simp: image_bytes_def)
  then show ?thesis by (intro exI [of _ "store_kitty_image ?g 0 1 (Some 7) ?d"] exI [of _ ?d]) simp
qed

text \<open>Deleting images and resetting the terminal lose track of memory: a deleted image's bytes,
  and on a reset those of the active screen, stay in the counter, so that it exceeds the
  memory in use and later images are evicted although there is room.\<close>

theorem deleting_leaks_accounting:
  assumes "accounted k g"
  shows "accounted (k + (screen_bytes (gr_active g) - screen_bytes (gr_active (delete_kitty_images g P))))
      (delete_kitty_images g P) \<and>
    accounted (k + screen_bytes (gr_active g)) (clear_all_kitty_state g)"
proof
  have "sum_list (map f (filter Q xs)) \<le> sum_list (map f xs)" for f :: "u32 \<times> stored_image \<Rightarrow> nat" and Q xs
    by (induction xs) auto
  then have "screen_bytes (gr_active (delete_kitty_images g P)) \<le> screen_bytes (gr_active g)"
    by (simp add: screen_bytes_def delete_kitty_images_def Let_def)
  moreover have "gr_total_bytes (delete_kitty_images g P) = gr_total_bytes g"
    "gr_inactive (delete_kitty_images g P) = gr_inactive g"
    by (simp_all add: delete_kitty_images_def Let_def)
  ultimately show "accounted (k + (screen_bytes (gr_active g) - screen_bytes (gr_active (delete_kitty_images g P))))
      (delete_kitty_images g P)"
    using assms by (simp add: accounted_def)
  show "accounted (k + screen_bytes (gr_active g)) (clear_all_kitty_state g)"
    using assms by (simp add: accounted_def clear_all_kitty_state_def kitty_screen_empty_def screen_bytes_def)
qed

theorem deleting_leaks_accounting_witness:
  "\<exists>g. accounted 0 g \<and> accounted 3 (clear_all_kitty_state g) \<and> gr_total_bytes (clear_all_kitty_state g) = 3"
proof -
  let ?d = "\<lparr>gd_id = 1, gd_width = 1, gd_height = 1, gd_color_type = ColorRgb, gd_pixels = [1, 2, 3],
    gd_is_opaque = True, gd_resize = None, gd_display_width = None, gd_display_height = None, gd_transmit_time = 0\<rparr>"
  let ?g = "graphics_default\<lparr>gr_total_bytes := 3, gr_active :=
    kitty_screen_empty\<lparr>ks_images := [(1, \<lparr>si_data = ?d, si_time = 0\<rparr>)]\<rparr>\<rparr>"
  have g: "accounted 0 ?g" "screen_bytes (gr_active ?g) = 3"
    by (simp_all add: accounted_def graphics_default_def kitty_screen_empty_def screen_bytes_def image_bytes_def)
  from deleting_leaks_accounting [OF g(1)] g(2) have "accounted 3 (clear_all_kitty_state ?g)" by simp
  moreover from this have "gr_total_bytes (clear_all_kitty_state ?g) = 3"
    by (simp add: accounted_def clear_all_kitty_state_def kitty_screen_empty_def screen_bytes_def)
  ultimately show ?thesis using g(1) by blast
qed

end
