(* ===== verification/Terminal.thy ===== *)
theory Terminal
  imports Grid Modes Selection KittyStore
begin

text \<open>
  \<open>crosswords/mod.rs\<close>, the terminal: its state and the operations the handlers share (damage,
  scrolling, wrapping, writing a cell). A panic is \<open>None\<close>. The event listener is a log of the
  events sent to it. Not in the state: the ids of the window and the route, which only
  label events, the parsers of the image protocols, and the cell's size in pixels.
\<close>

subsection \<open>State\<close>

type_synonym rstring = "rchar list"

datatype clipboard_type = ClipClipboard | ClipSelection

datatype progress_state = ProgRemove | ProgSet | ProgError | ProgIndeterminate | ProgPause

datatype rio_event =
    RenderRoute
  | MouseCursorDirty
  | CursorBlinkingChange
  | PtyWrite string
  | ColorRequest nat "color_rgb \<Rightarrow> string"
  | ColorChange nat "color_rgb option"
  | ClipboardStore clipboard_type rstring
  | ClipboardLoad clipboard_type "rstring \<Rightarrow> string"
  | TextAreaSizeRequest "nat \<Rightarrow> nat \<Rightarrow> string" \<comment> \<open>of the width and the height\<close>
  | ProgressReport progress_state "u8 option"
  | UpdateGraphics update_queues
  | Bell
  | DesktopNotification rstring rstring

record crosswords =
  active_charset :: charset_index
  cw_mode :: mode
  vi_cursor :: pos
  cgrid :: grid
  inactive_grid :: grid
  scroll_region :: "int \<times> int"
  tabs :: "bool list"
  event_log :: "rio_event list"
  cw_selection :: "selection option"
  cw_colors :: "color_rgb option list"
  cw_title :: rstring
  damage :: damage_state
  cw_graphics :: graphics
  cw_cursor_shape :: cursor_shape
  default_cursor_shape :: cursor_shape
  blinking_cursor :: bool
  title_stack :: "rstring list"
  current_directory :: "rstring option"
  kb_stack :: "u8 list"
  kb_idx :: nat
  inactive_kb_stack :: "u8 list"
  inactive_kb_idx :: nat
  win32_input_mode_allowed :: bool

text \<open>What the terminal calls of other packages: the width of a character, the check that a
  variation selector applies to a base, Base64, the package's version, the platform, and how the
  cell's size in pixels, which the window system gives, prints.\<close>

record env =
  char_width :: "rchar \<Rightarrow> nat option"
  vs_is_valid_base :: "rchar \<Rightarrow> rchar \<Rightarrow> bool"
  base64_decode :: "u8 list \<Rightarrow> u8 list option"
  base64_encode :: "rstring \<Rightarrow> string"
  from_utf8 :: "u8 list \<Rightarrow> rstring option"
  pkg_version :: string
  on_windows :: bool
  cell_height_text :: string
  cell_width_text :: string

definition TITLE_STACK_MAX_DEPTH :: nat where "TITLE_STACK_MAX_DEPTH = 4096"
definition KEYBOARD_MODE_STACK_MAX_DEPTH :: nat where "KEYBOARD_MODE_STACK_MAX_DEPTH = 8"
definition COLOR_COUNT :: nat where "COLOR_COUNT = 269"

definition crosswords_new :: "dims \<Rightarrow> cursor_shape \<Rightarrow> nat \<Rightarrow> crosswords option" where
  \<comment> \<open>\<open>Crosswords::new(dimensions, cursor_shape, .., scrollback_history_limit)\<close>\<close>
  "crosswords_new d shape limit = do {
     g \<leftarrow> grid_new (screen_lines d) (columns d) limit;
     alt \<leftarrow> grid_new (screen_lines d) (columns d) 0;
     Some \<lparr>active_charset = G0,
       cw_mode = M_SHOW_CURSOR OR M_LINE_WRAP OR M_ALTERNATE_SCROLL OR M_URGENCY_HINTS,
       vi_cursor = cpos (gcursor g), cgrid = g, inactive_grid = alt,
       scroll_region = (0, int (screen_lines d)), tabs = tabs_new (columns d), event_log = [],
       cw_selection = None, cw_colors = replicate COLOR_COUNT None, cw_title = [],
       damage = damage_new (screen_lines d), cw_graphics = graphics_default,
       cw_cursor_shape = shape, default_cursor_shape = shape, blinking_cursor = False,
       title_stack = [], current_directory = None,
       kb_stack = replicate KEYBOARD_MODE_STACK_MAX_DEPTH 0, kb_idx = 0,
       inactive_kb_stack = replicate KEYBOARD_MODE_STACK_MAX_DEPTH 0, inactive_kb_idx = 0,
       win32_input_mode_allowed = False\<rparr>
   }"

subsection \<open>Updates of parts of the state\<close>

definition as_usize :: "int \<Rightarrow> nat" where
  \<comment> \<open>\<open>i32 as usize\<close>: sign-extends\<close>
  "as_usize l = (if 0 \<le> l then nat l else nat (l + 2 ^ 64))"

definition on_grid :: "crosswords \<Rightarrow> grid option \<Rightarrow> crosswords option" where
  "on_grid t m = map_option (\<lambda>g. t\<lparr>cgrid := g\<rparr>) m"

definition with_cursor :: "crosswords \<Rightarrow> (square cursor \<Rightarrow> square cursor) \<Rightarrow> crosswords" where
  \<comment> \<open>an assignment to fields of \<open>self.grid.cursor\<close>\<close>
  "with_cursor t f = t\<lparr>cgrid := (cgrid t)\<lparr>gcursor := f (gcursor (cgrid t))\<rparr>\<rparr>"

abbreviation cur :: "crosswords \<Rightarrow> square cursor" where "cur t \<equiv> gcursor (cgrid t)"
abbreviation cur_row :: "crosswords \<Rightarrow> int" where "cur_row t \<equiv> row (cpos (gcursor (cgrid t)))"
abbreviation cur_col :: "crosswords \<Rightarrow> nat" where "cur_col t \<equiv> col (cpos (gcursor (cgrid t)))"

definition set_cur_row :: "crosswords \<Rightarrow> int \<Rightarrow> crosswords" where
  "set_cur_row t l = with_cursor t (\<lambda>c. c\<lparr>cpos := Pos l (col (cpos c))\<rparr>)"

definition set_cur_col :: "crosswords \<Rightarrow> nat \<Rightarrow> crosswords" where
  "set_cur_col t k = with_cursor t (\<lambda>c. c\<lparr>cpos := Pos (row (cpos c)) k\<rparr>)"

definition set_should_wrap :: "crosswords \<Rightarrow> bool \<Rightarrow> crosswords" where
  "set_should_wrap t b = with_cursor t (\<lambda>c. c\<lparr>should_wrap := b\<rparr>)"

definition send :: "crosswords \<Rightarrow> rio_event \<Rightarrow> crosswords" where
  "send t e = t\<lparr>event_log := event_log t @ [e]\<rparr>"

definition mode_on :: "crosswords \<Rightarrow> mode \<Rightarrow> bool" where
  "mode_on t m \<longleftrightarrow> bit_contains (cw_mode t) m"

definition mode_ins :: "crosswords \<Rightarrow> mode \<Rightarrow> crosswords" where
  "mode_ins t m = t\<lparr>cw_mode := bit_insert (cw_mode t) m\<rparr>"

definition mode_rem :: "crosswords \<Rightarrow> mode \<Rightarrow> crosswords" where
  "mode_rem t m = t\<lparr>cw_mode := bit_remove (cw_mode t) m\<rparr>"

definition overlays_moved :: "crosswords \<Rightarrow> crosswords" where
  \<comment> \<open>\<open>if !kitty_placements.is_empty() { kitty_graphics_dirty = true }\<close>\<close>
  "overlays_moved t =
     (if ks_placements (gr_active (cw_graphics t)) \<noteq> []
      then t\<lparr>cw_graphics := (cw_graphics t)\<lparr>gr_dirty := True\<rparr>\<rparr> else t)"

definition grid_col_count :: "crosswords \<Rightarrow> nat" where "grid_col_count t = g_columns (cgrid t)"
definition screen_line_count :: "crosswords \<Rightarrow> nat" where "screen_line_count t = g_lines (cgrid t)"

subsection \<open>Damage\<close>

definition mark_fully_damaged :: "crosswords \<Rightarrow> crosswords" where
  "mark_fully_damaged t =
     (let was_damaged = dm_full (damage t); t = t\<lparr>damage := (damage t)\<lparr>dm_full := True\<rparr>\<rparr>
      in if \<not> was_damaged then send t RenderRoute else t)"

definition damage_line :: "crosswords \<Rightarrow> int \<Rightarrow> crosswords option" where
  \<comment> \<open>of a line number cast to \<open>usize\<close>; also \<open>mark_line_damaged\<close>\<close>
  "damage_line t l = map_option (\<lambda>d. t\<lparr>damage := d\<rparr>) (damage_mark (damage t) (as_usize l))"

definition damage_cursor :: "crosswords \<Rightarrow> crosswords option" where
  \<comment> \<open>also \<open>damage_cursor_line\<close>\<close>
  "damage_cursor t = damage_line t (cur_row t)"

definition damage_lines :: "crosswords \<Rightarrow> int list \<Rightarrow> crosswords option" where
  \<comment> \<open>\<open>for line in .. { damage_line(line) }\<close>\<close>
  "damage_lines t ls = foldM damage_line t ls"

definition update_selection_damage ::
    "crosswords \<Rightarrow> selection_range option \<Rightarrow> nat \<Rightarrow> crosswords option" where
  "update_selection_damage t new off = do {
     d \<leftarrow> (case dm_last_selection (damage t) of
             Some old \<Rightarrow> damage_selection (damage t) old off | None \<Rightarrow> Some (damage t));
     d \<leftarrow> (case new of Some s \<Rightarrow> damage_selection d s off | None \<Rightarrow> Some d);
     Some (t\<lparr>damage := d\<lparr>dm_last_selection := new\<rparr>\<rparr>)
   }"

datatype term_damage = DamageFull | DamagePartial "line_damage list"

definition take_damage :: "crosswords \<Rightarrow> (crosswords \<times> term_damage) option" where
  \<comment> \<open>\<open>Crosswords::damage\<close>, with the items of the iterator it returns\<close>
  "take_damage t =
     (let t = (if mode_on t M_INSERT then mark_fully_damaged t else t);
          previous = dm_last_cursor (damage t);
          t = t\<lparr>damage := (damage t)\<lparr>dm_last_cursor := cpos (cur t)\<rparr>\<rparr> in
      if dm_full (damage t) then Some (t, DamageFull)
      else do {
        t \<leftarrow> (if dm_last_cursor (damage t) \<noteq> previous then damage_line t (row previous) else Some t);
        Some (t, DamagePartial (damage_iter (damage t) (display_offset (cgrid t))))
      })"

datatype terminal_damage = TdNoop | TdFull | TdPartial | TdCursorOnly

definition damage_visible_line :: "crosswords \<Rightarrow> int \<Rightarrow> crosswords option" where
  "damage_visible_line t l =
     (if l \<ge> 0 \<and> nat l < length (dm_lines (damage t)) then damage_line t l else Some t)"

definition damage_event :: "crosswords \<Rightarrow> (crosswords \<times> terminal_damage option) option" where
  "damage_event t =
     (let t = (if mode_on t M_INSERT then mark_fully_damaged t else t);
          previous = dm_last_cursor (damage t);
          t = t\<lparr>damage := (damage t)\<lparr>dm_last_cursor := cpos (cur t)\<rparr>\<rparr> in
      if dm_full (damage t) then Some (t, Some TdFull)
      else do {
        t \<leftarrow> (if previous \<noteq> cpos (cur t) then do {
                t \<leftarrow> damage_visible_line t (row previous);
                damage_visible_line t (cur_row t)
              } else Some t);
        Some (t, if list_ex ld_damaged (dm_lines (damage t)) then Some TdPartial else None)
      })"

definition peek_damage_event :: "crosswords \<Rightarrow> terminal_damage option" where
  "peek_damage_event t =
     (if dm_full (damage t) then Some TdFull
      else if list_ex ld_damaged (dm_lines (damage t)) then Some TdPartial
      else if dm_last_cursor (damage t) \<noteq> cpos (cur t) then Some TdCursorOnly
      else None)"

definition reset_damage :: "crosswords \<Rightarrow> crosswords" where
  "reset_damage t = t\<lparr>damage := damage_reset (damage t)\<rparr>"

definition needs_render :: "crosswords \<Rightarrow> bool" where
  "needs_render t \<longleftrightarrow> dm_full (damage t) \<or> list_ex ld_damaged (dm_lines (damage t))"

subsection \<open>Scrolling\<close>

definition rotate_selection :: "crosswords \<Rightarrow> int \<times> int \<Rightarrow> int \<Rightarrow> crosswords option" where
  \<comment> \<open>\<open>self.selection.take().and_then(|s| s.rotate(&self.grid, &region, delta))\<close>\<close>
  "rotate_selection t region delta =
     (case cw_selection t of
        None \<Rightarrow> Some t
      | Some s \<Rightarrow> map_option (\<lambda>r. t\<lparr>cw_selection := r\<rparr>)
          (selection_rotate s (grid_dims (cgrid t)) region delta))"

definition scroll_down_relative :: "crosswords \<Rightarrow> int \<Rightarrow> nat \<Rightarrow> crosswords option" where
  "scroll_down_relative t origin lines =
     (let (start, end) = scroll_region t;
          lines = min lines (as_usize (end - start));
          lines = min lines (as_usize (end - origin));
          region = (origin, end) in do {
        t \<leftarrow> rotate_selection t region (- int lines);
        let t = (if origin \<le> row (vi_cursor t) \<and> end > row (vi_cursor t)
                 then t\<lparr>vi_cursor := Pos (min (row (vi_cursor t) + int lines) (end - 1)) (col (vi_cursor t))\<rparr>
                 else t);
        t \<leftarrow> on_grid t (Grid.scroll_down (cgrid t) region lines);
        Some (overlays_moved (mark_fully_damaged t))
      })"

definition scroll_up_relative :: "crosswords \<Rightarrow> int \<Rightarrow> nat \<Rightarrow> crosswords option" where
  "scroll_up_relative t origin lines =
     (let (start, end) = scroll_region t;
          lines = min lines (as_usize (end - start));
          region = (origin, end) in do {
        t \<leftarrow> rotate_selection t region (int lines);
        t \<leftarrow> on_grid t (Grid.scroll_up (cgrid t) region lines);
        let viewport_top = - int (display_offset (cgrid t));
        let top_line = (if origin = 0 then viewport_top else origin);
        let t = (if top_line \<le> row (vi_cursor t) \<and> end > row (vi_cursor t)
                 then t\<lparr>vi_cursor := Pos (max (row (vi_cursor t) - int lines) top_line) (col (vi_cursor t))\<rparr>
                 else t);
        t \<leftarrow> damage_lines t [origin..end - 1];
        Some (overlays_moved t)
      })"

definition linefeed :: "crosswords \<Rightarrow> crosswords option" where
  "linefeed t =
     (let next = cur_row t + 1; (start, end) = scroll_region t in
      if next = end then scroll_up_relative t start 1
      else if next < int (screen_line_count t) then do {
        t \<leftarrow> damage_cursor t;
        let t = set_cur_row t (cur_row t + 1);
        damage_cursor t
      }
      else Some t)"

definition wrapline :: "crosswords \<Rightarrow> crosswords option" where
  "wrapline t =
     (if \<not> mode_on t M_LINE_WRAP then Some t
      else do {
        t \<leftarrow> on_grid t (cursor_square (cgrid t) (\<lambda>c. sq_set_wrapline c True));
        t \<leftarrow> (if cur_row t + 1 \<ge> snd (scroll_region t) then linefeed t
              else do {
                t \<leftarrow> damage_cursor t;
                Some (set_cur_row t (cur_row t + 1))
              });
        damage_cursor (set_should_wrap (set_cur_col t 0) False)
      })"

subsection \<open>Writing cells\<close>

definition cell_at :: "crosswords \<Rightarrow> pos \<Rightarrow> square option" where
  "cell_at t p = grid_cell (cgrid t) p"

definition set_cell :: "crosswords \<Rightarrow> pos \<Rightarrow> (square \<Rightarrow> square) \<Rightarrow> crosswords option" where
  "set_cell t p f = on_grid t (grid_modify_cell (cgrid t) p f)"

definition set_cursor_cell :: "crosswords \<Rightarrow> (square \<Rightarrow> square) \<Rightarrow> crosswords option" where
  "set_cursor_cell t f = on_grid t (cursor_square (cgrid t) f)"

definition drop_wide_halves :: "crosswords \<Rightarrow> crosswords option" where
  \<comment> \<open>the part of \<open>write_at_cursor\<close> that removes the other half of a wide character\<close>
  "drop_wide_halves t =
     (let p = cpos (cur t) in do {
        t \<leftarrow> set_cursor_cell t (\<lambda>c. c);
        c \<leftarrow> cell_at t p;
        if sq_wide c = Wide \<or> sq_wide c = Spacer then do {
          lc \<leftarrow> last_column (grid_dims (cgrid t));
          t \<leftarrow> (if sq_wide c = Wide \<and> col p < lc
                then set_cell t (Pos (row p) (col p + 1)) (\<lambda>c. sq_set_wide c Narrow)
                else if col p > 0 then set_cell t (Pos (row p) (col p - 1)) sq_clear
                else Some t);
          if col p \<le> 1 \<and> row p \<noteq> topmost_line (grid_dims (cgrid t))
          then set_cell t (Pos (row p - 1) lc)
            (\<lambda>c. if sq_wide c = LeadingSpacer then sq_set_wide c Narrow else c)
          else Some t
        }
        else Some t
      })"

definition template_cell :: "square \<Rightarrow> rchar \<Rightarrow> square" where
  \<comment> \<open>the cell \<open>write_at_cursor\<close> writes, from the cursor's template\<close>
  "template_cell tmpl c =
     sq_set_cell_flags (sq_set_extras_id (sq_set_style_id (sq_set_c 0 c) (sq_style_id tmpl))
       (sq_extras_id tmpl)) (sq_cell_flags tmpl)"

definition write_at_cursor :: "crosswords \<Rightarrow> rchar \<Rightarrow> crosswords option" where
  "write_at_cursor t c = do {
     cs \<leftarrow> charsets_get (charsets (cur t)) (active_charset t);
     let cell = template_cell (template (cur t)) (charset_map cs c);
     t \<leftarrow> drop_wide_halves t;
     set_cursor_cell t (\<lambda>_. cell)
   }"

definition write_wide_at_cursor :: "crosswords \<Rightarrow> rchar \<Rightarrow> wide \<Rightarrow> crosswords option" where
  \<comment> \<open>\<open>write_at_cursor(c); cursor_cell().set_wide(w)\<close>\<close>
  "write_wide_at_cursor t c w = do {
     t \<leftarrow> write_at_cursor t c;
     set_cursor_cell t (\<lambda>c. sq_set_wide c w)
   }"

definition vs16_wrap :: "crosswords \<Rightarrow> nat \<Rightarrow> square \<Rightarrow> crosswords option" where
  \<comment> \<open>the base is in the last column: it moves to the next line, wide\<close>
  "vs16_wrap t base b =
     (let cols = grid_col_count t; r = cur_row t in do {
        t \<leftarrow> write_wide_at_cursor (set_should_wrap (set_cur_col t base) False) 0x20 LeadingSpacer;
        t \<leftarrow> wrapline t;
        let new_row = cur_row t;
        t \<leftarrow> set_cell t (Pos new_row 0) (\<lambda>_. sq_set_wide b Wide);
        t \<leftarrow> write_wide_at_cursor (set_cur_col t 1) 0x20 Spacer;
        let t = (if 2 < cols then set_cur_col t 2 else set_should_wrap t True);
        t \<leftarrow> damage_line t r;
        damage_line t new_row
      })"

definition vs16_widen :: "crosswords \<Rightarrow> nat \<Rightarrow> crosswords option" where
  \<comment> \<open>the base has a cell to its right, which becomes its spacer\<close>
  "vs16_widen t base =
     (let cols = grid_col_count t; r = cur_row t in do {
        t \<leftarrow> set_cell t (Pos r base) (\<lambda>c. sq_set_wide c Wide);
        t \<leftarrow> write_wide_at_cursor (set_should_wrap (set_cur_col t (base + 1)) False) 0x20 Spacer;
        let t = (if base + 2 < cols then set_cur_col t (base + 2) else set_should_wrap t True);
        damage_line t r
      })"

definition apply_emoji_vs16 :: "env \<Rightarrow> crosswords \<Rightarrow> crosswords option" where
  "apply_emoji_vs16 v t =
     (let r = cur_row t; wraps = should_wrap (cur t) in
      if \<not> wraps \<and> cur_col t = 0 then Some t
      else
        (let base = (if wraps then cur_col t else cur_col t - 1) in do {
           b \<leftarrow> cell_at t (Pos r base);
           if sq_wide b \<noteq> Narrow \<or> \<not> vs_is_valid_base v (sq_c b) 0xFE0F then Some t
           else if base + 1 \<ge> grid_col_count t
           then (if \<not> mode_on t M_LINE_WRAP then Some t else vs16_wrap t base b)
           else vs16_widen t base
         }))"

definition apply_emoji_vs15 :: "env \<Rightarrow> crosswords \<Rightarrow> crosswords option" where
  "apply_emoji_vs15 v t =
     (let r = cur_row t; k = cur_col t; wraps = should_wrap (cur t) in
      if (wraps \<and> k = 0) \<or> (\<not> wraps \<and> k < 2) then Some t
      else
        (let base = (if wraps then k - 1 else k - 2); spacer = (if wraps then k else k - 1) in do {
           b \<leftarrow> cell_at t (Pos r base);
           if sq_wide b \<noteq> Wide \<or> \<not> vs_is_valid_base v (sq_c b) 0xFE0E then Some t
           else do {
             t \<leftarrow> set_cell t (Pos r base) (\<lambda>c. sq_set_wide c Narrow);
             t \<leftarrow> set_cell t (Pos r spacer) (\<lambda>_. 0);
             damage_line (set_should_wrap (set_cur_col t spacer) False) r
           }
         }))"

subsection \<open>Input\<close>

definition list_swap :: "'a list \<Rightarrow> nat \<times> nat \<Rightarrow> 'a list option" where
  \<comment> \<open>\<open>slice.swap(a, b)\<close>\<close>
  "list_swap xs ab =
     (if fst ab < length xs \<and> snd ab < length xs
      then Some (xs[fst ab := xs ! snd ab, snd ab := xs ! fst ab]) else None)"

definition row_slice_mut :: "('a list \<Rightarrow> 'a list option) \<Rightarrow> 'a grid_row \<Rightarrow> 'a grid_row option" where
  \<comment> \<open>a use of \<open>&mut row[..]\<close>\<close>
  "row_slice_mut f r =
     map_option (\<lambda>cs. r\<lparr>cells := cs, occ := length (cells r), dirty := True\<rparr>) (f (cells r))"

definition input_zero_width :: "env \<Rightarrow> crosswords \<Rightarrow> rchar \<Rightarrow> crosswords option" where
  "input_zero_width v t c = do {
     t \<leftarrow> (if c = 0xFE0F then apply_emoji_vs16 v t
           else if c = 0xFE0E then apply_emoji_vs15 v t else Some t);
     let column = (if should_wrap (cur t) then cur_col t else cur_col t - 1);
     let r = cur_row t;
     cell \<leftarrow> cell_at t (Pos r column);
     let column = (if sq_wide cell = Spacer then column - 1 else column);
     t \<leftarrow> set_cell t (Pos r column) (\<lambda>c. c);
     cell \<leftarrow> cell_at t (Pos r column);
     t \<leftarrow> (case sq_extras_id cell of
        Some i \<Rightarrow> Some (t\<lparr>cgrid := (cgrid t)\<lparr>g_extras :=
            extras_modify (g_extras (cgrid t)) i (\<lambda>e. e\<lparr>zerowidth := zerowidth e @ [c]\<rparr>)\<rparr>\<rparr>)
      | None \<Rightarrow> do {
          (x, i) \<leftarrow> extras_alloc (g_extras (cgrid t)) (extras_default\<lparr>zerowidth := [c]\<rparr>);
          set_cell (t\<lparr>cgrid := (cgrid t)\<lparr>g_extras := x\<rparr>\<rparr>) (Pos r column)
            (\<lambda>c. sq_insert_cell_flag (sq_set_extras_id c (Some i)) CF_GRAPHEME)
        });
     damage_line t r
   }"

definition PLACEHOLDER :: rchar where "PLACEHOLDER = 0x10EEEE"

definition insert_shift :: "crosswords \<Rightarrow> nat \<Rightarrow> crosswords option" where
  \<comment> \<open>insert mode: make room for \<open>width\<close> cells at the cursor\<close>
  "insert_shift t width =
     (let cols = grid_col_count t in
      if mode_on t M_INSERT \<and> cur_col t + width < cols
      then on_grid t (grid_modify_row (cgrid t) (cur_row t)
        (row_slice_mut (\<lambda>cs. foldM list_swap cs (map (\<lambda>k. (k + width, k)) (rev [cur_col t..<cols - width])))))
      else Some t)"

definition mark_placeholder :: "crosswords \<Rightarrow> rchar \<Rightarrow> crosswords option" where
  "mark_placeholder t c =
     (if c = PLACEHOLDER
      then on_grid t (grid_modify_row (cgrid t) (cur_row t) (\<lambda>r. Some (r\<lparr>kitty_virtual_placeholder := True\<rparr>)))
      else Some t)"

definition advance_cursor :: "crosswords \<Rightarrow> crosswords option" where
  \<comment> \<open>the end of \<open>input\<close>\<close>
  "advance_cursor t = do {
     t \<leftarrow> damage_line t (cur_row t);
     Some (if cur_col t + 1 < grid_col_count t then set_cur_col t (cur_col t + 1) else set_should_wrap t True)
   }"

definition write_wide_char :: "crosswords \<Rightarrow> rchar \<Rightarrow> crosswords option" where
  "write_wide_char t c = do {
     t \<leftarrow> write_wide_at_cursor t c Wide;
     write_wide_at_cursor (set_cur_col t (cur_col t + 1)) 0x20 Spacer
   }"

definition input :: "env \<Rightarrow> crosswords \<Rightarrow> rchar \<Rightarrow> crosswords option" where
  "input v t c =
     (case char_width v c of
        None \<Rightarrow> Some t
      | Some width \<Rightarrow>
          if width = 0 then input_zero_width v t c
          else do {
            t \<leftarrow> (if should_wrap (cur t) then wrapline t else Some t);
            let cols = grid_col_count t;
            t \<leftarrow> insert_shift t width;
            t \<leftarrow> mark_placeholder t c;
            if width = 1 then do {
              t \<leftarrow> write_at_cursor t c;
              advance_cursor t
            }
            else if cur_col t + 1 \<ge> cols then
              (if mode_on t M_LINE_WRAP then do {
                 t \<leftarrow> write_wide_at_cursor t 0x20 LeadingSpacer;
                 t \<leftarrow> wrapline t;
                 t \<leftarrow> write_wide_char t c;
                 advance_cursor t
               }
               else Some (set_should_wrap t True))
            else do {
              t \<leftarrow> write_wide_char t c;
              advance_cursor t
            }
          })"

end
