(* ===== verification/Handlers.thy ===== *)
theory Handlers
  imports Terminal
begin

text \<open>
  The \<open>Handler\<close> implementation of \<open>crosswords/mod.rs\<close>: what each control function does to the
  terminal. The image protocols' handlers (sixel, iTerm2, kitty) are not modelled.
\<close>

subsection \<open>Texts\<close>

definition ESC :: char where "ESC = CHR 0x1B"

definition show_int :: "int \<Rightarrow> string" where
  "show_int i = (if i < 0 then CHR ''-'' # show_nat (nat (- i)) else show_nat (nat i))"

definition pty_write :: "crosswords \<Rightarrow> string \<Rightarrow> crosswords" where
  "pty_write t s = send t (PtyWrite s)"

subsection \<open>Modes\<close>

definition set_mode :: "crosswords \<Rightarrow> ansi_mode \<Rightarrow> crosswords" where
  "set_mode t m =
     (case m of
        UnknownAnsi _ \<Rightarrow> t
      | NamedAnsi ModeInsert \<Rightarrow> mode_ins t M_INSERT
      | NamedAnsi ModeLineFeedNewLine \<Rightarrow> mode_ins t M_LINE_FEED_NEW_LINE)"

definition unset_mode :: "crosswords \<Rightarrow> ansi_mode \<Rightarrow> crosswords" where
  "unset_mode t m =
     (case m of
        UnknownAnsi _ \<Rightarrow> t
      | NamedAnsi ModeInsert \<Rightarrow> mark_fully_damaged (mode_rem t M_INSERT)
      | NamedAnsi ModeLineFeedNewLine \<Rightarrow> mode_rem t M_LINE_FEED_NEW_LINE)"

definition report_mode :: "crosswords \<Rightarrow> ansi_mode \<Rightarrow> crosswords" where
  "report_mode t m =
     (let state = (case m of
          NamedAnsi ModeInsert \<Rightarrow> mode_state_of (mode_on t M_INSERT)
        | NamedAnsi ModeLineFeedNewLine \<Rightarrow> mode_state_of (mode_on t M_LINE_FEED_NEW_LINE)
        | UnknownAnsi _ \<Rightarrow> NotSupported)
      in pty_write t (ESC # ''['' @ show_nat (unat (ansi_mode_raw m)) @ '';'' @ show_nat (mode_state_u8 state) @ ''$y''))"

definition goto :: "crosswords \<Rightarrow> int \<Rightarrow> nat \<Rightarrow> crosswords option" where
  "goto t line k =
     (let (y_offset, max_y) =
        (if mode_on t M_ORIGIN then (fst (scroll_region t), snd (scroll_region t) - 1)
         else (0, bottommost_line (grid_dims (cgrid t)))) in do {
        t \<leftarrow> damage_cursor t;
        lc \<leftarrow> last_column (grid_dims (cgrid t));
        let t = set_cur_col (set_cur_row t (max (min (line + y_offset) max_y) 0)) (min k lc);
        t \<leftarrow> damage_cursor t;
        Some (set_should_wrap t False)
      })"

definition set_scrolling_region :: "crosswords \<Rightarrow> nat \<Rightarrow> nat option \<Rightarrow> crosswords option" where
  "set_scrolling_region t top_line bottom =
     (let bottom = (case bottom of Some b \<Rightarrow> b | None \<Rightarrow> screen_line_count t) in
      if top_line \<ge> bottom then Some t
      else
        (let start = int top_line - 1; end = int bottom; lines = int (screen_line_count t)
         in goto (t\<lparr>scroll_region := (min start lines, min end lines)\<rparr>) 0 0))"

definition reset_screen :: "crosswords \<Rightarrow> crosswords option" where
  \<comment> \<open>\<open>self.grid.reset_region(..)\<close>\<close>
  "reset_screen t = on_grid t (reset_region (cgrid t) (0, int (screen_line_count t)))"

definition deccolm :: "crosswords \<Rightarrow> crosswords option" where
  "deccolm t = do {
     t \<leftarrow> set_scrolling_region t 1 None;
     t \<leftarrow> reset_screen t;
     Some (mark_fully_damaged t)
   }"

definition swap_alt :: "crosswords \<Rightarrow> crosswords option" where
  "swap_alt t = do {
     t \<leftarrow> (if \<not> mode_on t M_ALT_SCREEN then do {
        let t = t\<lparr>inactive_grid := (inactive_grid t)\<lparr>gcursor := cur t\<rparr>\<rparr>;
        let t = t\<lparr>cgrid := (cgrid t)\<lparr>saved_cursor := cur t\<rparr>\<rparr>;
        g \<leftarrow> reset_region (inactive_grid t) (0, int (g_lines (inactive_grid t)));
        Some (t\<lparr>inactive_grid := g\<rparr>)
      } else Some t);
     let t = t\<lparr>kb_stack := inactive_kb_stack t, inactive_kb_stack := kb_stack t,
               kb_idx := inactive_kb_idx t, inactive_kb_idx := kb_idx t,
               cgrid := inactive_grid t, inactive_grid := cgrid t,
               cw_mode := cw_mode t XOR M_ALT_SCREEN, cw_selection := None,
               cw_graphics := swap_kitty_screen_state (cw_graphics t)\<rparr>;
     Some (mark_fully_damaged t)
   }"

definition set_private_mode :: "env \<Rightarrow> crosswords \<Rightarrow> private_mode \<Rightarrow> crosswords option" where
  "set_private_mode v t m =
     (case m of
        UnknownPrivate n \<Rightarrow> Some
          (if n = 80 then mode_ins t M_SIXEL_DISPLAY
           else if n = 1070 then mode_ins t M_SIXEL_PRIV_PALETTE
           else if n = 8452 then mode_ins t M_SIXEL_CURSOR_TO_THE_RIGHT
           else t)
      | NamedPrivate n \<Rightarrow> (case n of
          UrgencyHints \<Rightarrow> Some (mode_ins t M_URGENCY_HINTS)
        | SwapScreenAndSetRestoreCursor \<Rightarrow> if \<not> mode_on t M_ALT_SCREEN then swap_alt t else Some t
        | ShowCursor \<Rightarrow> Some (mode_ins t M_SHOW_CURSOR)
        | CursorKeys \<Rightarrow> Some (mode_ins t M_APP_CURSOR)
        | ReportMouseClicks \<Rightarrow>
            Some (send (mode_ins (mode_rem t M_MOUSE_MODE) M_MOUSE_REPORT_CLICK) MouseCursorDirty)
        | ReportCellMouseMotion \<Rightarrow>
            Some (send (mode_ins (mode_rem t M_MOUSE_MODE) M_MOUSE_DRAG) MouseCursorDirty)
        | ReportAllMouseMotion \<Rightarrow>
            Some (send (mode_ins (mode_rem t M_MOUSE_MODE) M_MOUSE_MOTION) MouseCursorDirty)
        | ReportFocusInOut \<Rightarrow> Some (mode_ins t M_FOCUS_IN_OUT)
        | BracketedPaste \<Rightarrow> Some (mode_ins t M_BRACKETED_PASTE)
        | SgrMouse \<Rightarrow> Some (mode_ins (mode_rem t M_UTF8_MOUSE) M_SGR_MOUSE)
        | Utf8Mouse \<Rightarrow> Some (mode_ins (mode_rem t M_SGR_MOUSE) M_UTF8_MOUSE)
        | AlternateScroll \<Rightarrow> Some (mode_ins t M_ALTERNATE_SCROLL)
        | LineWrap \<Rightarrow> Some (mode_ins t M_LINE_WRAP)
        | Origin \<Rightarrow> Some (mode_ins t M_ORIGIN)
        | ColumnMode \<Rightarrow> deccolm t
        | BlinkingCursor \<Rightarrow> Some (send (t\<lparr>blinking_cursor := True\<rparr>) CursorBlinkingChange)
        | SyncUpdate \<Rightarrow> Some t
        | Win32InputMode \<Rightarrow>
            Some (if on_windows v \<and> win32_input_mode_allowed t then mode_ins t M_WIN32_INPUT_MODE else t)))"

definition unset_private_mode :: "env \<Rightarrow> crosswords \<Rightarrow> private_mode \<Rightarrow> crosswords option" where
  "unset_private_mode v t m =
     (case m of
        UnknownPrivate n \<Rightarrow> Some
          (if n = 80 then mode_rem t M_SIXEL_DISPLAY
           else if n = 1070 then
             mode_rem (t\<lparr>cw_graphics := (cw_graphics t)\<lparr>gr_sixel_palette := None\<rparr>\<rparr>) M_SIXEL_PRIV_PALETTE
           else if n = 8452 then mode_rem t M_SIXEL_CURSOR_TO_THE_RIGHT
           else t)
      | NamedPrivate n \<Rightarrow> (case n of
          UrgencyHints \<Rightarrow> Some (mode_rem t M_URGENCY_HINTS)
        | SwapScreenAndSetRestoreCursor \<Rightarrow> if mode_on t M_ALT_SCREEN then swap_alt t else Some t
        | ShowCursor \<Rightarrow> Some (mode_rem t M_SHOW_CURSOR)
        | CursorKeys \<Rightarrow> Some (mode_rem t M_APP_CURSOR)
        | ReportMouseClicks \<Rightarrow> Some (send (mode_rem t M_MOUSE_REPORT_CLICK) MouseCursorDirty)
        | ReportCellMouseMotion \<Rightarrow> Some (send (mode_rem t M_MOUSE_DRAG) MouseCursorDirty)
        | ReportAllMouseMotion \<Rightarrow> Some (send (mode_rem t M_MOUSE_MOTION) MouseCursorDirty)
        | ReportFocusInOut \<Rightarrow> Some (mode_rem t M_FOCUS_IN_OUT)
        | BracketedPaste \<Rightarrow> Some (mode_rem t M_BRACKETED_PASTE)
        | SgrMouse \<Rightarrow> Some (mode_rem t M_SGR_MOUSE)
        | Utf8Mouse \<Rightarrow> Some (mode_rem t M_UTF8_MOUSE)
        | AlternateScroll \<Rightarrow> Some (mode_rem t M_ALTERNATE_SCROLL)
        | LineWrap \<Rightarrow> Some (mode_rem t M_LINE_WRAP)
        | Origin \<Rightarrow> Some (mode_rem t M_ORIGIN)
        | ColumnMode \<Rightarrow> deccolm t
        | BlinkingCursor \<Rightarrow> Some (send (t\<lparr>blinking_cursor := False\<rparr>) CursorBlinkingChange)
        | SyncUpdate \<Rightarrow> Some t
        | Win32InputMode \<Rightarrow> Some (if on_windows v then mode_rem t M_WIN32_INPUT_MODE else t)))"

definition private_mode_state :: "env \<Rightarrow> crosswords \<Rightarrow> private_mode \<Rightarrow> mode_state" where
  "private_mode_state v t m =
     (case m of
        UnknownPrivate _ \<Rightarrow> NotSupported
      | NamedPrivate n \<Rightarrow> (case n of
          CursorKeys \<Rightarrow> mode_state_of (mode_on t M_APP_CURSOR)
        | Origin \<Rightarrow> mode_state_of (mode_on t M_ORIGIN)
        | LineWrap \<Rightarrow> mode_state_of (mode_on t M_LINE_WRAP)
        | BlinkingCursor \<Rightarrow> mode_state_of (blinking_cursor t)
        | ShowCursor \<Rightarrow> mode_state_of (mode_on t M_SHOW_CURSOR)
        | ReportMouseClicks \<Rightarrow> mode_state_of (mode_on t M_MOUSE_REPORT_CLICK)
        | ReportCellMouseMotion \<Rightarrow> mode_state_of (mode_on t M_MOUSE_DRAG)
        | ReportAllMouseMotion \<Rightarrow> mode_state_of (mode_on t M_MOUSE_MOTION)
        | ReportFocusInOut \<Rightarrow> mode_state_of (mode_on t M_FOCUS_IN_OUT)
        | Utf8Mouse \<Rightarrow> mode_state_of (mode_on t M_UTF8_MOUSE)
        | SgrMouse \<Rightarrow> mode_state_of (mode_on t M_SGR_MOUSE)
        | AlternateScroll \<Rightarrow> mode_state_of (mode_on t M_ALTERNATE_SCROLL)
        | UrgencyHints \<Rightarrow> mode_state_of (mode_on t M_URGENCY_HINTS)
        | SwapScreenAndSetRestoreCursor \<Rightarrow> mode_state_of (mode_on t M_ALT_SCREEN)
        | BracketedPaste \<Rightarrow> mode_state_of (mode_on t M_BRACKETED_PASTE)
        | SyncUpdate \<Rightarrow> ModeReset
        | ColumnMode \<Rightarrow> NotSupported
        | Win32InputMode \<Rightarrow>
            if on_windows v \<and> win32_input_mode_allowed t then mode_state_of (mode_on t M_WIN32_INPUT_MODE)
            else NotSupported))"

definition report_private_mode :: "env \<Rightarrow> crosswords \<Rightarrow> private_mode \<Rightarrow> crosswords" where
  "report_private_mode v t m =
     pty_write t (ESC # ''[?'' @ show_nat (unat (private_mode_raw m)) @ '';'' @
       show_nat (mode_state_u8 (private_mode_state v t m)) @ ''$y'')"

definition set_keypad_application_mode :: "crosswords \<Rightarrow> crosswords" where
  "set_keypad_application_mode t = mode_ins t M_APP_KEYPAD"

definition unset_keypad_application_mode :: "crosswords \<Rightarrow> crosswords" where
  "unset_keypad_application_mode t = mode_rem t M_APP_KEYPAD"

subsection \<open>Moving the cursor\<close>

definition move_forward :: "crosswords \<Rightarrow> nat \<Rightarrow> crosswords option" where
  "move_forward t n = do {
     lc \<leftarrow> last_column (grid_dims (cgrid t));
     let k = min (cur_col t + n) lc;
     t \<leftarrow> damage_cursor t;
     Some (set_should_wrap (set_cur_col t k) False)
   }"

definition move_backward :: "crosswords \<Rightarrow> nat \<Rightarrow> crosswords option" where
  "move_backward t n =
     (let k = cur_col t - n in do {
        t \<leftarrow> damage_cursor t;
        Some (set_should_wrap (set_cur_col t k) False)
      })"

fun last_tab :: "bool list \<Rightarrow> nat \<Rightarrow> nat \<Rightarrow> nat option" where
  \<comment> \<open>the loop over \<open>(0..i).rev()\<close>: the last stop before \<open>i\<close>, else the starting column\<close>
  "last_tab ts k 0 = Some k"
| "last_tab ts k (Suc i) = (case idx ts i of None \<Rightarrow> None | Some b \<Rightarrow> if b then Some i else last_tab ts k i)"

fun move_backward_tabs_loop :: "bool list \<Rightarrow> nat \<Rightarrow> nat \<Rightarrow> nat option" where
  \<comment> \<open>the column after \<open>n\<close> rounds\<close>
  "move_backward_tabs_loop ts 0 k = Some k"
| "move_backward_tabs_loop ts (Suc n) k =
     (if k = 0 then Some k
      else case last_tab ts k k of None \<Rightarrow> None | Some k' \<Rightarrow> move_backward_tabs_loop ts n k')"

definition move_backward_tabs :: "crosswords \<Rightarrow> nat \<Rightarrow> crosswords option" where
  "move_backward_tabs t n = do {
     k \<leftarrow> move_backward_tabs_loop (tabs t) n (cur_col t);
     damage_cursor (set_cur_col t k)
   }"

function first_tab :: "bool list \<Rightarrow> nat \<Rightarrow> nat \<Rightarrow> nat \<Rightarrow> nat option" where
  \<comment> \<open>the loop over \<open>i..cols\<close>: the first stop, else the last column visited\<close>
  "first_tab ts cols k i =
     (if i < cols then (case idx ts i of None \<Rightarrow> None | Some b \<Rightarrow> if b then Some i else first_tab ts cols i (i + 1))
      else Some k)"
  by pat_completeness auto
termination by (relation "measure (\<lambda>(ts, cols, k, i). cols - i)") auto

declare first_tab.simps [simp del]

fun move_forward_tabs_loop :: "bool list \<Rightarrow> nat \<Rightarrow> nat \<Rightarrow> nat \<Rightarrow> nat option" where
  "move_forward_tabs_loop ts cols 0 k = Some k"
| "move_forward_tabs_loop ts cols (Suc n) k =
     (case usub cols 1 of None \<Rightarrow> None | Some lc \<Rightarrow>
        if k = lc then Some k
        else case first_tab ts cols k (k + 1) of None \<Rightarrow> None | Some k' \<Rightarrow> move_forward_tabs_loop ts cols n k')"

definition move_forward_tabs :: "crosswords \<Rightarrow> nat \<Rightarrow> crosswords option" where
  "move_forward_tabs t n = do {
     k \<leftarrow> move_forward_tabs_loop (tabs t) (grid_col_count t) n (cur_col t);
     damage_cursor (set_cur_col t k)
   }"

definition goto_line :: "crosswords \<Rightarrow> int \<Rightarrow> crosswords option" where
  "goto_line t l = goto t l (cur_col t)"

definition goto_col :: "crosswords \<Rightarrow> nat \<Rightarrow> crosswords option" where
  "goto_col t k = goto t (cur_row t) k"

definition move_up :: "crosswords \<Rightarrow> nat \<Rightarrow> crosswords option" where
  "move_up t n = goto t (cur_row t - int n) (cur_col t)"

definition move_down :: "crosswords \<Rightarrow> nat \<Rightarrow> crosswords option" where
  "move_down t n = goto t (cur_row t + int n) (cur_col t)"

definition move_down_and_cr :: "crosswords \<Rightarrow> nat \<Rightarrow> crosswords option" where
  "move_down_and_cr t n = goto t (cur_row t + int n) 0"

definition move_up_and_cr :: "crosswords \<Rightarrow> nat \<Rightarrow> crosswords option" where
  "move_up_and_cr t n = goto t (cur_row t - int n) 0"

definition backspace :: "crosswords \<Rightarrow> crosswords option" where
  "backspace t =
     (if cur_col t > 0 then damage_cursor (set_should_wrap (set_cur_col t (cur_col t - 1)) False) else Some t)"

definition carriage_return :: "crosswords \<Rightarrow> crosswords option" where
  "carriage_return t = do {
     t \<leftarrow> damage_cursor t;
     Some (set_should_wrap (set_cur_col t 0) False)
   }"

definition newline :: "crosswords \<Rightarrow> crosswords option" where
  "newline t = do {
     t \<leftarrow> linefeed t;
     if mode_on t M_LINE_FEED_NEW_LINE then carriage_return t else Some t
   }"

definition save_cursor_position :: "crosswords \<Rightarrow> crosswords" where
  "save_cursor_position t = t\<lparr>cgrid := (cgrid t)\<lparr>saved_cursor := cur t\<rparr>\<rparr>"

definition restore_cursor_position :: "crosswords \<Rightarrow> crosswords option" where
  "restore_cursor_position t = do {
     t \<leftarrow> damage_cursor t;
     damage_cursor (t\<lparr>cgrid := (cgrid t)\<lparr>gcursor := saved_cursor (cgrid t)\<rparr>\<rparr>)
   }"

definition set_active_charset :: "crosswords \<Rightarrow> charset_index \<Rightarrow> crosswords" where
  "set_active_charset t i = t\<lparr>active_charset := i\<rparr>"

definition configure_charset :: "crosswords \<Rightarrow> charset_index \<Rightarrow> standard_charset \<Rightarrow> crosswords option" where
  "configure_charset t i c = do {
     cs \<leftarrow> charsets_set (charsets (cur t)) i c;
     Some (with_cursor t (\<lambda>u. u\<lparr>charsets := cs\<rparr>))
   }"

subsection \<open>Scrolling and lines\<close>

definition scroll_up :: "crosswords \<Rightarrow> nat \<Rightarrow> crosswords option" where
  "scroll_up t n = scroll_up_relative t (fst (scroll_region t)) n"

definition scroll_down :: "crosswords \<Rightarrow> nat \<Rightarrow> crosswords option" where
  "scroll_down t n = scroll_down_relative t (fst (scroll_region t)) n"

definition in_region :: "crosswords \<Rightarrow> int \<Rightarrow> bool" where
  \<comment> \<open>\<open>scroll_region.contains(&line)\<close>\<close>
  "in_region t l \<longleftrightarrow> fst (scroll_region t) \<le> l \<and> l < snd (scroll_region t)"

definition delete_lines :: "crosswords \<Rightarrow> nat \<Rightarrow> crosswords option" where
  "delete_lines t lines = do {
     let origin = cur_row t;
     rest \<leftarrow> usub (screen_line_count t) (as_usize origin);
     let lines = min rest lines;
     if lines > 0 \<and> in_region t origin then scroll_up_relative t origin lines else Some t
   }"

definition insert_blank_lines :: "crosswords \<Rightarrow> nat \<Rightarrow> crosswords option" where
  "insert_blank_lines t lines =
     (if in_region t (cur_row t) then scroll_down_relative t (cur_row t) lines else Some t)"

definition reverse_index :: "crosswords \<Rightarrow> crosswords option" where
  "reverse_index t =
     (if cur_row t = fst (scroll_region t) then scroll_down t 1
      else do {
        t \<leftarrow> damage_cursor t;
        damage_cursor (set_cur_row t (max (cur_row t - 1) 0))
      })"

subsection \<open>Erasing, inserting and deleting characters\<close>

definition current_blank :: "crosswords \<Rightarrow> crosswords \<times> square" where
  \<comment> \<open>\<open>blank_with_bg(style_of(&cursor.template).bg)\<close>\<close>
  "current_blank t =
     (let (g, c) = blank_with_bg (cgrid t) (st_bg (style_of (cgrid t) (template (cur t))))
      in (t\<lparr>cgrid := g\<rparr>, c))"

definition fill_range :: "crosswords \<Rightarrow> int \<Rightarrow> nat \<Rightarrow> nat \<Rightarrow> square \<Rightarrow> crosswords option" where
  \<comment> \<open>\<open>for cell in &mut self.grid[line][a..b] { *cell = blank }\<close>\<close>
  "fill_range t l a b c = on_grid t (grid_modify_row (cgrid t) l (\<lambda>r. row_index_mut_range r a b (\<lambda>_. c)))"

definition erase_chars :: "crosswords \<Rightarrow> nat \<Rightarrow> crosswords option" where
  "erase_chars t n =
     (let start = cur_col t; end = min (start + n) (grid_col_count t);
          (t, blank) = current_blank t; line = cur_row t in do {
        t \<leftarrow> damage_line t line;
        t \<leftarrow> fill_range t line start end blank;
        Some (overlays_moved t)
      })"

definition fill_list :: "nat \<Rightarrow> nat \<Rightarrow> square \<Rightarrow> square list \<Rightarrow> square list option" where
  "fill_list a b c cs = map_range a b (\<lambda>_. c) cs"

definition delete_chars :: "crosswords \<Rightarrow> nat \<Rightarrow> crosswords option" where
  "delete_chars t n = do {
     let cols = grid_col_count t;
     let (t, blank) = current_blank t;
     let n = min n cols;
     let start = cur_col t;
     lc \<leftarrow> usub cols 1;
     let end = min (start + n) lc;
     let num_cells = cols - end;
     let line = cur_row t;
     t \<leftarrow> damage_line t line;
     on_grid t (grid_modify_row (cgrid t) line (row_slice_mut (\<lambda>cs. do {
       cs \<leftarrow> foldM list_swap cs (map (\<lambda>i. (start + i, end + i)) [0..<num_cells]);
       fill_list (cols - n) (length cs) blank cs
     })))
   }"

definition insert_blank :: "crosswords \<Rightarrow> nat \<Rightarrow> crosswords option" where
  "insert_blank t n = do {
     let (t, blank) = current_blank t;
     room \<leftarrow> usub (grid_col_count t) (cur_col t);
     let n = min n room;
     let source = cur_col t;
     let destination = cur_col t + n;
     let num_cells = grid_col_count t - destination;
     let line = cur_row t;
     t \<leftarrow> damage_line t line;
     on_grid t (grid_modify_row (cgrid t) line (row_slice_mut (\<lambda>cs. do {
       cs \<leftarrow> foldM list_swap cs (map (\<lambda>i. (destination + i, source + i)) (rev [0..<num_cells]));
       fill_list source destination blank cs
     })))
   }"

datatype line_clear_mode = LineRight | LineLeft | LineAll

definition filter_selection :: "crosswords \<Rightarrow> int \<Rightarrow> int \<Rightarrow> crosswords" where
  \<comment> \<open>\<open>self.selection.take().filter(|s| !s.intersects_range(a..=b))\<close>\<close>
  "filter_selection t a b = t\<lparr>cw_selection :=
     (case cw_selection t of Some s \<Rightarrow> if intersects_range s a b then None else Some s | None \<Rightarrow> None)\<rparr>"

definition clear_line :: "crosswords \<Rightarrow> line_clear_mode \<Rightarrow> crosswords option" where
  "clear_line t m =
     (let (t, blank) = current_blank t; p = cpos (cur t) in
      if m = LineRight \<and> should_wrap (cur t) then Some t
      else
        (let (left, right) = (case m of LineRight \<Rightarrow> (col p, grid_col_count t)
           | LineLeft \<Rightarrow> (0, col p + 1) | LineAll \<Rightarrow> (0, grid_col_count t)) in do {
           t \<leftarrow> damage_line t (row p);
           t \<leftarrow> fill_range t (row p) left right blank;
           Some (overlays_moved (filter_selection t (cur_row t) (cur_row t)))
         }))"

datatype clear_mode = ClearBelow | ClearAbove | ClearAll | ClearSaved

definition I32_MIN :: int where "I32_MIN = - (2 ^ 31)"

definition clear_above :: "crosswords \<Rightarrow> square \<Rightarrow> crosswords option" where
  "clear_above t blank =
     (let p = cpos (cur t) in do {
        t \<leftarrow> (if row p > 1 then on_grid t (reset_region (cgrid t) (0, row p)) else Some t);
        let end = min (col p + 1) (grid_col_count t);
        t \<leftarrow> on_grid t (grid_modify_row (cgrid t) (row p) (\<lambda>r. row_index_mut_to r end (\<lambda>_. blank)));
        Some (filter_selection t 0 (row p))
      })"

definition clear_below :: "crosswords \<Rightarrow> square \<Rightarrow> crosswords option" where
  "clear_below t blank =
     (let p = cpos (cur t); lines = screen_line_count t in do {
        t \<leftarrow> on_grid t (grid_modify_row (cgrid t) (row p) (\<lambda>r. row_index_mut_from r (col p) (\<lambda>_. blank)));
        last_line \<leftarrow> usub lines 1;
        t \<leftarrow> (if as_usize (row p) < last_line
              then on_grid t (reset_region (cgrid t) (row p + 1, int lines)) else Some t);
        Some (filter_selection t (row p) (int lines - 1))
      })"

definition clear_all_lines :: "crosswords \<Rightarrow> crosswords option" where
  "clear_all_lines t = do {
     t \<leftarrow> (if mode_on t M_ALT_SCREEN then reset_screen t
           else do {
             let old_offset = display_offset (cgrid t);
             t \<leftarrow> on_grid t (clear_viewport (cgrid t));
             let lines = display_offset (cgrid t) - old_offset;
             l \<leftarrow> line_grid_clamp (row (vi_cursor t) - int lines) (grid_dims (cgrid t)) BGrid;
             Some (t\<lparr>vi_cursor := Pos l (col (vi_cursor t))\<rparr>)
           });
     Some (t\<lparr>cw_selection := None\<rparr>)
   }"

definition clear_saved :: "crosswords \<Rightarrow> crosswords option" where
  "clear_saved t =
     (if grid_history (cgrid t) > 0 then do {
        t \<leftarrow> on_grid t (clear_history (cgrid t));
        l \<leftarrow> line_grid_clamp (row (vi_cursor t)) (grid_dims (cgrid t)) BCursor;
        Some (filter_selection (t\<lparr>vi_cursor := Pos l (col (vi_cursor t))\<rparr>) I32_MIN (-1))
      }
      else Some t)"

definition clear_screen :: "crosswords \<Rightarrow> clear_mode \<Rightarrow> crosswords option" where
  "clear_screen t m =
     (let (t, blank) = current_blank t in do {
        t \<leftarrow> (case m of ClearAbove \<Rightarrow> clear_above t blank | ClearBelow \<Rightarrow> clear_below t blank
               | ClearAll \<Rightarrow> clear_all_lines t | ClearSaved \<Rightarrow> clear_saved t);
        t \<leftarrow> (case m of
               ClearAbove \<Rightarrow> damage_lines t [0..int (as_usize (cur_row t))]
             | ClearBelow \<Rightarrow> damage_lines t [int (as_usize (cur_row t))..int (screen_line_count t) - 1]
             | ClearAll \<Rightarrow> Some (mark_fully_damaged t)
             | ClearSaved \<Rightarrow> Some (mark_fully_damaged t));
        Some (overlays_moved t)
      })"

definition decaln :: "crosswords \<Rightarrow> crosswords option" where
  "decaln t = do {
     t \<leftarrow> foldM (\<lambda>t l. foldM (\<lambda>t k. set_cell t (Pos l k) (\<lambda>_. sq_set_c 0 0x45)) t [0..<grid_col_count t]) t
       [0..int (screen_line_count t) - 1];
     Some (mark_fully_damaged t)
   }"

end
