(* ===== verification/Handlers2.thy ===== *)
theory Handlers2
  imports Handlers
begin

text \<open>
  The rest of the \<open>Handler\<close> implementation: attributes, titles, colours, tab stops, hyperlinks,
  the keyboard-mode stacks, the reports, the clipboard and the full reset; and the datatype
  \<open>call\<close> of all handler calls with the function \<open>handle\<close> that runs one.
\<close>

subsection \<open>Attributes\<close>

datatype attr =
    AttrReset | AttrBold | AttrDim | AttrItalic | AttrUnderline | AttrDoubleUnderline | AttrUndercurl
  | AttrDottedUnderline | AttrDashedUnderline | AttrBlinkSlow | AttrBlinkFast | AttrReverse | AttrHidden
  | AttrStrike | AttrCancelBold | AttrCancelBoldDim | AttrCancelItalic | AttrCancelUnderline
  | AttrCancelBlink | AttrCancelReverse | AttrCancelHidden | AttrCancelStrike
  | AttrForeground ansi_color | AttrBackground ansi_color | AttrUnderlineColor "ansi_color option"

definition flags_ins :: "style_flags \<Rightarrow> style \<Rightarrow> style" where
  "flags_ins f s = s\<lparr>st_flags := bit_insert (st_flags s) f\<rparr>"

definition flags_rem :: "style_flags \<Rightarrow> style \<Rightarrow> style" where
  "flags_rem f s = s\<lparr>st_flags := bit_remove (st_flags s) f\<rparr>"

definition attr_style :: "attr \<Rightarrow> (style \<Rightarrow> style) option" where
  \<comment> \<open>the update of the template's style; \<open>None\<close> for the attributes that are only logged\<close>
  "attr_style a =
     (case a of
        AttrReset \<Rightarrow> Some (\<lambda>_. style_default)
      | AttrForeground c \<Rightarrow> Some (\<lambda>s. s\<lparr>st_fg := c\<rparr>)
      | AttrBackground c \<Rightarrow> Some (\<lambda>s. s\<lparr>st_bg := c\<rparr>)
      | AttrUnderlineColor c \<Rightarrow> Some (\<lambda>s. s\<lparr>st_underline_color := c\<rparr>)
      | AttrReverse \<Rightarrow> Some (flags_ins SF_INVERSE)
      | AttrCancelReverse \<Rightarrow> Some (flags_rem SF_INVERSE)
      | AttrBold \<Rightarrow> Some (flags_ins SF_BOLD)
      | AttrCancelBold \<Rightarrow> Some (flags_rem SF_BOLD)
      | AttrDim \<Rightarrow> Some (flags_ins SF_DIM)
      | AttrCancelBoldDim \<Rightarrow> Some (flags_rem (SF_BOLD OR SF_DIM))
      | AttrItalic \<Rightarrow> Some (flags_ins SF_ITALIC)
      | AttrCancelItalic \<Rightarrow> Some (flags_rem SF_ITALIC)
      | AttrUnderline \<Rightarrow> Some (flags_ins SF_UNDERLINE \<circ> flags_rem SF_ALL_UNDERLINES)
      | AttrDoubleUnderline \<Rightarrow> Some (flags_ins SF_DOUBLE_UNDERLINE \<circ> flags_rem SF_ALL_UNDERLINES)
      | AttrUndercurl \<Rightarrow> Some (flags_ins SF_UNDERCURL \<circ> flags_rem SF_ALL_UNDERLINES)
      | AttrDottedUnderline \<Rightarrow> Some (flags_ins SF_DOTTED_UNDERLINE \<circ> flags_rem SF_ALL_UNDERLINES)
      | AttrDashedUnderline \<Rightarrow> Some (flags_ins SF_DASHED_UNDERLINE \<circ> flags_rem SF_ALL_UNDERLINES)
      | AttrBlinkSlow \<Rightarrow> None
      | AttrBlinkFast \<Rightarrow> None
      | AttrCancelBlink \<Rightarrow> None
      | AttrCancelUnderline \<Rightarrow> Some (flags_rem SF_ALL_UNDERLINES)
      | AttrHidden \<Rightarrow> Some (flags_ins SF_HIDDEN)
      | AttrCancelHidden \<Rightarrow> Some (flags_rem SF_HIDDEN)
      | AttrStrike \<Rightarrow> Some (flags_ins SF_STRIKEOUT)
      | AttrCancelStrike \<Rightarrow> Some (flags_rem SF_STRIKEOUT))"

definition terminal_attribute :: "crosswords \<Rightarrow> attr \<Rightarrow> crosswords" where
  "terminal_attribute t a =
     (case attr_style a of
        Some f \<Rightarrow> t\<lparr>cgrid := update_template_style (cgrid t) f\<rparr>
      | None \<Rightarrow> t)"

subsection \<open>Titles, directory, cursor style\<close>

definition set_title :: "crosswords \<Rightarrow> rstring option \<Rightarrow> crosswords" where
  "set_title t s = t\<lparr>cw_title := (case s of Some s \<Rightarrow> s | None \<Rightarrow> [])\<rparr>"

definition push_title :: "crosswords \<Rightarrow> crosswords" where
  "push_title t =
     (let st = (if length (title_stack t) \<ge> TITLE_STACK_MAX_DEPTH then tl (title_stack t) else title_stack t)
      in t\<lparr>title_stack := st @ [cw_title t]\<rparr>)"

definition pop_title :: "crosswords \<Rightarrow> crosswords" where
  "pop_title t =
     (if title_stack t = [] then t
      else set_title (t\<lparr>title_stack := butlast (title_stack t)\<rparr>) (Some (last (title_stack t))))"

definition set_progress_report :: "crosswords \<Rightarrow> progress_state \<Rightarrow> u8 option \<Rightarrow> crosswords" where
  "set_progress_report t s p = send t (ProgressReport s p)"

definition set_current_directory :: "crosswords \<Rightarrow> rstring \<Rightarrow> crosswords" where
  "set_current_directory t p = t\<lparr>current_directory := Some p\<rparr>"

definition set_cursor_style :: "crosswords \<Rightarrow> cursor_shape option \<Rightarrow> bool \<Rightarrow> crosswords" where
  "set_cursor_style t s blinking =
     send (t\<lparr>cw_cursor_shape := (case s of Some c \<Rightarrow> c | None \<Rightarrow> default_cursor_shape t),
             blinking_cursor := blinking\<rparr>) CursorBlinkingChange"

definition set_cursor_shape :: "crosswords \<Rightarrow> cursor_shape \<Rightarrow> crosswords" where
  "set_cursor_shape t s = t\<lparr>cw_cursor_shape := s\<rparr>"

subsection \<open>Hyperlinks and colours\<close>

definition set_hyperlink :: "crosswords \<Rightarrow> hyperlink option \<Rightarrow> crosswords option" where
  "set_hyperlink t h =
     (case h of
        Some l \<Rightarrow> do {
          (x, i) \<leftarrow> extras_alloc (g_extras (cgrid t)) (extras_default\<lparr>ex_hyperlink := Some l\<rparr>);
          let t = t\<lparr>cgrid := (cgrid t)\<lparr>g_extras := x\<rparr>\<rparr>;
          Some (with_cursor t (\<lambda>c. c\<lparr>template :=
            sq_insert_cell_flag (sq_set_extras_id (template c) (Some i)) CF_HYPERLINK\<rparr>))
        }
      | None \<Rightarrow> Some (with_cursor t (\<lambda>c. c\<lparr>template :=
            sq_remove_cell_flag (sq_set_extras_id (template c) None) CF_HYPERLINK\<rparr>)))"

definition set_color :: "crosswords \<Rightarrow> nat \<Rightarrow> color_rgb \<Rightarrow> crosswords option" where
  \<comment> \<open>the table keeps the colour's components as fractions of 255, from which they can be read back\<close>
  "set_color t i c = do {
     old \<leftarrow> idx (cw_colors t) i;
     let t = (if i \<noteq> named_index CursorColor \<and> old \<noteq> Some c then mark_fully_damaged t else t);
     cs \<leftarrow> upd (cw_colors t) i (Some c);
     Some (send (t\<lparr>cw_colors := cs\<rparr>) (ColorChange i (Some c)))
   }"

definition reset_color :: "crosswords \<Rightarrow> nat \<Rightarrow> crosswords option" where
  "reset_color t i = do {
     old \<leftarrow> idx (cw_colors t) i;
     let t = (if i \<noteq> named_index CursorColor \<and> old \<noteq> None then mark_fully_damaged t else t);
     cs \<leftarrow> upd (cw_colors t) i None;
     Some (send (t\<lparr>cw_colors := cs\<rparr>) (ColorChange i None))
   }"

fun hex_digit :: "nat \<Rightarrow> char" where
  "hex_digit n = (if n < 10 then char_of (48 + n) else char_of (87 + n))"

definition hex2 :: "u8 \<Rightarrow> string" where
  \<comment> \<open>\<open>{:02x}\<close>\<close>
  "hex2 b = [hex_digit (unat b div 16), hex_digit (unat b mod 16)]"

definition dynamic_color_sequence :: "crosswords \<Rightarrow> string \<Rightarrow> nat \<Rightarrow> string \<Rightarrow> crosswords" where
  "dynamic_color_sequence t prefix i terminator =
     send t (ColorRequest i (\<lambda>c. ESC # '']'' @ prefix @ '';rgb:'' @
       hex2 (rgb_r c) @ hex2 (rgb_r c) @ ''/'' @ hex2 (rgb_g c) @ hex2 (rgb_g c) @ ''/'' @
       hex2 (rgb_b c) @ hex2 (rgb_b c) @ terminator))"

subsection \<open>Tab stops\<close>

datatype tab_clear_mode = TabCurrent | TabAll

definition clear_tabs :: "crosswords \<Rightarrow> tab_clear_mode \<Rightarrow> crosswords option" where
  "clear_tabs t m =
     (case m of
        TabCurrent \<Rightarrow> map_option (\<lambda>ts. t\<lparr>tabs := ts\<rparr>) (upd (tabs t) (cur_col t) False)
      | TabAll \<Rightarrow> Some (t\<lparr>tabs := tabs_clear_all (tabs t)\<rparr>))"

definition set_horizontal_tabstop :: "crosswords \<Rightarrow> crosswords option" where
  "set_horizontal_tabstop t = map_option (\<lambda>ts. t\<lparr>tabs := ts\<rparr>) (upd (tabs t) (cur_col t) True)"

function next_tab :: "bool list \<Rightarrow> nat \<Rightarrow> nat \<Rightarrow> nat option" where
  \<comment> \<open>the inner loop of \<open>put_tab\<close>: it ends at the last column, at a stop, or in a panic\<close>
  "next_tab ts cols k =
     (if k + 1 = cols then Some k
      else if k + 1 < length ts then (if ts ! (k + 1) then Some (k + 1) else next_tab ts cols (k + 1))
      else None)"
  by pat_completeness auto
termination by (relation "measure (\<lambda>(ts, cols, k). length ts - k)") auto

declare next_tab.simps [simp del]

fun put_tab_loop :: "crosswords \<Rightarrow> nat \<Rightarrow> crosswords option" where
  "put_tab_loop t 0 = Some t"
| "put_tab_loop t (Suc n) =
     (if cur_col t < grid_col_count t then do {
        cs \<leftarrow> charsets_get (charsets (cur t)) (active_charset t);
        t \<leftarrow> set_cursor_cell t (\<lambda>c. if sq_c c = 0 then sq_set_c c (charset_map cs 9) else c);
        k \<leftarrow> next_tab (tabs t) (grid_col_count t) (cur_col t);
        put_tab_loop (set_cur_col t k) n
      }
      else Some t)"

definition put_tab :: "crosswords \<Rightarrow> nat \<Rightarrow> crosswords option" where
  "put_tab t n =
     (if should_wrap (cur t) then wrapline t
      else do {
        let line = cur_row t;
        t \<leftarrow> put_tab_loop t n;
        if n \<noteq> 0 then damage_line t line else Some t
      })"

subsection \<open>Keyboard modes\<close>

definition sync_kb :: "crosswords \<Rightarrow> keyboard_modes \<Rightarrow> crosswords" where
  "sync_kb t m = t\<lparr>cw_mode := bit_remove (cw_mode t) M_KITTY_KEYBOARD_PROTOCOL OR mode_of_kb m\<rparr>"

definition wrap_idx :: "nat \<Rightarrow> nat" where
  "wrap_idx i = (if i \<ge> KEYBOARD_MODE_STACK_MAX_DEPTH then i mod KEYBOARD_MODE_STACK_MAX_DEPTH else i)"

definition report_keyboard_mode :: "crosswords \<Rightarrow> crosswords option" where
  "report_keyboard_mode t = do {
     m \<leftarrow> idx (kb_stack t) (kb_idx t);
     Some (pty_write t (ESC # ''[?'' @ show_nat (unat m) @ ''u''))
   }"

definition push_keyboard_mode :: "crosswords \<Rightarrow> keyboard_modes \<Rightarrow> crosswords option" where
  "push_keyboard_mode t m = do {
     let t = t\<lparr>kb_idx := wrap_idx ((kb_idx t + 1) mod 2 ^ 64)\<rparr>;
     st \<leftarrow> upd (kb_stack t) (kb_idx t) m;
     Some (sync_kb (t\<lparr>kb_stack := st\<rparr>) m)
   }"

fun pop_loop :: "crosswords \<Rightarrow> nat \<Rightarrow> crosswords option" where
  "pop_loop t 0 = Some t"
| "pop_loop t (Suc n) =
     (case upd (kb_stack t) (kb_idx t) 0 of None \<Rightarrow> None | Some st \<Rightarrow>
        pop_loop (t\<lparr>kb_stack := st, kb_idx := wrap_idx ((kb_idx t + (2 ^ 64 - 1)) mod 2 ^ 64)\<rparr>) n)"

definition pop_keyboard_modes :: "crosswords \<Rightarrow> nat \<Rightarrow> crosswords option" where
  "pop_keyboard_modes t n =
     (if n \<ge> KEYBOARD_MODE_STACK_MAX_DEPTH
      then Some (t\<lparr>kb_stack := map (\<lambda>_. 0) (kb_stack t), kb_idx := 0,
                   cw_mode := bit_remove (cw_mode t) M_KITTY_KEYBOARD_PROTOCOL\<rparr>)
      else do {
        t \<leftarrow> pop_loop t n;
        m \<leftarrow> idx (kb_stack t) (kb_idx t);
        Some (sync_kb t (kb_truncate m))
      })"

definition set_keyboard_mode :: "crosswords \<Rightarrow> keyboard_modes \<Rightarrow> kb_apply \<Rightarrow> crosswords option" where
  "set_keyboard_mode t m a = do {
     active \<leftarrow> idx (kb_stack t) (kb_idx t);
     let new = (case a of KbReplace \<Rightarrow> m | KbUnion \<Rightarrow> active OR m | KbDifference \<Rightarrow> active AND NOT m);
     st \<leftarrow> upd (kb_stack t) (kb_idx t) new;
     Some (sync_kb (t\<lparr>kb_stack := st\<rparr>) (kb_truncate new))
   }"

subsection \<open>Reports\<close>

fun split_on :: "char \<Rightarrow> string \<Rightarrow> string list" where
  "split_on c [] = [[]]"
| "split_on c (x # xs) =
     (if x = c then [] # split_on c xs
      else (case split_on c xs of [] \<Rightarrow> [[x]] | y # ys \<Rightarrow> (x # y) # ys))"

definition is_digit :: "char \<Rightarrow> bool" where
  "is_digit c \<longleftrightarrow> 48 \<le> (of_char c :: nat) \<and> (of_char c :: nat) \<le> 57"

definition digits_value :: "string \<Rightarrow> nat" where
  "digits_value s = foldl (\<lambda>n c. n * 10 + (of_char c - 48)) 0 s"

definition parse_usize :: "string \<Rightarrow> nat option" where
  \<comment> \<open>\<open>str::parse::<usize>\<close>: an optional plus sign, at least one digit, no overflow\<close>
  "parse_usize s =
     (let s = (case s of c # cs \<Rightarrow> if c = CHR ''+'' then cs else s | [] \<Rightarrow> [])
      in if s \<noteq> [] \<and> list_all is_digit s \<and> digits_value s < 2 ^ 64 then Some (digits_value s) else None)"

definition version_number :: "string \<Rightarrow> nat option" where
  "version_number version =
     (let version = (if CHR ''-'' \<in> set version
                     then rev (tl (dropWhile (\<lambda>c. c \<noteq> CHR ''-'') (rev version))) else version)
      in foldM (\<lambda>n (i, s). do {
           let k = (case parse_usize s of Some k \<Rightarrow> k | None \<Rightarrow> 0);
           check (100 ^ i < (2::nat) ^ 64);
           check (100 ^ i * k < 2 ^ 64);
           check (n + 100 ^ i * k < 2 ^ 64);
           Some (n + 100 ^ i * k)
         }) 0 (enumerate 0 (rev (split_on (CHR ''.'') version))))"

definition identify_terminal :: "env \<Rightarrow> crosswords \<Rightarrow> rchar option \<Rightarrow> crosswords option" where
  "identify_terminal v t c =
     (if c = None then Some (pty_write t (ESC # ''[?62;4;6;22c''))
      else if c = Some 0x3E then do {
        n \<leftarrow> version_number (pkg_version v);
        Some (pty_write t (ESC # ''[>0;'' @ show_nat n @ '';1c''))
      }
      else Some t)"

definition report_version :: "env \<Rightarrow> crosswords \<Rightarrow> crosswords" where
  "report_version v t = pty_write t (ESC # ''P>|Rio '' @ pkg_version v @ [ESC, CHR 0x5C])"

definition device_status :: "crosswords \<Rightarrow> nat \<Rightarrow> crosswords" where
  "device_status t n =
     (if n = 5 then pty_write t (ESC # ''[0n'')
      else if n = 6 then
        pty_write t (ESC # ''['' @ show_int (cur_row t + 1) @ '';'' @ show_nat (cur_col t + 1) @ ''R'')
      else t)"

definition text_area_size_pixels :: "crosswords \<Rightarrow> crosswords" where
  "text_area_size_pixels t =
     send t (TextAreaSizeRequest (\<lambda>width height. ESC # ''[4;'' @ show_nat height @ '';'' @ show_nat width @ ''t''))"

definition text_area_size_chars :: "crosswords \<Rightarrow> crosswords" where
  "text_area_size_chars t =
     pty_write t (ESC # ''[8;'' @ show_nat (screen_line_count t) @ '';'' @ show_nat (grid_col_count t) @ ''t'')"

definition cells_size_pixels :: "env \<Rightarrow> crosswords \<Rightarrow> crosswords" where
  "cells_size_pixels v t =
     pty_write t (ESC # ''[6;'' @ cell_height_text v @ '';'' @ cell_width_text v @ ''t'')"

definition MAX_COLOR_REGISTERS :: nat where "MAX_COLOR_REGISTERS = 1024"
definition MAX_GRAPHIC_DIMENSIONS :: "nat list" where "MAX_GRAPHIC_DIMENSIONS = [4096, 4096]"

definition graphics_response :: "nat \<Rightarrow> nat \<Rightarrow> nat list \<Rightarrow> string" where
  "graphics_response pi ps pv =
     ESC # ''[?'' @ show_nat pi @ '';'' @ show_nat ps @ concat (map (\<lambda>n. '';'' @ show_nat n) pv) @ ''S''"

definition graphics_attribute :: "crosswords \<Rightarrow> nat \<Rightarrow> nat \<Rightarrow> crosswords" where
  "graphics_attribute t pi pa =
     (if pi = 2 \<and> pa = 1 then
        send t (TextAreaSizeRequest (\<lambda>width height.
          graphics_response pi 0 [min width 4096, min height 4096]))
      else
        (let (ps, pv) =
           (if pi = 1 then
              (if pa = 1 \<or> pa = 4 then (0, [MAX_COLOR_REGISTERS]) else if pa = 2 \<or> pa = 3 then (3, []) else (2, []))
            else if pi = 2 then
              (if pa = 4 then (0, MAX_GRAPHIC_DIMENSIONS) else if pa = 2 \<or> pa = 3 then (3, []) else (2, []))
            else (1, []))
         in pty_write t (graphics_response pi ps pv)))"

subsection \<open>Clipboard, bell, notification\<close>

definition clipboard_of :: "u8 \<Rightarrow> clipboard_type option" where
  "clipboard_of b =
     (if b = 0x63 then Some ClipClipboard else if b = 0x70 \<or> b = 0x73 then Some ClipSelection else None)"

definition clipboard_store :: "env \<Rightarrow> crosswords \<Rightarrow> u8 \<Rightarrow> u8 list \<Rightarrow> crosswords" where
  "clipboard_store v t b base64 =
     (case clipboard_of b of
        None \<Rightarrow> t
      | Some ty \<Rightarrow> (case Option.bind (base64_decode v base64) (from_utf8 v) of
          Some s \<Rightarrow> send t (ClipboardStore ty s) | None \<Rightarrow> t))"

definition clipboard_load :: "env \<Rightarrow> crosswords \<Rightarrow> u8 \<Rightarrow> string \<Rightarrow> crosswords" where
  "clipboard_load v t b terminator =
     (case clipboard_of b of
        None \<Rightarrow> t
      | Some ty \<Rightarrow> send t (ClipboardLoad ty (\<lambda>s. ESC # '']52;'' @ char_of (unat b) # '';'' @ base64_encode v s @ terminator)))"

definition bell :: "crosswords \<Rightarrow> crosswords" where "bell t = send t Bell"

definition desktop_notification :: "crosswords \<Rightarrow> rstring \<Rightarrow> rstring \<Rightarrow> crosswords" where
  "desktop_notification t a b = send t (DesktopNotification a b)"

definition pty_response :: "crosswords \<Rightarrow> string \<Rightarrow> crosswords" where
  \<comment> \<open>\<open>xtgettcap_response\<close> and \<open>kitty_graphics_response\<close>\<close>
  "pty_response t s = pty_write t s"

subsection \<open>Reset\<close>

definition reset_state :: "crosswords \<Rightarrow> crosswords option" where
  "reset_state t = do {
     let t = (if mode_on t M_ALT_SCREEN then t\<lparr>cgrid := inactive_grid t, inactive_grid := cgrid t\<rparr> else t);
     let t = t\<lparr>active_charset := G0, cw_cursor_shape := default_cursor_shape t\<rparr>;
     g \<leftarrow> grid_reset (cgrid t);
     h \<leftarrow> grid_reset (inactive_grid t);
     let t = t\<lparr>cgrid := g, inactive_grid := h\<rparr>;
     let t = t\<lparr>scroll_region := (0, int (screen_line_count t)), tabs := tabs_new (grid_col_count t),
               title_stack := [],
               kb_stack := replicate KEYBOARD_MODE_STACK_MAX_DEPTH 0,
               inactive_kb_stack := replicate KEYBOARD_MODE_STACK_MAX_DEPTH 0,
               kb_idx := 0, inactive_kb_idx := 0, cw_title := [], cw_selection := None,
               vi_cursor := Pos 0 0, cw_graphics := clear_all_kitty_state (cw_graphics t),
               cw_mode := bit_insert (cw_mode t AND M_VI) mode_default\<rparr>;
     Some (mark_fully_damaged (send t CursorBlinkingChange))
   }"

subsection \<open>All calls\<close>

datatype scp_char_path = ScpDefault | ScpLTR | ScpRTL

datatype scp_update_mode = ScpImplementationDependant | ScpDataToPresentation | ScpPresentationToData

text \<open>The terminal keeps the trait's empty default for \<open>substitute\<close>, \<open>set_tabs\<close>, \<open>set_scp\<close> and
  \<open>set_mouse_cursor_icon\<close>.\<close>

datatype (plugins only:) call =
    SetMode ansi_mode | UnsetMode ansi_mode | ReportMode ansi_mode
  | SetPrivateMode private_mode | UnsetPrivateMode private_mode | ReportPrivateMode private_mode
  | DynamicColorSequence string nat string
  | Goto int nat | GotoLine int | GotoCol nat | MoveForward nat | MoveBackward nat
  | MoveBackwardTabs nat | MoveForwardTabs nat | PutTab nat
  | MoveUp nat | MoveDown nat | MoveDownAndCr nat | MoveUpAndCr nat
  | SetActiveCharset charset_index | ConfigureCharset charset_index standard_charset
  | Decaln | ScrollUp nat | ScrollDown nat | DeleteLines nat | InsertBlankLines nat
  | EraseChars nat | DeleteChars nat | InsertBlank nat | ReverseIndex | ResetState
  | TerminalAttribute attr | SetTitle "rstring option" | PushTitle | PopTitle
  | SetProgressReport progress_state "u8 option" | SetCurrentDirectory rstring
  | SetCursorStyle "cursor_shape option" bool | SetCursorShape cursor_shape
  | SetKeypadApplicationMode | UnsetKeypadApplicationMode
  | DoClipboardStore u8 "u8 list" | DoClipboardLoad u8 string
  | Input rchar | IdentifyTerminal "rchar option" | ReportVersion
  | ReportKeyboardMode | PushKeyboardMode keyboard_modes | PopKeyboardModes nat
  | SetKeyboardMode keyboard_modes kb_apply
  | DeviceStatus nat | Newline | Linefeed | Backspace | CarriageReturn
  | ClearScreen clear_mode | ClearLine line_clear_mode | ClearTabs tab_clear_mode
  | SetHorizontalTabstop | SetHyperlink "hyperlink option"
  | SetColor nat color_rgb | ResetColor nat | DoBell | DoDesktopNotification rstring rstring
  | Substitute | SaveCursorPosition | RestoreCursorPosition
  | SetScrollingRegion nat "nat option" | TextAreaSizePixels | TextAreaSizeChars
  | GraphicsAttribute nat nat | PtyResponse string
  | CellsSizePixels | SetTabs nat | SetScp scp_char_path scp_update_mode | SetMouseCursorIcon string

primrec run_call :: "call \<Rightarrow> env \<Rightarrow> crosswords \<Rightarrow> crosswords option" where
  "run_call (SetMode m) v t = Some (set_mode t m)"
| "run_call (UnsetMode m) v t = Some (unset_mode t m)"
| "run_call (ReportMode m) v t = Some (report_mode t m)"
| "run_call (SetPrivateMode m) v t = set_private_mode v t m"
| "run_call (UnsetPrivateMode m) v t = unset_private_mode v t m"
| "run_call (ReportPrivateMode m) v t = Some (report_private_mode v t m)"
| "run_call (DynamicColorSequence p i s) v t = Some (dynamic_color_sequence t p i s)"
| "run_call (Goto l k) v t = goto t l k"
| "run_call (GotoLine l) v t = goto_line t l"
| "run_call (GotoCol k) v t = goto_col t k"
| "run_call (MoveForward n) v t = move_forward t n"
| "run_call (MoveBackward n) v t = move_backward t n"
| "run_call (MoveBackwardTabs n) v t = move_backward_tabs t n"
| "run_call (MoveForwardTabs n) v t = move_forward_tabs t n"
| "run_call (PutTab n) v t = put_tab t n"
| "run_call (MoveUp n) v t = move_up t n"
| "run_call (MoveDown n) v t = move_down t n"
| "run_call (MoveDownAndCr n) v t = move_down_and_cr t n"
| "run_call (MoveUpAndCr n) v t = move_up_and_cr t n"
| "run_call (SetActiveCharset i) v t = Some (set_active_charset t i)"
| "run_call (ConfigureCharset i c) v t = configure_charset t i c"
| "run_call Decaln v t = decaln t"
| "run_call (ScrollUp n) v t = scroll_up t n"
| "run_call (ScrollDown n) v t = scroll_down t n"
| "run_call (DeleteLines n) v t = delete_lines t n"
| "run_call (InsertBlankLines n) v t = insert_blank_lines t n"
| "run_call (EraseChars n) v t = erase_chars t n"
| "run_call (DeleteChars n) v t = delete_chars t n"
| "run_call (InsertBlank n) v t = insert_blank t n"
| "run_call ReverseIndex v t = reverse_index t"
| "run_call ResetState v t = reset_state t"
| "run_call (TerminalAttribute a) v t = Some (terminal_attribute t a)"
| "run_call (SetTitle s) v t = Some (set_title t s)"
| "run_call PushTitle v t = Some (push_title t)"
| "run_call PopTitle v t = Some (pop_title t)"
| "run_call (SetProgressReport s p) v t = Some (set_progress_report t s p)"
| "run_call (SetCurrentDirectory p) v t = Some (set_current_directory t p)"
| "run_call (SetCursorStyle s b) v t = Some (set_cursor_style t s b)"
| "run_call (SetCursorShape s) v t = Some (set_cursor_shape t s)"
| "run_call SetKeypadApplicationMode v t = Some (set_keypad_application_mode t)"
| "run_call UnsetKeypadApplicationMode v t = Some (unset_keypad_application_mode t)"
| "run_call (DoClipboardStore b s) v t = Some (clipboard_store v t b s)"
| "run_call (DoClipboardLoad b s) v t = Some (clipboard_load v t b s)"
| "run_call (Input c) v t = input v t c"
| "run_call (IdentifyTerminal c) v t = identify_terminal v t c"
| "run_call ReportVersion v t = Some (report_version v t)"
| "run_call ReportKeyboardMode v t = report_keyboard_mode t"
| "run_call (PushKeyboardMode m) v t = push_keyboard_mode t m"
| "run_call (PopKeyboardModes n) v t = pop_keyboard_modes t n"
| "run_call (SetKeyboardMode m a) v t = set_keyboard_mode t m a"
| "run_call (DeviceStatus n) v t = Some (device_status t n)"
| "run_call Newline v t = newline t"
| "run_call Linefeed v t = linefeed t"
| "run_call Backspace v t = backspace t"
| "run_call CarriageReturn v t = carriage_return t"
| "run_call (ClearScreen m) v t = clear_screen t m"
| "run_call (ClearLine m) v t = clear_line t m"
| "run_call (ClearTabs m) v t = clear_tabs t m"
| "run_call SetHorizontalTabstop v t = set_horizontal_tabstop t"
| "run_call (SetHyperlink h) v t = set_hyperlink t h"
| "run_call (SetColor i c) v t = set_color t i c"
| "run_call (ResetColor i) v t = reset_color t i"
| "run_call DoBell v t = Some (bell t)"
| "run_call (DoDesktopNotification a b) v t = Some (desktop_notification t a b)"
| "run_call Substitute v t = Some t"
| "run_call SaveCursorPosition v t = Some (save_cursor_position t)"
| "run_call RestoreCursorPosition v t = restore_cursor_position t"
| "run_call (SetScrollingRegion a b) v t = set_scrolling_region t a b"
| "run_call TextAreaSizePixels v t = Some (text_area_size_pixels t)"
| "run_call TextAreaSizeChars v t = Some (text_area_size_chars t)"
| "run_call (GraphicsAttribute a b) v t = Some (graphics_attribute t a b)"
| "run_call (PtyResponse s) v t = Some (pty_response t s)"
| "run_call CellsSizePixels v t = Some (cells_size_pixels v t)"
| "run_call (SetTabs n) v t = Some t"
| "run_call (SetScp p m) v t = Some t"
| "run_call (SetMouseCursorIcon i) v t = Some t"

definition handle :: "env \<Rightarrow> crosswords \<Rightarrow> call \<Rightarrow> crosswords option" where
  "handle v t c = run_call c v t"

text \<open>A run of calls is a step relation: one call that returns, with arguments as the parser's
  dispatcher produces them.\<close>

fun call_ok :: "call \<Rightarrow> bool" where
  "call_ok (SetScrollingRegion a b) = (1 \<le> a)"
| "call_ok (SetColor i c) = (i < COLOR_COUNT)"
| "call_ok (ResetColor i) = (i < COLOR_COUNT)"
| "call_ok _ = True"

inductive handler_step :: "env \<Rightarrow> crosswords \<Rightarrow> call \<Rightarrow> crosswords \<Rightarrow> bool" for v where
  handled: "call_ok c \<Longrightarrow> handle v t c = Some t' \<Longrightarrow> handler_step v t c t'"

inductive_simps handler_step_iff: "handler_step v t c t'"

inductive handler_reach :: "env \<Rightarrow> crosswords \<Rightarrow> crosswords \<Rightarrow> bool" for v where
  reach_refl: "handler_reach v t t"
| reach_step: "handler_reach v t u \<Longrightarrow> handler_step v u c w \<Longrightarrow> handler_reach v t w"

end
