(* ===== verification/TermInv.thy ===== *)
theory TermInv
  imports Handlers2 GridProps
begin

text \<open>
  The terminal's invariant and the rules that carry it through the handlers' building blocks.
  The invariant fixes the screen's size \<open>n\<close> by \<open>w\<close>: both grids are well formed and have that
  size, the cursors are on the screen, the scroll region lies in it (it may be empty, below the
  last line), and the tab stops, the damage, the colours and the keyboard stacks have their
  lengths. Rules are in continuation form, for \<open>wp\<close>.
\<close>

named_theorems term_wp \<open>what a building block establishes, in continuation form\<close>

subsection \<open>The invariant\<close>

definition cursor_ok :: "nat \<Rightarrow> nat \<Rightarrow> square cursor \<Rightarrow> bool" where
  "cursor_ok n w c \<longleftrightarrow> 0 \<le> row (cpos c) \<and> row (cpos c) < int n \<and> col (cpos c) < w \<and> length (charsets c) = 4"

definition grid_ok :: "nat \<Rightarrow> nat \<Rightarrow> grid \<Rightarrow> bool" where
  "grid_ok n w g \<longleftrightarrow> grid_wf g \<and> g_lines g = n \<and> g_columns g = w \<and>
     cursor_ok n w (gcursor g) \<and> cursor_ok n w (saved_cursor g)"

definition region_ok :: "nat \<Rightarrow> int \<times> int \<Rightarrow> bool" where
  "region_ok n r \<longleftrightarrow> 0 \<le> fst r \<and> snd r \<le> int n \<and> (fst r < snd r \<or> fst r = int n \<and> snd r = int n)"

definition term_inv :: "nat \<Rightarrow> nat \<Rightarrow> crosswords \<Rightarrow> bool" where
  "term_inv n w t \<longleftrightarrow> 2 \<le> w \<and> grid_ok n w (cgrid t) \<and> grid_ok n w (inactive_grid t) \<and>
     region_ok n (scroll_region t) \<and> length (tabs t) = w \<and> damage_wf n (damage t) \<and>
     length (cw_colors t) = COLOR_COUNT \<and> length (kb_stack t) = 8 \<and> kb_idx t < 8 \<and>
     length (inactive_kb_stack t) = 8 \<and> inactive_kb_idx t < 8 \<and>
     length (title_stack t) \<le> TITLE_STACK_MAX_DEPTH"

definition still :: "crosswords \<Rightarrow> crosswords \<Rightarrow> bool" where
  \<comment> \<open>what the building blocks that only change cells or damage leave alone\<close>
  "still t u \<longleftrightarrow> gcursor (cgrid u) = gcursor (cgrid t) \<and> scroll_region u = scroll_region t \<and>
     cw_mode u = cw_mode t \<and> active_charset u = active_charset t \<and> tabs u = tabs t"

lemma still_refl [simp]: "still t t" by (simp add: still_def)

lemma still_trans: "still t u \<Longrightarrow> still u v \<Longrightarrow> still t v" by (simp add: still_def)

lemma cursor_default_ok: "0 < n \<Longrightarrow> 0 < w \<Longrightarrow> cursor_ok n w (cursor_default d)"
  by (simp add: cursor_ok_def cursor_default_def charsets_default_def)

lemma term_invD:
  assumes "term_inv n w t"
  shows "grid_wf (cgrid t)" "g_lines (cgrid t) = n" "g_columns (cgrid t) = w" "2 \<le> w" "0 < n"
    "0 \<le> cur_row t" "cur_row t < int n" "cur_col t < w" "length (tabs t) = w" "damage_wf n (damage t)"
    "region_ok n (scroll_region t)" "length (charsets (cur t)) = 4"
  using assms by (auto simp: term_inv_def grid_ok_def cursor_ok_def grid_wf_def)

lemma term_inv_pos:
  assumes "term_inv n w t"
  shows "2 \<le> w" "0 < n" "0 \<le> cur_row t" "cur_row t < int n" "cur_col t < w"
    "region_ok n (scroll_region t)" "length (charsets (cur t)) = 4"
  using term_invD [OF assms] by simp_all

lemma term_inv_dims:
  assumes "term_inv n w t"
  shows "last_column (grid_dims (cgrid t)) = Some (w - 1)" "bottommost_line (grid_dims (cgrid t)) = int n - 1"
    "grid_col_count t = w" "screen_line_count t = n" "dims_ok (grid_dims (cgrid t))"
    "columns (grid_dims (cgrid t)) = w"
  using term_invD [OF assms] dims_ok_grid [of "cgrid t"]
  by (simp_all add: last_column_def usub_def grid_dims_def bottommost_line_def grid_col_count_def
      screen_line_count_def)

lemma screen_has_line: "term_inv n w t \<Longrightarrow> 0 \<le> l \<Longrightarrow> l < int n \<Longrightarrow> has_line (cgrid t) l"
  by (simp add: has_line_def term_invD)

subsection \<open>Simple updates\<close>

lemma cursor_update_ok [intro]:
  assumes "term_inv n w t" "cursor_ok n w (f (cur t))"
  shows "term_inv n w (with_cursor t f)"
  using assms by (auto simp: term_inv_def with_cursor_def grid_ok_def grid_wf_def grid_history_raw)

lemma set_cur_row_ok [term_wp]: "term_inv n w t \<Longrightarrow> 0 \<le> l \<Longrightarrow> l < int n \<Longrightarrow> term_inv n w (set_cur_row t l)"
  unfolding set_cur_row_def by (rule cursor_update_ok) (auto simp: term_inv_def grid_ok_def cursor_ok_def)

lemma set_cur_col_ok [term_wp]: "term_inv n w t \<Longrightarrow> k < w \<Longrightarrow> term_inv n w (set_cur_col t k)"
  unfolding set_cur_col_def by (rule cursor_update_ok) (auto simp: term_inv_def grid_ok_def cursor_ok_def)

lemma set_should_wrap_ok [term_wp]: "term_inv n w t \<Longrightarrow> term_inv n w (set_should_wrap t b)"
  unfolding set_should_wrap_def by (rule cursor_update_ok) (auto simp: term_inv_def grid_ok_def cursor_ok_def)

lemma cursor_fields [simp]:
  "cpos (cur (set_cur_row t l)) = Pos l (cur_col t)"
  "cpos (cur (set_cur_col t k)) = Pos (cur_row t) k"
  "cpos (cur (set_should_wrap t b)) = cpos (cur t)"
  "should_wrap (cur (set_cur_row t l)) = should_wrap (cur t)"
  "should_wrap (cur (set_cur_col t k)) = should_wrap (cur t)"
  "should_wrap (cur (set_should_wrap t b)) = b"
  "cw_mode (set_cur_row t l) = cw_mode t" "cw_mode (set_cur_col t k) = cw_mode t"
  "cw_mode (set_should_wrap t b) = cw_mode t"
  "scroll_region (set_cur_row t l) = scroll_region t" "scroll_region (set_cur_col t k) = scroll_region t"
  "scroll_region (set_should_wrap t b) = scroll_region t"
  "active_charset (set_cur_row t l) = active_charset t" "active_charset (set_cur_col t k) = active_charset t"
  "active_charset (set_should_wrap t b) = active_charset t"
  "tabs (set_cur_row t l) = tabs t" "tabs (set_cur_col t k) = tabs t" "tabs (set_should_wrap t b) = tabs t"
  "charsets (cur (set_cur_row t l)) = charsets (cur t)" "charsets (cur (set_cur_col t k)) = charsets (cur t)"
  "charsets (cur (set_should_wrap t b)) = charsets (cur t)"
  by (simp_all add: set_cur_row_def set_cur_col_def set_should_wrap_def with_cursor_def)

text \<open>Updates of fields the invariant does not read.\<close>

lemma update_ok [simp]:
  "term_inv n w (t\<lparr>cw_mode := m\<rparr>) = term_inv n w t"
  "term_inv n w (t\<lparr>vi_cursor := p\<rparr>) = term_inv n w t"
  "term_inv n w (t\<lparr>event_log := e\<rparr>) = term_inv n w t"
  "term_inv n w (t\<lparr>cw_selection := s\<rparr>) = term_inv n w t"
  "term_inv n w (t\<lparr>cw_graphics := g\<rparr>) = term_inv n w t"
  "term_inv n w (t\<lparr>cw_title := ti\<rparr>) = term_inv n w t"
  "term_inv n w (t\<lparr>active_charset := i\<rparr>) = term_inv n w t"
  "term_inv n w (t\<lparr>cw_cursor_shape := cs\<rparr>) = term_inv n w t"
  "term_inv n w (t\<lparr>blinking_cursor := b\<rparr>) = term_inv n w t"
  "term_inv n w (t\<lparr>current_directory := d\<rparr>) = term_inv n w t"
  by (simp_all add: term_inv_def)

lemma send_ok [simp]: "term_inv n w (send t e) = term_inv n w t" "still t (send u e) = still t u"
  by (simp_all add: send_def still_def)

lemma mode_ok [simp]: "term_inv n w (mode_ins t m) = term_inv n w t" "term_inv n w (mode_rem t m) = term_inv n w t"
  by (simp_all add: mode_ins_def mode_rem_def)

lemma overlays_ok [simp]: "term_inv n w (overlays_moved t) = term_inv n w t" "still t (overlays_moved u) = still t u"
  by (auto simp: overlays_moved_def still_def)

lemma mark_fully_damaged_ok [simp]: "term_inv n w (mark_fully_damaged t) = term_inv n w t"
  "still t (mark_fully_damaged u) = still t u"
  by (auto simp: mark_fully_damaged_def term_inv_def damage_wf_def send_def still_def Let_def)

lemma effect_fields [simp]:
  "cgrid (overlays_moved t) = cgrid t" "scroll_region (overlays_moved t) = scroll_region t"
  "cw_mode (overlays_moved t) = cw_mode t" "active_charset (overlays_moved t) = active_charset t"
  "tabs (overlays_moved t) = tabs t"
  "cgrid (mark_fully_damaged t) = cgrid t" "scroll_region (mark_fully_damaged t) = scroll_region t"
  "cw_mode (mark_fully_damaged t) = cw_mode t" "active_charset (mark_fully_damaged t) = active_charset t"
  "tabs (mark_fully_damaged t) = tabs t"
  "cgrid (send t e) = cgrid t" "scroll_region (send t e) = scroll_region t" "cw_mode (send t e) = cw_mode t"
  "active_charset (send t e) = active_charset t" "tabs (send t e) = tabs t"
  by (simp_all add: overlays_moved_def mark_fully_damaged_def send_def Let_def)

lemma damage_wf_update: "term_inv n w t \<Longrightarrow> damage_wf n d \<Longrightarrow> term_inv n w (t\<lparr>damage := d\<rparr>)"
  by (simp add: term_inv_def)

subsection \<open>Damage\<close>

lemma damage_line_effect:
  assumes "term_inv n w t" "0 \<le> l" "l < int n"
    and "\<And>d. term_inv n w (t\<lparr>damage := d\<rparr>) \<Longrightarrow> Q (t\<lparr>damage := d\<rparr>)"
  shows "wp (damage_line t l) Q"
proof -
  have "nat l < n" using assms(2,3) by linarith
  from damage_mark_ok [OF term_invD(10) [OF assms(1)] this] assms(2)
  obtain d where "damage_line t l = Some (t\<lparr>damage := d\<rparr>)" "damage_wf n d"
    by (auto simp: damage_line_def as_usize_def)
  with assms(4) damage_wf_update [OF assms(1)] show ?thesis by (simp add: wp_simps)
qed

lemma damage_fields [simp]:
  "cgrid (t\<lparr>damage := d\<rparr>) = cgrid t" "still t (u\<lparr>damage := d\<rparr>) = still t u"
  "still (t\<lparr>damage := d\<rparr>) u = still t u"
  by (simp_all add: still_def)

lemma damage_cursor_effect:
  assumes "term_inv n w t" "\<And>d. term_inv n w (t\<lparr>damage := d\<rparr>) \<Longrightarrow> Q (t\<lparr>damage := d\<rparr>)"
  shows "wp (damage_cursor t) Q"
  unfolding damage_cursor_def
  by (rule damage_line_effect [OF assms(1) term_invD(6,7) [OF assms(1)]]) (rule assms(2))

lemma damage_lines_effect:
  assumes "term_inv n w t" "\<And>l. l \<in> set ls \<Longrightarrow> 0 \<le> l \<and> l < int n"
    and "\<And>d. term_inv n w (t\<lparr>damage := d\<rparr>) \<Longrightarrow> Q (t\<lparr>damage := d\<rparr>)"
  shows "wp (damage_lines t ls) Q"
proof -
  let ?I = "\<lambda>u. term_inv n w u \<and> (\<exists>d. u = t\<lparr>damage := d\<rparr>)"
  have "wp (foldM damage_line t ls) ?I"
  proof (rule wp_foldM_inv)
    show "?I t" using assms(1) by (auto intro: exI [of _ "damage t"])
    fix l u
    assume "l \<in> set ls" "?I u"
    then show "wp (damage_line u l) ?I"
      by (intro damage_line_effect [where n = n and w = w]) (use assms(2) in auto)
  qed
  then show ?thesis unfolding damage_lines_def by (rule wp_mono) (use assms(3) in auto)
qed

lemma damage_wps [term_wp]:
  assumes "term_inv n w t" and "\<And>u. term_inv n w u \<Longrightarrow> still t u \<Longrightarrow> Q u"
  shows "0 \<le> l \<Longrightarrow> l < int n \<Longrightarrow> wp (damage_line t l) Q"
    and "wp (damage_cursor t) Q"
    and "(\<And>l. l \<in> set ls \<Longrightarrow> 0 \<le> l \<and> l < int n) \<Longrightarrow> wp (damage_lines t ls) Q"
  using assms
  by (auto intro: damage_line_effect [OF assms(1)] damage_cursor_effect [OF assms(1)]
      damage_lines_effect [OF assms(1)])

subsection \<open>Grid operations\<close>

lemma on_grid_wp:
  assumes "term_inv n w t" "wp m P"
    and "\<And>g. P g \<Longrightarrow> grid_ok n w g \<and> Q (t\<lparr>cgrid := g\<rparr>)"
  shows "wp (on_grid t m) (\<lambda>u. term_inv n w u \<and> Q u)"
  using assms by (auto simp: on_grid_def wp_simps term_inv_def elim!: wp_mono)

lemma same_frame_grid_ok:
  "grid_ok n w g \<Longrightarrow> grid_wf h \<Longrightarrow> same_frame g h \<Longrightarrow> grid_ok n w h"
  by (simp add: grid_ok_def same_frame_def)

lemma on_grid_frame_wp:
  assumes "term_inv n w t" "wp m (\<lambda>h. grid_wf h \<and> same_frame (cgrid t) h \<and> P h)"
    and "\<And>h. term_inv n w (t\<lparr>cgrid := h\<rparr>) \<Longrightarrow> still t (t\<lparr>cgrid := h\<rparr>) \<Longrightarrow> P h \<Longrightarrow> Q (t\<lparr>cgrid := h\<rparr>)"
  shows "wp (on_grid t m) Q"
  unfolding on_grid_def wp_map_option
proof (rule wp_mono [OF assms(2)], elim conjE)
  fix h
  assume h: "grid_wf h" "same_frame (cgrid t) h" "P h"
  have "term_inv n w (t\<lparr>cgrid := h\<rparr>)"
    using assms(1) same_frame_grid_ok [OF _ h(1,2)] by (auto simp: term_inv_def)
  moreover have "still t (t\<lparr>cgrid := h\<rparr>)" using h(2) by (simp add: still_def same_frame_def)
  ultimately show "Q (t\<lparr>cgrid := h\<rparr>)" using assms(3) h(3) by blast
qed

lemma grid_modify_row_effect:
  assumes "grid_wf g" "has_line g l" "f (row_at (raw g) l) = Some r" "length (cells r) = g_columns g"
  shows "\<exists>s. grid_modify_row g l f = Some (g\<lparr>raw := s\<rparr>) \<and> grid_wf (g\<lparr>raw := s\<rparr>) \<and>
    st_len s = st_len (raw g) \<and> grid_line (g\<lparr>raw := s\<rparr>) l = cells r \<and>
    (\<forall>m. has_line g m \<longrightarrow> m \<noteq> l \<longrightarrow> grid_line (g\<lparr>raw := s\<rparr>) m = grid_line g m)"
proof -
  have wf: "storage_wf (g_columns g) (raw g)" and l: "in_store (raw g) l"
    using assms(1,2) has_line_in_store [OF assms(1)] by (auto simp: grid_wf_def)
  from storage_modify_ok [where f = f, OF wf l assms(3,4)] obtain s where
    s: "storage_modify (raw g) l f = Some s" "storage_wf (g_columns g) s"
      "ring s = (ring (raw g))[pos_of (raw g) l := r]" "visible_lines s = visible_lines (raw g)" "st_len s = st_len (raw g)"
    by blast
  have pos: "pos_of s = pos_of (raw g)" using s(4) by (simp add: pos_of_def fun_eq_iff)
  have "row_at s l = r" using s(3) pos pos_of_less [OF l] by (simp add: row_at_def)
  moreover have "row_at s m = row_at (raw g) m" if "has_line g m" "m \<noteq> l" for m
    using that l has_line_in_store [OF assms(1)] pos_of_inject [of "raw g" m l] pos s(3)
    by (simp add: row_at_def nth_list_update)
  ultimately show ?thesis
    using s(1,2,4,5) assms(1)
    by (auto simp: grid_modify_row_def on_raw_def grid_line_def grid_wf_def grid_history_raw)
qed

lemma grid_modify_row_frame:
  assumes "grid_wf g" "has_line g l"
    and "\<And>r. length (cells r) = g_columns g \<Longrightarrow> wp (f r) (\<lambda>r'. length (cells r') = g_columns g)"
  shows "wp (grid_modify_row g l f) (\<lambda>h. grid_wf h \<and> same_frame g h \<and>
    grid_history h = grid_history g \<and> display_offset h = display_offset g)"
proof -
  have "length (cells (row_at (raw g) l)) = g_columns g"
    using grid_line_length [OF assms(1,2)] by (simp add: grid_line_def)
  from assms(3) [OF this] obtain r where r: "f (row_at (raw g) l) = Some r" "length (cells r) = g_columns g"
    by (auto simp: wp_iff)
  from grid_modify_row_effect [where f = f, OF assms(1,2) r] show ?thesis
    by (auto simp: wp_simps grid_history_raw same_frame_def)
qed

lemma modify_row_wp [term_wp]:
  assumes "term_inv n w t" "g = cgrid t" "has_line (cgrid t) l"
    and "\<And>r. length (cells r) = w \<Longrightarrow> wp (f r) (\<lambda>r'. length (cells r') = w)"
    and "\<And>u. term_inv n w u \<Longrightarrow> still t u \<Longrightarrow> Q u"
  shows "wp (on_grid t (grid_modify_row g l f)) Q"
  unfolding assms(2)
proof (rule on_grid_frame_wp [OF assms(1)])
  show "wp (grid_modify_row (cgrid t) l f) (\<lambda>h. grid_wf h \<and> same_frame (cgrid t) h \<and>
      (grid_history h = grid_history (cgrid t) \<and> display_offset h = display_offset (cgrid t)))"
    using grid_modify_row_frame [of "cgrid t" l f] assms(3,4) term_invD(1,3) [OF assms(1)] by simp
qed (use assms(5) in blast)

lemma set_cell_wp [term_wp]:
  assumes "term_inv n w t" "has_line (cgrid t) (row p)" "col p < w"
    and "\<And>u. term_inv n w u \<Longrightarrow> still t u \<Longrightarrow> Q u"
  shows "wp (set_cell t p f) Q"
  unfolding set_cell_def grid_modify_cell_def
proof (rule modify_row_wp [OF assms(1) refl assms(2)])
  show "wp (row_index_mut r (col p) f) (\<lambda>r'. length (cells r') = w)" if "length (cells r) = w" for r
    using assms(3) that by (auto simp: row_index_mut_def wp_simps)
qed (rule assms(4))

lemma set_cursor_cell_wp [term_wp]:
  assumes "term_inv n w t"
    and "\<And>u. term_inv n w u \<Longrightarrow> still t u \<Longrightarrow> Q u"
  shows "wp (set_cursor_cell t f) Q"
proof -
  note inv = term_invD [OF assms(1)]
  have "has_line (cgrid t) (row (cpos (cur t)))" using screen_has_line [OF assms(1)] inv by simp
  then have "wp (set_cell t (cpos (cur t)) f) Q" by (rule set_cell_wp [OF assms(1)]) (use assms(2) inv(8) in auto)
  then show ?thesis by (simp add: set_cursor_cell_def cursor_square_def set_cell_def)
qed

lemma cell_at_wp [term_wp]:
  assumes "term_inv n w t" "has_line (cgrid t) (row p)" "col p < w" "\<And>c. Q c"
  shows "wp (cell_at t p) Q"
  using grid_cell_ok [of "cgrid t" p] assms term_invD [OF assms(1)] by (simp add: cell_at_def wp_simps)

end
