(* ===== verification/TermKeep.thy ===== *)
theory TermKeep
  imports TermInv
begin

text \<open>
  Every call of the \<open>Handler\<close> trait keeps the terminal's invariant and does not panic. One lemma
  per operation, in the order of the code.
\<close>

subsection \<open>Blanks and styles\<close>

lemma blank_with_bg_frame:
  assumes "style_inv (g_style_set g)"
  shows "\<exists>s. fst (blank_with_bg g bg) = g\<lparr>g_style_set := s\<rparr> \<and> style_inv s"
proof -
  let ?s = "\<lambda>v. fst (style_intern (g_style_set g) v)"
  have "fst (blank_with_bg g bg) = g\<lparr>g_style_set := g_style_set g\<rparr> \<or>
      (\<exists>v. fst (blank_with_bg g bg) = g\<lparr>g_style_set := ?s v\<rparr>)"
    by (auto simp: blank_with_bg_def split: ansi_color.split prod.split)
      (metis fst_conv)
  with assms style_table.inv_intern [OF assms] show ?thesis by blast
qed

lemma grid_update_ok:
  "grid_ok n w g \<Longrightarrow> style_inv s \<Longrightarrow> grid_ok n w (g\<lparr>g_style_set := s\<rparr>)"
  "grid_ok n w g \<Longrightarrow> extras_inv x \<Longrightarrow> grid_ok n w (g\<lparr>g_extras := x\<rparr>)"
  "grid_ok n w g \<Longrightarrow> cursor_ok n w c \<Longrightarrow> grid_ok n w (g\<lparr>gcursor := c\<rparr>)"
  "grid_ok n w g \<Longrightarrow> cursor_ok n w c \<Longrightarrow> grid_ok n w (g\<lparr>saved_cursor := c\<rparr>)"
  by (auto simp: grid_ok_def grid_wf_def grid_history_raw)

lemma term_inv_grid: "term_inv n w t \<Longrightarrow> grid_ok n w g \<Longrightarrow> term_inv n w (t\<lparr>cgrid := g\<rparr>)"
  by (simp add: term_inv_def)

lemma term_inv_gridD: "term_inv n w t \<Longrightarrow> grid_ok n w (cgrid t)"
  by (simp add: term_inv_def)

lemma grid_okD:
  assumes "grid_ok n w g"
  shows "grid_wf g" "g_lines g = n" "g_columns g = w" "cursor_ok n w (gcursor g)" "cursor_ok n w (saved_cursor g)"
    "style_inv (g_style_set g)" "extras_inv (g_extras g)"
  using assms by (auto simp: grid_ok_def grid_wf_def)

lemma current_blank_ok:
  assumes "term_inv n w t"
  shows "\<exists>s. fst (current_blank t) = t\<lparr>cgrid := (cgrid t)\<lparr>g_style_set := s\<rparr>\<rparr> \<and>
    term_inv n w (fst (current_blank t))"
proof -
  obtain s where s: "fst (blank_with_bg (cgrid t) (st_bg (style_of (cgrid t) (template (cur t))))) =
      (cgrid t)\<lparr>g_style_set := s\<rparr>" "style_inv s"
    using blank_with_bg_frame [OF grid_okD(6) [OF term_inv_gridD [OF assms]]] by blast
  with assms show ?thesis
    by (auto simp: current_blank_def split: prod.split intro!: term_inv_grid grid_update_ok term_inv_gridD)
qed

lemma current_blank_wp:
  assumes "term_inv n w t"
    and "\<And>s b. term_inv n w (t\<lparr>cgrid := (cgrid t)\<lparr>g_style_set := s\<rparr>\<rparr>) \<Longrightarrow>
      Q (t\<lparr>cgrid := (cgrid t)\<lparr>g_style_set := s\<rparr>\<rparr>) b"
  shows "case current_blank t of (u, b) \<Rightarrow> Q u b"
  using current_blank_ok [OF assms(1)] assms(2) by (auto split: prod.split)

lemma still_style [simp]: "still t (u\<lparr>cgrid := (cgrid u)\<lparr>g_style_set := s\<rparr>\<rparr>) = still t u"
  by (simp add: still_def)

lemma template_style_ok:
  assumes "grid_ok n w g"
  shows "grid_ok n w (update_template_style g f)"
proof -
  let ?r = "style_intern (g_style_set g) (f (style_of g (template (gcursor g))))"
  have "style_inv (fst ?r)" using style_table.inv_intern grid_okD(6) [OF assms] by blast
  with assms have "grid_ok n w (g\<lparr>g_style_set := fst ?r\<rparr>)" by (rule grid_update_ok(1))
  from grid_update_ok(3) [OF this, of "(gcursor g)\<lparr>template := sq_set_style_id (template (gcursor g)) (snd ?r)\<rparr>"]
  show ?thesis
    using grid_okD(4) [OF assms]
    by (simp add: update_template_style_def set_template_style_def set_template_style_id_def
        cursor_ok_def case_prod_beta)
qed

subsection \<open>Scrolling\<close>

lemma region_range:
  "region_ok n (a, b) \<Longrightarrow> 0 \<le> a \<and> a \<le> b \<and> b \<le> int n \<and> (a < b \<or> a = int n \<and> b = int n)"
  by (auto simp: region_ok_def)

lemma grid_scroll_up_frame:
  assumes "grid_wf g" "region_ok (g_lines g) (a, b)" "a = 0 \<longrightarrow> int k \<le> b"
  shows "wp (Grid.scroll_up g (a, b) k) (\<lambda>h. grid_wf h \<and> same_frame g h)"
proof (cases "a < b")
  case True
  note r = region_range [OF assms(2)]
  show ?thesis
  proof (cases "a = 0")
    case True
    with assms(3) r have "k \<le> nat b" "nat b \<le> g_lines g" "(0, int (nat b)) = (a, b)" by auto
    from scroll_up_top [OF assms(1) this(1,2)] this(3) show ?thesis
      by (auto simp: grid_moved_def elim!: wp_mono)
  next
    case False
    with scroll_up_region [OF assms(1) _ True, of k] r show ?thesis
      by (auto simp: grid_moved_def elim!: wp_mono)
  qed
next
  case False
  with region_range [OF assms(2)] assms(1) have "a = b" "a \<noteq> 0" by (auto simp: grid_wf_def)
  then show ?thesis
    using assms(1) by (simp add: Grid.scroll_up_def reset_lines_def on_raw_def wp_simps)
qed

lemma grid_scroll_down_frame:
  assumes "grid_wf g" "region_ok (g_lines g) (a, b)"
  shows "wp (Grid.scroll_down g (a, b) k) (\<lambda>h. grid_wf h \<and> same_frame g h)"
proof (cases "a < b")
  case True
  with scroll_down_ok [OF assms(1), of a b k] region_range [OF assms(2)] show ?thesis
    by (auto simp: grid_moved_def elim!: wp_mono)
next
  case False
  with region_range [OF assms(2)] assms(1) show ?thesis
    by (simp add: Grid.scroll_down_def reset_lines_def on_raw_def wp_simps)
qed

lemma rotate_selection_wp [term_wp]:
  assumes "term_inv n w t" "\<And>u. term_inv n w u \<Longrightarrow> still t u \<Longrightarrow> Q u"
  shows "wp (rotate_selection t r k) Q"
proof (cases "cw_selection t")
  case None
  with assms show ?thesis by (simp add: rotate_selection_def wp_simps)
next
  case (Some s)
  have "0 < columns (grid_dims (cgrid t))" using term_inv_dims(6) [OF assms(1)] term_invD(4) [OF assms(1)] by simp
  with Some assms show ?thesis
    using selection_rotate_total [of "grid_dims (cgrid t)" s r k]
    by (auto simp: rotate_selection_def wp_simps still_def)
qed

lemma still_update [simp]:
  "still t (u\<lparr>cw_selection := s\<rparr>) = still t u" "still t (u\<lparr>vi_cursor := p\<rparr>) = still t u"
  by (simp_all add: still_def)

lemma as_usize_nonneg: "0 \<le> l \<Longrightarrow> as_usize l = nat l"
  by (simp add: as_usize_def)

lemma grid_scroll_up_wp [term_wp]:
  assumes "term_inv n w t" "g = cgrid t" "region_ok n (a, b)" "a = 0 \<longrightarrow> int k \<le> b"
    and "\<And>u. term_inv n w u \<Longrightarrow> still t u \<Longrightarrow> Q u"
  shows "wp (on_grid t (Grid.scroll_up g (a, b) k)) Q"
  using grid_scroll_up_frame [of "cgrid t" a b k] term_invD [OF assms(1)] assms(2-4)
  by (auto intro!: on_grid_frame_wp [OF assms(1), where P = "\<lambda>_. True"] assms(5))

lemma grid_scroll_down_wp [term_wp]:
  assumes "term_inv n w t" "g = cgrid t" "region_ok n (a, b)"
    and "\<And>u. term_inv n w u \<Longrightarrow> still t u \<Longrightarrow> Q u"
  shows "wp (on_grid t (Grid.scroll_down g (a, b) k)) Q"
  using grid_scroll_down_frame [of "cgrid t" a b k] term_invD [OF assms(1)] assms(2,3)
  by (auto intro!: on_grid_frame_wp [OF assms(1), where P = "\<lambda>_. True"] assms(4))

lemma scroll_up_relative_wp [term_wp]:
  assumes "term_inv n w t" "scroll_region t = (a, b)" "a \<le> origin" "origin < b \<or> origin = a"
    and Q: "\<And>u. term_inv n w u \<Longrightarrow> still t u \<Longrightarrow> Q u"
  shows "wp (scroll_up_relative t origin k) Q"
proof -
  have r: "region_ok n (a, b)" using term_invD(11) [OF assms(1)] assms(2) by simp
  note rr = region_range [OF r]
  have ro: "region_ok n (origin, b)" using rr assms(3,4) by (auto simp: region_ok_def)
  define m where "m = min k (as_usize (b - a))"
  have m: "origin = 0 \<longrightarrow> int m \<le> b" using rr assms(3) by (auto simp: m_def as_usize_nonneg)
  have l: "0 \<le> l \<and> l < int n" if "l \<in> set [origin..b - 1]" for l using that rr assms(3) by auto
  show ?thesis
    unfolding scroll_up_relative_def assms(2) Let_def prod.case m_def [symmetric] wp_bind
    using assms(1) m ro l
    by (auto simp: wp_simps still_def intro!: term_wp [where n = n and w = w] Q)
qed

lemma scroll_down_relative_wp [term_wp]:
  assumes "term_inv n w t" "scroll_region t = (a, b)" "a \<le> origin" "origin < b \<or> origin = a"
    and Q: "\<And>u. term_inv n w u \<Longrightarrow> still t u \<Longrightarrow> Q u"
  shows "wp (scroll_down_relative t origin k) Q"
proof -
  have r: "region_ok n (a, b)" using term_invD(11) [OF assms(1)] assms(2) by simp
  have ro: "region_ok n (origin, b)" using region_range [OF r] assms(3,4) by (auto simp: region_ok_def)
  then show ?thesis
    unfolding scroll_down_relative_def assms(2) Let_def prod.case wp_bind
    using assms(1)
    by (auto simp: wp_simps still_def intro!: term_wp [where n = n and w = w] Q)
qed

lemma linefeed_wp [term_wp]:
  assumes "term_inv n w t" and Q: "\<And>u. term_inv n w u \<Longrightarrow> cw_mode u = cw_mode t \<Longrightarrow>
    scroll_region u = scroll_region t \<Longrightarrow> active_charset u = active_charset t \<Longrightarrow> tabs u = tabs t \<Longrightarrow>
    cur_col u = cur_col t \<Longrightarrow> Q u"
  shows "wp (linefeed t) Q"
proof -
  obtain a b where r: "scroll_region t = (a, b)" by force
  show ?thesis
    using assms(1) term_inv_pos [OF assms(1)] r
    by (auto simp: linefeed_def wp_simps term_inv_dims(4) [OF assms(1)] still_def intro!: term_wp [where n = n and w = w] Q)
qed

lemma wrapline_wp [term_wp]:
  assumes "term_inv n w t" and Q: "\<And>u. term_inv n w u \<Longrightarrow> cw_mode u = cw_mode t \<Longrightarrow>
    scroll_region u = scroll_region t \<Longrightarrow> active_charset u = active_charset t \<Longrightarrow> tabs u = tabs t \<Longrightarrow>
    (mode_on t M_LINE_WRAP \<Longrightarrow> cur_col u = 0 \<and> \<not> should_wrap (cur u)) \<Longrightarrow>
    (\<not> mode_on t M_LINE_WRAP \<Longrightarrow> u = t) \<Longrightarrow> Q u"
  shows "wp (wrapline t) Q"
proof (cases "mode_on t M_LINE_WRAP")
  case True
  obtain a b where r: "scroll_region t = (a, b)" by force
  have "wp (wrapline t) (\<lambda>u. term_inv n w u \<and> cw_mode u = cw_mode t \<and>
    scroll_region u = scroll_region t \<and> active_charset u = active_charset t \<and> tabs u = tabs t \<and>
    cur_col u = 0 \<and> \<not> should_wrap (cur u))"
    using True assms(1) term_inv_pos [OF assms(1)] r region_range [of n a b]
    by (auto simp: wrapline_def set_cursor_cell_def [symmetric] wp_simps still_def mode_on_def
        intro!: term_wp [where n = n and w = w])
  with Q True show ?thesis by (auto elim!: wp_mono)
qed (use Q assms(1) in \<open>simp add: wrapline_def wp_simps\<close>)

subsection \<open>Writing cells\<close>

lemma line_above:
  assumes "term_inv n w t" "0 \<le> l" "l < int n" "l \<noteq> topmost_line (grid_dims (cgrid t))"
  shows "has_line (cgrid t) (l - 1)"
  using assms term_invD(2) [OF assms(1)]
  by (auto simp: has_line_def topmost_line_def grid_dims_def history_size_def grid_history_raw)

lemma has_line_trans: "term_inv n w t \<Longrightarrow> has_line (cgrid t) l \<Longrightarrow> 0 \<le> l \<Longrightarrow> term_inv n w u \<Longrightarrow> has_line (cgrid u) l"
  by (simp add: has_line_def term_invD)

lemma drop_wide_halves_wp [term_wp]:
  assumes "term_inv n w t" and Q: "\<And>u. term_inv n w u \<Longrightarrow> still t u \<Longrightarrow> Q u"
  shows "wp (drop_wide_halves t) Q"
proof -
  note lc = term_inv_dims(1) [where n = n and w = w]
  have "wp (drop_wide_halves t) (\<lambda>u. term_inv n w u \<and> still t u)"
    unfolding drop_wide_halves_def Let_def
    using assms(1) term_inv_pos [OF assms(1)]
    by (auto simp: wp_simps still_def lc screen_has_line [where n = n and w = w] line_above [where n = n and w = w]
        intro!: term_wp [where n = n and w = w])
  then show ?thesis by (rule wp_mono) (use Q in auto)
qed

lemma charsets_get_wp: "length cs = 4 \<Longrightarrow> (\<And>c. Q c) \<Longrightarrow> wp (charsets_get cs i) Q"
  by (cases i) (auto simp: charsets_get_def wp_simps)

lemma write_at_cursor_wp [term_wp]:
  assumes "term_inv n w t" and Q: "\<And>u. term_inv n w u \<Longrightarrow> still t u \<Longrightarrow> Q u"
  shows "wp (write_at_cursor t c) Q"
  unfolding write_at_cursor_def Let_def
  using assms(1) term_inv_pos [OF assms(1)]
  by (auto simp: wp_simps still_def intro!: charsets_get_wp term_wp [where n = n and w = w] Q)

lemma write_wide_at_cursor_wp [term_wp]:
  assumes "term_inv n w t" and Q: "\<And>u. term_inv n w u \<Longrightarrow> still t u \<Longrightarrow> Q u"
  shows "wp (write_wide_at_cursor t c k) Q"
  unfolding write_wide_at_cursor_def Let_def
  using assms(1) term_inv_pos [OF assms(1)]
  by (auto simp: wp_simps still_def intro!: term_wp [where n = n and w = w] Q)

lemma has_line_frame [simp]:
  "has_line (g\<lparr>g_extras := x\<rparr>) l = has_line g l" "has_line (g\<lparr>g_style_set := s\<rparr>) l = has_line g l"
  "has_line (g\<lparr>gcursor := c\<rparr>) l = has_line g l" "has_line (g\<lparr>saved_cursor := c\<rparr>) l = has_line g l"
  by (simp_all add: has_line_def grid_history_raw)

lemma vs16_wrap_wp [term_wp]:
  assumes "term_inv n w t" "base < w" "mode_on t M_LINE_WRAP" and Q: "\<And>u. term_inv n w u \<Longrightarrow> Q u"
  shows "wp (vs16_wrap t base b) Q"
proof -
  have pos: "0 \<le> cur_row u" "cur_row u < int n" "cur_col u < w" if "term_inv n w u" for u
    using term_inv_pos [OF that] by simp_all
  note step = term_wp [where n = n and w = w]
  show ?thesis
    unfolding vs16_wrap_def Let_def wp_bind
  proof (rule step)
    show "term_inv n w (set_should_wrap (set_cur_col t base) False)" using assms by (intro step)
    fix u
    assume u: "term_inv n w u" "still (set_should_wrap (set_cur_col t base) False) u"
    then have m: "mode_on u M_LINE_WRAP" using assms(3) by (simp add: still_def mode_on_def)
    have w: "2 \<le> w" and r: "0 \<le> cur_row t" "cur_row t < int n" using term_inv_pos [OF assms(1)] by simp_all
    have last: "wp (damage_line (if 2 < grid_col_count t then set_cur_col z 2 else set_should_wrap z True) (cur_row t))
        (\<lambda>x. wp (damage_line x l) Q)" if "term_inv n w z" "0 \<le> l" "l < int n" for z l
    proof (rule damage_wps(1) [where n = n and w = w])
      show "term_inv n w (if 2 < grid_col_count t then set_cur_col z 2 else set_should_wrap z True)"
        using that term_inv_dims(3) [OF assms(1)] by (simp add: step)
    qed (use r that in \<open>auto intro!: step Q\<close>)
    show "wp (wrapline u) (\<lambda>x. wp (set_cell x (Pos (cur_row x) 0) (\<lambda>_. sq_set_wide b Wide))
      (\<lambda>y. wp (write_wide_at_cursor (set_cur_col y 1) 32 Spacer)
        (\<lambda>z. wp (damage_line (if 2 < grid_col_count t then set_cur_col z 2 else set_should_wrap z True) (cur_row t))
          (\<lambda>a. wp (damage_line a (cur_row x)) Q))))"
      using u m w by (intro wrapline_wp [OF u(1)] set_cell_wp write_wide_at_cursor_wp step last screen_has_line)
        (auto intro: pos last)
  qed
qed

lemma vs16_widen_wp [term_wp]:
  assumes "term_inv n w t" "base + 1 < w" and Q: "\<And>u. term_inv n w u \<Longrightarrow> Q u"
  shows "wp (vs16_widen t base) Q"
  unfolding vs16_widen_def Let_def
  using assms(1,2) term_inv_pos [OF assms(1)]
  by (auto simp: wp_simps term_inv_dims(3) [OF assms(1)] still_def screen_has_line [where n = n and w = w]
      intro!: term_wp [where n = n and w = w] Q)

lemma apply_emoji_vs16_wp [term_wp]:
  assumes "term_inv n w t" and Q: "\<And>u. term_inv n w u \<Longrightarrow> Q u"
  shows "wp (apply_emoji_vs16 v t) Q"
  unfolding apply_emoji_vs16_def Let_def
  using assms(1) term_inv_pos [OF assms(1)]
  by (auto simp: wp_simps term_inv_dims(3) [OF assms(1)] screen_has_line [where n = n and w = w]
      intro!: term_wp [where n = n and w = w] Q)

lemma apply_emoji_vs15_wp [term_wp]:
  assumes "term_inv n w t" and Q: "\<And>u. term_inv n w u \<Longrightarrow> Q u"
  shows "wp (apply_emoji_vs15 v t) Q"
  unfolding apply_emoji_vs15_def Let_def
  using assms(1) term_inv_pos [OF assms(1)]
  by (auto simp: wp_simps still_def screen_has_line [where n = n and w = w]
      intro!: term_wp [where n = n and w = w] Q)

lemma extras_update_wp [term_wp]:
  "term_inv n w t \<Longrightarrow> extras_inv x \<Longrightarrow> term_inv n w (t\<lparr>cgrid := (cgrid t)\<lparr>g_extras := x\<rparr>\<rparr>)"
  by (rule term_inv_grid) (auto intro: grid_update_ok term_inv_gridD)

lemma extras_alloc_wp:
  "extras_inv x \<Longrightarrow> (\<And>y i. extras_inv y \<Longrightarrow> Q (y, i)) \<Longrightarrow> wp (extras_alloc x e) Q"
  by (rule wp_mono [OF extras_alloc_ok]) auto

lemma input_zero_width_wp [term_wp]:
  assumes "term_inv n w t" and Q: "\<And>u. term_inv n w u \<Longrightarrow> Q u"
  shows "wp (input_zero_width v t c) Q"
proof -
  have core: "wp (do {
     let column = (if should_wrap (cur t) then cur_col t else cur_col t - 1);
     let r = cur_row t;
     cell \<leftarrow> cell_at t (Pos r column);
     let column = (if sq_wide cell = Spacer then column - 1 else column);
     t \<leftarrow> set_cell t (Pos r column) (\<lambda>c. c);
     cell \<leftarrow> cell_at t (Pos r column);
     t \<leftarrow> (case sq_extras_id cell of
        Some i \<Rightarrow> Some (t\<lparr>cgrid := (cgrid t)\<lparr>g_extras :=
            extras_modify (g_extras (cgrid t)) i (\<lambda>e. e\<lparr>zerowidth := zerowidth e @ [c]\<rparr>)\<rparr>\<rparr>)
      | None \<Rightarrow> do {
          (x, i) \<leftarrow> extras_alloc (g_extras (cgrid t)) (extras_default\<lparr>zerowidth := [c]\<rparr>);
          set_cell (t\<lparr>cgrid := (cgrid t)\<lparr>g_extras := x\<rparr>\<rparr>) (Pos r column)
            (\<lambda>c. sq_insert_cell_flag (sq_set_extras_id c (Some i)) CF_GRAPHEME)
        });
     damage_line t r
   }) Q" if t: "term_inv n w t" for t
  proof -
    have x: "extras_inv (g_extras (cgrid u))" if "term_inv n w u" for u
      using grid_okD(7) [OF term_inv_gridD [OF that]] .
    show ?thesis
      using t term_inv_pos [OF t]
      by (auto simp: wp_simps still_def screen_has_line [where n = n and w = w] Let_def x extras_modify_inv
          split: option.split intro!: extras_alloc_wp term_wp [where n = n and w = w] Q)
  qed
  have "wp (if c = 0xFE0F then apply_emoji_vs16 v t else if c = 0xFE0E then apply_emoji_vs15 v t else Some t)
      (term_inv n w)"
    using assms(1) by (auto simp: wp_simps intro!: term_wp [where n = n and w = w])
  then show ?thesis
    unfolding input_zero_width_def wp_bind [of "if c = 0xFE0F then _ else _"]
    by (rule wp_mono) (rule core)
qed

subsection \<open>Input\<close>

lemma list_swaps_wp:
  assumes "\<And>a b. (a, b) \<in> set ps \<Longrightarrow> a < length cs \<and> b < length cs"
  shows "wp (foldM list_swap cs ps) (\<lambda>ds. length ds = length cs)"
  by (rule wp_foldM_inv) (use assms in \<open>auto simp: list_swap_def wp_simps\<close>)

lemma row_slice_wp:
  "wp (f (cells r)) (\<lambda>cs. length cs = w) \<Longrightarrow> wp (row_slice_mut f r) (\<lambda>r'. length (cells r') = w)"
  by (simp add: row_slice_mut_def wp_simps)

lemma insert_shift_wp [term_wp]:
  assumes "term_inv n w t" and Q: "\<And>u. term_inv n w u \<Longrightarrow> still t u \<Longrightarrow> Q u"
  shows "wp (insert_shift t width) Q"
proof -
  have swaps: "wp (foldM list_swap cs (map (\<lambda>k. (k + width, k)) (rev [cur_col t..<k - width]))) (\<lambda>cs. length cs = k)"
    if "length cs = k" for k and cs :: "square list"
    by (rule wp_mono [OF list_swaps_wp]) (use that in auto)
  show ?thesis
    unfolding insert_shift_def Let_def
    using assms(1) term_inv_pos [OF assms(1)]
    by (auto simp: wp_simps term_inv_dims(3) [OF assms(1)] screen_has_line [where n = n and w = w]
        intro!: term_wp [where n = n and w = w] row_slice_wp swaps Q)
qed

lemma mark_placeholder_wp [term_wp]:
  assumes "term_inv n w t" and Q: "\<And>u. term_inv n w u \<Longrightarrow> still t u \<Longrightarrow> Q u"
  shows "wp (mark_placeholder t c) Q"
  unfolding mark_placeholder_def
  using assms(1) term_inv_pos [OF assms(1)]
  by (auto simp: wp_simps screen_has_line [where n = n and w = w]
      intro!: term_wp [where n = n and w = w] Q)

lemma advance_cursor_wp [term_wp]:
  assumes "term_inv n w t" and Q: "\<And>u. term_inv n w u \<Longrightarrow> Q u"
  shows "wp (advance_cursor t) Q"
  unfolding advance_cursor_def
  using assms(1) term_inv_pos [OF assms(1)]
  by (auto simp: wp_simps still_def term_inv_dims(3) [where n = n and w = w]
      intro!: term_wp [where n = n and w = w] Q)

lemma write_wide_char_wp [term_wp]:
  assumes "term_inv n w t" "cur_col t + 1 < w" and Q: "\<And>u. term_inv n w u \<Longrightarrow> Q u"
  shows "wp (write_wide_char t c) Q"
  unfolding write_wide_char_def
  using assms(1,2) term_inv_pos [OF assms(1)]
  by (auto simp: wp_simps still_def intro!: term_wp [where n = n and w = w] Q)

lemma input_wp [term_wp]:
  assumes "term_inv n w t" and Q: "\<And>u. term_inv n w u \<Longrightarrow> Q u"
  shows "wp (input v t c) Q"
proof (cases "char_width v c")
  case None
  then show ?thesis using assms by (simp add: input_def wp_simps)
next
  case (Some width)
  note step = term_wp [where n = n and w = w]
  have start: "wp (if should_wrap (cur t) then wrapline t else Some t) (term_inv n w)"
    using assms(1) by (auto simp: wp_simps intro!: step)
  have main: "wp (if width = 1 then do { t \<leftarrow> write_at_cursor u c; advance_cursor t }
      else if cur_col u + 1 \<ge> w then
        (if mode_on u M_LINE_WRAP then do {
           t \<leftarrow> write_wide_at_cursor u 0x20 LeadingSpacer;
           t \<leftarrow> wrapline t;
           t \<leftarrow> write_wide_char t c;
           advance_cursor t
         }
         else Some (set_should_wrap u True))
      else do { t \<leftarrow> write_wide_char u c; advance_cursor t }) Q"
    if "term_inv n w u" for u
    using that term_inv_pos [OF that]
    by (auto simp: wp_simps still_def mode_on_def intro!: step Q)
  show ?thesis
  proof (cases "width = 0")
    case True
    with Some assms show ?thesis by (auto simp: input_def wp_simps intro!: step)
  next
    case False
    show ?thesis
      unfolding input_def Some option.case if_not_P [OF False] wp_bind wp_let
    proof (rule wp_mono [OF start])
      fix u
      assume u: "term_inv n w u"
      have "wp (insert_shift u width) (\<lambda>x. wp (mark_placeholder x c) (\<lambda>y. term_inv n w y))"
        using u by (auto intro!: step)
      then show "wp (insert_shift u width) (\<lambda>x. wp (mark_placeholder x c) (\<lambda>y.
          wp (if width = 1 then do { t \<leftarrow> write_at_cursor y c; advance_cursor t }
          else if cur_col y + 1 \<ge> grid_col_count u then
            (if mode_on y M_LINE_WRAP then do {
               t \<leftarrow> write_wide_at_cursor y 0x20 LeadingSpacer;
               t \<leftarrow> wrapline t;
               t \<leftarrow> write_wide_char t c;
               advance_cursor t
             }
             else Some (set_should_wrap y True))
          else do { t \<leftarrow> write_wide_char y c; advance_cursor t }) Q))"
        unfolding term_inv_dims(3) [OF u] by (elim wp_mono) (rule main)
    qed
  qed
qed

end
