(* ===== verification/HandlerKeep.thy ===== *)
theory HandlerKeep
  imports TermKeep
begin

text \<open>
  The terminal's invariant through the handlers: every call returns and keeps the invariant.
\<close>

subsection \<open>Moving the cursor\<close>

lemma goto_wp [term_wp]:
  assumes "term_inv n w t" and Q: "\<And>u. term_inv n w u \<Longrightarrow> Q u"
  shows "wp (goto t l k) Q"
proof -
  obtain a b where r: "scroll_region t = (a, b)" by force
  note facts = assms(1) term_inv_pos [OF assms(1)] r region_range [of n a b]
  show ?thesis
    unfolding goto_def Let_def
    using facts
    by (auto simp: wp_simps still_def mode_on_def term_inv_dims(1,2) [where n = n and w = w]
        intro!: term_wp [where n = n and w = w] Q)
qed

lemma moves_wp [term_wp]:
  assumes "term_inv n w t" and Q: "\<And>u. term_inv n w u \<Longrightarrow> Q u"
  shows "wp (goto_line t l) Q" "wp (goto_col t k) Q" "wp (move_up t m) Q" "wp (move_down t m) Q"
    "wp (move_down_and_cr t m) Q" "wp (move_up_and_cr t m) Q"
  using assms
  by (auto simp: goto_line_def goto_col_def move_up_def move_down_def move_down_and_cr_def move_up_and_cr_def
      intro!: term_wp [where n = n and w = w])

lemma cursor_moves_wp [term_wp]:
  assumes "term_inv n w t" and Q: "\<And>u. term_inv n w u \<Longrightarrow> Q u"
  shows "wp (move_forward t m) Q" "wp (move_backward t m) Q" "wp (backspace t) Q" "wp (carriage_return t) Q"
  using assms(1) term_inv_pos [OF assms(1)]
  by (auto simp: move_forward_def move_backward_def backspace_def carriage_return_def Let_def wp_simps still_def
      term_inv_dims(1) [where n = n and w = w] intro!: term_wp [where n = n and w = w] Q)

lemma newline_wp [term_wp]:
  assumes "term_inv n w t" and Q: "\<And>u. term_inv n w u \<Longrightarrow> Q u"
  shows "wp (newline t) Q"
  using assms by (auto simp: newline_def wp_simps intro!: term_wp [where n = n and w = w])

lemma save_cursor_ok: "term_inv n w t \<Longrightarrow> term_inv n w (save_cursor_position t)"
  unfolding save_cursor_position_def
  by (rule term_inv_grid) (auto intro: grid_update_ok term_inv_gridD grid_okD)

lemma restore_cursor_wp [term_wp]:
  assumes "term_inv n w t" and Q: "\<And>u. term_inv n w u \<Longrightarrow> Q u"
  shows "wp (restore_cursor_position t) Q"
proof -
  have g: "term_inv n w (u\<lparr>cgrid := (cgrid u)\<lparr>gcursor := saved_cursor (cgrid u)\<rparr>\<rparr>)" if "term_inv n w u" for u
    using that by (rule term_inv_grid) (auto intro: grid_update_ok term_inv_gridD [OF that] grid_okD(5))
  show ?thesis
    unfolding restore_cursor_position_def
    using assms(1) by (auto simp: wp_simps intro!: g term_wp [where n = n and w = w] Q)
qed

lemma configure_charset_wp [term_wp]:
  assumes "term_inv n w t" and Q: "\<And>u. term_inv n w u \<Longrightarrow> Q u"
  shows "wp (configure_charset t i c) Q"
proof -
  have c: "cursor_ok n w (cur t)" using grid_okD(4) [OF term_inv_gridD [OF assms(1)]] .
  then have "length (charsets (cur t)) = 4" by (simp add: cursor_ok_def)
  then show ?thesis
    using c assms(1)
    by (cases i) (auto simp: configure_charset_def charsets_set_def wp_simps cursor_ok_def intro!: Q)
qed

subsection \<open>Tab stops\<close>

lemma last_tab_ok: "i \<le> length ts \<Longrightarrow> i \<le> k \<Longrightarrow> \<exists>j \<le> k. last_tab ts k i = Some j"
  by (induction i) (auto simp: idx_def)

lemma move_backward_tabs_loop_ok: "k < length ts \<Longrightarrow> \<exists>j \<le> k. move_backward_tabs_loop ts m k = Some j"
proof (induction m arbitrary: k)
  case (Suc m)
  obtain j where "j \<le> k" "last_tab ts k k = Some j" using last_tab_ok [of k ts k] Suc.prems by auto
  with Suc.IH [of j] Suc.prems show ?case by (auto intro: order_trans)
qed simp

lemma first_tab_ok: "k < length ts \<Longrightarrow> k < i \<Longrightarrow> \<exists>j < length ts. k \<le> j \<and> first_tab ts (length ts) k i = Some j"
proof (induction "length ts - i" arbitrary: k i)
  case 0
  then show ?case by (auto simp: first_tab.simps [of ts "length ts" k i])
next
  case (Suc d)
  then have i: "i < length ts" "d = length ts - (i + 1)" by simp_all
  show ?case
  proof (cases "ts ! i")
    case True
    with i Suc.prems show ?thesis by (auto simp: first_tab.simps [of ts "length ts" k i] idx_def)
  next
    case False
    with Suc.hyps(1) [OF i(2) i(1)] i(1) Suc.prems show ?thesis
      by (auto simp: first_tab.simps [of ts "length ts" k i] idx_def intro: order_trans)
  qed
qed

lemma move_forward_tabs_loop_ok:
  "k < length ts \<Longrightarrow> \<exists>j < length ts. k \<le> j \<and> move_forward_tabs_loop ts (length ts) m k = Some j"
proof (induction m arbitrary: k)
  case (Suc m)
  obtain j where "k \<le> j" "j < length ts" "first_tab ts (length ts) k (k + 1) = Some j"
    using first_tab_ok [of k ts "k + 1"] Suc.prems by auto
  with Suc.IH [of j] Suc.prems show ?case by (auto simp: usub_def intro: order_trans)
qed simp

lemma next_tab_ok: "k < length ts \<Longrightarrow> \<exists>j < length ts. k \<le> j \<and> next_tab ts (length ts) k = Some j"
proof (induction ts "length ts" k rule: next_tab.induct)
  case (1 ts k)
  then show ?case
    by (cases "k + 1 = length ts \<or> ts ! (k + 1)")
      (auto simp: next_tab.simps [of ts "length ts" k] dest: Suc_leD)
qed

lemma tab_moves_wp [term_wp]:
  assumes "term_inv n w t" and Q: "\<And>u. term_inv n w u \<Longrightarrow> Q u"
  shows "wp (move_backward_tabs t m) Q" "wp (move_forward_tabs t m) Q"
proof -
  have w: "cur_col t < length (tabs t)" "length (tabs t) = w" "grid_col_count t = w"
    using term_invD [OF assms(1)] term_inv_dims [OF assms(1)] by simp_all
  obtain j where j: "move_backward_tabs_loop (tabs t) m (cur_col t) = Some j" "j \<le> cur_col t"
    using move_backward_tabs_loop_ok [OF w(1)] by blast
  obtain i where i: "move_forward_tabs_loop (tabs t) w m (cur_col t) = Some i" "i < w"
    using move_forward_tabs_loop_ok [OF w(1), of m] w(2) by auto
  show "wp (move_backward_tabs t m) Q"
    unfolding move_backward_tabs_def j(1) using assms(1) j(2) term_inv_pos [OF assms(1)]
    by (auto simp: wp_simps intro!: term_wp [where n = n and w = w] Q)
  show "wp (move_forward_tabs t m) Q"
    unfolding move_forward_tabs_def w(3) i(1) using assms(1) i(2)
    by (auto simp: wp_simps intro!: term_wp [where n = n and w = w] Q)
qed

lemma put_tab_loop_wp:
  assumes "term_inv n w t"
  shows "wp (put_tab_loop t m) (term_inv n w)"
  using assms
proof (induction m arbitrary: t)
  case (Suc m)
  have ts: "length (tabs u) = w" "length (charsets (cur u)) = 4" "cur_col u < w" "grid_col_count u = w"
    if "term_inv n w u" for u
    using term_invD [OF that] term_inv_dims [OF that] by simp_all
  have move: "wp (next_tab (tabs u) (grid_col_count u) (cur_col u)) (\<lambda>k. wp (put_tab_loop (set_cur_col u k) m) (term_inv n w))"
    if u: "term_inv n w u" for u
  proof -
    obtain k where "k < w" "next_tab (tabs u) w (cur_col u) = Some k"
      using next_tab_ok [of "cur_col u" "tabs u"] ts [OF u] by auto
    moreover from this have "wp (put_tab_loop (set_cur_col u k) m) (term_inv n w)"
      by (intro Suc.IH set_cur_col_ok [OF u])
    ultimately show ?thesis using ts(4) [OF u] by (simp add: wp_simps)
  qed
  show ?case
    using Suc.prems term_inv_pos(7) [OF Suc.prems]
    by (auto simp: wp_simps intro!: charsets_get_wp term_wp [where n = n and w = w] move)
qed (simp add: wp_simps)

lemma put_tab_wp [term_wp]:
  assumes "term_inv n w t" and Q: "\<And>u. term_inv n w u \<Longrightarrow> Q u"
  shows "wp (put_tab t m) Q"
  using assms(1) term_inv_pos [OF assms(1)]
  by (auto simp: put_tab_def wp_simps Let_def intro!: wp_mono [OF put_tab_loop_wp] term_wp [where n = n and w = w] Q)

lemma tab_stops_wp [term_wp]:
  assumes "term_inv n w t" and Q: "\<And>u. term_inv n w u \<Longrightarrow> Q u"
  shows "wp (clear_tabs t m) Q" "wp (set_horizontal_tabstop t) Q"
proof -
  have "term_inv n w (t\<lparr>tabs := ts\<rparr>)" if "length ts = length (tabs t)" for ts
    using assms(1) that by (simp add: term_inv_def)
  then show "wp (clear_tabs t m) Q" "wp (set_horizontal_tabstop t) Q"
    using term_invD [OF assms(1)]
    by (auto simp: clear_tabs_def set_horizontal_tabstop_def wp_simps split: tab_clear_mode.split intro!: Q)
qed

subsection \<open>Scrolling and lines\<close>

lemma scrolls_wp [term_wp]:
  assumes "term_inv n w t" and Q: "\<And>u. term_inv n w u \<Longrightarrow> Q u"
  shows "wp (scroll_up t m) Q" "wp (scroll_down t m) Q" "wp (delete_lines t m) Q"
    "wp (insert_blank_lines t m) Q" "wp (reverse_index t) Q"
proof -
  obtain a b where r: "scroll_region t = (a, b)" by force
  note facts = assms(1) term_inv_pos(1-5) [OF assms(1)] r
  show up: "wp (scroll_up t m) Q" and down: "wp (scroll_down t m) Q" for m
    using facts by (auto simp: scroll_up_def scroll_down_def intro!: term_wp [where n = n and w = w] Q)
  show "wp (delete_lines t m) Q" "wp (insert_blank_lines t m) Q"
    using facts term_inv_dims(4) [OF assms(1)]
    by (auto simp: delete_lines_def insert_blank_lines_def in_region_def wp_simps as_usize_nonneg Let_def
        intro!: term_wp [where n = n and w = w] Q)
  show "wp (reverse_index t) Q"
    using facts down
    by (auto simp: reverse_index_def wp_simps still_def intro!: term_wp [where n = n and w = w] Q)
qed

subsection \<open>Erasing, inserting and deleting\<close>

lemma map_range_wp_length: "a \<le> b \<Longrightarrow> b \<le> length cs \<Longrightarrow> wp (map_range a b f cs) (\<lambda>ds. length ds = length cs)"
  by (auto simp: map_range_def wp_simps)

lemma fill_range_wp [term_wp]:
  assumes "term_inv n w t" "0 \<le> l" "l < int n" "a \<le> b" "b \<le> w"
    and Q: "\<And>u. term_inv n w u \<Longrightarrow> still t u \<Longrightarrow> Q u"
  shows "wp (fill_range t l a b c) Q"
  unfolding fill_range_def
proof (rule modify_row_wp [OF assms(1) refl])
  show "wp (row_index_mut_range r a b (\<lambda>_. c)) (\<lambda>r'. length (cells r') = w)" if "length (cells r) = w" for r
    using map_range_wp_length [of a b "cells r" "\<lambda>_. c"] assms(4,5) that
    by (auto simp: row_index_mut_range_def wp_simps elim!: wp_mono)
qed (use Q assms in \<open>auto intro: screen_has_line\<close>)

lemma current_blank_split:
  assumes "term_inv n w t" "\<And>u b. term_inv n w u \<Longrightarrow> still t u \<Longrightarrow> P (u, b)"
  shows "P (current_blank t)"
proof -
  obtain s where s: "fst (current_blank t) = t\<lparr>cgrid := (cgrid t)\<lparr>g_style_set := s\<rparr>\<rparr>"
    "term_inv n w (fst (current_blank t))"
    using current_blank_ok [OF assms(1)] by blast
  then have "P (fst (current_blank t), snd (current_blank t))" by (intro assms(2)) (auto simp: still_def)
  then show ?thesis by simp
qed

lemma erase_chars_wp [term_wp]:
  assumes "term_inv n w t" and Q: "\<And>u. term_inv n w u \<Longrightarrow> Q u"
  shows "wp (erase_chars t m) Q"
  unfolding erase_chars_def Let_def wp_prod
proof (rule current_blank_split [OF assms(1)], unfold prod.case)
  fix u b
  assume u: "term_inv n w u" "still t u"
  then show "wp (damage_line u (cur_row u) \<bind> (\<lambda>x. fill_range x (cur_row u) (cur_col t)
      (min (cur_col t + m) (grid_col_count t)) b \<bind> (\<lambda>x. Some (overlays_moved x)))) Q"
    using term_inv_pos [OF assms(1)] term_inv_pos(3,4) [OF u(1)]
    by (auto simp: wp_simps term_inv_dims(3) [OF assms(1)] intro!: term_wp [where n = n and w = w] Q)
qed

lemma fill_list_wp: "a \<le> b \<Longrightarrow> b \<le> length cs \<Longrightarrow> length cs = k \<Longrightarrow> wp (fill_list a b c cs) (\<lambda>ds. length ds = k)"
  using map_range_wp_length [of a b cs] by (simp add: fill_list_def)

lemma shift_fill_wp:
  assumes "\<And>a b. (a, b) \<in> set ps \<Longrightarrow> a < length cs \<and> b < length cs" "a \<le> b" "b \<le> k" "length cs = k" "whole \<longrightarrow> b = k"
  shows "wp (foldM list_swap cs ps \<bind> (\<lambda>cs. fill_list a (if whole then length cs else b) c cs)) (\<lambda>ds. length ds = k)"
  unfolding wp_bind
  by (rule wp_mono [OF list_swaps_wp]) (use assms in \<open>auto intro!: fill_list_wp\<close>)

lemma damage_slice_wp:
  assumes "term_inv n w t" "0 \<le> l" "l < int n" "\<And>cs. length cs = w \<Longrightarrow> wp (f cs) (\<lambda>ds. length ds = w)"
    and Q: "\<And>u. term_inv n w u \<Longrightarrow> Q u"
  shows "wp (damage_line t l) (\<lambda>x. wp (on_grid x (grid_modify_row (cgrid x) l (row_slice_mut f))) Q)"
proof (rule damage_wps(1) [OF assms(1) _ assms(2,3)])
  fix x
  assume x: "term_inv n w x"
  show "wp (on_grid x (grid_modify_row (cgrid x) l (row_slice_mut f))) Q"
    by (rule modify_row_wp [OF x refl screen_has_line [OF x assms(2,3)]])
      (use assms(4) Q in \<open>auto intro: row_slice_wp\<close>)
qed

lemma delete_chars_wp [term_wp]:
  assumes "term_inv n w t" and Q: "\<And>u. term_inv n w u \<Longrightarrow> Q u"
  shows "wp (delete_chars t m) Q"
proof -
  let ?n = "min m w" and ?s = "cur_col t"
  let ?e = "min (?s + ?n) (w - 1)"
  note pos = term_inv_pos [OF assms(1)]
  have row: "wp (foldM list_swap cs (map (\<lambda>i. (?s + i, ?e + i)) [0..<w - ?e]) \<bind>
      (\<lambda>cs. fill_list (w - ?n) (length cs) b cs)) (\<lambda>ds. length ds = w)" if "length cs = w" for cs b
  proof -
    define e where "e = ?e"
    have e: "?s \<le> e" "e < w" using pos(1,5) by (auto simp: e_def)
    have "wp (foldM list_swap cs (map (\<lambda>i. (?s + i, e + i)) [0..<w - e]) \<bind>
      (\<lambda>cs. fill_list (w - ?n) (if True then length cs else w) b cs)) (\<lambda>ds. length ds = w)"
      by (rule shift_fill_wp) (use e that in auto)
    then show ?thesis by (simp add: e_def)
  qed
  show ?thesis
    unfolding delete_chars_def Let_def wp_prod term_inv_dims(3) [OF assms(1)]
  proof (rule current_blank_split [OF assms(1)], unfold prod.case)
    fix u b
    assume u: "term_inv n w u" "still t u"
    have c: "cur_col u = cur_col t" "cur_row u = cur_row t" using u(2) by (simp_all add: still_def)
    show "wp (usub w 1 \<bind> (\<lambda>lc. damage_line u (cur_row u) \<bind> (\<lambda>x. on_grid x (grid_modify_row (cgrid x) (cur_row u)
      (row_slice_mut (\<lambda>cs. foldM list_swap cs (map (\<lambda>i. (cur_col u + i, min (cur_col u + ?n) lc + i))
        [0..<w - min (cur_col u + ?n) lc]) \<bind> (\<lambda>cs. fill_list (w - ?n) (length cs) b cs))))))) Q"
      unfolding c wp_bind wp_usub using pos
      by (intro conjI damage_slice_wp [OF u(1) _ _ row Q]) auto
  qed
qed

lemma insert_blank_wp [term_wp]:
  assumes "term_inv n w t" and Q: "\<And>u. term_inv n w u \<Longrightarrow> Q u"
  shows "wp (insert_blank t m) Q"
proof -
  let ?s = "cur_col t"
  let ?d = "?s + min m (w - ?s)"
  note pos = term_inv_pos [OF assms(1)]
  have row: "wp (foldM list_swap cs (map (\<lambda>i. (?d + i, ?s + i)) (rev [0..<w - ?d])) \<bind>
      (\<lambda>cs. fill_list ?s ?d b cs)) (\<lambda>ds. length ds = w)" if "length cs = w" for cs b
  proof -
    define d where "d = ?d"
    have d: "?s \<le> d" "d \<le> w" using pos(5) by (auto simp: d_def)
    have "wp (foldM list_swap cs (map (\<lambda>i. (d + i, ?s + i)) (rev [0..<w - d])) \<bind>
      (\<lambda>cs. fill_list ?s (if False then length cs else d) b cs)) (\<lambda>ds. length ds = w)"
      by (rule shift_fill_wp) (use d that in auto)
    then show ?thesis by (simp add: d_def)
  qed
  show ?thesis
    unfolding insert_blank_def Let_def wp_prod term_inv_dims(3) [OF assms(1)]
  proof (rule current_blank_split [OF assms(1)], unfold prod.case)
    fix u b
    assume u: "term_inv n w u" "still t u"
    have c: "cur_col u = cur_col t" "cur_row u = cur_row t" using u(2) by (simp_all add: still_def)
    show "wp (usub (grid_col_count u) (cur_col u) \<bind> (\<lambda>room. damage_line u (cur_row u) \<bind>
      (\<lambda>x. on_grid x (grid_modify_row (cgrid x) (cur_row u) (row_slice_mut (\<lambda>cs.
        foldM list_swap cs (map (\<lambda>i. (cur_col u + min m room + i, cur_col u + i))
          (rev [0..<grid_col_count u - (cur_col u + min m room)])) \<bind>
        (\<lambda>cs. fill_list (cur_col u) (cur_col u + min m room) b cs))))))) Q"
      unfolding c wp_bind wp_usub term_inv_dims(3) [OF u(1)] using pos
      by (intro conjI damage_slice_wp [OF u(1) _ _ row Q]) auto
  qed
qed

lemma filter_selection_ok [simp]: "term_inv n w (filter_selection t a b) = term_inv n w t"
  "cgrid (filter_selection t a b) = cgrid t" "still t (filter_selection u a b) = still t u"
  by (simp_all add: filter_selection_def)

lemma clear_line_wp [term_wp]:
  assumes "term_inv n w t" and Q: "\<And>u. term_inv n w u \<Longrightarrow> Q u"
  shows "wp (clear_line t m) Q"
  unfolding clear_line_def Let_def wp_prod
proof (rule current_blank_split [OF assms(1)], unfold prod.case)
  fix u b
  assume u: "term_inv n w u" "still t u"
  note pos = term_inv_pos [OF u(1)]
  have fill: "wp (damage_line u (cur_row u) \<bind> (\<lambda>x. fill_range x (cur_row u) l r b \<bind> (\<lambda>x. Some
      (overlays_moved (filter_selection x (cur_row x) (cur_row x)))))) Q" if "l \<le> r" "r \<le> w" for l r
    using pos u(1) that by (auto simp: wp_simps intro!: term_wp [where n = n and w = w] Q)
  show "wp (if m = LineRight \<and> should_wrap (cur u) then Some u
      else case case m of LineRight \<Rightarrow> (cur_col u, grid_col_count u) | LineLeft \<Rightarrow> (0, cur_col u + 1)
          | LineAll \<Rightarrow> (0, grid_col_count u) of
        (left, right) \<Rightarrow> damage_line u (cur_row u) \<bind> (\<lambda>x. fill_range x (cur_row u) left right b \<bind>
          (\<lambda>x. Some (overlays_moved (filter_selection x (cur_row x) (cur_row x)))))) Q"
    using fill Q [OF u(1)] pos(5) term_inv_dims(3) [OF u(1)]
    by (cases m) (auto simp: wp_Some)
qed

subsection \<open>Clearing\<close>

lemma grid_frame_wp [term_wp]:
  assumes "term_inv n w t" "g = cgrid t" and Q: "\<And>u. term_inv n w u \<Longrightarrow> still t u \<Longrightarrow> Q u"
  shows "0 \<le> a \<Longrightarrow> a < int n \<Longrightarrow> b \<le> int n \<Longrightarrow> wp (on_grid t (reset_region g (a, b))) Q"
    and "wp (on_grid t (clear_viewport g)) Q" and "wp (on_grid t (clear_history g)) Q"
proof -
  note wf = term_invD(1) [OF assms(1)]
  have frame: "wp m (\<lambda>h. grid_wf h \<and> same_frame (cgrid t) h \<and> True) \<Longrightarrow> wp (on_grid t m) Q" for m
    by (rule on_grid_frame_wp [OF assms(1), where P = "\<lambda>_. True"]) (use Q in auto)
  show "wp (on_grid t (clear_viewport g)) Q" "wp (on_grid t (clear_history g)) Q"
    using clear_viewport_ok [OF wf] clear_history_ok [OF wf] assms(2)
    by (auto intro!: frame elim!: wp_mono simp: grid_moved_def)
  assume "0 \<le> a" "a < int n" "b \<le> int n"
  then show "wp (on_grid t (reset_region g (a, b))) Q"
    using reset_region_ok [OF wf, of a b] term_invD(2) [OF assms(1)] assms(2)
    by (auto intro!: frame elim!: wp_mono simp: grid_moved_def)
qed

lemma line_clamp_wp: "term_inv n w t \<Longrightarrow> (\<And>l. Q l) \<Longrightarrow> wp (line_grid_clamp l (grid_dims (cgrid t)) b) Q"
  by (rule wp_mono [OF line_grid_clamp_ok [OF term_inv_dims(5)]])

lemma clears_wp [term_wp]:
  assumes "term_inv n w t" and Q: "\<And>u. term_inv n w u \<Longrightarrow> Q u"
  shows "wp (clear_above t blank) Q" "wp (clear_below t blank) Q" "wp (clear_all_lines t) Q" "wp (clear_saved t) Q"
    "wp (reset_screen t) Q"
proof -
  note pos = term_inv_pos [OF assms(1)]
  have above: "wp (on_grid u (grid_modify_row (cgrid u) l (\<lambda>r. row_index_mut_to r (min (k + 1) (grid_col_count u)) f))) Q'"
    if u: "term_inv n w u" "0 \<le> l" "l < int n" and Q': "\<And>u. term_inv n w u \<Longrightarrow> Q' u" for u l k f Q'
  proof (rule modify_row_wp [OF u(1) refl screen_has_line [OF u]])
    fix r :: "square grid_row"
    assume "length (cells r) = w"
    then show "wp (row_index_mut_to r (min (k + 1) (grid_col_count u)) f) (\<lambda>r'. length (cells r') = w)"
      using map_range_wp_length [of 0 "min (k + 1) w" "cells r" f] term_inv_dims(3) [OF u(1)]
      by (auto simp: row_index_mut_to_def wp_simps)
  qed (rule Q')
  have below: "wp (on_grid u (grid_modify_row (cgrid u) l (\<lambda>r. row_index_mut_from r k f))) Q'"
    if u: "term_inv n w u" "0 \<le> l" "l < int n" "k < w" and Q': "\<And>v. term_inv n w v \<Longrightarrow> still u v \<Longrightarrow> Q' v" for u l k f Q'
  proof (rule modify_row_wp [OF u(1) refl screen_has_line [OF u(1-3)]])
    fix r :: "square grid_row"
    assume "length (cells r) = w"
    then show "wp (row_index_mut_from r k f) (\<lambda>r'. length (cells r') = w)"
      using map_range_wp_length [of k w "cells r" f] u(4) by (auto simp: row_index_mut_from_def wp_simps)
  qed (rule Q')
  show "wp (clear_above t blank) Q"
    unfolding clear_above_def Let_def using pos assms(1)
    by (auto simp: wp_simps still_def intro!: grid_frame_wp [where n = n and w = w] above [unfolded Suc_eq_plus1 [symmetric]] Q)
  show "wp (clear_below t blank) Q"
    unfolding clear_below_def Let_def using pos assms(1) term_inv_dims(4) [OF assms(1)]
    by (auto simp: wp_simps still_def as_usize_nonneg intro!: grid_frame_wp [where n = n and w = w] below Q)
  have reset: "wp (reset_screen t) Q'"
    if "\<And>u. term_inv n w u \<Longrightarrow> Q' u" for Q'
    unfolding reset_screen_def using pos assms(1) that
    by (auto simp: term_inv_dims(4) [OF assms(1)] intro!: term_wp [where n = n and w = w])
  from reset Q show "wp (reset_screen t) Q" .
  show "wp (clear_all_lines t) Q"
    unfolding clear_all_lines_def Let_def using assms(1)
    by (auto simp: wp_simps intro!: term_wp [where n = n and w = w] reset line_clamp_wp [where n = n and w = w] Q)
  show "wp (clear_saved t) Q"
    unfolding clear_saved_def Let_def using assms(1)
    by (auto simp: wp_simps intro!: term_wp [where n = n and w = w] line_clamp_wp [where n = n and w = w] Q)
qed

lemma clear_screen_wp [term_wp]:
  assumes "term_inv n w t" and Q: "\<And>u. term_inv n w u \<Longrightarrow> Q u"
  shows "wp (clear_screen t m) Q"
  unfolding clear_screen_def Let_def wp_prod
proof (rule current_blank_split [OF assms(1)], unfold prod.case wp_bind)
  fix u b
  assume u: "term_inv n w u" "still t u"
  have damage: "wp (damage_lines x [l..k]) (\<lambda>x. wp (Some (overlays_moved x)) Q)"
    if "term_inv n w x" "0 \<le> l" "k < int n" for x l k
    using that by (auto simp: wp_simps intro!: damage_wps [where n = n and w = w] Q)
  have first: "wp (case m of ClearBelow \<Rightarrow> clear_below u b | ClearAbove \<Rightarrow> clear_above u b
      | ClearAll \<Rightarrow> clear_all_lines u | ClearSaved \<Rightarrow> clear_saved u) (term_inv n w)"
    using u(1) by (cases m) (auto intro!: term_wp [where n = n and w = w])
  show "wp (case m of ClearBelow \<Rightarrow> clear_below u b | ClearAbove \<Rightarrow> clear_above u b
      | ClearAll \<Rightarrow> clear_all_lines u | ClearSaved \<Rightarrow> clear_saved u)
     (\<lambda>x. wp (case m of ClearBelow \<Rightarrow> damage_lines x [int (as_usize (cur_row x))..int (screen_line_count x) - 1]
        | ClearAbove \<Rightarrow> damage_lines x [0..int (as_usize (cur_row x))]
        | ClearAll \<Rightarrow> Some (mark_fully_damaged x) | ClearSaved \<Rightarrow> Some (mark_fully_damaged x))
      (\<lambda>x. wp (Some (overlays_moved x)) Q))"
  proof (rule wp_mono [OF first])
    fix x
    assume x: "term_inv n w x"
    show "wp (case m of ClearBelow \<Rightarrow> damage_lines x [int (as_usize (cur_row x))..int (screen_line_count x) - 1]
        | ClearAbove \<Rightarrow> damage_lines x [0..int (as_usize (cur_row x))]
        | ClearAll \<Rightarrow> Some (mark_fully_damaged x) | ClearSaved \<Rightarrow> Some (mark_fully_damaged x))
      (\<lambda>x. wp (Some (overlays_moved x)) Q)"
      using damage [OF x] x term_inv_pos [OF x] term_inv_dims(4) [OF x]
      by (cases m) (auto simp: wp_Some as_usize_nonneg intro!: Q)
  qed
qed

lemma decaln_wp [term_wp]:
  assumes "term_inv n w t" and Q: "\<And>u. term_inv n w u \<Longrightarrow> Q u"
  shows "wp (decaln t) Q"
proof -
  have row: "wp (foldM (\<lambda>t k. set_cell t (Pos l k) f) u [0..<grid_col_count u]) (term_inv n w)"
    if "term_inv n w u" "0 \<le> l" "l < int n" for u l f
    by (rule wp_foldM_inv)
      (use that in \<open>auto simp: term_inv_dims(3) [OF that(1)] intro!: set_cell_wp [where n = n and w = w] screen_has_line\<close>)
  have "wp (foldM (\<lambda>t l. foldM (\<lambda>t k. set_cell t (Pos l k) (\<lambda>_. sq_set_c 0 0x45)) t [0..<grid_col_count t]) t
      [0..int (screen_line_count t) - 1]) (term_inv n w)"
    by (rule wp_foldM_inv) (use assms(1) in \<open>auto simp: term_inv_dims(4) [OF assms(1)] intro!: row\<close>)
  then show ?thesis
    unfolding decaln_def wp_bind by (rule wp_mono) (auto simp: wp_simps intro!: Q)
qed

subsection \<open>The scroll region and the alternate screen\<close>

lemma set_scrolling_region_wp [term_wp]:
  assumes "term_inv n w t" "1 \<le> a" and Q: "\<And>u. term_inv n w u \<Longrightarrow> Q u"
  shows "wp (set_scrolling_region t a b) Q"
proof -
  have n: "0 < n" using term_inv_pos [OF assms(1)] by simp
  have "term_inv n w (t\<lparr>scroll_region := r\<rparr>)" if "region_ok n r" for r
    using assms that by (simp add: term_inv_def)
  moreover have "region_ok n (min (int a - 1) (int n), min (int c) (int n))" if "a < c" for c
    using that assms(2) by (auto simp: region_ok_def min_def)
  ultimately have "wp (goto (t\<lparr>scroll_region := (min (int a - 1) (int n), min (int c) (int n))\<rparr>) 0 0) Q" if "a < c" for c
    using that by (intro goto_wp [where n = n and w = w] Q) blast+
  from this [of n] this show ?thesis
    using assms(1) n
    by (auto simp: set_scrolling_region_def Let_def wp_simps term_inv_dims(4) [OF assms(1)]
        split: option.split intro!: Q)
qed

lemma deccolm_wp [term_wp]:
  assumes "term_inv n w t" and Q: "\<And>u. term_inv n w u \<Longrightarrow> Q u"
  shows "wp (deccolm t) Q"
  unfolding deccolm_def using assms(1)
  by (auto simp: wp_simps intro!: term_wp [where n = n and w = w] Q)

definition swap_screens :: "crosswords \<Rightarrow> crosswords" where
  \<comment> \<open>the exchange of \<open>swap_alt\<close>\<close>
  "swap_screens t = t\<lparr>kb_stack := inactive_kb_stack t, inactive_kb_stack := kb_stack t,
     kb_idx := inactive_kb_idx t, inactive_kb_idx := kb_idx t,
     cgrid := inactive_grid t, inactive_grid := cgrid t,
     cw_mode := cw_mode t XOR M_ALT_SCREEN, cw_selection := None,
     cw_graphics := swap_kitty_screen_state (cw_graphics t)\<rparr>"

lemma swap_screens_ok: "term_inv n w t \<Longrightarrow> term_inv n w (swap_screens t)"
  by (simp add: swap_screens_def term_inv_def)

lemma swap_alt_wp [term_wp]:
  assumes "term_inv n w t" and Q: "\<And>u. term_inv n w u \<Longrightarrow> Q u"
  shows "wp (swap_alt t) Q"
proof -
  have prepare: "wp (if \<not> mode_on t M_ALT_SCREEN then do {
        let t = t\<lparr>inactive_grid := (inactive_grid t)\<lparr>gcursor := cur t\<rparr>\<rparr>;
        let t = t\<lparr>cgrid := (cgrid t)\<lparr>saved_cursor := cur t\<rparr>\<rparr>;
        g \<leftarrow> reset_region (inactive_grid t) (0, int (g_lines (inactive_grid t)));
        Some (t\<lparr>inactive_grid := g\<rparr>)
      } else Some t) (term_inv n w)"
  proof -
    define g where "g = (inactive_grid t)\<lparr>gcursor := cur t\<rparr>"
    have c: "cursor_ok n w (cur t)" "grid_ok n w (cgrid t)" "grid_ok n w (inactive_grid t)"
      using grid_okD(4) [OF term_inv_gridD [OF assms(1)]] assms(1) by (auto simp: term_inv_def)
    then have g: "grid_ok n w g" "grid_ok n w ((cgrid t)\<lparr>saved_cursor := cur t\<rparr>)"
      unfolding g_def by (auto intro: grid_update_ok)
    have "wp (reset_region g (0, int (g_lines g))) (grid_ok n w)"
      using reset_region_ok [of g 0 "int (g_lines g)"] g(1) grid_okD [OF g(1)] term_inv_pos [OF assms(1)]
      by (auto simp: grid_moved_def elim!: wp_mono intro: same_frame_grid_ok)
    then show ?thesis
      using assms(1) g(2)
      by (auto simp: wp_simps Let_def g_def [symmetric] term_inv_def elim!: wp_mono)
  qed
  show ?thesis
    unfolding swap_alt_def Let_def wp_bind [of "if _ then _ else _"] swap_screens_def [symmetric]
    by (rule wp_mono [OF prepare [unfolded Let_def]]) (auto simp: wp_simps intro!: Q swap_screens_ok)
qed

subsection \<open>Modes\<close>

lemma modes_ok:
  assumes "term_inv n w t"
  shows "term_inv n w (set_mode t m)" "term_inv n w (unset_mode t m)" "term_inv n w (report_mode t m)"
    "term_inv n w (report_private_mode v t p)" "term_inv n w (set_keypad_application_mode t)"
    "term_inv n w (unset_keypad_application_mode t)"
  using assms
  by (auto simp: set_mode_def unset_mode_def report_mode_def report_private_mode_def pty_write_def Let_def
      set_keypad_application_mode_def unset_keypad_application_mode_def split: ansi_mode.split named_mode.split)

lemma private_modes_wp:
  assumes "term_inv n w t" and Q: "\<And>u. term_inv n w u \<Longrightarrow> Q u"
  shows "wp (set_private_mode v t m) Q" "wp (unset_private_mode v t m) Q"
proof -
  note alt = deccolm_wp [OF assms] swap_alt_wp [OF assms]
  show "wp (set_private_mode v t m) Q"
    using alt assms(1)
    by (cases m rule: private_mode.exhaust)
      (auto simp: set_private_mode_def wp_simps split: named_private_mode.split intro!: Q)
  show "wp (unset_private_mode v t m) Q"
    using alt assms(1)
    by (cases m rule: private_mode.exhaust)
      (auto simp: unset_private_mode_def wp_simps split: named_private_mode.split intro!: Q)
qed

subsection \<open>Attributes, titles, colours, hyperlinks\<close>

lemma attributes_ok:
  assumes "term_inv n w t"
  shows "term_inv n w (terminal_attribute t a)" "term_inv n w (set_title t s)" "term_inv n w (push_title t)"
    "term_inv n w (pop_title t)" "term_inv n w (set_progress_report t ps p)"
    "term_inv n w (set_current_directory t s')" "term_inv n w (set_cursor_style t c b)"
    "term_inv n w (set_cursor_shape t sh)" "term_inv n w (dynamic_color_sequence t pre i ter)"
    "term_inv n w (report_version v t)" "term_inv n w (device_status t k)" "term_inv n w (text_area_size_pixels t)"
    "term_inv n w (text_area_size_chars t)" "term_inv n w (graphics_attribute t k j)" "term_inv n w (cells_size_pixels v t)"
    "term_inv n w (clipboard_store v t ch bs)" "term_inv n w (clipboard_load v t ch ter)" "term_inv n w (bell t)"
    "term_inv n w (desktop_notification t na nb)" "term_inv n w (pty_response t resp)"
    "term_inv n w (set_active_charset t ci)"
proof -
  show "term_inv n w (terminal_attribute t a)"
    using assms
    by (auto simp: terminal_attribute_def split: option.split intro!: term_inv_grid template_style_ok term_inv_gridD)
  show "term_inv n w (set_title t s)" using assms by (simp add: set_title_def)
  show "term_inv n w (push_title t)" using assms by (auto simp: push_title_def term_inv_def TITLE_STACK_MAX_DEPTH_def)
  show "term_inv n w (pop_title t)" using assms by (auto simp: pop_title_def set_title_def term_inv_def)
  show "term_inv n w (clipboard_store v t ch bs)" "term_inv n w (clipboard_load v t ch ter)"
    using assms by (auto simp: clipboard_store_def clipboard_load_def split: option.split)
qed (use assms in \<open>simp_all add: set_progress_report_def set_current_directory_def set_cursor_style_def
    set_cursor_shape_def dynamic_color_sequence_def report_version_def device_status_def text_area_size_pixels_def
    text_area_size_chars_def graphics_attribute_def cells_size_pixels_def bell_def desktop_notification_def pty_response_def
    set_active_charset_def pty_write_def Let_def split: prod.split\<close>)

lemma set_hyperlink_wp:
  assumes "term_inv n w t" and Q: "\<And>u. term_inv n w u \<Longrightarrow> Q u"
  shows "wp (set_hyperlink t h) Q"
proof -
  have c: "term_inv n w (with_cursor u (\<lambda>c. c\<lparr>template := f (template c)\<rparr>))" if "term_inv n w u" for u f
    using that grid_okD(4) [OF term_inv_gridD [OF that]] by (intro cursor_update_ok) (simp_all add: cursor_ok_def)
  show ?thesis
    using assms(1) grid_okD(7) [OF term_inv_gridD [OF assms(1)]]
    by (auto simp: set_hyperlink_def wp_simps split: option.split
        intro!: extras_alloc_wp c Q extras_update_wp)
qed

lemma colors_wp:
  assumes "term_inv n w t" "i < COLOR_COUNT" and Q: "\<And>u. term_inv n w u \<Longrightarrow> Q u"
  shows "wp (set_color t i c) Q" "wp (reset_color t i) Q"
proof -
  have "term_inv n w ((mark_fully_damaged t)\<lparr>cw_colors := cs\<rparr>)" "term_inv n w (t\<lparr>cw_colors := cs\<rparr>)"
    if "length cs = COLOR_COUNT" for cs
    using assms(1) that mark_fully_damaged_ok(1) [of n w t] by (simp_all add: term_inv_def)
  moreover have "length (cw_colors t) = COLOR_COUNT" "cw_colors (mark_fully_damaged t) = cw_colors t"
    using assms(1) by (auto simp: term_inv_def mark_fully_damaged_def send_def Let_def)
  ultimately show "wp (set_color t i c) Q" "wp (reset_color t i) Q"
    using assms(2) by (auto simp: set_color_def reset_color_def wp_simps Let_def intro!: Q)
qed

subsection \<open>Keyboard modes\<close>

lemma kb_ok:
  "term_inv n w t \<Longrightarrow> length st = 8 \<Longrightarrow> i < 8 \<Longrightarrow> term_inv n w (t\<lparr>kb_stack := st, kb_idx := i\<rparr>)"
  by (simp add: term_inv_def)

lemma wrap_idx_less: "wrap_idx i < 8"
  by (simp add: wrap_idx_def KEYBOARD_MODE_STACK_MAX_DEPTH_def)

lemma kb_stack_ok: "term_inv n w t \<Longrightarrow> length (kb_stack t) = 8 \<and> kb_idx t < 8"
  by (simp add: term_inv_def)

lemma pop_loop_wp: "term_inv n w t \<Longrightarrow> wp (pop_loop t m) (term_inv n w)"
proof (induction m arbitrary: t)
  case (Suc m)
  have "term_inv n w (t\<lparr>kb_stack := (kb_stack t)[kb_idx t := 0], kb_idx := wrap_idx k\<rparr>)" for k
    using Suc.prems wrap_idx_less by (simp add: term_inv_def)
  with Suc.IH kb_stack_ok [OF Suc.prems] show ?case by (auto simp: upd_def)
qed (simp add: wp_simps)

lemma keyboard_wp:
  assumes "term_inv n w t" and Q: "\<And>u. term_inv n w u \<Longrightarrow> Q u"
  shows "wp (report_keyboard_mode t) Q" "wp (push_keyboard_mode t k) Q" "wp (pop_keyboard_modes t m) Q"
    "wp (set_keyboard_mode t k a) Q"
proof -
  note kb = kb_stack_ok [OF assms(1)]
  show "wp (report_keyboard_mode t) Q"
    using kb assms(1) by (auto simp: report_keyboard_mode_def wp_simps pty_write_def intro!: Q)
  have "term_inv n w (t\<lparr>kb_stack := st, kb_idx := wrap_idx i\<rparr>)" "term_inv n w (t\<lparr>kb_idx := wrap_idx i, kb_stack := st\<rparr>)"
    if "length st = 8" for st i
    using assms(1) that wrap_idx_less by (simp_all add: term_inv_def)
  then show "wp (push_keyboard_mode t k) Q"
    using kb wrap_idx_less by (auto simp: push_keyboard_mode_def wp_simps sync_kb_def Let_def intro!: Q)
  have "term_inv n w (t\<lparr>kb_stack := st\<rparr>)" if "length st = 8" for st
    using assms(1) that by (simp add: term_inv_def)
  then show "wp (set_keyboard_mode t k a) Q"
    using kb by (auto simp: set_keyboard_mode_def wp_simps sync_kb_def Let_def intro!: Q)
  have "wp (pop_loop t m) (\<lambda>u. term_inv n w u \<and> length (kb_stack u) = 8 \<and> kb_idx u < 8)"
    using pop_loop_wp [OF assms(1), of m] kb_stack_ok by (auto elim: wp_mono)
  then show "wp (pop_keyboard_modes t m) Q"
    using assms(1) kb by (auto simp: pop_keyboard_modes_def wp_simps sync_kb_def kb_ok elim!: wp_mono intro!: Q)
qed

subsection \<open>Reset\<close>

lemma grid_reset_grid_ok:
  assumes "grid_ok n w g" "0 < w"
  shows "wp (grid_reset g) (grid_ok n w)"
  using grid_reset_ok [OF grid_okD(1) [OF assms(1)]] grid_okD [OF assms(1)] assms(2)
  by (auto simp: grid_ok_def grid_wf_def cursor_default_ok elim!: wp_mono)

lemma reset_state_wp:
  assumes "term_inv n w t" and Q: "\<And>u. term_inv n w u \<Longrightarrow> Q u"
  shows "wp (reset_state t) Q"
proof -
  define u where "u = (if mode_on t M_ALT_SCREEN then t\<lparr>cgrid := inactive_grid t, inactive_grid := cgrid t\<rparr> else t)"
  have u: "term_inv n w u" "0 < w" "0 < n"
    using assms(1) term_inv_pos [OF assms(1)] by (auto simp: u_def term_inv_def)
  then have g: "grid_ok n w (cgrid u)" "grid_ok n w (inactive_grid u)" by (simp_all add: term_inv_def)
  have upd: "term_inv n w (u\<lparr>active_charset := ac, cw_cursor_shape := sh, cgrid := g, inactive_grid := h,
      scroll_region := (0, int n), tabs := tabs_new w, title_stack := [],
      kb_stack := replicate 8 0, inactive_kb_stack := replicate 8 0, kb_idx := 0, inactive_kb_idx := 0\<rparr>)"
    if "grid_ok n w g" "grid_ok n w h" for g h ac sh
    using u that by (simp add: term_inv_def region_ok_def)
  show ?thesis
    unfolding reset_state_def u_def [symmetric] Let_def wp_bind KEYBOARD_MODE_STACK_MAX_DEPTH_def
      screen_line_count_def grid_col_count_def
    by (auto simp: wp_simps grid_okD upd intro!: wp_mono [OF grid_reset_grid_ok [OF g(1) u(2)]]
        wp_mono [OF grid_reset_grid_ok [OF g(2) u(2)]] Q)
qed

subsection \<open>Every call\<close>

definition env_ok :: "env \<Rightarrow> bool" where
  \<comment> \<open>the package's version fits the report\<close>
  "env_ok v \<longleftrightarrow> version_number (pkg_version v) \<noteq> None"

lemma handle_ok:
  assumes "env_ok v" "term_inv n w t" "call_ok c"
  shows "wp (handle v t c) (term_inv n w)"
proof (cases c)
  case (IdentifyTerminal x)
  with assms show ?thesis
    by (auto simp: handle_def identify_terminal_def env_ok_def wp_simps pty_write_def)
qed (use assms in \<open>auto simp: handle_def wp_Some intro: modes_ok attributes_ok save_cursor_ok
    intro!: private_modes_wp set_hyperlink_wp colors_wp keyboard_wp reset_state_wp
      term_wp [where n = n and w = w]\<close>)

lemma crosswords_new_ok:
  assumes "0 < screen_lines d" "2 \<le> columns d"
  shows "wp (crosswords_new d shape limit) (term_inv (screen_lines d) (columns d))"
proof -
  have c: "0 < columns d" using assms(2) by simp
  have g: "wp (grid_new (screen_lines d) (columns d) l) (grid_ok (screen_lines d) (columns d))" for l
    using grid_new_ok [OF assms(1) c, of l] cursor_default_ok [OF assms(1) c] by (auto simp: grid_ok_def wp_simps)
  show ?thesis
    unfolding crosswords_new_def wp_bind
    by (rule wp_mono [OF g], rule wp_mono [OF g])
      (use assms in \<open>auto simp: wp_simps term_inv_def region_ok_def damage_new_wf KEYBOARD_MODE_STACK_MAX_DEPTH_def\<close>)
qed

lemma reach_keeps:
  assumes "env_ok v" "handler_reach v t u" "term_inv n w t"
  shows "term_inv n w u"
  using assms(2,3)
proof (induction rule: handler_reach.induct)
  case (reach_step t u c x)
  with handle_ok [OF assms(1), of n w u c] show ?case by (auto simp: handler_step_iff wp_Some)
qed

end
