(* ===== verification/TermProps.thy ===== *)
theory TermProps
  imports HandlerKeep
begin

text \<open>
  What the terminal does: the effect of the building blocks on the lines of the screen and of
  the history, and the properties of the handlers.
\<close>

subsection \<open>Effects on the lines\<close>

abbreviation line_at :: "crosswords \<Rightarrow> int \<Rightarrow> square list" where
  "line_at t l \<equiv> grid_line (cgrid t) l"

definition lines_after :: "crosswords \<Rightarrow> (int \<Rightarrow> square list) \<Rightarrow> crosswords \<Rightarrow> bool" where
  \<comment> \<open>the history's length is kept and the lines are those of \<open>f\<close>\<close>
  "lines_after t f u \<longleftrightarrow> grid_history (cgrid u) = grid_history (cgrid t) \<and>
     (\<forall>l. has_line (cgrid t) l \<longrightarrow> line_at u l = f l)"

lemma lines_after_id: "cgrid u = cgrid t \<Longrightarrow> lines_after t (line_at t) u"
  by (simp add: lines_after_def)

lemma lines_after_trans:
  assumes "term_inv n w t" "term_inv n w u" "lines_after t f u" "lines_after u g v"
    and "\<And>l. has_line (cgrid t) l \<Longrightarrow> line_at u l = f l \<Longrightarrow> g l = h l"
  shows "lines_after t h v"
proof -
  have "has_line (cgrid u) l" if "has_line (cgrid t) l" for l
    using that assms(3) term_invD(2) [OF assms(1)] term_invD(2) [OF assms(2)]
    by (simp add: lines_after_def has_line_def)
  with assms(3-5) show ?thesis by (simp add: lines_after_def)
qed

lemma row_effect:
  assumes t: "term_inv n w t" "has_line (cgrid t) l"
    and f: "\<And>r. cells r = line_at t l \<Longrightarrow> wp (f r) (\<lambda>r'. cells r' = xs)" and "length xs = w"
  shows "\<exists>g. on_grid t (grid_modify_row (cgrid t) l f) = Some (t\<lparr>cgrid := g\<rparr>) \<and> term_inv n w (t\<lparr>cgrid := g\<rparr>) \<and>
    same_frame (cgrid t) g \<and> lines_after t ((line_at t)(l := xs)) (t\<lparr>cgrid := g\<rparr>)"
proof -
  have wf: "grid_wf (cgrid t)" and w: "g_columns (cgrid t) = w" using term_invD [OF t(1)] by simp_all
  obtain r where r: "f (row_at (raw (cgrid t)) l) = Some r" "cells r = xs"
    using f [of "row_at (raw (cgrid t)) l"] by (auto simp: grid_line_def wp_iff)
  with assms(4) w have len: "length (cells r) = g_columns (cgrid t)" by simp
  obtain s where s: "grid_modify_row (cgrid t) l f = Some ((cgrid t)\<lparr>raw := s\<rparr>)"
    "grid_wf ((cgrid t)\<lparr>raw := s\<rparr>)" "st_len s = st_len (raw (cgrid t))"
    "grid_line ((cgrid t)\<lparr>raw := s\<rparr>) l = xs"
    "\<forall>m. has_line (cgrid t) m \<longrightarrow> m \<noteq> l \<longrightarrow> grid_line ((cgrid t)\<lparr>raw := s\<rparr>) m = line_at t m"
    using grid_modify_row_effect [where f = f, OF wf t(2) r(1) len] r(2) by blast
  have frame: "same_frame (cgrid t) ((cgrid t)\<lparr>raw := s\<rparr>)" by (simp add: same_frame_def)
  have "lines_after t ((line_at t)(l := xs)) (t\<lparr>cgrid := (cgrid t)\<lparr>raw := s\<rparr>\<rparr>)"
    using s(3-5) by (simp add: lines_after_def grid_history_raw)
  moreover have "term_inv n w (t\<lparr>cgrid := (cgrid t)\<lparr>raw := s\<rparr>\<rparr>)"
    by (rule term_inv_grid [OF t(1) same_frame_grid_ok [OF term_inv_gridD [OF t(1)] s(2) frame]])
  ultimately show ?thesis using s(1) frame by (auto simp: on_grid_def)
qed

lemma cursor_cell_effect:
  assumes "term_inv n w t"
  shows "\<exists>g. set_cursor_cell t f = Some (t\<lparr>cgrid := g\<rparr>) \<and> term_inv n w (t\<lparr>cgrid := g\<rparr>) \<and>
    same_frame (cgrid t) g \<and>
    lines_after t ((line_at t)(cur_row t := (line_at t (cur_row t))[cur_col t := f (line_at t (cur_row t) ! cur_col t)]))
      (t\<lparr>cgrid := g\<rparr>)"
proof -
  note pos = term_inv_pos [OF assms]
  have l: "has_line (cgrid t) (cur_row t)" using screen_has_line [OF assms pos(3,4)] .
  have len: "length (line_at t (cur_row t)) = w"
    using grid_line_length [OF term_invD(1) [OF assms] l] term_invD(3) [OF assms] by simp
  show ?thesis
    unfolding set_cursor_cell_def cursor_square_def grid_modify_cell_def
    by (rule row_effect [OF assms l]) (use len pos(5) in \<open>auto simp: row_index_mut_def wp_simps\<close>)
qed

lemma grid_lines_eq: "has_line g l = has_line h l" if "grid_history g = grid_history h" "g_lines g = g_lines h"
  using that by (simp add: has_line_def)

subsection \<open>Writing\<close>

definition written_cell :: "crosswords \<Rightarrow> rchar \<Rightarrow> square" where
  \<comment> \<open>what \<open>write_at_cursor\<close> leaves in the cell\<close>
  "written_cell t c =
     template_cell (template (cur t)) (charset_map (charsets (cur t) ! charset_index_nat (active_charset t)) c)"

lemma template_cell_fields:
  assumes "is_scalar c"
  shows "Square.fields (template_cell tmpl c) =
    (c, Narrow, sq_cell_flags tmpl, Codepoint, sq_style_id tmpl, sq_extras_id tmpl)"
proof -
  have e: "sq_extras_id tmpl \<noteq> Some 0" by (auto simp: sq_extras_id_def Let_def)
  have f: "sq_cell_flags tmpl AND cell_flags_all = sq_cell_flags tmpl"
    by (simp add: sq_cell_flags_def and.assoc)
  show ?thesis
    using fieldsD [OF fields_set_c [OF assms, of 0]] fieldsD [OF fields_set_extras_id [OF e]]
    by (simp add: template_cell_def fields_set_cell_flags [OF f] sq_simps)
qed

lemma write_at_cursor_effect:
  assumes "term_inv n w t" "sq_wide (line_at t (cur_row t) ! cur_col t) \<notin> {Wide, Spacer}"
  shows "\<exists>g. write_at_cursor t c = Some (t\<lparr>cgrid := g\<rparr>) \<and> term_inv n w (t\<lparr>cgrid := g\<rparr>) \<and> same_frame (cgrid t) g \<and>
    lines_after t ((line_at t)(cur_row t := (line_at t (cur_row t))[cur_col t := written_cell t c])) (t\<lparr>cgrid := g\<rparr>)"
proof -
  note pos = term_inv_pos [OF assms(1)]
  have l: "has_line (cgrid t) (cur_row t)" using screen_has_line [OF assms(1) pos(3,4)] .
  obtain g where g: "set_cursor_cell t (\<lambda>c. c) = Some (t\<lparr>cgrid := g\<rparr>)" "term_inv n w (t\<lparr>cgrid := g\<rparr>)"
    "same_frame (cgrid t) g" "lines_after t (line_at t) (t\<lparr>cgrid := g\<rparr>)"
    using cursor_cell_effect [OF assms(1), of "\<lambda>c. c"] by auto
  have cur: "gcursor g = cur t" using g(3) by (simp add: same_frame_def)
  have same: "grid_line g (cur_row t) = line_at t (cur_row t)" using g(4) l by (simp add: lines_after_def)
  have lg: "has_line g (cur_row t)" using screen_has_line [OF g(2) pos(3,4)] by simp
  have "cell_at (t\<lparr>cgrid := g\<rparr>) (cpos (cur t)) = Some (line_at t (cur_row t) ! cur_col t)"
    using grid_cell_ok [of g "cpos (cur t)"] lg same pos(5) term_invD(1,3) [OF g(2)] by (simp add: cell_at_def)
  then have drop: "drop_wide_halves t = Some (t\<lparr>cgrid := g\<rparr>)"
    using g(1) assms(2) by (simp add: drop_wide_halves_def Let_def)
  obtain h where h: "set_cursor_cell (t\<lparr>cgrid := g\<rparr>) (\<lambda>_. written_cell t c) = Some (t\<lparr>cgrid := h\<rparr>)"
    "term_inv n w (t\<lparr>cgrid := h\<rparr>)" "same_frame g h"
    "lines_after (t\<lparr>cgrid := g\<rparr>) ((grid_line g)(cur_row t := (line_at t (cur_row t))[cur_col t := written_cell t c]))
      (t\<lparr>cgrid := h\<rparr>)"
    using cursor_cell_effect [OF g(2), of "\<lambda>_. written_cell t c"] cur same by auto
  have "charsets_get (charsets (cur t)) (active_charset t) =
      Some (charsets (cur t) ! charset_index_nat (active_charset t))"
    using pos(7) by (cases "active_charset t") (simp_all add: charsets_get_def idx_def)
  with drop h(1) have "write_at_cursor t c = Some (t\<lparr>cgrid := h\<rparr>)"
    by (simp add: write_at_cursor_def written_cell_def Let_def)
  moreover have "lines_after t ((line_at t)(cur_row t := (line_at t (cur_row t))[cur_col t := written_cell t c]))
      (t\<lparr>cgrid := h\<rparr>)"
    by (rule lines_after_trans [OF assms(1) g(2,4) h(4)]) (auto simp: fun_upd_def)
  ultimately show ?thesis using h(2) same_frame_trans [OF g(3) h(3)] by blast
qed

lemma damaged_line:
  assumes "term_inv n w t" "0 \<le> l" "l < int n"
  shows "\<exists>d. damage_line t l = Some (t\<lparr>damage := d\<rparr>) \<and> term_inv n w (t\<lparr>damage := d\<rparr>) \<and>
    (\<forall>k. damaged d k \<longleftrightarrow> damaged (damage t) k \<or> k = nat l)"
proof -
  have "nat l < n" using assms(2,3) by linarith
  from damage_mark_ok [OF term_invD(10) [OF assms(1)] this] obtain d where
    "damage_mark (damage t) (nat l) = Some d" "damage_wf n d" "\<forall>k. damaged d k \<longleftrightarrow> damaged (damage t) k \<or> k = nat l"
    by blast
  with damage_wf_update [OF assms(1)] show ?thesis
    using assms(2) by (auto simp: damage_line_def as_usize_def)
qed

definition typed :: "nat \<Rightarrow> crosswords \<Rightarrow> nat \<Rightarrow> crosswords \<Rightarrow> bool" where
  \<comment> \<open>the cursor after typing up to column \<open>k\<close> of a line of \<open>w\<close> columns\<close>
  "typed w t k u \<longleftrightarrow> cpos (cur u) = Pos (cur_row t) (min k (w - 1)) \<and> should_wrap (cur u) = (k = w) \<and>
     template (cur u) = template (cur t) \<and> charsets (cur u) = charsets (cur t) \<and>
     active_charset u = active_charset t \<and> cw_mode u = cw_mode t"

lemma input_narrow_effect:
  assumes t: "term_inv n w t" and v: "char_width v c = Some 1" "c \<noteq> PLACEHOLDER"
    and "\<not> should_wrap (cur t)" "\<not> mode_on t M_INSERT" "sq_wide (line_at t (cur_row t) ! cur_col t) = Narrow"
  shows "\<exists>u. input v t c = Some u \<and> term_inv n w u \<and> typed w t (cur_col t + 1) u \<and>
    lines_after t ((line_at t)(cur_row t := (line_at t (cur_row t))[cur_col t := written_cell t c])) u \<and>
    damaged (damage u) (nat (cur_row t)) \<and> (\<forall>k. damaged (damage t) k \<longrightarrow> damaged (damage u) k)"
proof -
  note pos = term_inv_pos [OF t]
  obtain g where g: "write_at_cursor t c = Some (t\<lparr>cgrid := g\<rparr>)" "term_inv n w (t\<lparr>cgrid := g\<rparr>)"
    "same_frame (cgrid t) g"
    "lines_after t ((line_at t)(cur_row t := (line_at t (cur_row t))[cur_col t := written_cell t c])) (t\<lparr>cgrid := g\<rparr>)"
    using write_at_cursor_effect [OF t, of c] assms(6) by auto
  have cur: "gcursor g = cur t" using g(3) by (simp add: same_frame_def)
  obtain d where d: "damage_line (t\<lparr>cgrid := g\<rparr>) (cur_row t) = Some (t\<lparr>cgrid := g, damage := d\<rparr>)"
    "term_inv n w (t\<lparr>cgrid := g, damage := d\<rparr>)"
    "\<forall>k. damaged d k \<longleftrightarrow> damaged (damage t) k \<or> k = nat (cur_row t)"
    using damaged_line [OF g(2) pos(3,4)] by auto
  let ?t = "t\<lparr>cgrid := g, damage := d\<rparr>"
  let ?u = "if cur_col t + 1 < w then set_cur_col ?t (cur_col t + 1) else set_should_wrap ?t True"
  have cols: "grid_col_count ?t = w" using term_inv_dims(3) [OF d(2)] .
  have "input v t c = Some ?u"
    using v assms(4,5) g(1) d(1) cur cols
    by (simp add: input_def insert_shift_def mark_placeholder_def advance_cursor_def Let_def)
  moreover have "term_inv n w ?u" using d(2) cur by (auto intro!: term_wp)
  moreover have "typed w t (cur_col t + 1) ?u"
    using cur pos(5) assms(4)
    by (auto simp: typed_def set_cur_col_def set_should_wrap_def with_cursor_def min_def intro: pos.expand)
  moreover have "lines_after t ((line_at t)(cur_row t := (line_at t (cur_row t))[cur_col t := written_cell t c])) ?u"
    using g(4)
    by (auto simp: lines_after_def set_cur_col_def set_should_wrap_def with_cursor_def grid_line_def grid_history_raw)
  moreover have "damage ?u = d" by (simp add: set_cur_col_def set_should_wrap_def with_cursor_def)
  ultimately show ?thesis using d(3) by auto
qed

lemma typed_cell: "typed w t k u \<Longrightarrow> written_cell u c = written_cell t c"
  by (simp add: typed_def written_cell_def)

subsection \<open>A terminal for the examples\<close>

definition plain_env :: env where
  \<comment> \<open>every printable character has width one; nothing is decoded\<close>
  "plain_env = \<lparr>char_width = (\<lambda>c. if c < 32 then None else Some 1), vs_is_valid_base = (\<lambda>_ _. False),
     base64_decode = (\<lambda>_. None), base64_encode = (\<lambda>_. []), from_utf8 = (\<lambda>_. None),
     pkg_version = ''0.4.1'', on_windows = False,
     cell_height_text = ''18'', cell_width_text = ''9''\<rparr>"

lemma plain_version: "version_number ''0.4.1'' = Some 401"
proof -
  have "(CHR ''-'' \<in> set ''0.4.1'') = False" by simp
  moreover have "rev (split_on (CHR ''.'') ''0.4.1'') = [''1'', ''4'', ''0'']" by simp
  moreover have "enumerate 0 [''1'', ''4'', ''0''] = [(0, ''1''), (1, ''4''), (2, ''0'')]" by simp
  moreover have "parse_usize ''4'' = Some 4" "parse_usize ''0'' = Some 0" "parse_usize ''1'' = Some 1"
    by (simp_all add: parse_usize_def is_digit_def digits_value_def of_char_def)
  ultimately show ?thesis
    by (simp only: version_number_def if_False Let_def) (simp add: check_def)
qed

lemma plain_env_ok: "env_ok plain_env"
  by (simp only: env_ok_def plain_env_def env.simps plain_version) simp

lemma plain_width: "char_width plain_env c = (if c < 32 then None else Some 1)"
  by (simp add: plain_env_def)

definition fresh :: "nat \<Rightarrow> nat \<Rightarrow> crosswords" where
  \<comment> \<open>a new terminal of \<open>n\<close> lines and \<open>w\<close> columns with 100 lines of history\<close>
  "fresh n w = the (crosswords_new \<lparr>total_lines = n, screen_lines = n, columns = w\<rparr> ShapeBlock 100)"

lemma fresh_facts:
  assumes "0 < n" "2 \<le> w"
  shows "crosswords_new \<lparr>total_lines = n, screen_lines = n, columns = w\<rparr> ShapeBlock 100 = Some (fresh n w)"
    "term_inv n w (fresh n w)" "cpos (cur (fresh n w)) = Pos 0 0" "\<not> should_wrap (cur (fresh n w))"
    "template (cur (fresh n w)) = 0"
    "cw_mode (fresh n w) = M_SHOW_CURSOR OR M_LINE_WRAP OR M_ALTERNATE_SCROLL OR M_URGENCY_HINTS"
    "has_line (cgrid (fresh n w)) l \<longleftrightarrow> 0 \<le> l \<and> l < int n"
    "0 \<le> l \<Longrightarrow> l < int n \<Longrightarrow> line_at (fresh n w) l = replicate w 0"
    "scroll_region (fresh n w) = (0, int n)" "grid_history (cgrid (fresh n w)) = 0"
    "max_scroll_limit (cgrid (fresh n w)) = 100" "charsets (cur (fresh n w)) = replicate 4 Ascii"
    "active_charset (fresh n w) = G0"
proof -
  let ?d = "\<lparr>total_lines = n, screen_lines = n, columns = w\<rparr> :: dims"
  have c: "0 < w" using assms(2) by simp
  obtain t where t: "crosswords_new ?d ShapeBlock 100 = Some t" "term_inv n w t"
    using crosswords_new_ok [of ?d ShapeBlock 100] assms by (auto simp: wp_iff)
  then show "crosswords_new ?d ShapeBlock 100 = Some (fresh n w)" by (simp add: fresh_def)
  have f: "fresh n w = t" using t by (simp add: fresh_def)
  show "term_inv n w (fresh n w)" using t f by simp
  obtain g where g: "grid_new n w 100 = Some g" "gcursor g = cursor_default 0" "grid_history g = 0" "g_lines g = n"
    "max_scroll_limit g = 100" "\<forall>l. has_line g l \<longrightarrow> grid_line g l = replicate w 0"
    using grid_new_ok [OF assms(1) c, of 100] by blast
  have tg: "cgrid t = g" "cw_mode t = M_SHOW_CURSOR OR M_LINE_WRAP OR M_ALTERNATE_SCROLL OR M_URGENCY_HINTS"
    "scroll_region t = (0, int n)" "active_charset t = G0"
    using t(1) g(1) by (auto simp: crosswords_new_def Let_def bind_eq_Some_conv)
  show "cpos (cur (fresh n w)) = Pos 0 0" "\<not> should_wrap (cur (fresh n w))" "template (cur (fresh n w)) = 0"
    "scroll_region (fresh n w) = (0, int n)" "grid_history (cgrid (fresh n w)) = 0"
    "max_scroll_limit (cgrid (fresh n w)) = 100" "charsets (cur (fresh n w)) = replicate 4 Ascii"
    "active_charset (fresh n w) = G0"
    "cw_mode (fresh n w) = M_SHOW_CURSOR OR M_LINE_WRAP OR M_ALTERNATE_SCROLL OR M_URGENCY_HINTS"
    using f tg g by (simp_all add: cursor_default_def charsets_default_def)
  show l: "has_line (cgrid (fresh n w)) l \<longleftrightarrow> 0 \<le> l \<and> l < int n"
    using f tg g by (simp add: has_line_def)
  show "0 \<le> l \<Longrightarrow> l < int n \<Longrightarrow> line_at (fresh n w) l = replicate w 0"
    using l f tg g by simp
qed

lemma fresh_tables:
  assumes "0 < n" "2 \<le> w"
  shows "inactive_kb_stack (fresh n w) = replicate 8 0" "inactive_kb_idx (fresh n w) = 0"
    "tabs (fresh n w) = tabs_new w" "title_stack (fresh n w) = []"
proof -
  have "inactive_kb_stack t = replicate 8 0" "inactive_kb_idx t = 0" "tabs t = tabs_new w" "title_stack t = []"
    if "crosswords_new \<lparr>total_lines = n, screen_lines = n, columns = w\<rparr> ShapeBlock 100 = Some t" for t
    using that by (auto simp: crosswords_new_def Let_def bind_eq_Some_conv KEYBOARD_MODE_STACK_MAX_DEPTH_def)
  from this [OF fresh_facts(1) [OF assms]]
  show "inactive_kb_stack (fresh n w) = replicate 8 0" "inactive_kb_idx (fresh n w) = 0"
    "tabs (fresh n w) = tabs_new w" "title_stack (fresh n w) = []" .
qed

lemma fresh_insert: "0 < n \<Longrightarrow> 2 \<le> w \<Longrightarrow> \<not> mode_on (fresh n w) M_INSERT"
  by (simp add: mode_on_def fresh_facts(6) bit_contains_def M_INSERT_def M_SHOW_CURSOR_def M_LINE_WRAP_def
      M_ALTERNATE_SCROLL_def M_URGENCY_HINTS_def push_bit_eq_mult)

lemma fresh_cell:
  assumes "0 < n" "2 \<le> w" "c < 128"
  shows "Square.fields (written_cell (fresh n w) c) = (c, Narrow, 0, Codepoint, 0, None)"
  using template_cell_fields [of c 0] assms(3)
  by (simp add: written_cell_def fresh_facts(5,12,13) [OF assms(1,2)] charset_map_def is_scalar_def sq_simps)

subsection \<open>Typing\<close>

text \<open>Typing, as a lemma for the properties that rest on it.\<close>

definition after_typing :: "nat \<Rightarrow> nat \<Rightarrow> crosswords \<Rightarrow> rstring \<Rightarrow> crosswords \<Rightarrow> bool" where
  \<comment> \<open>the state after the characters were typed into the cursor's line\<close>
  "after_typing n w t cs u \<longleftrightarrow> term_inv n w u \<and> typed w t (cur_col t + length cs) u \<and>
     lines_after t ((line_at t)(cur_row t := take (cur_col t) (line_at t (cur_row t)) @ map (written_cell t) cs @
       drop (cur_col t + length cs) (line_at t (cur_row t)))) u"

lemma after_typing_none: "term_inv n w t \<Longrightarrow> \<not> should_wrap (cur t) \<Longrightarrow> cur_col t < w \<Longrightarrow> after_typing n w t [] t"
  by (auto simp: after_typing_def typed_def lines_after_def intro: pos.expand)

lemma after_typing_one:
  assumes "term_inv n w t" "after_typing n w t cs u" "\<not> mode_on t M_INSERT" "cur_col t + length cs < w"
    and "char_width v c = Some 1" "c \<noteq> PLACEHOLDER"
    and "\<forall>i. cur_col t \<le> i \<and> i < w \<longrightarrow> sq_wide (line_at t (cur_row t) ! i) = Narrow"
  shows "\<exists>x. input v u c = Some x \<and> after_typing n w t (cs @ [c]) x \<and> damaged (damage x) (nat (cur_row t))"
proof -
  define L k where "L = line_at t (cur_row t)" and "k = cur_col t + length cs"
  have l: "has_line (cgrid t) (cur_row t)" using screen_has_line term_inv_pos [OF assms(1)] assms(1) by blast
  have len: "length L = w"
    using grid_line_length [OF term_invD(1) [OF assms(1)] l] term_invD(3) [OF assms(1)] by (simp add: L_def)
  have u: "term_inv n w u" "typed w t k u"
    "lines_after t ((line_at t)(cur_row t := take (cur_col t) L @ map (written_cell t) cs @ drop k L)) u"
    using assms(2) by (simp_all add: after_typing_def L_def k_def)
  have k: "k < w" using assms(4) by (simp add: k_def)
  have cu: "cpos (cur u) = Pos (cur_row t) k" "\<not> should_wrap (cur u)" "\<not> mode_on u M_INSERT"
    using u(2) k assms(3) by (auto simp: typed_def mode_on_def min_def)
  have line: "line_at u (cur_row t) = take (cur_col t) L @ map (written_cell t) cs @ drop k L"
    using u(3) l by (simp add: lines_after_def)
  have narrow: "sq_wide (line_at u (cur_row t) ! k) = Narrow"
    using assms(7) k len by (simp add: line nth_append k_def min_def L_def)
  from input_narrow_effect [OF u(1) assms(5,6) cu(2,3)] narrow cu(1) obtain x where
    x: "input v u c = Some x" "term_inv n w x" "typed w u (k + 1) x"
      "lines_after u ((line_at u)(cur_row t := (line_at u (cur_row t))[k := written_cell u c])) x"
      "damaged (damage x) (nat (cur_row t))" by auto
  have "typed w t (k + 1) x" using x(3) u(2) cu(1) by (auto simp: typed_def)
  moreover have upd: "(take (cur_col t) L @ map (written_cell t) cs @ drop k L)[k := written_cell t c] =
      take (cur_col t) L @ map (written_cell t) (cs @ [c]) @ drop (Suc k) L"
    using k len by (simp add: list_update_append k_def min_def Cons_nth_drop_Suc [symmetric])
  have "lines_after t ((line_at t)(cur_row t :=
      take (cur_col t) L @ map (written_cell t) (cs @ [c]) @ drop (cur_col t + length (cs @ [c])) L)) x"
    by (rule lines_after_trans [OF assms(1) u(1,3) x(4)])
      (use upd line typed_cell [OF u(2)] in \<open>auto simp: k_def fun_upd_def\<close>)
  ultimately show ?thesis using x by (auto simp: after_typing_def k_def L_def)
qed

lemma typing_effect:
  assumes "term_inv n w t" "\<not> should_wrap (cur t)" "\<not> mode_on t M_INSERT" "cur_col t + length cs \<le> w" "cs \<noteq> []"
    and "\<forall>c \<in> set cs. char_width v c = Some 1 \<and> c \<noteq> PLACEHOLDER"
    and "\<forall>i. cur_col t \<le> i \<and> i < w \<longrightarrow> sq_wide (line_at t (cur_row t) ! i) = Narrow"
  shows "\<exists>u. foldM (input v) t cs = Some u \<and> term_inv n w u \<and>
    cpos (cur u) = Pos (cur_row t) (min (cur_col t + length cs) (w - 1)) \<and>
    should_wrap (cur u) = (cur_col t + length cs = w) \<and>
    line_at u (cur_row t) = take (cur_col t) (line_at t (cur_row t)) @ map (written_cell t) cs @
      drop (cur_col t + length cs) (line_at t (cur_row t)) \<and>
    (\<forall>l. has_line (cgrid t) l \<and> l \<noteq> cur_row t \<longrightarrow> line_at u l = line_at t l) \<and>
    damaged (damage u) (nat (cur_row t)) \<and> grid_history (cgrid u) = grid_history (cgrid t)"
proof -
  have l: "has_line (cgrid t) (cur_row t)" using screen_has_line term_inv_pos [OF assms(1)] assms(1) by blast
  have "\<exists>u. foldM (input v) t cs = Some u \<and> after_typing n w t cs u \<and> damaged (damage u) (nat (cur_row t))"
    using assms(4-6)
  proof (induction cs rule: rev_induct)
    case (snoc c cs)
    have "\<exists>u. foldM (input v) t cs = Some u \<and> after_typing n w t cs u"
      using snoc after_typing_none [OF assms(1,2)] term_inv_pos(5) [OF assms(1)] by (cases "cs = []") auto
    then obtain u where u: "foldM (input v) t cs = Some u" "after_typing n w t cs u" by blast
    from after_typing_one [OF assms(1) u(2) assms(3) _ _ _ assms(7), of v c] u(1) snoc.prems show ?case
      by (auto simp: foldM_append)
  qed simp
  with l show ?thesis by (auto simp: after_typing_def typed_def lines_after_def)
qed

lemma typing_on_fresh:
  assumes "0 < n" "2 \<le> w" "cs \<noteq> []" "length cs \<le> w" "\<forall>c \<in> set cs. char_width v c = Some 1 \<and> c \<noteq> PLACEHOLDER"
  shows "\<exists>u. foldM (input v) (fresh n w) cs = Some u \<and> term_inv n w u \<and> grid_history (cgrid u) = 0 \<and>
    cpos (cur u) = Pos 0 (min (length cs) (w - 1)) \<and>
    line_at u 0 = map (written_cell (fresh n w)) cs @ replicate (w - length cs) 0 \<and>
    (\<forall>l. 0 < l \<and> l < int n \<longrightarrow> line_at u l = replicate w 0)"
proof -
  note f = fresh_facts [OF assms(1,2)]
  have "sq_wide 0 = Narrow" by (simp add: sq_simps)
  then show ?thesis
    using typing_effect [OF f(2,4) fresh_insert [OF assms(1,2)], of cs v] f(3,7,8,10) assms(1,3-5) by auto
qed



end
