(* ===== verification/ModeProps.thy ===== *)
theory ModeProps
  imports TermProps
begin

text \<open>
  Properties of the terminal's modes: the invariant of every reachable terminal, the mode reports,
  the alternate screen, the keyboard-mode stacks, tab stops and titles.
\<close>

subsection \<open>Every reachable terminal\<close>

text \<open>C9. The terminal never panics: a new terminal of at least one line and two columns, after any
  number of calls of its handlers (with the arguments that the dispatcher produces), is in its
  invariant - the cursors on the screen, both grids and the damage, tab-stop, colour and
  keyboard tables of the screen's size - and any further call returns.\<close>

theorem terminal_never_panics:
  assumes "env_ok v" "0 < screen_lines d" "2 \<le> columns d" "crosswords_new d shape limit = Some t"
    and "handler_reach v t u" "call_ok c"
  shows "\<exists>x. handle v u c = Some x \<and> handler_reach v t x \<and> term_inv (screen_lines d) (columns d) x"
proof -
  have "term_inv (screen_lines d) (columns d) t"
    using crosswords_new_ok [OF assms(2,3), of shape limit] assms(4) by (simp add: wp_Some)
  from handle_ok [OF assms(1) reach_keeps [OF assms(1,5) this] assms(6)]
  obtain x where "handle v u c = Some x" "term_inv (screen_lines d) (columns d) x"
    by (auto simp: wp_iff)
  then show ?thesis using handler_reach.reach_step [OF assms(5)] assms(6) by (auto simp: handler_step_iff)
qed

theorem terminal_never_panics_witness:
  "\<exists>x y. handle plain_env (fresh 24 80) Linefeed = Some x \<and> handle plain_env x (ScrollUp 3) = Some y \<and>
     term_inv 24 80 y"
proof -
  let ?d = "\<lparr>total_lines = 24, screen_lines = 24, columns = 80\<rparr> :: dims"
  note f = fresh_facts(1) [of 24 80, simplified]
  have s: "(0::nat) < screen_lines ?d" "2 \<le> columns ?d" by simp_all
  note never = terminal_never_panics [OF plain_env_ok s f]
  obtain x where x: "handle plain_env (fresh 24 80) Linefeed = Some x" "handler_reach plain_env (fresh 24 80) x"
    using never [OF handler_reach.reach_refl, of Linefeed] by auto
  from never [OF x(2), of "ScrollUp 3"] x(1) show ?thesis by auto
qed

subsection \<open>Modes and their reports\<close>

definition flag :: "nat \<Rightarrow> mode" where "flag k = push_bit k 1"

lemma bit_flag: "k < 32 \<Longrightarrow> bit (flag k) i \<longleftrightarrow> i = k"
  by (auto simp: flag_def bit_simps)

lemma contains_flag: "k < 32 \<Longrightarrow> bit_contains m (flag k) = bit m k"
  by (auto simp: bit_contains_bits bit_flag)

lemma mode_flags:
  "M_SHOW_CURSOR = flag 0" "M_APP_CURSOR = flag 1" "M_MOUSE_REPORT_CLICK = flag 3" "M_BRACKETED_PASTE = flag 4"
  "M_SGR_MOUSE = flag 5" "M_MOUSE_MOTION = flag 6" "M_LINE_WRAP = flag 7" "M_ORIGIN = flag 9" "M_INSERT = flag 10"
  "M_FOCUS_IN_OUT = flag 11" "M_ALT_SCREEN = flag 12" "M_MOUSE_DRAG = flag 13" "M_UTF8_MOUSE = flag 14"
  "M_ALTERNATE_SCROLL = flag 15" "M_URGENCY_HINTS = flag 17" "M_WIN32_INPUT_MODE = flag 23"
  "M_MOUSE_MODE = flag 3 OR flag 6 OR flag 13"
  by (simp_all add: flag_def M_SHOW_CURSOR_def M_APP_CURSOR_def M_MOUSE_REPORT_CLICK_def M_BRACKETED_PASTE_def
      M_SGR_MOUSE_def M_MOUSE_MOTION_def M_LINE_WRAP_def M_ORIGIN_def M_FOCUS_IN_OUT_def M_ALT_SCREEN_def
      M_MOUSE_DRAG_def M_UTF8_MOUSE_def M_ALTERNATE_SCROLL_def M_URGENCY_HINTS_def M_WIN32_INPUT_MODE_def
      M_MOUSE_MODE_def M_INSERT_def)

definition mode_bit :: "named_private_mode \<Rightarrow> nat" where
  "mode_bit n = (case n of CursorKeys \<Rightarrow> 1 | Origin \<Rightarrow> 9 | LineWrap \<Rightarrow> 7 | ShowCursor \<Rightarrow> 0 | ReportMouseClicks \<Rightarrow> 3
     | ReportCellMouseMotion \<Rightarrow> 13 | ReportAllMouseMotion \<Rightarrow> 6 | ReportFocusInOut \<Rightarrow> 11 | Utf8Mouse \<Rightarrow> 14
     | SgrMouse \<Rightarrow> 5 | AlternateScroll \<Rightarrow> 15 | UrgencyHints \<Rightarrow> 17 | SwapScreenAndSetRestoreCursor \<Rightarrow> 12
     | BracketedPaste \<Rightarrow> 4 | _ \<Rightarrow> 23)"

definition flag_mode :: "named_private_mode \<Rightarrow> bool" where
  \<comment> \<open>the modes that setting and resetting them turns on and off\<close>
  "flag_mode n \<longleftrightarrow> n \<notin> {ColumnMode, SyncUpdate, Win32InputMode}"

definition turned_off :: "named_private_mode \<Rightarrow> named_private_mode set" where
  \<comment> \<open>what setting a mode turns off: the other mouse reports, the other mouse encoding\<close>
  "turned_off n = (case n of
     ReportMouseClicks \<Rightarrow> {ReportCellMouseMotion, ReportAllMouseMotion}
   | ReportCellMouseMotion \<Rightarrow> {ReportMouseClicks, ReportAllMouseMotion}
   | ReportAllMouseMotion \<Rightarrow> {ReportMouseClicks, ReportCellMouseMotion}
   | SgrMouse \<Rightarrow> {Utf8Mouse} | Utf8Mouse \<Rightarrow> {SgrMouse} | _ \<Rightarrow> {})"

definition reported :: "env \<Rightarrow> crosswords \<Rightarrow> named_private_mode \<Rightarrow> mode_state" where
  "reported v t n = private_mode_state v t (NamedPrivate n)"

lemma reported_bits:
  "reported v t n =
     (if n = SyncUpdate then ModeReset
      else if n = ColumnMode \<or> n = Win32InputMode \<and> \<not> (on_windows v \<and> win32_input_mode_allowed t) then NotSupported
      else mode_state_of (if n = BlinkingCursor then blinking_cursor t else bit (cw_mode t) (mode_bit n)))"
  by (cases n) (simp_all add: reported_def private_mode_state_def mode_bit_def mode_on_def mode_flags contains_flag)

lemma swap_alt_mode:
  assumes "swap_alt t = Some u"
  shows "cw_mode u = cw_mode t XOR M_ALT_SCREEN" "blinking_cursor u = blinking_cursor t"
    "win32_input_mode_allowed u = win32_input_mode_allowed t"
  using assms
  by (auto simp: swap_alt_def Let_def bind_eq_Some_conv mark_fully_damaged_def send_def split: if_splits)

lemma set_flag_bits:
  assumes "set_private_mode v t (NamedPrivate n) = Some u" "flag_mode n"
  shows "(n \<noteq> BlinkingCursor \<longrightarrow> (\<forall>i. bit (cw_mode u) i \<longleftrightarrow>
      i = mode_bit n \<or> bit (cw_mode t) i \<and> i \<notin> mode_bit ` turned_off n)) \<and>
    (n = BlinkingCursor \<longrightarrow> cw_mode u = cw_mode t) \<and>
    blinking_cursor u = (n = BlinkingCursor \<or> blinking_cursor t) \<and>
    win32_input_mode_allowed u = win32_input_mode_allowed t"
  using assms swap_alt_mode [of t u]
  by (cases n)
    (auto simp: set_private_mode_def flag_mode_def turned_off_def mode_ins_def mode_rem_def mode_on_def mode_flags
      contains_flag bit_flag bit_insert_bits bit_remove_bits bit_or_iff bit_xor_iff mode_bit_def send_def
      split: if_splits)

lemma unset_flag_bits:
  assumes "unset_private_mode v t (NamedPrivate n) = Some u" "flag_mode n"
  shows "(n \<noteq> BlinkingCursor \<longrightarrow> (\<forall>i. bit (cw_mode u) i \<longleftrightarrow> bit (cw_mode t) i \<and> i \<noteq> mode_bit n)) \<and>
    (n = BlinkingCursor \<longrightarrow> cw_mode u = cw_mode t) \<and>
    blinking_cursor u = (n \<noteq> BlinkingCursor \<and> blinking_cursor t) \<and>
    win32_input_mode_allowed u = win32_input_mode_allowed t"
  using assms swap_alt_mode [of t u]
  by (cases n)
    (auto simp: unset_private_mode_def flag_mode_def mode_rem_def mode_on_def mode_flags
      contains_flag bit_flag bit_remove_bits bit_or_iff bit_xor_iff mode_bit_def send_def
      split: if_splits)

lemma mode_bit_eq:
  assumes "flag_mode n" "n \<noteq> BlinkingCursor" "m \<notin> {BlinkingCursor, ColumnMode, SyncUpdate}"
  shows "mode_bit m = mode_bit n \<longleftrightarrow> m = n" "mode_bit m \<in> mode_bit ` turned_off n \<longleftrightarrow> m \<in> turned_off n"
proof -
  show "mode_bit m = mode_bit n \<longleftrightarrow> m = n"
    using assms by (cases m; cases n; simp add: mode_bit_def flag_mode_def)
  show "mode_bit m \<in> mode_bit ` turned_off n \<longleftrightarrow> m \<in> turned_off n"
    using assms(3) by (cases n; cases m; simp add: mode_bit_def turned_off_def)
qed

lemma turned_off_flags:
  "n \<notin> turned_off n" "BlinkingCursor \<notin> turned_off n" "ColumnMode \<notin> turned_off n" "SyncUpdate \<notin> turned_off n"
  "Win32InputMode \<notin> turned_off n" "turned_off BlinkingCursor = {}"
  by (cases n; simp add: turned_off_def)+

text \<open>Setting and resetting a mode and reporting it agree: after a private mode that the terminal
  can set has been set, its report says set, the modes it excludes (the other mouse reports, the
  other mouse encoding) report reset, and every other mode reports what it reported before;
  after it has been reset it reports reset and every other mode reports what it did before.\<close>

theorem mode_reports:
  assumes "flag_mode n" "set_private_mode v t (NamedPrivate n) = Some u"
    "unset_private_mode v t (NamedPrivate n) = Some x"
  shows "reported v u m =
      (if m = n then ModeSet else if m \<in> turned_off n then ModeReset else reported v t m) \<and>
    reported v x m = (if m = n then ModeReset else reported v t m)"
proof -
  note u = set_flag_bits [OF assms(2,1)] and x = unset_flag_bits [OF assms(3,1)]
  show ?thesis
  proof (cases "m \<in> {BlinkingCursor, ColumnMode, SyncUpdate} \<or> n = BlinkingCursor")
    case True
    then show ?thesis
      using u x assms(1) turned_off_flags(1-5) [of n] turned_off_flags(6)
      by (cases "m = BlinkingCursor") (auto simp: reported_bits mode_state_of_def flag_mode_def)
  next
    case False
    then have n: "n \<noteq> BlinkingCursor" and m: "m \<notin> {BlinkingCursor, ColumnMode, SyncUpdate}" by simp_all
    have "bit (cw_mode u) (mode_bit m) \<longleftrightarrow> m = n \<or> bit (cw_mode t) (mode_bit m) \<and> m \<notin> turned_off n"
      "bit (cw_mode x) (mode_bit m) \<longleftrightarrow> bit (cw_mode t) (mode_bit m) \<and> m \<noteq> n"
      using u x n mode_bit_eq [OF assms(1) n m] by simp_all
    with u x m assms(1) turned_off_flags(1,5) [of n] show ?thesis
      by (auto simp: reported_bits mode_state_of_def flag_mode_def)
  qed
qed

theorem mode_reports_witness:
  "reported plain_env (mode_ins (fresh 24 80) M_BRACKETED_PASTE) BracketedPaste = ModeSet \<and>
   reported plain_env (mode_rem (fresh 24 80) M_BRACKETED_PASTE) BracketedPaste = ModeReset"
  using mode_reports [of BracketedPaste plain_env "fresh 24 80" "mode_ins (fresh 24 80) M_BRACKETED_PASTE"
      "mode_rem (fresh 24 80) M_BRACKETED_PASTE" BracketedPaste]
  by (simp add: flag_mode_def set_private_mode_def unset_private_mode_def)

subsection \<open>The alternate screen\<close>

lemma swap_prepared:
  assumes "term_inv n w t"
  shows "\<exists>g. reset_region ((inactive_grid t)\<lparr>gcursor := cur t\<rparr>) (0, int n) = Some g \<and> grid_ok n w g \<and>
    gcursor g = cur t \<and> (\<forall>l. 0 \<le> l \<and> l < int n \<longrightarrow> grid_line g l = replicate w (sq_reset 0 (template (cur t))))"
proof -
  define g where "g = (inactive_grid t)\<lparr>gcursor := cur t\<rparr>"
  have g: "grid_ok n w g"
    using assms grid_okD(4) [OF term_inv_gridD [OF assms]] unfolding g_def
    by (intro grid_update_ok) (simp_all add: term_inv_def)
  have "0 < n" using term_inv_pos [OF assms] by simp
  then obtain h where h: "reset_region g (0, int n) = Some h"
    "grid_moved g (grid_history g) (\<lambda>l. if 0 \<le> l \<and> l < int n then blank_line g else grid_line g l) h"
    using reset_region_ok [OF grid_okD(1) [OF g], of 0 "int n"] grid_okD(2) [OF g] by (auto simp: wp_iff)
  have "has_line h l" if "0 \<le> l" "l < int n" for l
    using that h(2) grid_okD(2) [OF g] by (simp add: grid_moved_def same_frame_def has_line_def)
  then have "\<forall>l. 0 \<le> l \<and> l < int n \<longrightarrow> grid_line h l = replicate w (sq_reset 0 (template (cur t)))"
    using h(2) grid_okD(3) [OF g] by (simp add: grid_moved_def blank_line_def grid_template_def g_def)
  moreover have "grid_ok n w h" using same_frame_grid_ok [OF g] h(2) by (simp add: grid_moved_def)
  moreover have "gcursor h = cur t" using h(2) by (simp add: grid_moved_def same_frame_def g_def)
  ultimately show ?thesis using h(1) by (auto simp: g_def)
qed

lemma alt_bit: "mode_on t M_ALT_SCREEN \<longleftrightarrow> bit (cw_mode t) 12"
  by (simp add: mode_on_def mode_flags contains_flag)

text \<open>C27. The alternate screen: entering it shows a screen blank in the cursor's style, with the
  cursor where it was; leaving it brings back the primary screen as it was, history, cursor,
  styles and extras included (its saved cursor is the cursor at the time of entering), and the
  modes, the keyboard stack, the scroll region and the tab stops are as before.\<close>

theorem alternate_screen_roundtrip:
  assumes "term_inv n w t" "\<not> mode_on t M_ALT_SCREEN"
  shows "\<exists>u x. swap_alt t = Some u \<and> swap_alt u = Some x \<and> term_inv n w u \<and> mode_on u M_ALT_SCREEN \<and>
    cur u = cur t \<and> (\<forall>l. 0 \<le> l \<and> l < int n \<longrightarrow> line_at u l = replicate w (sq_reset 0 (template (cur t)))) \<and>
    cgrid x = (cgrid t)\<lparr>saved_cursor := cur t\<rparr> \<and> cw_mode x = cw_mode t \<and> kb_stack x = kb_stack t \<and>
    kb_idx x = kb_idx t \<and> scroll_region x = scroll_region t \<and> tabs x = tabs t"
proof -
  obtain g where g: "reset_region ((inactive_grid t)\<lparr>gcursor := cur t\<rparr>) (0, int n) = Some g" "grid_ok n w g"
    "gcursor g = cur t" "\<forall>l. 0 \<le> l \<and> l < int n \<longrightarrow> grid_line g l = replicate w (sq_reset 0 (template (cur t)))"
    using swap_prepared [OF assms(1)] by blast
  have n: "g_lines (inactive_grid t) = n" using assms(1) grid_okD(2) by (auto simp: term_inv_def)
  define p where "p = t\<lparr>inactive_grid := g, cgrid := (cgrid t)\<lparr>saved_cursor := cur t\<rparr>\<rparr>"
  define u where "u = mark_fully_damaged (swap_screens p)"
  define x where "x = mark_fully_damaged (swap_screens u)"
  have u: "swap_alt t = Some u"
    using assms(2) g(1) n by (simp add: swap_alt_def u_def p_def swap_screens_def Let_def)
  have um: "cw_mode u = cw_mode t XOR M_ALT_SCREEN" by (simp add: u_def p_def swap_screens_def)
  then have "mode_on u M_ALT_SCREEN"
    using assms(2) unfolding alt_bit by (simp add: mode_flags bit_xor_iff bit_flag)
  moreover from this have "swap_alt u = Some x"
    by (simp add: swap_alt_def x_def swap_screens_def Let_def)
  moreover have "term_inv n w u" using swap_alt_wp [OF assms(1), of "term_inv n w"] u by (simp add: wp_Some)
  moreover have "cur u = cur t" "\<forall>l. 0 \<le> l \<and> l < int n \<longrightarrow> line_at u l = replicate w (sq_reset 0 (template (cur t)))"
    using g(3,4) by (simp_all add: u_def p_def swap_screens_def)
  moreover have "cgrid x = (cgrid t)\<lparr>saved_cursor := cur t\<rparr>" "scroll_region x = scroll_region t" "tabs x = tabs t"
    "cw_mode x = cw_mode t"
    using um by (simp_all add: x_def u_def p_def swap_screens_def mark_fully_damaged_def send_def Let_def xor.assoc)
  moreover have "kb_stack x = kb_stack t" "kb_idx x = kb_idx t"
    by (simp_all add: x_def u_def p_def swap_screens_def mark_fully_damaged_def send_def Let_def)
  ultimately show ?thesis using u by blast
qed

theorem alternate_screen_roundtrip_witness:
  "\<exists>u x. swap_alt (fresh 24 80) = Some u \<and> mode_on u M_ALT_SCREEN \<and> swap_alt u = Some x \<and>
     cw_mode x = cw_mode (fresh 24 80)"
proof -
  note f = fresh_facts [of 24 80, simplified]
  have "\<not> mode_on (fresh 24 80) M_ALT_SCREEN"
    unfolding alt_bit f(6) by (simp add: mode_flags bit_or_iff bit_flag)
  from alternate_screen_roundtrip [OF f(2) this] show ?thesis by blast
qed

subsection \<open>Keyboard modes\<close>

definition kb_active :: "crosswords \<Rightarrow> keyboard_modes" where
  "kb_active t = kb_stack t ! kb_idx t"

definition kb_sync :: "crosswords \<Rightarrow> bool" where
  \<comment> \<open>the mode's keyboard bits are those of the active entry of the stack\<close>
  "kb_sync t \<longleftrightarrow> kitty_bits (cw_mode t) = mode_of_kb (kb_active t)"

lemma sync_kb_with: "sync_kb t m = t\<lparr>cw_mode := with_kitty (cw_mode t) m\<rparr>"
  by (simp add: sync_kb_def with_kitty_def)

lemma with_kitty_id: "kitty_bits m = mode_of_kb v \<Longrightarrow> with_kitty m v = m"
  by (simp add: with_kitty_def kitty_bits_def bit_remove_def)
    (metis bit.conj_disj_distrib bit.disj_cancel_right or.commute and.right_neutral)

lemma kb_cases: "i < 8 \<Longrightarrow> i = 0 \<or> i = 1 \<or> i = 2 \<or> i = 3 \<or> i = 4 \<or> i = 5 \<or> i = 6 \<or> i = (7::nat)"
  by presburger

lemma wrap_next: "i < 8 \<Longrightarrow> wrap_idx ((i + 1) mod 2 ^ 64) = (i + 1) mod 8"
  by (drule kb_cases) (auto simp: wrap_idx_def KEYBOARD_MODE_STACK_MAX_DEPTH_def)

lemma wrap_prev: "i < 8 \<Longrightarrow> wrap_idx (((i + 1) mod 8 + (2 ^ 64 - 1)) mod 2 ^ 64) = i"
  by (drule kb_cases) (auto simp: wrap_idx_def KEYBOARD_MODE_STACK_MAX_DEPTH_def)

lemma kb_sync_with:
  "kb_sync (u\<lparr>cw_mode := with_kitty (cw_mode t) (kb_truncate (kb_active u))\<rparr>)"
  "kb_sync (u\<lparr>cw_mode := with_kitty (cw_mode t) (kb_active u)\<rparr>)"
  by (simp_all add: kb_sync_def kb_active_def with_kitty_bits kb_truncate_mode)

lemma pop_loop_mode: "pop_loop t k = Some u \<Longrightarrow> cw_mode u = cw_mode t"
  by (induction t k rule: pop_loop.induct) (auto split: option.splits)

lemma push_effect:
  assumes "term_inv n w t"
  defines "j \<equiv> (kb_idx t + 1) mod 8"
  shows "push_keyboard_mode t m =
    Some (t\<lparr>kb_idx := j, kb_stack := (kb_stack t)[j := m], cw_mode := with_kitty (cw_mode t) m\<rparr>)"
  using kb_stack_ok [OF assms(1)] wrap_next [of "kb_idx t"]
  by (simp add: push_keyboard_mode_def upd_def sync_kb_with j_def Let_def)

lemma pop_one_effect:
  assumes "length (kb_stack t) = 8" "kb_idx t < 8"
  defines "j \<equiv> wrap_idx ((kb_idx t + (2 ^ 64 - 1)) mod 2 ^ 64)" and "st \<equiv> (kb_stack t)[kb_idx t := 0]"
  shows "pop_keyboard_modes t 1 = Some (t\<lparr>kb_stack := st, kb_idx := j,
    cw_mode := with_kitty (cw_mode t) (kb_truncate (st ! j))\<rparr>)"
proof -
  have "pop_loop t 1 = Some (t\<lparr>kb_stack := st, kb_idx := j\<rparr>)"
    using assms(1,2) by (simp add: upd_def j_def st_def)
  moreover have "j < length st" using assms(1) wrap_idx_less by (simp add: j_def st_def)
  ultimately show ?thesis
    by (simp add: pop_keyboard_modes_def KEYBOARD_MODE_STACK_MAX_DEPTH_def idx_def sync_kb_with del: One_nat_def)
qed

lemma pop_effect:
  assumes "term_inv n w t"
  shows "\<exists>u. pop_keyboard_modes t k = Some u \<and> kb_sync u \<and>
    bit_remove (cw_mode u) M_KITTY_KEYBOARD_PROTOCOL = bit_remove (cw_mode t) M_KITTY_KEYBOARD_PROTOCOL"
proof (cases "k \<ge> KEYBOARD_MODE_STACK_MAX_DEPTH")
  case True
  have "kitty_bits (bit_remove m M_KITTY_KEYBOARD_PROTOCOL) = 0" "mode_of_kb 0 = 0"
    "bit_remove (bit_remove m M_KITTY_KEYBOARD_PROTOCOL) M_KITTY_KEYBOARD_PROTOCOL = bit_remove m M_KITTY_KEYBOARD_PROTOCOL" for m
    by (simp_all add: kitty_bits_def bit_remove_def and.assoc mode_of_kb_def mode_set_def Let_def bit_contains_def
        K_DISAMBIGUATE_ESC_CODES_def K_REPORT_EVENT_TYPES_def K_REPORT_ALTERNATE_KEYS_def
        K_REPORT_ALL_KEYS_AS_ESC_def K_REPORT_ASSOCIATED_TEXT_def)
  with True kb_stack_ok [OF assms] show ?thesis
    by (simp add: pop_keyboard_modes_def kb_sync_def kb_active_def)
next
  case False
  obtain u where u: "pop_loop t k = Some u" "term_inv n w u"
    using pop_loop_wp [OF assms, of k] by (auto simp: wp_iff)
  then have "pop_keyboard_modes t k = Some (u\<lparr>cw_mode := with_kitty (cw_mode t) (kb_truncate (kb_active u))\<rparr>)"
    using False kb_stack_ok [OF u(2)] pop_loop_mode [OF u(1)]
    by (simp add: pop_keyboard_modes_def idx_def kb_active_def sync_kb_with)
  then show ?thesis by (simp add: kb_sync_with with_kitty_other)
qed

text \<open>C28. The stack of keyboard modes and the mode bits that the key encoder reads agree: after
  pushing, popping or changing keyboard modes the bits are those of the active entry of the
  stack of eight, and no other mode bit changes; a pushed entry is the active one, and popping it
  returns to the entry below it.\<close>

theorem keyboard_modes_in_sync:
  assumes "term_inv n w t"
  shows "\<exists>u x y z. push_keyboard_mode t m = Some u \<and> kb_active u = m \<and> kb_sync u \<and>
    pop_keyboard_modes u 1 = Some x \<and> kb_sync x \<and> kb_active x = kb_active t \<and> kb_idx x = kb_idx t \<and>
    (kb_sync t \<longrightarrow> cw_mode x = cw_mode t) \<and>
    pop_keyboard_modes t k = Some y \<and> kb_sync y \<and>
    set_keyboard_mode t m a = Some z \<and> kb_sync z \<and>
    (\<forall>v \<in> {u, x, y, z}. bit_remove (cw_mode v) M_KITTY_KEYBOARD_PROTOCOL =
      bit_remove (cw_mode t) M_KITTY_KEYBOARD_PROTOCOL)"
proof -
  note kb = kb_stack_ok [OF assms]
  define j where "j = (kb_idx t + 1) mod 8"
  define u where "u = t\<lparr>kb_idx := j, kb_stack := (kb_stack t)[j := m], cw_mode := with_kitty (cw_mode t) m\<rparr>"
  have j: "j < 8" "j \<noteq> kb_idx t" using kb by (auto simp: j_def dest: kb_cases)
  have u: "push_keyboard_mode t m = Some u" using push_effect [OF assms] by (simp add: u_def j_def)
  have ku: "kb_active u = m" "kb_sync u" using kb j by (simp_all add: kb_active_def kb_sync_def u_def with_kitty_bits)
  define x where "x = t\<lparr>kb_stack := (kb_stack t)[j := 0], kb_idx := kb_idx t,
    cw_mode := with_kitty (with_kitty (cw_mode t) m) (kb_truncate (kb_active t))\<rparr>"
  have x: "pop_keyboard_modes u 1 = Some x"
    using pop_one_effect [of u] kb j wrap_prev [of "kb_idx t"]
    by (simp add: u_def x_def j_def kb_active_def)
  have ax: "kb_active x = kb_active t" using j by (simp add: x_def kb_active_def)
  then have kx: "kb_sync x" by (simp add: kb_sync_def x_def with_kitty_bits kb_truncate_mode kb_active_def)
  have "cw_mode x = cw_mode t" if "kb_sync t"
  proof -
    have "with_kitty (with_kitty q m) v = with_kitty q v" for q v
      by (simp add: with_kitty_def [of _ v] with_kitty_other)
    then have "cw_mode x = with_kitty (cw_mode t) (kb_truncate (kb_active t))" by (simp add: x_def)
    with that show ?thesis by (simp add: with_kitty_id kb_sync_def kb_truncate_mode)
  qed
  moreover obtain y where y: "pop_keyboard_modes t k = Some y" "kb_sync y"
    "bit_remove (cw_mode y) M_KITTY_KEYBOARD_PROTOCOL = bit_remove (cw_mode t) M_KITTY_KEYBOARD_PROTOCOL"
    using pop_effect [OF assms] by blast
  define v where "v = (case a of KbReplace \<Rightarrow> m | KbUnion \<Rightarrow> kb_active t OR m | KbDifference \<Rightarrow> kb_active t AND NOT m)"
  define z where "z = t\<lparr>kb_stack := (kb_stack t)[kb_idx t := v], cw_mode := with_kitty (cw_mode t) (kb_truncate v)\<rparr>"
  have z: "set_keyboard_mode t m a = Some z"
    using kb by (cases a) (simp_all add: set_keyboard_mode_def idx_def upd_def sync_kb_with z_def v_def kb_active_def Let_def)
  have kz: "kb_sync z" using kb by (simp add: kb_sync_def z_def kb_active_def with_kitty_bits kb_truncate_mode)
  have other: "bit_remove (cw_mode u) M_KITTY_KEYBOARD_PROTOCOL = bit_remove (cw_mode t) M_KITTY_KEYBOARD_PROTOCOL"
    "bit_remove (cw_mode x) M_KITTY_KEYBOARD_PROTOCOL = bit_remove (cw_mode t) M_KITTY_KEYBOARD_PROTOCOL"
    "bit_remove (cw_mode z) M_KITTY_KEYBOARD_PROTOCOL = bit_remove (cw_mode t) M_KITTY_KEYBOARD_PROTOCOL"
    by (simp_all add: u_def x_def z_def with_kitty_other)
  moreover have "kb_idx x = kb_idx t" by (simp add: x_def)
  ultimately show ?thesis using u ku x kx ax y z kz other by auto
qed

theorem keyboard_modes_in_sync_witness:
  "\<exists>u x. push_keyboard_mode (fresh 24 80) 5 = Some u \<and> kb_sync u \<and> pop_keyboard_modes u 1 = Some x \<and>
     kb_active x = kb_active (fresh 24 80)"
  using keyboard_modes_in_sync [OF fresh_facts(2) [of 24 80, simplified], of 5] by blast

text \<open>The alternate screen has a keyboard-mode stack of its own, but entering or leaving it does
  not refresh the mode bits: when the two active entries differ, the key encoder goes on with
  the modes of the other screen, which the keyboard-mode report denies.\<close>

theorem alternate_screen_keeps_keyboard_bits:
  assumes "term_inv n w t" "kb_sync t"
    and "mode_of_kb (inactive_kb_stack t ! inactive_kb_idx t) \<noteq> mode_of_kb (kb_active t)"
  shows "\<exists>u. swap_alt t = Some u \<and> \<not> kb_sync u \<and> kitty_bits (cw_mode u) = mode_of_kb (kb_active t)"
proof -
  obtain u where u: "swap_alt t = Some u" using swap_alt_wp [OF assms(1), of "\<lambda>_. True"] by (auto simp: wp_iff)
  then have "kb_stack u = inactive_kb_stack t" "kb_idx u = inactive_kb_idx t"
    by (auto simp: swap_alt_def Let_def bind_eq_Some_conv mark_fully_damaged_def send_def split: if_splits)
  moreover have "kitty_bits (m XOR M_ALT_SCREEN) = kitty_bits m" for m
    by (simp add: kitty_bits_def kitty_eval M_ALT_SCREEN_def push_bit_eq_mult bit.conj_xor_distrib2)
  ultimately show ?thesis
    using u assms(2,3) swap_alt_mode(1) [OF u] by (simp add: kb_sync_def kb_active_def)
qed

theorem alternate_screen_keeps_keyboard_bits_witness:
  "\<exists>t u. push_keyboard_mode (fresh 24 80) 1 = Some t \<and> swap_alt t = Some u \<and> \<not> kb_sync u"
proof -
  note f = fresh_facts(2) [of 24 80, simplified]
  obtain t where t: "push_keyboard_mode (fresh 24 80) 1 = Some t" "kb_active t = 1" "kb_sync t"
    using keyboard_modes_in_sync [OF f, of 1] by blast
  have inv: "term_inv 24 80 t" using keyboard_wp(2) [OF f, of "term_inv 24 80" 1] t(1) by (simp add: wp_Some)
  have "inactive_kb_stack t = replicate 8 0" "inactive_kb_idx t = 0"
    using t(1) fresh_tables [of 24 80, simplified] by (auto simp: push_effect [OF f])
  moreover have "mode_of_kb 0 \<noteq> mode_of_kb 1"
    by (simp add: mode_of_kb_def mode_set_def bit_insert_def bit_remove_def Let_def bit_contains_def mode_bit_defs
      push_bit_eq_mult K_DISAMBIGUATE_ESC_CODES_def K_REPORT_EVENT_TYPES_def K_REPORT_ALTERNATE_KEYS_def
        K_REPORT_ALL_KEYS_AS_ESC_def K_REPORT_ASSOCIATED_TEXT_def)
  ultimately show ?thesis using alternate_screen_keeps_keyboard_bits [OF inv t(3)] t(1,2) by auto
qed

end
