(* ===== verification/EditProps.thy ===== *)
theory EditProps
  imports TermProps
begin

text \<open>
  Properties of the editing functions: line feeds, erasing, inserting and deleting characters,
  clearing the screen, tabs and titles.
\<close>

subsection \<open>Shifting the cells of a line\<close>

lemma swaps_right:
  assumes "length L = w" "s + k + num \<le> w" "j \<le> num"
  shows "\<exists>xs. foldM list_swap L (map (\<lambda>i. (s + k + i, s + i)) (rev [j..<num])) = Some xs \<and> length xs = w \<and>
    (\<forall>i. j \<le> i \<and> i < num \<longrightarrow> xs ! (s + k + i) = L ! (s + i)) \<and> (\<forall>p < s + j. xs ! p = L ! p)"
  using assms(3)
proof (induction "num - j" arbitrary: j)
  case 0
  then have "num = j" by simp
  then show ?case using assms(1) by auto
next
  case (Suc d)
  then have j: "d = num - Suc j" "Suc j \<le> num" "j < num" by simp_all
  from Suc.hyps(1) [OF j(1,2)] obtain xs where
    xs: "foldM list_swap L (map (\<lambda>i. (s + k + i, s + i)) (rev [Suc j..<num])) = Some xs" "length xs = w"
      "\<forall>i. Suc j \<le> i \<and> i < num \<longrightarrow> xs ! (s + k + i) = L ! (s + i)" "\<forall>p < s + Suc j. xs ! p = L ! p" by blast
  let ?ys = "xs[s + k + j := xs ! (s + j), s + j := xs ! (s + k + j)]"
  have "foldM list_swap L (map (\<lambda>i. (s + k + i, s + i)) (rev [j..<num])) = Some ?ys"
    using xs(1,2) assms(2) j(3) by (simp add: upt_conv_Cons foldM_append list_swap_def)
  moreover have "\<forall>i. j \<le> i \<and> i < num \<longrightarrow> ?ys ! (s + k + i) = L ! (s + i)"
  proof (intro allI impI, elim conjE)
    fix i
    assume i: "j \<le> i" "i < num"
    show "?ys ! (s + k + i) = L ! (s + i)"
    proof (cases "i = j")
      case True
      then show ?thesis using xs(2,4) assms(2) i by (cases "k = 0") (simp_all add: nth_list_update)
    next
      case False
      with i have "Suc j \<le> i" by simp
      then show ?thesis using xs(3) i by (simp add: nth_list_update)
    qed
  qed
  moreover have "\<forall>p < s + j. ?ys ! p = L ! p" using xs(4) by (simp add: nth_list_update)
  ultimately show ?case using xs(2) by auto
qed

lemma swaps_left:
  assumes "length L = w" "s + m + num \<le> w" "j \<le> num"
  shows "\<exists>xs. foldM list_swap L (map (\<lambda>i. (s + i, s + m + i)) [0..<j]) = Some xs \<and> length xs = w \<and>
    (\<forall>i < j. xs ! (s + i) = L ! (s + m + i)) \<and> (\<forall>p. s + m + j \<le> p \<and> p < w \<longrightarrow> xs ! p = L ! p) \<and>
    (\<forall>p < s. xs ! p = L ! p)"
  using assms(3)
proof (induction j)
  case 0
  then show ?case using assms(1) by simp
next
  case (Suc j)
  then obtain xs where xs: "foldM list_swap L (map (\<lambda>i. (s + i, s + m + i)) [0..<j]) = Some xs" "length xs = w"
    "\<forall>i < j. xs ! (s + i) = L ! (s + m + i)" "\<forall>p. s + m + j \<le> p \<and> p < w \<longrightarrow> xs ! p = L ! p"
    "\<forall>p < s. xs ! p = L ! p" by auto
  let ?ys = "xs[s + j := xs ! (s + m + j), s + m + j := xs ! (s + j)]"
  have "foldM list_swap L (map (\<lambda>i. (s + i, s + m + i)) [0..<Suc j]) = Some ?ys"
    using xs(1,2) assms(2) Suc.prems by (simp add: foldM_append list_swap_def)
  moreover have "\<forall>i < Suc j. ?ys ! (s + i) = L ! (s + m + i)"
    using xs assms(2) Suc.prems by (cases "m = 0") (auto simp: nth_list_update less_Suc_eq)
  ultimately show ?case using xs(2,4,5) by (auto simp: nth_list_update)
qed

lemma fill_list_eq:
  "a \<le> b \<Longrightarrow> b \<le> length cs \<Longrightarrow> fill_list a b c cs = Some (take a cs @ replicate (b - a) c @ drop b cs)"
  by (simp add: fill_list_def map_range_def map_replicate_const)

lemma insert_cells:
  assumes "length L = w" "s + k \<le> w"
  shows "foldM list_swap L (map (\<lambda>i. (s + k + i, s + i)) (rev [0..<w - (s + k)])) \<bind> fill_list s (s + k) b =
    Some (take s L @ replicate k b @ take (w - (s + k)) (drop s L))"
proof -
  let ?num = "w - (s + k)"
  obtain xs where xs: "foldM list_swap L (map (\<lambda>i. (s + k + i, s + i)) (rev [0..<?num])) = Some xs" "length xs = w"
    "\<forall>i. 0 \<le> i \<and> i < ?num \<longrightarrow> xs ! (s + k + i) = L ! (s + i)" "\<forall>p < s + 0. xs ! p = L ! p"
    using swaps_right [OF assms(1), of s k ?num 0] assms(2) by auto
  have "take s xs = take s L" using xs(2,4) assms by (intro nth_equalityI) auto
  moreover have "drop (s + k) xs = take ?num (drop s L)"
    using xs(2,3) assms by (intro nth_equalityI) auto
  ultimately show ?thesis using xs(1,2) assms by (simp add: fill_list_eq)
qed

lemma delete_cells:
  assumes "length L = w" "s + m < w"
  shows "foldM list_swap L (map (\<lambda>i. (s + i, s + m + i)) [0..<w - (s + m)]) \<bind> (\<lambda>cs. fill_list (w - m) (length cs) b cs) =
    Some (take s L @ drop (s + m) L @ replicate m b)"
proof -
  let ?num = "w - (s + m)"
  obtain xs where xs: "foldM list_swap L (map (\<lambda>i. (s + i, s + m + i)) [0..<?num]) = Some xs" "length xs = w"
    "\<forall>i < ?num. xs ! (s + i) = L ! (s + m + i)" "\<forall>p < s. xs ! p = L ! p"
    using swaps_left [OF assms(1), of s m ?num ?num] assms(2) by auto
  have "take (w - m) xs = take s L @ drop (s + m) L"
  proof (rule nth_equalityI)
    fix i
    assume i: "i < length (take (w - m) xs)"
    then have w: "i < w - m" using xs(2) by simp
    have "xs ! i = (take s L @ drop (s + m) L) ! i"
    proof (cases "i < s")
      case False
      with w have "i - s < ?num" by simp
      with xs(3) False have "xs ! i = L ! (s + m + (i - s))" by (metis le_add_diff_inverse not_less)
      with False w assms show ?thesis by (simp add: nth_append)
    qed (use xs(4) assms in \<open>simp add: nth_append\<close>)
    then show "take (w - m) xs ! i = (take s L @ drop (s + m) L) ! i" using w by simp
  qed (use xs(2) assms in simp)
  then show ?thesis using xs(1,2) assms by (simp add: fill_list_eq)
qed

subsection \<open>Moving the cursor\<close>

lemma marked_line:
  assumes "term_inv n w t" "0 \<le> l" "l < int n"
  shows "wp (damage_line t l) (\<lambda>u. \<exists>d. u = t\<lparr>damage := d\<rparr> \<and> term_inv n w u \<and>
    (\<forall>k. damaged d k \<longleftrightarrow> damaged (damage t) k \<or> k = nat l))"
  using damaged_line [OF assms] by (auto simp: wp_iff)

definition moved_to :: "nat \<Rightarrow> nat \<Rightarrow> crosswords \<Rightarrow> int \<Rightarrow> nat \<Rightarrow> crosswords \<Rightarrow> bool" where
  \<comment> \<open>only the cursor has moved; its old and its new line are damaged\<close>
  "moved_to n w t l k u \<longleftrightarrow> term_inv n w u \<and> cpos (cur u) = Pos l k \<and> \<not> should_wrap (cur u) \<and>
     lines_after t (line_at t) u \<and> damaged (damage u) (nat (cur_row t)) \<and> damaged (damage u) (nat l)"

definition goto_row :: "crosswords \<Rightarrow> int \<Rightarrow> int" where
  "goto_row t l =
     (if mode_on t M_ORIGIN then max 0 (min (l + fst (scroll_region t)) (snd (scroll_region t) - 1))
      else max 0 (min l (int (screen_line_count t) - 1)))"

lemma goto_effect:
  assumes "term_inv n w t"
  shows "wp (goto t l k) (moved_to n w t (goto_row t l) (min k (w - 1)))"
proof -
  note pos = term_inv_pos [OF assms]
  obtain d where d: "damage_line t (cur_row t) = Some (t\<lparr>damage := d\<rparr>)" "term_inv n w (t\<lparr>damage := d\<rparr>)"
    "\<forall>k. damaged d k \<longleftrightarrow> damaged (damage t) k \<or> k = nat (cur_row t)"
    using damaged_line [OF assms pos(3,4)] by auto
  let ?u = "set_cur_col (set_cur_row (t\<lparr>damage := d\<rparr>) (goto_row t l)) (min k (w - 1))"
  have row: "0 \<le> goto_row t l" "goto_row t l < int n"
    using pos by (auto simp: goto_row_def region_ok_def term_inv_dims(4) [OF assms])
  have u: "term_inv n w ?u" using d(2) row pos by (intro term_wp) auto
  obtain e where e: "damage_line ?u (goto_row t l) = Some (?u\<lparr>damage := e\<rparr>)" "term_inv n w (?u\<lparr>damage := e\<rparr>)"
    "\<forall>k. damaged e k \<longleftrightarrow> damaged (damage ?u) k \<or> k = nat (goto_row t l)"
    using damaged_line [OF u row] by auto
  let ?v = "set_should_wrap (?u\<lparr>damage := e\<rparr>) False"
  have "goto t l k = Some ?v"
    using d(1) e(1) assms
    by (cases "mode_on t M_ORIGIN")
      (simp_all add: goto_def goto_row_def damage_cursor_def term_inv_dims [OF assms] max.commute)
  moreover have "moved_to n w t (goto_row t l) (min k (w - 1)) ?v"
    unfolding moved_to_def
  proof (intro conjI)
    show "term_inv n w ?v" using e(2) by (intro term_wp)
    show "lines_after t (line_at t) ?v"
      by (auto simp: lines_after_def set_cur_col_def set_cur_row_def set_should_wrap_def with_cursor_def
          grid_line_def grid_history_raw)
    show "damaged (damage ?v) (nat (cur_row t))" "damaged (damage ?v) (nat (goto_row t l))"
      using d(3) e(3) by (simp_all add: set_cur_col_def set_cur_row_def set_should_wrap_def with_cursor_def)
  qed (simp_all add: set_cur_col_def set_cur_row_def set_should_wrap_def with_cursor_def)
  ultimately show ?thesis by (simp add: wp_Some)
qed

lemma fresh_origin: "\<not> mode_on (fresh 24 80) M_ORIGIN"
  by (simp add: mode_on_def fresh_facts(6) [of 24 80, simplified] bit_contains_def M_ORIGIN_def M_SHOW_CURSOR_def
      M_LINE_WRAP_def M_ALTERNATE_SCROLL_def M_URGENCY_HINTS_def push_bit_eq_mult)

text \<open>C40. Cursor addressing outside origin mode: absolute addressing goes to the line and column,
  the relative movements go as far as they are told, all of them stop at the edges of the
  screen, cancel a pending wrap, change no cell and damage the line the cursor leaves and the
  one it reaches.\<close>

theorem cursor_addressing:
  assumes "term_inv n w t" "\<not> mode_on t M_ORIGIN"
  shows "wp (goto t (int l) k) (moved_to n w t (int (min l (n - 1))) (min k (w - 1))) \<and>
    wp (goto_line t (int l)) (moved_to n w t (int (min l (n - 1))) (cur_col t)) \<and>
    wp (goto_col t k) (moved_to n w t (cur_row t) (min k (w - 1))) \<and>
    wp (move_up t m) (moved_to n w t (max 0 (cur_row t - int m)) (cur_col t)) \<and>
    wp (move_down t m) (moved_to n w t (min (cur_row t + int m) (int n - 1)) (cur_col t)) \<and>
    wp (move_up_and_cr t m) (moved_to n w t (max 0 (cur_row t - int m)) 0) \<and>
    wp (move_down_and_cr t m) (moved_to n w t (min (cur_row t + int m) (int n - 1)) 0)"
proof -
  note pos = term_inv_pos [OF assms(1)]
  have row: "goto_row t j = max 0 (min j (int n - 1))" for j
    using assms(2) by (simp add: goto_row_def term_inv_dims(4) [OF assms(1)])
  have "goto_row t (int l) = int (min l (n - 1))" "goto_row t (cur_row t) = cur_row t"
    "goto_row t (cur_row t - int m) = max 0 (cur_row t - int m)"
    "goto_row t (cur_row t + int m) = min (cur_row t + int m) (int n - 1)"
    using pos unfolding row by (auto simp: min_def max_def)
  moreover have "min (cur_col t) (w - 1) = cur_col t" using pos by simp
  moreover have "wp (goto t j i) (moved_to n w t (goto_row t j) (min i (w - 1)))" for j i
    by (rule goto_effect [OF assms(1)])
  ultimately show ?thesis
    unfolding goto_line_def goto_col_def move_up_def move_down_def move_up_and_cr_def move_down_and_cr_def
    by (metis min_0L)
qed

theorem cursor_addressing_witness:
  "\<exists>u. goto (fresh 24 80) 5 100 = Some u \<and> cpos (cur u) = Pos 5 79"
  using cursor_addressing [OF fresh_facts(2) [of 24 80, simplified] fresh_origin, of 5 100 0]
  by (auto simp: wp_iff moved_to_def)

text \<open>In origin mode the relative movements go through the same addressing, which counts lines
  from the top of the scroll region: a movement within the line moves the cursor down by the
  region's top as well, and moving up by no more than the top does not move it up.\<close>

theorem origin_mode_moves_down:
  assumes "term_inv n w t" "mode_on t M_ORIGIN" "scroll_region t = (a, b)" "a \<le> cur_row t" "cur_row t < b"
  shows "wp (goto_col t k) (moved_to n w t (min (cur_row t + a) (b - 1)) (min k (w - 1))) \<and>
    wp (move_up t m) (moved_to n w t (max 0 (min (cur_row t - int m + a) (b - 1))) (cur_col t))"
proof -
  note pos = term_inv_pos [OF assms(1)]
  have "goto_row t (cur_row t) = min (cur_row t + a) (b - 1)"
    "goto_row t (cur_row t - int m) = max 0 (min (cur_row t - int m + a) (b - 1))"
    using assms(2-5) pos by (auto simp: goto_row_def region_ok_def)
  moreover have "min (cur_col t) (w - 1) = cur_col t" using pos by simp
  moreover have "wp (goto t j i) (moved_to n w t (goto_row t j) (min i (w - 1)))" for j i
    by (rule goto_effect [OF assms(1)])
  ultimately show ?thesis unfolding goto_col_def move_up_def by metis
qed

theorem origin_mode_moves_down_witness:
  "\<exists>t u. term_inv 24 80 t \<and> cur_row t = 7 \<and> goto_col t 0 = Some u \<and> cur_row u = 12"
proof -
  define t where "t = set_cur_row ((fresh 24 80)\<lparr>cw_mode := M_ORIGIN, scroll_region := (5, 20)\<rparr>) 7"
  have "term_inv 24 80 ((fresh 24 80)\<lparr>cw_mode := M_ORIGIN, scroll_region := (5, 20)\<rparr>)"
    using fresh_facts(2) [of 24 80] by (simp add: term_inv_def region_ok_def)
  then have "term_inv 24 80 t" unfolding t_def by (intro term_wp) simp_all
  moreover have "mode_on t M_ORIGIN" "scroll_region t = (5, 20)" "cur_row t = 7"
    by (simp_all add: t_def mode_on_def bit_contains_def)
  ultimately show ?thesis
    using origin_mode_moves_down [where n = 24 and w = 80 and t = t and a = 5 and b = 20 and k = 0 and m = 0]
    by (auto simp: wp_iff moved_to_def)
qed

subsection \<open>Editing the cursor's line\<close>

definition edited :: "nat \<Rightarrow> nat \<Rightarrow> crosswords \<Rightarrow> square list \<Rightarrow> crosswords \<Rightarrow> bool" where
  \<comment> \<open>the cursor's line is now \<open>xs\<close> and damaged; every other line and the cursor are the same\<close>
  "edited n w t xs u \<longleftrightarrow> term_inv n w u \<and> lines_after t ((line_at t)(cur_row t := xs)) u \<and> cur u = cur t \<and>
     damaged (damage u) (nat (cur_row t))"

definition blank_of :: "crosswords \<Rightarrow> square" where
  \<comment> \<open>a blank in the cursor's background\<close>
  "blank_of t = snd (current_blank t)"

lemma current_blank_eq:
  assumes "term_inv n w t"
  shows "\<exists>s. current_blank t = (t\<lparr>cgrid := (cgrid t)\<lparr>g_style_set := s\<rparr>\<rparr>, blank_of t) \<and>
    term_inv n w (t\<lparr>cgrid := (cgrid t)\<lparr>g_style_set := s\<rparr>\<rparr>)"
  using current_blank_ok [OF assms] by (metis blank_of_def prod.collapse)

lemma cursor_line_length: "term_inv n w t \<Longrightarrow> length (line_at t (cur_row t)) = w"
  using grid_line_length [of "cgrid t" "cur_row t"] screen_has_line [of n w t "cur_row t"] term_invD [of n w t] by simp

lemma row_edit_effect:
  assumes t: "term_inv n w t" and f: "\<And>r. cells r = line_at t (cur_row t) \<Longrightarrow> wp (f r) (\<lambda>r'. cells r' = xs)" and "length xs = w"
  defines "s_t \<equiv> \<lambda>s. t\<lparr>cgrid := (cgrid t)\<lparr>g_style_set := s\<rparr>\<rparr>"
  assumes s: "term_inv n w (s_t s)"
  shows "\<exists>u. damage_line (s_t s) (cur_row t) \<bind> (\<lambda>x. on_grid x (grid_modify_row (cgrid x) (cur_row t) f)) = Some u \<and>
    edited n w t xs u"
proof -
  note pos = term_inv_pos [OF t]
  obtain d where d: "damage_line (s_t s) (cur_row t) = Some ((s_t s)\<lparr>damage := d\<rparr>)"
    "term_inv n w ((s_t s)\<lparr>damage := d\<rparr>)" "damaged d (nat (cur_row t))"
    using damaged_line [OF s pos(3,4)] by auto
  let ?x = "(s_t s)\<lparr>damage := d\<rparr>"
  have same: "line_at ?x = line_at t" by (rule ext) (simp add: s_t_def grid_line_def)
  have lines: "has_line (cgrid ?x) l = has_line (cgrid t) l"
    "grid_history (cgrid ?x) = grid_history (cgrid t)" for l
    by (simp_all add: s_t_def grid_history_raw)
  have l: "has_line (cgrid ?x) (cur_row t)" using screen_has_line [OF d(2) pos(3,4)] .
  obtain g where g: "on_grid ?x (grid_modify_row (cgrid ?x) (cur_row t) f) = Some (?x\<lparr>cgrid := g\<rparr>)"
    "term_inv n w (?x\<lparr>cgrid := g\<rparr>)" "same_frame (cgrid ?x) g" "lines_after ?x ((line_at ?x)(cur_row t := xs)) (?x\<lparr>cgrid := g\<rparr>)"
    using row_effect [OF d(2) l, of f xs] f assms(3) unfolding same by blast
  have "lines_after t ((line_at t)(cur_row t := xs)) (?x\<lparr>cgrid := g\<rparr>)"
    using g(4) lines unfolding same by (simp add: lines_after_def)
  with g d show ?thesis
    by (auto simp: edited_def s_t_def same_frame_def)
qed

lemma edited_same: "edited n w t xs u \<Longrightarrow> cgrid v = cgrid u \<Longrightarrow> damage v = damage u \<Longrightarrow> term_inv n w v \<Longrightarrow> edited n w t xs v"
  by (simp add: edited_def lines_after_def)

lemma edit_frame:
  assumes "term_inv n w t"
  obtains s where "current_blank t = (t\<lparr>cgrid := (cgrid t)\<lparr>g_style_set := s\<rparr>\<rparr>, blank_of t)"
    "term_inv n w (t\<lparr>cgrid := (cgrid t)\<lparr>g_style_set := s\<rparr>\<rparr>)"
    "grid_col_count (t\<lparr>cgrid := (cgrid t)\<lparr>g_style_set := s\<rparr>\<rparr>) = w" "grid_col_count t = w"
  using current_blank_eq [OF assms] term_inv_dims(3) assms by blast

lemma erase_chars_edited:
  assumes "term_inv n w t"
  defines "L \<equiv> line_at t (cur_row t)" and "c \<equiv> cur_col t" and "b \<equiv> blank_of t"
  shows "\<exists>u. erase_chars t m = Some u \<and> edited n w t (take c L @ replicate (min m (w - c)) b @ drop (c + m) L) u"
proof -
  have len: "length L = w" and c: "c < w"
    using cursor_line_length [OF assms(1)] term_inv_pos(5) [OF assms(1)] by (simp_all add: L_def c_def)
  obtain s where s: "current_blank t = (t\<lparr>cgrid := (cgrid t)\<lparr>g_style_set := s\<rparr>\<rparr>, b)"
    "term_inv n w (t\<lparr>cgrid := (cgrid t)\<lparr>g_style_set := s\<rparr>\<rparr>)"
    and w: "grid_col_count (t\<lparr>cgrid := (cgrid t)\<lparr>g_style_set := s\<rparr>\<rparr>) = w" "grid_col_count t = w"
    using edit_frame [OF assms(1)] unfolding b_def .
  have f: "wp (row_index_mut_range r c (min (c + m) w) (\<lambda>_. b))
      (\<lambda>r'. cells r' = take c L @ replicate (min m (w - c)) b @ drop (c + m) L)" if "cells r = line_at t (cur_row t)" for r
    using that len c
    by (auto simp: L_def [symmetric] row_index_mut_range_def map_range_def wp_simps map_replicate_const min_def)
  have len': "length (take c L @ replicate (min m (w - c)) b @ drop (c + m) L) = w" using len c by (auto simp: min_def)
  obtain u where u: "damage_line (t\<lparr>cgrid := (cgrid t)\<lparr>g_style_set := s\<rparr>\<rparr>) (cur_row t) \<bind>
      (\<lambda>x. on_grid x (grid_modify_row (cgrid x) (cur_row t) (\<lambda>r. row_index_mut_range r c (min (c + m) w) (\<lambda>_. b)))) = Some u"
    "edited n w t (take c L @ replicate (min m (w - c)) b @ drop (c + m) L) u"
    using row_edit_effect [where f = "\<lambda>r. row_index_mut_range r c (min (c + m) w) (\<lambda>_. b)", OF assms(1) f len' s(2)] by blast
  then have "erase_chars t m = Some (overlays_moved u)"
    using s(1) w by (simp add: erase_chars_def fill_range_def c_def Let_def bind_eq_Some_conv)
      (auto simp: bind_eq_Some_conv)
  moreover have "edited n w t (take c L @ replicate (min m (w - c)) b @ drop (c + m) L) (overlays_moved u)"
    using u(2) by (rule edited_same) (use u(2) in \<open>auto simp: edited_def overlays_moved_def\<close>)
  ultimately show ?thesis by blast
qed

lemma insert_blank_edited:
  assumes "term_inv n w t"
  defines "L \<equiv> line_at t (cur_row t)" and "c \<equiv> cur_col t" and "b \<equiv> blank_of t"
  shows "\<exists>u. insert_blank t m = Some u \<and>
    edited n w t (take c L @ replicate (min m (w - c)) b @ take (w - c - m) (drop c L)) u"
proof -
  have len: "length L = w" and c: "c < w"
    using cursor_line_length [OF assms(1)] term_inv_pos(5) [OF assms(1)] by (simp_all add: L_def c_def)
  obtain s where s: "current_blank t = (t\<lparr>cgrid := (cgrid t)\<lparr>g_style_set := s\<rparr>\<rparr>, b)"
    "term_inv n w (t\<lparr>cgrid := (cgrid t)\<lparr>g_style_set := s\<rparr>\<rparr>)"
    and w: "grid_col_count (t\<lparr>cgrid := (cgrid t)\<lparr>g_style_set := s\<rparr>\<rparr>) = w" "grid_col_count t = w"
    using edit_frame [OF assms(1)] unfolding b_def .
  define k where "k = min m (w - c)"
  have k: "c + k \<le> w" "w - (c + k) = w - c - m" using c by (auto simp: k_def)
  have f: "wp (row_slice_mut (\<lambda>cs. foldM list_swap cs (map (\<lambda>i. (c + k + i, c + i)) (rev [0..<w - (c + k)])) \<bind>
      fill_list c (c + k) b) r) (\<lambda>r'. cells r' = take c L @ replicate k b @ take (w - c - m) (drop c L))"
    if "cells r = line_at t (cur_row t)" for r
    using insert_cells [OF len k(1), of b] that k(2) by (simp add: L_def [symmetric] row_slice_mut_def wp_simps)
  have "length (take c L @ replicate k b @ take (w - c - m) (drop c L)) = w" using len c k by auto
  from row_edit_effect [where f = "row_slice_mut (\<lambda>cs. foldM list_swap cs
      (map (\<lambda>i. (c + k + i, c + i)) (rev [0..<w - (c + k)])) \<bind> fill_list c (c + k) b)", OF assms(1) f this s(2)]
  show ?thesis
    using s(1) w c by (auto simp: insert_blank_def Let_def usub_def L_def k_def [symmetric] simp flip: c_def)
qed

lemma delete_chars_edited:
  assumes "term_inv n w t" "cur_col t + m < w"
  defines "L \<equiv> line_at t (cur_row t)" and "c \<equiv> cur_col t" and "b \<equiv> blank_of t"
  shows "\<exists>u. delete_chars t m = Some u \<and> edited n w t (take c L @ drop (c + m) L @ replicate m b) u"
proof -
  have len: "length L = w" and c: "c < w"
    using cursor_line_length [OF assms(1)] term_inv_pos(5) [OF assms(1)] by (simp_all add: L_def c_def)
  obtain s where s: "current_blank t = (t\<lparr>cgrid := (cgrid t)\<lparr>g_style_set := s\<rparr>\<rparr>, b)"
    "term_inv n w (t\<lparr>cgrid := (cgrid t)\<lparr>g_style_set := s\<rparr>\<rparr>)"
    and w: "grid_col_count (t\<lparr>cgrid := (cgrid t)\<lparr>g_style_set := s\<rparr>\<rparr>) = w" "grid_col_count t = w"
    using edit_frame [OF assms(1)] unfolding b_def .
  have cm: "c + m < w" using assms(2) by (simp add: c_def)
  have f: "wp (row_slice_mut (\<lambda>cs. foldM list_swap cs (map (\<lambda>i. (c + i, c + m + i)) [0..<w - (c + m)]) \<bind>
      (\<lambda>cs. fill_list (w - m) (length cs) b cs)) r) (\<lambda>r'. cells r' = take c L @ drop (c + m) L @ replicate m b)"
    if "cells r = line_at t (cur_row t)" for r
    using delete_cells [OF len cm, of b] that by (simp add: L_def [symmetric] row_slice_mut_def wp_simps)
  have "length (take c L @ drop (c + m) L @ replicate m b) = w" using len cm by auto
  from row_edit_effect [where f = "row_slice_mut (\<lambda>cs. foldM list_swap cs
      (map (\<lambda>i. (c + i, c + m + i)) [0..<w - (c + m)]) \<bind> (\<lambda>cs. fill_list (w - m) (length cs) b cs))", OF assms(1) f this s(2)]
  show ?thesis
    using s(1) w cm by (auto simp: delete_chars_def Let_def usub_def L_def min_def simp flip: c_def)
qed

text \<open>Deleting at least as many characters as there are from the cursor on does not stop at the
  cursor: the blanks that fill the end of the line are counted from the line's end, so for a
  count beyond the rest of the line the cells to the left of the cursor are erased too.\<close>

lemma delete_chars_reaches_left:
  assumes "term_inv n w t" "w \<le> cur_col t + m"
  shows "\<exists>u. delete_chars t m = Some u \<and>
    edited n w t (take (w - min m w) (line_at t (cur_row t)) @ replicate (min m w) (blank_of t)) u"
proof -
  define L c b k where d: "L = line_at t (cur_row t)" "c = cur_col t" "b = blank_of t" "k = min m w"
  have len: "length L = w" and c: "c < w" "w \<le> c + k" "k \<le> w" "0 < k"
    using cursor_line_length [OF assms(1)] term_inv_pos(5) [OF assms(1)] assms(2) by (auto simp: d)
  obtain s where s: "current_blank t = (t\<lparr>cgrid := (cgrid t)\<lparr>g_style_set := s\<rparr>\<rparr>, b)"
    "term_inv n w (t\<lparr>cgrid := (cgrid t)\<lparr>g_style_set := s\<rparr>\<rparr>)"
    using current_blank_eq [OF assms(1)] by (auto simp: d)
  have w: "grid_col_count t = w" using term_inv_dims(3) [OF assms(1)] .
  have f: "wp (row_slice_mut (\<lambda>cs. foldM list_swap cs (map (\<lambda>i. (c + i, w - 1 + i)) [0..<w - (w - 1)]) \<bind>
      (\<lambda>cs. fill_list (w - k) (length cs) b cs)) r) (\<lambda>r'. cells r' = take (w - k) L @ replicate k b)"
    if "cells r = line_at t (cur_row t)" for r
    using that len c by (simp add: d(1) [symmetric] row_slice_mut_def wp_simps list_swap_def fill_list_eq)
  have "length (take (w - k) L @ replicate k b) = w" using len c by simp
  from row_edit_effect [where f = "row_slice_mut (\<lambda>cs. foldM list_swap cs
      (map (\<lambda>i. (c + i, w - 1 + i)) [0..<w - (w - 1)]) \<bind> (\<lambda>cs. fill_list (w - k) (length cs) b cs))",
      OF assms(1) f this s(2)]
  show ?thesis
    using s(1) w c by (auto simp: delete_chars_def Let_def usub_def min_absorb2 simp flip: d)
qed

text \<open>C19. Editing a line: erasing characters blanks the cells from the cursor on, inserting blanks
  moves the rest of the line to the right, over its end, and for both a count beyond the end of the line counts
  up to it. Deleting fewer characters than there are from the cursor on moves the rest of the line to the
  cursor and fills its end with blanks. Deleting as many or more does not stop at the cursor, which is not what it
  means to do: it blanks that many cells at the end of the line, so that a count beyond the rest of
  the line also erases cells to the left of the cursor. Blanks have the cursor's background, the cursor does not
  move, no other line changes and the line is damaged.\<close>

theorem line_editing:
  assumes "term_inv n w t"
  defines "L \<equiv> line_at t (cur_row t)" and "c \<equiv> cur_col t" and "b \<equiv> blank_of t"
  shows "(\<exists>u. erase_chars t m = Some u \<and>
      edited n w t (take c L @ replicate (min m (w - c)) b @ drop (c + m) L) u) \<and>
    (\<exists>u. insert_blank t m = Some u \<and>
      edited n w t (take c L @ replicate (min m (w - c)) b @ take (w - c - m) (drop c L)) u) \<and>
    (\<exists>u. delete_chars t m = Some u \<and>
      edited n w t (if c + m < w then take c L @ drop (c + m) L @ replicate m b
        else take (w - min m w) L @ replicate (min m w) b) u)"
  unfolding assms(2-4)
  using erase_chars_edited [OF assms(1)] insert_blank_edited [OF assms(1)] delete_chars_edited [OF assms(1), of m]
    delete_chars_reaches_left [OF assms(1), of m] by (auto simp: not_less)

theorem line_editing_witness:
  "\<exists>t u. goto (fresh 24 80) 0 78 = Some t \<and> delete_chars t 80 = Some u \<and> line_at u 0 = replicate 80 (blank_of t)"
proof -
  obtain t where t: "goto (fresh 24 80) 0 78 = Some t" "term_inv 24 80 t" "cpos (cur t) = Pos 0 78"
    using goto_effect [OF fresh_facts(2) [of 24 80, simplified], of 0 78] fresh_origin
    by (auto simp: wp_iff moved_to_def goto_row_def term_inv_dims(4) [OF fresh_facts(2) [of 24 80, simplified]])
  with line_editing [OF t(2), of 80] screen_has_line [OF t(2), of 0] show ?thesis
    by (auto simp: edited_def lines_after_def)
qed

subsection \<open>Tab stops\<close>

definition next_stop :: "bool list \<Rightarrow> nat \<Rightarrow> nat" where
  \<comment> \<open>the first stop to the right, else the last column\<close>
  "next_stop ts k = hd (filter (\<lambda>i. ts ! i) [Suc k..<length ts] @ [length ts - 1])"

definition prev_stop :: "bool list \<Rightarrow> nat \<Rightarrow> nat" where
  \<comment> \<open>the last stop to the left, else the column itself\<close>
  "prev_stop ts k = last (k # filter (\<lambda>i. ts ! i) [0..<k])"

lemma first_tab_stop: "i \<le> length ts \<Longrightarrow> k < i \<Longrightarrow> i = Suc k \<or> k = i - 1 \<Longrightarrow>
  first_tab ts (length ts) k i = Some (hd (filter (\<lambda>i. ts ! i) [i..<length ts] @ [length ts - 1]))"
proof (induction "length ts - i" arbitrary: k i)
  case 0
  then show ?case by (subst first_tab.simps) auto
next
  case (Suc d)
  then show ?case by (subst first_tab.simps) (auto simp: idx_def upt_conv_Cons)
qed

lemma next_stop_less: "k < length ts \<Longrightarrow> next_stop ts k < length ts"
  using hd_in_set [of "filter (\<lambda>i. ts ! i) [Suc k..<length ts] @ [length ts - 1]"]
  by (auto simp: next_stop_def simp del: hd_append2 filter_append)

lemma next_stop_last: "next_stop ts (length ts - Suc 0) = length ts - Suc 0"
  by (cases "length ts") (simp_all add: next_stop_def)

lemma move_forward_stops:
  "k < length ts \<Longrightarrow> move_forward_tabs_loop ts (length ts) m k = Some ((next_stop ts ^^ m) k)"
proof (induction m arbitrary: k)
  case (Suc m)
  show ?case
  proof (cases "k = length ts - 1")
    case True
    have "(next_stop ts ^^ j) (length ts - 1) = length ts - 1" for j
      by (induction j) (simp_all add: next_stop_last)
    with True Suc.prems show ?thesis by (simp add: usub_def next_stop_last)
  next
    case False
    with Suc.prems have "first_tab ts (length ts) k (k + 1) = Some (next_stop ts k)"
      using first_tab_stop [of "Suc k" ts k] by (simp add: next_stop_def)
    with Suc.IH [OF next_stop_less [OF Suc.prems]] False Suc.prems show ?thesis
      by (simp add: usub_def funpow_swap1)
  qed
qed simp

lemma last_tab_stop: "i \<le> k \<Longrightarrow> k \<le> length ts \<Longrightarrow> last_tab ts k i = Some (last (k # filter (\<lambda>j. ts ! j) [0..<i]))"
  by (induction i) (auto simp: idx_def)

lemma prev_stop_le: "prev_stop ts k \<le> k"
  using last_in_set [of "k # filter (\<lambda>i. ts ! i) [0..<k]"] by (auto simp: prev_stop_def)

lemma prev_stop_0: "prev_stop ts 0 = 0"
  by (simp add: prev_stop_def)

lemma move_backward_stops:
  "k < length ts \<Longrightarrow> move_backward_tabs_loop ts m k = Some ((prev_stop ts ^^ m) k)"
proof (induction m arbitrary: k)
  case (Suc m)
  show ?case
  proof (cases "k = 0")
    case True
    have "(prev_stop ts ^^ j) 0 = 0" for j by (induction j) (simp_all add: prev_stop_0)
    with True show ?thesis by (simp add: prev_stop_0)
  next
    case False
    have "prev_stop ts k < length ts" using prev_stop_le [of ts k] Suc.prems by simp
    with Suc.IH [OF this] False Suc.prems last_tab_stop [of k k ts, folded prev_stop_def] show ?thesis
      by (simp add: funpow_swap1)
  qed
qed simp

lemma next_tab_stop: "k < length ts \<Longrightarrow> next_tab ts (length ts) k = Some (next_stop ts k)"
proof (induction "length ts - k" arbitrary: k)
  case (Suc d)
  show ?case
  proof (cases "k + 1 = length ts")
    case False
    with Suc.prems have "Suc k < length ts" by simp
    then show ?thesis
      using Suc.hyps by (subst next_tab.simps) (auto simp: next_stop_def upt_conv_Cons)
  qed (simp add: next_tab.simps next_stop_def)
qed simp

lemma put_tab_stops:
  assumes "term_inv n w t"
  shows "wp (put_tab_loop t m) (\<lambda>u. term_inv n w u \<and> cpos (cur u) = Pos (cur_row t) ((next_stop (tabs t) ^^ m) (cur_col t)))"
  using assms
proof (induction m arbitrary: t)
  case 0
  then show ?case by (simp add: wp_Some pos.expand)
next
  case (Suc m)
  note pos = term_inv_pos [OF Suc.prems] and tabs = term_invD(9) [OF Suc.prems]
  have next': "next_stop (tabs t) (cur_col t) < w" "next_tab (tabs t) w (cur_col t) = Some (next_stop (tabs t) (cur_col t))"
    using next_stop_less [of "cur_col t" "tabs t"] next_tab_stop [of "cur_col t" "tabs t"] pos(5) tabs by auto
  have loop: "wp (put_tab_loop (set_cur_col u (next_stop (tabs t) (cur_col t))) m)
      (\<lambda>u. term_inv n w u \<and> cpos (cur u) = Pos (cur_row t) ((next_stop (tabs t) ^^ Suc m) (cur_col t)))"
    if "term_inv n w u" "still t u" for u
    using Suc.IH [OF set_cur_col_ok [OF that(1) next'(1)]] that(2)
    by (simp add: funpow_swap1 still_def set_cur_col_def with_cursor_def)
  have "wp (set_cursor_cell t f) (\<lambda>u. wp (next_tab (tabs u) (grid_col_count u) (cur_col u)) (\<lambda>k.
      wp (put_tab_loop (set_cur_col u k) m)
        (\<lambda>u. term_inv n w u \<and> cpos (cur u) = Pos (cur_row t) ((next_stop (tabs t) ^^ Suc m) (cur_col t)))))" for f
    by (rule set_cursor_cell_wp [OF Suc.prems])
      (use loop next' in \<open>auto simp: still_def term_inv_dims(3) wp_Some simp del: funpow.simps\<close>)
  then show ?case
    using pos term_inv_dims(3) [OF Suc.prems]
    by (auto simp: wp_simps simp del: funpow.simps intro!: charsets_get_wp)
qed

text \<open>Tab stops: moving forward by tabs goes from stop to stop and ends in the last column when
  there is none left, a tab character does the same, and moving backward goes to the stops on
  the left and stays where it is when there is none.\<close>

theorem tab_stops:
  assumes "term_inv n w t"
  shows "wp (move_forward_tabs t m) (\<lambda>u. term_inv n w u \<and>
      cpos (cur u) = Pos (cur_row t) ((next_stop (tabs t) ^^ m) (cur_col t))) \<and>
    wp (move_backward_tabs t m) (\<lambda>u. term_inv n w u \<and>
      cpos (cur u) = Pos (cur_row t) ((prev_stop (tabs t) ^^ m) (cur_col t))) \<and>
    (\<not> should_wrap (cur t) \<longrightarrow> wp (put_tab t m) (\<lambda>u. term_inv n w u \<and>
      cpos (cur u) = Pos (cur_row t) ((next_stop (tabs t) ^^ m) (cur_col t))))"
proof (intro conjI impI)
  note pos = term_inv_pos [OF assms] and tabs = term_invD(9) [OF assms]
  have "(next_stop (tabs t) ^^ m) (cur_col t) < w" "(prev_stop (tabs t) ^^ m) (cur_col t) < w"
    using next_stop_less [of _ "tabs t"] prev_stop_le [of "tabs t"] tabs pos(5)
    by (induction m) (auto intro: le_less_trans)
  moreover have "wp (damage_cursor (set_cur_col t k)) (\<lambda>u. term_inv n w u \<and> cpos (cur u) = Pos (cur_row t) k)" if "k < w" for k
    by (rule damage_wps(2) [OF set_cur_col_ok [OF assms that]])
      (auto simp: still_def set_cur_col_def with_cursor_def)
  ultimately show "wp (move_forward_tabs t m) (\<lambda>u. term_inv n w u \<and>
      cpos (cur u) = Pos (cur_row t) ((next_stop (tabs t) ^^ m) (cur_col t)))"
    "wp (move_backward_tabs t m) (\<lambda>u. term_inv n w u \<and>
      cpos (cur u) = Pos (cur_row t) ((prev_stop (tabs t) ^^ m) (cur_col t)))"
    using move_forward_stops [of "cur_col t" "tabs t" m] move_backward_stops [of "cur_col t" "tabs t" m] pos(5) tabs
    by (simp_all add: move_forward_tabs_def move_backward_tabs_def term_inv_dims(3) [OF assms])
  have mark: "wp (if m \<noteq> 0 then damage_line u (cur_row t) else Some u) (\<lambda>u. term_inv n w u \<and> cpos (cur u) = p)"
    if "term_inv n w u" "cpos (cur u) = p" for u p
    using that pos by (auto simp: wp_Some still_def intro!: damage_wps(1) [OF that(1)])
  assume nowrap: "\<not> should_wrap (cur t)"
  show "wp (put_tab t m) (\<lambda>u. term_inv n w u \<and>
      cpos (cur u) = Pos (cur_row t) ((next_stop (tabs t) ^^ m) (cur_col t)))"
    unfolding put_tab_def Let_def if_not_P [OF nowrap] wp_bind
    by (rule wp_mono [OF put_tab_stops [OF assms]]) (rule mark; simp)
qed

theorem tab_stops_witness:
  "\<exists>u. move_forward_tabs (fresh 24 80) 2 = Some u \<and> cpos (cur u) = Pos 0 16"
proof -
  have "next_stop (tabs_new 80) 0 = 8" "next_stop (tabs_new 80) 8 = 16" by code_simp+
  then show ?thesis
    using tab_stops [OF fresh_facts(2) [of 24 80], of 2] fresh_tables [of 24 80] fresh_facts(3) [of 24 80]
    by (auto simp: wp_iff numeral_2_eq_2)
qed

subsection \<open>Titles\<close>

text \<open>The stack of titles: popping brings back the title that was pushed last, whatever titles
  were set in between, and the stack is as it was unless it was full: it holds at most 4096
  titles, and pushing onto a full stack drops the oldest one. Popping from an empty stack
  changes nothing.\<close>

theorem title_stack_roundtrip:
  assumes "term_inv n w t"
  shows "cw_title (pop_title (set_title (push_title t) s)) = cw_title t \<and>
    title_stack (pop_title (set_title (push_title t) s)) =
      (if length (title_stack t) = TITLE_STACK_MAX_DEPTH then tl (title_stack t) else title_stack t) \<and>
    term_inv n w (push_title t) \<and> (title_stack t = [] \<longrightarrow> pop_title t = t)"
  using assms
  by (auto simp: push_title_def pop_title_def set_title_def term_inv_def TITLE_STACK_MAX_DEPTH_def Let_def)

theorem title_stack_roundtrip_witness:
  "cw_title (pop_title (set_title (push_title (fresh 24 80)) (Some [0x76, 0x69]))) = cw_title (fresh 24 80)"
  using title_stack_roundtrip [OF fresh_facts(2) [of 24 80]] by simp

end
