(* ===== verification/ScrollProps.thy ===== *)
theory ScrollProps
  imports EditProps
begin

text \<open>
  Properties of the functions that move whole lines: line feeds, scrolling, inserting and
  deleting lines, clearing the screen.
\<close>

subsection \<open>Scrolling relative to a line\<close>

lemma rotate_selection_sets:
  assumes "term_inv n w t"
  shows "\<exists>s. rotate_selection t r k = Some (t\<lparr>cw_selection := s\<rparr>)"
proof (cases "cw_selection t")
  case None
  then show ?thesis by (intro exI [of _ "cw_selection t"]) (simp add: rotate_selection_def)
next
  case (Some s)
  have "0 < columns (grid_dims (cgrid t))" using term_inv_dims(6) [OF assms] term_invD(4) [OF assms] by simp
  with Some show ?thesis
    using selection_rotate_total [of "grid_dims (cgrid t)" s r k] by (auto simp: rotate_selection_def)
qed

lemma marked_lines:
  assumes "term_inv n w t" "0 \<le> a" "b \<le> int n"
  shows "wp (damage_lines t [a..b - 1]) (\<lambda>u. \<exists>d. u = t\<lparr>damage := d\<rparr> \<and> term_inv n w u \<and>
    (\<forall>k. damaged d k \<longleftrightarrow> damaged (damage t) k \<or> a \<le> int k \<and> int k < b))"
proof -
  have "wp (foldM damage_line t ls) (\<lambda>u. \<exists>d. u = t\<lparr>damage := d\<rparr> \<and> term_inv n w u \<and>
      (\<forall>k. damaged d k \<longleftrightarrow> damaged (damage t) k \<or> int k \<in> set ls))"
    if "\<forall>l \<in> set ls. 0 \<le> l \<and> l < int n" for ls
    using that assms(1)
  proof (induction ls arbitrary: t)
    case Nil
    then show ?case by (auto simp: wp_Some intro!: exI [of _ "damage t"])
  next
    case (Cons l ls)
    from Cons.prems have l: "0 \<le> l" "l < int n" by auto
    from damaged_line [OF Cons.prems(2) l] obtain d where
      d: "damage_line t l = Some (t\<lparr>damage := d\<rparr>)" "term_inv n w (t\<lparr>damage := d\<rparr>)"
        "\<forall>k. damaged d k \<longleftrightarrow> damaged (damage t) k \<or> k = nat l" by blast
    from Cons.IH [of "t\<lparr>damage := d\<rparr>"] Cons.prems d(2) show ?case
      by (simp add: d(1)) (use d(3) l in \<open>auto simp: nat_eq_iff elim!: wp_mono\<close>)
  qed
  from this [of "[a..b - 1]"] assms(2,3) show ?thesis by (simp add: damage_lines_def)
qed

lemma on_grid_moved:
  assumes "term_inv n w t" "wp m (grid_moved (cgrid t) h f)"
  shows "wp (on_grid t m) (\<lambda>u. \<exists>g. u = t\<lparr>cgrid := g\<rparr> \<and> term_inv n w u \<and> grid_moved (cgrid t) h f g)"
  unfolding on_grid_def wp_map_option
  by (rule wp_mono [OF assms(2)])
    (use term_inv_grid [OF assms(1)] same_frame_grid_ok [OF term_inv_gridD [OF assms(1)]] in \<open>auto simp: grid_moved_def\<close>)

definition lines_up :: "crosswords \<Rightarrow> int \<Rightarrow> int \<Rightarrow> nat \<Rightarrow> int \<Rightarrow> square list" where
  \<comment> \<open>the lines \<open>a..b\<close> moved up by \<open>m\<close>; from the top of the screen, the history's with them\<close>
  "lines_up t a b m l =
     (if (a = 0 \<or> a \<le> l) \<and> l < b - int m then line_at t (l + int m)
      else if a \<le> l \<and> l < b then blank_line (cgrid t) else line_at t l)"

definition lines_down :: "crosswords \<Rightarrow> int \<Rightarrow> int \<Rightarrow> nat \<Rightarrow> int \<Rightarrow> square list" where
  "lines_down t a b m l =
     (if a + int m \<le> l \<and> l < b then line_at t (l - int m)
      else if a \<le> l \<and> l < b then blank_line (cgrid t) else line_at t l)"

definition screen_after :: "nat \<Rightarrow> nat \<Rightarrow> crosswords \<Rightarrow> nat \<Rightarrow> (int \<Rightarrow> square list) \<Rightarrow> crosswords \<Rightarrow> bool" where
  \<comment> \<open>\<open>h\<close> lines of history, the lines of \<open>f\<close>, and the cursor where it was\<close>
  "screen_after n w t h f u \<longleftrightarrow> term_inv n w u \<and> cur u = cur t \<and> grid_history (cgrid u) = h \<and>
     (\<forall>l. - int h \<le> l \<and> l < int n \<longrightarrow> line_at u l = f l)"

lemma screen_after_grid:
  "term_inv n w t \<Longrightarrow> grid_moved (cgrid t) h f g \<Longrightarrow> term_inv n w u \<Longrightarrow> cgrid u = g \<Longrightarrow> screen_after n w t h f u"
  by (auto simp: screen_after_def grid_moved_def same_frame_def has_line_def dest: term_invD(2))

definition history_after :: "crosswords \<Rightarrow> int \<Rightarrow> nat \<Rightarrow> nat" where
  "history_after t a m =
     (if a = 0 then min (grid_history (cgrid t) + m) (max_scroll_limit (cgrid t)) else grid_history (cgrid t))"

lemma scroll_up_relative_effect:
  fixes k :: nat
  assumes t: "term_inv n w t" "scroll_region t = (a, b)" and o: "a \<le> org" "org < b"
  defines "m \<equiv> min k (nat (b - a))"
  shows "wp (scroll_up_relative t org k) (\<lambda>u. screen_after n w t (history_after t org m) (lines_up t org b m) u \<and>
    (\<forall>l. org \<le> int l \<and> int l < b \<longrightarrow> damaged (damage u) l))"
proof -
  have r: "0 \<le> a" "b \<le> int n" using term_invD(11) [OF t(1)] t(2) by (simp_all add: region_ok_def)
  note wf = term_invD(1) [OF t(1)] and n = term_invD(2) [OF t(1)]
  have m: "min k (as_usize (b - a)) = m" using o by (simp add: m_def as_usize_nonneg)
  have up: "wp (Grid.scroll_up (cgrid t) (org, b) m) (grid_moved (cgrid t) (history_after t org m) (lines_up t org b m))"
  proof (cases "org = 0")
    case True
    then have "m \<le> nat b" "nat b \<le> g_lines (cgrid t)" "(org, b) = (0, int (nat b))" using o r n by (auto simp: m_def)
    moreover from this o True have "int m \<le> b" by simp
    ultimately show ?thesis
      using scroll_up_top [OF wf, of m "nat b"] True o
      by (auto simp: grid_moved_def lines_up_def history_after_def elim!: wp_mono)
  next
    case False
    with scroll_up_region [OF wf, of org b m] o r n show ?thesis
      by (auto simp: grid_moved_def lines_up_def history_after_def elim!: wp_mono)
  qed
  obtain s where s: "rotate_selection t (org, b) (int m) = Some (t\<lparr>cw_selection := s\<rparr>)"
    using rotate_selection_sets [OF t(1)] by blast
  let ?t = "t\<lparr>cw_selection := s\<rparr>"
  have "wp (on_grid ?t (Grid.scroll_up (cgrid t) (org, b) m)) (\<lambda>u. \<exists>g. u = ?t\<lparr>cgrid := g\<rparr> \<and> term_inv n w u \<and>
      grid_moved (cgrid t) (history_after t org m) (lines_up t org b m) g)"
    using on_grid_moved [where t = ?t, simplified, OF t(1) up] by simp
  moreover have "wp (damage_lines u [org..b - 1]) (\<lambda>v. screen_after n w t (history_after t org m) (lines_up t org b m)
      (overlays_moved v) \<and> (\<forall>l. org \<le> int l \<and> int l < b \<longrightarrow> damaged (damage (overlays_moved v)) l))"
    if "term_inv n w u" "grid_moved (cgrid t) (history_after t org m) (lines_up t org b m) (cgrid u)" for u
    using that o r
    by (auto elim!: wp_mono [OF marked_lines] intro!: screen_after_grid [OF t(1)] simp: overlays_moved_def)
  ultimately show ?thesis
    unfolding scroll_up_relative_def t(2) Let_def prod.case m s wp_bind wp_Some
    by (auto simp: wp_simps elim!: wp_mono)
qed

lemma full_damage [simp]: "damage (overlays_moved t) = damage t" "dm_full (damage (mark_fully_damaged t))"
  by (simp_all add: overlays_moved_def mark_fully_damaged_def send_def Let_def)

lemma scroll_down_relative_effect:
  fixes k :: nat
  assumes t: "term_inv n w t" "scroll_region t = (a, b)" and o: "a \<le> org" "org < b"
  defines "m \<equiv> min (min k (nat (b - a))) (nat (b - org))"
  shows "wp (scroll_down_relative t org k) (\<lambda>u. screen_after n w t (grid_history (cgrid t)) (lines_down t org b m) u \<and>
    dm_full (damage u))"
proof -
  have r: "0 \<le> a" "b \<le> int n" using term_invD(11) [OF t(1)] t(2) by (simp_all add: region_ok_def)
  note wf = term_invD(1) [OF t(1)] and n = term_invD(2) [OF t(1)]
  have m: "min (min k (as_usize (b - a))) (as_usize (b - org)) = m" using o by (simp add: m_def as_usize_nonneg)
  have down: "wp (Grid.scroll_down (cgrid t) (org, b) m) (grid_moved (cgrid t) (grid_history (cgrid t)) (lines_down t org b m))"
    using scroll_down_ok [OF wf, of org b m] o r n by (auto simp: grid_moved_def lines_down_def elim!: wp_mono)
  obtain s where s: "rotate_selection t (org, b) (- int m) = Some (t\<lparr>cw_selection := s\<rparr>)"
    using rotate_selection_sets [OF t(1)] by blast
  have step: "wp (on_grid u (Grid.scroll_down (cgrid u) (org, b) m))
      (\<lambda>u. screen_after n w t (grid_history (cgrid t)) (lines_down t org b m) (overlays_moved (mark_fully_damaged u)) \<and>
        dm_full (damage (overlays_moved (mark_fully_damaged u))))"
    if u: "term_inv n w u" "cgrid u = cgrid t" for u
  proof -
    have "wp (on_grid u (Grid.scroll_down (cgrid t) (org, b) m)) (\<lambda>v. \<exists>g. v = u\<lparr>cgrid := g\<rparr> \<and> term_inv n w v \<and>
        grid_moved (cgrid t) (grid_history (cgrid t)) (lines_down t org b m) g)"
      using on_grid_moved [OF u(1), unfolded u(2), OF down] .
    then show ?thesis
      unfolding u(2)
      by (rule wp_mono)
        (auto intro!: screen_after_grid [OF t(1)])
  qed
  show ?thesis
    unfolding scroll_down_relative_def t(2) Let_def prod.case m s wp_bind wp_Some
    by (rule step) (use t(1) in auto)
qed

lemma screen_after_still: "term_inv n w t \<Longrightarrow> screen_after n w t (grid_history (cgrid t)) (line_at t) t"
  by (simp add: screen_after_def)

subsection \<open>Line feeds\<close>

text \<open>C17. A line feed moves the cursor down one line, unless the cursor is on the last line of the
  scroll region, where the region scrolls up by one line instead (its first line goes to the
  history when the region starts at the top of the screen), or on the screen's last line below
  the region, where nothing happens. The column and a pending wrap are kept; every line that
  changes is damaged.\<close>

theorem linefeed_effect:
  assumes "term_inv n w t" "scroll_region t = (a, b)" "a < b"
  shows "wp (linefeed t) (\<lambda>u.
    if cur_row t + 1 = b then
      screen_after n w t (history_after t a 1) (lines_up t a b 1) u \<and>
      (\<forall>l. a \<le> int l \<and> int l < b \<longrightarrow> damaged (damage u) l)
    else if cur_row t + 1 < int n then
      term_inv n w u \<and> cur u = (cur t)\<lparr>cpos := Pos (cur_row t + 1) (cur_col t)\<rparr> \<and> lines_after t (line_at t) u \<and>
      damaged (damage u) (nat (cur_row t)) \<and> damaged (damage u) (nat (cur_row t + 1))
    else u = t)"
proof (cases "cur_row t + 1 = b")
  case True
  have "min 1 (nat (b - a)) = 1" using assms(3) by simp
  with scroll_up_relative_effect [OF assms(1,2) order_refl assms(3), of 1] True assms(2) show ?thesis
    by (simp add: linefeed_def Let_def)
next
  case False
  note pos = term_inv_pos [OF assms(1)]
  show ?thesis
  proof (cases "cur_row t + 1 < int n")
    case True
    have two: "wp (damage_line t (cur_row t)) (\<lambda>u. wp (damage_line (set_cur_row u (cur_row u + 1)) (cur_row u + 1))
      (\<lambda>v. term_inv n w v \<and> cur v = (cur t)\<lparr>cpos := Pos (cur_row t + 1) (cur_col t)\<rparr> \<and> lines_after t (line_at t) v \<and>
        damaged (damage v) (nat (cur_row t)) \<and> damaged (damage v) (nat (cur_row t + 1))))"
    proof (rule wp_mono [OF marked_line [OF assms(1) pos(3,4)]], elim exE conjE)
      fix u d
      assume u: "u = t\<lparr>damage := d\<rparr>" "term_inv n w u"
        "\<forall>k. damaged d k \<longleftrightarrow> damaged (damage t) k \<or> k = nat (cur_row t)"
      have row: "cur_row u = cur_row t" by (simp add: u(1))
      have "term_inv n w (set_cur_row u (cur_row t + 1))" using u(2) pos True by (intro term_wp) auto
      from marked_line [OF this, of "cur_row t + 1"] pos True
      show "wp (damage_line (set_cur_row u (cur_row u + 1)) (cur_row u + 1))
        (\<lambda>v. term_inv n w v \<and> cur v = (cur t)\<lparr>cpos := Pos (cur_row t + 1) (cur_col t)\<rparr> \<and> lines_after t (line_at t) v \<and>
          damaged (damage v) (nat (cur_row t)) \<and> damaged (damage v) (nat (cur_row t + 1)))"
        unfolding row
        by (auto elim!: wp_mono simp: u(1) set_cur_row_def with_cursor_def lines_after_def grid_line_def
            grid_history_raw) (use u(3) in auto)
    qed
    have "linefeed t = (damage_line t (cur_row t)) \<bind> (\<lambda>u. damage_line (set_cur_row u (cur_row u + 1)) (cur_row u + 1))"
      using False True assms(2) by (simp add: linefeed_def term_inv_dims(4) [OF assms(1)] damage_cursor_def Let_def)
    with two False True show ?thesis by (simp add: wp_bind)
  qed (use False assms(2) in \<open>simp add: linefeed_def term_inv_dims(4) [OF assms(1)] wp_Some\<close>)
qed

theorem linefeed_effect_witness:
  "\<exists>u. linefeed (fresh 24 80) = Some u \<and> cpos (cur u) = Pos 1 0"
  using linefeed_effect [OF fresh_facts(2,9) [of 24 80]] fresh_facts(3) [of 24 80]
  by (auto simp: wp_iff)

subsection \<open>Inserting, deleting and scrolling lines\<close>

text \<open>C18. Whole lines: with the cursor in the scroll region, deleting lines moves those below the
  cursor up and inserting lines moves them down, both between the cursor and the region's end
  with blank lines coming in; outside the region neither does anything; scrolling does the same
  for the whole region, and a reverse index on its first line scrolls it down by one. Deleting
  lines or scrolling up from the top of the screen pushes the lines into the history. The
  cursor does not move.\<close>

theorem whole_lines:
  assumes "term_inv n w t" "scroll_region t = (a, b)" "a < b"
  defines "r \<equiv> cur_row t"
  shows "(\<not> (a \<le> r \<and> r < b) \<longrightarrow> delete_lines t k = Some t \<and> insert_blank_lines t k = Some t) \<and>
    (a \<le> r \<and> r < b \<longrightarrow>
      wp (delete_lines t k) (\<lambda>u. let m = min (min (n - nat r) k) (nat (b - a)) in
        screen_after n w t (history_after t r m) (lines_up t r b m) u) \<and>
      wp (insert_blank_lines t k) (screen_after n w t (grid_history (cgrid t)) (lines_down t r b (min k (nat (b - r)))))) \<and>
    wp (Handlers.scroll_up t k) (let m = min k (nat (b - a)) in
      screen_after n w t (history_after t a m) (lines_up t a b m)) \<and>
    wp (Handlers.scroll_down t k) (screen_after n w t (grid_history (cgrid t)) (lines_down t a b (min k (nat (b - a))))) \<and>
    (r = a \<longrightarrow> wp (reverse_index t) (screen_after n w t (grid_history (cgrid t)) (lines_down t a b 1)))"
proof (intro conjI impI)
  note pos = term_inv_pos [OF assms(1)]
  note up = scroll_up_relative_effect [OF assms(1,2)] and down = scroll_down_relative_effect [OF assms(1,2)]
  have in': "in_region t r \<longleftrightarrow> a \<le> r \<and> r < b" by (simp add: in_region_def assms(2))
  have rest: "usub (screen_line_count t) (as_usize r) = Some (n - nat r)"
    using pos by (simp add: r_def term_inv_dims(4) [OF assms(1)] as_usize_nonneg usub_def nat_le_iff)
  show "\<not> (a \<le> r \<and> r < b) \<Longrightarrow> delete_lines t k = Some t" "\<not> (a \<le> r \<and> r < b) \<Longrightarrow> insert_blank_lines t k = Some t"
    using rest in' by (auto simp: delete_lines_def insert_blank_lines_def r_def [symmetric] Let_def)
  show "wp (delete_lines t k) (\<lambda>u. let m = min (min (n - nat r) k) (nat (b - a)) in
      screen_after n w t (history_after t r m) (lines_up t r b m) u)" if r: "a \<le> r \<and> r < b"
  proof (cases "min (n - nat r) k = 0")
    case True
    have "history_after t r 0 = grid_history (cgrid t)"
      using term_invD(1) [OF assms(1)] by (simp add: history_after_def grid_wf_def)
    moreover have "lines_up t r b 0 = line_at t" by (rule ext) (use r in \<open>auto simp: lines_up_def\<close>)
    moreover have "delete_lines t k = Some t"
      using rest True unfolding r_def by (auto simp: delete_lines_def Let_def)
    ultimately show ?thesis
      unfolding True using screen_after_still [OF assms(1)] by (simp add: wp_Some)
  next
    case False
    have "delete_lines t k = scroll_up_relative t r (min (n - nat r) k)"
      using rest in' r False unfolding r_def by (simp add: delete_lines_def Let_def)
    with up [of r "min (n - nat r) k"] r show ?thesis by (auto simp: Let_def elim!: wp_mono)
  qed
  show "wp (insert_blank_lines t k) (screen_after n w t (grid_history (cgrid t)) (lines_down t r b (min k (nat (b - r)))))"
    if r: "a \<le> r \<and> r < b"
  proof -
    have "min (min k (nat (b - a))) (nat (b - r)) = min k (nat (b - r))" using r by (auto simp: min_def)
    with down [of r k] r in' show ?thesis
      by (auto simp: insert_blank_lines_def r_def [symmetric] elim!: wp_mono)
  qed
  show "wp (Handlers.scroll_up t k) (let m = min k (nat (b - a)) in
      screen_after n w t (history_after t a m) (lines_up t a b m))"
    using up [of a k] assms(3) by (auto simp: Handlers.scroll_up_def assms(2) Let_def elim!: wp_mono)
  have "wp (Handlers.scroll_down t j) (screen_after n w t (grid_history (cgrid t)) (lines_down t a b (min j (nat (b - a)))))" for j
    using down [of a j] assms(3) by (auto simp: Handlers.scroll_down_def assms(2) elim!: wp_mono)
  note sd = this
  show "wp (Handlers.scroll_down t k) (screen_after n w t (grid_history (cgrid t)) (lines_down t a b (min k (nat (b - a)))))"
    by (rule sd)
  show "wp (reverse_index t) (screen_after n w t (grid_history (cgrid t)) (lines_down t a b 1))" if "r = a"
  proof -
    have "min 1 (nat (b - a)) = 1" using assms(3) by simp
    with sd [of 1] that show ?thesis by (simp add: reverse_index_def assms(2) r_def)
  qed
qed

theorem whole_lines_witness:
  "\<exists>u. Handlers.scroll_up (fresh 24 80) 3 = Some u \<and> grid_history (cgrid u) = 3 \<and> cur u = cur (fresh 24 80)"
  using whole_lines [OF fresh_facts(2,9) [of 24 80], of 3] fresh_facts(10,11) [of 24 80]
  by (auto simp: wp_iff Let_def screen_after_def history_after_def)

subsection \<open>Clearing the screen\<close>

lemma clear_rows:
  assumes t: "term_inv n w t" and a: "0 \<le> a" "a < int n" "b \<le> int n" "\<not> (a \<le> cur_row t \<and> cur_row t < b)"
    and f: "\<And>r. cells r = line_at t (cur_row t) \<Longrightarrow> wp (f r) (\<lambda>r'. cells r' = xs)" "length xs = w"
  defines "lines \<equiv> (\<lambda>l. if a \<le> l \<and> l < b then blank_line (cgrid t) else line_at t l)(cur_row t := xs)"
  shows "wp (on_grid t (reset_region (cgrid t) (a, b))) (\<lambda>u. wp (on_grid u (grid_modify_row (cgrid u) (cur_row t) f))
      (\<lambda>v. \<exists>g. v = t\<lparr>cgrid := g\<rparr> \<and> screen_after n w t (grid_history (cgrid t)) lines v))" (is ?first)
    and "wp (on_grid t (grid_modify_row (cgrid t) (cur_row t) f)) (\<lambda>u. wp (on_grid u (reset_region (cgrid u) (a, b)))
      (\<lambda>v. \<exists>g. v = t\<lparr>cgrid := g\<rparr> \<and> screen_after n w t (grid_history (cgrid t)) lines v))" (is ?second)
proof -
  note pos = term_inv_pos [OF t]
  have reset: "wp (on_grid u (reset_region (cgrid u) (a, b))) (\<lambda>v. \<exists>g. v = u\<lparr>cgrid := g\<rparr> \<and> term_inv n w v \<and>
      grid_moved (cgrid u) (grid_history (cgrid u)) (\<lambda>l. if a \<le> l \<and> l < b then blank_line (cgrid u) else line_at u l) g)"
    if u: "term_inv n w u" for u
  proof -
    have "wp (reset_region (cgrid u) (a, b)) (grid_moved (cgrid u) (grid_history (cgrid u))
        (\<lambda>l. if a \<le> l \<and> l < b then blank_line (cgrid u) else line_at u l))"
      using reset_region_ok [OF term_invD(1) [OF u], of a b] a term_invD(2) [OF u] by (auto elim!: wp_mono)
    from on_grid_moved [OF u this] show ?thesis .
  qed
  have row: "wp (on_grid u (grid_modify_row (cgrid u) (cur_row t) f)) (\<lambda>v. \<exists>g. v = u\<lparr>cgrid := g\<rparr> \<and> term_inv n w v \<and>
      same_frame (cgrid u) g \<and> lines_after u ((line_at u)(cur_row t := xs)) v)"
    if u: "term_inv n w u" "line_at u (cur_row t) = line_at t (cur_row t)" for u
    using row_effect [where f = f, OF u(1) screen_has_line [OF u(1) pos(3,4)], of xs] f u(2) by (auto simp: wp_iff)
  have dims: "g_lines (cgrid u) = n" if "term_inv n w u" for u using term_invD(2) [OF that] .
  show ?first
  proof (rule wp_mono [OF reset [OF t]], elim exE conjE)
    fix u g
    assume u: "u = t\<lparr>cgrid := g\<rparr>" "term_inv n w u"
      "grid_moved (cgrid t) (grid_history (cgrid t)) (\<lambda>l. if a \<le> l \<and> l < b then blank_line (cgrid t) else line_at t l) g"
    then have "line_at u (cur_row t) = line_at t (cur_row t)"
      using a(4) screen_has_line [OF u(2) pos(3,4)] by (auto simp: grid_moved_def)
    from row [OF u(2) this]
    show "wp (on_grid u (grid_modify_row (cgrid u) (cur_row t) f))
        (\<lambda>v. \<exists>g. v = t\<lparr>cgrid := g\<rparr> \<and> screen_after n w t (grid_history (cgrid t)) lines v)"
      by (rule wp_mono) (use u dims [OF u(2)] in
        \<open>auto simp: screen_after_def grid_moved_def same_frame_def lines_after_def has_line_def lines_def\<close>)
  qed
  show ?second
  proof (rule wp_mono [OF row [OF t refl]], elim exE conjE)
    fix u g
    assume u: "u = t\<lparr>cgrid := g\<rparr>" "term_inv n w u" "same_frame (cgrid t) g" "lines_after t ((line_at t)(cur_row t := xs)) u"
    have blank: "blank_line (cgrid u) = blank_line (cgrid t)" using same_frame_blank [OF u(3)] u(1) by simp
    from reset [OF u(2)]
    show "wp (on_grid u (reset_region (cgrid u) (a, b)))
        (\<lambda>v. \<exists>g. v = t\<lparr>cgrid := g\<rparr> \<and> screen_after n w t (grid_history (cgrid t)) lines v)"
      by (rule wp_mono) (use u(1,3,4) a(4) blank dims [OF u(2)] dims [OF t] in
        \<open>auto simp: screen_after_def grid_moved_def same_frame_def lines_after_def has_line_def lines_def\<close>)
  qed
qed

lemma clear_to: "k \<le> length xs \<Longrightarrow> cells r = xs \<Longrightarrow>
    wp (row_index_mut_to r k (\<lambda>_. b)) (\<lambda>r'. cells r' = replicate k b @ drop k xs)"
  by (simp add: row_index_mut_to_def map_range_def wp_simps map_replicate_const)

lemma clear_from: "k \<le> length xs \<Longrightarrow> cells r = xs \<Longrightarrow>
    wp (row_index_mut_from r k (\<lambda>_. b)) (\<lambda>r'. cells r' = take k xs @ replicate (length xs - k) b)"
  by (simp add: row_index_mut_from_def map_range_def wp_simps map_replicate_const)

lemma finish_clear:
  assumes "term_inv n w t" "0 \<le> a" "b \<le> int n" "screen_after n w t h f u"
  shows "wp (damage_lines u [a..b - 1]) (\<lambda>v. screen_after n w t h f (overlays_moved v) \<and>
    (\<forall>l. a \<le> int l \<and> int l < b \<longrightarrow> damaged (damage (overlays_moved v)) l))"
proof -
  have "term_inv n w u" using assms(4) by (simp add: screen_after_def)
  from marked_lines [OF this assms(2,3)] show ?thesis
    by (rule wp_mono) (use assms(4) in \<open>auto simp: screen_after_def\<close>)
qed

definition cleared :: "crosswords \<Rightarrow> int \<Rightarrow> int \<Rightarrow> square list \<Rightarrow> int \<Rightarrow> square list" where
  \<comment> \<open>the lines \<open>a..b\<close> are blank and the cursor's line is \<open>xs\<close>\<close>
  "cleared t a b xs = (\<lambda>l. if a \<le> l \<and> l < b then blank_line (cgrid t) else line_at t l)(cur_row t := xs)"

lemma cleared_none: "cleared t a a xs = (line_at t)(cur_row t := xs)"
  by (rule ext) (simp add: cleared_def)

definition with_styles :: "crosswords \<Rightarrow> style_set \<Rightarrow> crosswords" where
  \<comment> \<open>the terminal after the cursor's background was interned\<close>
  "with_styles t s = t\<lparr>cgrid := (cgrid t)\<lparr>g_style_set := s\<rparr>\<rparr>"

lemma with_styles_same:
  "cur_row (with_styles t s) = cur_row t" "grid_history (cgrid (with_styles t s)) = grid_history (cgrid t)"
  "line_at (with_styles t s) l = line_at t l" "cur_col (with_styles t s) = cur_col t"
  "screen_after n w (with_styles t s) h (cleared (with_styles t s) a b xs) = screen_after n w t h (cleared t a b xs)"
  by (auto simp: with_styles_def grid_line_def grid_history_raw screen_after_def cleared_def blank_line_def
      grid_template_def fun_eq_iff cong: if_cong)

lemma clear_frame:
  assumes "term_inv n w t"
  obtains s where "current_blank t = (with_styles t s, blank_of t)" "term_inv n w (with_styles t s)"
  using current_blank_eq [OF assms] by (auto simp: with_styles_def)

lemma clear_one_row:
  assumes "term_inv n w t" "term_inv n w (with_styles t s)"
    and "\<And>v. cells v = line_at t (cur_row t) \<Longrightarrow> wp (f v) (\<lambda>v'. cells v' = xs)" "length xs = w"
  shows "wp (on_grid (with_styles t s) (grid_modify_row (cgrid (with_styles t s)) (cur_row t) f))
    (screen_after n w t (grid_history (cgrid t)) (cleared t e e xs))"
proof -
  let ?s = "with_styles t s" and ?r = "cur_row t"
  have l: "has_line (cgrid ?s) ?r" using screen_has_line [OF assms(2)] term_inv_pos [OF assms(1)] by simp
  obtain g where "on_grid ?s (grid_modify_row (cgrid ?s) ?r f) = Some (?s\<lparr>cgrid := g\<rparr>)"
    "term_inv n w (?s\<lparr>cgrid := g\<rparr>)" "same_frame (cgrid ?s) g" "lines_after ?s ((line_at ?s)(?r := xs)) (?s\<lparr>cgrid := g\<rparr>)"
    using row_effect [where f = f, OF assms(2) l, of xs] assms(3,4) unfolding with_styles_same by blast
  then show ?thesis
    using term_invD(2) [OF assms(1)]
    by (auto simp: wp_Some screen_after_def lines_after_def cleared_none same_frame_def has_line_def grid_line_def
        grid_history_raw with_styles_def)
qed

lemma clear_damage:
  assumes "term_inv n w t" "screen_after n w t h f u" "0 \<le> a" "b \<le> int n"
  shows "wp (damage_lines (filter_selection u x y) [a..b - 1]) (\<lambda>v. screen_after n w t h f (overlays_moved v))"
  using finish_clear [OF assms(1,3,4), where u = "filter_selection u x y" and h = h and f = f] assms(2)
  by (auto simp: screen_after_def filter_selection_def elim!: wp_mono)

lemma clear_above_effect:
  assumes "term_inv n w t"
  defines "r \<equiv> cur_row t" and "c \<equiv> cur_col t" and "L \<equiv> line_at t (cur_row t)" and "h \<equiv> grid_history (cgrid t)"
  shows "wp (clear_screen t ClearAbove) (screen_after n w t h
    (cleared t 0 (if r = 1 then 0 else r) (replicate (c + 1) (blank_of t) @ drop (c + 1) L)))"
proof -
  have len: "length L = w" using cursor_line_length [OF assms(1)] by (simp add: L_def)
  have r: "0 \<le> r" "r < int n" "c < w" and pos: "0 < n" using term_inv_pos [OF assms(1)] by (simp_all add: r_def c_def)
  obtain s where s: "current_blank t = (with_styles t s, blank_of t)" (is "_ = (?s, _)") "term_inv n w (with_styles t s)"
    using clear_frame [OF assms(1)] .
  have same: "cur_row ?s = r" "grid_history (cgrid ?s) = h" "line_at ?s r = L" "cur_col ?s = c"
    by (simp_all add: with_styles_same r_def h_def L_def c_def)
  note rows = clear_rows [OF s(2), folded cleared_def, unfolded same with_styles_same(5)]
  note row_only = clear_one_row [OF assms(1) s(2), folded r_def L_def h_def]
  have dims: "grid_col_count u = w" "screen_line_count u = n" if "term_inv n w u" for u
    using term_inv_dims(3,4) [OF that] .
  let ?f = "\<lambda>v. row_index_mut_to v (c + 1) (\<lambda>_. blank_of t)" and ?xs = "replicate (c + 1) (blank_of t) @ drop (c + 1) L"
  have f: "cells v = L \<Longrightarrow> wp (?f v) (\<lambda>v'. cells v' = ?xs)" "length ?xs = w" for v
    using clear_to [of "c + 1" L v "blank_of t"] r len by auto
  let ?g = "\<lambda>u. on_grid u (grid_modify_row (cgrid u) r (\<lambda>v. row_index_mut_to v (min (c + 1) (grid_col_count u)) (\<lambda>_. blank_of t)))"
  have mod: "?g u = on_grid u (grid_modify_row (cgrid u) r ?f)" if "grid_col_count u = w" for u
    using that r by (simp add: min_absorb1)
  have main: "wp (if r > 1 then on_grid ?s (reset_region (cgrid ?s) (0, r)) else Some ?s)
      (\<lambda>u. wp (?g u) (screen_after n w t h (cleared t 0 (if r = 1 then 0 else r) ?xs)))"
  proof (cases "r > 1")
    case True
    have cols: "wp (on_grid ?s (reset_region (cgrid ?s) (0, r))) (\<lambda>u. grid_col_count u = w)"
      by (rule grid_frame_wp(1) [OF s(2) refl]) (use r dims in auto)
    have "wp (on_grid ?s (reset_region (cgrid ?s) (0, r))) (\<lambda>u. wp (on_grid u (grid_modify_row (cgrid u) r ?f))
        (screen_after n w t h (cleared t 0 r ?xs)))"
      using rows(1) [of 0 r ?f ?xs] f r by (auto elim!: wp_mono)
    from wp_conj [OF cols this] have "wp (on_grid ?s (reset_region (cgrid ?s) (0, r))) (\<lambda>u. wp (?g u)
        (screen_after n w t h (cleared t 0 r ?xs)))"
      by (rule wp_mono) (use mod in metis)
    with True show ?thesis by simp
  next
    case False
    have core: "wp (on_grid ?s (grid_modify_row (cgrid ?s) r ?f)) (screen_after n w t h (cleared t 0 0 ?xs))"
      using row_only [of ?f ?xs 0] f by blast
    have e: "(if r = 1 then 0 else r) = 0" using False r by auto
    show ?thesis unfolding e if_not_P [OF False] wp_Some mod [OF dims(1) [OF s(2)]] by (rule core)
  qed
  show ?thesis
    unfolding clear_screen_def s(1) prod.case Let_def clear_mode.case clear_above_def same wp_bind wp_Some
  proof (rule wp_mono [OF main], erule wp_mono)
    fix u
    assume u: "screen_after n w t h (cleared t 0 (if r = 1 then 0 else r) ?xs) u"
    then have "[0..int (as_usize (cur_row (filter_selection u 0 r)))] = [0..(r + 1) - 1]"
      using r by (simp add: screen_after_def filter_selection_def r_def as_usize_nonneg)
    with clear_damage [OF assms(1) u order_refl, of "r + 1" 0 r] r
    show "wp (damage_lines (filter_selection u 0 r) [0..int (as_usize (cur_row (filter_selection u 0 r)))])
        (\<lambda>v. screen_after n w t h (cleared t 0 (if r = 1 then 0 else r) ?xs) (overlays_moved v))" by simp
  qed
qed

lemma clear_below_effect:
  assumes "term_inv n w t"
  defines "r \<equiv> cur_row t" and "c \<equiv> cur_col t" and "L \<equiv> line_at t (cur_row t)" and "h \<equiv> grid_history (cgrid t)"
  shows "wp (clear_screen t ClearBelow) (screen_after n w t h
    (cleared t (r + 1) (int n) (take c L @ replicate (w - c) (blank_of t))))"
proof -
  have len: "length L = w" using cursor_line_length [OF assms(1)] by (simp add: L_def)
  have r: "0 \<le> r" "r < int n" "c < w" and pos: "0 < n" using term_inv_pos [OF assms(1)] by (simp_all add: r_def c_def)
  obtain s where s: "current_blank t = (with_styles t s, blank_of t)" (is "_ = (?s, _)") "term_inv n w (with_styles t s)"
    using clear_frame [OF assms(1)] .
  have same: "cur_row ?s = r" "grid_history (cgrid ?s) = h" "line_at ?s r = L" "cur_col ?s = c"
    by (simp_all add: with_styles_same r_def h_def L_def c_def)
  note rows = clear_rows [OF s(2), folded cleared_def, unfolded same with_styles_same(5)]
  note row_only = clear_one_row [OF assms(1) s(2), folded r_def L_def h_def]
  have dims: "grid_col_count u = w" "screen_line_count u = n" if "term_inv n w u" for u
    using term_inv_dims(3,4) [OF that] .
  let ?f = "\<lambda>v. row_index_mut_from v c (\<lambda>_. blank_of t)" and ?xs = "take c L @ replicate (w - c) (blank_of t)"
  let ?g = "\<lambda>u. if as_usize r < n - 1 then on_grid u (reset_region (cgrid u) (r + 1, int n)) else Some u"
  have f: "cells v = L \<Longrightarrow> wp (?f v) (\<lambda>v'. cells v' = ?xs)" "length ?xs = w" for v
    using clear_from [of c L v "blank_of t"] r len by auto
  have main: "wp (on_grid ?s (grid_modify_row (cgrid ?s) r ?f)) (\<lambda>u. wp (?g u) (screen_after n w t h (cleared t (r + 1) (int n) ?xs)))"
  proof (cases "as_usize r < n - 1")
    case True
    then have "r + 1 < int n" using r by (simp add: as_usize_nonneg)
    with rows(2) [of "r + 1" "int n" ?f ?xs] f r True show ?thesis by (auto elim!: wp_mono)
  next
    case False
    then have "r + 1 = int n" using r by (simp add: as_usize_nonneg)
    with row_only [of ?f ?xs "int n"] f False show ?thesis by (simp add: wp_Some)
  qed
  have u1: "wp (usub n 1) P = P (n - 1)" for P using pos by (simp add: wp_usub)
  have fin: "wp (damage_lines (filter_selection u r (int n - 1))
        [int (as_usize (cur_row (filter_selection u r (int n - 1))))..int (screen_line_count (filter_selection u r (int n - 1))) - 1])
        (\<lambda>v. screen_after n w t h (cleared t (r + 1) (int n) ?xs) (overlays_moved v))"
    if u: "screen_after n w t h (cleared t (r + 1) (int n) ?xs) u" for u
  proof -
    have "[int (as_usize (cur_row (filter_selection u r (int n - 1))))..int (screen_line_count (filter_selection u r (int n - 1))) - 1] =
        [r..int n - 1]"
      using u r dims(2) [of u] by (simp add: screen_after_def filter_selection_def r_def as_usize_nonneg screen_line_count_def)
    with clear_damage [OF assms(1) u r(1) order_refl, of r "int n - 1"] show ?thesis by simp
  qed
  show ?thesis
    unfolding clear_screen_def s(1) prod.case Let_def clear_mode.case clear_below_def same wp_bind wp_Some dims(2) [OF s(2)] u1
    by (rule wp_mono [OF main], erule wp_mono) (rule fin)
qed

text \<open>C39. Clearing above the cursor blanks the cursor's line up to and including the cursor and the
  lines above it, and clearing below blanks the line from the cursor on and the lines below; the
  history, the cursor and all other cells stay. With the cursor on the second line, clearing
  above leaves the first line as it was.\<close>

theorem clear_screen_parts:
  assumes "term_inv n w t"
  defines "r \<equiv> cur_row t" and "c \<equiv> cur_col t" and "L \<equiv> line_at t (cur_row t)" and "h \<equiv> grid_history (cgrid t)"
  shows "wp (clear_screen t ClearAbove) (screen_after n w t h
      (cleared t 0 (if r = 1 then 0 else r) (replicate (c + 1) (blank_of t) @ drop (c + 1) L))) \<and>
    wp (clear_screen t ClearBelow) (screen_after n w t h
      (cleared t (r + 1) (int n) (take c L @ replicate (w - c) (blank_of t))))"
  unfolding assms(2-5) using clear_above_effect [OF assms(1)] clear_below_effect [OF assms(1)] by blast

theorem clear_screen_parts_witness:
  "\<exists>t u. goto (fresh 24 80) 1 0 = Some t \<and> clear_screen t ClearAbove = Some u \<and> line_at u 0 = line_at t 0"
proof -
  note f = fresh_facts(2) [of 24 80, simplified]
  obtain t where t: "goto (fresh 24 80) 1 0 = Some t" "term_inv 24 80 t" "cpos (cur t) = Pos 1 0"
    using goto_effect [OF f, of 1 0] fresh_origin
    by (auto simp: wp_iff moved_to_def goto_row_def term_inv_dims(4) [OF f])
  with clear_screen_parts [OF t(2)] show ?thesis
    by (auto simp: wp_iff screen_after_def cleared_def)
qed

end
