(* ===== verification/PerfParse.thy ===== *)
theory PerfParse
  imports Handlers2 Copa
begin

text \<open>
  \<open>performer/handler.rs\<close>, the functions of the dispatcher that only compute: colours, numbers, the
  attributes of SGR, XTGETTCAP requests, and \<open>simd_utf8.rs\<close>. A function that can panic returns an
  option around its result. A Rust string is the list of its characters where the code looks at
  characters, and the list of its UTF-8 bytes where it only compares, splits at ASCII or parses.
\<close>

subsection \<open>Texts\<close>

definition from_utf8_fast :: "text_lib \<Rightarrow> u8 list \<Rightarrow> rstring option" where
  "from_utf8_fast lib bs = (if basic_from_utf8 lib bs then Some (utf8_chars bs) else None)"

function utf8_lossy :: "u8 list \<Rightarrow> rstring" where
  \<comment> \<open>\<open>String::from_utf8_lossy\<close>: a replacement character for each maximal broken part\<close>
  "utf8_lossy bs =
     (if bs = [] then []
      else case utf8_step bs of
        Valid n \<Rightarrow> code_point (take n bs) # utf8_lossy (drop n bs)
      | Invalid n \<Rightarrow> 0xFFFD # utf8_lossy (drop n bs)
      | Incomplete \<Rightarrow> [0xFFFD])"
  by pat_completeness auto
termination
  by (relation "measure length") (auto dest!: utf8_step_Valid utf8_step_Invalid)

declare utf8_lossy.simps [simp del]

definition from_utf8_lossy_fast :: "text_lib \<Rightarrow> u8 list \<Rightarrow> rstring" where
  "from_utf8_lossy_fast lib bs = (if basic_from_utf8 lib bs then utf8_chars bs else utf8_lossy bs)"

definition std_utf8_or_empty :: "u8 list \<Rightarrow> rstring" where
  \<comment> \<open>\<open>std::str::from_utf8(..).unwrap_or_default()\<close>\<close>
  "std_utf8_or_empty bs = (if std_from_utf8 bs = Utf8Ok then utf8_chars bs else [])"

definition is_whitespace :: "rchar \<Rightarrow> bool" where
  \<comment> \<open>\<open>char::is_whitespace\<close>\<close>
  "is_whitespace c \<longleftrightarrow> (9 \<le> c \<and> c \<le> 13) \<or> c = 0x20 \<or> c = 0x85 \<or> c = 0xA0 \<or> c = 0x1680 \<or>
     (0x2000 \<le> c \<and> c \<le> 0x200A) \<or> c = 0x2028 \<or> c = 0x2029 \<or> c = 0x202F \<or> c = 0x205F \<or> c = 0x3000"

definition str_trim :: "rstring \<Rightarrow> rstring" where
  "str_trim s = rev (dropWhile is_whitespace (rev (dropWhile is_whitespace s)))"

fun str_join :: "rstring \<Rightarrow> rstring list \<Rightarrow> rstring" where
  "str_join sep [] = []"
| "str_join sep [s] = s"
| "str_join sep (s # ss) = s @ sep @ str_join sep ss"

fun split_bytes :: "u8 \<Rightarrow> u8 list \<Rightarrow> u8 list list" where
  \<comment> \<open>\<open>slice.split(|&b| b == sep)\<close>\<close>
  "split_bytes sep [] = [[]]"
| "split_bytes sep (b # bs) =
     (if b = sep then [] # split_bytes sep bs
      else (case split_bytes sep bs of [] \<Rightarrow> [[b]] | x # xs \<Rightarrow> (b # x) # xs))"

definition bytes_of :: "string \<Rightarrow> u8 list" where
  \<comment> \<open>a byte-string literal\<close>
  "bytes_of s = map of_char s"

definition string_of :: "u8 list \<Rightarrow> string" where
  \<comment> \<open>the bytes as characters of eight bits\<close>
  "string_of bs = map (\<lambda>b. char_of (unat b)) bs"

subsection \<open>Numbers and colours\<close>

definition hex_value :: "u8 \<Rightarrow> nat option" where
  "hex_value b =
     (if 0x30 \<le> b \<and> b \<le> 0x39 then Some (unat b - 48)
      else if 0x41 \<le> b \<and> b \<le> 0x46 then Some (unat b - 55)
      else if 0x61 \<le> b \<and> b \<le> 0x66 then Some (unat b - 87)
      else None)"

fun hex_digits :: "nat \<Rightarrow> nat \<Rightarrow> u8 list \<Rightarrow> nat option" where
  \<comment> \<open>with overflow at the limit\<close>
  "hex_digits limit n [] = Some n"
| "hex_digits limit n (b # bs) =
     (case hex_value b of
        None \<Rightarrow> None
      | Some d \<Rightarrow> if n * 16 + d < limit then hex_digits limit (n * 16 + d) bs else None)"

definition from_str_radix16 :: "nat \<Rightarrow> u8 list \<Rightarrow> nat option" where
  \<comment> \<open>\<open>from_str_radix(.., 16)\<close> of an unsigned type below \<open>limit\<close>: an optional plus sign, then digits\<close>
  "from_str_radix16 limit s =
     (case s of
        [] \<Rightarrow> None
      | [b] \<Rightarrow> if b = 0x2B \<or> b = 0x2D then None else hex_digits limit 0 s
      | b # bs \<Rightarrow> if b = 0x2B then hex_digits limit 0 bs else hex_digits limit 0 s)"

fun parse_decimal :: "u8 \<Rightarrow> u8 list \<Rightarrow> u8 option" where
  "parse_decimal n [] = Some n"
| "parse_decimal n (b # bs) =
     (if 0x30 \<le> b \<and> b \<le> 0x39
      then (if unat n * 10 + (unat b - 48) < 256 then parse_decimal (n * 10 + (b - 48)) bs else None)
      else None)"

definition parse_number :: "u8 list \<Rightarrow> u8 option" where
  "parse_number inp = (if inp = [] then None else parse_decimal 0 inp)"

definition scale_color :: "u8 list \<Rightarrow> u8 option" where
  "scale_color inp =
     (if length inp > 4 then None
      else map_option (\<lambda>v. word_of_nat (255 * v div (16 ^ length inp - 1))) (from_str_radix16 (2 ^ 32) inp))"

definition parse_rgb_color :: "text_lib \<Rightarrow> u8 list \<Rightarrow> color_rgb option" where
  "parse_rgb_color lib color =
     (if \<not> basic_from_utf8 lib color then None
      else (case split_bytes 0x2F color of
        [a, b, c] \<Rightarrow> do {
          r \<leftarrow> scale_color a;
          g \<leftarrow> scale_color b;
          b \<leftarrow> scale_color c;
          Some \<lparr>rgb_r = r, rgb_g = g, rgb_b = b\<rparr>
        }
      | _ \<Rightarrow> None))"

definition color_from_slice :: "text_lib \<Rightarrow> u8 list \<Rightarrow> u8 option option" where
  \<comment> \<open>the shift by 64 bits or more panics\<close>
  "color_from_slice lib piece =
     (if \<not> basic_from_utf8 lib piece then Some None
      else (case from_str_radix16 (2 ^ 64) piece of
        None \<Rightarrow> Some None
      | Some v \<Rightarrow> do {
          check (4 * (length piece - 1) < 64);
          Some (Some (word_of_nat ((v * 16) mod 2 ^ 64 div 2 ^ (4 * (length piece - 1)))))
        }))"

definition parse_legacy_color :: "text_lib \<Rightarrow> u8 list \<Rightarrow> color_rgb option option" where
  "parse_legacy_color lib color =
     (let n = length color div 3 in do {
        r \<leftarrow> color_from_slice lib (take n color);
        case r of None \<Rightarrow> Some None | Some r \<Rightarrow> do {
          g \<leftarrow> color_from_slice lib (take n (drop n color));
          case g of None \<Rightarrow> Some None | Some g \<Rightarrow> do {
            b \<leftarrow> color_from_slice lib (drop (n * 2) color);
            Some (map_option (\<lambda>b. \<lparr>rgb_r = r, rgb_g = g, rgb_b = b\<rparr>) b)
          }
        }
      })"

definition xparse_color :: "text_lib \<Rightarrow> u8 list \<Rightarrow> color_rgb option option" where
  "xparse_color lib color =
     (if color \<noteq> [] \<and> hd color = 0x23 then parse_legacy_color lib (tl color)
      else if length color \<ge> 4 \<and> take 4 color = bytes_of ''rgb:'' then Some (parse_rgb_color lib (drop 4 color))
      else Some None)"

subsection \<open>SGR\<close>

text \<open>An iterator over parameters is the list of the groups that are left; \<open>param[0]\<close> panics on an
  empty group. The single values of \<open>handle_colon_rgb\<close> are groups of one.\<close>

definition next_value :: "u16 list list \<Rightarrow> (u16 option \<times> u16 list list) option" where
  "next_value gs = (case gs of [] \<Rightarrow> Some (None, []) | g # gs \<Rightarrow> map_option (\<lambda>x. (Some x, gs)) (idx g 0))"

definition next_u8 :: "u16 list list \<Rightarrow> (u8 option \<times> u16 list list) option" where
  \<comment> \<open>\<open>u8::try_from(params.next()?).ok()?\<close>\<close>
  "next_u8 gs = map_option (\<lambda>(x, gs). (Option.bind x (\<lambda>x. if x < 256 then Some (ucast x) else None), gs)) (next_value gs)"

definition parse_sgr_color :: "u16 list list \<Rightarrow> (ansi_color option \<times> u16 list list) option" where
  "parse_sgr_color gs = do {
     (kind, gs) \<leftarrow> next_value gs;
     if kind = Some 2 then do {
       (r, gs) \<leftarrow> next_u8 gs;
       case r of None \<Rightarrow> Some (None, gs) | Some r \<Rightarrow> do {
         (g, gs) \<leftarrow> next_u8 gs;
         case g of None \<Rightarrow> Some (None, gs) | Some g \<Rightarrow> do {
           (b, gs) \<leftarrow> next_u8 gs;
           Some (map_option (\<lambda>b. Spec \<lparr>rgb_r = r, rgb_g = g, rgb_b = b\<rparr>) b, gs)
         }
       }
     }
     else if kind = Some 5 then do {
       (i, gs) \<leftarrow> next_u8 gs;
       Some (map_option Indexed i, gs)
     }
     else Some (None, gs)
   }"

definition handle_colon_rgb :: "u16 list \<Rightarrow> ansi_color option option" where
  "handle_colon_rgb ps = do {
     let rgb_start = (if length ps > 4 then 2 else 1);
     check (rgb_start \<le> length ps);
     kind \<leftarrow> idx ps 0;
     (c, _) \<leftarrow> parse_sgr_color (map (\<lambda>x. [x]) (kind # drop rgb_start ps));
     Some c
   }"

definition sgr_table :: "(u16 \<times> attr) list" where
  \<comment> \<open>the parameters without subparameters that stand for themselves\<close>
  "sgr_table =
     [(0, AttrReset), (1, AttrBold), (2, AttrDim), (3, AttrItalic), (4, AttrUnderline), (5, AttrBlinkSlow),
      (6, AttrBlinkFast), (7, AttrReverse), (8, AttrHidden), (9, AttrStrike), (21, AttrCancelBold),
      (22, AttrCancelBoldDim), (23, AttrCancelItalic), (24, AttrCancelUnderline), (25, AttrCancelBlink),
      (27, AttrCancelReverse), (28, AttrCancelHidden), (29, AttrCancelStrike),
      (30, AttrForeground (Named Black)), (31, AttrForeground (Named Red)),
      (32, AttrForeground (Named Green)), (33, AttrForeground (Named Yellow)),
      (34, AttrForeground (Named Blue)), (35, AttrForeground (Named Magenta)),
      (36, AttrForeground (Named Cyan)), (37, AttrForeground (Named White)),
      (39, AttrForeground (Named Foreground)),
      (40, AttrBackground (Named Black)), (41, AttrBackground (Named Red)),
      (42, AttrBackground (Named Green)), (43, AttrBackground (Named Yellow)),
      (44, AttrBackground (Named Blue)), (45, AttrBackground (Named Magenta)),
      (46, AttrBackground (Named Cyan)), (47, AttrBackground (Named White)),
      (49, AttrBackground (Named Background)), (59, AttrUnderlineColor None),
      (90, AttrForeground (Named LightBlack)), (91, AttrForeground (Named LightRed)),
      (92, AttrForeground (Named LightGreen)), (93, AttrForeground (Named LightYellow)),
      (94, AttrForeground (Named LightBlue)), (95, AttrForeground (Named LightMagenta)),
      (96, AttrForeground (Named LightCyan)), (97, AttrForeground (Named LightWhite)),
      (100, AttrBackground (Named LightBlack)), (101, AttrBackground (Named LightRed)),
      (102, AttrBackground (Named LightGreen)), (103, AttrBackground (Named LightYellow)),
      (104, AttrBackground (Named LightBlue)), (105, AttrBackground (Named LightMagenta)),
      (106, AttrBackground (Named LightCyan)), (107, AttrBackground (Named LightWhite))]"

definition sgr_color_attr :: "u16 \<Rightarrow> (ansi_color \<Rightarrow> attr) option" where
  "sgr_color_attr n =
     (if n = 38 then Some AttrForeground else if n = 48 then Some AttrBackground
      else if n = 58 then Some (\<lambda>c. AttrUnderlineColor (Some c)) else None)"

definition sgr_underline :: "u16 list \<Rightarrow> attr" where
  \<comment> \<open>the arms of \<open>[4, ..]\<close>\<close>
  "sgr_underline ps =
     (if ps = [0] then AttrCancelUnderline else if ps = [2] then AttrDoubleUnderline
      else if ps = [3] then AttrUndercurl else if ps = [4] then AttrDottedUnderline
      else if ps = [5] then AttrDashedUnderline else AttrUnderline)"

definition sgr_attr :: "u16 list \<Rightarrow> u16 list list \<Rightarrow> (attr option \<times> u16 list list) option" where
  \<comment> \<open>one parameter, with the iterator it may read a colour from\<close>
  "sgr_attr grp gs =
     (case grp of
        [] \<Rightarrow> Some (None, gs)
      | [n] \<Rightarrow> (case sgr_color_attr n of
          Some f \<Rightarrow> map_option (\<lambda>(c, gs). (map_option f c, gs)) (parse_sgr_color gs)
        | None \<Rightarrow> Some (map_of sgr_table n, gs))
      | n # ps \<Rightarrow>
          if n = 4 then Some (Some (sgr_underline ps), gs)
          else (case sgr_color_attr n of
            Some f \<Rightarrow> map_option (\<lambda>c. (map_option f c, gs)) (handle_colon_rgb ps)
          | None \<Rightarrow> Some (None, gs)))"

lemma next_value_length: "next_value gs = Some (x, r) \<Longrightarrow> length r \<le> length gs"
  by (auto simp: next_value_def split: list.splits)

lemma next_u8_length: "next_u8 gs = Some (x, r) \<Longrightarrow> length r \<le> length gs"
  by (auto simp: next_u8_def dest: next_value_length)

lemma parse_sgr_color_length: "parse_sgr_color gs = Some (c, r) \<Longrightarrow> length r \<le> length gs"
  by (auto simp: parse_sgr_color_def bind_eq_Some_conv split: if_splits option.splits
      dest!: next_value_length next_u8_length)

lemma sgr_attr_length: "sgr_attr p gs = Some (a, r) \<Longrightarrow> length r \<le> length gs"
  by (auto simp: sgr_attr_def split: list.splits option.splits if_splits dest: parse_sgr_color_length)

function attrs_from_sgr_parameters :: "u16 list list \<Rightarrow> attr option list option" where
  "attrs_from_sgr_parameters gs =
     (case gs of
        [] \<Rightarrow> Some []
      | grp # rest \<Rightarrow> (case sgr_attr grp rest of
          None \<Rightarrow> None
        | Some (a, rest') \<Rightarrow> map_option (Cons a) (attrs_from_sgr_parameters rest')))"
  by pat_completeness auto
termination by (relation "measure length") (auto dest: sgr_attr_length)

declare attrs_from_sgr_parameters.simps [simp del]

subsection \<open>XTGETTCAP\<close>

text \<open>The table of the capabilities. An exclamation mark stands for the backslash of the source,
  which no value has otherwise.\<close>

definition termcap_1 :: "(string \<times> string) list" where
  "termcap_1 = [
     (''TN'', ''rio''), (''name'', ''rio''), (''Co'', ''256''), (''colors'', ''256''), (''pa'', ''32767''),
     (''pairs'', ''32767''), (''RGB'', ''8/8/8''), (''ccc'', []), (''co'', ''80''), (''cols'', ''80''),
     (''li'', ''24''), (''lines'', ''24''), (''it'', ''8''), (''OTbs'', []), (''bs'', []), (''am'', []),
     (''bce'', []), (''km'', []), (''mir'', []), (''msgr'', []), (''xenl'', []), (''xn'', []), (''AX'', []),
     (''XT'', []), (''XF'', []), (''hs'', []), (''ms'', []), (''mi'', []), (''mc5i'', []), (''npc'', []),
     (''sixel'', []), (''iterm2'', []), (''TK'', ''yes''), (''kitty'', ''yes''),
     (''cup'', ''!E[%i%p1%d;%p2%dH''), (''cm'', ''!E[%i%p1%d;%p2%dH''), (''cuu1'', ''!E[A''),
     (''up'', ''!E[A''), (''cud1'', ''!n''), (''do'', ''!n''), (''cuf1'', ''!E[C''), (''nd'', ''!E[C''),
     (''cub1'', ''^H''), (''le'', ''^H''), (''home'', ''!E[H''), (''ho'', ''!E[H''), (''cuu'', ''!E[%p1%dA''),
     (''UP'', ''!E[%p1%dA''), (''cud'', ''!E[%p1%dB''), (''DO'', ''!E[%p1%dB''), (''cuf'', ''!E[%p1%dC''),
     (''RI'', ''!E[%p1%dC''), (''cub'', ''!E[%p1%dD''), (''LE'', ''!E[%p1%dD''), (''hpa'', ''!E[%i%p1%dG''),
     (''vpa'', ''!E[%i%p1%dd''), (''clear'', ''!E[H!E[2J''), (''cl'', ''!E[H!E[2J''), (''el'', ''!E[K''),
     (''ce'', ''!E[K''), (''ed'', ''!E[J''), (''cd'', ''!E[J''), (''el1'', ''!E[1K''), (''E3'', ''!E[3J''),
     (''setaf'', ''!E[%?%p1%{8}%<%t3%p1%d%e%p1%{16}%<%t9%p1%{8}%-%d%e38;5;%p1%d%;m''),
     (''setab'', ''!E[%?%p1%{8}%<%t4%p1%d%e%p1%{16}%<%t10%p1%{8}%-%d%e48;5;%p1%d%;m''),
     (''setf'', ''!E[3%?%p1%{1}%=%t4%e%p1%{3}%=%t6%e%p1%{4}%=%t1%e%p1%{6}%=%t3%e%p1%d%;m''),
     (''setb'', ''!E[4%?%p1%{1}%=%t4%e%p1%{3}%=%t6%e%p1%{4}%=%t1%e%p1%{6}%=%t3%e%p1%d%;m''),
     (''op'', ''!E[39;49m''), (''oc'', ''!E]104!007''),
     (''initc'', ''!E]4;%p1%d;rgb!:%p2%{255}%*%{1000}%/%2.2X/%p3%{255}%*%{1000}%/%2.2X/%p4%{255}%*%{1000}%/%2.2X!E!!''),
     (''bold'', ''!E[1m''), (''md'', ''!E[1m''), (''dim'', ''!E[2m''), (''mh'', ''!E[2m''),
     (''smul'', ''!E[4m''), (''us'', ''!E[4m''), (''rmul'', ''!E[24m''), (''ue'', ''!E[24m''),
     (''rev'', ''!E[7m''), (''mr'', ''!E[7m''), (''smso'', ''!E[7m''), (''so'', ''!E[7m''),
     (''rmso'', ''!E[27m''), (''se'', ''!E[27m''), (''invis'', ''!E[8m''), (''blink'', ''!E[5m''),
     (''mb'', ''!E[5m''), (''sitm'', ''!E[3m''), (''ritm'', ''!E[23m''), (''smxx'', ''!E[9m''),
     (''rmxx'', ''!E[29m''), (''sgr0'', ''!E(B!E[m''), (''me'', ''!E(B!E[m''),
     (''sgr'', ''%?%p9%t!E(0%e!E(B%;!E[0%?%p6%t;1%;%?%p5%t;2%;%?%p2%t;4%;%?%p1%p3%|%t;7%;%?%p4%t;5%;%?%p7%t;8%;m''),
     (''smacs'', ''!E(0''), (''as'', ''!E(0''), (''rmacs'', ''!E(B''), (''ae'', ''!E(B''),
     (''acsc'', ''``aaffggiijjkkllmmnnooppqqrrssttuuvvwwxxyyzz{{||}}~~''), (''ich'', ''!E[%p1%d@''),
     (''IC'', ''!E[%p1%d@''), (''dch1'', ''!E[P''), (''dc'', ''!E[P''), (''dch'', ''!E[%p1%dP''),
     (''DC'', ''!E[%p1%dP''), (''il1'', ''!E[L''), (''al'', ''!E[L''), (''il'', ''!E[%p1%dL''),
     (''AL'', ''!E[%p1%dL''), (''dl1'', ''!E[M''), (''dl'', ''!E[%p1%dM''), (''DL'', ''!E[%p1%dM''),
     (''ech'', ''!E[%p1%dX''), (''ec'', ''!E[%p1%dX''), (''csr'', ''!E[%i%p1%d;%p2%dr''),
     (''cs'', ''!E[%i%p1%d;%p2%dr''), (''ri'', ''!EM''), (''sr'', ''!EM''), (''ind'', ''!n''),
     (''sf'', ''!n''), (''indn'', ''!E[%p1%dS''), (''SF'', ''!E[%p1%dS''), (''rin'', ''!E[%p1%dT''),
     (''SR'', ''!E[%p1%dT''), (''civis'', ''!E[?25l''), (''vi'', ''!E[?25l''),
     (''cnorm'', ''!E[?12l!E[?25h''), (''ve'', ''!E[?12l!E[?25h''), (''cvvis'', ''!E[?12;25h''),
     (''vs'', ''!E[?12;25h''), (''Ss'', ''!E[%p1%d q''), (''Se'', ''!E[0 q''), (''Cs'', ''!E]12;%p1%s!007''),
     (''Cr'', ''!E]112!007''), (''smkx'', ''!E[?1h!E=''), (''ks'', ''!E[?1h!E=''), (''rmkx'', ''!E[?1l!E>''),
     (''ke'', ''!E[?1l!E>'')]"

definition termcap_2 :: "(string \<times> string) list" where
  "termcap_2 = [
     (''smir'', ''!E[4h''), (''im'', ''!E[4h''), (''rmir'', ''!E[4l''), (''ei'', ''!E[4l''),
     (''smam'', ''!E[?7h''), (''rmam'', ''!E[?7l''), (''smm'', ''!E[?1034h''), (''rmm'', ''!E[?1034l''),
     (''smcup'', ''!E[?1049h!E[22;0;0t''), (''ti'', ''!E[?1049h!E[22;0;0t''),
     (''rmcup'', ''!E[?1049l!E[23;0;0t''), (''te'', ''!E[?1049l!E[23;0;0t''), (''sc'', ''!E7''),
     (''rc'', ''!E8''), (''ht'', ''^I''), (''ta'', ''^I''), (''hts'', ''!EH''), (''st'', ''!EH''),
     (''tbc'', ''!E[3g''), (''ct'', ''!E[3g''), (''cbt'', ''!E[Z''), (''bt'', ''!E[Z''), (''bel'', ''^G''),
     (''bl'', ''^G''), (''flash'', ''!E[?5h$<100/>!E[?5l''), (''vb'', ''!E[?5h$<100/>!E[?5l''),
     (''tsl'', ''!E]2;''), (''ts'', ''!E]2;''), (''fsl'', ''^G''), (''fs'', ''^G''), (''dsl'', ''!E]2;!007''),
     (''ds'', ''!E]2;!007''), (''kf1'', ''!EOP''), (''k1'', ''!EOP''), (''kf2'', ''!EOQ''),
     (''k2'', ''!EOQ''), (''kf3'', ''!EOR''), (''k3'', ''!EOR''), (''kf4'', ''!EOS''), (''k4'', ''!EOS''),
     (''kf5'', ''!E[15~''), (''k5'', ''!E[15~''), (''kf6'', ''!E[17~''), (''k6'', ''!E[17~''),
     (''kf7'', ''!E[18~''), (''k7'', ''!E[18~''), (''kf8'', ''!E[19~''), (''k8'', ''!E[19~''),
     (''kf9'', ''!E[20~''), (''k9'', ''!E[20~''), (''kf10'', ''!E[21~''), (''kf11'', ''!E[23~''),
     (''kf12'', ''!E[24~''), (''kf13'', ''!E[1;2P''), (''kf14'', ''!E[1;2Q''), (''kf15'', ''!E[1;2R''),
     (''kf16'', ''!E[1;2S''), (''kf17'', ''!E[15;2~''), (''kf18'', ''!E[17;2~''), (''kf19'', ''!E[18;2~''),
     (''kf20'', ''!E[19;2~''), (''kf21'', ''!E[20;2~''), (''kf22'', ''!E[21;2~''), (''kf23'', ''!E[23;2~''),
     (''kf24'', ''!E[24;2~''), (''kf25'', ''!E[1;5P''), (''kf26'', ''!E[1;5Q''), (''kf27'', ''!E[1;5R''),
     (''kf28'', ''!E[1;5S''), (''kf29'', ''!E[15;5~''), (''kf30'', ''!E[17;5~''), (''kf31'', ''!E[18;5~''),
     (''kf32'', ''!E[19;5~''), (''kf33'', ''!E[20;5~''), (''kf34'', ''!E[21;5~''), (''kf35'', ''!E[23;5~''),
     (''kf36'', ''!E[24;5~''), (''kf37'', ''!E[1;6P''), (''kf38'', ''!E[1;6Q''), (''kf39'', ''!E[1;6R''),
     (''kf40'', ''!E[1;6S''), (''kf41'', ''!E[15;6~''), (''kf42'', ''!E[17;6~''), (''kf43'', ''!E[18;6~''),
     (''kf44'', ''!E[19;6~''), (''kf45'', ''!E[20;6~''), (''kf46'', ''!E[21;6~''), (''kf47'', ''!E[23;6~''),
     (''kf48'', ''!E[24;6~''), (''kf49'', ''!E[1;3P''), (''kf50'', ''!E[1;3Q''), (''kf51'', ''!E[1;3R''),
     (''kf52'', ''!E[1;3S''), (''kf53'', ''!E[15;3~''), (''kf54'', ''!E[17;3~''), (''kf55'', ''!E[18;3~''),
     (''kf56'', ''!E[19;3~''), (''kf57'', ''!E[20;3~''), (''kf58'', ''!E[21;3~''), (''kf59'', ''!E[23;3~''),
     (''kf60'', ''!E[24;3~''), (''kf61'', ''!E[1;4P''), (''kf62'', ''!E[1;4Q''), (''kf63'', ''!E[1;4R''),
     (''kcuu1'', ''!EOA''), (''ku'', ''!EOA''), (''kcud1'', ''!EOB''), (''kd'', ''!EOB''),
     (''kcuf1'', ''!EOC''), (''kr'', ''!EOC'')]"

definition termcap_3 :: "(string \<times> string) list" where
  "termcap_3 = [
     (''kcub1'', ''!EOD''), (''kl'', ''!EOD''), (''khome'', ''!EOH''), (''kh'', ''!EOH''),
     (''kend'', ''!EOF''), (''kbs'', [CHR 0x7F]), (''kb'', [CHR 0x7F]), (''kdch1'', ''!E[3~''),
     (''kD'', ''!E[3~''), (''kich1'', ''!E[2~''), (''kI'', ''!E[2~''), (''knp'', ''!E[6~''),
     (''kN'', ''!E[6~''), (''kpp'', ''!E[5~''), (''kP'', ''!E[5~''), (''kb2'', ''!EOE''),
     (''kcbt'', ''!E[Z''), (''kent'', ''!EOM''), (''kLFT'', ''!E[1;2D''), (''kRIT'', ''!E[1;2C''),
     (''kind'', ''!E[1;2B''), (''kri'', ''!E[1;2A''), (''kDN'', ''!E[1;2B''), (''kUP'', ''!E[1;2A''),
     (''kDN3'', ''!E[1;3B''), (''kLFT3'', ''!E[1;3D''), (''kRIT3'', ''!E[1;3C''), (''kUP3'', ''!E[1;3A''),
     (''kDN4'', ''!E[1;4B''), (''kLFT4'', ''!E[1;4D''), (''kRIT4'', ''!E[1;4C''), (''kUP4'', ''!E[1;4A''),
     (''kDN5'', ''!E[1;5B''), (''kLFT5'', ''!E[1;5D''), (''kRIT5'', ''!E[1;5C''), (''kUP5'', ''!E[1;5A''),
     (''kDN6'', ''!E[1;6B''), (''kLFT6'', ''!E[1;6D''), (''kRIT6'', ''!E[1;6C''), (''kUP6'', ''!E[1;6A''),
     (''kDN7'', ''!E[1;7B''), (''kLFT7'', ''!E[1;7D''), (''kRIT7'', ''!E[1;7C''), (''kUP7'', ''!E[1;7A''),
     (''kDC'', ''!E[3;2~''), (''kEND'', ''!E[1;2F''), (''kHOM'', ''!E[1;2H''), (''kIC'', ''!E[2;2~''),
     (''kNXT'', ''!E[6;2~''), (''kPRV'', ''!E[5;2~''), (''kDC3'', ''!E[3;3~''), (''kEND3'', ''!E[1;3F''),
     (''kHOM3'', ''!E[1;3H''), (''kIC3'', ''!E[2;3~''), (''kNXT3'', ''!E[6;3~''), (''kPRV3'', ''!E[5;3~''),
     (''kDC4'', ''!E[3;4~''), (''kEND4'', ''!E[1;4F''), (''kHOM4'', ''!E[1;4H''), (''kIC4'', ''!E[2;4~''),
     (''kNXT4'', ''!E[6;4~''), (''kPRV4'', ''!E[5;4~''), (''kDC5'', ''!E[3;5~''), (''kEND5'', ''!E[1;5F''),
     (''kHOM5'', ''!E[1;5H''), (''kIC5'', ''!E[2;5~''), (''kNXT5'', ''!E[6;5~''), (''kPRV5'', ''!E[5;5~''),
     (''kDC6'', ''!E[3;6~''), (''kEND6'', ''!E[1;6F''), (''kHOM6'', ''!E[1;6H''), (''kIC6'', ''!E[2;6~''),
     (''kNXT6'', ''!E[6;6~''), (''kPRV6'', ''!E[5;6~''), (''kDC7'', ''!E[3;7~''), (''kEND7'', ''!E[1;7F''),
     (''kHOM7'', ''!E[1;7H''), (''kIC7'', ''!E[2;7~''), (''kNXT7'', ''!E[6;7~''), (''kPRV7'', ''!E[5;7~''),
     (''kmous'', ''!E[M''), (''meml'', ''!El'')]"

definition get_termcap_capability :: "string \<Rightarrow> string option" where
  "get_termcap_capability name =
     map_option (map (\<lambda>c. if c = CHR 0x21 then CHR 0x5C else c)) (map_of (termcap_1 @ termcap_2 @ termcap_3) name)"

fun decode_terminfo :: "u8 list \<Rightarrow> u8 list" where
  \<comment> \<open>the loop of \<open>decode_terminfo_value\<close>\<close>
  "decode_terminfo [] = []"
| "decode_terminfo [b] = [b]"
| "decode_terminfo (b # c # bs) =
     (if b = 0x5C then
        (if c = 0x45 then 0x1B # decode_terminfo bs
         else if c = 0x6E then 0x0A # decode_terminfo bs
         else if c = 0x72 then 0x0D # decode_terminfo bs
         else if c = 0x74 then 0x09 # decode_terminfo bs
         else if c = 0x5C then 0x5C # decode_terminfo bs
         else b # decode_terminfo (c # bs))
      else if b = 0x5E then (if c = 0x3F then 0x7F else c - 64) # decode_terminfo bs
      else b # decode_terminfo (c # bs))"

definition decode_terminfo_value :: "u8 list \<Rightarrow> u8 list" where
  "decode_terminfo_value v = (if 0x25 \<in> set v then v else decode_terminfo v)"

definition hex_upper :: "nat \<Rightarrow> char" where
  "hex_upper n = (if n < 10 then char_of (48 + n) else char_of (55 + n))"

definition encode_hex_bytes :: "u8 list \<Rightarrow> string" where
  \<comment> \<open>\<open>{:02X}\<close> of each byte; also \<open>encode_hex_string\<close> of a string's bytes\<close>
  "encode_hex_bytes bs = concat (map (\<lambda>b. [hex_upper (unat b div 16), hex_upper (unat b mod 16)]) bs)"

fun decode_hex_pairs :: "u8 list \<Rightarrow> u8 list option" where
  \<comment> \<open>a pair that is not UTF-8 is not hexadecimal either\<close>
  "decode_hex_pairs [] = Some []"
| "decode_hex_pairs [a] = None"
| "decode_hex_pairs (a # b # bs) =
     (case from_str_radix16 256 [a, b] of
        None \<Rightarrow> None
      | Some v \<Rightarrow> map_option (Cons (word_of_nat v)) (decode_hex_pairs bs))"

definition decode_hex_string :: "u8 list \<Rightarrow> u8 list option" where
  "decode_hex_string bs =
     (if odd (length bs) then None
      else Option.bind (decode_hex_pairs bs) (\<lambda>r. if std_from_utf8 r = Utf8Ok then Some r else None))"

definition xtgettcap_answer :: "u8 list \<Rightarrow> string" where
  \<comment> \<open>the loop body of \<open>process_xtgettcap_request\<close>\<close>
  "xtgettcap_answer query =
     (case (if query = [] then None else decode_hex_string query) of
        None \<Rightarrow> []
      | Some name \<Rightarrow>
          (let hex_name = encode_hex_bytes name; st = [ESC, CHR 0x5C] in
           case get_termcap_capability (string_of name) of
             Some value \<Rightarrow>
               if value = [] then ESC # ''P1+r'' @ hex_name @ st
               else ESC # ''P1+r'' @ hex_name @ ''='' @ encode_hex_bytes (decode_terminfo_value (bytes_of value)) @ st
           | None \<Rightarrow> ESC # ''P0+r'' @ hex_name @ st))"

definition process_xtgettcap_request :: "u8 list \<Rightarrow> string" where
  "process_xtgettcap_request buffer =
     (let response = concat (map xtgettcap_answer (split_bytes 0x3B buffer))
      in if response = [] then ESC # ''P0+r'' @ [ESC, CHR 0x5C] else response)"

end
