(* ===== verification/Performer.thy ===== *)
theory Performer
  imports PerfParse
begin

text \<open>
  \<open>performer/handler.rs\<close>, the dispatcher between the parser and the terminal: \<open>Performer\<close>, the
  parser's \<open>Perform\<close> trait over any implementation of \<open>Handler\<close>. The handler is a record of its
  methods over a state of type \<open>'h\<close>; what one dispatched sequence asks of it is a list of calls.
  Logging is left out. Static is the counter of generated hyperlink ids.
\<close>

record perf_env =
  \<comment> \<open>other packages: UTF-8 validation, \<open>memchr::memchr_iter\<close>, \<open>url::Url::parse(..)?.path()\<close>,
    \<open>CursorIcon::from_str\<close>\<close>
  pe_lib :: text_lib
  memchr_iter :: "u8 \<Rightarrow> u8 list \<Rightarrow> nat list"
  url_path :: "rstring \<Rightarrow> rstring option"
  cursor_icon_from_str :: "rstring \<Rightarrow> string option"
  pe_windows :: bool

subsection \<open>Control characters and escape sequences\<close>

definition execute_calls :: "u8 \<Rightarrow> call list" where
  "execute_calls b =
     (if b = 0x09 then [PutTab 1]
      else if b = 0x08 then [Backspace]
      else if b = 0x0D then [CarriageReturn]
      else if b = 0x0A \<or> b = 0x0B \<or> b = 0x0C then [Linefeed]
      else if b = 0x07 then [DoBell]
      else if b = 0x1A then [Substitute]
      else if b = 0x0F then [SetActiveCharset G0]
      else if b = 0x0E then [SetActiveCharset G1]
      else [])"

definition charset_designator :: "u8 list \<Rightarrow> charset_index option" where
  "charset_designator ints =
     (if ints = [0x28] then Some G0 else if ints = [0x29] then Some G1
      else if ints = [0x2A] then Some G2 else if ints = [0x2B] then Some G3 else None)"

definition configure_charset_calls :: "u8 list \<Rightarrow> standard_charset \<Rightarrow> call list" where
  \<comment> \<open>the macro \<open>configure_charset!\<close>\<close>
  "configure_charset_calls ints c =
     (case charset_designator ints of Some i \<Rightarrow> [ConfigureCharset i c] | None \<Rightarrow> [])"

definition esc_calls :: "u8 list \<Rightarrow> u8 \<Rightarrow> call list" where
  "esc_calls ints b =
     (if b = 0x42 then configure_charset_calls ints Ascii
      else if b = 0x30 then configure_charset_calls ints SpecialCharacterAndLineDrawing
      else if b = 0x38 \<and> ints = [0x23] then [Decaln]
      else if ints \<noteq> [] then []
      else if b = 0x44 then [Linefeed]
      else if b = 0x45 then [Linefeed, CarriageReturn]
      else if b = 0x48 then [SetHorizontalTabstop]
      else if b = 0x4D then [ReverseIndex]
      else if b = 0x5A then [IdentifyTerminal None]
      else if b = 0x63 then [ResetState]
      else if b = 0x37 then [SaveCursorPosition]
      else if b = 0x38 then [RestoreCursorPosition]
      else if b = 0x3D then [SetKeypadApplicationMode]
      else if b = 0x3E then [UnsetKeypadApplicationMode]
      else [])"

subsection \<open>Control sequences\<close>

definition next_param_or :: "u16 \<Rightarrow> u16 list list \<Rightarrow> u16 \<times> u16 list list" where
  "next_param_or d gs =
     (case gs of
        [] \<Rightarrow> (d, [])
      | g # gs \<Rightarrow> (case g of p # _ \<Rightarrow> if p \<noteq> 0 then p else d | [] \<Rightarrow> d, gs))"

definition first_values :: "u16 list list \<Rightarrow> u16 list option" where
  \<comment> \<open>\<open>params_iter.map(|param| param[0])\<close>\<close>
  "first_values gs = those (map (\<lambda>g. idx g 0) gs)"

definition csi_count :: "rchar \<Rightarrow> nat \<Rightarrow> call option option" where
  \<comment> \<open>the arms with one count, by default 1, and no intermediates\<close>
  "csi_count action n =
     (if action = 0x40 then Some (Some (InsertBlank n))
      else if action = 0x41 then Some (Some (MoveUp n))
      else if action = 0x42 \<or> action = 0x65 then Some (Some (MoveDown n))
      else if action = 0x43 \<or> action = 0x61 then Some (Some (MoveForward n))
      else if action = 0x44 then Some (Some (MoveBackward n))
      else if action = 0x64 then Some (Some (GotoLine (int n - 1)))
      else if action = 0x45 then Some (Some (MoveDownAndCr n))
      else if action = 0x46 then Some (Some (MoveUpAndCr n))
      else if action = 0x47 \<or> action = 0x60 then map_option (\<lambda>k. Some (GotoCol k)) (usub n 1)
      else if action = 0x49 then Some (Some (MoveForwardTabs n))
      else if action = 0x4C then Some (Some (InsertBlankLines n))
      else if action = 0x4D then Some (Some (DeleteLines n))
      else if action = 0x50 then Some (Some (DeleteChars n))
      else if action = 0x53 then Some (Some (ScrollUp n))
      else if action = 0x54 then Some (Some (ScrollDown n))
      else if action = 0x58 then Some (Some (EraseChars n))
      else if action = 0x5A then Some (Some (MoveBackwardTabs n))
      else if action = 0x74 then Some (
        if n = 14 then Some TextAreaSizePixels else if n = 16 then Some CellsSizePixels
        else if n = 18 then Some TextAreaSizeChars else if n = 22 then Some PushTitle
        else if n = 23 then Some PopTitle else None)
      else Some None)"

definition clear_calls :: "rchar \<Rightarrow> u16 \<Rightarrow> call list" where
  \<comment> \<open>TBC, ED and EL\<close>
  "clear_calls action n =
     (if action = 0x67 then
        (if n = 0 then [ClearTabs TabCurrent] else if n = 3 then [ClearTabs TabAll] else [])
      else if action = 0x4A then
        (if n = 0 then [ClearScreen ClearBelow] else if n = 1 then [ClearScreen ClearAbove]
         else if n = 2 then [ClearScreen ClearAll] else if n = 3 then [ClearScreen ClearSaved] else [])
      else
        (if n = 0 then [ClearLine LineRight] else if n = 1 then [ClearLine LineLeft]
         else if n = 2 then [ClearLine LineAll] else []))"

definition csi_plain :: "rchar option \<Rightarrow> u16 list list \<Rightarrow> rchar \<Rightarrow> call list option" where
  \<comment> \<open>the arms without intermediates; \<open>c\<close> of DA is in \<open>csi_calls\<close>\<close>
  "csi_plain preceding gs action =
     (let (n, gs1) = next_param_or 1 gs; (n0, _) = next_param_or 0 gs in
      if action = 0x62 then
        Some (case preceding of Some c \<Rightarrow> replicate (unat n) (Input c) | None \<Rightarrow> [])
      else if action = 0x67 \<or> action = 0x4A \<or> action = 0x4B then Some (clear_calls action n0)
      else if action = 0x48 \<or> action = 0x66 then
        (let (x, _) = next_param_or 1 gs1
         in map_option (\<lambda>k. [Goto (int (unat n) - 1) k]) (usub (unat x) 1))
      else if action = 0x68 then map_option (map (\<lambda>m. SetMode (ansi_mode_new m))) (first_values gs)
      else if action = 0x6C then map_option (map (\<lambda>m. UnsetMode (ansi_mode_new m))) (first_values gs)
      else if action = 0x6D then
        (if gs = [] then Some [TerminalAttribute AttrReset]
         else map_option (\<lambda>as. map TerminalAttribute (map the (filter (\<lambda>a. a \<noteq> None) as)))
           (attrs_from_sgr_parameters gs))
      else if action = 0x6E then Some [DeviceStatus (unat n0)]
      else if action = 0x72 then
        (case gs1 of
           [] \<Rightarrow> Some [SetScrollingRegion (unat n) None]
         | g # _ \<Rightarrow> map_option (\<lambda>b. [SetScrollingRegion (unat n) (if b \<noteq> 0 then Some (unat b) else None)]) (idx g 0))
      else if action = 0x73 then Some [SaveCursorPosition]
      else if action = 0x75 then Some [RestoreCursorPosition]
      else map_option (\<lambda>c. case c of Some c \<Rightarrow> [c] | None \<Rightarrow> []) (csi_count action (unat n)))"

definition scp_calls :: "u16 \<Rightarrow> u16 \<Rightarrow> call list" where
  "scp_calls a b =
     (case (map_of [(0, ScpDefault), (1, ScpLTR), (2, ScpRTL)] a,
            map_of [(0, ScpImplementationDependant), (1, ScpDataToPresentation), (2, ScpPresentationToData)] b) of
        (Some p, Some m) \<Rightarrow> [SetScp p m]
      | _ \<Rightarrow> [])"

definition cursor_style_calls :: "u16 \<Rightarrow> call list" where
  "cursor_style_calls n =
     (let blinking = odd (unat n) in
      if n = 0 then [SetCursorStyle None blinking]
      else if n = 1 \<or> n = 2 then [SetCursorStyle (Some ShapeBlock) blinking]
      else if n = 3 \<or> n = 4 then [SetCursorStyle (Some ShapeUnderline) blinking]
      else if n = 5 \<or> n = 6 then [SetCursorStyle (Some ShapeBeam) blinking]
      else [])"

definition csi_marked :: "u16 list list \<Rightarrow> u8 list \<Rightarrow> rchar \<Rightarrow> (bool \<times> call list) option" where
  \<comment> \<open>the arms with intermediates; the flag tells that a synchronized update begins\<close>
  "csi_marked gs ints action =
     (let (n0, gs1) = next_param_or 0 gs; (m0, _) = next_param_or 0 gs1;
          (n1, _) = next_param_or 1 gs; (m1, _) = next_param_or 1 gs1;
          just = (\<lambda>cs. Some (False, cs)) in
      if action = 0x57 \<and> ints = [0x3F] then just (if n0 = 5 then [SetTabs 8] else [])
      else if action = 0x68 \<and> ints = [0x3F] then
        map_option (\<lambda>ms. (2026 \<in> set ms, map (\<lambda>m. SetPrivateMode (private_mode_new m)) ms)) (first_values gs)
      else if action = 0x6B \<and> ints = [0x20] then just (scp_calls n0 m0)
      else if action = 0x6C \<and> ints = [0x3F] then
        map_option (\<lambda>ms. (False, map (\<lambda>m. UnsetPrivateMode (private_mode_new m)) ms)) (first_values gs)
      else if action = 0x70 \<and> ints = [0x24] then just [ReportMode (ansi_mode_new n0)]
      else if action = 0x70 \<and> ints = [0x3F, 0x24] then just [ReportPrivateMode (private_mode_new n0)]
      else if action = 0x71 \<and> ints = [0x3E] then just (if n0 \<noteq> 0 then [] else [ReportVersion])
      else if action = 0x71 \<and> ints = [0x20] then just (cursor_style_calls n0)
      else if action = 0x53 \<and> ints = [0x3F] then just [GraphicsAttribute (unat n0) (unat m0)]
      else if action = 0x75 \<and> ints = [0x3F] then just [ReportKeyboardMode]
      else if action = 0x75 \<and> ints = [0x3D] then
        just [SetKeyboardMode (kb_truncate (ucast n0))
          (if m1 = 3 then KbDifference else if m1 = 2 then KbUnion else KbReplace)]
      else if action = 0x75 \<and> ints = [0x3E] then just [PushKeyboardMode (kb_truncate (ucast n0))]
      else if action = 0x75 \<and> ints = [0x3C] then just [PopKeyboardModes (unat n1)]
      else just [])"

definition csi_calls :: "rchar option \<Rightarrow> u16 list list \<Rightarrow> u8 list \<Rightarrow> bool \<Rightarrow> rchar \<Rightarrow> (bool \<times> call list) option" where
  "csi_calls preceding gs ints should_ignore action =
     (if should_ignore \<or> length ints > 2 then Some (False, [])
      else if action = 0x63 then
        Some (False, if fst (next_param_or 0 gs) = 0
          then [IdentifyTerminal (case ints of [] \<Rightarrow> None | i # _ \<Rightarrow> Some (unat i))] else [])
      else if ints = [] then map_option (\<lambda>cs. (False, cs)) (csi_plain preceding gs action)
      else csi_marked gs ints action)"

subsection \<open>Operating system commands\<close>

fun osc_set_colors :: "perf_env \<Rightarrow> string \<Rightarrow> u8 list list \<Rightarrow> call list option" where
  \<comment> \<open>the loop of OSC 4 over pairs\<close>
  "osc_set_colors E terminator (i # c # rest) =
     (case parse_number i of
        None \<Rightarrow> osc_set_colors E terminator rest
      | Some k \<Rightarrow> do {
          color \<leftarrow> xparse_color (pe_lib E) c;
          calls \<leftarrow> osc_set_colors E terminator rest;
          Some ((case color of
              Some v \<Rightarrow> [SetColor (unat k) v]
            | None \<Rightarrow>
                if c = bytes_of ''?'' then [DynamicColorSequence (''4;'' @ show_nat (unat k)) (unat k) terminator]
                else []) @ calls)
        })"
| "osc_set_colors E terminator _ = Some []"

fun osc_dynamic_colors :: "perf_env \<Rightarrow> string \<Rightarrow> nat \<Rightarrow> u8 list list \<Rightarrow> call list option" where
  \<comment> \<open>the loop of OSC 10 to 12\<close>
  "osc_dynamic_colors E terminator code [] = Some []"
| "osc_dynamic_colors E terminator code (p # ps) = do {
     offset \<leftarrow> usub code 10;
     let index = named_index Foreground + offset;
     if index > named_index CursorColor then Some []
     else do {
       color \<leftarrow> xparse_color (pe_lib E) p;
       calls \<leftarrow> osc_dynamic_colors E terminator (code + 1) ps;
       Some ((case color of
           Some v \<Rightarrow> [SetColor index v]
         | None \<Rightarrow>
             if p = bytes_of ''?'' then [DynamicColorSequence (show_nat code) index terminator] else []) @ calls)
     }
   }"

definition osc_title :: "perf_env \<Rightarrow> u8 list list \<Rightarrow> call list" where
  "osc_title E args =
     (if args = [] then []
      else [SetTitle (Some (str_trim (str_join [0x3B]
        (map the (filter (\<lambda>t. t \<noteq> None) (map (from_utf8_fast (pe_lib E)) args))))))])"

definition osc_directory :: "perf_env \<Rightarrow> u8 list list \<Rightarrow> call list option" where
  \<comment> \<open>OSC 7 reads its first argument without looking whether there is one\<close>
  "osc_directory E args = do {
     a \<leftarrow> idx args 0;
     case Option.bind (from_utf8_fast (pe_lib E) a) (url_path E) of
       None \<Rightarrow> Some []
     | Some path \<Rightarrow>
         if pe_windows E
         then (case path of [] \<Rightarrow> None | c # cs \<Rightarrow> if c < 0x80 then Some [SetCurrentDirectory cs] else None)
         else Some [SetCurrentDirectory path]
   }"

definition strip_prefix :: "u8 list \<Rightarrow> u8 list \<Rightarrow> u8 list option" where
  "strip_prefix pre bs = (if take (length pre) bs = pre then Some (drop (length pre) bs) else None)"

definition link_id :: "perf_env \<Rightarrow> u8 list \<Rightarrow> u8 list option" where
  "link_id E link_params =
     (case map the (filter (\<lambda>x. x \<noteq> None) (map (strip_prefix (bytes_of ''id='')) (split_bytes 0x3A link_params))) of
        [] \<Rightarrow> None
      | kv # _ \<Rightarrow> if basic_from_utf8 (pe_lib E) kv then Some kv else None)"

definition osc_hyperlink :: "perf_env \<Rightarrow> u32 \<Rightarrow> u8 list \<Rightarrow> u8 list \<Rightarrow> u32 \<times> call list" where
  "osc_hyperlink E suffix link_params uri =
     (let uri = (if basic_from_utf8 (pe_lib E) uri then uri else []) in
      if uri = [] then (suffix, [SetHyperlink None])
      else (let (h, suffix) = hyperlink_new suffix (map_option string_of (link_id E link_params)) (string_of uri)
            in (suffix, [SetHyperlink (Some h)])))"

definition osc_progress :: "u8 list list \<Rightarrow> call option" where
  \<comment> \<open>the arguments of OSC 9 when they are a progress report\<close>
  "osc_progress args =
     (if length args \<ge> 2 \<and> args ! 0 = bytes_of ''4'' then
        map_option (\<lambda>st. SetProgressReport st
            (if length args \<ge> 3 then map_option (\<lambda>p. min p 100) (parse_number (args ! 2)) else None))
          (map_of [(bytes_of ''0'', ProgRemove), (bytes_of ''1'', ProgSet), (bytes_of ''2'', ProgError),
             (bytes_of ''3'', ProgIndeterminate), (bytes_of ''4'', ProgPause)] (args ! 1))
      else None)"

definition osc_notify :: "u8 list list \<Rightarrow> call list" where
  "osc_notify args =
     (case osc_progress args of
        Some c \<Rightarrow> [c]
      | None \<Rightarrow> if args = [] then [] else [DoDesktopNotification [] (std_utf8_or_empty (hd args))])"

definition osc_cursor_shape :: "u8 list list \<Rightarrow> call list" where
  "osc_cursor_shape args =
     (if args \<noteq> [] \<and> length (hd args) \<ge> 13 \<and> take 12 (hd args) = bytes_of ''CursorShape='' then
        (let d = hd args ! 12 in
         if d = 0x30 then [SetCursorShape ShapeBlock] else if d = 0x31 then [SetCursorShape ShapeBeam]
         else if d = 0x32 then [SetCursorShape ShapeUnderline] else [])
      else [])"

definition osc_clipboard :: "string \<Rightarrow> u8 list list \<Rightarrow> call list" where
  "osc_clipboard terminator args =
     (case args of
        sel # data # _ \<Rightarrow>
          (let clipboard = (case sel of [] \<Rightarrow> 0x63 | b # _ \<Rightarrow> b) in
           if data = bytes_of ''?'' then [DoClipboardLoad clipboard terminator]
           else [DoClipboardStore clipboard data])
      | _ \<Rightarrow> [])"

definition osc_reset_colors :: "u8 list list \<Rightarrow> call list" where
  "osc_reset_colors args =
     (if args = [] \<or> hd args = [] then map ResetColor [0..<256]
      else map (\<lambda>i. ResetColor (unat i)) (map the (filter (\<lambda>x. x \<noteq> None) (map parse_number args))))"

definition osc_calls :: "perf_env \<Rightarrow> u32 \<Rightarrow> u8 list list \<Rightarrow> bool \<Rightarrow> (u32 \<times> call list) option" where
  \<comment> \<open>all of \<open>osc_dispatch\<close> but OSC 1337\<close>
  "osc_calls E suffix ps bell_terminated =
     (if ps = [] \<or> hd ps = [] then Some (suffix, [])
      else
        (let terminator = (if bell_terminated then [CHR 0x07] else [ESC, CHR 0x5C]);
             code = hd ps; args = tl ps; just = (\<lambda>cs. Some (suffix, cs)) in
         if code = bytes_of ''0'' \<or> code = bytes_of ''2'' then just (osc_title E args)
         else if code = bytes_of ''4'' then
           (if length ps \<le> 1 \<or> even (length ps) then just []
            else map_option (\<lambda>cs. (suffix, cs)) (osc_set_colors E terminator args))
         else if code = bytes_of ''7'' then map_option (\<lambda>cs. (suffix, cs)) (osc_directory E args)
         else if code = bytes_of ''8'' \<and> length ps > 2 then Some (osc_hyperlink E suffix (ps ! 1) (ps ! 2))
         else if code = bytes_of ''9'' then just (osc_notify args)
         else if code = bytes_of ''777'' then
           just (if length ps \<ge> 4 \<and> ps ! 1 = bytes_of ''notify''
                 then [DoDesktopNotification (std_utf8_or_empty (ps ! 2)) (std_utf8_or_empty (ps ! 3))] else [])
         else if code = bytes_of ''10'' \<or> code = bytes_of ''11'' \<or> code = bytes_of ''12'' then
           (case parse_number code of
              None \<Rightarrow> just []
            | Some n \<Rightarrow> map_option (\<lambda>cs. (suffix, cs)) (osc_dynamic_colors E terminator (unat n) args))
         else if code = bytes_of ''22'' \<and> length ps = 2 then
           just (case cursor_icon_from_str E (from_utf8_lossy_fast (pe_lib E) (ps ! 1)) of
                   Some i \<Rightarrow> [SetMouseCursorIcon i] | None \<Rightarrow> [])
         else if code = bytes_of ''50'' then just (osc_cursor_shape args)
         else if code = bytes_of ''52'' then just (osc_clipboard terminator args)
         else if code = bytes_of ''104'' then just (osc_reset_colors args)
         else if code = bytes_of ''110'' then just [ResetColor (named_index Foreground)]
         else if code = bytes_of ''111'' then just [ResetColor (named_index Background)]
         else if code = bytes_of ''112'' then just [ResetColor (named_index CursorColor)]
         else just []))"

subsection \<open>The performer\<close>

record 'h handler =
  \<comment> \<open>the methods of the trait; of the image protocols, the parser and the handler's methods together\<close>
  h_call :: "call \<Rightarrow> 'h \<Rightarrow> 'h option"
  h_sixel_start :: "params \<Rightarrow> 'h \<Rightarrow> 'h option"
  h_sixel_active :: "'h \<Rightarrow> bool"
  h_sixel_put :: "u8 \<Rightarrow> 'h \<Rightarrow> ('h \<times> bool) option" \<comment> \<open>with the success of the parse\<close>
  h_sixel_reset :: "'h \<Rightarrow> 'h option"
  h_sixel_finish :: "'h \<Rightarrow> 'h option"
  h_iterm2 :: "u8 list list \<Rightarrow> 'h \<Rightarrow> 'h option"
  h_kitty :: "u8 list \<Rightarrow> u8 list \<Rightarrow> 'h \<Rightarrow> 'h option"

record perf_state =
  \<comment> \<open>\<open>ProcessorState\<close>; of the time-out, whether one is pending\<close>
  preceding_char :: "rchar option"
  sync_pending :: bool
  sync_buffer :: "u8 list"
  xtgettcap_active :: bool
  xtgettcap_buffer :: "u8 list"
  apc_buffer :: "u8 list"
  hyperlink_suffix :: u32

definition perf_state_new :: perf_state where
  "perf_state_new = \<lparr>preceding_char = None, sync_pending = False, sync_buffer = [], xtgettcap_active = False,
     xtgettcap_buffer = [], apc_buffer = [], hyperlink_suffix = 0\<rparr>"

definition run_calls :: "'h handler \<Rightarrow> 'h \<Rightarrow> call list \<Rightarrow> 'h option" where
  "run_calls H h cs = foldM (\<lambda>h c. h_call H c h) h cs"

definition strip_esc :: "u8 list \<Rightarrow> u8 list" where
  "strip_esc bs = (if bs \<noteq> [] \<and> last bs = 0x1B then butlast bs else bs)"

definition process_apc_buffer :: "'h handler \<Rightarrow> 'h \<Rightarrow> u8 list \<Rightarrow> 'h option" where
  "process_apc_buffer H h buffer =
     (let n = length buffer;
          data = (if n \<ge> 1 \<and> last buffer = 0x1B then butlast buffer
                  else if n \<ge> 2 \<and> buffer ! (n - 2) = 0x1B \<and> buffer ! (n - 1) = 0x5C then take (n - 2) buffer
                  else buffer) in
      if data \<noteq> [] \<and> hd data = 0x47 then
        (let control = takeWhile (\<lambda>b. b \<noteq> 0x3B) data; payload = drop (Suc (length control)) data
         in h_kitty H (strip_esc (tl control)) (strip_esc payload) h)
      else Some h)"

definition perform :: "perf_env \<Rightarrow> 'h handler \<Rightarrow> perf_state \<times> 'h \<Rightarrow> event \<Rightarrow> (perf_state \<times> 'h) option" where
  "perform E H sh e = (case sh of (s, h) \<Rightarrow> (case e of
     Print c \<Rightarrow> map_option (\<lambda>h. (s\<lparr>preceding_char := Some c\<rparr>, h)) (h_call H (Input c) h)
   | Execute b \<Rightarrow> map_option (\<lambda>h. (s, h)) (run_calls H h (execute_calls b))
   | Hook ps ints _ action \<Rightarrow>
       if action = 0x71 \<and> ints = [] then map_option (\<lambda>h. (s, h)) (h_sixel_start H ps h)
       else if action = 0x71 \<and> ints = [0x2B] then Some (s\<lparr>xtgettcap_active := True, xtgettcap_buffer := []\<rparr>, h)
       else Some (s, h)
   | Put b \<Rightarrow>
       if h_sixel_active H h then do {
         (h, ok) \<leftarrow> h_sixel_put H b h;
         h \<leftarrow> (if ok then Some h else h_sixel_reset H h);
         Some (s, h)
       }
       else Some (if xtgettcap_active s then s\<lparr>xtgettcap_buffer := xtgettcap_buffer s @ [b]\<rparr> else s, h)
   | Unhook \<Rightarrow>
       if h_sixel_active H h then map_option (\<lambda>h. (s, h)) (h_sixel_finish H h)
       else if xtgettcap_active s then
         map_option (\<lambda>h. (s\<lparr>xtgettcap_active := False, xtgettcap_buffer := []\<rparr>, h))
           (h_call H (PtyResponse (process_xtgettcap_request (xtgettcap_buffer s))) h)
       else Some (s, h)
   | OscDispatch ps bel \<Rightarrow>
       if ps \<noteq> [] \<and> hd ps = bytes_of ''1337'' then map_option (\<lambda>h. (s, h)) (h_iterm2 H ps h)
       else do {
         (suffix, cs) \<leftarrow> osc_calls E (hyperlink_suffix s) ps bel;
         h \<leftarrow> run_calls H h cs;
         Some (s\<lparr>hyperlink_suffix := suffix\<rparr>, h)
       }
   | CsiDispatch ps ints ignore action \<Rightarrow> do {
       gs \<leftarrow> params_iter ps;
       (sync, cs) \<leftarrow> csi_calls (preceding_char s) gs ints ignore action;
       h \<leftarrow> run_calls H h cs;
       Some (if sync then s\<lparr>sync_pending := True\<rparr> else s, h)
     }
   | EscDispatch ints _ b \<Rightarrow> map_option (\<lambda>h. (s, h)) (run_calls H h (esc_calls ints b))
   | ApcStart \<Rightarrow> Some (s\<lparr>apc_buffer := []\<rparr>, h)
   | ApcPut b \<Rightarrow> Some (s\<lparr>apc_buffer := apc_buffer s @ [b]\<rparr>, h)
   | ApcEnd \<Rightarrow> map_option (\<lambda>h. (s, h)) (process_apc_buffer H h (apc_buffer s))
   | _ \<Rightarrow> Some (s, h)))"

definition perform_all :: "perf_env \<Rightarrow> 'h handler \<Rightarrow> perf_state \<times> 'h \<Rightarrow> event list \<Rightarrow> (perf_state \<times> 'h) option" where
  "perform_all E H sh es = foldM (perform E H) sh es"

end
