(* ===== verification/Processor.thy ===== *)
theory Processor
  imports Performer
begin

text \<open>
  \<open>batched_parser.rs\<close> and the \<open>Processor\<close> of \<open>performer/handler.rs\<close>: large inputs are parsed in one
  piece, and while a synchronized update (mode 2026) is pending the input is kept back until its end is
  found, the buffer is full, or the caller's timer runs out. The parser's calls do not depend on what
  the performer does, because the performer keeps the default \<open>terminated\<close>, so a call of the parser is
  its list of events followed by their performance. The statistics of the batches are left out.
\<close>

subsection \<open>The batched parser\<close>

record batched_parser =
  bp_parser :: parser
  input_buffer :: "u8 list"
  batch_threshold :: nat

definition batched_new :: batched_parser where
  "batched_new = \<lparr>bp_parser = parser_new, input_buffer = [], batch_threshold = 1024\<rparr>"

definition flush_batch :: "text_lib \<Rightarrow> batched_parser \<Rightarrow> (batched_parser \<times> event list) option" where
  "flush_batch lib B =
     (if input_buffer B = [] then Some (B, [])
      else map_option (\<lambda>(p, es). (B\<lparr>bp_parser := p, input_buffer := []\<rparr>, es))
        (advance lib (bp_parser B) (input_buffer B)))"

definition batched_flush :: "text_lib \<Rightarrow> batched_parser \<Rightarrow> (batched_parser \<times> event list) option" where
  "batched_flush lib B = (if input_buffer B \<noteq> [] then flush_batch lib B else Some (B, []))"

definition batched_advance :: "text_lib \<Rightarrow> batched_parser \<Rightarrow> u8 list \<Rightarrow> (batched_parser \<times> event list) option" where
  "batched_advance lib B bytes =
     (if length bytes < batch_threshold B
      then map_option (\<lambda>(p, es). (B\<lparr>bp_parser := p\<rparr>, es)) (advance lib (bp_parser B) bytes)
      else (let B = B\<lparr>input_buffer := input_buffer B @ bytes\<rparr> in
            if length (input_buffer B) \<ge> batch_threshold B then flush_batch lib B else Some (B, [])))"

definition batched_until :: "text_lib \<Rightarrow> (event list \<Rightarrow> bool) \<Rightarrow> batched_parser \<Rightarrow> u8 list \<Rightarrow>
    (batched_parser \<times> event list \<times> nat) option" where
  \<comment> \<open>\<open>advance_until_terminated\<close>\<close>
  "batched_until lib terminated B bytes =
     (if length bytes < batch_threshold B
      then map_option (\<lambda>(p, es, n). (B\<lparr>bp_parser := p\<rparr>, es, n)) (advance_until_terminated lib terminated (bp_parser B) bytes)
      else (let B = B\<lparr>input_buffer := input_buffer B @ bytes\<rparr> in
            map_option (\<lambda>(B, es). (B, es, length bytes))
              (if length (input_buffer B) \<ge> batch_threshold B then flush_batch lib B else Some (B, []))))"

subsection \<open>The processor\<close>

definition SYNC_BUFFER_SIZE :: nat where "SYNC_BUFFER_SIZE = 0x200000"

definition SYNC_ESCAPE_LEN :: nat where "SYNC_ESCAPE_LEN = 8"

definition BSU_CSI :: "u8 list" where "BSU_CSI = 0x1B # bytes_of ''[?2026h''"

definition ESU_CSI :: "u8 list" where "ESU_CSI = 0x1B # bytes_of ''[?2026l''"

record processor =
  pr_state :: perf_state
  pr_parser :: batched_parser

definition processor_new :: processor where
  "processor_new = \<lparr>pr_state = perf_state_new, pr_parser = batched_new\<rparr>"

definition perform_parsed :: "perf_env \<Rightarrow> 'h handler \<Rightarrow> processor \<times> 'h \<Rightarrow> batched_parser \<Rightarrow> event list \<Rightarrow> (processor \<times> 'h) option" where
  \<comment> \<open>the performer runs the events of one call of the parser\<close>
  "perform_parsed E H Ph B es =
     map_option (\<lambda>(s, h). ((fst Ph)\<lparr>pr_state := s, pr_parser := B\<rparr>, h)) (perform_all E H (pr_state (fst Ph), snd Ph) es)"

definition processor_flush :: "perf_env \<Rightarrow> 'h handler \<Rightarrow> processor \<times> 'h \<Rightarrow> (processor \<times> 'h) option" where
  "processor_flush E H Ph = do {
     (B, es) \<leftarrow> batched_flush (pe_lib E) (pr_parser (fst Ph));
     perform_parsed E H Ph B es
   }"

definition with_sync :: "processor \<Rightarrow> u8 list \<Rightarrow> processor" where
  "with_sync P buffer = P\<lparr>pr_state := (pr_state P)\<lparr>sync_buffer := buffer\<rparr>\<rparr>"

definition stop_sync_internal :: "perf_env \<Rightarrow> 'h handler \<Rightarrow> processor \<times> 'h \<Rightarrow> nat option \<Rightarrow> (processor \<times> 'h) option" where
  "stop_sync_internal E H Ph bsu_offset = do {
     let (P, h) = Ph;
     let buffer = sync_buffer (pr_state P);
     let P = with_sync P [];
     bytes \<leftarrow> subslice buffer 0 (case bsu_offset of Some n \<Rightarrow> n | None \<Rightarrow> length buffer);
     (B, es) \<leftarrow> batched_advance (pe_lib E) (pr_parser P) bytes;
     Ph \<leftarrow> perform_parsed E H (P, h) B es;
     (P, h) \<leftarrow> processor_flush E H Ph;
     case bsu_offset of
       Some n \<Rightarrow> Some (with_sync P (drop n buffer), h)
     | None \<Rightarrow> do {
         h \<leftarrow> h_call H (UnsetPrivateMode (private_mode_new 2026)) h;
         Some (P\<lparr>pr_state := (pr_state P)\<lparr>sync_pending := False, sync_buffer := []\<rparr>\<rparr>, h)
       }
   }"

definition stop_sync :: "perf_env \<Rightarrow> 'h handler \<Rightarrow> processor \<times> 'h \<Rightarrow> (processor \<times> 'h) option" where
  "stop_sync E H Ph = stop_sync_internal E H Ph None"

fun sync_scan :: "perf_env \<Rightarrow> 'h handler \<Rightarrow> nat list \<Rightarrow> nat option \<Rightarrow> processor \<times> 'h \<Rightarrow> (processor \<times> 'h) option" where
  \<comment> \<open>the loop of \<open>advance_sync_csi\<close> over the offsets of the escapes, from the last to the first\<close>
  "sync_scan E H [] bsu_offset Ph = Some Ph"
| "sync_scan E H (k # ks) bsu_offset Ph = do {
     escape \<leftarrow> subslice (sync_buffer (pr_state (fst Ph))) k (k + SYNC_ESCAPE_LEN);
     if escape = BSU_CSI then
       sync_scan E H ks (Some k)
         ((fst Ph)\<lparr>pr_state := (pr_state (fst Ph))\<lparr>sync_pending := True\<rparr>\<rparr>, snd Ph)
     else if escape = ESU_CSI then stop_sync_internal E H Ph bsu_offset
     else sync_scan E H ks bsu_offset Ph
   }"

definition advance_sync_csi :: "perf_env \<Rightarrow> 'h handler \<Rightarrow> processor \<times> 'h \<Rightarrow> nat \<Rightarrow> (processor \<times> 'h) option" where
  "advance_sync_csi E H Ph new_bytes = do {
     let buffer = sync_buffer (pr_state (fst Ph));
     old_len \<leftarrow> usub (length buffer) new_bytes;
     let start = old_len - (SYNC_ESCAPE_LEN - 1);
     let end = length buffer - (SYNC_ESCAPE_LEN - 1);
     search \<leftarrow> subslice buffer start end;
     sync_scan E H (map (\<lambda>i. start + i) (rev (memchr_iter E 0x1B search))) None Ph
   }"

definition advance_parsed :: "perf_env \<Rightarrow> 'h handler \<Rightarrow> processor \<times> 'h \<Rightarrow> u8 list \<Rightarrow> ((processor \<times> 'h) \<times> nat) option" where
  \<comment> \<open>the parser's \<open>advance_until_terminated\<close> with a performer, which never asks it to stop\<close>
  "advance_parsed E H Ph bytes = do {
     (B, es, n) \<leftarrow> batched_until (pe_lib E) (\<lambda>_. False) (pr_parser (fst Ph)) bytes;
     Ph \<leftarrow> perform_parsed E H Ph B es;
     Some (Ph, n)
   }"

definition advance_sync :: "perf_env \<Rightarrow> 'h handler \<Rightarrow> processor \<times> 'h \<Rightarrow> u8 list \<Rightarrow> ((processor \<times> 'h) \<times> nat) option" where
  "advance_sync E H Ph bytes = do {
     let buffer = sync_buffer (pr_state (fst Ph));
     if length buffer + length bytes \<ge> SYNC_BUFFER_SIZE - 1 then do {
       Ph \<leftarrow> stop_sync_internal E H Ph None;
       advance_parsed E H Ph bytes
     }
     else do {
       Ph \<leftarrow> advance_sync_csi E H (with_sync (fst Ph) (buffer @ bytes), snd Ph) (length bytes);
       Some (Ph, length bytes)
     }
   }"

definition processor_step :: "perf_env \<Rightarrow> 'h handler \<Rightarrow> processor \<times> 'h \<Rightarrow> u8 list \<Rightarrow> ((processor \<times> 'h) \<times> nat) option" where
  \<comment> \<open>the loop body of \<open>Processor::advance\<close>\<close>
  "processor_step E H Ph bytes =
     (if sync_pending (pr_state (fst Ph)) then advance_sync E H Ph bytes else advance_parsed E H Ph bytes)"

partial_function (option) processor_loop ::
    "perf_env \<Rightarrow> 'h handler \<Rightarrow> processor \<times> 'h \<Rightarrow> u8 list \<Rightarrow> nat \<Rightarrow> (processor \<times> 'h) option" where
  "processor_loop E H Ph bytes processed =
     (if processed = length bytes then Some Ph
      else Option.bind (processor_step E H Ph (drop processed bytes))
        (\<lambda>r. processor_loop E H (fst r) bytes (processed + snd r)))"

definition processor_advance :: "perf_env \<Rightarrow> 'h handler \<Rightarrow> processor \<times> 'h \<Rightarrow> u8 list \<Rightarrow> (processor \<times> 'h) option" where
  "processor_advance E H Ph bytes = processor_loop E H Ph bytes 0"

fun processor_feed :: "perf_env \<Rightarrow> 'h handler \<Rightarrow> processor \<times> 'h \<Rightarrow> u8 list list \<Rightarrow> (processor \<times> 'h) option" where
  \<comment> \<open>one call of \<open>advance\<close> per chunk\<close>
  "processor_feed E H Ph [] = Some Ph"
| "processor_feed E H Ph (c # cs) = Option.bind (processor_advance E H Ph c) (\<lambda>Ph. processor_feed E H Ph cs)"

end
