(* ===== verification/PerfKeep.thy ===== *)
theory PerfKeep
  imports Performer CopaProps HandlerKeep
begin

text \<open>
  The dispatcher over any handler: the calls it makes have arguments in range, and it returns
  whenever the handler does, save for two kinds of operating system command.
\<close>

subsection \<open>Colours and numbers\<close>

lemma color_from_slice_total: "length piece \<le> 16 \<Longrightarrow> \<exists>c. color_from_slice lib piece = Some c"
  by (auto simp: color_from_slice_def check_def split: option.splits)

lemma xparse_color_total:
  assumes "length color \<le> 47"
  shows "\<exists>c. xparse_color lib color = Some c"
proof -
  obtain s n where s: "s = tl color" "n = length s div 3" by simp
  with assms have n: "n \<le> 15" "length s - n * 2 \<le> 16" by auto
  have "length (take n s) \<le> 16" "length (take n (drop n s)) \<le> 16" "length (drop (n * 2) s) \<le> 16"
    using n by simp_all
  then obtain r g b where "color_from_slice lib (take n s) = Some r"
    "color_from_slice lib (take n (drop n s)) = Some g" "color_from_slice lib (drop (n * 2) s) = Some b"
    using color_from_slice_total by metis
  then show ?thesis
    by (auto simp: xparse_color_def parse_legacy_color_def s [symmetric] Let_def split: option.splits)
qed

definition no_empty :: "'a list list \<Rightarrow> bool" where
  "no_empty gs \<longleftrightarrow> [] \<notin> set gs"

lemma no_empty_simps [simp]: "no_empty []" "no_empty (g # gs) \<longleftrightarrow> g \<noteq> [] \<and> no_empty gs"
  by (auto simp: no_empty_def)

lemma next_value_ok: "no_empty gs \<Longrightarrow> \<exists>x gs'. next_value gs = Some (x, gs') \<and> no_empty gs'"
  by (cases gs) (auto simp: next_value_def idx_def)

lemma next_u8_ok: "no_empty gs \<Longrightarrow> \<exists>x gs'. next_u8 gs = Some (x, gs') \<and> no_empty gs'"
  using next_value_ok [of gs] by (auto simp: next_u8_def)

lemma parse_sgr_color_ok:
  assumes "no_empty gs"
  shows "\<exists>x gs'. parse_sgr_color gs = Some (x, gs') \<and> no_empty gs'"
proof -
  obtain k g0 where 0: "next_value gs = Some (k, g0)" "no_empty g0" using next_value_ok [OF assms] by blast
  obtain r g1 where 1: "next_u8 g0 = Some (r, g1)" "no_empty g1" using next_u8_ok [OF 0(2)] by blast
  obtain g g2 where 2: "next_u8 g1 = Some (g, g2)" "no_empty g2" using next_u8_ok [OF 1(2)] by blast
  obtain b g3 where 3: "next_u8 g2 = Some (b, g3)" "no_empty g3" using next_u8_ok [OF 2(2)] by blast
  from 0 1 2 3 show ?thesis by (cases r; cases g) (auto simp: parse_sgr_color_def)
qed

lemma handle_colon_rgb_total:
  assumes "ps \<noteq> []"
  shows "\<exists>c. handle_colon_rgb ps = Some c"
proof -
  define gs where "gs = map (\<lambda>x. [x]) (ps ! 0 # drop (if length ps > 4 then 2 else 1) ps)"
  have "no_empty gs" by (auto simp: no_empty_def gs_def)
  from parse_sgr_color_ok [OF this] obtain c r where "parse_sgr_color gs = Some (c, r)" by blast
  with assms show ?thesis
    by (auto simp: handle_colon_rgb_def check_def idx_def gs_def Suc_le_eq)
qed

lemma sgr_attr_ok:
  assumes "g \<noteq> []" "no_empty gs"
  shows "\<exists>a gs'. sgr_attr g gs = Some (a, gs') \<and> no_empty gs'"
  using assms(2) parse_sgr_color_ok [OF assms(2)] handle_colon_rgb_total [of "tl g"] assms(1)
  by (auto simp: sgr_attr_def split: list.splits option.splits)

lemma attrs_total: "no_empty gs \<Longrightarrow> attrs_from_sgr_parameters gs \<noteq> None"
proof (induction gs rule: attrs_from_sgr_parameters.induct)
  case (1 gs)
  show ?case
  proof (cases gs)
    case Nil
    then show ?thesis by (simp add: attrs_from_sgr_parameters.simps)
  next
    case (Cons g rest)
    with 1(2) have "g \<noteq> []" "no_empty rest" by simp_all
    from sgr_attr_ok [OF this] obtain a r where "sgr_attr g rest = Some (a, r)" "no_empty r" by blast
    with 1(1) [OF Cons] Cons show ?thesis
      by (subst attrs_from_sgr_parameters.simps) auto
  qed
qed

subsection \<open>The calls\<close>

abbreviation calls_ok :: "call list \<Rightarrow> bool" where
  "calls_ok cs \<equiv> list_all call_ok cs"

lemma execute_calls_ok: "calls_ok (execute_calls b)"
  by (simp add: execute_calls_def)

lemma esc_calls_ok: "calls_ok (esc_calls ints b)"
  by (auto simp: esc_calls_def configure_charset_calls_def split: option.splits)

lemma next_param_or_pos: "next_param_or 1 gs = (x, gs') \<Longrightarrow> 1 \<le> unat x"
  by (auto simp: next_param_or_def unat_gt_0 Suc_le_eq split: list.splits if_splits)

lemma next_param_or_no_empty: "no_empty gs \<Longrightarrow> next_param_or d gs = (x, gs') \<Longrightarrow> no_empty gs'"
  by (auto simp: next_param_or_def split: list.splits if_splits)

lemma first_values_total: "no_empty gs \<Longrightarrow> first_values gs \<noteq> None"
  by (induction gs) (auto simp: first_values_def idx_def)

lemma csi_count_wp: "1 \<le> n \<Longrightarrow> wp (csi_count a n) (\<lambda>c. calls_ok (case c of Some c \<Rightarrow> [c] | None \<Rightarrow> []))"
  by (simp add: csi_count_def wp_simps usub_def)

lemma clear_calls_ok: "calls_ok (clear_calls a n)"
  by (simp add: clear_calls_def)

lemma csi_plain_wp:
  assumes "no_empty gs"
  shows "wp (csi_plain c gs action) calls_ok"
proof -
  obtain n gs1 where n: "next_param_or 1 gs = (n, gs1)" by force
  obtain n0 r where n0: "next_param_or 0 gs = (n0, r)" by force
  obtain x r1 where x: "next_param_or 1 gs1 = (x, r1)" by force
  have ge: "1 \<le> unat n" "1 \<le> unat x" "no_empty gs1"
    using next_param_or_pos n x next_param_or_no_empty [OF assms n] by blast+
  obtain ms as where "first_values gs = Some ms" "attrs_from_sgr_parameters gs = Some as"
    using first_values_total [OF assms] attrs_total [OF assms] by auto
  moreover obtain c1 where "csi_count action (unat n) = Some c1" "calls_ok (case c1 of Some c \<Rightarrow> [c] | None \<Rightarrow> [])"
    using csi_count_wp [OF ge(1), of action] by (auto simp: wp_iff)
  ultimately show ?thesis
    using ge clear_calls_ok
    by (cases c1) (auto simp: csi_plain_def n n0 x Let_def wp_iff usub_def idx_def list_all_iff no_empty_def
        split: option.splits list.splits)
qed

lemma list_all_if [simp]: "list_all P (if b then xs else ys) = (if b then list_all P xs else list_all P ys)"
  by simp

lemma scp_calls_ok: "calls_ok (scp_calls a b)" and cursor_style_calls_ok: "calls_ok (cursor_style_calls a)"
  by (auto simp: scp_calls_def cursor_style_calls_def Let_def split: option.splits)

lemma csi_marked_wp:
  assumes "no_empty gs"
  shows "wp (csi_marked gs ints action) (\<lambda>(sync, cs). calls_ok cs)"
proof -
  obtain ms where "first_values gs = Some ms" using first_values_total [OF assms] by auto
  then show ?thesis
    unfolding csi_marked_def Let_def case_prod_unfold
    by (simp only: wp_simps prod.sel list_all_if list.pred_inject simp_thms call_ok.simps if_cancel scp_calls_ok
        cursor_style_calls_ok option.simps) (simp add: list_all_iff)
qed

lemma csi_calls_wp: "no_empty gs \<Longrightarrow> wp (csi_calls c gs ints ignore action) (\<lambda>(sync, cs). calls_ok cs)"
  using csi_plain_wp [of gs c action] csi_marked_wp [of gs ints action]
  by (auto simp: csi_calls_def wp_iff split: list.splits)

subsection \<open>Operating system commands\<close>

text \<open>What the dispatcher needs of an operating system command: OSC 7 has an argument, and the
  colours of OSC 4 and 10 to 12 are not so long that a legacy colour is shifted by 64 bits.\<close>

definition color_codes :: "u8 list set" where
  "color_codes = {bytes_of ''4'', bytes_of ''10'', bytes_of ''11'', bytes_of ''12''}"

fun event_safe :: "event \<Rightarrow> bool" where
  "event_safe (OscDispatch (code # args) _) =
     ((code = bytes_of ''7'' \<longrightarrow> args \<noteq> []) \<and>
      (code \<in> color_codes \<longrightarrow> (\<forall>a \<in> set args. length a \<le> 47)))"
| "event_safe _ = True"

definition perf_env_ok :: "perf_env \<Rightarrow> bool" where
  \<comment> \<open>on Windows the path of a URL starts with an ASCII character\<close>
  "perf_env_ok E \<longleftrightarrow> pe_windows E \<longrightarrow> (\<forall>s p. url_path E s = Some p \<longrightarrow> p \<noteq> [] \<and> hd p < 0x80)"

lemma byte_color: "unat (k :: u8) < COLOR_COUNT"
proof -
  have "unat k < 2 ^ LENGTH(8)" by (rule unsigned_less)
  then show ?thesis by (simp add: COLOR_COUNT_def)
qed

lemma osc_set_colors_wp:
  "\<forall>a \<in> set args. length a \<le> 47 \<Longrightarrow> wp (osc_set_colors E tm args) calls_ok"
proof (induction E tm args rule: osc_set_colors.induct)
  case (1 E tm i c rest)
  obtain v where v: "xparse_color (pe_lib E) c = Some v" using xparse_color_total [of c] 1(3) by auto
  have k: "unat (k :: u8) < COLOR_COUNT" for k by (rule byte_color)
  have "wp (osc_set_colors E tm rest) calls_ok"
    using 1 by (cases "parse_number i") (simp_all add: v)
  then show ?case
    using k v by (auto simp: wp_iff split: option.splits)
qed (simp_all add: wp_simps)

lemma osc_dynamic_colors_wp:
  "10 \<le> code \<Longrightarrow> \<forall>a \<in> set args. length a \<le> 47 \<Longrightarrow> wp (osc_dynamic_colors E tm code args) calls_ok"
proof (induction args arbitrary: code)
  case (Cons p ps)
  obtain v where "xparse_color (pe_lib E) p = Some v" using xparse_color_total [of p] Cons.prems by auto
  moreover have "wp (osc_dynamic_colors E tm (code + 1) ps) calls_ok" using Cons by simp
  ultimately show ?case
    using Cons.prems(1) by (auto simp: wp_iff usub_def COLOR_COUNT_def Let_def split: option.splits)
qed (simp add: wp_simps)

lemma perf_env_okD:
  "perf_env_ok E \<Longrightarrow> pe_windows E \<Longrightarrow> url_path E s = Some p \<Longrightarrow> \<exists>c cs. p = c # cs \<and> c < 0x80"
  unfolding perf_env_ok_def by (cases p) fastforce+

lemma osc_directory_wp:
  assumes "perf_env_ok E" "args \<noteq> []"
  shows "wp (osc_directory E args) calls_ok"
proof (cases "Option.bind (from_utf8_fast (pe_lib E) (args ! 0)) (url_path E)")
  case None
  with assms(2) show ?thesis by (simp add: osc_directory_def wp_simps idx_def)
next
  case (Some p)
  then obtain s where s: "url_path E s = Some p" by (auto simp: bind_eq_Some_conv)
  have "\<exists>c cs. p = c # cs \<and> c < 0x80" if "pe_windows E" by (rule perf_env_okD [OF assms(1) that s])
  with Some assms(2) show ?thesis by (auto simp: osc_directory_def wp_simps idx_def)
qed

lemma osc_reset_colors_ok: "calls_ok (osc_reset_colors args)"
proof -
  have "unat (k :: u8) < COLOR_COUNT" for k by (rule byte_color)
  then show ?thesis by (auto simp: osc_reset_colors_def list_all_iff COLOR_COUNT_def)
qed

lemma osc_lists_ok:
  "calls_ok (osc_title E args)" "calls_ok (osc_notify args)" "calls_ok (osc_cursor_shape args)"
  "calls_ok (osc_clipboard tm args)" "calls_ok (snd (osc_hyperlink E suffix a b))"
  by (auto simp: osc_title_def osc_notify_def osc_progress_def osc_cursor_shape_def osc_clipboard_def
      osc_hyperlink_def Let_def case_prod_unfold split: option.splits list.splits if_splits)

lemma numbers_10_12:
  "parse_number (bytes_of ''10'') = Some 10" "parse_number (bytes_of ''11'') = Some 11"
  "parse_number (bytes_of ''12'') = Some 12"
  by (simp_all add: parse_number_def bytes_of_def of_char_def)

lemma event_safeD:
  assumes "event_safe (OscDispatch ps bel)" "ps \<noteq> []"
  shows "hd ps = bytes_of ''7'' \<Longrightarrow> tl ps \<noteq> []"
    and "hd ps \<in> color_codes \<Longrightarrow> \<forall>a \<in> set (tl ps). length a \<le> 47"
  using assms by (cases ps; simp)+

lemma wp_ifI: "(b \<Longrightarrow> wp m P) \<Longrightarrow> (\<not> b \<Longrightarrow> wp n P) \<Longrightarrow> wp (if b then m else n) P"
  by simp

lemma osc_calls_wp:
  assumes "perf_env_ok E" "event_safe (OscDispatch ps bel)"
  shows "wp (osc_calls E suffix ps bel) (\<lambda>(s, cs). calls_ok cs)"
proof (cases "ps = [] \<or> hd ps = []")
  case True
  then show ?thesis by (simp add: osc_calls_def wp_simps)
next
  case False
  then have ne: "ps \<noteq> []" by simp
  define tm where "tm = (if bel then [CHR 0x07] else [ESC, CHR 0x5C])"
  have dyn: "wp (case parse_number (hd ps) of None \<Rightarrow> Some (suffix, [])
        | Some n \<Rightarrow> map_option (\<lambda>cs. (suffix, cs)) (osc_dynamic_colors E tm (unat n) (tl ps)))
      (\<lambda>(s, cs). calls_ok cs)"
    if "hd ps = bytes_of ''10'' \<or> hd ps = bytes_of ''11'' \<or> hd ps = bytes_of ''12''"
  proof -
    have len: "\<forall>a \<in> set (tl ps). length a \<le> 47"
      by (rule event_safeD(2) [OF assms(2) ne]) (use that in \<open>auto simp: color_codes_def\<close>)
    from that numbers_10_12 obtain n where n: "parse_number (hd ps) = Some n" "10 \<le> unat n" by auto
    show ?thesis
      unfolding n option.case wp_map_option prod.case by (rule osc_dynamic_colors_wp [OF n(2) len])
  qed
  have set: "wp (osc_set_colors E tm (tl ps)) calls_ok" if "hd ps = bytes_of ''4''"
    by (rule osc_set_colors_wp, rule event_safeD(2) [OF assms(2) ne]) (simp add: that color_codes_def)
  have dir: "wp (osc_directory E (tl ps)) calls_ok" if "hd ps = bytes_of ''7''"
    by (rule osc_directory_wp [OF assms(1) event_safeD(1) [OF assms(2) ne that]])
  show ?thesis
    unfolding osc_calls_def Let_def tm_def [symmetric]
    by (intro wp_ifI)
      (use False dyn set dir osc_lists_ok osc_reset_colors_ok in
        \<open>simp_all add: wp_simps case_prod_unfold COLOR_COUNT_def split: option.splits\<close>)
qed

subsection \<open>The contract of a handler\<close>

text \<open>What the dispatcher asks of a handler: every method returns and keeps the handler's invariant. The
  invariant is indexed by a number of images the handler can still take, for a handler that counts them.\<close>

locale handler_contract =
  fixes H :: "'h handler" and inv :: "nat \<Rightarrow> 'h \<Rightarrow> bool"
  assumes fewer: "inv (Suc k) h \<Longrightarrow> inv k h"
    and keeps_call: "inv k h \<Longrightarrow> call_ok c \<Longrightarrow> wp (h_call H c h) (inv k)"
    and keeps_start: "inv k h \<Longrightarrow> params_rep ps gs g \<Longrightarrow> wp (h_sixel_start H ps h) (inv k)"
    and keeps_sixel: "inv k h \<Longrightarrow> wp (h_sixel_put H b h) (\<lambda>(h, ok). inv k h)"
      "inv k h \<Longrightarrow> wp (h_sixel_reset H h) (inv k)" "inv (Suc k) h \<Longrightarrow> wp (h_sixel_finish H h) (inv k)"
    and keeps_images: "inv (Suc k) h \<Longrightarrow> wp (h_iterm2 H qs h) (inv k)" "inv (Suc k) h \<Longrightarrow> wp (h_kitty H control payload h) (inv k)"
begin

lemma keeps_calls: "inv k h \<Longrightarrow> calls_ok cs \<Longrightarrow> wp (run_calls H h cs) (inv k)"
  unfolding run_calls_def
proof (induction cs arbitrary: h)
  case (Cons c cs)
  then obtain h' where "h_call H c h = Some h'" "inv k h'" using keeps_call [of k h c] by (auto simp: wp_iff)
  with Cons show ?case by simp
qed (simp add: wp_simps)

lemma keeps_apc: "inv (Suc k) h \<Longrightarrow> wp (process_apc_buffer H h buffer) (inv k)"
  by (simp add: process_apc_buffer_def Let_def keeps_images fewer wp_simps)

lemma keeps_put:
  assumes "inv k h"
  shows "wp (perform E H (s, h) (Put b)) (\<lambda>(s', h'). inv k h')"
proof -
  obtain h1 ok where 1: "h_sixel_put H b h = Some (h1, ok)" "inv k h1"
    using keeps_sixel(1) [OF assms, of b] by (auto simp: wp_iff)
  then show ?thesis
    using assms keeps_sixel(2) [OF 1(2)] by (auto simp: perform_def wp_simps)
qed

theorem performing_keeps:
  assumes "perf_env_ok E" "event_wf e" "event_safe e" "inv (Suc k) h"
  shows "wp (perform E H (s, h) e) (\<lambda>(s', h'). inv k h')"
proof (cases e)
  case (Put b)
  with keeps_put [OF fewer [OF assms(4)]] show ?thesis by simp
next
  case (OscDispatch ps bel)
  have "wp (osc_calls E (hyperlink_suffix s) ps bel) (\<lambda>(_, cs). wp (run_calls H h cs) (inv k))"
    by (rule wp_mono [OF osc_calls_wp]) (use assms OscDispatch keeps_calls fewer in auto)
  with OscDispatch assms(4) keeps_images show ?thesis
    by (simp add: perform_def wp_simps case_prod_unfold)
next
  case (CsiDispatch ps ints ign action)
  with assms(2) obtain gs cur where "params_rep ps gs cur" by auto
  then have it: "params_iter ps = Some (all_groups gs cur)" "no_empty (all_groups gs cur)"
    by (rule params_iter_rep, auto simp: no_empty_def all_groups_def params_rep_def)
  have "wp (csi_calls (preceding_char s) (all_groups gs cur) ints ign action) (\<lambda>(_, cs). wp (run_calls H h cs) (inv k))"
    by (rule wp_mono [OF csi_calls_wp [OF it(2)]]) (use assms(4) keeps_calls fewer in auto)
  with CsiDispatch it(1) show ?thesis
    by (simp add: perform_def wp_simps case_prod_unfold)
next
  case (Hook ps ints ign action)
  with assms(2) obtain gs cur where "params_rep ps gs cur" by auto
  from keeps_start [OF fewer [OF assms(4)] this] Hook fewer [OF assms(4)] show ?thesis
    by (simp add: perform_def wp_simps keeps_call)
qed (use assms(4) fewer [OF assms(4)] execute_calls_ok esc_calls_ok in
  \<open>simp_all add: perform_def wp_simps keeps_call keeps_calls keeps_sixel keeps_apc\<close>)

lemma performing_all_keeps:
  assumes "perf_env_ok E" "inv (length es + k) h" "list_all event_wf es" "list_all event_safe es"
  shows "wp (perform_all E H (s, h) es) (\<lambda>(s', h'). inv k h')"
  unfolding perform_all_def
  using assms(2-4)
proof (induction es arbitrary: s h)
  case (Cons e es)
  then obtain s' h' where "perform E H (s, h) e = Some (s', h')" "inv (length es + k) h'"
    using performing_keeps [OF assms(1), of e "length es + k" h s] by (auto simp: wp_iff)
  with Cons show ?case by simp
qed (simp add: wp_simps)

end

end
