(* ===== verification/ProcProps.thy ===== *)
theory ProcProps
  imports Processor PerfKeep
begin

text \<open>
  Batching changes nothing, and what a synchronized update does to the input: it is kept back as long as
  neither an end nor a new begin is complete in the buffer, and then parsed in one piece.
\<close>

subsection \<open>Batching\<close>

definition batched_ok :: "batched_parser \<Rightarrow> bool" where
  \<comment> \<open>nothing is left in the buffer between two calls\<close>
  "batched_ok B \<longleftrightarrow> parser_inv (bp_parser B) \<and> input_buffer B = [] \<and> 0 < batch_threshold B"

lemma batched_new_ok: "batched_ok batched_new"
  by (simp add: batched_ok_def batched_new_def parser_inv_new)

context text_lib_spec
begin

lemma advance_until_loop_all:
  assumes "parser_inv q" "partial_utf8_len q = 0 \<or> i = length bytes" "i \<le> length bytes"
  shows "advance_until_loop lib (\<lambda>_. False) q bytes i es =
    map_option (\<lambda>(q', es'). (q', es', length bytes)) (advance_loop lib q bytes i es)"
  using assms
proof (induction "length bytes - i" arbitrary: q i es rule: less_induct)
  case less
  show ?case
  proof (cases "i = length bytes")
    case True
    then show ?thesis by (simp add: advance_until_loop.simps advance_loop.simps)
  next
    case False
    with less.prems have "wp (advance_once lib q bytes i) (chunk_ok bytes (Suc i))"
      by (intro wp_advance_once) auto
    then obtain q' es' j where once: "advance_once lib q bytes i = Some (q', es', j)"
      and ok: "chunk_ok bytes (Suc i) (q', es', j)"
      by (metis prod_cases3 wpE)
    from ok have "advance_until_loop lib (\<lambda>_. False) q' bytes j (es @ es') =
        map_option (\<lambda>(q', es'). (q', es', length bytes)) (advance_loop lib q' bytes j (es @ es'))"
      using False less.prems by (intro less.hyps) (auto simp: chunk_ok_def)
    with once False show ?thesis
      by (subst advance_until_loop.simps, subst advance_loop.simps) simp
  qed
qed

lemma advance_until_all:
  assumes "parser_inv p"
  shows "advance_until_terminated lib (\<lambda>_. False) p bytes =
    map_option (\<lambda>(q, es). (q, es, length bytes)) (advance lib p bytes)"
proof -
  from wp_advance_start [OF assms, of bytes]
  obtain r fs j where "advance_start lib p bytes = Some (r, fs, j)" "chunk_ok bytes 0 (r, fs, j)"
    by (metis prod_cases3 wpE)
  then show ?thesis
    using advance_until_loop_all [of r j bytes fs]
    by (simp add: advance_until_terminated_def advance_def chunk_ok_def)
qed

lemma batched_run:
  assumes "batched_ok B"
  shows "\<exists>p es. advance lib (bp_parser B) bytes = Some (p, es) \<and> list_all event_wf es \<and> batched_ok (B\<lparr>bp_parser := p\<rparr>) \<and>
    batched_advance lib B bytes = Some (B\<lparr>bp_parser := p\<rparr>, es) \<and>
    batched_until lib (\<lambda>_. False) B bytes = Some (B\<lparr>bp_parser := p\<rparr>, es, length bytes)"
proof -
  have inv: "parser_inv (bp_parser B)" and e: "input_buffer B = []" using assms by (simp_all add: batched_ok_def)
  obtain p es where a: "advance lib (bp_parser B) bytes = Some (p, es)" "parser_inv p" "list_all event_wf es"
    using wp_advance [OF inv, of bytes] by (auto simp: wp_iff)
  have B: "B\<lparr>input_buffer := bytes, bp_parser := p, input_buffer := []\<rparr> = B\<lparr>bp_parser := p\<rparr>"
    using e by (cases B) simp
  have ne: "bytes \<noteq> []" if "\<not> length bytes < batch_threshold B" using that assms by (auto simp: batched_ok_def)
  have "batched_ok (B\<lparr>bp_parser := p\<rparr>)" using assms a(2) by (simp add: batched_ok_def)
  with a e ne B show ?thesis
    by (auto simp: batched_advance_def batched_until_def advance_until_all [OF inv] Let_def flush_batch_def)
qed

end

subsection \<open>The invariant of the processor\<close>

definition processor_ok :: "processor \<Rightarrow> bool" where
  "processor_ok P \<longleftrightarrow> batched_ok (pr_parser P)"

definition perf_lib_ok :: "perf_env \<Rightarrow> bool" where
  \<comment> \<open>what the documentation of the packages promises\<close>
  "perf_lib_ok E \<longleftrightarrow> text_lib_spec (pe_lib E) \<and>
     (\<forall>b xs. memchr_iter E b xs = filter (\<lambda>i. xs ! i = b) [0..<length xs])"

definition parsed :: "perf_env \<Rightarrow> processor \<Rightarrow> u8 list \<Rightarrow> (parser \<times> event list) option" where
  \<comment> \<open>the plain parser on the whole input\<close>
  "parsed E P bytes = advance (pe_lib E) (bp_parser (pr_parser P)) bytes"

definition with_parser :: "processor \<Rightarrow> parser \<Rightarrow> perf_state \<Rightarrow> processor" where
  "with_parser P p s = \<lparr>pr_state = s, pr_parser = (pr_parser P)\<lparr>bp_parser := p\<rparr>\<rparr>"

lemma processor_updates [simp]:
  "P\<lparr>pr_state := s, pr_parser := B\<rparr> = \<lparr>pr_state = s, pr_parser = B\<rparr>"
  "P\<lparr>pr_parser := B, pr_state := s\<rparr> = \<lparr>pr_state = s, pr_parser = B\<rparr>"
  by (cases P; simp)+

lemma with_parser_ok: "processor_ok P \<Longrightarrow> parser_inv p \<Longrightarrow> processor_ok (with_parser P p s)"
  by (simp add: processor_ok_def with_parser_def batched_ok_def)

lemma perf_libD:
  assumes "perf_lib_ok E"
  shows "text_lib_spec (pe_lib E)" "memchr_iter E b xs = filter (\<lambda>i. xs ! i = b) [0..<length xs]"
  using assms by (simp_all add: perf_lib_ok_def)

lemma parsed_ok:
  assumes "perf_lib_ok E" "processor_ok P"
  shows "\<exists>p es. parsed E P bytes = Some (p, es) \<and> list_all event_wf es \<and> parser_inv p"
  using text_lib_spec.batched_run [OF perf_libD(1) [OF assms(1)], of "pr_parser P" bytes] assms(2)
  by (auto simp: parsed_def processor_ok_def batched_ok_def)

lemma advance_parsed_eq:
  assumes "perf_lib_ok E" "processor_ok P" "parsed E P bytes = Some (p, es)"
  shows "advance_parsed E H (P, h) bytes =
    map_option (\<lambda>(s, h). ((with_parser P p s, h), length bytes)) (perform_all E H (pr_state P, h) es)"
  using text_lib_spec.batched_run [OF perf_libD(1) [OF assms(1)], of "pr_parser P" bytes] assms(2,3)
  by (auto simp: parsed_def processor_ok_def advance_parsed_def perform_parsed_def with_parser_def
      bind_Some_map option.map_comp comp_def case_prod_unfold)

lemma processor_advance_once:
  assumes "bytes \<noteq> []" "processor_step E H Ph bytes = map_option (\<lambda>x. (x, length bytes)) m"
  shows "processor_advance E H Ph bytes = m"
  using assms by (cases m) (simp_all add: processor_advance_def processor_loop.simps)

lemma stop_sync_eq:
  assumes "perf_lib_ok E" "processor_ok P" "parsed E P (sync_buffer (pr_state P)) = Some (p, es)"
  shows "stop_sync_internal E H (P, h) None =
    Option.bind (perform_all E H ((pr_state P)\<lparr>sync_buffer := []\<rparr>, h) es) (\<lambda>(s, h).
      map_option (\<lambda>h. (with_parser P p (s\<lparr>sync_pending := False, sync_buffer := []\<rparr>), h))
        (h_call H (UnsetPrivateMode (private_mode_new 2026)) h))"
proof -
  let ?B = "(pr_parser P)\<lparr>bp_parser := p\<rparr>" and ?m = "perform_all E H ((pr_state P)\<lparr>sync_buffer := []\<rparr>, h) es"
  have a: "batched_advance (pe_lib E) (pr_parser P) (sync_buffer (pr_state P)) = Some (?B, es)"
    and f: "batched_flush (pe_lib E) ?B = Some (?B, [])"
    using text_lib_spec.batched_run [OF perf_libD(1) [OF assms(1)], of "pr_parser P" "sync_buffer (pr_state P)"] assms(2,3)
    by (auto simp: parsed_def processor_ok_def batched_ok_def batched_flush_def)
  show ?thesis
  proof (cases ?m)
    case None
    with a show ?thesis by (simp add: stop_sync_internal_def with_sync_def subslice_def perform_parsed_def)
  next
    case (Some sh)
    obtain s h' where sh: "sh = (s, h')" by force
    have "processor_flush E H (with_parser P p s, h') = Some (with_parser P p s, h')"
      using f by (simp add: processor_flush_def with_parser_def perform_parsed_def perform_all_def)
    with Some sh a show ?thesis
      by (simp add: stop_sync_internal_def with_sync_def subslice_def perform_parsed_def with_parser_def bind_Some_map)
  qed
qed

subsection \<open>Keeping the input back\<close>

definition escape_at :: "u8 list \<Rightarrow> u8 list \<Rightarrow> nat \<Rightarrow> bool" where
  "escape_at esc buffer i \<longleftrightarrow> take SYNC_ESCAPE_LEN (drop i buffer) = esc"

lemma csi_len: "length BSU_CSI = SYNC_ESCAPE_LEN" "length ESU_CSI = SYNC_ESCAPE_LEN" "BSU_CSI \<noteq> ESU_CSI"
  "hd BSU_CSI = 0x1B" "hd ESU_CSI = 0x1B"
  by (simp_all add: BSU_CSI_def ESU_CSI_def SYNC_ESCAPE_LEN_def bytes_of_def of_char_def)

lemma escape_at_bound: "escape_at esc buffer i \<Longrightarrow> length esc = SYNC_ESCAPE_LEN \<Longrightarrow> i + SYNC_ESCAPE_LEN \<le> length buffer"
  by (auto simp: escape_at_def SYNC_ESCAPE_LEN_def dest!: arg_cong [where f = length])

lemma escape_at_append: "escape_at esc buffer i \<Longrightarrow> length esc = SYNC_ESCAPE_LEN \<Longrightarrow> escape_at esc (buffer @ rest) i"
  using escape_at_bound [of esc buffer i] by (simp add: escape_at_def)

lemma scan_none:
  assumes "\<forall>k \<in> set ks. k + SYNC_ESCAPE_LEN \<le> length (sync_buffer (pr_state P)) \<and>
    \<not> escape_at BSU_CSI (sync_buffer (pr_state P)) k \<and> \<not> escape_at ESU_CSI (sync_buffer (pr_state P)) k"
  shows "sync_scan E H (ks @ ls) off (P, h) = sync_scan E H ls off (P, h)"
  using assms by (induction ks) (auto simp: subslice_def escape_at_def)

lemma scan_end:
  assumes "escape_at ESU_CSI (sync_buffer (pr_state P)) k"
  shows "sync_scan E H (k # ks) off (P, h) = stop_sync_internal E H (P, h) off"
  using escape_at_bound [OF assms csi_len(2)] assms csi_len(3)
  by (simp add: subslice_def escape_at_def)

definition new_offsets :: "u8 list \<Rightarrow> nat \<Rightarrow> nat list" where
  \<comment> \<open>the escapes in front of which the last eight bytes are not all old\<close>
  "new_offsets buffer old_len = filter (\<lambda>i. buffer ! i = 0x1B) [old_len - 7..<length buffer - 7]"

lemma filter_subslice:
  assumes "s \<le> e" "e \<le> length xs"
  shows "map (\<lambda>i. s + i) (filter (\<lambda>i. take (e - s) (drop s xs) ! i = b) [0..<e - s]) =
    filter (\<lambda>i. xs ! i = b) [s..<e]"
proof -
  have "[s..<e] = map (\<lambda>i. i + s) [0..<e - s]"
    unfolding map_add_upt add_0 le_add_diff_inverse2 [OF assms(1)] ..
  then have u: "[s..<e] = map (\<lambda>i. s + i) [0..<e - s]" by (simp add: add.commute)
  have "filter (\<lambda>i. take (e - s) (drop s xs) ! i = b) [0..<e - s] = filter (\<lambda>i. xs ! (s + i) = b) [0..<e - s]"
    using assms by (intro filter_cong) auto
  then show ?thesis unfolding u filter_map comp_def by simp
qed

lemma advance_sync_csi_eq:
  assumes "perf_lib_ok E" "sync_buffer (pr_state P) = old @ new"
  shows "advance_sync_csi E H (P, h) (length new) =
    sync_scan E H (rev (new_offsets (old @ new) (length old))) None (P, h)"
proof -
  obtain xs s e where x: "xs = old @ new" "s = length old - 7" "e = length xs - 7" by simp
  then have le: "s \<le> e" "e \<le> length xs" by auto
  have "advance_sync_csi E H (P, h) (length new) =
      sync_scan E H (map (\<lambda>i. s + i) (rev (memchr_iter E 0x1B (take (e - s) (drop s xs))))) None (P, h)"
    using assms(2) le x by (simp add: advance_sync_csi_def usub_def SYNC_ESCAPE_LEN_def subslice_def Let_def)
  also have "memchr_iter E 0x1B (take (e - s) (drop s xs)) =
      filter (\<lambda>i. take (e - s) (drop s xs) ! i = 0x1B) [0..<e - s]"
    unfolding perf_libD(2) [OF assms(1)] using le by (simp add: min_absorb2)
  also have "map (\<lambda>i. s + i) (rev (filter (\<lambda>i. take (e - s) (drop s xs) ! i = 0x1B) [0..<e - s])) =
      rev (new_offsets xs (length old))"
    using arg_cong [where f = rev, OF filter_subslice [OF le, of "0x1B"]]
    by (simp only: rev_map new_offsets_def x(2,3))
  finally show ?thesis by (simp add: x(1))
qed

lemma new_offsets_set:
  "k \<in> set (new_offsets buffer n) \<longleftrightarrow> n - 7 \<le> k \<and> k + SYNC_ESCAPE_LEN \<le> length buffer \<and> buffer ! k = 0x1B"
  by (auto simp: new_offsets_def SYNC_ESCAPE_LEN_def)

lemma escape_at_first:
  assumes "escape_at esc buffer k" "length esc = SYNC_ESCAPE_LEN" "hd esc = 0x1B"
  shows "buffer ! k = 0x1B"
  using assms escape_at_bound [OF assms(1,2)]
  by (auto simp: escape_at_def SYNC_ESCAPE_LEN_def hd_drop_conv_nth)

text \<open>The offsets with the last end of an update singled out.\<close>

lemma new_offsets_last:
  assumes "escape_at ESU_CSI buffer k" "n < k + SYNC_ESCAPE_LEN"
  shows "\<exists>later earlier. rev (new_offsets buffer n) = later @ k # earlier \<and>
    (\<forall>j \<in> set later. k < j \<and> j + SYNC_ESCAPE_LEN \<le> length buffer)"
proof -
  have "k \<in> set (new_offsets buffer n)"
    using escape_at_bound [OF assms(1) csi_len(2)] escape_at_first [OF assms(1) csi_len(2,5)] assms(2)
    by (simp add: new_offsets_set SYNC_ESCAPE_LEN_def)
  then obtain xs ys where s: "new_offsets buffer n = xs @ k # ys" by (auto simp: in_set_conv_decomp)
  have "sorted_wrt (<) (new_offsets buffer n)" by (simp add: new_offsets_def sorted_wrt_filter)
  then have "\<forall>j \<in> set ys. k < j" by (simp add: s sorted_wrt_append)
  moreover have "\<forall>j \<in> set ys. j + SYNC_ESCAPE_LEN \<le> length buffer"
    using new_offsets_set [of _ buffer n] by (auto simp: s)
  ultimately show ?thesis by (intro exI [of _ "rev ys"] exI [of _ "rev xs"]) (simp add: s)
qed

definition with_sync_end :: "processor \<Rightarrow> parser \<Rightarrow> perf_state \<Rightarrow> processor" where
  "with_sync_end P p s = with_parser P p (s\<lparr>sync_pending := False, sync_buffer := []\<rparr>)"

definition sync_quiet :: "u8 list \<Rightarrow> bool" where
  \<comment> \<open>the bytes hold neither a begin nor an end of an update\<close>
  "sync_quiet buffer \<longleftrightarrow> (\<forall>i. \<not> escape_at BSU_CSI buffer i \<and> \<not> escape_at ESU_CSI buffer i)"

lemma sync_quiet_prefix: "sync_quiet (xs @ ys) \<Longrightarrow> sync_quiet xs"
  using escape_at_append csi_len(1,2) unfolding sync_quiet_def by blast

lemma chunk_kept_back:
  assumes "perf_lib_ok E" "sync_pending (pr_state P)" "sync_buffer (pr_state P) = old"
    and "length (old @ new) < SYNC_BUFFER_SIZE - 1" "sync_quiet (old @ new)"
  shows "processor_advance E H (P, h) new = Some (with_sync P (old @ new), h)"
proof (cases "new = []")
  case True
  with assms(3) show ?thesis by (simp add: processor_advance_def processor_loop.simps with_sync_def)
next
  case False
  have b: "sync_buffer (pr_state (with_sync P (old @ new))) = old @ new" by (simp add: with_sync_def)
  have "sync_scan E H (rev (new_offsets (old @ new) (length old)) @ []) None (with_sync P (old @ new), h) =
      sync_scan E H [] None (with_sync P (old @ new), h)"
    by (rule scan_none) (use assms(5) in \<open>auto simp: b sync_quiet_def new_offsets_set\<close>)
  with advance_sync_csi_eq [OF assms(1) b, of H h]
  have "advance_sync_csi E H (with_sync P (old @ new), h) (length new) = Some (with_sync P (old @ new), h)" by simp
  with assms(2-4)
  have "processor_step E H (P, h) new = map_option (\<lambda>x. (x, length new)) (Some (with_sync P (old @ new), h))"
    by (simp add: processor_step_def advance_sync_def)
  from processor_advance_once [OF False this] show ?thesis .
qed

lemma chunk_ends:
  assumes "perf_lib_ok E" "processor_ok P" "sync_pending (pr_state P)" "sync_buffer (pr_state P) = old"
    and "length (old @ new) < SYNC_BUFFER_SIZE - 1" "new \<noteq> []"
    and "escape_at ESU_CSI (old @ new) k" "length old < k + SYNC_ESCAPE_LEN"
    and "\<forall>j > k. \<not> escape_at BSU_CSI (old @ new) j \<and> \<not> escape_at ESU_CSI (old @ new) j"
    and "parsed E P (old @ new) = Some (p, es)"
  shows "processor_advance E H (P, h) new =
    Option.bind (perform_all E H ((pr_state P)\<lparr>sync_buffer := []\<rparr>, h) es) (\<lambda>(s, h).
      map_option (\<lambda>h. (with_sync_end P p s, h)) (h_call H (UnsetPrivateMode (private_mode_new 2026)) h))"
proof -
  let ?P = "with_sync P (old @ new)"
  have b: "sync_buffer (pr_state ?P) = old @ new" by (simp add: with_sync_def)
  obtain later earlier where o: "rev (new_offsets (old @ new) (length old)) = later @ k # earlier"
    "\<forall>j \<in> set later. k < j \<and> j + SYNC_ESCAPE_LEN \<le> length (old @ new)"
    using new_offsets_last [OF assms(7,8)] by blast
  have "sync_scan E H (later @ k # earlier) None (?P, h) = sync_scan E H (k # earlier) None (?P, h)"
    by (rule scan_none) (use o(2) assms(9) in \<open>auto simp: b\<close>)
  also have "\<dots> = stop_sync_internal E H (?P, h) None" by (rule scan_end) (simp add: b assms(7))
  finally have "advance_sync_csi E H (?P, h) (length new) = stop_sync_internal E H (?P, h) None"
    using advance_sync_csi_eq [OF assms(1) b, of H h] o(1) by metis
  then have "processor_step E H (P, h) new = map_option (\<lambda>x. (x, length new)) (stop_sync_internal E H (?P, h) None)"
    using assms(3-5) by (simp add: processor_step_def advance_sync_def bind_Some_map)
  from processor_advance_once [OF assms(6) this] show ?thesis
    using stop_sync_eq [OF assms(1), of ?P p es H h] assms(2,10)
    by (simp add: b processor_ok_def parsed_def with_sync_def with_parser_def with_sync_end_def)
qed

lemma chunks_kept_back:
  assumes "perf_lib_ok E" "sync_pending (pr_state P)" "sync_buffer (pr_state P) = old"
    and "length (old @ concat cs) < SYNC_BUFFER_SIZE - 1" "sync_quiet (old @ concat cs)"
  shows "processor_feed E H (P, h) cs = Some (with_sync P (old @ concat cs), h)"
  using assms(2-)
proof (induction cs arbitrary: P old)
  case Nil
  then show ?case by (simp add: with_sync_def)
next
  case (Cons c cs)
  let ?P = "with_sync P (old @ c)"
  have "processor_advance E H (P, h) c = Some (?P, h)"
    using Cons.prems sync_quiet_prefix [of "old @ c" "concat cs"]
    by (intro chunk_kept_back [OF assms(1)]) auto
  moreover have "processor_feed E H (?P, h) cs = Some (with_sync ?P ((old @ c) @ concat cs), h)"
    using Cons.prems by (intro Cons.IH) (auto simp: with_sync_def)
  ultimately show ?case by (simp add: with_sync_def)
qed

lemma processor_feed_snoc:
  "processor_feed E H Ph (cs @ [c]) = Option.bind (processor_feed E H Ph cs) (\<lambda>Ph. processor_advance E H Ph c)"
proof (induction cs arbitrary: Ph)
  case Nil
  show ?case by (cases "processor_advance E H Ph c") simp_all
next
  case (Cons a cs)
  then show ?case by (cases "processor_advance E H Ph a") simp_all
qed

subsection \<open>Without an update\<close>

definition begins_update :: "event \<Rightarrow> bool" where
  \<comment> \<open>the control sequence sets private mode 2026, perhaps among others\<close>
  "begins_update e = (case e of
     CsiDispatch ps ints _ action \<Rightarrow> action = 0x68 \<and> ints = [0x3F] \<and>
       2026 \<in> set (case Option.bind (params_iter ps) first_values of None \<Rightarrow> [] | Some ms \<Rightarrow> ms)
   | _ \<Rightarrow> False)"

lemma csi_calls_sync:
  assumes "csi_calls c gs ints ign action = Some (True, cs)"
  shows "action = 0x68 \<and> ints = [0x3F] \<and> (\<exists>ms. first_values gs = Some ms \<and> 2026 \<in> set ms)"
proof -
  have "csi_marked gs ints action = Some (True, cs)"
    using assms by (auto simp: csi_calls_def split: if_splits)
  then show ?thesis
    by (auto simp: csi_marked_def Let_def case_prod_unfold split: if_splits)
qed

lemma perform_sync_pending:
  assumes "perform E H (s, h) e = Some (s', h')" "\<not> sync_pending s" "\<not> begins_update e"
  shows "\<not> sync_pending s'"
proof (cases e)
  case (CsiDispatch ps ints ign action)
  with assms(1) obtain gs sync cs where "params_iter ps = Some gs"
    "csi_calls (preceding_char s) gs ints ign action = Some (sync, cs)" "s' = (if sync then s\<lparr>sync_pending := True\<rparr> else s)"
    by (auto simp: perform_def bind_eq_Some_conv)
  with assms(2,3) CsiDispatch show ?thesis
    by (auto simp: begins_update_def dest!: csi_calls_sync)
qed (use assms in \<open>auto simp: perform_def bind_eq_Some_conv split: if_splits\<close>)

lemma perform_all_sync_pending:
  assumes "perform_all E H (s, h) es = Some (s', h')" "\<not> sync_pending s" "\<forall>e \<in> set es. \<not> begins_update e"
  shows "\<not> sync_pending s'"
  using assms
proof (induction es arbitrary: s h)
  case (Cons e es)
  then show ?case using perform_sync_pending [of E H s h e]
    by (force simp: perform_all_def split: option.splits)
qed (simp add: perform_all_def)

lemma plain_advance:
  assumes "perf_lib_ok E" "processor_ok P" "\<not> sync_pending (pr_state P)" "bytes \<noteq> []" "parsed E P bytes = Some (p, es)"
  shows "processor_advance E H (P, h) bytes =
    map_option (\<lambda>(s, h). (with_parser P p s, h)) (perform_all E H (pr_state P, h) es)"
proof -
  have "processor_step E H (P, h) bytes =
      map_option (\<lambda>x. (x, length bytes)) (map_option (\<lambda>(s, h). (with_parser P p s, h)) (perform_all E H (pr_state P, h) es))"
    using assms(3) advance_parsed_eq [OF assms(1,2,5), of H h]
    by (simp add: processor_step_def option.map_comp comp_def case_prod_unfold)
  from processor_advance_once [OF assms(4) this] show ?thesis .
qed

lemma plain_feed:
  assumes "perf_lib_ok E" "processor_ok P" "\<not> sync_pending (pr_state P)" "[] \<notin> set cs"
    and "feed (pe_lib E) (bp_parser (pr_parser P)) cs = Some (p, es)" "\<forall>e \<in> set es. \<not> begins_update e"
  shows "processor_feed E H (P, h) cs =
    map_option (\<lambda>(s, h). (with_parser P p s, h)) (perform_all E H (pr_state P, h) es)"
  using assms(2-)
proof (induction cs arbitrary: P h es)
  case Nil
  then show ?case by (cases P) (simp add: perform_all_def with_parser_def)
next
  case (Cons c cs)
  obtain q fs where q: "parsed E P c = Some (q, fs)" "parser_inv q"
    using parsed_ok [OF assms(1) Cons.prems(1)] by blast
  with Cons.prems(4) obtain gs where gs: "feed (pe_lib E) q cs = Some (p, gs)" "es = fs @ gs"
    by (auto simp: parsed_def after_eq_Some)
  have step: "processor_advance E H (P, h) c =
      map_option (\<lambda>(s, h). (with_parser P q s, h)) (perform_all E H (pr_state P, h) fs)"
    using Cons.prems q(1) by (intro plain_advance [OF assms(1)]) auto
  show ?case
  proof (cases "perform_all E H (pr_state P, h) fs")
    case None
    with step show ?thesis by (simp add: gs(2) perform_all_def foldM_append)
  next
    case (Some sh)
    obtain s h' where sh: "sh = (s, h')" by force
    have "processor_feed E H (with_parser P q s, h') cs =
        map_option (\<lambda>(s, h). (with_parser (with_parser P q s) p s, h)) (perform_all E H (s, h') gs)"
      using Cons.IH [of "with_parser P q s" gs h'] Cons.prems q(2) gs Some
        perform_all_sync_pending [of E H "pr_state P" h fs s h'] with_parser_ok [of P q s]
      by (auto simp: with_parser_def sh)
    with Some sh step show ?thesis
      by (simp add: gs(2) perform_all_def foldM_append with_parser_def)
  qed
qed

subsection \<open>A handler that writes down its calls\<close>

definition log_handler :: "call list handler" where
  "log_handler = \<lparr>h_call = (\<lambda>c h. Some (h @ [c])), h_sixel_start = (\<lambda>_. Some), h_sixel_active = (\<lambda>_. False),
     h_sixel_put = (\<lambda>_ h. Some (h, True)), h_sixel_reset = Some, h_sixel_finish = Some,
     h_iterm2 = (\<lambda>_. Some), h_kitty = (\<lambda>_ _. Some)\<rparr>"

lemma log_contract: "handler_contract log_handler (\<lambda>_ _. True)"
  by unfold_locales (simp_all add: log_handler_def wp_simps)

definition plain_perf_env :: perf_env where
  "plain_perf_env = \<lparr>pe_lib = std_text_lib, memchr_iter = (\<lambda>b xs. filter (\<lambda>i. xs ! i = b) [0..<length xs]),
     url_path = (\<lambda>_. None), cursor_icon_from_str = (\<lambda>_. None), pe_windows = False\<rparr>"

lemma plain_perf_env_ok: "perf_lib_ok plain_perf_env" "perf_env_ok plain_perf_env"
  using std_lib.text_lib_spec_axioms by (simp_all add: perf_lib_ok_def perf_env_ok_def plain_perf_env_def)

definition updating :: "processor" where
  \<comment> \<open>a new processor that has just seen the begin of an update\<close>
  "updating = \<lparr>pr_state = perf_state_new\<lparr>sync_pending := True\<rparr>, pr_parser = batched_new\<rparr>"

lemma updating_ok: "processor_ok updating" "processor_ok processor_new"
  by (simp_all add: updating_def processor_new_def processor_ok_def batched_new_ok)

subsection \<open>Properties\<close>

text \<open>C6. Batching and the loops of \<open>Processor::advance\<close> change nothing: however the input is cut into
  chunks, and however large they are, as long as no control sequence in it begins a synchronized
  update the processor leaves the terminal and its own state as the plain parser on the same chunks,
  followed by the performance of its events, does; and the loop ends.\<close>

theorem processor_is_parser_then_performer:
  assumes "perf_lib_ok E" "processor_ok P" "\<not> sync_pending (pr_state P)" "[] \<notin> set cs"
    and "feed (pe_lib E) (bp_parser (pr_parser P)) cs = Some (p, es)" "\<forall>e \<in> set es. \<not> begins_update e"
  shows "processor_feed E H (P, h) cs =
    map_option (\<lambda>(s, h). (with_parser P p s, h)) (perform_all E H (pr_state P, h) es)"
  using plain_feed [OF assms] .

theorem processor_is_parser_then_performer_witness:
  "processor_feed plain_perf_env log_handler (processor_new, []) [[0xC3], [0xA9, 0x41, 0xE2, 0x82, 0xAC]] =
    Some (with_parser processor_new split_q (perf_state_new\<lparr>preceding_char := Some 0x20AC\<rparr>), [Input 0xE9, Input 0x20AC])"
  using processor_is_parser_then_performer [OF plain_perf_env_ok(1) updating_ok(2), of "[[0xC3], [0xA9, 0x41, 0xE2, 0x82, 0xAC]]"
      split_q "[Print 0xE9, Print 0x20AC]" log_handler "[]"] split_run
  by (simp add: processor_new_def batched_new_def perf_state_new_def plain_perf_env_def begins_update_def
      perform_all_def perform_def log_handler_def)

text \<open>C7. A synchronized update is atomic: while it is pending, chunks are kept back and neither the
  terminal nor the parser sees them, and when the escape sequence that ends it is complete, also when
  it is cut over several chunks, everything kept back is parsed in one piece, private mode 2026 is reset and
  the update is over. The buffer has room for two megabytes.\<close>

theorem synchronized_update_is_atomic:
  assumes "perf_lib_ok E" "processor_ok P" "sync_pending (pr_state P)" "sync_buffer (pr_state P) = []"
    and "concat ds @ d = content @ ESU_CSI" "d \<noteq> []" "length content < SYNC_BUFFER_SIZE - 9"
    and "\<forall>j. \<not> escape_at BSU_CSI (content @ ESU_CSI) j"
    and "\<forall>j. escape_at ESU_CSI (content @ ESU_CSI) j \<longleftrightarrow> j = length content"
    and "parsed E P (content @ ESU_CSI) = Some (p, es)"
  shows "processor_feed E H (P, h) ds = Some (with_sync P (concat ds), h) \<and>
    processor_feed E H (P, h) (ds @ [d]) =
      Option.bind (perform_all E H (pr_state P, h) es) (\<lambda>(s, h).
        map_option (\<lambda>h. (with_sync_end P p s, h)) (h_call H (UnsetPrivateMode (private_mode_new 2026)) h))"
proof -
  have whole: "length (concat ds @ d) = length content + 8"
    using assms(5) csi_len(2) by (simp add: SYNC_ESCAPE_LEN_def)
  then have fit: "length (concat ds @ d) < SYNC_BUFFER_SIZE - 1" using assms(7) by simp
  have lt: "length (concat ds) < length content + SYNC_ESCAPE_LEN"
    using whole assms(6) by (cases d) (simp_all add: SYNC_ESCAPE_LEN_def)
  have quiet: "sync_quiet (concat ds)"
  proof -
    have "\<not> escape_at BSU_CSI (concat ds) j" "\<not> escape_at ESU_CSI (concat ds) j" for j
    proof -
      show "\<not> escape_at BSU_CSI (concat ds) j"
        using escape_at_append [OF _ csi_len(1), of "concat ds" j d] assms(5,8) by auto
      show "\<not> escape_at ESU_CSI (concat ds) j"
      proof
        assume e: "escape_at ESU_CSI (concat ds) j"
        from escape_at_append [OF e csi_len(2), of d] have "j = length content"
          using assms(5,9) by auto
        with escape_at_bound [OF e csi_len(2)] lt show False by simp
      qed
    qed
    then show ?thesis by (simp add: sync_quiet_def)
  qed
  have kept: "processor_feed E H (P, h) ds = Some (with_sync P (concat ds), h)"
    using chunks_kept_back [OF assms(1,3,4), of ds H h] quiet fit by simp
  have "processor_advance E H (with_sync P (concat ds), h) d =
    Option.bind (perform_all E H ((pr_state (with_sync P (concat ds)))\<lparr>sync_buffer := []\<rparr>, h) es) (\<lambda>(s, h).
      map_option (\<lambda>h. (with_sync_end (with_sync P (concat ds)) p s, h)) (h_call H (UnsetPrivateMode (private_mode_new 2026)) h))"
    by (rule chunk_ends [where old = "concat ds" and k = "length content"])
      (use assms fit lt in \<open>auto simp: with_sync_def processor_ok_def parsed_def\<close>)
  moreover have "(pr_state (with_sync P (concat ds)))\<lparr>sync_buffer := []\<rparr> = pr_state P"
    using assms(4) by (cases "pr_state P") (simp add: with_sync_def)
  moreover have "with_sync_end (with_sync P (concat ds)) p = with_sync_end P p"
    by (simp add: fun_eq_iff with_sync_end_def with_parser_def with_sync_def)
  ultimately show ?thesis by (simp add: processor_feed_snoc kept)
qed

theorem synchronized_update_is_atomic_witness:
  "\<exists>p es. parsed plain_perf_env updating ([0x41] @ ESU_CSI) = Some (p, es) \<and>
    processor_feed plain_perf_env log_handler (updating, []) [[0x41, 0x1B], [0x5B, 0x3F]] =
      Some (with_sync updating [0x41, 0x1B, 0x5B, 0x3F], []) \<and>
    processor_feed plain_perf_env log_handler (updating, []) [[0x41, 0x1B], [0x5B, 0x3F], bytes_of ''2026l''] =
      Option.bind (perform_all plain_perf_env log_handler (pr_state updating, []) es) (\<lambda>(s, h).
        map_option (\<lambda>h. (with_sync_end updating p s, h)) (h_call log_handler (UnsetPrivateMode (private_mode_new 2026)) h))"
proof -
  obtain p es where pe: "parsed plain_perf_env updating ([0x41] @ ESU_CSI) = Some (p, es)"
    using parsed_ok [OF plain_perf_env_ok(1) updating_ok(1)] by blast
  have bytes: "[0x41] @ ESU_CSI = [0x41, 0x1B, 0x5B, 0x3F, 0x32, 0x30, 0x32, 0x36, 0x6C]"
    "BSU_CSI = [0x1B, 0x5B, 0x3F, 0x32, 0x30, 0x32, 0x36, 0x68]" "ESU_CSI = [0x1B, 0x5B, 0x3F, 0x32, 0x30, 0x32, 0x36, 0x6C]"
    by (simp_all add: ESU_CSI_def BSU_CSI_def bytes_of_def of_char_def)
  have "\<not> escape_at BSU_CSI ([0x41] @ ESU_CSI) j" "escape_at ESU_CSI ([0x41] @ ESU_CSI) j \<longleftrightarrow> j = 1" for j
    using escape_at_bound [of BSU_CSI "[0x41] @ ESU_CSI" j] escape_at_bound [of ESU_CSI "[0x41] @ ESU_CSI" j] csi_len(1,2)
    by (cases j; cases "j - 1"; auto simp: bytes escape_at_def SYNC_ESCAPE_LEN_def)+
  with synchronized_update_is_atomic [OF plain_perf_env_ok(1) updating_ok(1) _ _ _ _ _ _ _ pe, of "[[0x41, 0x1B], [0x5B, 0x3F]]"
      "bytes_of ''2026l''" log_handler "[]"] pe
  show ?thesis
    by (auto simp: updating_def perf_state_new_def bytes bytes_of_def of_char_def SYNC_BUFFER_SIZE_def)
qed

text \<open>C8. A synchronized update always ends: when the caller's timer runs out, \<open>stop_sync\<close> returns. It parses what
  was kept back where the parser stood and performs all the calls this leads to, in order and once, then the
  call that resets mode 2026, and no other; the update is over, the buffer is empty and the invariants are
  kept. This holds for every handler that meets the contract and every content without the two commands the
  dispatcher cannot take.\<close>

theorem synchronized_update_ends:
  assumes "perf_lib_ok E" "perf_env_ok E" "handler_contract H good" "processor_ok P" "good (length es + k) h"
    and "parsed E P (sync_buffer (pr_state P)) = Some (p, es)" "list_all event_safe es"
  shows "\<exists>P' s h1 h'. perform_all E H ((pr_state P)\<lparr>sync_buffer := []\<rparr>, h) es = Some (s, h1) \<and>
    h_call H (UnsetPrivateMode (private_mode_new 2026)) h1 = Some h' \<and>
    stop_sync E H (P, h) = Some (P', h') \<and> bp_parser (pr_parser P') = p \<and> good k h' \<and> processor_ok P' \<and>
    \<not> sync_pending (pr_state P') \<and> sync_buffer (pr_state P') = []"
proof -
  obtain s h1 where 1: "perform_all E H ((pr_state P)\<lparr>sync_buffer := []\<rparr>, h) es = Some (s, h1)" "good k h1"
    using handler_contract.performing_all_keeps [OF assms(3,2,5) _ assms(7)] parsed_ok [OF assms(1,4), of "sync_buffer (pr_state P)"]
      assms(6) by (fastforce simp: wp_iff)
  obtain h2 where "h_call H (UnsetPrivateMode (private_mode_new 2026)) h1 = Some h2" "good k h2"
    using handler_contract.keeps_call [OF assms(3) 1(2), of "UnsetPrivateMode (private_mode_new 2026)"] by (auto simp: wp_iff)
  moreover have "parser_inv p" using parsed_ok [OF assms(1,4), of "sync_buffer (pr_state P)"] assms(6) by auto
  ultimately show ?thesis
    using stop_sync_eq [OF assms(1,4,6), of H h] 1 with_parser_ok [OF assms(4)]
    by (auto simp: stop_sync_def with_parser_def)
qed

theorem synchronized_update_ends_witness:
  "\<exists>P'. stop_sync plain_perf_env log_handler (with_sync updating [0xC3, 0xA9, 0x41, 0xE2, 0x82, 0xAC], []) =
      Some (P', [Input 0xE9, Input 0x41, Input 0x20AC, UnsetPrivateMode (private_mode_new 2026)]) \<and>
    processor_ok P' \<and> \<not> sync_pending (pr_state P') \<and> sync_buffer (pr_state P') = []"
proof -
  let ?P = "with_sync updating [0xC3, 0xA9, 0x41, 0xE2, 0x82, 0xAC]"
  have "parsed plain_perf_env ?P (sync_buffer (pr_state ?P)) = Some (parser_new, [Print 0xE9, Print 0x41, Print 0x20AC])"
    using whole_run
    by (auto simp: parsed_def with_sync_def updating_def batched_new_def plain_perf_env_def split: option.splits)
  from synchronized_update_ends [OF plain_perf_env_ok log_contract _ _ this, where h = "[]"] updating_ok(1) show ?thesis
    by (auto simp: with_sync_def processor_ok_def perform_all_def perform_def run_calls_def log_handler_def)
qed

text \<open>The begin of a synchronized update does not take effect inside its chunk: the performer keeps
  the default \<open>terminated\<close>, so the bytes that follow the begin in the same chunk reach the terminal at
  once, although the update is then pending.\<close>

theorem update_begins_with_the_next_chunk:
  "\<exists>P. processor_feed plain_perf_env log_handler (processor_new, []) [BSU_CSI @ [0x41]] =
      Some (P, [SetPrivateMode (private_mode_new 2026), Input 0x41]) \<and> sync_pending (pr_state P)"
proof -
  have b: "BSU_CSI = render_csi [0x3F] [[2026]] [] 0x68"
    by (simp add: BSU_CSI_def bytes_of_def of_char_def render_csi_def decimal.simps [of 2026] decimal.simps [of 202] decimal.simps [of 20] decimal.simps [of 2] byte_def)
  obtain q ps where q: "leads std_text_lib parser_new BSU_CSI q [CsiDispatch ps [0x3F] False 0x68]"
    "params_iter ps = Some [[2026]]" "parser_inv q" "pstate q = Ground" "partial_utf8_len q = 0"
    using text_lib_spec.leads_csi [OF std_lib.text_lib_spec_axioms parser_inv_new, of "[0x3F]" "[[2026]]" "[]" "0x68"]
    by (auto simp: b parser_new_def csi_wf_def MAX_PARAMS_def MAX_INTERMEDIATES_def btw_def sat16_def)
  have "run std_text_lib q [0x41] = Some (q, [Print 0x41])"
    using text_lib_spec.run_ground_byte [OF std_lib.text_lib_spec_axioms q(3,5,4), of "0x41" "[]"]
    by (simp add: ascii_def run_def advance_loop_end ground_event_def)
  then have "advance std_text_lib parser_new (BSU_CSI @ [0x41]) = Some (q, [CsiDispatch ps [0x3F] False 0x68, Print 0x41])"
    using q(1) text_lib_spec.advance_run [OF std_lib.text_lib_spec_axioms parser_inv_new, of "BSU_CSI @ [0x41]"]
    by (simp add: leads_def parser_new_def)
  then show ?thesis
    using plain_advance [OF plain_perf_env_ok(1) updating_ok(2), of "BSU_CSI @ [0x41]" q
        "[CsiDispatch ps [0x3F] False 0x68, Print 0x41]" log_handler "[]"] q(2)
    by (simp add: processor_new_def perf_state_new_def parsed_def plain_perf_env_def batched_new_def perform_all_def perform_def
        csi_calls_def csi_marked_def next_param_or_def first_values_def idx_def run_calls_def log_handler_def with_parser_def)
qed

end
