(* ===== verification/Sixel.thy ===== *)
theory Sixel
  imports KittyStore Params
begin

text \<open>
  \<open>ansi/sixel.rs\<close>: the parser of the picture definition in a Sixel stream, and the image it builds. An
  operation returns \<open>None\<close> when it panics, and otherwise the parser with the error of a
  \<open>Result::Err\<close>, if any. \<open>hls_to_rgb\<close> computes in floating point for a saturation above zero; that part
  is the parameter \<open>hls\<close>.
\<close>

subsection \<open>State\<close>

datatype sixel_error =
    TooBigImage nat nat
  | InvalidColorComponent u16 u16
  | InvalidColorCoordinateSystem u16 u16
  | NonExistentParser

datatype sixel_command =
  RepeatIntroducer | SetRasterAttributes | ColorIntroducer | SixelCarriageReturn | NextLine

definition MAX_COLOR_REGISTERS :: nat where "MAX_COLOR_REGISTERS = 1024"

definition REG_TRANSPARENT :: u16 where "REG_TRANSPARENT = 65535"

definition MAX_COMMAND_PARAMS :: nat where "MAX_COMMAND_PARAMS = 5"

definition MAX_GRAPHIC_DIMENSION :: nat where "MAX_GRAPHIC_DIMENSION = 4096"

record command_parser =
  cp_command :: sixel_command
  cp_params :: "u16 list"
  cp_position :: nat

record sixel_parser =
  sx_command :: "command_parser option"
  sx_width :: nat
  sx_height :: nat
  sx_pixels :: "u16 list"
  sx_background :: u16
  sx_registers :: "color_rgb list"
  sx_selected :: u16
  sx_repeat :: nat
  sx_x :: nat
  sx_y :: nat

type_synonym sixel_result = "(sixel_parser \<times> sixel_error option) option"

definition sx_ok :: "sixel_parser \<Rightarrow> sixel_result" where
  "sx_ok p = Some (p, None)"

definition sx_err :: "sixel_parser \<Rightarrow> sixel_error \<Rightarrow> sixel_result" where
  "sx_err p e = Some (p, Some e)"

definition sx_then :: "sixel_result \<Rightarrow> (sixel_parser \<Rightarrow> sixel_result) \<Rightarrow> sixel_result" where
  \<comment> \<open>the operator \<open>?\<close>\<close>
  "sx_then m f = (case m of None \<Rightarrow> None | Some (p, Some e) \<Rightarrow> sx_err p e | Some (p, None) \<Rightarrow> f p)"

subsection \<open>Colours\<close>

definition rgb_scaled :: "u16 \<Rightarrow> u16 \<Rightarrow> u16 \<Rightarrow> u16 \<Rightarrow> color_rgb option" where
  "rgb_scaled r g b m =
     (if m = 255 then Some \<lparr>rgb_r = ucast r, rgb_g = ucast g, rgb_b = ucast b\<rparr>
      else do {
        check (m \<noteq> 0 \<and> (\<forall>c \<in> set [r, g, b]. unat c * 255 + unat m div 2 < 2 ^ 16));
        let f = (\<lambda>c. word_of_nat ((unat c * 255 + unat m div 2) div unat m));
        Some \<lparr>rgb_r = f r, rgb_g = f g, rgb_b = f b\<rparr>
      })"

definition hls_to_rgb :: "(u16 \<Rightarrow> u16 \<Rightarrow> u16 \<Rightarrow> color_rgb) \<Rightarrow> u16 \<Rightarrow> u16 \<Rightarrow> u16 \<Rightarrow> color_rgb option" where
  "hls_to_rgb hls hue lum sat = (if sat = 0 then rgb_scaled lum lum lum 100 else Some (hls hue lum sat))"

definition resize_vec :: "'a list \<Rightarrow> nat \<Rightarrow> 'a \<Rightarrow> 'a list" where
  \<comment> \<open>\<open>Vec::resize\<close>\<close>
  "resize_vec xs n v = take n xs @ replicate (n - length xs) v"

definition set_color_register :: "sixel_parser \<Rightarrow> u16 \<Rightarrow> color_rgb \<Rightarrow> sixel_parser" where
  "set_color_register p reg c =
     (let n = unat reg in
      if n \<ge> MAX_COLOR_REGISTERS then p
      else (let rs = (if length (sx_registers p) \<le> n
                      then resize_vec (sx_registers p) (n + 1) \<lparr>rgb_r = 0, rgb_g = 0, rgb_b = 0\<rparr>
                      else sx_registers p)
            in p\<lparr>sx_registers := rs[n := c]\<rparr>))"

definition init_color_registers :: "sixel_parser \<Rightarrow> sixel_parser option" where
  "init_color_registers p =
     foldM (\<lambda>p (i, r, g, b). map_option (set_color_register p i) (rgb_scaled r g b 100)) p
       [(0, 0, 0, 0), (1, 20, 20, 80), (2, 80, 13, 13), (3, 20, 80, 20), (4, 80, 20, 80), (5, 20, 80, 80),
        (6, 80, 80, 20), (7, 53, 53, 53), (8, 26, 26, 26), (9, 33, 33, 60), (10, 60, 26, 26), (11, 33, 60, 33),
        (12, 60, 33, 60), (13, 33, 60, 60), (14, 60, 60, 33), (15, 80, 80, 80)]"

subsection \<open>The picture\<close>

definition swap_at :: "'a list \<Rightarrow> nat \<Rightarrow> nat \<Rightarrow> 'a list option" where
  \<comment> \<open>\<open>slice.swap(i, j)\<close>\<close>
  "swap_at xs i j = (if i < length xs \<and> j < length xs then Some (xs[i := xs ! j, j := xs ! i]) else None)"

definition move_rows :: "nat \<Rightarrow> nat \<Rightarrow> nat \<Rightarrow> 'a list \<Rightarrow> 'a list option" where
  \<comment> \<open>the loops of \<open>ensure_size\<close>: from rows of \<open>w\<close> to rows of \<open>v\<close> pixels, from the last pixel to the first\<close>
  "move_rows w h v xs =
     foldM (\<lambda>xs (y, x). swap_at xs (y * w + x) (y * v + x)) xs
       (concat (map (\<lambda>y. map (\<lambda>x. (y, x)) (rev [0..<w])) (rev [0..<h])))"

definition ensure_size :: "sixel_parser \<Rightarrow> nat \<Rightarrow> nat \<Rightarrow> sixel_result" where
  "ensure_size p width height =
     (if sx_width p \<ge> width \<and> sx_height p \<ge> height then sx_ok p
      else if width > MAX_GRAPHIC_DIMENSION \<or> height > MAX_GRAPHIC_DIMENSION then sx_err p (TooBigImage width height)
      else if sx_pixels p = [] then
        sx_ok (p\<lparr>sx_width := width, sx_height := height, sx_pixels := replicate (width * height) (sx_background p)\<rparr>)
      else if sx_width p \<ge> width then
        sx_ok (p\<lparr>sx_pixels := resize_vec (sx_pixels p) (height * sx_width p) (sx_background p), sx_height := height\<rparr>)
      else do {
        let height = max height (sx_height p);
        pixels \<leftarrow> move_rows (sx_width p) (sx_height p) width
          (resize_vec (sx_pixels p) (height * width) (sx_background p));
        sx_ok (p\<lparr>sx_pixels := pixels, sx_width := width, sx_height := height\<rparr>)
      })"

subsection \<open>Commands\<close>

definition command_new :: "sixel_command \<Rightarrow> command_parser" where
  "command_new c = \<lparr>cp_command = c, cp_params = replicate MAX_COMMAND_PARAMS 0, cp_position = 0\<rparr>"

definition command_put :: "command_parser \<Rightarrow> u8 \<Rightarrow> command_parser option" where
  "command_put c b =
     (let pos = cp_position c in
      if pos < MAX_COMMAND_PARAMS then
        (if 0x30 \<le> b \<and> b \<le> 0x39 then do {
           v \<leftarrow> idx (cp_params c) pos;
           ps \<leftarrow> upd (cp_params c) pos
             (word_of_nat (min 65535 (min 65535 (unat v * 10) + unat (b - 0x30))));
           Some (c\<lparr>cp_params := ps\<rparr>)
         }
         else if b = 0x3B then Some (c\<lparr>cp_position := pos + 1\<rparr>)
         else Some c)
      else Some c)"

definition color_component :: "u16 \<Rightarrow> u16 \<Rightarrow> u16 \<Rightarrow> sixel_error + u16" where
  \<comment> \<open>the macro \<open>p!\<close>\<close>
  "color_component reg limit x = (if x \<le> limit then Inr x else Inl (InvalidColorComponent reg x))"

definition introduced_color :: "(u16 \<Rightarrow> u16 \<Rightarrow> u16 \<Rightarrow> color_rgb) \<Rightarrow> u16 list \<Rightarrow> (sixel_error + color_rgb) option" where
  "introduced_color hls ps = do {
     reg \<leftarrow> idx ps 0;
     system \<leftarrow> idx ps 1;
     a \<leftarrow> idx ps 2;
     b \<leftarrow> idx ps 3;
     c \<leftarrow> idx ps 4;
     if system = 1 \<or> system = 2 then
       (case color_component reg (if system = 1 then 360 else 100) a of
          Inl e \<Rightarrow> Some (Inl e)
        | Inr a \<Rightarrow> (case color_component reg 100 b of
            Inl e \<Rightarrow> Some (Inl e)
          | Inr b \<Rightarrow> (case color_component reg 100 c of
              Inl e \<Rightarrow> Some (Inl e)
            | Inr c \<Rightarrow> map_option Inr (if system = 1 then hls_to_rgb hls a b c else rgb_scaled a b c 100))))
     else Some (Inl (InvalidColorCoordinateSystem reg system))
   }"

definition command_finish :: "(u16 \<Rightarrow> u16 \<Rightarrow> u16 \<Rightarrow> color_rgb) \<Rightarrow> command_parser \<Rightarrow> sixel_parser \<Rightarrow> sixel_result" where
  "command_finish hls c p =
     (case cp_command c of
        RepeatIntroducer \<Rightarrow> do {
          n \<leftarrow> idx (cp_params c) 0;
          sx_ok (p\<lparr>sx_repeat := unat n\<rparr>)
        }
      | SetRasterAttributes \<Rightarrow>
          if cp_position c \<ge> 3 then do {
            width \<leftarrow> idx (cp_params c) 2;
            height \<leftarrow> idx (cp_params c) 3;
            ensure_size p (unat width) (unat height)
          }
          else sx_ok p
      | ColorIntroducer \<Rightarrow> do {
          reg \<leftarrow> idx (cp_params c) 0;
          if cp_position c \<ge> 4 then do {
            color \<leftarrow> introduced_color hls (cp_params c);
            case color of
              Inl e \<Rightarrow> sx_err p e
            | Inr color \<Rightarrow> sx_ok ((set_color_register p reg color)\<lparr>sx_selected := reg\<rparr>)
          }
          else sx_ok (p\<lparr>sx_selected := reg\<rparr>)
        }
      | SixelCarriageReturn \<Rightarrow> sx_ok (p\<lparr>sx_x := 0\<rparr>)
      | NextLine \<Rightarrow> sx_ok (p\<lparr>sx_x := 0, sx_y := sx_y p + 6\<rparr>))"

definition finish_command :: "(u16 \<Rightarrow> u16 \<Rightarrow> u16 \<Rightarrow> color_rgb) \<Rightarrow> sixel_parser \<Rightarrow> sixel_result" where
  "finish_command hls p =
     (case sx_command p of
        None \<Rightarrow> sx_ok p
      | Some c \<Rightarrow> command_finish hls c (p\<lparr>sx_command := None\<rparr>))"

definition start_command :: "(u16 \<Rightarrow> u16 \<Rightarrow> u16 \<Rightarrow> color_rgb) \<Rightarrow> sixel_command \<Rightarrow> sixel_parser \<Rightarrow> sixel_result" where
  "start_command hls c p =
     sx_then (finish_command hls p) (\<lambda>p. sx_ok (p\<lparr>sx_command := Some (command_new c)\<rparr>))"

subsection \<open>Sixels\<close>

definition sixel_new :: "u8 \<Rightarrow> u8 option" where
  "sixel_new b = do { check (0x3F \<le> b \<and> b \<le> 0x7E); Some (b - 0x3F) }"

fun bit_length :: "nat \<Rightarrow> nat" where
  \<comment> \<open>\<open>8 - leading_zeros\<close> of a byte\<close>
  "bit_length n = (if n = 0 then 0 else Suc (bit_length (n div 2)))"

declare bit_length.simps [simp del]

definition sixel_height :: "u8 \<Rightarrow> nat" where
  "sixel_height s = bit_length (unat s)"

definition sixel_dots :: "u8 \<Rightarrow> bool list" where
  "sixel_dots s = map (\<lambda>i. bit s i) [0..<6]"

definition fill_pixels :: "'a list \<Rightarrow> nat \<Rightarrow> nat \<Rightarrow> 'a \<Rightarrow> 'a list option" where
  \<comment> \<open>\<open>for pixel in &mut pixels[a..b] { *pixel = v }\<close>\<close>
  "fill_pixels xs a b v =
     (if a \<le> b \<and> b \<le> length xs then Some (take a xs @ replicate (b - a) v @ drop b xs) else None)"

fun paint_dots :: "bool list \<Rightarrow> nat \<Rightarrow> nat \<Rightarrow> nat \<Rightarrow> 'a \<Rightarrow> 'a list \<Rightarrow> 'a list option" where
  \<comment> \<open>the loop of \<open>add_sixel\<close> over the dots\<close>
  "paint_dots [] index width n v xs = Some xs"
| "paint_dots (dot # dots) index width n v xs = do {
     xs \<leftarrow> (if dot then fill_pixels xs index (index + n) v else Some xs);
     paint_dots dots (index + width) width n v xs
   }"

definition add_sixel :: "(u16 \<Rightarrow> u16 \<Rightarrow> u16 \<Rightarrow> color_rgb) \<Rightarrow> u8 \<Rightarrow> sixel_parser \<Rightarrow> sixel_result" where
  "add_sixel hls s p =
     sx_then (finish_command hls p) (\<lambda>p.
       let n = max 1 (sx_repeat p) in
       sx_then (ensure_size (p\<lparr>sx_repeat := 0\<rparr>) (sx_x p + n) (sx_y p + sixel_height s)) (\<lambda>p. do {
         pixels \<leftarrow> (if s \<noteq> 0
           then paint_dots (sixel_dots s) (sx_width p * sx_y p + sx_x p) (sx_width p) n (sx_selected p) (sx_pixels p)
           else Some (sx_pixels p));
         sx_ok (p\<lparr>sx_pixels := pixels, sx_x := sx_x p + n\<rparr>)
       }))"

subsection \<open>The parser\<close>

definition sixel_parser_new :: "params \<Rightarrow> color_rgb list option \<Rightarrow> sixel_parser option" where
  "sixel_parser_new ps palette = do {
     gs \<leftarrow> params_iter ps;
     let ps2 = (if 1 < length gs then (case gs ! 1 of x # _ \<Rightarrow> x | [] \<Rightarrow> 0) else 0);
     let p = \<lparr>sx_command = None, sx_width = 0, sx_height = 0, sx_pixels = [],
       sx_background = (if ps2 = 1 then REG_TRANSPARENT else 0), sx_registers = [],
       sx_selected = 0, sx_repeat = 0, sx_x = 0, sx_y = 0\<rparr>;
     case palette of
       Some registers \<Rightarrow> Some (p\<lparr>sx_registers := registers\<rparr>)
     | None \<Rightarrow> init_color_registers p
   }"

definition sixel_put :: "(u16 \<Rightarrow> u16 \<Rightarrow> u16 \<Rightarrow> color_rgb) \<Rightarrow> u8 \<Rightarrow> sixel_parser \<Rightarrow> sixel_result" where
  "sixel_put hls b p =
     (if b = 0x21 then start_command hls RepeatIntroducer p
      else if b = 0x22 then start_command hls SetRasterAttributes p
      else if b = 0x23 then start_command hls ColorIntroducer p
      else if b = 0x24 then start_command hls SixelCarriageReturn p
      else if b = 0x2D then start_command hls NextLine p
      else if (0x30 \<le> b \<and> b \<le> 0x39) \<or> b = 0x3B then
        (case sx_command p of
           None \<Rightarrow> sx_ok p
         | Some c \<Rightarrow> map_option (\<lambda>c. (p\<lparr>sx_command := Some c\<rparr>, None)) (command_put c b))
      else if 0x3F \<le> b \<and> b \<le> 0x7E then Option.bind (sixel_new b) (\<lambda>s. add_sixel hls s p)
      else finish_command hls p)"

definition register_rgba :: "color_rgb list \<Rightarrow> u16 \<Rightarrow> u8 list" where
  "register_rgba rs reg =
     (if reg = REG_TRANSPARENT then [0, 0, 0, 0]
      else if unat reg < length rs then [rgb_r (rs ! unat reg), rgb_g (rs ! unat reg), rgb_b (rs ! unat reg), 255]
      else [0, 0, 0, 255])"

definition sixel_finish :: "(u16 \<Rightarrow> u16 \<Rightarrow> u16 \<Rightarrow> color_rgb) \<Rightarrow> nat \<Rightarrow> sixel_parser \<Rightarrow>
    (sixel_error + graphic_data \<times> color_rgb list) option" where
  \<comment> \<open>the second argument is the clock\<close>
  "sixel_finish hls now p =
     (case finish_command hls p of
        None \<Rightarrow> None
      | Some (p, Some e) \<Rightarrow> Some (Inl e)
      | Some (p, None) \<Rightarrow> Some (Inr
          (\<lparr>gd_id = 1, gd_width = sx_width p, gd_height = sx_height p, gd_color_type = ColorRgba,
             gd_pixels = concat (map (register_rgba (sx_registers p)) (sx_pixels p)),
             gd_is_opaque = (REG_TRANSPARENT \<notin> set (sx_pixels p)), gd_resize = None,
             gd_display_width = None, gd_display_height = None, gd_transmit_time = now\<rparr>,
           sx_registers p)))"

end
