(* ===== verification/SixelProps.thy ===== *)
theory SixelProps
  imports Sixel
begin

text \<open>
  The Sixel parser draws on an unbounded canvas: the growing pixel buffer with its moved rows is
  an implementation of a function from coordinates to colour registers.
\<close>

subsection \<open>Moving the rows apart\<close>

definition spread :: "nat \<Rightarrow> nat \<Rightarrow> nat \<Rightarrow> nat" where
  \<comment> \<open>where the pixel at index \<open>k\<close> of rows of \<open>w\<close> goes in rows of \<open>v\<close>\<close>
  "spread w v k = k div w * v + k mod w"

lemma spread_less:
  assumes "w \<le> v" "k < l"
  shows "spread w v k < spread w v l"
proof (cases "w = 0")
  case True
  with assms(2) show ?thesis by (simp add: spread_def)
next
  case False
  have le: "k div w \<le> l div w" using assms(2) by (simp add: div_le_mono)
  show ?thesis
  proof (cases "k div w = l div w")
    case True
    moreover have "k div w * w + k mod w = k" "l div w * w + l mod w = l" by simp_all
    ultimately have "k mod w < l mod w" using assms(2) by (metis nat_add_left_cancel_less)
    with True show ?thesis by (simp add: spread_def)
  next
    case ne: False
    have "k mod w < v" using False assms(1) by (meson less_le_trans mod_less_divisor not_gr_zero)
    then have "spread w v k < Suc (k div w) * v" by (simp add: spread_def)
    also have "\<dots> \<le> l div w * v" using le ne by (intro mult_le_mono1) simp
    finally show ?thesis by (simp add: spread_def)
  qed
qed

lemma spread_inj: "w \<le> v \<Longrightarrow> spread w v k = spread w v l \<longleftrightarrow> k = l"
  using spread_less [of w v k l] spread_less [of w v l k] by (cases k l rule: linorder_cases) auto

lemma spread_ge: "w \<le> v \<Longrightarrow> k \<le> spread w v k"
  using mult_le_mono2 [of w v "k div w"] div_mult_mod_eq [of k w] unfolding spread_def by linarith

lemma spread_bound:
  assumes "0 < w" "w \<le> v" "k < h * w"
  shows "spread w v k < h * v"
proof -
  have "k mod w < v" using assms(1,2) by (meson less_le_trans mod_less_divisor)
  then have "spread w v k < Suc (k div w) * v" by (simp add: spread_def)
  also have "\<dots> \<le> h * v" using assms by (intro mult_le_mono1) (simp add: less_mult_imp_div_less Suc_leI)
  finally show ?thesis .
qed

lemma row_positions:
  assumes "0 < w"
  shows "concat (map (\<lambda>y. map (\<lambda>x. (y, x)) (rev [0..<w])) (rev [0..<h])) =
    map (\<lambda>k. (k div w, k mod w)) (rev [0..<h * w])"
proof (induction h)
  case (Suc h)
  have "[0..<Suc h * w] = [0..<h * w] @ [h * w..<h * w + w]"
    by (metis add.commute le_add1 mult_Suc upt_add_eq_append zero_le)
  moreover have "[h * w..<h * w + w] = map (\<lambda>x. x + h * w) [0..<w]" by (simp add: map_add_upt add.commute)
  moreover have "map (\<lambda>k. (k div w, k mod w)) (map (\<lambda>x. x + h * w) [0..<w]) = map (\<lambda>x. (h, x)) [0..<w]"
    using assms by auto
  ultimately show ?case using Suc by (simp add: rev_map)
qed simp

lemma move_rows_spread:
  assumes "0 < w"
  shows "move_rows w h v xs = foldM (\<lambda>xs k. swap_at xs k (spread w v k)) xs (rev [0..<h * w])"
proof -
  have "foldM (\<lambda>xs (y, x). swap_at xs (y * w + x) (y * v + x)) xs (map (\<lambda>k. (k div w, k mod w)) ks) =
      foldM (\<lambda>xs k. swap_at xs k (spread w v k)) xs ks" for ks
    by (induction ks arbitrary: xs) (auto simp: spread_def split: option.splits)
  then show ?thesis by (simp add: move_rows_def row_positions [OF assms])
qed

definition spread_upto :: "nat \<Rightarrow> nat \<Rightarrow> nat \<Rightarrow> nat \<Rightarrow> 'a list \<Rightarrow> 'a \<Rightarrow> nat \<Rightarrow> 'a list \<Rightarrow> bool" where
  \<comment> \<open>the pixels from \<open>m\<close> on are in their new places, those before \<open>m\<close> in the old ones\<close>
  "spread_upto w v n N old bg m xs \<longleftrightarrow> length xs = N \<and> (\<forall>j < m. xs ! j = old ! j) \<and>
     (\<forall>j < n. m \<le> j \<longrightarrow> xs ! spread w v j = old ! j) \<and>
     (\<forall>i < N. m \<le> i \<longrightarrow> (\<forall>j < n. m \<le> j \<longrightarrow> i \<noteq> spread w v j) \<longrightarrow> xs ! i = bg)"

lemma spread_step:
  assumes "w \<le> v" "\<forall>j < n. spread w v j < N" "m < n" "spread_upto w v n N old bg (Suc m) xs"
  shows "\<exists>ys. swap_at xs m (spread w v m) = Some ys \<and> spread_upto w v n N old bg m ys"
proof -
  let ?s = "spread w v"
  have s: "?s m < N" "m \<le> ?s m" "\<And>j. ?s j = ?s m \<longleftrightarrow> j = m" "m < N"
    using assms(2,3) spread_ge [OF assms(1), of m] spread_inj [OF assms(1)] by (auto intro: le_less_trans)
  have x: "length xs = N" "\<And>j. j < Suc m \<Longrightarrow> xs ! j = old ! j"
    "\<And>j. j < n \<Longrightarrow> Suc m \<le> j \<Longrightarrow> xs ! ?s j = old ! j"
    "\<And>i. i < N \<Longrightarrow> Suc m \<le> i \<Longrightarrow> (\<forall>j < n. Suc m \<le> j \<longrightarrow> i \<noteq> ?s j) \<Longrightarrow> xs ! i = bg"
    using assms(4) by (simp_all add: spread_upto_def)
  define ys where "ys = xs[m := xs ! ?s m, ?s m := xs ! m]"
  have "swap_at xs m (?s m) = Some ys" using x(1) s by (simp add: swap_at_def ys_def)
  moreover have "spread_upto w v n N old bg m ys"
  proof -
    have at: "ys ! i = (if i = ?s m then xs ! m else if i = m then xs ! ?s m else xs ! i)" if "i < N" for i
      using that x(1) s by (simp add: ys_def nth_list_update)
    have old: "ys ! j = old ! j" if "j < m" for j
      using that at [of j] s x(2) [of j] by auto
    have new: "ys ! ?s j = old ! j" if "j < n" "m \<le> j" for j
    proof (cases "j = m")
      case True
      with at [of "?s m"] s x(2) [of m] show ?thesis by simp
    next
      case False
      with that have j: "Suc m \<le> j" by simp
      moreover have "?s j \<noteq> m" using spread_ge [OF assms(1), of j] j by auto
      ultimately show ?thesis using at [of "?s j"] s(3) x(3) [OF that(1) j] assms(2) that(1) False by simp
    qed
    have rest: "ys ! i = bg" if "i < N" "m \<le> i" "\<forall>j < n. m \<le> j \<longrightarrow> i \<noteq> ?s j" for i
    proof (cases "i = m")
      case True
      then have ne: "?s m \<noteq> m" using that(3) assms(3) by auto
      have "xs ! ?s m = bg"
      proof (rule x(4) [OF s(1)])
        show "Suc m \<le> ?s m" using ne s(2) by simp
        show "\<forall>j < n. Suc m \<le> j \<longrightarrow> ?s m \<noteq> ?s j" using s(3) by (metis not_less_eq_eq order_refl)
      qed
      with True ne at [of m] s(4) show ?thesis by simp
    next
      case False
      have "i \<noteq> ?s m" using that(3) assms(3) by auto
      then show ?thesis using False that at [of i] x(4) [of i] by simp
    qed
    show ?thesis using old new rest x(1) by (simp add: spread_upto_def ys_def)
  qed
  ultimately show ?thesis by blast
qed

lemma spread_loop:
  assumes "w \<le> v" "\<forall>j < n. spread w v j < N" "m \<le> n" "spread_upto w v n N old bg m xs"
  shows "\<exists>ys. foldM (\<lambda>xs k. swap_at xs k (spread w v k)) xs (rev [0..<m]) = Some ys \<and> spread_upto w v n N old bg 0 ys"
  using assms(3,4)
proof (induction m arbitrary: xs)
  case (Suc m)
  then obtain ys where "swap_at xs m (spread w v m) = Some ys" "spread_upto w v n N old bg m ys"
    using spread_step [OF assms(1,2), of m old bg xs] by auto
  with Suc.IH [of ys] Suc.prems show ?case by simp
qed simp

lemma move_rows_effect:
  assumes "0 < w" "w \<le> v" "h \<le> g" "length old = h * w"
  shows "\<exists>ys. move_rows w h v (old @ replicate (g * v - h * w) bg) = Some ys \<and> length ys = g * v \<and>
    (\<forall>y < g. \<forall>x < v. ys ! (y * v + x) = (if y < h \<and> x < w then old ! (y * w + x) else bg))"
proof -
  have hw: "h * w \<le> g * v" using assms by (simp add: mult_le_mono)
  have bound: "spread w v j < g * v" if "j < h * w" for j
    using spread_bound [OF assms(1,2) that] assms(3) by (meson less_le_trans mult_le_mono1)
  have start: "spread_upto w v (h * w) (g * v) old bg (h * w) (old @ replicate (g * v - h * w) bg)"
    using hw assms(4) by (auto simp: spread_upto_def nth_append)
  obtain ys where ys: "move_rows w h v (old @ replicate (g * v - h * w) bg) = Some ys"
    "spread_upto w v (h * w) (g * v) old bg 0 ys"
    using spread_loop [OF assms(2) _ order_refl start] bound unfolding move_rows_spread [OF assms(1)] by blast
  have "ys ! (y * v + x) = (if y < h \<and> x < w then old ! (y * w + x) else bg)" if xy: "y < g" "x < v" for x y
  proof (cases "y < h \<and> x < w")
    case True
    then have "y * w + x < h * w" using mult_le_mono1 [of "Suc y" h w] by simp
    moreover have "spread w v (y * w + x) = y * v + x" using True by (simp add: spread_def)
    ultimately show ?thesis using ys(2) True by (fastforce simp: spread_upto_def)
  next
    case False
    have i: "y * v + x < g * v" using xy mult_le_mono1 [of "Suc y" g v] by simp
    have "y * v + x \<noteq> spread w v j" if j: "j < h * w" for j
    proof
      assume e: "y * v + x = spread w v j"
      have m: "j mod w < w" "j div w < h" using assms(1) j by (auto simp: less_mult_imp_div_less)
      then have "j mod w < v" using assms(2) by simp
      with e xy(2) have "y = j div w" "x = j mod w"
        unfolding spread_def by (metis add.commute div_mult_self1 div_less add_0 gr_implies_not0 mod_mult_self1 mod_less)+
      with m False show False by simp
    qed
    with ys(2) i False show ?thesis by (auto simp: spread_upto_def)
  qed
  with ys show ?thesis by (auto simp: spread_upto_def)
qed

subsection \<open>The invariant and the canvas\<close>

definition sixel_inv :: "sixel_parser \<Rightarrow> bool" where
  "sixel_inv p \<longleftrightarrow> length (sx_pixels p) = sx_height p * sx_width p \<and>
     sx_width p \<le> MAX_GRAPHIC_DIMENSION \<and> sx_height p \<le> MAX_GRAPHIC_DIMENSION \<and>
     (\<forall>c. sx_command p = Some c \<longrightarrow> length (cp_params c) = MAX_COMMAND_PARAMS)"

definition pixel_at :: "sixel_parser \<Rightarrow> nat \<Rightarrow> nat \<Rightarrow> u16" where
  \<comment> \<open>the register at column \<open>x\<close> of row \<open>y\<close> of an unbounded canvas\<close>
  "pixel_at p y x =
     (if y < sx_height p \<and> x < sx_width p then sx_pixels p ! (y * sx_width p + x) else sx_background p)"

definition same_pen :: "sixel_parser \<Rightarrow> sixel_parser \<Rightarrow> bool" where
  \<comment> \<open>everything but the buffer is the same\<close>
  "same_pen p q \<longleftrightarrow> q\<lparr>sx_pixels := sx_pixels p, sx_width := sx_width p, sx_height := sx_height p\<rparr> = p"

lemma pixel_index: "y < h \<Longrightarrow> x < w \<Longrightarrow> y * w + x < h * (w :: nat)"
  using mult_le_mono1 [of "Suc y" h w] by simp

lemma ensure_size_effect:
  assumes "sixel_inv p"
  shows "\<exists>q e. ensure_size p w h = Some (q, e) \<and> sixel_inv q \<and> same_pen p q \<and> pixel_at q = pixel_at p \<and>
    (if e = None then w \<le> sx_width q \<and> h \<le> sx_height q
     else q = p \<and> e = Some (TooBigImage w h) \<and> (w > MAX_GRAPHIC_DIMENSION \<or> h > MAX_GRAPHIC_DIMENSION))"
proof -
  have len: "length (sx_pixels p) = sx_height p * sx_width p" using assms by (simp add: sixel_inv_def)
  consider (big) "sx_width p \<ge> w" "sx_height p \<ge> h"
    | (error) "\<not> (sx_width p \<ge> w \<and> sx_height p \<ge> h)" "w > MAX_GRAPHIC_DIMENSION \<or> h > MAX_GRAPHIC_DIMENSION"
    | (new) "\<not> (sx_width p \<ge> w \<and> sx_height p \<ge> h)" "w \<le> MAX_GRAPHIC_DIMENSION" "h \<le> MAX_GRAPHIC_DIMENSION" "sx_pixels p = []"
    | (higher) "sx_height p < h" "sx_width p \<ge> w" "w \<le> MAX_GRAPHIC_DIMENSION" "h \<le> MAX_GRAPHIC_DIMENSION" "sx_pixels p \<noteq> []"
    | (wider) "sx_width p < w" "w \<le> MAX_GRAPHIC_DIMENSION" "h \<le> MAX_GRAPHIC_DIMENSION" "sx_pixels p \<noteq> []"
    by force
  then show ?thesis
  proof cases
    case big
    with assms show ?thesis by (auto simp: ensure_size_def sx_ok_def same_pen_def)
  next
    case error
    with assms show ?thesis by (auto simp: ensure_size_def sx_err_def same_pen_def)
  next
    case new
    then have zero: "sx_height p = 0 \<or> sx_width p = 0" using len by simp
    have "pixel_at (p\<lparr>sx_width := w, sx_height := h, sx_pixels := replicate (w * h) (sx_background p)\<rparr>) = pixel_at p"
      using zero by (auto simp: fun_eq_iff pixel_at_def pixel_index mult.commute [of w h])
    with new assms show ?thesis
      by (auto simp: ensure_size_def sx_ok_def sixel_inv_def same_pen_def)
  next
    case higher
    let ?q = "p\<lparr>sx_pixels := resize_vec (sx_pixels p) (h * sx_width p) (sx_background p), sx_height := h\<rparr>"
    have le: "sx_height p * sx_width p \<le> h * sx_width p" using higher(1) by (simp add: mult_le_mono1)
    then have px: "sx_pixels ?q = sx_pixels p @ replicate (h * sx_width p - sx_height p * sx_width p) (sx_background p)"
      using len by (simp add: resize_vec_def)
    have "pixel_at ?q y x = pixel_at p y x" for y x
    proof -
      have "y * sx_width p + x < sx_height p * sx_width p \<longleftrightarrow> y < sx_height p" if "x < sx_width p"
      proof
        assume "y * sx_width p + x < sx_height p * sx_width p"
        then have "y * sx_width p < sx_height p * sx_width p" by linarith
        then show "y < sx_height p" by simp
      qed (simp add: pixel_index that)
      with higher(1) len show ?thesis
        using pixel_index [of y h x "sx_width p"] by (auto simp: pixel_at_def px nth_append)
    qed
    moreover have "length (sx_pixels ?q) = h * sx_width p" using px len le by simp
    ultimately show ?thesis
      using higher assms by (auto simp: ensure_size_def sx_ok_def sixel_inv_def same_pen_def fun_eq_iff)
  next
    case wider
    define g where "g = max h (sx_height p)"
    have pos: "0 < sx_width p" using wider(4) len by (cases "sx_width p") auto
    have g: "sx_height p \<le> g" "g \<le> MAX_GRAPHIC_DIMENSION" using wider(3) assms by (auto simp: g_def sixel_inv_def)
    have "sx_height p * sx_width p \<le> g * w" using g(1) wider(1) by (simp add: mult_le_mono)
    then have r: "resize_vec (sx_pixels p) (g * w) (sx_background p) =
        sx_pixels p @ replicate (g * w - sx_height p * sx_width p) (sx_background p)"
      using len by (simp add: resize_vec_def)
    obtain ys where ys: "move_rows (sx_width p) (sx_height p) w (resize_vec (sx_pixels p) (g * w) (sx_background p)) = Some ys"
      "length ys = g * w"
      "\<forall>y < g. \<forall>x < w. ys ! (y * w + x) =
        (if y < sx_height p \<and> x < sx_width p then sx_pixels p ! (y * sx_width p + x) else sx_background p)"
      using move_rows_effect [OF pos less_imp_le [OF wider(1)] g(1) len, of "sx_background p"] unfolding r by blast
    have "pixel_at (p\<lparr>sx_pixels := ys, sx_width := w, sx_height := g\<rparr>) = pixel_at p"
      using ys(3) wider(1) g(1) by (auto simp: fun_eq_iff pixel_at_def)
    moreover have "ensure_size p w h = sx_ok (p\<lparr>sx_pixels := ys, sx_width := w, sx_height := g\<rparr>)"
      using wider ys(1) by (simp add: ensure_size_def g_def)
    ultimately show ?thesis
      using wider g assms ys(2) by (auto simp: sx_ok_def sixel_inv_def same_pen_def g_def)
  qed
qed

subsection \<open>Painting\<close>

lemma fill_pixels_effect:
  assumes "a + n \<le> length xs"
  shows "\<exists>ys. fill_pixels xs a (a + n) v = Some ys \<and> length ys = length xs \<and>
    (\<forall>i < length xs. ys ! i = (if a \<le> i \<and> i < a + n then v else xs ! i))"
  using assms by (auto simp: fill_pixels_def nth_append)

lemma in_row:
  assumes "x < w" "k + n \<le> w"
  shows "y * w + k \<le> z * w + x \<and> z * w + x < y * w + k + n \<longleftrightarrow> z = y \<and> k \<le> x \<and> x < k + (n :: nat)"
proof (cases z y rule: linorder_cases)
  case less
  then have "z * w + x < y * w" by (rule pixel_index [OF _ assms(1)])
  with less show ?thesis by simp
next
  case greater
  then have "Suc y * w \<le> z * w" by (intro mult_le_mono1) simp
  with greater assms(2) show ?thesis by simp
qed auto

lemma paint_dots_effect:
  assumes "length xs = h * w" "k + n \<le> w" "\<forall>i < length dots. dots ! i \<longrightarrow> y + i < h"
  shows "\<exists>ys. paint_dots dots (y * w + k) w n v xs = Some ys \<and> length ys = h * w \<and>
    (\<forall>z < h. \<forall>x < w. ys ! (z * w + x) =
      (if k \<le> x \<and> x < k + n \<and> y \<le> z \<and> z - y < length dots \<and> dots ! (z - y) then v else xs ! (z * w + x)))"
  using assms(1,3)
proof (induction dots arbitrary: y xs)
  case (Cons d dots)
  have rest: "\<forall>i < length dots. dots ! i \<longrightarrow> Suc y + i < h" using Cons.prems(2) by auto
  have next_row: "y * w + k + w = Suc y * w + k" by simp
  have shift: "(y \<le> z \<and> z - y < length (d # dots) \<and> (d # dots) ! (z - y)) \<longleftrightarrow>
      (z = y \<and> d) \<or> (Suc y \<le> z \<and> z - Suc y < length dots \<and> dots ! (z - Suc y))" for z
    by (cases z y rule: linorder_cases) (auto dest!: less_imp_Suc_add)
  obtain zs where zs: "(if d then fill_pixels xs (y * w + k) (y * w + k + n) v else Some xs) = Some zs" "length zs = h * w"
    "\<forall>i < length xs. zs ! i = (if d \<and> y * w + k \<le> i \<and> i < y * w + k + n then v else xs ! i)"
  proof (cases d)
    case True
    then have "y < h" using Cons.prems(2) by force
    then have "Suc y * w \<le> h * w" by (intro mult_le_mono1) simp
    then have "y * w + k + n \<le> length xs" using assms(2) Cons.prems(1) by simp
    from fill_pixels_effect [OF this, of v] True Cons.prems(1) that show ?thesis by auto
  qed (use that Cons.prems(1) in auto)
  have row: "zs ! (z * w + x) = (if d \<and> z = y \<and> k \<le> x \<and> x < k + n then v else xs ! (z * w + x))"
    if "z < h" "x < w" for z x
    using zs(3) Cons.prems(1) pixel_index [OF that] in_row [OF that(2) assms(2), of y z] by auto
  obtain ys where ys: "paint_dots dots (y * w + k + w) w n v zs = Some ys" "length ys = h * w"
    "\<forall>z < h. \<forall>x < w. ys ! (z * w + x) =
      (if k \<le> x \<and> x < k + n \<and> Suc y \<le> z \<and> z - Suc y < length dots \<and> dots ! (z - Suc y) then v else zs ! (z * w + x))"
    using Cons.IH [OF zs(2) rest] unfolding next_row [symmetric] by blast
  have "paint_dots (d # dots) (y * w + k) w n v xs = Some ys"
    by (simp only: paint_dots.simps zs(1) Option.bind.simps ys(1))
  moreover have "ys ! (z * w + x) =
      (if k \<le> x \<and> x < k + n \<and> y \<le> z \<and> z - y < length (d # dots) \<and> (d # dots) ! (z - y) then v else xs ! (z * w + x))"
    if "z < h" "x < w" for z x
    using ys(3) row [OF that] shift [of z] that by auto
  ultimately show ?case using ys(2) by blast
qed simp

lemma bit_below_length: "bit (n :: nat) i \<Longrightarrow> i < bit_length n"
proof (induction n arbitrary: i rule: bit_length.induct)
  case (1 n)
  then have n: "n \<noteq> 0" by (cases "n = 0") auto
  show ?case
  proof (cases i)
    case 0
    with n show ?thesis by (simp add: bit_length.simps [of n])
  next
    case (Suc j)
    with 1 n have "j < bit_length (n div 2)" by (simp add: bit_Suc)
    with n Suc show ?thesis by (simp add: bit_length.simps [of n])
  qed
qed

lemma bit_below_height: "bit s i \<Longrightarrow> i < sixel_height s"
  by (auto simp: sixel_height_def bit_unsigned_iff intro!: bit_below_length dest: bit_imp_le_length)

subsection \<open>The canvas\<close>

definition erase :: "sixel_parser \<Rightarrow> sixel_parser" where
  \<comment> \<open>the parser without its buffer\<close>
  "erase p = p\<lparr>sx_pixels := [], sx_width := 0, sx_height := 0\<rparr>"

type_synonym canvas = "sixel_parser \<times> (nat \<Rightarrow> nat \<Rightarrow> u16)"

definition canvas :: "sixel_parser \<Rightarrow> canvas" where
  "canvas p = (erase p, pixel_at p)"

definition canvas_finish :: "(u16 \<Rightarrow> u16 \<Rightarrow> u16 \<Rightarrow> color_rgb) \<Rightarrow> sixel_parser \<Rightarrow> sixel_result" where
  \<comment> \<open>raster attributes mean nothing on an unbounded canvas\<close>
  "canvas_finish hls p =
     (case sx_command p of
        None \<Rightarrow> sx_ok p
      | Some c \<Rightarrow> if cp_command c = SetRasterAttributes then sx_ok (p\<lparr>sx_command := None\<rparr>)
                  else command_finish hls c (p\<lparr>sx_command := None\<rparr>))"

definition canvas_draw :: "u8 \<Rightarrow> canvas \<Rightarrow> canvas" where
  "canvas_draw s = (\<lambda>(p, pic). let n = max 1 (sx_repeat p) in
     (p\<lparr>sx_repeat := 0, sx_x := sx_x p + n\<rparr>,
      \<lambda>y x. if sx_x p \<le> x \<and> x < sx_x p + n \<and> sx_y p \<le> y \<and> y - sx_y p < 6 \<and> bit s (y - sx_y p)
            then sx_selected p else pic y x))"

definition canvas_put :: "(u16 \<Rightarrow> u16 \<Rightarrow> u16 \<Rightarrow> color_rgb) \<Rightarrow> u8 \<Rightarrow> canvas \<Rightarrow> (canvas \<times> sixel_error option) option" where
  "canvas_put hls b = (\<lambda>(p, pic).
     if 0x3F \<le> b \<and> b \<le> 0x7E then
       (case canvas_finish hls p of
          None \<Rightarrow> None
        | Some (p, Some e) \<Rightarrow> Some ((p, pic), Some e)
        | Some (p, None) \<Rightarrow> Some (canvas_draw (b - 0x3F) (p, pic), None))
     else if (0x30 \<le> b \<and> b \<le> 0x39) \<or> b = 0x3B then map_option (\<lambda>(p, e). ((p, pic), e)) (sixel_put hls b p)
     else map_option (\<lambda>(p, e). ((p, pic), e)) (sx_then (canvas_finish hls p) (\<lambda>p.
       case map_of [(0x21, RepeatIntroducer), (0x22, SetRasterAttributes), (0x23, ColorIntroducer),
              (0x24, SixelCarriageReturn), (0x2D, NextLine)] b of
         Some c \<Rightarrow> sx_ok (p\<lparr>sx_command := Some (command_new c)\<rparr>)
       | None \<Rightarrow> sx_ok p)))"

subsection \<open>Commands\<close>

lemma rgb_scaled_ok:
  assumes "a \<le> 100" "b \<le> 100" "c \<le> (100 :: u16)"
  shows "\<exists>x. rgb_scaled a b c 100 = Some x"
  using assms by (auto simp: rgb_scaled_def check_def word_le_nat_alt)

lemma introduced_color_ok:
  assumes "length ps = MAX_COMMAND_PARAMS"
  shows "\<exists>r. introduced_color hls ps = Some r \<and> (\<forall>w h. r \<noteq> Inl (TooBigImage w h))"
proof -
  have ix: "idx ps k = Some (ps ! k)" if "k < 5" for k
    using assms that by (simp add: idx_def MAX_COMMAND_PARAMS_def)
  have comp: "color_component r l x = Inr y \<Longrightarrow> y \<le> l" "color_component r l x \<noteq> Inl (TooBigImage i j)" for r l x y i j
    by (auto simp: color_component_def split: if_splits)
  have rgb: "\<exists>x. rgb_scaled a b c 100 = Some x" if "color_component r 100 u = Inr a"
    "color_component r 100 v = Inr b" "color_component r 100 w = Inr c" for r u v w a b c
    using rgb_scaled_ok that comp(1) by blast
  have hls: "\<exists>x. hls_to_rgb hls a b c = Some x" if "color_component r 360 u = Inr a"
    "color_component r 100 v = Inr b" "color_component r 100 w = Inr c" for r u v w a b c
    using rgb_scaled_ok [of b b b] comp(1) [OF that(2)] by (auto simp: hls_to_rgb_def)
  show ?thesis
    unfolding introduced_color_def
    by (auto simp: ix comp(2) split: sum.splits dest: rgb hls)
qed

definition too_big :: "sixel_error option \<Rightarrow> bool" where
  "too_big e \<longleftrightarrow> (\<exists>w h. e = Some (TooBigImage w h) \<and> (w > MAX_GRAPHIC_DIMENSION \<or> h > MAX_GRAPHIC_DIMENSION))"

lemma erase_simps [simp]:
  "sx_command (erase p) = sx_command p" "sx_registers (erase p) = sx_registers p"
  "sx_repeat (erase p) = sx_repeat p" "sx_x (erase p) = sx_x p" "sx_y (erase p) = sx_y p"
  "sx_selected (erase p) = sx_selected p" "sx_background (erase p) = sx_background p"
  "sx_width (erase p) = 0" "sx_height (erase p) = 0" "sx_pixels (erase p) = []"
  "erase p\<lparr>sx_command := c\<rparr> = erase (p\<lparr>sx_command := c\<rparr>)" "erase p\<lparr>sx_selected := r\<rparr> = erase (p\<lparr>sx_selected := r\<rparr>)"
  "erase p\<lparr>sx_repeat := n\<rparr> = erase (p\<lparr>sx_repeat := n\<rparr>)" "erase p\<lparr>sx_x := n\<rparr> = erase (p\<lparr>sx_x := n\<rparr>)"
  "erase p\<lparr>sx_y := n\<rparr> = erase (p\<lparr>sx_y := n\<rparr>)" "erase p\<lparr>sx_registers := rs\<rparr> = erase (p\<lparr>sx_registers := rs\<rparr>)"
  "erase (p\<lparr>sx_pixels := xs\<rparr>) = erase p"
  by (simp_all add: erase_def)

lemma pixel_at_simps [simp]:
  "pixel_at (p\<lparr>sx_command := c\<rparr>) = pixel_at p" "pixel_at (p\<lparr>sx_selected := r\<rparr>) = pixel_at p"
  "pixel_at (p\<lparr>sx_repeat := n\<rparr>) = pixel_at p" "pixel_at (p\<lparr>sx_x := n\<rparr>) = pixel_at p"
  "pixel_at (p\<lparr>sx_y := n\<rparr>) = pixel_at p" "pixel_at (p\<lparr>sx_registers := rs\<rparr>) = pixel_at p"
  by (simp_all add: fun_eq_iff pixel_at_def)

lemma sixel_inv_simps [simp]:
  "sixel_inv (p\<lparr>sx_selected := r\<rparr>) = sixel_inv p" "sixel_inv (p\<lparr>sx_repeat := n\<rparr>) = sixel_inv p"
  "sixel_inv (p\<lparr>sx_x := n\<rparr>) = sixel_inv p" "sixel_inv (p\<lparr>sx_y := n\<rparr>) = sixel_inv p"
  "sixel_inv (p\<lparr>sx_registers := rs\<rparr>) = sixel_inv p"
  by (simp_all add: sixel_inv_def)

lemma same_pen_erase: "same_pen p q \<longleftrightarrow> erase q = erase p"
  by (cases p; cases q) (auto simp: same_pen_def erase_def)

lemma set_color_register_frame [simp]:
  "pixel_at (set_color_register p r c) = pixel_at p" "set_color_register (erase p) r c = erase (set_color_register p r c)"
  "sixel_inv (set_color_register p r c) = sixel_inv p"
  by (auto simp: set_color_register_def Let_def sixel_inv_def)

text \<open>A command either keeps the canvas or asks for a picture that is too big.\<close>

definition draws :: "sixel_parser \<Rightarrow> sixel_result \<Rightarrow> (canvas \<times> sixel_error option) option \<Rightarrow> bool" where
  \<comment> \<open>the operation returns, with the canvas operation's effect unless the picture is too big\<close>
  "draws p m c \<longleftrightarrow> (\<exists>q e. m = Some (q, e) \<and> sixel_inv q \<and> (too_big e \<or> c = Some (canvas q, e)))"

lemma command_finish_draws:
  assumes "sixel_inv p" "length (cp_params c) = MAX_COMMAND_PARAMS"
  shows "draws p (command_finish hls c p)
    (if cp_command c = SetRasterAttributes then Some (canvas p, None)
     else map_option (\<lambda>(q, e). ((q, pixel_at p), e)) (command_finish hls c (erase p)))"
proof -
  have ix: "idx (cp_params c) k = Some (cp_params c ! k)" if "k < 5" for k
    using assms(2) that by (simp add: idx_def MAX_COMMAND_PARAMS_def)
  show ?thesis
  proof (cases "cp_command c")
    case SetRasterAttributes
    obtain q e where q: "ensure_size p (unat (cp_params c ! 2)) (unat (cp_params c ! 3)) = Some (q, e)"
      "sixel_inv q" "erase q = erase p" "pixel_at q = pixel_at p" "e = None \<or> q = p \<and> too_big e"
      using ensure_size_effect [OF assms(1), of "unat (cp_params c ! 2)" "unat (cp_params c ! 3)"]
      by (auto simp: same_pen_erase too_big_def split: if_splits)
    with SetRasterAttributes assms(1) show ?thesis
      by (auto simp: draws_def command_finish_def ix sx_ok_def canvas_def)
  next
    case ColorIntroducer
    obtain r where "introduced_color hls (cp_params c) = Some r" "\<forall>w h. r \<noteq> Inl (TooBigImage w h)"
      using introduced_color_ok [OF assms(2)] by blast
    with ColorIntroducer assms(1) show ?thesis
      by (auto simp: draws_def command_finish_def ix sx_ok_def sx_err_def canvas_def split: sum.splits)
  qed (use assms(1) in \<open>auto simp: draws_def command_finish_def ix sx_ok_def canvas_def\<close>)
qed

lemma finish_command_draws:
  assumes "sixel_inv p"
  shows "draws p (finish_command hls p) (map_option (\<lambda>(q, e). ((q, pixel_at p), e)) (canvas_finish hls (erase p)))"
proof (cases "sx_command p")
  case None
  with assms show ?thesis by (simp add: draws_def finish_command_def canvas_finish_def sx_ok_def canvas_def)
next
  case (Some c)
  then have "sixel_inv (p\<lparr>sx_command := None\<rparr>)" "length (cp_params c) = MAX_COMMAND_PARAMS"
    using assms by (simp_all add: sixel_inv_def)
  from command_finish_draws [OF this, of hls] Some show ?thesis
    by (auto simp: draws_def finish_command_def canvas_finish_def sx_ok_def canvas_def)
qed

lemma command_put_ok:
  "length (cp_params c) = MAX_COMMAND_PARAMS \<Longrightarrow>
    \<exists>d. command_put c b = Some d \<and> length (cp_params d) = MAX_COMMAND_PARAMS"
  by (auto simp: command_put_def Let_def idx_def upd_def)

lemma add_sixel_draws:
  assumes "sixel_inv p" "s = b - 0x3F" "0x3F \<le> b" "b \<le> 0x7E"
  shows "draws p (add_sixel hls s p) (canvas_put hls b (canvas p))"
proof -
  obtain q e where q: "finish_command hls p = Some (q, e)" "sixel_inv q"
    "too_big e \<or> map_option (\<lambda>(q, e). ((q, pixel_at p), e)) (canvas_finish hls (erase p)) = Some (canvas q, e)"
    using finish_command_draws [OF assms(1), of hls] by (auto simp: draws_def)
  show ?thesis
  proof (cases e)
    case (Some err)
    with q assms show ?thesis
      by (auto simp: draws_def add_sixel_def sx_then_def sx_err_def canvas_put_def canvas_def)
  next
    case None
    then have c: "canvas_finish hls (erase p) = Some (erase q, None)" "pixel_at q = pixel_at p"
      using q(3) by (auto simp: too_big_def canvas_def)
    define n where "n = max 1 (sx_repeat q)"
    obtain r e where r: "ensure_size (q\<lparr>sx_repeat := 0\<rparr>) (sx_x q + n) (sx_y q + sixel_height s) = Some (r, e)"
      "sixel_inv r" "erase r = erase (q\<lparr>sx_repeat := 0\<rparr>)" "pixel_at r = pixel_at q"
      "e = None \<and> sx_x q + n \<le> sx_width r \<and> sx_y q + sixel_height s \<le> sx_height r \<or> too_big e"
      using ensure_size_effect [of "q\<lparr>sx_repeat := 0\<rparr>" "sx_x q + n" "sx_y q + sixel_height s"] q(2)
      by (auto simp: same_pen_erase too_big_def split: if_splits)
    have pen: "sx_x r = sx_x q" "sx_y r = sx_y q" "sx_selected r = sx_selected q" "sx_background r = sx_background q"
      using arg_cong [OF r(3), of sx_x] arg_cong [OF r(3), of sx_y] arg_cong [OF r(3), of sx_selected]
        arg_cong [OF r(3), of sx_background] by simp_all
    show ?thesis
    proof (cases e)
      case (Some err)
      with r q(1) None show ?thesis
        by (auto simp: draws_def add_sixel_def sx_then_def sx_err_def n_def [symmetric] Let_def simp del: One_nat_def)
    next
      case ok: None
      then have fits: "sx_x r + n \<le> sx_width r" "sx_y r + sixel_height s \<le> sx_height r"
        using r(5) pen by (auto simp: too_big_def)
      have len: "length (sx_pixels r) = sx_height r * sx_width r" using r(2) by (simp add: sixel_inv_def)
      have dots: "\<forall>i < length (sixel_dots s). sixel_dots s ! i \<longrightarrow> sx_y r + i < sx_height r"
        using fits(2) bit_below_height [of s] by (force simp: sixel_dots_def)
      obtain ys where ys: "paint_dots (sixel_dots s) (sx_y r * sx_width r + sx_x r) (sx_width r) n (sx_selected r) (sx_pixels r) = Some ys"
        "length ys = sx_height r * sx_width r"
        "\<forall>z < sx_height r. \<forall>x < sx_width r. ys ! (z * sx_width r + x) =
          (if sx_x r \<le> x \<and> x < sx_x r + n \<and> sx_y r \<le> z \<and> z - sx_y r < length (sixel_dots s) \<and> sixel_dots s ! (z - sx_y r)
           then sx_selected r else sx_pixels r ! (z * sx_width r + x))"
        using paint_dots_effect [OF len fits(1) dots] by blast
      define px where "px = (if s \<noteq> 0 then ys else sx_pixels r)"
      define t where "t = r\<lparr>sx_pixels := px, sx_x := sx_x r + n\<rparr>"
      have "add_sixel hls s p = Some (t, None)"
        using q(1) None r(1) ok ys(1)
        by (simp add: add_sixel_def sx_then_def n_def [symmetric] Let_def sx_ok_def t_def px_def mult.commute [of "sx_width r"] del: One_nat_def)
      moreover have "sixel_inv t" using r(2) ys(2) len by (simp add: t_def px_def sixel_inv_def)
      moreover have "canvas t = canvas_draw s (erase q, pixel_at q)"
      proof -
        have "pixel_at t z x = (if sx_x q \<le> x \<and> x < sx_x q + n \<and> sx_y q \<le> z \<and> z - sx_y q < 6 \<and> bit s (z - sx_y q)
            then sx_selected q else pixel_at q z x)" for z x
        proof (cases "z < sx_height r \<and> x < sx_width r")
          case True
          then show ?thesis
            using ys(3) pen by (auto simp: t_def px_def pixel_at_def r(4) [symmetric] sixel_dots_def)
        next
          case False
          have "\<not> (x < sx_x q + n \<and> sx_y q \<le> z \<and> bit s (z - sx_y q))"
            using False fits pen bit_below_height [of s "z - sx_y q"] by auto
          with False pen show ?thesis by (auto simp: t_def pixel_at_def r(4) [symmetric])
        qed
        moreover have "erase t = (erase q)\<lparr>sx_repeat := 0, sx_x := sx_x q + n\<rparr>"
          using r(3) pen unfolding t_def by (metis erase_simps(13,14,17))
        ultimately show ?thesis by (simp add: canvas_def canvas_draw_def n_def [symmetric] Let_def fun_eq_iff del: One_nat_def)
      qed
      ultimately show ?thesis
        using c assms by (auto simp: draws_def canvas_put_def canvas_def)
    qed
  qed
qed

lemma start_command_draws:
  assumes "sixel_inv p"
  shows "draws p (start_command hls c p)
    (map_option (\<lambda>(q, e). ((q, pixel_at p), e))
      (sx_then (canvas_finish hls (erase p)) (\<lambda>p. sx_ok (p\<lparr>sx_command := Some (command_new c)\<rparr>))))"
proof -
  obtain q e where q: "finish_command hls p = Some (q, e)" "sixel_inv q"
    "too_big e \<or> map_option (\<lambda>(q, e). ((q, pixel_at p), e)) (canvas_finish hls (erase p)) = Some (canvas q, e)"
    using finish_command_draws [OF assms(1), of hls] by (auto simp: draws_def)
  have "sixel_inv (q\<lparr>sx_command := Some (command_new c)\<rparr>)"
    using q(2) by (simp add: sixel_inv_def command_new_def)
  with q show ?thesis
    by (cases e) (auto simp: draws_def start_command_def sx_then_def sx_ok_def sx_err_def canvas_def too_big_def)
qed

lemma sixel_put_draws:
  assumes "sixel_inv p"
  shows "draws p (sixel_put hls b p) (canvas_put hls b (canvas p))"
proof -
  have digits: "draws p (sixel_put hls b p) (canvas_put hls b (canvas p))"
    if b: "(0x30 \<le> b \<and> b \<le> 0x39) \<or> b = 0x3B"
  proof -
    have nb: "\<not> (0x3F \<le> b \<and> b \<le> 0x7E)" using b by (auto simp: word_le_nat_alt)
    show ?thesis
    proof (cases "sx_command p")
      case None
      with b nb assms show ?thesis by (auto simp: draws_def sixel_put_def canvas_put_def canvas_def sx_ok_def)
    next
      case (Some c)
      with assms have len: "length (cp_params c) = MAX_COMMAND_PARAMS" by (simp add: sixel_inv_def)
      obtain d where d: "command_put c b = Some d" "length (cp_params d) = MAX_COMMAND_PARAMS"
        using command_put_ok [OF len] by blast
      have "sixel_inv (p\<lparr>sx_command := Some d\<rparr>)" using assms d(2) by (simp add: sixel_inv_def)
      with Some d(1) b nb show ?thesis by (auto simp: draws_def sixel_put_def canvas_put_def canvas_def)
    qed
  qed
  have sixels: "draws p (sixel_put hls b p) (canvas_put hls b (canvas p))" if b: "0x3F \<le> b" "b \<le> 0x7E"
  proof -
    have "b \<noteq> 0x21" "b \<noteq> 0x22" "b \<noteq> 0x23" "b \<noteq> 0x24" "b \<noteq> 0x2D" "\<not> b \<le> 0x39" "b \<noteq> 0x3B" using b by (auto simp: word_le_nat_alt)
    then show ?thesis
      using add_sixel_draws [OF assms refl b, of hls] b by (simp add: sixel_put_def sixel_new_def check_def)
  qed
  have rest: "draws p (sixel_put hls b p) (canvas_put hls b (canvas p))"
    if "\<not> (0x3F \<le> b \<and> b \<le> 0x7E)" "\<not> ((0x30 \<le> b \<and> b \<le> 0x39) \<or> b = 0x3B)"
  proof -
    have "sx_then m sx_ok = m" for m
      by (auto simp: sx_then_def sx_ok_def sx_err_def split: option.splits)
    then show ?thesis
      unfolding sixel_put_def canvas_put_def canvas_def prod.case if_not_P [OF that(1)] if_not_P [OF that(2)]
      using start_command_draws [OF assms, of hls] finish_command_draws [OF assms, of hls] by simp
  qed
  show ?thesis using digits sixels rest by blast
qed

subsection \<open>A whole stream\<close>

fun sixel_stream :: "(u16 \<Rightarrow> u16 \<Rightarrow> u16 \<Rightarrow> color_rgb) \<Rightarrow> u8 list \<Rightarrow> sixel_parser \<Rightarrow> sixel_result" where
  \<comment> \<open>one \<open>put\<close> per byte, up to the first error\<close>
  "sixel_stream hls [] p = sx_ok p"
| "sixel_stream hls (b # bs) p = sx_then (sixel_put hls b p) (sixel_stream hls bs)"

fun canvas_stream :: "(u16 \<Rightarrow> u16 \<Rightarrow> u16 \<Rightarrow> color_rgb) \<Rightarrow> u8 list \<Rightarrow> canvas \<Rightarrow> (canvas \<times> sixel_error option) option" where
  "canvas_stream hls [] c = Some (c, None)"
| "canvas_stream hls (b # bs) c =
     (case canvas_put hls b c of
        None \<Rightarrow> None
      | Some (c, Some e) \<Rightarrow> Some (c, Some e)
      | Some (c, None) \<Rightarrow> canvas_stream hls bs c)"

lemma sixel_stream_draws:
  "sixel_inv p \<Longrightarrow> draws p (sixel_stream hls bs p) (canvas_stream hls bs (canvas p))"
proof (induction bs arbitrary: p)
  case Nil
  then show ?case by (simp add: draws_def sx_ok_def)
next
  case (Cons b bs)
  obtain q e where q: "sixel_put hls b p = Some (q, e)" "sixel_inv q"
    "too_big e \<or> canvas_put hls b (canvas p) = Some (canvas q, e)"
    using sixel_put_draws [OF Cons.prems, of hls b] by (auto simp: draws_def)
  show ?case
  proof (cases e)
    case None
    with q(3) have "canvas_put hls b (canvas p) = Some (canvas q, None)" by (auto simp: too_big_def)
    with Cons.IH [OF q(2)] q(1) None show ?thesis by (simp add: sx_then_def draws_def)
  next
    case (Some err)
    with q show ?thesis by (auto simp: sx_then_def sx_err_def draws_def)
  qed
qed

lemma init_color_registers_ok:
  assumes "sixel_inv p"
  shows "\<exists>q. init_color_registers p = Some q \<and> sixel_inv q"
proof -
  have loop: "\<exists>q. foldM (\<lambda>p (i, r, g, b). map_option (set_color_register p i) (rgb_scaled r g b 100)) p cs = Some q \<and> sixel_inv q"
    if "sixel_inv p" "\<forall>(i, r, g, b) \<in> set cs. r \<le> 100 \<and> g \<le> 100 \<and> b \<le> 100" for p and cs :: "(u16 \<times> u16 \<times> u16 \<times> u16) list"
    using that
  proof (induction cs arbitrary: p)
    case (Cons c cs)
    obtain i r g b where c: "c = (i, r, g, b)" by (metis prod_cases4)
    obtain x where "rgb_scaled r g b 100 = Some x" using rgb_scaled_ok [of r g b] Cons.prems(2) c by auto
    with Cons c show ?case by simp
  qed simp
  show ?thesis unfolding init_color_registers_def by (rule loop [OF assms]) simp
qed

lemma sixel_parser_new_ok:
  assumes "params_rep ps gs cur"
  shows "\<exists>p. sixel_parser_new ps palette = Some p \<and> sixel_inv p"
proof -
  define q where "q bg rs = \<lparr>sx_command = None, sx_width = 0, sx_height = 0, sx_pixels = [], sx_background = bg,
    sx_registers = rs, sx_selected = 0, sx_repeat = 0, sx_x = 0, sx_y = 0\<rparr>" for bg :: u16 and rs :: "color_rgb list"
  have "sixel_inv (q bg rs)" for bg rs by (simp add: q_def sixel_inv_def)
  then show ?thesis
    using init_color_registers_ok params_iter_rep [OF assms]
    by (auto simp: sixel_parser_new_def Let_def q_def split: option.splits)
qed

definition blank_sixel :: sixel_parser where
  \<comment> \<open>a parser with transparent background and two registers\<close>
  "blank_sixel = \<lparr>sx_command = None, sx_width = 0, sx_height = 0, sx_pixels = [], sx_background = REG_TRANSPARENT,
     sx_registers = [\<lparr>rgb_r = 0, rgb_g = 0, rgb_b = 0\<rparr>, \<lparr>rgb_r = 51, rgb_g = 51, rgb_b = 204\<rparr>],
     sx_selected = 0, sx_repeat = 0, sx_x = 0, sx_y = 0\<rparr>"

lemma blank_sixel_inv: "sixel_inv blank_sixel"
  by (simp add: blank_sixel_def sixel_inv_def)

lemma concat_const_length: "\<forall>x \<in> set xs. length (f x) = n \<Longrightarrow> length (concat (map f xs)) = n * length xs"
  by (induction xs) auto

lemma sixel_finish_ok:
  assumes "sixel_inv p"
  shows "\<exists>r. sixel_finish hls now p = Some r \<and>
    (case r of Inl e \<Rightarrow> True
     | Inr (d, palette) \<Rightarrow> length (gd_pixels d) = 4 * (gd_width d * gd_height d) \<and>
         gd_width d \<le> MAX_GRAPHIC_DIMENSION \<and> gd_height d \<le> MAX_GRAPHIC_DIMENSION \<and>
         (gd_is_opaque d \<longleftrightarrow> (\<exists>q e. finish_command hls p = Some (q, e) \<and> REG_TRANSPARENT \<notin> set (sx_pixels q))))"
proof -
  obtain q e where q: "finish_command hls p = Some (q, e)" "sixel_inv q"
    using finish_command_draws [OF assms, of hls] by (auto simp: draws_def)
  have "length (concat (map (register_rgba (sx_registers q)) (sx_pixels q))) = 4 * length (sx_pixels q)"
    by (rule concat_const_length) (simp add: register_rgba_def)
  with q show ?thesis
    by (cases e) (auto simp: sixel_finish_def sixel_inv_def)
qed

subsection \<open>Properties\<close>

definition plain_hls :: "u16 \<Rightarrow> u16 \<Rightarrow> u16 \<Rightarrow> color_rgb" where
  "plain_hls hue lum sat = \<lparr>rgb_r = 0, rgb_g = 0, rgb_b = 0\<rparr>"

text \<open>C20. The Sixel parser implements a drawing on an unbounded canvas: whatever bytes come, no index is
  out of bounds and the loop that moves the rows apart keeps every pixel in its place, so after the stream the
  buffer, read by row and column, is the picture that the commands draw on a function from coordinates to
  colour registers, with the same error. The only difference is the limit: a picture larger than 4096
  pixels in a dimension is refused. The background shows where nothing was drawn.\<close>

theorem sixel_draws_on_canvas:
  assumes "sixel_inv p"
  shows "\<exists>q e. sixel_stream hls bs p = Some (q, e) \<and> sixel_inv q \<and>
    (too_big e \<or> canvas_stream hls bs (canvas p) = Some (canvas q, e))"
  using sixel_stream_draws [OF assms] by (simp add: draws_def)

theorem sixel_draws_on_canvas_witness:
  "\<exists>q e. sixel_stream plain_hls [0x21, 0x35, 0x7E, 0x2D, 0x40] blank_sixel = Some (q, e) \<and> sixel_inv q \<and>
    (too_big e \<or> canvas_stream plain_hls [0x21, 0x35, 0x7E, 0x2D, 0x40] (canvas blank_sixel) = Some (canvas q, e))"
  by (rule sixel_draws_on_canvas [OF blank_sixel_inv])

text \<open>C29. No Sixel input panics, and what comes out is an image: a new parser, for whatever parameters and palette,
  reads any bytes up to their first error and can then be finished. Finishing gives the error of the last
  command, or an image whose pixel data has four bytes for each of its pixels, whose sides are at most 4096
  pixels, and which counts as opaque exactly when no pixel of its buffer is transparent.\<close>

theorem sixel_image_well_formed:
  assumes "params_rep ps gs last_group"
  shows "\<exists>p q e r. sixel_parser_new ps palette = Some p \<and> sixel_stream hls bs p = Some (q, e) \<and>
    sixel_finish hls now q = Some r \<and>
    (case r of Inl e \<Rightarrow> True
     | Inr (d, palette) \<Rightarrow> length (gd_pixels d) = 4 * (gd_width d * gd_height d) \<and>
         gd_width d \<le> MAX_GRAPHIC_DIMENSION \<and> gd_height d \<le> MAX_GRAPHIC_DIMENSION \<and>
         (gd_is_opaque d \<longleftrightarrow> (\<exists>q' e. finish_command hls q = Some (q', e) \<and> REG_TRANSPARENT \<notin> set (sx_pixels q'))))"
proof -
  obtain p where p: "sixel_parser_new ps palette = Some p" "sixel_inv p" using sixel_parser_new_ok [OF assms] by blast
  obtain q e where q: "sixel_stream hls bs p = Some (q, e)" "sixel_inv q"
    using sixel_stream_draws [OF p(2), of hls bs] by (auto simp: draws_def)
  with p(1) sixel_finish_ok [OF q(2), of hls now] show ?thesis by blast
qed

theorem sixel_image_well_formed_witness:
  "\<exists>p q e r. sixel_parser_new params_default None = Some p \<and>
    sixel_stream plain_hls [0x23, 0x31, 0x21, 0x35, 0x7E, 0x2D, 0x40] p = Some (q, e) \<and> sixel_finish plain_hls 0 q = Some r \<and>
    (case r of Inl e \<Rightarrow> True
     | Inr (d, palette) \<Rightarrow> length (gd_pixels d) = 4 * (gd_width d * gd_height d) \<and>
         gd_width d \<le> MAX_GRAPHIC_DIMENSION \<and> gd_height d \<le> MAX_GRAPHIC_DIMENSION \<and>
         (gd_is_opaque d \<longleftrightarrow> (\<exists>q' e. finish_command plain_hls q = Some (q', e) \<and> REG_TRANSPARENT \<notin> set (sx_pixels q'))))"
  by (rule sixel_image_well_formed [OF params_rep_default])

end
