(* ===== verification/KittyProtocol.thy ===== *)
theory KittyProtocol
  imports KittyStore PerfParse
begin

text \<open>
  \<open>ansi/kitty_graphics_protocol.rs\<close>: the commands of the Kitty graphics protocol, from the control
  data and the payload of one APC string to what the terminal shall do, with the accumulation of
  uploads that come in chunks. Text is bytes. Files, shared memory, Base64, zlib and PNG are
  parameters; the clock's reading (milliseconds) is an argument.
\<close>

subsection \<open>Commands\<close>

datatype kitty_action =
  KTransmit | KTransmitAndDisplay | KQuery | KPut | KDelete | KFrame | KAnimate | KCompose

datatype kitty_format = KGray | KGrayAlpha | KRgb24 | KRgba32 | KPng

datatype kitty_medium = KDirect | KFile | KTempFile | KSharedMemory

datatype kitty_compression = KUncompressed | KZlib

record kitty_command =
  kc_action :: kitty_action
  kc_quiet :: u8
  kc_implicit_id :: bool
  kc_format :: kitty_format
  kc_medium :: kitty_medium
  kc_width :: u32
  kc_height :: u32
  kc_size :: u32
  kc_offset :: u32
  kc_image_id :: u32
  kc_image_number :: u32
  kc_placement_id :: u32
  kc_compression :: kitty_compression
  kc_more :: bool
  kc_source_x :: u32
  kc_source_y :: u32
  kc_source_width :: u32
  kc_source_height :: u32
  kc_cell_x_offset :: u32
  kc_cell_y_offset :: u32
  kc_columns :: u32
  kc_rows :: u32
  kc_cursor_movement :: u8
  kc_virtual :: bool
  kc_z_index :: int
  kc_parent_id :: u32
  kc_parent_placement_id :: u32
  kc_relative_x :: int
  kc_relative_y :: int
  kc_frame_number :: u32
  kc_base_frame :: u32
  kc_frame_gap :: int
  kc_composition_mode :: u8
  kc_background_color :: u32
  kc_animation_state :: u8
  kc_loop_count :: u32
  kc_current_frame :: u32
  kc_delete_action :: u8
  kc_unicode_placeholder :: u32
  kc_payload :: "u8 list"
  kc_last_touched :: nat

definition kitty_command_default :: "nat \<Rightarrow> kitty_command" where
  "kitty_command_default now = \<lparr>kc_action = KTransmit, kc_quiet = 0, kc_implicit_id = False, kc_format = KRgba32,
     kc_medium = KDirect, kc_width = 0, kc_height = 0, kc_size = 0, kc_offset = 0, kc_image_id = 0, kc_image_number = 0,
     kc_placement_id = 0, kc_compression = KUncompressed, kc_more = False, kc_source_x = 0, kc_source_y = 0,
     kc_source_width = 0, kc_source_height = 0, kc_cell_x_offset = 0, kc_cell_y_offset = 0, kc_columns = 0, kc_rows = 0,
     kc_cursor_movement = 0, kc_virtual = False, kc_z_index = 0, kc_parent_id = 0, kc_parent_placement_id = 0,
     kc_relative_x = 0, kc_relative_y = 0, kc_frame_number = 0, kc_base_frame = 0, kc_frame_gap = 0,
     kc_composition_mode = 0, kc_background_color = 0, kc_animation_state = 0, kc_loop_count = 0, kc_current_frame = 0,
     kc_delete_action = 0x61, kc_unicode_placeholder = 0, kc_payload = [], kc_last_touched = now\<rparr>"

record placement_request =
  pq_image_id :: u32
  pq_placement_id :: u32
  pq_x :: u32
  pq_y :: u32
  pq_width :: u32
  pq_height :: u32
  pq_columns :: u32
  pq_rows :: u32
  pq_z_index :: int
  pq_virtual :: bool
  pq_unicode_placeholder :: u32
  pq_cursor_movement :: u8

record delete_request =
  dq_action :: u8
  dq_image_id :: u32
  dq_image_number :: u32
  dq_placement_id :: u32
  dq_x :: u32
  dq_y :: u32
  dq_z_index :: int
  dq_delete_data :: bool

record kitty_response =
  kr_graphic :: "graphic_data option"
  kr_placement :: "placement_request option"
  kr_delete :: "delete_request option"
  kr_response :: "string option"
  kr_incomplete :: bool

record kitty_state =
  kt_incomplete :: "(u32 \<times> kitty_command) list"
  kt_current_key :: u32
  kt_next_auto :: u32

definition kitty_state_default :: kitty_state where
  "kitty_state_default = \<lparr>kt_incomplete = [], kt_current_key = 0, kt_next_auto = 0\<rparr>"

definition MAX_DIMENSION :: u32 where "MAX_DIMENSION = 10000"

definition MAX_SIZE :: nat where "MAX_SIZE = 400 * 1024 * 1024"

definition CHUNK_STALE_TIMEOUT :: nat where "CHUNK_STALE_TIMEOUT = 10000"

definition kitty_allocate_id :: "kitty_state \<Rightarrow> kitty_state \<times> u32" where
  "kitty_allocate_id st =
     (let i = (if kt_next_auto st < 0x80000000 then 0x80000000 else kt_next_auto st)
      in (st\<lparr>kt_next_auto := (if i = -1 then 0x80000000 else i + 1)\<rparr>, i))"

subsection \<open>Responses\<close>

fun join_keys :: "string list \<Rightarrow> string" where
  "join_keys [] = []"
| "join_keys [k] = k"
| "join_keys (k # ks) = k @ '','' @ join_keys ks"

definition encode_response :: "u32 \<Rightarrow> u32 \<Rightarrow> u32 \<Rightarrow> string \<Rightarrow> string option" where
  "encode_response i n p message =
     (if i = 0 \<and> n = 0 then None
      else
        (let key = (\<lambda>k v. k @ ''='' @ show_nat (unat (v :: u32)));
             keys = (if i > 0 then [key ''i'' i] else []) @ (if n > 0 then [key ''I'' n] else []) @
               (if p > 0 then [key ''p'' p] else [])
         in Some ([ESC] @ ''_G'' @ join_keys keys @ '';'' @ message @ [ESC, CHR 0x5C])))"

definition encode_response_quiet :: "u32 \<Rightarrow> u32 \<Rightarrow> u32 \<Rightarrow> string \<Rightarrow> u8 \<Rightarrow> bool \<Rightarrow> string option" where
  "encode_response_quiet i n p message q is_error =
     (if q = 0 \<or> (q = 1 \<and> is_error) then encode_response i n p message else None)"

definition kitty_answer :: "string option \<Rightarrow> kitty_response" where
  \<comment> \<open>a response with nothing to do\<close>
  "kitty_answer r = \<lparr>kr_graphic = None, kr_placement = None, kr_delete = None, kr_response = r, kr_incomplete = False\<rparr>"

definition pending_chunk :: kitty_response where
  "pending_chunk = \<lparr>kr_graphic = None, kr_placement = None, kr_delete = None, kr_response = None, kr_incomplete = True\<rparr>"

subsection \<open>Control data\<close>

fun digits_below :: "nat \<Rightarrow> nat \<Rightarrow> u8 list \<Rightarrow> nat option" where
  "digits_below limit n [] = Some n"
| "digits_below limit n (b # bs) =
     (if 0x30 \<le> b \<and> b \<le> 0x39 \<and> n * 10 + (unat b - 48) < limit
      then digits_below limit (n * 10 + (unat b - 48)) bs else None)"

definition parse_unsigned :: "nat \<Rightarrow> u8 list \<Rightarrow> nat option" where
  \<comment> \<open>\<open>str::parse\<close> of an unsigned type below \<open>limit\<close>\<close>
  "parse_unsigned limit s =
     (case s of
        [] \<Rightarrow> None
      | b # bs \<Rightarrow> if b = 0x2B \<and> bs \<noteq> [] then digits_below limit 0 bs else digits_below limit 0 s)"

definition parse_i32 :: "u8 list \<Rightarrow> int option" where
  "parse_i32 s =
     (case s of
        [] \<Rightarrow> None
      | b # bs \<Rightarrow>
          if bs \<noteq> [] \<and> b = 0x2D then map_option (\<lambda>n. - int n) (digits_below (2 ^ 31 + 1) 0 bs)
          else map_option int (parse_unsigned (2 ^ 31) s))"

definition num_or_0 :: "u8 list \<Rightarrow> ('a::len) word" where
  \<comment> \<open>\<open>value.parse().unwrap_or(0)\<close> at the type of the field\<close>
  "num_or_0 s = (case parse_unsigned (2 ^ LENGTH('a)) s of Some n \<Rightarrow> word_of_nat n | None \<Rightarrow> 0)"

definition int_or_0 :: "u8 list \<Rightarrow> int" where
  "int_or_0 s = (case parse_i32 s of Some n \<Rightarrow> n | None \<Rightarrow> 0)"

definition parse_action :: "u8 list \<Rightarrow> kitty_action" where
  "parse_action v =
     (case map_of [(''t'', KTransmit), (''T'', KTransmitAndDisplay), (''q'', KQuery), (''p'', KPut), (''d'', KDelete),
            (''f'', KFrame), (''a'', KAnimate), (''c'', KCompose)] (string_of v) of
        Some a \<Rightarrow> a | None \<Rightarrow> KTransmit)"

definition parse_format :: "u8 list \<Rightarrow> kitty_format" where
  "parse_format v =
     (case map_of [(''8'', KGray), (''16'', KGrayAlpha), (''24'', KRgb24), (''32'', KRgba32), (''100'', KPng)] (string_of v) of
        Some f \<Rightarrow> f | None \<Rightarrow> KRgba32)"

definition parse_transmission_medium :: "u8 list \<Rightarrow> kitty_medium" where
  "parse_transmission_medium v =
     (case map_of [(''d'', KDirect), (''f'', KFile), (''t'', KTempFile), (''s'', KSharedMemory)] (string_of v) of
        Some m \<Rightarrow> m | None \<Rightarrow> KDirect)"

definition parse_compression :: "u8 list \<Rightarrow> kitty_compression" where
  "parse_compression v = (if string_of v = ''z'' then KZlib else KUncompressed)"

definition split_once :: "u8 \<Rightarrow> u8 list \<Rightarrow> (u8 list \<times> u8 list) option" where
  "split_once b s = (if b \<in> set s then Some (takeWhile (\<lambda>c. c \<noteq> b) s, tl (dropWhile (\<lambda>c. c \<noteq> b) s)) else None)"

definition control_pairs :: "u8 list \<Rightarrow> (string \<times> u8 list) list" where
  "control_pairs data = List.map_filter (\<lambda>p. map_option (\<lambda>(k, v). (string_of k, v)) (split_once 0x3D p)) (split_bytes 0x2C data)"

definition control_key :: "kitty_command \<Rightarrow> string \<times> u8 list \<Rightarrow> kitty_command" where
  \<comment> \<open>one pair of the second pass\<close>
  "control_key c = (\<lambda>(key, v). let a = kc_action c in
     if key = ''q'' then c\<lparr>kc_quiet := num_or_0 v\<rparr>
     else if key = ''f'' then c\<lparr>kc_format := parse_format v\<rparr>
     else if key = ''t'' then c\<lparr>kc_medium := parse_transmission_medium v\<rparr>
     else if key = ''s'' then (if a = KAnimate then c\<lparr>kc_animation_state := num_or_0 v\<rparr> else c\<lparr>kc_width := num_or_0 v\<rparr>)
     else if key = ''v'' then (if a = KAnimate then c\<lparr>kc_loop_count := num_or_0 v\<rparr> else c\<lparr>kc_height := num_or_0 v\<rparr>)
     else if key = ''S'' then c\<lparr>kc_size := num_or_0 v\<rparr>
     else if key = ''O'' then c\<lparr>kc_offset := num_or_0 v\<rparr>
     else if key = ''i'' then c\<lparr>kc_image_id := num_or_0 v\<rparr>
     else if key = ''I'' then c\<lparr>kc_image_number := num_or_0 v\<rparr>
     else if key = ''p'' then c\<lparr>kc_placement_id := num_or_0 v\<rparr>
     else if key = ''o'' then c\<lparr>kc_compression := parse_compression v\<rparr>
     else if key = ''m'' then c\<lparr>kc_more := (v = [0x31])\<rparr>
     else if key = ''x'' then c\<lparr>kc_source_x := num_or_0 v\<rparr>
     else if key = ''y'' then c\<lparr>kc_source_y := num_or_0 v\<rparr>
     else if key = ''w'' then c\<lparr>kc_source_width := num_or_0 v\<rparr>
     else if key = ''h'' then c\<lparr>kc_source_height := num_or_0 v\<rparr>
     else if key = ''X'' then
       (if a = KFrame \<or> a = KCompose then c\<lparr>kc_composition_mode := num_or_0 v\<rparr> else c\<lparr>kc_cell_x_offset := num_or_0 v\<rparr>)
     else if key = ''Y'' then (if a = KFrame then c\<lparr>kc_background_color := num_or_0 v\<rparr> else c\<lparr>kc_cell_y_offset := num_or_0 v\<rparr>)
     else if key = ''c'' then
       (if a = KFrame \<or> a = KCompose then c\<lparr>kc_base_frame := num_or_0 v\<rparr>
        else if a = KAnimate then c\<lparr>kc_current_frame := num_or_0 v\<rparr> else c\<lparr>kc_columns := num_or_0 v\<rparr>)
     else if key = ''r'' then
       (if a = KFrame \<or> a = KCompose \<or> a = KAnimate then c\<lparr>kc_frame_number := num_or_0 v\<rparr> else c\<lparr>kc_rows := num_or_0 v\<rparr>)
     else if key = ''z'' then
       (if a = KFrame \<or> a = KAnimate then c\<lparr>kc_frame_gap := int_or_0 v\<rparr> else c\<lparr>kc_z_index := int_or_0 v\<rparr>)
     else if key = ''C'' then c\<lparr>kc_cursor_movement := num_or_0 v\<rparr>
     else if key = ''U'' then c\<lparr>kc_virtual := (v = [0x31])\<rparr>
     else if key = ''P'' then c\<lparr>kc_parent_id := num_or_0 v\<rparr>
     else if key = ''Q'' then c\<lparr>kc_parent_placement_id := num_or_0 v\<rparr>
     else if key = ''H'' then c\<lparr>kc_relative_x := int_or_0 v\<rparr>
     else if key = ''V'' then c\<lparr>kc_relative_y := int_or_0 v\<rparr>
     else if key = ''d'' then c\<lparr>kc_delete_action := (case v of [] \<Rightarrow> 0x61 | b # _ \<Rightarrow> b)\<rparr>
     else if key = ''u'' then c\<lparr>kc_unicode_placeholder := num_or_0 v\<rparr>
     else c)"

definition parse_control_data :: "kitty_command \<Rightarrow> u8 list \<Rightarrow> kitty_command" where
  "parse_control_data c data =
     (let pairs = control_pairs data;
          c = (case map_of pairs ''a'' of Some v \<Rightarrow> c\<lparr>kc_action := parse_action v\<rparr> | None \<Rightarrow> c)
      in foldl control_key c pairs)"

subsection \<open>Image data\<close>

datatype graphic_error =
    DimensionsTooLarge | DimensionsRequired | TooLarge | UnsupportedFormat | UnsupportedMedium
  | InvalidData | DecompressionFailed | FileNotFound

fun graphic_error_message :: "graphic_error \<Rightarrow> string" where
  "graphic_error_message DimensionsTooLarge = ''EINVAL: dimensions too large''"
| "graphic_error_message DimensionsRequired = ''EINVAL: dimensions required''"
| "graphic_error_message TooLarge = ''E2BIG: image too large''"
| "graphic_error_message UnsupportedFormat = ''EINVAL: unsupported format''"
| "graphic_error_message UnsupportedMedium = ''EINVAL: unsupported medium''"
| "graphic_error_message InvalidData = ''EINVAL: invalid data''"
| "graphic_error_message DecompressionFailed = ''EINVAL: decompression failed''"
| "graphic_error_message FileNotFound = ''ENOENT: file not found''"

record kitty_env =
  \<comment> \<open>other packages and the operating system; a decoded PNG is its width, height and RGBA bytes\<close>
  base64_standard :: "u8 list \<Rightarrow> u8 list option"
  base64_no_pad :: "u8 list \<Rightarrow> u8 list option"
  is_file :: "u8 list \<Rightarrow> bool"
  file_contents :: "u8 list \<Rightarrow> u8 list option"
  shared_memory :: "u8 list \<Rightarrow> nat \<Rightarrow> nat \<Rightarrow> graphic_error + u8 list"
  zlib_inflate :: "u8 list \<Rightarrow> u8 list option"
  png_decode :: "u8 list \<Rightarrow> (nat \<times> nat \<times> u8 list) option"

definition decode_payload_base64 :: "kitty_env \<Rightarrow> u8 list \<Rightarrow> u8 list option" where
  "decode_payload_base64 K payload =
     (if payload = [] then Some []
      else (case base64_standard K payload of Some d \<Rightarrow> Some d | None \<Rightarrow> base64_no_pad K payload))"

definition lower_ascii :: "u8 \<Rightarrow> u8" where
  "lower_ascii b = (if 0x41 \<le> b \<and> b \<le> 0x5A then b + 32 else b)"

definition contains_bytes :: "u8 list \<Rightarrow> string \<Rightarrow> bool" where
  "contains_bytes s t \<longleftrightarrow> (\<exists>i \<in> set [0..<Suc (length s)]. take (length t) (drop i s) = bytes_of t)"

definition sensitive_path :: "u8 list \<Rightarrow> bool" where
  \<comment> \<open>no character outside ASCII has one of these letters as its lower case\<close>
  "sensitive_path p = (let l = map lower_ascii p in
     contains_bytes l ''/proc/'' \<or> contains_bytes l ''/sys/'' \<or> contains_bytes l ''/dev/'')"

definition read_file :: "kitty_env \<Rightarrow> kitty_command \<Rightarrow> graphic_error + u8 list" where
  \<comment> \<open>the arm of \<open>File\<close> and \<open>TempFile\<close>; removing a temporary file is left out\<close>
  "read_file K c =
     (let path = kc_payload c; size = unat (kc_size c) in
      if std_from_utf8 path \<noteq> Utf8Ok then Inl InvalidData
      else if \<not> is_file K path then Inl FileNotFound
      else if sensitive_path path then Inl InvalidData
      else if kc_medium c = KTempFile \<and> \<not> contains_bytes path ''tty-graphics-protocol'' then Inl InvalidData
      else if size > MAX_SIZE then Inl TooLarge
      else (case file_contents K path of
          None \<Rightarrow> Inl FileNotFound
        | Some data \<Rightarrow>
            if size > 0 then
              (let part = drop (unat (kc_offset c)) data
               in if length part < size then Inl InvalidData else Inr (take size part))
            else if length data > MAX_SIZE then Inl TooLarge
            else Inr data))"

definition raw_data :: "kitty_env \<Rightarrow> kitty_command \<Rightarrow> graphic_error + u8 list" where
  "raw_data K c =
     (case kc_medium c of
        KDirect \<Rightarrow> if length (kc_payload c) > MAX_SIZE then Inl TooLarge else Inr (kc_payload c)
      | KSharedMemory \<Rightarrow> if std_from_utf8 (kc_payload c) \<noteq> Utf8Ok then Inl InvalidData
          else shared_memory K (kc_payload c) (unat (kc_size c)) (unat (kc_offset c))
      | _ \<Rightarrow> read_file K c)"

definition inflated :: "kitty_env \<Rightarrow> kitty_command \<Rightarrow> u8 list \<Rightarrow> graphic_error + u8 list" where
  "inflated K c data =
     (case kc_compression c of
        KUncompressed \<Rightarrow> Inr data
      | KZlib \<Rightarrow> (case zlib_inflate K data of
          None \<Rightarrow> Inl DecompressionFailed
        | Some d \<Rightarrow> if length d > MAX_SIZE then Inl TooLarge else Inr d))"

definition cells_resize :: "u32 \<Rightarrow> u32 \<Rightarrow> resize_command option" where
  \<comment> \<open>the resize command of a size in columns and rows\<close>
  "cells_resize cs rs =
     (if cs > 0 \<or> rs > 0 then
        Some \<lparr>rc_width = (if cs > 0 then ResizeCells cs else ResizeAuto),
              rc_height = (if rs > 0 then ResizeCells rs else ResizeAuto),
              rc_preserve = (\<not> (cs > 0 \<and> rs > 0))\<rparr>
      else None)"

fun bytes_per_pixel :: "kitty_format \<Rightarrow> nat" where
  "bytes_per_pixel KGray = 1" | "bytes_per_pixel KGrayAlpha = 2" | "bytes_per_pixel KRgb24 = 3" | "bytes_per_pixel _ = 4"

fun alpha_opaque :: "u8 list \<Rightarrow> bool" where
  \<comment> \<open>\<open>chunks(4).all(|chunk| chunk[3] == 255)\<close>\<close>
  "alpha_opaque (r # g # b # a # ps) = (a = 255 \<and> alpha_opaque ps)"
| "alpha_opaque _ = True"

fun gray_alpha_pixels :: "u8 list \<Rightarrow> u8 list" where
  "gray_alpha_pixels (g # a # ps) = g # g # g # a # gray_alpha_pixels ps"
| "gray_alpha_pixels _ = []"

fun rgb_pixels :: "u8 list \<Rightarrow> u8 list" where
  "rgb_pixels (r # g # b # ps) = r # g # b # 255 # rgb_pixels ps"
| "rgb_pixels _ = []"

definition rgba_pixels :: "kitty_format \<Rightarrow> u8 list \<Rightarrow> u8 list" where
  "rgba_pixels f data =
     (case f of
        KGray \<Rightarrow> concat (map (\<lambda>g. [g, g, g, 255]) data)
      | KGrayAlpha \<Rightarrow> gray_alpha_pixels data
      | KRgb24 \<Rightarrow> rgb_pixels data
      | _ \<Rightarrow> data)"

definition format_opaque :: "kitty_format \<Rightarrow> u8 list \<Rightarrow> bool" where
  "format_opaque f data =
     (case f of
        KGray \<Rightarrow> True
      | KGrayAlpha \<Rightarrow> alpha_opaque (gray_alpha_pixels data)
      | KRgb24 \<Rightarrow> True
      | _ \<Rightarrow> alpha_opaque data)"

definition graphic_of :: "nat \<Rightarrow> kitty_command \<Rightarrow> nat \<Rightarrow> nat \<Rightarrow> u8 list \<Rightarrow> bool \<Rightarrow> graphic_data" where
  "graphic_of now c width height pixels is_opaque =
     \<lparr>gd_id = ucast (kc_image_id c), gd_width = width, gd_height = height, gd_color_type = ColorRgba, gd_pixels = pixels,
      gd_is_opaque = is_opaque, gd_resize = cells_resize (kc_columns c) (kc_rows c),
      gd_display_width = None, gd_display_height = None, gd_transmit_time = now\<rparr>"

definition create_graphic_data :: "kitty_env \<Rightarrow> nat \<Rightarrow> kitty_command \<Rightarrow> graphic_error + graphic_data" where
  "create_graphic_data K now c =
     (if kc_format c \<noteq> KPng \<and> (kc_width c > MAX_DIMENSION \<or> kc_height c > MAX_DIMENSION) then Inl DimensionsTooLarge
      else (case raw_data K c of
        Inl e \<Rightarrow> Inl e
      | Inr data \<Rightarrow> (case inflated K c data of
          Inl e \<Rightarrow> Inl e
        | Inr data \<Rightarrow>
            if kc_format c = KPng then
              (case png_decode K data of
                 None \<Rightarrow> Inl InvalidData
               | Some (w, h, pixels) \<Rightarrow>
                   if w > unat MAX_DIMENSION \<or> h > unat MAX_DIMENSION then Inl DimensionsTooLarge
                   else Inr (graphic_of now c w h pixels (alpha_opaque pixels)))
            else if kc_width c = 0 \<or> kc_height c = 0 then Inl DimensionsRequired
            else
              (let w = unat (kc_width c); h = unat (kc_height c);
                   expected = w * h * bytes_per_pixel (kc_format c) in
               if expected > MAX_SIZE then Inl TooLarge
               else if length data < expected then Inl InvalidData
               else Inr (graphic_of now c w h (rgba_pixels (kc_format c) (take expected data))
                      (format_opaque (kc_format c) (take expected data)))))))"

subsection \<open>One command\<close>

definition evict_stale_chunks :: "nat \<Rightarrow> kitty_state \<Rightarrow> kitty_state" where
  "evict_stale_chunks now st =
     (let kept = filter (\<lambda>(_, c). now - kc_last_touched c < CHUNK_STALE_TIMEOUT) (kt_incomplete st) in
      if length kept < length (kt_incomplete st) \<and> map_of kept (kt_current_key st) = None
      then st\<lparr>kt_incomplete := kept, kt_current_key := 0\<rparr>
      else st\<lparr>kt_incomplete := kept\<rparr>)"

definition image_key :: "kitty_state \<Rightarrow> kitty_command \<Rightarrow> kitty_state \<times> kitty_command \<times> u32" where
  "image_key st c =
     (if kc_image_id c > 0 then (st, c, kc_image_id c)
      else if kc_image_number c > 0 then (st, c, kc_image_number c)
      else if kt_current_key st \<noteq> 0 then (st, c, kt_current_key st)
      else (let (st, key) = kitty_allocate_id st in (st, c\<lparr>kc_image_id := key, kc_implicit_id := True\<rparr>, key)))"

definition store_chunk :: "nat \<Rightarrow> u32 \<Rightarrow> kitty_command \<Rightarrow> kitty_state \<Rightarrow> kitty_state \<times> kitty_response option" where
  \<comment> \<open>the branch of \<open>m=1\<close>\<close>
  "store_chunk now key c st =
     (let st = st\<lparr>kt_current_key := key\<rparr> in
      case map_of (kt_incomplete st) key of
        None \<Rightarrow> (st\<lparr>kt_incomplete := (key, c\<lparr>kc_last_touched := now\<rparr>) # kt_incomplete st\<rparr>, Some pending_chunk)
      | Some old \<Rightarrow>
          if length (kc_payload old) + length (kc_payload c) > MAX_SIZE
          then (st\<lparr>kt_incomplete := AList.delete key (kt_incomplete st), kt_current_key := 0\<rparr>, None)
          else (st\<lparr>kt_incomplete := AList.update key
                  (old\<lparr>kc_payload := kc_payload old @ kc_payload c, kc_last_touched := now\<rparr>) (kt_incomplete st)\<rparr>,
                Some pending_chunk))"

definition final_command :: "u32 \<Rightarrow> kitty_command \<Rightarrow> kitty_state \<Rightarrow> kitty_state \<times> kitty_command option" where
  \<comment> \<open>the other branch: the command with what was accumulated, or nothing when it grew too large\<close>
  "final_command key c st =
     (case map_of (kt_incomplete st) key of
        None \<Rightarrow> (st, Some c)
      | Some old \<Rightarrow>
          (let st = st\<lparr>kt_incomplete := AList.delete key (kt_incomplete st), kt_current_key := 0\<rparr> in
           if length (kc_payload old) + length (kc_payload c) > MAX_SIZE then (st, None)
           else (st, Some (old\<lparr>kc_payload := kc_payload old @ kc_payload c\<rparr>))))"

definition placement_of :: "kitty_command \<Rightarrow> placement_request" where
  "placement_of c = \<lparr>pq_image_id = kc_image_id c, pq_placement_id = kc_placement_id c, pq_x = kc_source_x c,
     pq_y = kc_source_y c, pq_width = kc_source_width c, pq_height = kc_source_height c, pq_columns = kc_columns c,
     pq_rows = kc_rows c, pq_z_index = kc_z_index c, pq_virtual = kc_virtual c,
     pq_unicode_placeholder = kc_unicode_placeholder c, pq_cursor_movement = kc_cursor_movement c\<rparr>"

definition command_response :: "kitty_command \<Rightarrow> u32 \<Rightarrow> string \<Rightarrow> bool \<Rightarrow> string option" where
  \<comment> \<open>no response to a command whose id was made up\<close>
  "command_response c i message is_error =
     (if kc_implicit_id c then None
      else encode_response_quiet i (kc_image_number c) (kc_placement_id c) message (kc_quiet c) is_error)"

definition kitty_transmission :: "kitty_env \<Rightarrow> nat \<Rightarrow> kitty_command \<Rightarrow> kitty_response" where
  "kitty_transmission K now c =
     (case create_graphic_data K now c of
        Inl e \<Rightarrow> kitty_answer (command_response c (kc_image_id c) (graphic_error_message e) True)
      | Inr d \<Rightarrow> (kitty_answer (command_response c (ucast (gd_id d)) ''OK'' False))
          \<lparr>kr_graphic := Some d,
           kr_placement := (if kc_action c = KTransmitAndDisplay then Some (placement_of c) else None)\<rparr>)"

definition delete_of :: "kitty_command \<Rightarrow> delete_request" where
  "delete_of c = \<lparr>dq_action = lower_ascii (kc_delete_action c), dq_image_id = kc_image_id c,
     dq_image_number = kc_image_number c, dq_placement_id = kc_placement_id c, dq_x = kc_source_x c,
     dq_y = kc_source_y c, dq_z_index = kc_z_index c,
     dq_delete_data = (0x41 \<le> kc_delete_action c \<and> kc_delete_action c \<le> 0x5A)\<rparr>"

definition unsupported_action :: "kitty_command \<Rightarrow> string option" where
  "unsupported_action c =
     (if kc_implicit_id c then None
      else (case encode_response_quiet (kc_image_id c) (kc_image_number c) (kc_placement_id c)
              ''EINVAL:unsupported action'' (kc_quiet c) True of
          Some r \<Rightarrow> Some r
        | None \<Rightarrow> if kc_quiet c = 2 then None
            else Some ([ESC] @ ''_G;EINVAL:unsupported action'' @ [ESC, CHR 0x5C])))"

definition execute_command :: "kitty_env \<Rightarrow> nat \<Rightarrow> kitty_command \<Rightarrow> kitty_response option" where
  \<comment> \<open>\<open>None\<close> is the \<open>unreachable!\<close> of a query\<close>
  "execute_command K now c =
     (case kc_action c of
        KQuery \<Rightarrow> None
      | KPut \<Rightarrow> Some ((kitty_answer (command_response c (kc_image_id c) ''OK'' False))\<lparr>kr_placement := Some (placement_of c)\<rparr>)
      | KDelete \<Rightarrow> Some ((kitty_answer None)\<lparr>kr_delete := Some (delete_of c)\<rparr>)
      | KTransmit \<Rightarrow> Some (kitty_transmission K now c)
      | KTransmitAndDisplay \<Rightarrow> Some (kitty_transmission K now c)
      | _ \<Rightarrow> Some (kitty_answer (unsupported_action c)))"

definition kitty_command_of :: "kitty_env \<Rightarrow> nat \<Rightarrow> u8 list list \<Rightarrow> kitty_command option" where
  \<comment> \<open>the control data and the decoded payload\<close>
  "kitty_command_of K now ps = do {
     let control = (if 1 < length ps then ps ! 1 else []);
     let payload = (if 2 < length ps then ps ! 2 else []);
     check (control = [] \<or> std_from_utf8 control = Utf8Ok);
     let c = (if control = [] then kitty_command_default now else parse_control_data (kitty_command_default now) control);
     decoded \<leftarrow> decode_payload_base64 K payload;
     Some (if payload = [] then c else c\<lparr>kc_payload := decoded\<rparr>)
   }"

definition kitty_parse :: "kitty_env \<Rightarrow> nat \<Rightarrow> u8 list list \<Rightarrow> kitty_state \<Rightarrow> (kitty_state \<times> kitty_response option) option" where
  \<comment> \<open>the inner \<open>None\<close> is a parse error, the outer one a panic\<close>
  "kitty_parse K now ps st =
     (if ps = [] \<or> hd ps \<noteq> bytes_of ''G'' then Some (st, None)
      else (case kitty_command_of K now ps of
        None \<Rightarrow> Some (st, None)
      | Some c \<Rightarrow>
          (let respond = (\<lambda>message is_error. Some (st, Some (kitty_answer
                 (encode_response_quiet (kc_image_id c) (kc_image_number c) (kc_placement_id c) message (kc_quiet c) is_error)))) in
           if kc_image_id c > 0 \<and> kc_image_number c > 0 then
             respond ''EINVAL: image ID and number are mutually exclusive'' True
           else if kc_action c = KQuery then
             (if kc_image_id c = 0 then respond ''EINVAL: image ID required'' True else respond ''OK'' False)
           else
             (let (st, c, key) = image_key st c; st = evict_stale_chunks now st in
              if kc_more c then Some (store_chunk now key c st)
              else (case final_command key c st of
                (st, None) \<Rightarrow> Some (st, None)
              | (st, Some c) \<Rightarrow> map_option (\<lambda>r. (st, Some r)) (execute_command K now c))))))"

end
