(* ===== verification/KittyProps.thy ===== *)
theory KittyProps
  imports KittyProtocol
begin

text \<open>
  The Kitty graphics protocol: an upload in chunks has the effect of the same upload in one
  piece, and an accepted image has the pixel data its size asks for.
\<close>

subsection \<open>Image data\<close>

lemma gray_alpha_pixels_length: "length data = n * 2 \<Longrightarrow> length (gray_alpha_pixels data) = n * 4"
proof (induction data arbitrary: n rule: gray_alpha_pixels.induct)
  case (1 g a ps)
  then show ?case by (cases n) auto
qed auto

lemma rgb_pixels_length: "length data = n * 3 \<Longrightarrow> length (rgb_pixels data) = n * 4"
proof (induction data arbitrary: n rule: rgb_pixels.induct)
  case (1 r g b ps)
  then show ?case by (cases n) auto
qed auto

lemma rgba_pixels_length:
  "f \<noteq> KPng \<Longrightarrow> length data = n * bytes_per_pixel f \<Longrightarrow> length (rgba_pixels f data) = n * 4"
  by (cases f) (auto simp: rgba_pixels_def gray_alpha_pixels_length rgb_pixels_length length_concat
      comp_def sum_list_triv)

lemma alpha_opaque_gray: "alpha_opaque (concat (map (\<lambda>g. [g, g, g, 255]) data))"
  by (induction data) auto

lemma alpha_opaque_rgb: "alpha_opaque (rgb_pixels data)"
  by (induction data rule: rgb_pixels.induct) auto

lemma format_opaque_eq: "format_opaque f data = alpha_opaque (rgba_pixels f data)"
  by (cases f) (simp_all add: format_opaque_def rgba_pixels_def alpha_opaque_gray alpha_opaque_rgb)

definition png_ok :: "kitty_env \<Rightarrow> bool" where
  \<comment> \<open>the decoder gives four bytes for each pixel\<close>
  "png_ok K \<longleftrightarrow> (\<forall>data w h pixels. png_decode K data = Some (w, h, pixels) \<longrightarrow> length pixels = 4 * (w * h))"

lemma create_graphic_data_ok:
  assumes "png_ok K" "create_graphic_data K now c = Inr d"
  shows "length (gd_pixels d) = 4 * (gd_width d * gd_height d) \<and> gd_width d \<le> 10000 \<and> gd_height d \<le> 10000 \<and>
    gd_is_opaque d = alpha_opaque (gd_pixels d) \<and> gd_id d = ucast (kc_image_id c)"
proof -
  have le: "unat x \<le> 10000" if "\<not> x > MAX_DIMENSION" for x
    using that by (simp add: MAX_DIMENSION_def word_le_nat_alt word_less_nat_alt)
  show ?thesis
  proof (cases "kc_format c = KPng")
    case True
    with assms show ?thesis
      by (auto simp: create_graphic_data_def graphic_of_def png_ok_def MAX_DIMENSION_def split: sum.splits option.splits if_splits)
  next
    case False
    let ?w = "unat (kc_width c)" and ?h = "unat (kc_height c)"
    obtain x data where r: "raw_data K c = Inr x" "inflated K c x = Inr data"
      using assms(2) False by (auto simp: create_graphic_data_def split: sum.splits if_splits)
    have d: "\<not> kc_width c > MAX_DIMENSION" "\<not> kc_height c > MAX_DIMENSION"
      "?w * ?h * bytes_per_pixel (kc_format c) \<le> length data"
      "d = graphic_of now c ?w ?h (rgba_pixels (kc_format c) (take (?w * ?h * bytes_per_pixel (kc_format c)) data))
        (format_opaque (kc_format c) (take (?w * ?h * bytes_per_pixel (kc_format c)) data))"
      using assms(2) False r by (auto simp: create_graphic_data_def Let_def split: if_splits)
    have "length (rgba_pixels (kc_format c) (take (?w * ?h * bytes_per_pixel (kc_format c)) data)) = ?w * ?h * 4"
      by (rule rgba_pixels_length [OF False]) (use d(3) in simp)
    with d(4) le [OF d(1)] le [OF d(2)] show ?thesis
      by (simp add: graphic_of_def format_opaque_eq)
  qed
qed

subsection \<open>Chunks\<close>

fun kitty_session :: "kitty_env \<Rightarrow> (nat \<times> u8 list list) list \<Rightarrow> kitty_state \<Rightarrow>
    (kitty_state \<times> kitty_response option list) option" where
  \<comment> \<open>commands with the times at which they come\<close>
  "kitty_session K [] st = Some (st, [])"
| "kitty_session K ((now, ps) # cs) st =
     (case kitty_parse K now ps st of
        None \<Rightarrow> None
      | Some (st, r) \<Rightarrow> map_option (\<lambda>(st, rs). (st, r # rs)) (kitty_session K cs st))"

definition uploading :: "kitty_state \<Rightarrow> u32 \<Rightarrow> kitty_command \<Rightarrow> u8 list \<Rightarrow> nat \<Rightarrow> bool" where
  \<comment> \<open>the upload of \<open>c\<close> under \<open>key\<close> has the bytes \<open>acc\<close> and was last touched at \<open>t\<close>\<close>
  "uploading st key c acc t \<longleftrightarrow> key \<noteq> 0 \<and> kt_current_key st = key \<and>
     map_of (kt_incomplete st) key = Some (c\<lparr>kc_payload := acc, kc_last_touched := t\<rparr>)"

definition continuation :: "kitty_command \<Rightarrow> bool" where
  \<comment> \<open>a chunk that names no image\<close>
  "continuation d \<longleftrightarrow> kc_image_id d = 0 \<and> kc_image_number d = 0 \<and> kc_action d \<noteq> KQuery"

lemma map_of_filter_Some: "map_of xs k = Some v \<Longrightarrow> P (k, v) \<Longrightarrow> map_of (filter P xs) k = Some v"
  by (induction xs) (auto split: if_splits)

lemma evict_keeps:
  assumes "uploading st key c acc t" "now - t < CHUNK_STALE_TIMEOUT"
  shows "uploading (evict_stale_chunks now st) key c acc t"
proof -
  have "map_of (filter (\<lambda>(_, c). now - kc_last_touched c < CHUNK_STALE_TIMEOUT) (kt_incomplete st)) key =
      Some (c\<lparr>kc_payload := acc, kc_last_touched := t\<rparr>)"
    using assms by (intro map_of_filter_Some) (auto simp: uploading_def)
  with assms(1) show ?thesis by (auto simp: uploading_def evict_stale_chunks_def Let_def)
qed

lemma kitty_parse_continuation:
  assumes "hd ps = bytes_of ''G''" "ps \<noteq> []" "kitty_command_of K now ps = Some d" "continuation d"
    and "uploading st key c acc t"
  shows "kitty_parse K now ps st =
    (if kc_more d then Some (store_chunk now key d (evict_stale_chunks now st))
     else (case final_command key d (evict_stale_chunks now st) of
        (st, None) \<Rightarrow> Some (st, None)
      | (st, Some c) \<Rightarrow> map_option (\<lambda>r. (st, Some r)) (execute_command K now c)))"
  using assms by (auto simp: kitty_parse_def continuation_def image_key_def uploading_def Let_def)

lemma chunk_appends:
  assumes "uploading st key c acc t" "length acc + length (kc_payload d) \<le> MAX_SIZE"
  shows "\<exists>st'. store_chunk now key d st = (st', Some pending_chunk) \<and> uploading st' key c (acc @ kc_payload d) now"
  using assms by (auto simp: uploading_def store_chunk_def Let_def AList.update_conv)

lemma final_chunk:
  assumes "uploading st key c acc t" "length acc + length (kc_payload d) \<le> MAX_SIZE"
  shows "\<exists>st'. final_command key d st = (st', Some (c\<lparr>kc_payload := acc @ kc_payload d, kc_last_touched := t\<rparr>)) \<and>
    map_of (kt_incomplete st') key = None \<and> kt_current_key st' = 0"
  using assms by (auto simp: uploading_def final_command_def Let_def AList.delete_conv')

fun gaps_ok :: "nat \<Rightarrow> nat list \<Rightarrow> bool" where
  \<comment> \<open>no chunk waits ten seconds or more for the next\<close>
  "gaps_ok t [] = True"
| "gaps_ok t (n # ns) = (n - t < CHUNK_STALE_TIMEOUT \<and> gaps_ok n ns)"

lemma continuing_session:
  assumes "uploading st key c acc t" "list_all2 (\<lambda>(now, ps) d. ps \<noteq> [] \<and> hd ps = bytes_of ''G'' \<and>
      kitty_command_of K now ps = Some d \<and> continuation d \<and> kc_more d) cs ds"
    and "length (acc @ concat (map kc_payload ds)) \<le> MAX_SIZE" "gaps_ok t (map fst cs)"
  shows "\<exists>st'. kitty_session K cs st = Some (st', replicate (length cs) (Some pending_chunk)) \<and>
    uploading st' key c (acc @ concat (map kc_payload ds)) (last (t # map fst cs))"
  using assms(2,1,3,4)
proof (induction cs ds arbitrary: st acc t rule: list_all2_induct)
  case Nil
  then show ?case by simp
next
  case (Cons x xs d ds)
  obtain now ps where x: "x = (now, ps)" by force
  have up: "uploading (evict_stale_chunks now st) key c acc t"
    using Cons.prems x by (intro evict_keeps) auto
  obtain st1 where st1: "store_chunk now key d (evict_stale_chunks now st) = (st1, Some pending_chunk)"
    "uploading st1 key c (acc @ kc_payload d) now"
    using chunk_appends [OF up, of d now] Cons.prems(2) by auto
  have "kitty_parse K now ps st = Some (st1, Some pending_chunk)"
    using kitty_parse_continuation [of ps K now d st key c acc t] Cons.hyps(1) Cons.prems(1) st1(1) x by auto
  moreover obtain st2 where "kitty_session K xs st1 = Some (st2, replicate (length xs) (Some pending_chunk))"
    "uploading st2 key c ((acc @ kc_payload d) @ concat (map kc_payload ds)) (last (now # map fst xs))"
    using Cons.IH [OF st1(2)] Cons.prems(2,3) x by auto
  ultimately show ?case using x by simp
qed

lemma kitty_session_append:
  "kitty_session K (cs @ ds) st =
    (case kitty_session K cs st of
       None \<Rightarrow> None
     | Some (st, rs) \<Rightarrow> map_option (\<lambda>(st, rs'). (st, rs @ rs')) (kitty_session K ds st))"
proof (induction cs arbitrary: st)
  case Nil
  show ?case by (cases "kitty_session K ds st") auto
next
  case (Cons c cs)
  then show ?case
    by (cases c) (auto split: option.splits simp: option.map_comp comp_def case_prod_unfold)
qed

lemma execute_ignores:
  "execute_command K now (c\<lparr>kc_more := m, kc_last_touched := t\<rparr>) = execute_command K now c"
  by (cases "kc_action c")
    (simp_all add: execute_command_def kitty_transmission_def create_graphic_data_def raw_data_def read_file_def
      inflated_def graphic_of_def command_response_def placement_of_def delete_of_def unsupported_action_def
      cong: option.case_cong sum.case_cong if_cong kitty_medium.case_cong kitty_compression.case_cong)

lemma gaps_ok_snoc: "gaps_ok t (ns @ [n]) \<longleftrightarrow> gaps_ok t ns \<and> n - last (t # ns) < CHUNK_STALE_TIMEOUT"
  by (induction ns arbitrary: t) auto

lemma evict_absent: "map_of (kt_incomplete st) key = None \<Longrightarrow> map_of (kt_incomplete (evict_stale_chunks now st)) key = None"
  by (auto simp: evict_stale_chunks_def Let_def map_of_eq_None_iff)

definition first_chunk :: "kitty_command \<Rightarrow> bool" where
  \<comment> \<open>a chunk that names its image by id\<close>
  "first_chunk c \<longleftrightarrow> kc_image_id c > 0 \<and> kc_image_number c = 0 \<and> kc_action c \<noteq> KQuery"

lemma first_chunk_starts:
  assumes "ps \<noteq> []" "hd ps = bytes_of ''G''" "kitty_command_of K now ps = Some c" "first_chunk c" "kc_more c"
    and "map_of (kt_incomplete st) (kc_image_id c) = None"
  shows "\<exists>st'. kitty_parse K now ps st = Some (st', Some pending_chunk) \<and>
    uploading st' (kc_image_id c) c (kc_payload c) now"
  using assms evict_absent [OF assms(6), of now]
  by (auto simp: kitty_parse_def first_chunk_def image_key_def store_chunk_def Let_def uploading_def)

lemma single_upload:
  assumes "ps \<noteq> []" "hd ps = bytes_of ''G''" "kitty_command_of K now ps = Some c" "first_chunk c" "\<not> kc_more c"
    and "map_of (kt_incomplete st) (kc_image_id c) = None" "execute_command K now c = Some r"
  shows "\<exists>st'. kitty_parse K now ps st = Some (st', Some r)"
  using assms evict_absent [OF assms(6), of now]
  by (auto simp: kitty_parse_def first_chunk_def image_key_def final_command_def Let_def)

lemma execute_total: "kc_action c \<noteq> KQuery \<Longrightarrow> \<exists>r. execute_command K now c = Some r"
  by (cases "kc_action c") (simp_all add: execute_command_def)

definition plain_kitty_env :: kitty_env where
  \<comment> \<open>no files, no compression, and a payload that is not encoded\<close>
  "plain_kitty_env = \<lparr>base64_standard = Some, base64_no_pad = Some, is_file = (\<lambda>_. False), file_contents = (\<lambda>_. None),
     shared_memory = (\<lambda>_ _ _. Inl FileNotFound), zlib_inflate = (\<lambda>_. None), png_decode = (\<lambda>_. None)\<rparr>"

lemma plain_command:
  assumes "ctl \<noteq> []" "\<forall>b \<in> set ctl. b < 0x80" "p \<noteq> []"
  shows "kitty_command_of plain_kitty_env t [g, ctl, p] = Some ((parse_control_data (kitty_command_default t) ctl)\<lparr>kc_payload := p\<rparr>)"
  using assms by (simp add: kitty_command_of_def check_def std_from_utf8_ascii decode_payload_base64_def plain_kitty_env_def)

lemma upload_keys:
  "parse_control_data (kitty_command_default t) [0x69, 0x3D, 0x37, 0x2C, 0x6D, 0x3D, 0x31] =
    (kitty_command_default t)\<lparr>kc_image_id := 7, kc_more := True\<rparr>"
  "parse_control_data (kitty_command_default t) [0x69, 0x3D, 0x37] = (kitty_command_default t)\<lparr>kc_image_id := 7\<rparr>"
  "parse_control_data (kitty_command_default t) [0x6D, 0x3D, 0x31] = (kitty_command_default t)\<lparr>kc_more := True\<rparr>"
  "parse_control_data (kitty_command_default t) [0x6D, 0x3D, 0x30] = (kitty_command_default t)\<lparr>kc_more := False\<rparr>"
proof -
  have pairs: "control_pairs [0x69, 0x3D, 0x37, 0x2C, 0x6D, 0x3D, 0x31] = [(''i'', [0x37]), (''m'', [0x31])]"
    "control_pairs [0x69, 0x3D, 0x37] = [(''i'', [0x37])]" "control_pairs [0x6D, 0x3D, 0x31] = [(''m'', [0x31])]"
    "control_pairs [0x6D, 0x3D, 0x30] = [(''m'', [0x30])]"
    by code_simp+
  have seven: "num_or_0 [0x37] = (7 :: u32)"
    by (simp add: num_or_0_def parse_unsigned_def)
  show "parse_control_data (kitty_command_default t) [0x69, 0x3D, 0x37, 0x2C, 0x6D, 0x3D, 0x31] =
    (kitty_command_default t)\<lparr>kc_image_id := 7, kc_more := True\<rparr>"
  "parse_control_data (kitty_command_default t) [0x69, 0x3D, 0x37] = (kitty_command_default t)\<lparr>kc_image_id := 7\<rparr>"
  "parse_control_data (kitty_command_default t) [0x6D, 0x3D, 0x31] = (kitty_command_default t)\<lparr>kc_more := True\<rparr>"
  "parse_control_data (kitty_command_default t) [0x6D, 0x3D, 0x30] = (kitty_command_default t)\<lparr>kc_more := False\<rparr>"
    by (simp_all add: parse_control_data_def pairs control_key_def seven)
qed

subsection \<open>Properties\<close>

text \<open>C21. An upload in chunks is the upload in one piece: a first chunk that names the image, further
  chunks that name none, each within ten seconds of the one before and with at most 400 megabytes
  together, are acknowledged in silence, and the last one gets the response that a single command with the
  first chunk's keys and the joined payloads gets; afterwards nothing of the upload is left in the state.\<close>

theorem chunked_upload:
  assumes "ps \<noteq> []" "hd ps = bytes_of ''G''" "kitty_command_of K t ps = Some c" "first_chunk c" "kc_more c"
    and "map_of (kt_incomplete st) (kc_image_id c) = None"
    and "list_all2 (\<lambda>(now, ps) d. ps \<noteq> [] \<and> hd ps = bytes_of ''G'' \<and>
      kitty_command_of K now ps = Some d \<and> continuation d \<and> kc_more d) cs ds"
    and "qs \<noteq> []" "hd qs = bytes_of ''G''" "kitty_command_of K now qs = Some d" "continuation d" "\<not> kc_more d"
    and "gaps_ok t (map fst cs @ [now])"
    and "payload = kc_payload c @ concat (map kc_payload ds) @ kc_payload d" "length payload \<le> MAX_SIZE"
    and "ws \<noteq> []" "hd ws = bytes_of ''G''"
    and "kitty_command_of K now ws = Some (c\<lparr>kc_payload := payload, kc_more := False, kc_last_touched := now\<rparr>)"
  shows "\<exists>st' st'' r. kitty_session K ((t, ps) # cs @ [(now, qs)]) st =
      Some (st', replicate (Suc (length cs)) (Some pending_chunk) @ [Some r]) \<and>
    map_of (kt_incomplete st') (kc_image_id c) = None \<and> kt_current_key st' = 0 \<and>
    kitty_parse K now ws st = Some (st'', Some r)"
proof -
  let ?key = "kc_image_id c"
  obtain st1 where 1: "kitty_parse K t ps st = Some (st1, Some pending_chunk)" "uploading st1 ?key c (kc_payload c) t"
    using first_chunk_starts [OF assms(1-6)] by blast
  obtain st2 where 2: "kitty_session K cs st1 = Some (st2, replicate (length cs) (Some pending_chunk))"
    "uploading st2 ?key c (kc_payload c @ concat (map kc_payload ds)) (last (t # map fst cs))"
    using continuing_session [OF 1(2) assms(7)] assms(13-15) by (auto simp: gaps_ok_snoc)
  have up: "uploading (evict_stale_chunks now st2) ?key c (kc_payload c @ concat (map kc_payload ds)) (last (t # map fst cs))"
    using evict_keeps [OF 2(2), of now] assms(13) by (simp add: gaps_ok_snoc)
  obtain st3 where 3: "final_command ?key d (evict_stale_chunks now st2) =
      (st3, Some (c\<lparr>kc_payload := payload, kc_last_touched := last (t # map fst cs)\<rparr>))"
    "map_of (kt_incomplete st3) ?key = None" "kt_current_key st3 = 0"
    using final_chunk [OF up, of d] assms(14,15) by auto
  let ?w = "c\<lparr>kc_payload := payload, kc_more := False, kc_last_touched := now\<rparr>"
  obtain r where r: "execute_command K now ?w = Some r"
    using execute_total [of ?w K now] assms(4) by (auto simp: first_chunk_def)
  have "?w = (c\<lparr>kc_payload := payload, kc_last_touched := last (t # map fst cs)\<rparr>)\<lparr>kc_more := False, kc_last_touched := now\<rparr>"
    by simp
  with r have "execute_command K now (c\<lparr>kc_payload := payload, kc_last_touched := last (t # map fst cs)\<rparr>) = Some r"
    by (metis execute_ignores)
  then have "kitty_parse K now qs st2 = Some (st3, Some r)"
    using kitty_parse_continuation [OF assms(9,8,10,11) 2(2)] assms(12) 3(1) by simp
  then have "kitty_session K ((t, ps) # cs @ [(now, qs)]) st =
      Some (st3, replicate (Suc (length cs)) (Some pending_chunk) @ [Some r])"
    using 1(1) 2(1) by (simp add: kitty_session_append)
  moreover obtain st'' where "kitty_parse K now ws st = Some (st'', Some r)"
    using single_upload [OF assms(16-18), of st r] assms(4,6) r by (auto simp: first_chunk_def)
  ultimately show ?thesis using 3(2,3) by blast
qed

theorem chunked_upload_witness:
  "\<exists>st' st'' r. kitty_session plain_kitty_env
      [(0, [bytes_of ''G'', [0x69, 0x3D, 0x37, 0x2C, 0x6D, 0x3D, 0x31], [1]]), (5, [bytes_of ''G'', [0x6D, 0x3D, 0x31], [2]]),
       (9, [bytes_of ''G'', [0x6D, 0x3D, 0x30], [3]])] kitty_state_default =
      Some (st', [Some pending_chunk, Some pending_chunk, Some r]) \<and>
    map_of (kt_incomplete st') 7 = None \<and> kt_current_key st' = 0 \<and>
    kitty_parse plain_kitty_env 9 [bytes_of ''G'', [0x69, 0x3D, 0x37], [1, 2, 3]] kitty_state_default = Some (st'', Some r)"
proof -
  define c d e where cde: "c = (kitty_command_default 0)\<lparr>kc_image_id := 7, kc_more := True, kc_payload := [1]\<rparr>"
    "d = (kitty_command_default 5)\<lparr>kc_more := True, kc_payload := [2]\<rparr>"
    "e = (kitty_command_default 9)\<lparr>kc_more := False, kc_payload := [3]\<rparr>"
  have commands:
    "kitty_command_of plain_kitty_env 0 [bytes_of ''G'', [0x69, 0x3D, 0x37, 0x2C, 0x6D, 0x3D, 0x31], [1]] = Some c"
    "kitty_command_of plain_kitty_env 5 [bytes_of ''G'', [0x6D, 0x3D, 0x31], [2]] = Some d"
    "kitty_command_of plain_kitty_env 9 [bytes_of ''G'', [0x6D, 0x3D, 0x30], [3]] = Some e"
    "kitty_command_of plain_kitty_env 9 [bytes_of ''G'', [0x69, 0x3D, 0x37], [1, 2, 3]] =
      Some (c\<lparr>kc_payload := [1, 2, 3], kc_more := False, kc_last_touched := 9\<rparr>)"
    by (simp_all add: plain_command upload_keys cde) (simp add: kitty_command_default_def)
  have facts: "first_chunk c" "kc_more c" "kc_image_id c = 7" "continuation d" "kc_more d" "continuation e" "\<not> kc_more e"
    "kc_payload c = [1]" "kc_payload d = [2]" "kc_payload e = [3]" "gaps_ok 0 (map fst [(5 :: nat, x)] @ [9])" for x :: "u8 list list"
    by (simp_all add: cde kitty_command_default_def first_chunk_def continuation_def CHUNK_STALE_TIMEOUT_def)
  have "list_all2 (\<lambda>(now, ps) d. ps \<noteq> [] \<and> hd ps = bytes_of ''G'' \<and> kitty_command_of plain_kitty_env now ps = Some d \<and>
      continuation d \<and> kc_more d) [(5, [bytes_of ''G'', [0x6D, 0x3D, 0x31], [2]])] [d]"
    by (simp add: commands facts)
  from chunked_upload [OF _ _ commands(1) facts(1,2) _ this _ _ commands(3) facts(6,7,11) _ _ _ _ commands(4), of kitty_state_default]
  show ?thesis
    by (simp add: facts kitty_state_default_def MAX_SIZE_def)
qed


definition two_pixels :: kitty_command where
  "two_pixels = (kitty_command_default 0)\<lparr>kc_format := KGrayAlpha, kc_image_id := 7, kc_width := 2, kc_height := 1,
     kc_payload := [10, 255, 20, 128]\<rparr>"


end
