(* ===== verification/Iterm.thy ===== *)
theory Iterm
  imports KittyProtocol
begin

text \<open>
  \<open>ansi/iterm2_image_protocol.rs\<close>, the inline images of OSC 1337, and the display size of an image,
  \<open>compute_display_dimensions\<close> of the renderer's \<open>graphics.rs\<close>. Decoding an image file is a parameter; so is
  the arithmetic in \<open>f64\<close>, in whole expressions.
\<close>

subsection \<open>Display size\<close>

definition umul :: "nat \<Rightarrow> nat \<Rightarrow> nat option" where
  \<comment> \<open>\<open>usize\<close> multiplication: panics above the width\<close>
  "umul a b = (if a * b < 2 ^ 64 then Some (a * b) else None)"

lemma wp_umul [wp_simps]: "wp (umul a b) P = (a * b < 2 ^ 64 \<and> P (a * b))"
  by (simp add: wp_def umul_def)

record float_env =
  \<comment> \<open>\<open>(a as f64 * b as f64 / c as f64).round() as usize\<close>, and the two sides scaled by the smaller one of the
    ratios of \<open>(width, height)\<close> to \<open>(w, h)\<close>\<close>
  auto_scale :: "nat \<Rightarrow> nat \<Rightarrow> nat \<Rightarrow> nat"
  fit_scale :: "nat \<times> nat \<Rightarrow> nat \<times> nat \<Rightarrow> nat \<times> nat"

definition GRAPHIC_LIMIT :: nat where
  \<comment> \<open>both of \<open>MAX_GRAPHIC_DIMENSIONS\<close>\<close>
  "GRAPHIC_LIMIT = 4096"

fun resize_pixels :: "resize_parameter \<Rightarrow> nat \<Rightarrow> nat \<Rightarrow> nat option" where
  "resize_pixels ResizeAuto cell whole = Some 1"
| "resize_pixels (ResizePixels n) cell whole = Some (unat n)"
| "resize_pixels (ResizeCells n) cell whole = umul (unat n) cell"
| "resize_pixels (ResizeWindowPercent n) cell whole = map_option (\<lambda>x. x div 100) (umul (unat n) whole)"

definition compute_display_dimensions ::
    "float_env \<Rightarrow> graphic_data \<Rightarrow> nat \<times> nat \<Rightarrow> nat \<times> nat \<Rightarrow> (nat \<times> nat) option" where
  \<comment> \<open>of the sizes of the cell and the view\<close>
  "compute_display_dimensions F d cell whole =
     (let w = gd_width d; h = gd_height d in
      case gd_resize d of
        None \<Rightarrow> Some (w, h)
      | Some r \<Rightarrow>
          if (rc_width r = ResizeAuto \<and> rc_height r = ResizeAuto) \<or> h = 0 \<or> w = 0 then Some (w, h)
          else do {
            width \<leftarrow> resize_pixels (rc_width r) (fst cell) (fst whole);
            height \<leftarrow> resize_pixels (rc_height r) (snd cell) (snd whole);
            if width = 0 \<or> height = 0 then Some (w, h)
            else
              (let width = (if rc_width r = ResizeAuto then auto_scale F w height h else width);
                   height = (if rc_height r = ResizeAuto then auto_scale F h width w else height);
                   width = min width GRAPHIC_LIMIT;
                   height = min height GRAPHIC_LIMIT
               in Some (if rc_preserve r then fit_scale F (width, height) (w, h) else (width, height)))
          })"

subsection \<open>OSC 1337\<close>

definition file_param :: "u8 list \<Rightarrow> u8 list option" where
  \<comment> \<open>the first parameter without its \<open>File=\<close>\<close>
  "file_param p = (if take 5 p = bytes_of ''File='' then Some (drop 5 p) else None)"

definition param_pair :: "text_lib \<Rightarrow> bool \<Rightarrow> u8 list \<Rightarrow> (u8 list \<times> u8 list) option \<times> u8 list option" where
  \<comment> \<open>the key and value of one parameter, and in the last one the contents after the colon\<close>
  "param_pair lib is_last p =
     (case split_once 0x3D p of
        None \<Rightarrow> (None, None)
      | Some (key, v) \<Rightarrow>
          (let (v, contents) = (if is_last then (case split_once 0x3A v of Some (a, b) \<Rightarrow> (a, Some b) | None \<Rightarrow> (v, None))
                                else (v, None))
           in (if from_utf8_fast lib key \<noteq> None \<and> from_utf8_fast lib v \<noteq> None then Some (key, v) else None, contents)))"

fun collect_params :: "text_lib \<Rightarrow> (u8 list \<times> u8 list) list \<Rightarrow> u8 list list \<Rightarrow> (u8 list \<times> u8 list) list \<times> u8 list option" where
  \<comment> \<open>the loop: the map so far, and the contents of the last parameter\<close>
  "collect_params lib m [] = (m, None)"
| "collect_params lib m (p # ps) =
     (let (pair, contents) = param_pair lib (ps = []) p;
          m = (case pair of Some (k, v) \<Rightarrow> AList.update k v m | None \<Rightarrow> m)
      in if ps = [] then (m, contents) else collect_params lib m ps)"

definition param_values :: "text_lib \<Rightarrow> u8 list list \<Rightarrow> ((u8 list \<times> u8 list) list \<times> u8 list) option" where
  "param_values lib params =
     (case tl params of
        [] \<Rightarrow> None
      | p # ps \<Rightarrow> do {
          p \<leftarrow> file_param p;
          let (m, contents) = collect_params lib [] (p # ps);
          c \<leftarrow> contents;
          Some (m, c)
        })"

definition is_ascii_digit :: "u8 \<Rightarrow> bool" where
  "is_ascii_digit b \<longleftrightarrow> 0x30 \<le> b \<and> b \<le> 0x39"

definition resize_parameter_of :: "u8 list option \<Rightarrow> resize_parameter option" where
  \<comment> \<open>the inner function \<open>parse\<close>\<close>
  "resize_parameter_of v =
     (case v of
        None \<Rightarrow> Some ResizeAuto
      | Some v \<Rightarrow>
          if v = bytes_of ''auto'' then Some ResizeAuto
          else
            (let number = map_option word_of_nat (parse_unsigned (2 ^ 32) (takeWhile is_ascii_digit v));
                 unit = dropWhile is_ascii_digit v in
             if unit = [] then map_option ResizeCells number
             else if unit = bytes_of ''%'' then map_option ResizeWindowPercent number
             else if unit = bytes_of ''px'' then map_option ResizePixels number
             else None))"

definition resize_param :: "(u8 list \<times> u8 list) list \<Rightarrow> resize_command option" where
  "resize_param m = do {
     width \<leftarrow> resize_parameter_of (map_of m (bytes_of ''width''));
     height \<leftarrow> resize_parameter_of (map_of m (bytes_of ''height''));
     Some \<lparr>rc_width = width, rc_height = height,
           rc_preserve = (map_of m (bytes_of ''preserveAspectRatio'') \<noteq> Some (bytes_of ''0''))\<rparr>
   }"

definition from_dynamic_image :: "u64 \<Rightarrow> nat \<Rightarrow> nat \<times> nat \<times> u8 list \<Rightarrow> graphic_data" where
  \<comment> \<open>of the clock and an image that is RGBA already, or converted to it\<close>
  "from_dynamic_image i now = (\<lambda>(w, h, pixels).
     \<lparr>gd_id = i, gd_width = w, gd_height = h, gd_color_type = ColorRgba, gd_pixels = pixels, gd_is_opaque = False,
      gd_resize = None, gd_display_width = None, gd_display_height = None, gd_transmit_time = now\<rparr>)"

definition iterm2_parse ::
    "text_lib \<Rightarrow> (u8 list \<Rightarrow> u8 list option) \<Rightarrow> (u8 list \<Rightarrow> (nat \<times> nat \<times> u8 list) option) \<Rightarrow> nat \<Rightarrow> u8 list list \<Rightarrow>
     graphic_data option" where
  \<comment> \<open>of Base64, the decoder of image files and the clock\<close>
  "iterm2_parse lib base64 load_image now params = do {
     (m, contents) \<leftarrow> param_values lib params;
     check (map_of m (bytes_of ''inline'') = Some (bytes_of ''1''));
     buffer \<leftarrow> base64 contents;
     image \<leftarrow> load_image buffer;
     Some ((from_dynamic_image 1 now image)\<lparr>gd_resize := resize_param m\<rparr>)
   }"

end
