(* ===== verification/Images.thy ===== *)
theory Images
  imports Iterm Sixel Performer
begin

text \<open>
  \<open>crosswords/mod.rs\<close>, the terminal's side of the image protocols: Sixel and iTerm2 images are attached to
  cells, Kitty images are overlays with placements. The state is the terminal with the fields of its
  \<open>Graphics\<close> that no other operation uses: the last id, the Sixel parser and the chunks of Kitty uploads. Of
  the clock and of the weak references to textures each operation reads once; the counter of reads
  stands for the time. The requests that a texture queues when its last reference is dropped are left out.
\<close>

subsection \<open>State\<close>

record image_env =
  ie_env :: env
  ie_kitty :: kitty_env
  ie_lib :: text_lib
  ie_float :: float_env
  ie_hls :: "u16 \<Rightarrow> u16 \<Rightarrow> u16 \<Rightarrow> color_rgb"
  load_image :: "u8 list \<Rightarrow> (nat \<times> nat \<times> u8 list) option"
  ie_cell :: "nat \<times> nat" \<comment> \<open>\<open>cell_width as usize\<close> and \<open>cell_height as usize\<close>\<close>
  instants :: "nat \<Rightarrow> nat"
  texture_alive :: "nat \<Rightarrow> u64 \<Rightarrow> bool"

record image_terminal =
  it_term :: crosswords
  it_last_id :: u64
  it_sixel :: "sixel_parser option"
  it_chunks :: kitty_state
  it_reads :: nat

definition on_graphics :: "crosswords \<Rightarrow> (graphics \<Rightarrow> graphics) \<Rightarrow> crosswords" where
  "on_graphics t f = t\<lparr>cw_graphics := f (cw_graphics t)\<rparr>"

definition graphic_next_id :: "image_terminal \<Rightarrow> (image_terminal \<times> u64) option" where
  "graphic_next_id s = do {
     check (it_last_id s \<noteq> -1);
     Some (s\<lparr>it_last_id := it_last_id s + 1\<rparr>, it_last_id s + 1)
   }"

definition now :: "image_env \<Rightarrow> image_terminal \<Rightarrow> nat" where
  "now V s = instants V (it_reads s)"

definition send_graphics_updates :: "crosswords \<Rightarrow> crosswords" where
  "send_graphics_updates t =
     (if has_pending_updates (cw_graphics t) then
        (let (g, q) = take_queues (cw_graphics t); t = t\<lparr>cw_graphics := g\<rparr>
         in (case q of Some q \<Rightarrow> send t (UpdateGraphics q) | None \<Rightarrow> t))
      else t)"

subsection \<open>Images in cells\<close>

definition step_offsets :: "nat \<Rightarrow> nat \<Rightarrow> nat list option" where
  \<comment> \<open>\<open>(0..limit).step_by(step)\<close>: panics for the step 0\<close>
  "step_offsets limit step = (if step = 0 then None else Some (map (\<lambda>i. i * step) [0..<(limit + step - 1) div step]))"

definition attach_graphic :: "texture_ref \<Rightarrow> int \<Rightarrow> nat \<Rightarrow> crosswords \<Rightarrow> nat \<times> nat \<Rightarrow> crosswords option" where
  \<comment> \<open>the body of the inner loop of \<open>insert_graphic\<close>\<close>
  "attach_graphic tex line y t = (\<lambda>(left, x).
     let gc = \<lparr>gc_texture = tex, gc_offset_x = word_of_nat x, gc_offset_y = word_of_nat y\<rparr> in do {
       c \<leftarrow> cell_at t (Pos line left);
       let c = (if sq_is_bg_only c then sq_clear c else c);
       (e, c) \<leftarrow> (case sq_extras_id c of
           Some i \<Rightarrow> Some (extras_modify (g_extras (cgrid t)) i (\<lambda>e. e\<lparr>ex_graphic := Some [gc]\<rparr>), c)
         | None \<Rightarrow> do {
             (e, i) \<leftarrow> extras_alloc (g_extras (cgrid t)) (extras_default\<lparr>ex_graphic := Some [gc]\<rparr>);
             Some (e, sq_set_extras_id c (Some i))
           });
       set_cell (t\<lparr>cgrid := (cgrid t)\<lparr>g_extras := e\<rparr>\<rparr>) (Pos line left) (\<lambda>_. sq_insert_cell_flag c CF_GRAPHICS)
     })"

definition attach_row :: "texture_ref \<Rightarrow> int \<Rightarrow> nat \<Rightarrow> nat \<Rightarrow> nat \<Rightarrow> crosswords \<Rightarrow> crosswords option" where
  \<comment> \<open>the inner loop, which ends at the end of the row\<close>
  "attach_row tex line y leftmost cell_width t = do {
     r \<leftarrow> storage_index (raw (cgrid t)) line;
     xs \<leftarrow> step_offsets (unat (tx_width tex)) cell_width;
     foldM (attach_graphic tex line y) t (takeWhile (\<lambda>(left, _). left < length (cells r)) (enumerate leftmost xs))
   }"

definition attach_rows ::
    "texture_ref \<Rightarrow> bool \<Rightarrow> nat \<Rightarrow> nat \<times> nat \<Rightarrow> crosswords \<Rightarrow> crosswords option" where
  \<comment> \<open>the outer loop, which ends at the last line unless the screen scrolls\<close>
  "attach_rows tex scrolling leftmost cell t = do {
     let height = unat (tx_height tex);
     ys \<leftarrow> step_offsets height (snd cell);
     foldM (\<lambda>t (top, y). do {
         let line = (if scrolling then cur_row t else int top);
         t \<leftarrow> attach_row tex line y leftmost (fst cell) t;
         t \<leftarrow> damage_line t line;
         if scrolling \<and> y < height - snd cell mod 2 ^ 16 then linefeed t else Some t
       }) t (takeWhile (\<lambda>(top, _). scrolling \<or> top < screen_line_count t) (enumerate 0 ys))
   }"

definition div_ceil :: "nat \<Rightarrow> nat \<Rightarrow> nat option" where
  "div_ceil a b = (if b = 0 then None else Some ((a + b - 1) div b))"

definition after_graphic :: "image_env \<Rightarrow> graphic_data \<Rightarrow> bool \<Rightarrow> u8 option \<Rightarrow> crosswords \<Rightarrow> crosswords option" where
  \<comment> \<open>the movement of the cursor at the end of \<open>insert_graphic\<close>\<close>
  "after_graphic V d scrolling movement t =
     (if movement = Some 1 then Some t
      else if mode_on t M_SIXEL_CURSOR_TO_THE_RIGHT then
        (if movement = None \<or> movement = Some 0 then do {
           n \<leftarrow> div_ceil (gd_width d) (fst (ie_cell V));
           move_forward t n
         }
         else Some t)
      else if scrolling then carriage_return t
      else Some t)"

definition reserve_graphic :: "image_env \<Rightarrow> image_terminal \<Rightarrow> nat \<Rightarrow> graphics" where
  \<comment> \<open>the eviction before an insertion of so many bytes\<close>
  "reserve_graphic V s bytes =
     (let g = cw_graphics (it_term s) in
      if gr_total_bytes g + bytes > gr_total_limit g then
        (let (g, used) = collect_active_graphic_ids (texture_alive V (it_reads s)) g
         in fst (evict_images g bytes used))
      else g)"

definition show_graphic ::
    "image_env \<Rightarrow> image_terminal \<Rightarrow> graphic_data \<Rightarrow> nat \<times> nat \<Rightarrow> u8 option \<Rightarrow> image_terminal option" where
  \<comment> \<open>\<open>insert_graphic\<close> from the display size on\<close>
  "show_graphic V s d dims movement = do {
     let d = d\<lparr>gd_display_width := Some (fst dims), gd_display_height := Some (snd dims)\<rparr>;
     let bytes = image_bytes d;
     let g = reserve_graphic V s bytes;
     (s', i) \<leftarrow> graphic_next_id s;
     let tex = \<lparr>tx_id = i, tx_width = word_of_nat (fst dims), tx_height = word_of_nat (snd dims),
                tx_cell_height = snd (ie_cell V)\<rparr>;
     let t = (it_term s)\<lparr>cw_graphics := register_placed_texture (track_graphic g (now V s) i bytes) i\<rparr>;
     let scrolling = (\<not> mode_on t M_SIXEL_DISPLAY);
     t \<leftarrow> attach_rows tex scrolling (if scrolling then cur_col t else 0) (ie_cell V) t;
     t \<leftarrow> after_graphic V d scrolling movement t;
     let t = on_graphics t (\<lambda>g. g\<lparr>gr_pending := gr_pending g @ [d\<lparr>gd_id := i\<rparr>]\<rparr>);
     Some (s'\<lparr>it_term := send_graphics_updates t\<rparr>)
   }"

definition insert_graphic ::
    "image_env \<Rightarrow> image_terminal \<Rightarrow> graphic_data \<Rightarrow> color_rgb list option \<Rightarrow> u8 option \<Rightarrow> image_terminal option" where
  "insert_graphic V s d palette movement = do {
     let t = it_term s;
     let t = (case palette of
         Some p \<Rightarrow> if \<not> mode_on t M_SIXEL_PRIV_PALETTE then on_graphics t (\<lambda>g. g\<lparr>gr_sixel_palette := Some p\<rparr>) else t
       | None \<Rightarrow> t);
     let s = s\<lparr>it_term := t\<rparr>;
     view_width \<leftarrow> umul (fst (ie_cell V)) (grid_col_count t);
     view_height \<leftarrow> umul (snd (ie_cell V)) (screen_line_count t);
     (w, h) \<leftarrow> compute_display_dimensions (ie_float V) d (ie_cell V) (view_width, view_height);
     if w > GRAPHIC_LIMIT \<or> h > GRAPHIC_LIMIT \<or> w = 0 \<or> h = 0 then Some s
     else show_graphic V s d (w, h) movement
   }"

subsection \<open>Sixel and iTerm2\<close>

definition sixel_graphic_start :: "params \<Rightarrow> image_terminal \<Rightarrow> image_terminal option" where
  "sixel_graphic_start ps s = do {
     let palette = gr_sixel_palette (cw_graphics (it_term s));
     let t = on_graphics (it_term s) (\<lambda>g. g\<lparr>gr_sixel_palette := None\<rparr>);
     p \<leftarrow> sixel_parser_new ps palette;
     Some (s\<lparr>it_term := t, it_sixel := Some p\<rparr>)
   }"

definition is_sixel_graphic_active :: "image_terminal \<Rightarrow> bool" where
  "is_sixel_graphic_active s \<longleftrightarrow> it_sixel s \<noteq> None"

definition sixel_graphic_reset :: "image_terminal \<Rightarrow> image_terminal" where
  "sixel_graphic_reset s = s\<lparr>it_sixel := None\<rparr>"

definition sixel_graphic_put :: "image_env \<Rightarrow> u8 \<Rightarrow> image_terminal \<Rightarrow> (image_terminal \<times> bool) option" where
  "sixel_graphic_put V b s =
     (case it_sixel s of
        None \<Rightarrow> Some (sixel_graphic_reset s, False)
      | Some p \<Rightarrow> map_option (\<lambda>(p, e). (s\<lparr>it_sixel := Some p\<rparr>, e = None)) (sixel_put (ie_hls V) b p))"

definition sixel_graphic_finish :: "image_env \<Rightarrow> image_terminal \<Rightarrow> image_terminal option" where
  "sixel_graphic_finish V s =
     (case it_sixel s of
        None \<Rightarrow> Some s
      | Some p \<Rightarrow> do {
          let s = s\<lparr>it_sixel := None\<rparr>;
          r \<leftarrow> sixel_finish (ie_hls V) (now V s) p;
          case r of
            Inr (d, palette) \<Rightarrow> insert_graphic V s d (Some palette) None
          | Inl e \<Rightarrow> Some s
        })"

definition iterm2_image :: "image_env \<Rightarrow> u8 list list \<Rightarrow> image_terminal \<Rightarrow> image_terminal option" where
  \<comment> \<open>the dispatcher's branch of OSC 1337\<close>
  "iterm2_image V params s =
     (case iterm2_parse (ie_lib V) (base64_standard (ie_kitty V)) (load_image V) (now V s) params of
        Some d \<Rightarrow> insert_graphic V s d None None
      | None \<Rightarrow> Some s)"

end
