(* ===== verification/Overlays.thy ===== *)
theory Overlays
  imports Images
begin

text \<open>
  \<open>crosswords/mod.rs\<close>, the images of the Kitty protocol: storing, placing and deleting them, what one
  command of the protocol makes the terminal do, and \<open>terminal_handler\<close>, the terminal as a handler of the
  dispatcher.
\<close>

subsection \<open>Placing\<close>

definition place_virtual_graphic :: "placement_request \<Rightarrow> crosswords \<Rightarrow> crosswords" where
  "place_virtual_graphic q t =
     on_graphics t (\<lambda>g. g\<lparr>gr_active := (gr_active g)\<lparr>ks_virtual := AList.update (pq_image_id q, pq_placement_id q)
       \<lparr>vp_image_id = pq_image_id q, vp_placement_id = pq_placement_id q, vp_columns = pq_columns q,
        vp_rows = pq_rows q, vp_x = pq_x q, vp_y = pq_y q\<rparr> (ks_virtual (gr_active g))\<rparr>\<rparr>)"

fun linefeeds :: "nat \<Rightarrow> crosswords \<Rightarrow> crosswords option" where
  "linefeeds 0 t = Some t"
| "linefeeds (Suc n) t = Option.bind (linefeed t) (linefeeds n)"

definition cells_or :: "u32 \<Rightarrow> nat \<Rightarrow> nat \<Rightarrow> u32 option" where
  \<comment> \<open>a size in cells: the one asked for, or what the pixels need\<close>
  "cells_or n pixels cell = (if n > 0 then Some n else map_option word_of_nat (div_ceil pixels cell))"

definition new_placement :: "crosswords \<Rightarrow> u32 \<Rightarrow> u32 \<Rightarrow> placement_request \<Rightarrow> nat \<times> nat \<Rightarrow> u32 \<times> u32 \<Rightarrow> nat \<Rightarrow> kitty_placement" where
  \<comment> \<open>of the ids, the request, the size in pixels and in cells, and the time of the upload\<close>
  "new_placement t image_id placement_id q dims area time =
     \<lparr>kp_image_id = image_id, kp_placement_id = placement_id, kp_source_x = pq_x q, kp_source_y = pq_y q,
      kp_source_width = pq_width q, kp_source_height = pq_height q,
      kp_dest_col = (if pq_x q > 0 then unat (pq_x q) else cur_col t),
      kp_dest_row = int (grid_history (cgrid t)) + (if pq_y q > 0 then sint (pq_y q) else cur_row t),
      kp_columns = fst area, kp_rows = snd area, kp_pixel_width = word_of_nat (fst dims),
      kp_pixel_height = word_of_nat (snd dims), kp_cell_x_offset = 0, kp_cell_y_offset = 0,
      kp_z_index = pq_z_index q, kp_transmit_time = time\<rparr>"

definition add_overlay ::
    "placement_request \<Rightarrow> u32 \<Rightarrow> graphic_data \<Rightarrow> nat \<times> nat \<Rightarrow> u32 \<times> u32 \<Rightarrow> crosswords \<Rightarrow> crosswords" where
  \<comment> \<open>\<open>place_kitty_overlay\<close> from the display size to the upload; the image data carries the time of its upload\<close>
  "add_overlay q image_id d dims area t =
     (let (g, placement_id) = (if pq_placement_id q = 0 then allocate_placement_id (cw_graphics t)
                              else (cw_graphics t, pq_placement_id q));
          p = new_placement t image_id placement_id q dims area (gd_transmit_time d);
          needs_upload = (case map_of (ks_placements (gr_active g)) (image_id, placement_id) of
            Some old \<Rightarrow> kp_transmit_time old \<noteq> gd_transmit_time d | None \<Rightarrow> True);
          g = g\<lparr>gr_active := (gr_active g)\<lparr>ks_placements :=
            AList.update (image_id, placement_id) p (ks_placements (gr_active g))\<rparr>, gr_dirty := True\<rparr>;
          t = t\<lparr>cw_graphics := g\<rparr>
      in if needs_upload
         then send_graphics_updates (on_graphics t (\<lambda>g. g\<lparr>gr_pending_images := gr_pending_images g @ [(image_id, d)]\<rparr>))
         else t)"

definition show_overlay ::
    "placement_request \<Rightarrow> u32 \<Rightarrow> graphic_data \<Rightarrow> nat \<times> nat \<Rightarrow> u32 \<times> u32 \<Rightarrow> crosswords \<Rightarrow> crosswords option" where
  \<comment> \<open>with the movement of the cursor\<close>
  "show_overlay q image_id d dims area t =
     (let t = add_overlay q image_id d dims area t in
      if pq_cursor_movement q = 1 then Some t
      else do {
        t \<leftarrow> linefeeds (unat (snd area) - 1) t;
        carriage_return t
      })"

definition place_kitty_overlay :: "image_env \<Rightarrow> u32 \<Rightarrow> placement_request \<Rightarrow> crosswords \<Rightarrow> crosswords option" where
  "place_kitty_overlay V image_id q t =
     (case get_kitty_image (cw_graphics t) image_id of
        None \<Rightarrow> Some t
      | Some stored \<Rightarrow>
          (let d = si_data stored;
               d = (case cells_resize (pq_columns q) (pq_rows q) of Some r \<Rightarrow> d\<lparr>gd_resize := Some r\<rparr> | None \<Rightarrow> d) in
           if fst (ie_cell V) = 0 \<or> snd (ie_cell V) = 0 then Some t
           else do {
             view_width \<leftarrow> umul (fst (ie_cell V)) (grid_col_count t);
             view_height \<leftarrow> umul (snd (ie_cell V)) (screen_line_count t);
             (w, h) \<leftarrow> compute_display_dimensions (ie_float V) d (ie_cell V) (view_width, view_height);
             if w = 0 \<or> h = 0 \<or> w > GRAPHIC_LIMIT \<or> h > GRAPHIC_LIMIT then Some t
             else do {
               let d = d\<lparr>gd_display_width := Some w, gd_display_height := Some h, gd_transmit_time := si_time stored\<rparr>;
               columns \<leftarrow> cells_or (pq_columns q) w (fst (ie_cell V));
               rows \<leftarrow> cells_or (pq_rows q) h (snd (ie_cell V));
               show_overlay q image_id d (w, h) (columns, rows) t
             }
           }))"

definition store_graphic :: "image_env \<Rightarrow> graphic_data \<Rightarrow> image_terminal \<Rightarrow> image_terminal" where
  "store_graphic V d s =
     s\<lparr>it_term := on_graphics (it_term s) (\<lambda>g. store_kitty_image g (now V s) (ucast (gd_id d)) None d)\<rparr>"

definition kitty_transmit_and_display ::
    "image_env \<Rightarrow> graphic_data \<Rightarrow> placement_request \<Rightarrow> image_terminal \<Rightarrow> image_terminal option" where
  "kitty_transmit_and_display V d q s =
     (let image_id = ucast (gd_id d); t = it_term (store_graphic V d s) in
      if pq_virtual q then
        (let t = on_graphics t (\<lambda>g. g\<lparr>gr_pending_images := gr_pending_images g @ [(image_id, d)], gr_dirty := True\<rparr>)
         in Some (s\<lparr>it_term := place_virtual_graphic q (send_graphics_updates t)\<rparr>))
      else map_option (\<lambda>t. s\<lparr>it_term := t\<rparr>) (place_kitty_overlay V image_id q t))"

definition place_graphic :: "image_env \<Rightarrow> placement_request \<Rightarrow> crosswords \<Rightarrow> crosswords option" where
  "place_graphic V q t =
     (if pq_virtual q then Some (place_virtual_graphic q t)
      else if get_kitty_image (cw_graphics t) (pq_image_id q) \<noteq> None then place_kitty_overlay V (pq_image_id q) q t
      else Some t)"

subsection \<open>Deleting images in cells\<close>

definition clear_cell_graphic :: "extras_table \<Rightarrow> square \<Rightarrow> extras_table \<times> square" where
  "clear_cell_graphic x c =
     (let (x, c) = (case sq_extras_id c of
            None \<Rightarrow> (x, c)
          | Some i \<Rightarrow> (case extras_get x i of
              None \<Rightarrow> (x, c)
            | Some e \<Rightarrow>
                (let x = extras_modify x i (\<lambda>e. e\<lparr>ex_graphic := None\<rparr>) in
                 if extras_is_empty (e\<lparr>ex_graphic := None\<rparr>) then (extras_free x i, sq_set_extras_id c None) else (x, c))))
      in (x, sq_remove_cell_flag c CF_GRAPHICS))"

definition clear_graphic_at :: "crosswords \<Rightarrow> pos \<Rightarrow> (crosswords \<times> bool) option" where
  \<comment> \<open>with the answer whether there was one\<close>
  "clear_graphic_at t p = do {
     c \<leftarrow> cell_at t p;
     let (x, d) = (if sq_has_graphics c then clear_cell_graphic (g_extras (cgrid t)) c else (g_extras (cgrid t), c));
     t \<leftarrow> set_cell (t\<lparr>cgrid := (cgrid t)\<lparr>g_extras := x\<rparr>\<rparr>) p (\<lambda>_. d);
     Some (t, sq_has_graphics c)
   }"

definition clear_row_graphics :: "crosswords \<Rightarrow> int \<Rightarrow> crosswords option" where
  "clear_row_graphics t line = do {
     t \<leftarrow> foldM (\<lambda>t k. map_option fst (clear_graphic_at t (Pos line k))) t [0..<grid_col_count t];
     damage_line t line
   }"

definition clear_damage_at :: "crosswords \<Rightarrow> pos \<Rightarrow> crosswords option" where
  "clear_damage_at t p = do {
     (t, had) \<leftarrow> clear_graphic_at t p;
     if had then damage_line t (row p) else Some t
   }"

definition delete_all_graphics :: "crosswords \<Rightarrow> crosswords option" where
  "delete_all_graphics t = foldM clear_row_graphics t (map int [0..<screen_line_count t])"

definition delete_graphic_at_position :: "crosswords \<Rightarrow> pos \<Rightarrow> crosswords option" where
  "delete_graphic_at_position t p =
     (if row p \<ge> 0 \<and> nat (row p) < screen_line_count t \<and> col p < grid_col_count t then clear_damage_at t p else Some t)"

definition delete_graphics_in_column :: "crosswords \<Rightarrow> nat \<Rightarrow> crosswords option" where
  "delete_graphics_in_column t k =
     (if k < grid_col_count t then foldM (\<lambda>t l. clear_damage_at t (Pos (int l) k)) t [0..<screen_line_count t] else Some t)"

definition delete_graphics_in_row :: "crosswords \<Rightarrow> int \<Rightarrow> crosswords option" where
  "delete_graphics_in_row t line =
     (if line \<ge> 0 \<and> nat line < screen_line_count t then clear_row_graphics t line else Some t)"

definition cleanup_unused_kitty_images :: "image_env \<Rightarrow> nat \<Rightarrow> crosswords \<Rightarrow> crosswords" where
  \<comment> \<open>the second argument is the counter of reads\<close>
  "cleanup_unused_kitty_images V k t =
     on_graphics t (\<lambda>g. let (g, used) = collect_active_graphic_ids (texture_alive V k) g
       in delete_kitty_images g (\<lambda>i _. i \<notin> ucast ` used))"

subsection \<open>Deleting overlays\<close>

definition covers_column :: "nat \<Rightarrow> kitty_placement \<Rightarrow> bool" where
  "covers_column k p \<longleftrightarrow> kp_dest_col p \<le> k \<and> k < kp_dest_col p + unat (kp_columns p)"

definition covers_row :: "int \<Rightarrow> kitty_placement \<Rightarrow> bool" where
  "covers_row l p \<longleftrightarrow> kp_dest_row p \<le> l \<and> l < kp_dest_row p + int (unat (kp_rows p))"

definition drop_placements :: "((u32 \<times> u32) \<times> kitty_placement \<Rightarrow> bool) \<Rightarrow> crosswords \<Rightarrow> crosswords \<times> bool" where
  \<comment> \<open>without the placements the predicate holds of, and whether there were any\<close>
  "drop_placements P t =
     (let ps = ks_placements (gr_active (cw_graphics t)); qs = filter (\<lambda>p. \<not> P p) ps
      in (on_graphics t (\<lambda>g. g\<lparr>gr_active := (gr_active g)\<lparr>ks_placements := qs\<rparr>\<rparr>), length qs \<noteq> length ps))"

definition drop_images :: "(u32 \<Rightarrow> bool) \<Rightarrow> crosswords \<Rightarrow> crosswords" where
  "drop_images P t = on_graphics t (\<lambda>g. delete_kitty_images g (\<lambda>i _. P i))"

definition of_image :: "u32 \<Rightarrow> u32 \<Rightarrow> (u32 \<times> u32) \<times> kitty_placement \<Rightarrow> bool" where
  \<comment> \<open>the placements of an image, or the one with the id given\<close>
  "of_image i p = (\<lambda>(k, _). if p \<noteq> 0 then k = (i, p) else fst k = i)"

definition line_below :: "u32 \<Rightarrow> int" where
  \<comment> \<open>\<open>Line((n - 1) as i32)\<close> for a positive \<open>n\<close>\<close>
  "line_below n = sint (n - 1)"

definition delete_step :: "image_env \<Rightarrow> nat \<Rightarrow> delete_request \<Rightarrow> crosswords \<Rightarrow> (crosswords \<times> bool) option" where
  \<comment> \<open>the match of \<open>delete_graphics\<close>, on the action in lower case\<close>
  "delete_step V k q t =
     (let a = dq_action q; x = unat (dq_x q) - 1; y = line_below (dq_y q); z = dq_z_index q;
          abs_row = (\<lambda>t l. int (grid_history (cgrid t)) + l);
          cleanup = (\<lambda>t. if dq_delete_data q then cleanup_unused_kitty_images V k t else t);
          frees = (\<lambda>P t. if dq_delete_data q then drop_images P t else t) in
      if a = 0x61 then do {
        t \<leftarrow> delete_all_graphics t;
        let t = on_graphics t (\<lambda>g. g\<lparr>gr_active := (gr_active g)\<lparr>ks_placements := []\<rparr>\<rparr>);
        Some (if dq_delete_data q
              then on_graphics t (\<lambda>g. g\<lparr>gr_active := (gr_active g)\<lparr>ks_images := [], ks_numbers := []\<rparr>\<rparr>) else t, True)
      }
      else if a = 0x69 then
        (let (t, changed) = drop_placements (of_image (dq_image_id q) (dq_placement_id q)) t
         in Some (frees (\<lambda>i. i = dq_image_id q) t, changed))
      else if a = 0x63 then do {
        let p = cpos (cur t);
        t \<leftarrow> delete_graphic_at_position t p;
        let (t, changed) = drop_placements (\<lambda>(_, m). covers_column (col p) m \<and> covers_row (abs_row t (row p)) m) t;
        Some (cleanup t, changed)
      }
      else if a = 0x70 then do {
        (t, changed) \<leftarrow> (if dq_x q > 0 \<and> dq_y q > 0 then do {
            t \<leftarrow> delete_graphic_at_position t (Pos y x);
            Some (drop_placements (\<lambda>(_, m). covers_column x m \<and> covers_row (abs_row t y) m) t)
          } else Some (t, False));
        Some (cleanup t, changed)
      }
      else if a = 0x78 then do {
        (t, changed) \<leftarrow> (if dq_x q > 0 then do {
            t \<leftarrow> delete_graphics_in_column t x;
            Some (drop_placements (\<lambda>(_, m). covers_column x m) t)
          } else Some (t, False));
        Some (cleanup t, changed)
      }
      else if a = 0x79 then do {
        (t, changed) \<leftarrow> (if dq_y q > 0 then do {
            t \<leftarrow> delete_graphics_in_row t y;
            Some (drop_placements (\<lambda>(_, m). covers_row (abs_row t y) m) t)
          } else Some (t, False));
        Some (cleanup t, changed)
      }
      else if a = 0x7A then
        (let (t, changed) = drop_placements (\<lambda>(_, m). kp_z_index m = z) t in Some (cleanup t, changed))
      else if a = 0x6E then
        (case map_of (ks_numbers (gr_active (cw_graphics t)))
                (if dq_image_number q > 0 then dq_image_number q else dq_image_id q) of
           None \<Rightarrow> Some (t, False)
         | Some image_id \<Rightarrow>
             (let (t, changed) = drop_placements (of_image image_id (dq_placement_id q)) t
              in Some (frees (\<lambda>i. i = image_id) t, changed)))
      else if a = 0x71 then
        (let (t, changed) = (if dq_x q > 0 \<and> dq_y q > 0
               then drop_placements (\<lambda>(_, m). kp_z_index m = z \<and> covers_column x m \<and> covers_row (abs_row t y) m) t
               else (t, False))
         in Some (cleanup t, changed))
      else if a = 0x72 then
        (if dq_x q > 0 \<and> dq_y q \<ge> dq_x q then
           (let (t, changed) = drop_placements (\<lambda>(i, _). dq_x q \<le> fst i \<and> fst i \<le> dq_y q) t
            in Some (frees (\<lambda>i. dq_x q \<le> i \<and> i \<le> dq_y q) t, changed))
         else Some (t, False))
      else Some (t, False))"

definition delete_graphics :: "image_env \<Rightarrow> nat \<Rightarrow> delete_request \<Rightarrow> crosswords \<Rightarrow> crosswords option" where
  "delete_graphics V k q t = do {
     (t, changed) \<leftarrow> delete_step V k (q\<lparr>dq_action := lower_ascii (dq_action q)\<rparr>) t;
     Some (send_graphics_updates (if changed then on_graphics t (\<lambda>g. g\<lparr>gr_dirty := True\<rparr>) else t))
   }"

subsection \<open>The handler\<close>

definition kitty_response_effect :: "image_env \<Rightarrow> kitty_response \<Rightarrow> image_terminal \<Rightarrow> image_terminal option" where
  \<comment> \<open>what \<open>process_apc_buffer\<close> does with the parser's response\<close>
  "kitty_response_effect V r s =
     (if kr_incomplete r then Some s
      else do {
        s \<leftarrow> (case kr_graphic r of
            Some d \<Rightarrow> (case kr_placement r of
                Some q \<Rightarrow> kitty_transmit_and_display V d q s
              | None \<Rightarrow> Some (store_graphic V d s))
          | None \<Rightarrow> (case kr_placement r of
                Some q \<Rightarrow> map_option (\<lambda>t. s\<lparr>it_term := t\<rparr>) (place_graphic V q (it_term s))
              | None \<Rightarrow> Some s));
        s \<leftarrow> (case kr_delete r of
            Some q \<Rightarrow> map_option (\<lambda>t. s\<lparr>it_term := t\<rparr>) (delete_graphics V (it_reads s) q (it_term s))
          | None \<Rightarrow> Some s);
        Some (case kr_response r of Some m \<Rightarrow> s\<lparr>it_term := pty_response (it_term s) m\<rparr> | None \<Rightarrow> s)
      })"

definition kitty_command_effect :: "image_env \<Rightarrow> u8 list \<Rightarrow> u8 list \<Rightarrow> image_terminal \<Rightarrow> image_terminal option" where
  "kitty_command_effect V control payload s = do {
     (st, r) \<leftarrow> kitty_parse (ie_kitty V) (now V s) [bytes_of ''G'', control, payload] (it_chunks s);
     let s = s\<lparr>it_chunks := st\<rparr>;
     case r of Some r \<Rightarrow> kitty_response_effect V r s | None \<Rightarrow> Some s
   }"

definition tick :: "image_terminal \<Rightarrow> image_terminal" where
  \<comment> \<open>time passes between operations\<close>
  "tick s = s\<lparr>it_reads := Suc (it_reads s)\<rparr>"

definition terminal_handler :: "image_env \<Rightarrow> image_terminal handler" where
  "terminal_handler V = \<lparr>
     h_call = (\<lambda>c s. map_option (\<lambda>t. s\<lparr>it_term := t\<rparr>) (handle (ie_env V) (it_term s) c)),
     h_sixel_start = sixel_graphic_start,
     h_sixel_active = is_sixel_graphic_active,
     h_sixel_put = sixel_graphic_put V,
     h_sixel_reset = (\<lambda>s. Some (sixel_graphic_reset s)),
     h_sixel_finish = (\<lambda>s. sixel_graphic_finish V (tick s)),
     h_iterm2 = (\<lambda>ps s. iterm2_image V ps (tick s)),
     h_kitty = (\<lambda>control payload s. kitty_command_effect V control payload (tick s))\<rparr>"

end
