(* ===== verification/ImageKeep.thy ===== *)
theory ImageKeep
  imports Overlays PerfKeep HandlerKeep SixelProps KittyProps
begin

text \<open>
  The terminal with its images meets the contract of a handler: every method returns and keeps the
  invariant, whose index counts the ids of images that are left.
\<close>

subsection \<open>The invariant\<close>

definition image_env_ok :: "image_env \<Rightarrow> nat \<Rightarrow> nat \<Rightarrow> bool" where
  \<comment> \<open>a cell has a size, and the screen is smaller than 2 to the 32 pixels in each direction\<close>
  "image_env_ok V n w \<longleftrightarrow> env_ok (ie_env V) \<and> 0 < fst (ie_cell V) \<and> 0 < snd (ie_cell V) \<and>
     fst (ie_cell V) * w < 2 ^ 32 \<and> snd (ie_cell V) * n < 2 ^ 32"

definition chunks_ok :: "kitty_state \<Rightarrow> bool" where
  "chunks_ok st \<longleftrightarrow> (\<forall>(key, c) \<in> set (kt_incomplete st). kc_action c \<noteq> KQuery)"

definition image_inv :: "nat \<Rightarrow> nat \<Rightarrow> nat \<Rightarrow> image_terminal \<Rightarrow> bool" where
  "image_inv n w k s \<longleftrightarrow> term_inv n w (it_term s) \<and> unat (it_last_id s) + k < 2 ^ 64 \<and>
     (\<forall>p. it_sixel s = Some p \<longrightarrow> sixel_inv p) \<and> chunks_ok (it_chunks s)"

lemma image_inv_fewer: "image_inv n w (Suc k) s \<Longrightarrow> image_inv n w k s"
  by (simp add: image_inv_def)

lemma image_inv_term: "image_inv n w k s \<Longrightarrow> term_inv n w t \<Longrightarrow> image_inv n w k (s\<lparr>it_term := t\<rparr>)"
  by (simp add: image_inv_def)

lemma image_inv_tick [simp]: "image_inv n w k (tick s) = image_inv n w k s"
  by (simp add: image_inv_def tick_def)

lemma on_graphics_ok [simp]: "term_inv n w (on_graphics t f) = term_inv n w t"
  "cgrid (on_graphics t f) = cgrid t" "cw_mode (on_graphics t f) = cw_mode t"
  by (simp_all add: on_graphics_def)

lemma send_updates_ok [simp]: "term_inv n w (send_graphics_updates t) = term_inv n w t"
  by (auto simp: send_graphics_updates_def Let_def split: prod.split option.split)

lemma still_graphics [simp]: "still t (u\<lparr>cw_graphics := g\<rparr>) = still t u"
  by (simp add: still_def)

lemma extras_still [simp]: "still t (u\<lparr>cgrid := (cgrid u)\<lparr>g_extras := x\<rparr>\<rparr>) = still t u"
  by (simp add: still_def)

subsection \<open>Sizes\<close>

lemma resize_pixels_wp:
  assumes "cell < 2 ^ 32" "whole < 2 ^ 32"
  shows "wp (resize_pixels p cell whole) (\<lambda>_. True)"
proof -
  have "unat n * x < 2 ^ 64" if "x < 2 ^ 32" for n :: u32 and x
  proof -
    have "unat n < 2 ^ LENGTH(32)" by (rule unsigned_less)
    with that have "unat n * x < 2 ^ 32 * 2 ^ 32" by (intro mult_strict_mono) simp_all
    then show ?thesis by simp
  qed
  with assms show ?thesis by (cases p) (simp_all add: wp_simps)
qed

lemma display_dimensions_wp:
  assumes "fst cell < 2 ^ 32" "snd cell < 2 ^ 32" "fst whole < 2 ^ 32" "snd whole < 2 ^ 32"
  shows "wp (compute_display_dimensions F d cell whole) (\<lambda>_. True)"
  unfolding compute_display_dimensions_def Let_def
  by (auto simp: wp_simps split: option.split
      intro!: wp_mono [OF resize_pixels_wp [OF assms(1,3)]] wp_mono [OF resize_pixels_wp [OF assms(2,4)]])

lemma image_env_okD:
  assumes "image_env_ok V n w" "term_inv n w t"
  shows "env_ok (ie_env V)" "0 < fst (ie_cell V)" "0 < snd (ie_cell V)" "fst (ie_cell V) < 2 ^ 32" "snd (ie_cell V) < 2 ^ 32"
    "fst (ie_cell V) * grid_col_count t < 2 ^ 32" "snd (ie_cell V) * screen_line_count t < 2 ^ 32"
proof -
  have a: "fst (ie_cell V) \<le> fst (ie_cell V) * w" "snd (ie_cell V) \<le> snd (ie_cell V) * n"
    using term_inv_pos [OF assms(2)] by simp_all
  have b: "fst (ie_cell V) * w < 2 ^ 32" "snd (ie_cell V) * n < 2 ^ 32" using assms(1) by (simp_all add: image_env_ok_def)
  note le_less_trans [OF a(1) b(1)] le_less_trans [OF a(2) b(2)]
  then show "env_ok (ie_env V)" "0 < fst (ie_cell V)" "0 < snd (ie_cell V)" "fst (ie_cell V) < 2 ^ 32" "snd (ie_cell V) < 2 ^ 32"
    "fst (ie_cell V) * grid_col_count t < 2 ^ 32" "snd (ie_cell V) * screen_line_count t < 2 ^ 32"
    using assms(1) term_inv_dims(3,4) [OF assms(2)] by (auto simp: image_env_ok_def)
qed

lemma screen_size_wp:
  assumes "image_env_ok V n w" "term_inv n w t" and Q: "\<And>x y. Q (x, y)"
  shows "wp (umul (fst (ie_cell V)) (grid_col_count t)) (\<lambda>a. wp (umul (snd (ie_cell V)) (screen_line_count t))
    (\<lambda>b. wp (compute_display_dimensions (ie_float V) d (ie_cell V) (a, b)) Q))"
  using image_env_okD [OF assms(1,2)] display_dimensions_wp [of "ie_cell V"]
  by (auto simp: wp_simps intro!: wp_mono [OF display_dimensions_wp] Q)

subsection \<open>Images in cells\<close>

lemma extras_ok: "term_inv n w t \<Longrightarrow> extras_inv (g_extras (cgrid t))"
  by (rule grid_okD(7) [OF term_inv_gridD])

lemma attach_graphic_wp:
  assumes "term_inv n w t" "0 \<le> line" "line < int n" "left < w"
  shows "wp (attach_graphic tex line y t (left, x)) (\<lambda>u. term_inv n w u \<and> still t u)"
proof -
  have l: "has_line (cgrid t) line" by (rule screen_has_line [OF assms(1-3)])
  have set: "wp (set_cell (t\<lparr>cgrid := (cgrid t)\<lparr>g_extras := e\<rparr>\<rparr>) (Pos line left) f) (\<lambda>u. term_inv n w u \<and> still t u)"
    if "extras_inv e" for e f
  proof -
    have u: "term_inv n w (t\<lparr>cgrid := (cgrid t)\<lparr>g_extras := e\<rparr>\<rparr>)" by (rule extras_update_wp [OF assms(1) that])
    show ?thesis
      by (rule set_cell_wp [OF u]) (use assms(4) screen_has_line [OF u assms(2,3)] in \<open>auto simp: still_def\<close>)
  qed
  show ?thesis
    unfolding attach_graphic_def prod.case Let_def
    using assms(4) l extras_ok [OF assms(1)]
    by (auto simp: wp_simps extras_modify_inv intro!: cell_at_wp [OF assms(1)] extras_alloc_wp set split: option.split)
qed

lemma step_offsets_wp: "0 < step \<Longrightarrow> (\<And>xs. Q xs) \<Longrightarrow> wp (step_offsets limit step) Q"
  by (simp add: step_offsets_def wp_simps)

lemma attach_row_wp:
  assumes "term_inv n w t" "0 \<le> line" "line < int n" "0 < cell"
  shows "wp (attach_row tex line y leftmost cell t) (\<lambda>u. term_inv n w u \<and> still t u)"
proof -
  have l: "has_line (cgrid t) line" by (rule screen_has_line [OF assms(1-3)])
  note inv = term_invD(1,3) [OF assms(1)]
  have r: "storage_index (raw (cgrid t)) line = Some (row_at (raw (cgrid t)) line)"
    using storage_index_ok [of w "raw (cgrid t)" line] has_line_in_store [OF inv(1), of line] l inv by (auto simp: grid_wf_def)
  have len: "length (cells (row_at (raw (cgrid t)) line)) = w"
    using grid_line_length [OF inv(1) l] inv(2) by (simp add: grid_line_def)
  show ?thesis
    unfolding attach_row_def r bind.bind_lunit len wp_bind
  proof (rule step_offsets_wp [OF assms(4)], rule wp_foldM_inv)
    fix xs :: "nat list" and lx u
    assume "lx \<in> set (takeWhile (\<lambda>(left, _). left < w) (enumerate leftmost xs))" "term_inv n w u \<and> still t u"
    moreover from this obtain left x where "lx = (left, x)" "left < w" by (auto dest: set_takeWhileD)
    ultimately show "wp (attach_graphic tex line y u lx) (\<lambda>u. term_inv n w u \<and> still t u)"
      using attach_graphic_wp [OF _ assms(2,3), of w u left tex y x] by (auto elim!: wp_mono intro: still_trans)
  qed (use assms(1) in simp)
qed

lemma attach_rows_wp:
  assumes "term_inv n w t" "0 < fst cell" "0 < snd cell"
  shows "wp (attach_rows tex scrolling leftmost cell t) (term_inv n w)"
  unfolding attach_rows_def Let_def wp_bind
proof (rule step_offsets_wp [OF assms(3)], rule wp_foldM_inv [where I = "term_inv n w", OF assms(1)])
  fix ys :: "nat list" and ty u
  assume ty: "ty \<in> set (takeWhile (\<lambda>(top, _). scrolling \<or> top < screen_line_count t) (enumerate 0 ys))" and u: "term_inv n w u"
  obtain top y where e: "ty = (top, y)" by force
  define line where "line = (if scrolling then cur_row u else int top)"
  have "scrolling \<or> top < n" using ty e term_inv_dims(4) [OF assms(1)] by (auto dest: set_takeWhileD)
  then have line: "0 \<le> line" "line < int n" using term_inv_pos [OF u] by (auto simp: line_def)
  show "wp (case ty of (top, y) \<Rightarrow> attach_row tex (if scrolling then cur_row u else int top) y leftmost (fst cell) u \<bind>
      (\<lambda>t. damage_line t (if scrolling then cur_row u else int top) \<bind>
        (\<lambda>t. if scrolling \<and> y < unat (tx_height tex) - snd cell mod 2 ^ 16 then linefeed t else Some t))) (term_inv n w)"
    unfolding e prod.case line_def [symmetric] wp_bind
    by (rule wp_mono [OF attach_row_wp [OF u line assms(2)]])
      (auto simp: wp_simps line intro!: damage_wps(1) [where n = n and w = w] linefeed_wp [where n = n and w = w])
qed

lemma after_graphic_wp:
  assumes "term_inv n w t" "0 < fst (ie_cell V)"
  shows "wp (after_graphic V d scrolling m t) (term_inv n w)"
  using assms
  by (auto simp: after_graphic_def div_ceil_def wp_simps intro!: cursor_moves_wp [where n = n and w = w])

lemma insert_graphic_wp:
  assumes "image_env_ok V n w" "image_inv n w (Suc k) s"
  shows "wp (insert_graphic V s d palette m) (image_inv n w k)"
proof -
  have t: "term_inv n w (it_term s)" using assms(2) by (simp add: image_inv_def)
  note env = image_env_okD [OF assms(1) t]
  have id: "it_last_id s \<noteq> -1" "unat (it_last_id s + 1) + k < 2 ^ 64"
  proof -
    have less: "unat (it_last_id s) + Suc k < 2 ^ 64" using assms(2) by (simp add: image_inv_def)
    have m1: "unat (- 1 :: u64) = 2 ^ 64 - 1" by (simp add: unsigned_minus_1_eq_mask mask_eq_exp_minus_1)
    then show "it_last_id s \<noteq> -1" using less by auto
    have "unat (it_last_id s + 1) = unat (it_last_id s) + 1"
      using less by (simp add: unat_word_ariths(1))
    with less show "unat (it_last_id s + 1) + k < 2 ^ 64" by simp
  qed
  have shown: "wp (show_graphic V (s\<lparr>it_term := u\<rparr>) d dims m) (image_inv n w k)" if u: "term_inv n w u" for u dims
  proof -
    have rest: "image_inv n w k (s\<lparr>it_last_id := it_last_id s + 1, it_term := x\<rparr>)" if "term_inv n w x" for x
      using assms(2) id(2) that by (simp add: image_inv_def)
    show ?thesis
      unfolding show_graphic_def graphic_next_id_def Let_def
      using id(1) env(2,3) u
      by (auto simp: wp_simps intro!: rest wp_mono [OF attach_rows_wp] wp_mono [OF after_graphic_wp])
  qed
  have "image_inv n w k (s\<lparr>it_term := u\<rparr>)" if "term_inv n w u" for u
    using image_inv_term [OF image_inv_fewer [OF assms(2)] that] .
  then show ?thesis
    unfolding insert_graphic_def Let_def wp_bind
    using t by (intro screen_size_wp [OF assms(1)]) (auto simp: wp_simps shown split: option.split)
qed

subsection \<open>Sixel and iTerm2\<close>

lemma sixel_methods_wp:
  assumes "image_env_ok V n w" "image_inv n w k s"
  shows "params_rep ps gs g \<Longrightarrow> wp (sixel_graphic_start ps s) (image_inv n w k)"
    and "wp (sixel_graphic_put V b s) (\<lambda>(s, ok). image_inv n w k s)"
    and "image_inv n w k (sixel_graphic_reset s)"
proof -
  show "wp (sixel_graphic_start ps s) (image_inv n w k)" if rep: "params_rep ps gs g"
  proof -
    obtain p where "sixel_parser_new ps (gr_sixel_palette (cw_graphics (it_term s))) = Some p" "sixel_inv p"
      using sixel_parser_new_ok [OF rep] by blast
    with assms(2) show ?thesis by (simp add: sixel_graphic_start_def Let_def wp_simps image_inv_def)
  qed
  show "wp (sixel_graphic_put V b s) (\<lambda>(s, ok). image_inv n w k s)"
  proof (cases "it_sixel s")
    case None
    with assms(2) show ?thesis by (simp add: sixel_graphic_put_def sixel_graphic_reset_def wp_simps image_inv_def)
  next
    case (Some p)
    with assms(2) have "sixel_inv p" by (simp add: image_inv_def)
    from sixel_put_draws [OF this, of "ie_hls V" b] obtain q e where "sixel_put (ie_hls V) b p = Some (q, e)" "sixel_inv q"
      by (auto simp: draws_def)
    with Some assms(2) show ?thesis by (simp add: sixel_graphic_put_def wp_simps image_inv_def)
  qed
  show "image_inv n w k (sixel_graphic_reset s)"
    using assms(2) by (simp add: sixel_graphic_reset_def image_inv_def)
qed

lemma sixel_finish_total: "sixel_inv p \<Longrightarrow> \<exists>r. sixel_finish hls t p = Some r"
  using finish_command_draws [of p hls] by (fastforce simp: draws_def sixel_finish_def split: option.splits)

lemma sixel_graphic_finish_wp:
  assumes "image_env_ok V n w" "image_inv n w (Suc k) s"
  shows "wp (sixel_graphic_finish V s) (image_inv n w k)"
proof (cases "it_sixel s")
  case None
  with image_inv_fewer [OF assms(2)] show ?thesis by (simp add: sixel_graphic_finish_def wp_simps)
next
  case (Some p)
  with assms(2) obtain r where r: "sixel_finish (ie_hls V) (now V (s\<lparr>it_sixel := None\<rparr>)) p = Some r"
    using sixel_finish_total by (fastforce simp: image_inv_def)
  have s: "image_inv n w (Suc k) (s\<lparr>it_sixel := None\<rparr>)" using assms(2) by (simp add: image_inv_def)
  show ?thesis
    using insert_graphic_wp [OF assms(1) s] image_inv_fewer [OF s] Some r
    by (auto simp: sixel_graphic_finish_def wp_simps split: sum.split)
qed

lemma iterm2_image_wp:
  assumes "image_env_ok V n w" "image_inv n w (Suc k) s"
  shows "wp (iterm2_image V ps s) (image_inv n w k)"
  using insert_graphic_wp [OF assms] image_inv_fewer [OF assms(2)]
  by (auto simp: iterm2_image_def wp_simps split: option.split)

subsection \<open>Overlays\<close>

lemma linefeeds_wp: "term_inv n w t \<Longrightarrow> wp (linefeeds m t) (term_inv n w)"
proof (induction m arbitrary: t)
  case (Suc m)
  then show ?case by (auto simp: wp_simps intro!: linefeed_wp [where n = n and w = w])
qed (simp add: wp_simps)

lemma place_virtual_ok [simp]: "term_inv n w (place_virtual_graphic q t) = term_inv n w t"
  by (simp add: place_virtual_graphic_def)

lemma show_overlay_wp:
  assumes "term_inv n w t"
  shows "wp (show_overlay q i d dims area t) (term_inv n w)"
proof -
  have "term_inv n w (add_overlay q i d dims area t)"
    using assms by (simp add: add_overlay_def Let_def case_prod_unfold)
  then show ?thesis
    by (auto simp: show_overlay_def Let_def wp_simps
        intro!: wp_mono [OF linefeeds_wp] cursor_moves_wp [where n = n and w = w])
qed

lemma place_kitty_overlay_wp:
  assumes "image_env_ok V n w" "term_inv n w t"
  shows "wp (place_kitty_overlay V i q t) (term_inv n w)"
proof -
  note env = image_env_okD [OF assms]
  have cells: "wp (cells_or m p c) (\<lambda>_. True)" if "0 < c" for m p c
    using that by (simp add: cells_or_def div_ceil_def wp_simps)
  show ?thesis
  proof (cases "get_kitty_image (cw_graphics t) i")
    case (Some stored)
    have "fst (ie_cell V) \<noteq> 0" "snd (ie_cell V) \<noteq> 0" using env by simp_all
    then show ?thesis
      unfolding place_kitty_overlay_def Some option.case Let_def wp_if wp_bind
      using assms(2) env
      by (auto simp: wp_simps intro!: wp_mono [OF display_dimensions_wp] wp_mono [OF cells] show_overlay_wp)
  qed (use assms(2) in \<open>simp add: place_kitty_overlay_def wp_simps\<close>)
qed

lemma place_graphic_wp:
  assumes "image_env_ok V n w" "term_inv n w t"
  shows "wp (place_graphic V q t) (term_inv n w)"
  using place_kitty_overlay_wp [OF assms] assms(2) by (simp add: place_graphic_def wp_simps)

lemma store_graphic_ok [simp]: "image_inv n w k (store_graphic V d s) = image_inv n w k s"
  by (simp add: store_graphic_def image_inv_def)

lemma transmit_and_display_wp:
  assumes "image_env_ok V n w" "image_inv n w k s"
  shows "wp (kitty_transmit_and_display V d q s) (image_inv n w k)"
proof -
  have t: "term_inv n w (it_term (store_graphic V d s))"
    using assms(2) by (simp add: store_graphic_def image_inv_def)
  show ?thesis
    using image_inv_term [OF assms(2)] t
    by (auto simp: kitty_transmit_and_display_def Let_def wp_simps intro!: wp_mono [OF place_kitty_overlay_wp [OF assms(1) t]])
qed

subsection \<open>Deletion\<close>

lemma clear_cell_graphic_ok: "extras_inv x \<Longrightarrow> extras_inv (fst (clear_cell_graphic x c))"
  using extras_free_ok by (auto simp: clear_cell_graphic_def Let_def extras_modify_inv split: option.split)

lemma clear_graphic_at_wp:
  assumes "term_inv n w t" "0 \<le> row p" "row p < int n" "col p < w"
  shows "wp (clear_graphic_at t p) (\<lambda>(u, had). term_inv n w u \<and> still t u)"
proof -
  have set: "wp (set_cell (t\<lparr>cgrid := (cgrid t)\<lparr>g_extras := x\<rparr>\<rparr>) p f) (\<lambda>u. term_inv n w u \<and> still t u)"
    if "extras_inv x" for x f
  proof -
    have u: "term_inv n w (t\<lparr>cgrid := (cgrid t)\<lparr>g_extras := x\<rparr>\<rparr>)" by (rule extras_update_wp [OF assms(1) that])
    show ?thesis
      by (rule set_cell_wp [OF u]) (use assms(4) screen_has_line [OF u assms(2,3)] in \<open>auto simp: still_def\<close>)
  qed
  show ?thesis
    unfolding clear_graphic_at_def Let_def wp_bind
    using extras_ok [OF assms(1)] clear_cell_graphic_ok screen_has_line [OF assms(1-3)] assms(4)
      set [OF extras_ok [OF assms(1)], simplified]
    by (intro cell_at_wp [OF assms(1)]) (auto simp: wp_simps case_prod_unfold intro!: set)
qed

lemma clear_row_graphics_wp:
  assumes "term_inv n w t" "0 \<le> line" "line < int n"
  shows "wp (clear_row_graphics t line) (term_inv n w)"
  unfolding clear_row_graphics_def wp_bind
proof (rule wp_mono [OF wp_foldM_inv [where I = "term_inv n w", OF assms(1)]])
  fix k u
  assume "k \<in> set [0..<grid_col_count t]" "term_inv n w u"
  then have "wp (clear_graphic_at u (Pos line k)) (\<lambda>(x, had). term_inv n w x \<and> still u x)"
    using assms term_inv_dims(3) [OF assms(1)] by (intro clear_graphic_at_wp) auto
  then show "wp (map_option fst (clear_graphic_at u (Pos line k))) (term_inv n w)"
    by (auto simp: wp_simps elim!: wp_mono)
next
  fix u
  assume "term_inv n w u"
  then show "wp (damage_line u line) (term_inv n w)"
    using assms(2,3) by (auto intro: damage_wps(1) [where n = n and w = w])
qed

lemma clear_damage_at_wp:
  assumes "term_inv n w t" "0 \<le> row p" "row p < int n" "col p < w"
  shows "wp (clear_damage_at t p) (term_inv n w)"
  unfolding clear_damage_at_def wp_bind
  by (rule wp_mono [OF clear_graphic_at_wp [OF assms]])
    (use assms(2,3) in \<open>auto simp: wp_simps intro!: damage_wps(1) [where n = n and w = w]\<close>)

lemma delete_cells_wp:
  assumes "term_inv n w t"
  shows "wp (delete_all_graphics t) (term_inv n w)" "wp (delete_graphic_at_position t p) (term_inv n w)"
    "wp (delete_graphics_in_column t k) (term_inv n w)" "wp (delete_graphics_in_row t line) (term_inv n w)"
proof -
  note size = term_inv_dims(3,4) [OF assms]
  show "wp (delete_all_graphics t) (term_inv n w)"
    unfolding delete_all_graphics_def size
    by (rule wp_foldM_inv [where I = "term_inv n w", OF assms]) (auto intro: clear_row_graphics_wp)
  show "wp (delete_graphic_at_position t p) (term_inv n w)"
    unfolding delete_graphic_at_position_def size using assms by (auto simp: wp_simps intro: clear_damage_at_wp)
  show "wp (delete_graphics_in_column t k) (term_inv n w)"
    unfolding delete_graphics_in_column_def size wp_if
    by (auto simp: wp_simps assms intro!: wp_foldM_inv [where I = "term_inv n w", OF assms] clear_damage_at_wp)
  show "wp (delete_graphics_in_row t line) (term_inv n w)"
    unfolding delete_graphics_in_row_def size using assms by (auto simp: wp_simps intro: clear_row_graphics_wp)
qed

lemma drop_ok [simp]: "term_inv n w (fst (drop_placements P t)) = term_inv n w t"
  "term_inv n w (drop_images R t) = term_inv n w t" "term_inv n w (cleanup_unused_kitty_images V k t) = term_inv n w t"
  by (simp_all add: drop_placements_def drop_images_def cleanup_unused_kitty_images_def Let_def)

lemma delete_step_wp:
  assumes "term_inv n w t"
  shows "wp (delete_step V k q t) (\<lambda>(u, changed). term_inv n w u)"
proof -
  note cells = delete_cells_wp [OF assms]
  show ?thesis
    unfolding delete_step_def Let_def
    by (intro wp_ifI)
      (use assms in \<open>auto simp: wp_simps case_prod_unfold intro!: wp_mono [OF cells(1)] wp_mono [OF cells(2)]
        wp_mono [OF cells(3)] wp_mono [OF cells(4)] split: option.split\<close>)
qed

lemma delete_graphics_wp:
  assumes "term_inv n w t"
  shows "wp (delete_graphics V k q t) (term_inv n w)"
  unfolding delete_graphics_def wp_bind
  by (rule wp_mono [OF delete_step_wp [OF assms]]) (auto simp: wp_simps)

subsection \<open>Commands\<close>

lemma set_update_subset: "set (AList.update k v xs) \<subseteq> insert (k, v) (set xs)"
  by (induction xs) auto

lemma chunks_ok_update:
  assumes "chunks_ok st" "kc_action c \<noteq> KQuery"
  shows "chunks_ok (st\<lparr>kt_incomplete := AList.update key c (kt_incomplete st)\<rparr>)"
  using assms set_update_subset [of key c "kt_incomplete st"] by (auto simp: chunks_ok_def)

lemma chunks_ok_fields [simp]:
  "chunks_ok (st\<lparr>kt_current_key := i\<rparr>) = chunks_ok st" "chunks_ok (st\<lparr>kt_next_auto := i\<rparr>) = chunks_ok st"
  by (simp_all add: chunks_ok_def)

lemma chunks_ok_subset:
  "chunks_ok st \<Longrightarrow> set xs \<subseteq> set (kt_incomplete st) \<Longrightarrow> chunks_ok (st\<lparr>kt_incomplete := xs\<rparr>)"
  by (auto simp: chunks_ok_def)

lemma evict_chunks_ok: "chunks_ok st \<Longrightarrow> chunks_ok (evict_stale_chunks t st)"
  by (auto simp: evict_stale_chunks_def Let_def intro!: chunks_ok_subset)

lemma chunks_ok_old: "chunks_ok st \<Longrightarrow> map_of (kt_incomplete st) key = Some c \<Longrightarrow> kc_action c \<noteq> KQuery"
  by (auto simp: chunks_ok_def dest: map_of_SomeD)

lemma chunks_ok_delete: "chunks_ok st \<Longrightarrow> chunks_ok (st\<lparr>kt_incomplete := AList.delete key (kt_incomplete st)\<rparr>)"
  by (auto simp: AList.delete_eq intro!: chunks_ok_subset)

lemma store_chunk_ok:
  assumes "chunks_ok st" "kc_action c \<noteq> KQuery"
  shows "chunks_ok (fst (store_chunk t key c st))"
proof (cases "map_of (kt_incomplete st) key")
  case None
  with assms show ?thesis by (auto simp: store_chunk_def chunks_ok_def)
next
  case (Some old)
  with chunks_ok_old [OF assms(1) Some] assms chunks_ok_delete [OF assms(1)]
    chunks_ok_update [OF assms(1), of "old\<lparr>kc_payload := kc_payload old @ kc_payload c, kc_last_touched := t\<rparr>" key]
  show ?thesis by (auto simp: store_chunk_def Let_def chunks_ok_def)
qed

lemma final_command_ok:
  assumes "chunks_ok st" "kc_action c \<noteq> KQuery" "final_command key c st = (st', r)"
  shows "chunks_ok st'" "r = Some d \<Longrightarrow> kc_action d \<noteq> KQuery"
  using assms chunks_ok_old [OF assms(1), of key] chunks_ok_delete [OF assms(1), of key]
  by (auto simp: final_command_def Let_def chunks_ok_def split: option.splits if_splits)

lemma kitty_parse_wp:
  assumes "chunks_ok st"
  shows "wp (kitty_parse K t ps st) (\<lambda>(st, r). chunks_ok st)"
proof (cases "kitty_command_of K t ps")
  case None
  with assms show ?thesis by (simp add: kitty_parse_def wp_simps)
next
  case (Some c)
  show ?thesis
  proof (cases "kc_action c = KQuery")
    case True
    with Some assms show ?thesis by (simp add: kitty_parse_def wp_simps Let_def)
  next
    case False
    obtain st1 d key where k: "image_key st c = (st1, d, key)" by (metis prod_cases3)
    then have d: "kc_action d \<noteq> KQuery" "chunks_ok st1"
      using assms False
      by (auto simp: image_key_def kitty_allocate_id_def Let_def chunks_ok_def split: if_splits)
    define st2 where "st2 = evict_stale_chunks t st1"
    have st2: "chunks_ok st2" using evict_chunks_ok [OF d(2)] by (simp add: st2_def)
    obtain st3 r where f: "final_command key d st2 = (st3, r)" by force
    have run: "wp (case r of None \<Rightarrow> Some (st3, None) | Some c \<Rightarrow> map_option (\<lambda>r. (st3, Some r)) (execute_command K t c))
        (\<lambda>(st, r). chunks_ok st)"
      using final_command_ok [OF st2 d(1) f] execute_total [of _ K t] by (cases r) (auto simp: wp_simps wp_iff)
    have store: "chunks_ok (fst (store_chunk t key d st2))" by (rule store_chunk_ok [OF st2 d(1)])
    show ?thesis
      using run store assms False
      by (cases "store_chunk t key d st2") (auto simp: kitty_parse_def Some k f Let_def wp_simps st2_def [symmetric] cong: option.case_cong)
  qed
qed

lemma kitty_response_effect_wp:
  assumes "image_env_ok V n w" "image_inv n w k s"
  shows "wp (kitty_response_effect V r s) (image_inv n w k)"
proof -
  have t: "term_inv n w (it_term s)" using assms(2) by (simp add: image_inv_def)
  have upd: "image_inv n w k (x\<lparr>it_term := u\<rparr>)" if "image_inv n w k x" "term_inv n w u" for x u
    using image_inv_term [OF that] .
  have shown: "wp (case kr_graphic r of
        Some d \<Rightarrow> (case kr_placement r of Some q \<Rightarrow> kitty_transmit_and_display V d q s | None \<Rightarrow> Some (store_graphic V d s))
      | None \<Rightarrow> (case kr_placement r of
            Some q \<Rightarrow> map_option (\<lambda>t. s\<lparr>it_term := t\<rparr>) (place_graphic V q (it_term s)) | None \<Rightarrow> Some s)) (image_inv n w k)"
    using assms transmit_and_display_wp [OF assms]
    by (auto simp: wp_simps intro!: wp_mono [OF place_graphic_wp [OF assms(1) t]] upd split: option.split)
  have deleted: "wp (case kr_delete r of
        Some q \<Rightarrow> map_option (\<lambda>t. x\<lparr>it_term := t\<rparr>) (delete_graphics V (it_reads x) q (it_term x)) | None \<Rightarrow> Some x)
      (image_inv n w k)" if x: "image_inv n w k x" for x
  proof -
    have "term_inv n w (it_term x)" using x by (simp add: image_inv_def)
    then show ?thesis
      using x by (auto simp: wp_simps intro!: upd wp_mono [OF delete_graphics_wp] split: option.split)
  qed
  have answered: "image_inv n w k (case kr_response r of Some m \<Rightarrow> x\<lparr>it_term := pty_response (it_term x) m\<rparr> | None \<Rightarrow> x)"
    if "image_inv n w k x" for x
    using that by (auto simp: pty_response_def pty_write_def image_inv_def split: option.split)
  show ?thesis
  proof (cases "kr_incomplete r")
    case False
    then show ?thesis
      unfolding kitty_response_effect_def if_not_P [OF False] wp_bind
      by (intro wp_mono [OF shown] wp_mono [OF deleted]) (simp_all add: wp_simps answered)
  qed (use assms(2) in \<open>simp add: kitty_response_effect_def wp_simps\<close>)
qed

lemma kitty_command_effect_wp:
  assumes "image_env_ok V n w" "image_inv n w k s"
  shows "wp (kitty_command_effect V control payload s) (image_inv n w k)"
proof -
  have "chunks_ok (it_chunks s)" using assms(2) by (simp add: image_inv_def)
  from kitty_parse_wp [OF this] obtain st r where
    p: "kitty_parse (ie_kitty V) (now V s) [bytes_of ''G'', control, payload] (it_chunks s) = Some (st, r)" "chunks_ok st"
    by (fastforce simp: wp_iff)
  have "image_inv n w k (s\<lparr>it_chunks := st\<rparr>)" using assms(2) p(2) by (simp add: image_inv_def)
  with p(1) kitty_response_effect_wp [OF assms(1)] show ?thesis
    by (auto simp: kitty_command_effect_def wp_simps split: option.split)
qed

subsection \<open>The contract\<close>

text \<open>The terminal, for an environment and a screen of any size: where they do not fit together, the
  invariant holds of no state.\<close>

definition terminal_inv :: "image_env \<Rightarrow> nat \<Rightarrow> nat \<Rightarrow> nat \<Rightarrow> image_terminal \<Rightarrow> bool" where
  "terminal_inv V n w k s \<longleftrightarrow> image_env_ok V n w \<and> image_inv n w k s"

lemma terminal_call_wp:
  assumes "terminal_inv V n w k s" "call_ok c"
  shows "wp (map_option (\<lambda>t. s\<lparr>it_term := t\<rparr>) (handle (ie_env V) (it_term s) c)) (terminal_inv V n w k)"
proof -
  have s: "image_env_ok V n w" "image_inv n w k s" "env_ok (ie_env V)" "term_inv n w (it_term s)"
    using assms(1) by (auto simp: terminal_inv_def image_inv_def image_env_ok_def)
  show ?thesis
    using image_inv_term [OF s(2)] s(1)
    by (auto simp: wp_simps terminal_inv_def intro!: wp_mono [OF handle_ok [OF s(3,4) assms(2)]])
qed

interpretation terminal: handler_contract "terminal_handler V" "terminal_inv V n w" for V n w
proof
  fix k h
  assume "terminal_inv V n w (Suc k) h"
  then show "terminal_inv V n w k h" by (simp add: terminal_inv_def image_inv_fewer)
next
  fix k h c
  assume "terminal_inv V n w k h" "call_ok c"
  from terminal_call_wp [OF this] show "wp (h_call (terminal_handler V) c h) (terminal_inv V n w k)"
    by (simp add: terminal_handler_def)
next
  fix k h ps gs g
  assume "terminal_inv V n w k h" "params_rep ps gs g"
  then show "wp (h_sixel_start (terminal_handler V) ps h) (terminal_inv V n w k)"
    using sixel_methods_wp(1) [of V n w k h ps gs g] by (auto simp: terminal_handler_def terminal_inv_def elim!: wp_mono)
next
  fix k h b
  assume "terminal_inv V n w k h"
  then have i: "image_env_ok V n w" "image_inv n w k h" by (simp_all add: terminal_inv_def)
  show "wp (h_sixel_put (terminal_handler V) b h) (\<lambda>(h, ok). terminal_inv V n w k h)"
    using sixel_methods_wp(2) [OF i, of b] i(1) by (auto simp: terminal_handler_def terminal_inv_def elim!: wp_mono)
  show "wp (h_sixel_reset (terminal_handler V) h) (terminal_inv V n w k)"
    using sixel_methods_wp(3) [OF i] i(1) by (simp add: terminal_handler_def terminal_inv_def wp_simps)
next
  fix k h
  assume "terminal_inv V n w (Suc k) h"
  then show "wp (h_sixel_finish (terminal_handler V) h) (terminal_inv V n w k)"
    using sixel_graphic_finish_wp [of V n w k "tick h"] by (auto simp: terminal_handler_def terminal_inv_def elim!: wp_mono)
next
  fix k h qs
  assume "terminal_inv V n w (Suc k) h"
  then show "wp (h_iterm2 (terminal_handler V) qs h) (terminal_inv V n w k)"
    using iterm2_image_wp [of V n w k "tick h" qs] by (auto simp: terminal_handler_def terminal_inv_def elim!: wp_mono)
next
  fix k h control payload
  assume "terminal_inv V n w (Suc k) h"
  then show "wp (h_kitty (terminal_handler V) control payload h) (terminal_inv V n w k)"
    using kitty_command_effect_wp [of V n w k "tick h" control payload] image_inv_fewer
    by (auto simp: terminal_handler_def terminal_inv_def elim!: wp_mono)
qed

end
