(* ===== verification/ImageProps.thy ===== *)
theory ImageProps
  imports ImageKeep ProcProps TermProps
begin

text \<open>
  The terminal with its images, end to end from bytes, and what the commands of the Kitty protocol do to
  placements.
\<close>

subsection \<open>From bytes to the terminal\<close>

lemma feed_wf:
  assumes "text_lib_spec lib"
  shows "parser_inv p \<Longrightarrow> feed lib p cs = Some (q, es) \<Longrightarrow> list_all event_wf es \<and> parser_inv q"
proof (induction cs arbitrary: p es)
  case (Cons c cs)
  obtain r fs where r: "advance lib p c = Some (r, fs)" "list_all event_wf fs" "parser_inv r"
    using text_lib_spec.wp_advance [OF assms Cons.prems(1), of c] by (auto simp: wp_iff)
  with Cons.prems(2) obtain gs where "feed lib r cs = Some (q, gs)" "es = fs @ gs" by (auto simp: after_eq_Some)
  with Cons.IH [OF r(3)] r(2) show ?case by simp
qed simp

lemma feed_performed:
  assumes "perf_lib_ok E" "perf_env_ok E" "handler_contract H good" "processor_ok P" "good (length es + k) h"
    and "feed (pe_lib E) (bp_parser (pr_parser P)) cs = Some (p, es)" "list_all event_safe es"
  shows "wp (perform_all E H (s, h) es) (\<lambda>(s', h'). good k h')" "parser_inv p"
proof -
  have "parser_inv (bp_parser (pr_parser P))" using assms(4) by (simp add: processor_ok_def batched_ok_def)
  from feed_wf [OF perf_libD(1) [OF assms(1)] this assms(6)] have es: "list_all event_wf es" "parser_inv p" by simp_all
  show "wp (perform_all E H (s, h) es) (\<lambda>(s', h'). good k h')" "parser_inv p"
    using handler_contract.performing_all_keeps [OF assms(3,2,5) es(1) assms(7)] es(2) by simp_all
qed

definition image_terminal_new :: "crosswords \<Rightarrow> image_terminal" where
  "image_terminal_new t = \<lparr>it_term = t, it_last_id = 0, it_sixel = None, it_chunks = kitty_state_default, it_reads = 0\<rparr>"

lemma image_terminal_new_inv: "term_inv n w t \<Longrightarrow> k < 2 ^ 64 \<Longrightarrow> image_inv n w k (image_terminal_new t)"
  by (simp add: image_inv_def image_terminal_new_def chunks_ok_def kitty_state_default_def)

definition plain_image_env :: image_env where
  \<comment> \<open>no images are decoded; a cell has 9 by 18 pixels\<close>
  "plain_image_env = \<lparr>ie_env = plain_env, ie_kitty = plain_kitty_env, ie_lib = std_text_lib,
     ie_float = \<lparr>auto_scale = (\<lambda>a b c. a * b div c), fit_scale = (\<lambda>d _. d)\<rparr>,
     ie_hls = (\<lambda>_ _ _. \<lparr>rgb_r = 0, rgb_g = 0, rgb_b = 0\<rparr>), load_image = (\<lambda>_. None), ie_cell = (9, 18),
     instants = id, texture_alive = (\<lambda>_ _. True)\<rparr>"

lemma plain_image_env_ok: "n \<le> 1000 \<Longrightarrow> w \<le> 1000 \<Longrightarrow> image_env_ok plain_image_env n w"
  by (simp add: image_env_ok_def plain_image_env_def plain_env_ok)

subsection \<open>Properties\<close>

text \<open>C1. From bytes to the screen: the parser, the dispatcher and the terminal with its Sixel, iTerm2 and Kitty
  images handle every sequence of non-empty chunks to its end and keep the terminal's invariant, provided that the
  chunks hold no OSC 7 without an argument and no colour of an OSC longer than 47 bytes (the two panics of the
  dispatcher), that no synchronized update is pending or begins in them, and that the 64-bit image ids
  last for as many images as there are events.\<close>

theorem terminal_total:
  assumes "perf_lib_ok E" "perf_env_ok E" "image_env_ok V n w" "image_inv n w (length es + k) s"
    and "processor_ok P" "\<not> sync_pending (pr_state P)" "[] \<notin> set cs"
    and "feed (pe_lib E) (bp_parser (pr_parser P)) cs = Some (p, es)"
    and "\<forall>e \<in> set es. \<not> begins_update e \<and> event_safe e"
  shows "\<exists>P' s'. processor_feed E (terminal_handler V) (P, s) cs = Some (P', s') \<and> processor_ok P' \<and> image_inv n w k s'"
proof -
  have "terminal_inv V n w (length es + k) s" using assms(3,4) by (simp add: terminal_inv_def)
  note fp = feed_performed [OF assms(1,2) terminal.handler_contract_axioms assms(5) this assms(8)]
  obtain st s' where "perform_all E (terminal_handler V) (pr_state P, s) es = Some (st, s')" "terminal_inv V n w k s'" "parser_inv p"
    using fp(1) [of "pr_state P"] fp(2) assms(9) by (auto simp: wp_iff list_all_iff)
  with plain_feed [OF assms(1,5-8), of "terminal_handler V" s] assms(9) with_parser_ok [OF assms(5)] show ?thesis
    by (auto simp: terminal_inv_def)
qed

theorem terminal_total_witness:
  "\<exists>P' s'. processor_feed plain_perf_env (terminal_handler plain_image_env)
      (processor_new, image_terminal_new (fresh 24 80)) [[0xC3], [0xA9, 0x41, 0xE2, 0x82, 0xAC]] = Some (P', s') \<and>
    processor_ok P' \<and> image_inv 24 80 0 s'"
proof -
  have "image_inv 24 80 (length [Print 0xE9, Print 0x20AC] + 0) (image_terminal_new (fresh 24 80))"
    by (rule image_terminal_new_inv [OF fresh_facts(2)]) simp_all
  from terminal_total [OF plain_perf_env_ok plain_image_env_ok this updating_ok(2), of "[[0xC3], [0xA9, 0x41, 0xE2, 0x82, 0xAC]]" split_q]
  show ?thesis
    using split_run
    by (simp add: processor_new_def batched_new_def perf_state_new_def plain_perf_env_def begins_update_def)
qed

end
