(* ===== verification/DeleteProps.thy ===== *)
theory DeleteProps
  imports ImageProps
begin

text \<open>
  Deleting images of the Kitty protocol: which placements each form of the command removes, as sets of
  cells.
\<close>

subsection \<open>What deletion in cells leaves alone\<close>

definition same_view :: "crosswords \<Rightarrow> crosswords \<Rightarrow> bool" where
  \<comment> \<open>the images, the cursor's position and the length of the history are the same\<close>
  "same_view t u \<longleftrightarrow> cw_graphics u = cw_graphics t \<and> grid_history (cgrid u) = grid_history (cgrid t) \<and>
     cpos (cur u) = cpos (cur t)"

lemma same_view_refl [simp]: "same_view t t" by (simp add: same_view_def)

lemma same_view_trans: "same_view t u \<Longrightarrow> same_view u v \<Longrightarrow> same_view t v" by (simp add: same_view_def)

lemma same_view_extras [simp]: "same_view t (u\<lparr>cgrid := (cgrid u)\<lparr>g_extras := x\<rparr>\<rparr>) = same_view t u"
  "same_view (t\<lparr>cgrid := (cgrid t)\<lparr>g_extras := x\<rparr>\<rparr>) u = same_view t u"
  by (simp_all add: same_view_def grid_history_def grid_dims_def)

lemma set_cell_view: "wlp (set_cell t p f) (same_view t)"
  by (auto simp: wlp_iff set_cell_def on_grid_def grid_modify_cell_def grid_modify_row_def on_raw_def storage_modify_def
      bind_eq_Some_conv same_view_def grid_history_def grid_dims_def)

lemma damage_line_view: "wlp (damage_line t l) (same_view t)"
  by (auto simp: wlp_iff damage_line_def same_view_def)

lemma wlp_foldM_view:
  assumes "\<And>x u. wlp (f u x) (same_view u)"
  shows "wlp (foldM f t xs) (same_view t)"
proof -
  have "foldM f t xs = Some u \<Longrightarrow> same_view t u" for u
  proof (induction xs arbitrary: t)
    case (Cons x xs)
    then obtain v where v: "f t x = Some v" "foldM f v xs = Some u" by (auto split: option.splits)
    with Cons.IH [of v] assms [of t x] show ?case by (auto simp: wlp_iff intro: same_view_trans)
  qed simp
  then show ?thesis by (simp add: wlp_iff)
qed

lemma clear_graphic_view: "wlp (clear_graphic_at t p) (\<lambda>(u, had). same_view t u)"
  using set_cell_view
  by (fastforce simp: clear_graphic_at_def wlp_iff bind_eq_Some_conv Let_def case_prod_unfold)

lemma clear_row_view: "wlp (clear_row_graphics t l) (same_view t)"
proof -
  have "wlp (map_option fst (clear_graphic_at u p)) (same_view u)" for u p
    using clear_graphic_view [of u p] by (auto simp: wlp_simps case_prod_unfold)
  then have "wlp (foldM (\<lambda>t k. map_option fst (clear_graphic_at t (Pos l k))) t [0..<grid_col_count t]) (same_view t)"
    by (intro wlp_foldM_view)
  then show ?thesis
    unfolding clear_row_graphics_def wlp_bind
    by (rule wlp_mono) (rule wlp_mono [OF damage_line_view], rule same_view_trans)
qed

lemma clear_damage_view: "wlp (clear_damage_at t p) (same_view t)"
  using clear_graphic_view [of t p] damage_line_view
  by (fastforce simp: clear_damage_at_def wlp_iff bind_eq_Some_conv intro: same_view_trans split: if_splits)

lemma delete_cells_view:
  "wlp (delete_all_graphics t) (same_view t)" "wlp (delete_graphic_at_position t p) (same_view t)"
  "wlp (delete_graphics_in_column t k) (same_view t)" "wlp (delete_graphics_in_row t l) (same_view t)"
  by (auto simp: delete_all_graphics_def delete_graphic_at_position_def delete_graphics_in_column_def
      delete_graphics_in_row_def wlp_simps intro!: wlp_foldM_view clear_row_view clear_damage_view)

subsection \<open>The request's meaning\<close>

definition placements :: "crosswords \<Rightarrow> ((u32 \<times> u32) \<times> kitty_placement) list" where
  "placements t = ks_placements (gr_active (cw_graphics t))"

definition occupied :: "kitty_placement \<Rightarrow> (int \<times> nat) set" where
  \<comment> \<open>the cells of a placement, by the line counted from the top of the history\<close>
  "occupied p = {kp_dest_row p ..< kp_dest_row p + int (unat (kp_rows p))} \<times>
     {kp_dest_col p ..< kp_dest_col p + unat (kp_columns p)}"

definition screen_cell :: "crosswords \<Rightarrow> int \<Rightarrow> nat \<Rightarrow> int \<times> nat" where
  "screen_cell t l k = (int (grid_history (cgrid t)) + l, k)"

definition request_cell :: "crosswords \<Rightarrow> delete_request \<Rightarrow> int \<times> nat" where
  \<comment> \<open>the request counts from one\<close>
  "request_cell t q = screen_cell t (sint (dq_y q - 1)) (unat (dq_x q) - 1)"

definition names_placement :: "delete_request \<Rightarrow> u32 \<Rightarrow> u32 \<times> u32 \<Rightarrow> bool" where
  "names_placement q i k \<longleftrightarrow> fst k = i \<and> (dq_placement_id q = 0 \<or> snd k = dq_placement_id q)"

definition numbered_image :: "crosswords \<Rightarrow> delete_request \<Rightarrow> u32 option" where
  "numbered_image t q = map_of (ks_numbers (gr_active (cw_graphics t)))
     (if dq_image_number q > 0 then dq_image_number q else dq_image_id q)"

text \<open>The placements a request names, by its action in lower case.\<close>

inductive doomed :: "crosswords \<Rightarrow> delete_request \<Rightarrow> u8 \<Rightarrow> u32 \<times> u32 \<Rightarrow> kitty_placement \<Rightarrow> bool" for t q where
  everything: "doomed t q 0x61 k p"
| by_id: "names_placement q (dq_image_id q) k \<Longrightarrow> doomed t q 0x69 k p"
| by_number: "numbered_image t q = Some i \<Longrightarrow> names_placement q i k \<Longrightarrow> doomed t q 0x6E k p"
| by_cursor: "screen_cell t (cur_row t) (cur_col t) \<in> occupied p \<Longrightarrow> doomed t q 0x63 k p"
| by_cell: "0 < dq_x q \<Longrightarrow> 0 < dq_y q \<Longrightarrow> request_cell t q \<in> occupied p \<Longrightarrow> doomed t q 0x70 k p"
| by_cell_and_z: "0 < dq_x q \<Longrightarrow> 0 < dq_y q \<Longrightarrow> request_cell t q \<in> occupied p \<Longrightarrow> kp_z_index p = dq_z_index q \<Longrightarrow>
    doomed t q 0x71 k p"
| by_column: "0 < dq_x q \<Longrightarrow> covers_column (snd (request_cell t q)) p \<Longrightarrow> doomed t q 0x78 k p"
| by_row: "0 < dq_y q \<Longrightarrow> covers_row (fst (request_cell t q)) p \<Longrightarrow> doomed t q 0x79 k p"
| by_z: "kp_z_index p = dq_z_index q \<Longrightarrow> doomed t q 0x7A k p"
| by_range: "0 < dq_x q \<Longrightarrow> fst k \<in> {dq_x q .. dq_y q} \<Longrightarrow> doomed t q 0x72 k p"

inductive_simps doomed_iff: "doomed t q a k p"

lemma occupied_iff: "screen_cell t l k \<in> occupied p \<longleftrightarrow>
    covers_column k p \<and> covers_row (int (grid_history (cgrid t)) + l) p"
  by (auto simp: occupied_def screen_cell_def covers_column_def covers_row_def)

subsection \<open>What remains\<close>

lemma placements_on_graphics [simp]:
  "placements (send_graphics_updates t) = placements t"
  "placements (on_graphics t (\<lambda>g. g\<lparr>gr_dirty := b\<rparr>)) = placements t"
  "placements (cleanup_unused_kitty_images V k t) = placements t" "placements (drop_images R t) = placements t"
  "placements (fst (drop_placements P t)) = filter (\<lambda>p. \<not> P p) (placements t)"
  by (auto simp: placements_def send_graphics_updates_def take_queues_def on_graphics_def send_def Let_def
      cleanup_unused_kitty_images_def collect_active_graphic_ids_def delete_kitty_images_def drop_images_def drop_placements_def)

lemma same_view_placements: "same_view t u \<Longrightarrow> placements u = placements t"
  by (simp add: same_view_def placements_def)

lemma same_viewD:
  assumes "same_view t u"
  shows "placements u = placements t" "grid_history (cgrid u) = grid_history (cgrid t)" "cpos (cur u) = cpos (cur t)"
    "ks_numbers (gr_active (cw_graphics u)) = ks_numbers (gr_active (cw_graphics t))"
  using assms by (simp_all add: same_view_def placements_def)

lemma cells_viewD:
  "delete_all_graphics t = Some u \<Longrightarrow> same_view t u" "delete_graphic_at_position t p = Some u \<Longrightarrow> same_view t u"
  "delete_graphics_in_column t k = Some u \<Longrightarrow> same_view t u" "delete_graphics_in_row t l = Some u \<Longrightarrow> same_view t u"
  using delete_cells_view by (auto simp: wlp_iff)

lemma request_cell_simps: "snd (request_cell t q) = unat (dq_x q) - 1"
  "fst (request_cell t q) = int (grid_history (cgrid t)) + line_below (dq_y q)"
  "request_cell t q \<in> occupied p \<longleftrightarrow> covers_column (unat (dq_x q) - 1) p \<and>
    covers_row (int (grid_history (cgrid t)) + line_below (dq_y q)) p"
  by (auto simp: request_cell_def screen_cell_def line_below_def occupied_def covers_column_def covers_row_def)

lemma drop_placementsD: "drop_placements P t = (u, c) \<Longrightarrow> placements u = filter (\<lambda>p. \<not> P p) (placements t)"
  using placements_on_graphics(5) [of P t] by simp

lemma clear_all_placements [simp]:
  "placements (on_graphics t (\<lambda>g. g\<lparr>gr_active := (gr_active g)\<lparr>ks_placements := ps\<rparr>\<rparr>)) = ps"
  "placements (on_graphics t (\<lambda>g. g\<lparr>gr_active := (gr_active g)\<lparr>ks_images := xs, ks_numbers := ys\<rparr>\<rparr>)) = placements t"
  by (simp_all add: placements_def on_graphics_def)

lemmas delete_step_eval = delete_step_def Let_def bind_eq_Some_conv case_prod_unfold doomed_iff occupied_iff
  request_cell_simps names_placement_def of_image_def numbered_image_def

lemma delete_step_ids:
  assumes "dq_action q \<in> {0x61, 0x69, 0x7A, 0x6E, 0x72}" "delete_step V c q t = Some (u, changed)"
  shows "placements u = filter (\<lambda>(k, p). \<not> doomed t q (dq_action q) k p) (placements t)"
  using assms
  by (auto simp: delete_step_eval same_viewD(1) [OF cells_viewD(1)] split: if_splits option.splits
      intro!: filter_cong [OF refl] prod_eqI filter_True [symmetric] dest: order_trans)

lemma delete_step_cells:
  assumes "dq_action q \<in> {0x63, 0x70, 0x71, 0x78, 0x79}" "delete_step V c q t = Some (u, changed)"
  shows "placements u = filter (\<lambda>(k, p). \<not> doomed t q (dq_action q) k p) (placements t)"
  using assms
  by (auto simp: delete_step_eval dest!: cells_viewD drop_placementsD simp: same_viewD split: if_splits
      intro!: filter_cong [OF refl])

lemma delete_step_placements:
  assumes "delete_step V c q t = Some (u, changed)"
  shows "placements u = filter (\<lambda>(k, p). \<not> doomed t q (dq_action q) k p) (placements t)"
proof -
  consider "dq_action q \<in> {0x61, 0x69, 0x7A, 0x6E, 0x72}" | "dq_action q \<in> {0x63, 0x70, 0x71, 0x78, 0x79}"
    | "dq_action q \<notin> {0x61, 0x69, 0x7A, 0x6E, 0x72} \<union> {0x63, 0x70, 0x71, 0x78, 0x79}" by blast
  then show ?thesis
  proof cases
    case 3
    then have "u = t" "\<not> doomed t q (dq_action q) k p" for k p
      using assms by (simp_all add: delete_step_def Let_def doomed_iff)
    then show ?thesis by simp
  qed (use assms delete_step_ids delete_step_cells in blast)+
qed

definition view_and_images :: "crosswords \<Rightarrow> crosswords \<Rightarrow> bool" where
  \<comment> \<open>as \<open>same_view\<close>, for the stored images only\<close>
  "view_and_images t u \<longleftrightarrow> ks_images (gr_active (cw_graphics u)) = ks_images (gr_active (cw_graphics t)) \<and>
     grid_history (cgrid u) = grid_history (cgrid t) \<and> cpos (cur u) = cpos (cur t)"

lemma view_and_images_simps [simp]:
  "view_and_images t t"
  "view_and_images t (send_graphics_updates u) = view_and_images t u"
  "view_and_images t (on_graphics u (\<lambda>g. g\<lparr>gr_dirty := b\<rparr>)) = view_and_images t u"
  "view_and_images t (on_graphics u (\<lambda>g. g\<lparr>gr_active := (gr_active g)\<lparr>ks_placements := ps\<rparr>\<rparr>)) = view_and_images t u"
  "view_and_images t (fst (drop_placements P u)) = view_and_images t u"
  by (auto simp: view_and_images_def send_graphics_updates_def take_queues_def on_graphics_def send_def Let_def drop_placements_def)

lemma same_view_images: "same_view t u \<Longrightarrow> view_and_images t u"
  by (simp add: same_view_def view_and_images_def)

lemma delete_step_images:
  assumes "delete_step V c q t = Some (u, changed)" "\<not> dq_delete_data q"
  shows "view_and_images t u"
proof -
  have "drop_placements P x = (y, b) \<Longrightarrow> view_and_images t x \<Longrightarrow> view_and_images t y" for P x y b
    using view_and_images_simps(5) [of t P x] by simp
  with assms show ?thesis
    by (auto simp: delete_step_eval dest!: cells_viewD same_view_images split: if_splits option.splits)
qed

lemma doomed_action [simp]: "doomed t (q\<lparr>dq_action := b\<rparr>) a k p = doomed t q a k p"
  by (simp add: doomed_iff names_placement_def numbered_image_def request_cell_def)

definition far_image :: kitty_placement where
  "far_image = \<lparr>kp_image_id = 7, kp_placement_id = 1, kp_source_x = 0, kp_source_y = 0, kp_source_width = 0,
     kp_source_height = 0, kp_dest_col = 3, kp_dest_row = 2, kp_columns = 4, kp_rows = 2, kp_pixel_width = 36,
     kp_pixel_height = 36, kp_cell_x_offset = 0, kp_cell_y_offset = 0, kp_z_index = 0, kp_transmit_time = 0\<rparr>"

subsection \<open>Properties\<close>

text \<open>C22. A delete command removes exactly the placements it names, in each of its ten forms, and keeps the
  others in their order: all, those of an image given by id or number (or one placement of it), those that
  occupy the cell under the cursor or the cell given, counted from one and from the top of the screen (with one
  z-index, if asked), those in a column, a row or on a z-index, and those of a range of ids. Every other
  command removes nothing. It never panics, leaves the cursor and the history where they are, and keeps the
  stored images unless their data is to be deleted.\<close>

theorem delete_removes_named:
  assumes "term_inv n w t"
  shows "\<exists>u. delete_graphics V c q t = Some u \<and> term_inv n w u \<and>
    placements u = filter (\<lambda>(k, p). \<not> doomed t q (lower_ascii (dq_action q)) k p) (placements t) \<and>
    (\<not> dq_delete_data q \<longrightarrow> view_and_images t u)"
proof -
  let ?q = "q\<lparr>dq_action := lower_ascii (dq_action q)\<rparr>"
  obtain v changed where v: "delete_step V c ?q t = Some (v, changed)" "term_inv n w v"
    using delete_step_wp [OF assms, of V c ?q] by (auto simp: wp_iff)
  show ?thesis
    using delete_step_placements [OF v(1)] delete_step_images [OF v(1)] v
    by (auto simp: delete_graphics_def)
qed

theorem delete_removes_named_witness:
  "\<exists>u. delete_graphics plain_image_env 0 \<lparr>dq_action = 0x70, dq_image_id = 0, dq_image_number = 0, dq_placement_id = 0,
       dq_x = 5, dq_y = 3, dq_z_index = 0, dq_delete_data = False\<rparr>
     (on_graphics (fresh 24 80) (\<lambda>g. g\<lparr>gr_active := (gr_active g)\<lparr>ks_placements :=
       [((7, 1), far_image), ((7, 2), far_image\<lparr>kp_dest_row := 9\<rparr>)]\<rparr>\<rparr>)) = Some u \<and>
    map fst (placements u) = [(7, 2)]"
proof -
  let ?t = "on_graphics (fresh 24 80) (\<lambda>g. g\<lparr>gr_active := (gr_active g)\<lparr>ks_placements :=
       [((7, 1), far_image), ((7, 2), far_image\<lparr>kp_dest_row := 9\<rparr>)]\<rparr>\<rparr>)"
  let ?q = "\<lparr>dq_action = 0x70, dq_image_id = 0, dq_image_number = 0, dq_placement_id = 0,
       dq_x = 5, dq_y = 3, dq_z_index = 0, dq_delete_data = False\<rparr>"
  have t: "term_inv 24 80 ?t" using fresh_facts(2) [of 24 80] by simp
  have h: "grid_history (cgrid (fresh 24 80)) = 0" using fresh_facts(10) [of 24 80] by simp
  have "sint (2 :: u32) = 2" by simp
  then have "doomed ?t ?q 0x70 (7, 1) far_image" "\<not> doomed ?t ?q 0x70 (7, 2) (far_image\<lparr>kp_dest_row := 9\<rparr>)"
    by (simp_all add: doomed_iff request_cell_simps h line_below_def covers_column_def covers_row_def far_image_def)
  with delete_removes_named [OF t, of plain_image_env 0 ?q] show ?thesis
    by (auto simp: lower_ascii_def)
qed

end
