(* ===== verification/OverlayProps.thy ===== *)
theory OverlayProps
  imports DeleteProps
begin

text \<open>
  Showing images of the Kitty protocol: where a transmitted image is placed, and what becomes of image
  numbers.
\<close>

subsection \<open>Moving below an image\<close>

definition moved :: "crosswords \<Rightarrow> nat \<Rightarrow> crosswords \<Rightarrow> bool" where
  \<comment> \<open>the cursor is so many lines further down and nothing has scrolled\<close>
  "moved t m u \<longleftrightarrow> cpos (cur u) = Pos (cur_row t + int m) (cur_col t) \<and> cw_graphics u = cw_graphics t \<and>
     grid_history (cgrid u) = grid_history (cgrid t) \<and> scroll_region u = scroll_region t"

lemma linefeed_moves:
  assumes "term_inv n w t" "cur_row t + 1 < snd (scroll_region t)"
  shows "wp (linefeed t) (\<lambda>u. term_inv n w u \<and> moved t 1 u)"
proof -
  obtain a b where r: "scroll_region t = (a, b)" by force
  have b: "b \<le> int n" using term_inv_pos(6) [OF assms(1)] r by (simp add: region_ok_def)
  have below: "cur_row t + 1 \<noteq> b" "cur_row t + 1 < int n" using assms(2) b r by auto
  have step: "wp (damage_cursor u) (\<lambda>v. term_inv n w v \<and> moved t 1 v)"
    if "term_inv n w u" "moved t 1 u" for u
    by (rule damage_cursor_effect [OF that(1)]) (use that in \<open>simp add: moved_def\<close>)
  show ?thesis
    unfolding linefeed_def Let_def r prod.case if_not_P [OF below(1)] term_inv_dims(4) [OF assms(1)] if_P [OF below(2)] wp_bind
  proof (rule damage_cursor_effect [OF assms(1)])
    fix d
    assume d: "term_inv n w (t\<lparr>damage := d\<rparr>)"
    let ?u = "set_cur_row (t\<lparr>damage := d\<rparr>) (cur_row (t\<lparr>damage := d\<rparr>) + 1)"
    have "term_inv n w ?u" using d below(2) term_inv_pos(3) [OF assms(1)] by (intro set_cur_row_ok) auto
    moreover have "moved t 1 ?u"
      by (simp add: moved_def set_cur_row_def with_cursor_def grid_history_def grid_dims_def)
    ultimately show "wp (damage_cursor ?u) (\<lambda>u. term_inv n w u \<and> moved t 1 u)" by (rule step)
  qed
qed

lemma linefeeds_moves:
  assumes "term_inv n w t" "cur_row t + int m < snd (scroll_region t)"
  shows "wp (linefeeds m t) (\<lambda>u. term_inv n w u \<and> moved t m u)"
  using assms
proof (induction m arbitrary: t)
  case 0
  then show ?case by (simp add: wp_simps moved_def)
next
  case (Suc m)
  obtain u where u: "linefeed t = Some u" "term_inv n w u" "moved t 1 u"
    using linefeed_moves [OF Suc.prems(1)] Suc.prems(2) by (auto simp: wp_iff)
  then have "wp (linefeeds m u) (\<lambda>v. term_inv n w v \<and> moved u m v)"
    using Suc.prems(2) by (intro Suc.IH) (auto simp: moved_def)
  with u show ?case by (auto simp: moved_def add.assoc elim!: wp_mono)
qed

lemma carriage_return_moves:
  assumes "term_inv n w t"
  shows "wp (carriage_return t) (\<lambda>u. term_inv n w u \<and> cpos (cur u) = Pos (cur_row t) 0 \<and>
    cw_graphics u = cw_graphics t \<and> grid_history (cgrid u) = grid_history (cgrid t))"
  unfolding carriage_return_def wp_bind
proof (rule damage_cursor_effect [OF assms])
  fix d
  assume d: "term_inv n w (t\<lparr>damage := d\<rparr>)"
  then have "term_inv n w (set_should_wrap (set_cur_col (t\<lparr>damage := d\<rparr>) 0) False)"
    using term_inv_pos(1) [OF d] by (intro set_should_wrap_ok set_cur_col_ok) auto
  then show "wp (Some (set_should_wrap (set_cur_col (t\<lparr>damage := d\<rparr>) 0) False)) (\<lambda>u. term_inv n w u \<and>
      cpos (cur u) = Pos (cur_row t) 0 \<and> cw_graphics u = cw_graphics t \<and> grid_history (cgrid u) = grid_history (cgrid t))"
    by (simp add: wp_simps) (simp add: set_should_wrap_def set_cur_col_def with_cursor_def grid_history_def grid_dims_def)
qed

lemma send_updates_fields [simp]:
  "cgrid (send_graphics_updates t) = cgrid t" "scroll_region (send_graphics_updates t) = scroll_region t"
  "gr_active (cw_graphics (send_graphics_updates t)) = gr_active (cw_graphics t)"
  "scroll_region (on_graphics t f) = scroll_region t" "cw_graphics (on_graphics t f) = f (cw_graphics t)"
  by (auto simp: send_graphics_updates_def take_queues_def on_graphics_def send_def Let_def)

lemma show_overlay_places:
  assumes "term_inv n w t" "pq_placement_id q \<noteq> 0" "pq_cursor_movement q \<noteq> 1"
    and "0 < snd area" "cur_row t + int (unat (snd area)) \<le> snd (scroll_region t)"
  shows "wp (show_overlay q i d size2 area t) (\<lambda>u. term_inv n w u \<and>
    cpos (cur u) = Pos (cur_row t + int (unat (snd area)) - 1) 0 \<and> grid_history (cgrid u) = grid_history (cgrid t) \<and>
    placements u = AList.update (i, pq_placement_id q)
      (new_placement t i (pq_placement_id q) q size2 area (gd_transmit_time d)) (placements t) \<and>
    ks_images (gr_active (cw_graphics u)) = ks_images (gr_active (cw_graphics t)))"
proof -
  let ?p = "new_placement t i (pq_placement_id q) q size2 area (gd_transmit_time d)"
  let ?m = "unat (snd area) - 1"
  have m: "int (unat (snd area)) = int ?m + 1" using assms(4) by (simp add: unat_gt_0 Suc_leI of_nat_diff)
  obtain Q where Q: "Q = (\<lambda>u. term_inv n w u \<and>
      cpos (cur u) = Pos (cur_row t + int (unat (snd area)) - 1) 0 \<and> grid_history (cgrid u) = grid_history (cgrid t) \<and>
      placements u = AList.update (i, pq_placement_id q) ?p (placements t) \<and>
      ks_images (gr_active (cw_graphics u)) = ks_images (gr_active (cw_graphics t)))" by simp
  have rest: "wp (linefeeds ?m v \<bind> carriage_return) Q"
    if v: "term_inv n w v" "cgrid v = cgrid t" "scroll_region v = scroll_region t"
      "placements v = AList.update (i, pq_placement_id q) ?p (placements t)"
      "ks_images (gr_active (cw_graphics v)) = ks_images (gr_active (cw_graphics t))" for v
  proof -
    obtain u where u: "linefeeds ?m v = Some u" "term_inv n w u" "moved v ?m u"
      using linefeeds_moves [OF v(1), of ?m] v(2,3) assms(5) m by (auto simp: wp_iff)
    show ?thesis
      using carriage_return_moves [OF u(2)] u(1,3) v(2,4,5) m
      by (auto simp: Q moved_def placements_def elim!: wp_mono)
  qed
  show ?thesis
    unfolding show_overlay_def Let_def Q [symmetric] if_not_P [OF assms(3)]
    by (rule rest) (use assms(1,2) in \<open>simp_all add: add_overlay_def Let_def placements_def\<close>)
qed

subsection \<open>Transmitting and displaying\<close>

lemma store_image_get:
  "get_kitty_image (store_kitty_image g t i None d) i = Some \<lparr>si_data = d\<lparr>gd_transmit_time := t\<rparr>, si_time = t\<rparr>"
  by (simp add: store_kitty_image_def get_kitty_image_def Let_def update_conv')

definition cells_for :: "nat \<Rightarrow> nat \<Rightarrow> nat" where
  \<comment> \<open>the cells that so many pixels need\<close>
  "cells_for pixels cell = (pixels + cell - 1) div cell"

lemma cells_for_bounds:
  assumes "0 < pixels" "pixels \<le> GRAPHIC_LIMIT" "0 < cell"
  shows "0 < cells_for pixels cell" "unat (word_of_nat (cells_for pixels cell) :: u32) = cells_for pixels cell"
    "(0 :: u32) < word_of_nat (cells_for pixels cell)"
proof -
  have "cell \<le> pixels + cell - 1" using assms(1) by simp
  then show pos: "0 < cells_for pixels cell" using assms(3) by (simp add: cells_for_def div_greater_zero_iff)
  have "cells_for pixels cell < pixels + 1"
    unfolding cells_for_def
  proof (rule less_mult_imp_div_less)
    have "pixels \<le> pixels * cell" using assms(3) by simp
    then show "pixels + cell - 1 < (pixels + 1) * cell" unfolding add_mult_distrib using assms(3) by linarith
  qed
  then have "cells_for pixels cell < 2 ^ 32" using assms(2) by (simp add: GRAPHIC_LIMIT_def)
  then show u: "unat (word_of_nat (cells_for pixels cell) :: u32) = cells_for pixels cell"
    by (simp add: unat_of_nat take_bit_nat_eq_self)
  with pos show "(0 :: u32) < word_of_nat (cells_for pixels cell)" by (simp add: word_less_nat_alt)
qed

definition plain_placement :: "placement_request \<Rightarrow> bool" where
  \<comment> \<open>a request that names its placement and leaves its position and size to the terminal\<close>
  "plain_placement q \<longleftrightarrow> \<not> pq_virtual q \<and> pq_placement_id q \<noteq> 0 \<and> pq_cursor_movement q \<noteq> 1 \<and>
     pq_x q = 0 \<and> pq_y q = 0 \<and> pq_columns q = 0 \<and> pq_rows q = 0"

lemma place_kitty_overlay_plain:
  assumes "image_env_ok V n w" "term_inv n w t" "plain_placement q"
    and "get_kitty_image (cw_graphics t) i = Some m" "gd_resize (si_data m) = None"
    and "gd_width (si_data m) \<in> {1..GRAPHIC_LIMIT}" "gd_height (si_data m) \<in> {1..GRAPHIC_LIMIT}"
  shows "\<exists>d. gd_transmit_time d = si_time m \<and> place_kitty_overlay V i q t =
    show_overlay q i d (gd_width (si_data m), gd_height (si_data m))
      (word_of_nat (cells_for (gd_width (si_data m)) (fst (ie_cell V))),
       word_of_nat (cells_for (gd_height (si_data m)) (snd (ie_cell V)))) t"
proof -
  note env = image_env_okD [OF assms(1,2)]
  have "fst (ie_cell V) * grid_col_count t < 2 ^ 64" "snd (ie_cell V) * screen_line_count t < 2 ^ 64" using env(6,7) by simp_all
  with env(2,3) assms(3-7) show ?thesis
    by (intro exI [of _ "(si_data m)\<lparr>gd_display_width := Some (gd_width (si_data m)),
        gd_display_height := Some (gd_height (si_data m)), gd_transmit_time := si_time m\<rparr>"])
      (auto simp: place_kitty_overlay_def plain_placement_def cells_resize_def umul_def compute_display_dimensions_def
        cells_or_def div_ceil_def cells_for_def Let_def)
qed

lemma new_placement_occupies:
  assumes "plain_placement q" "0 < gd_width d" "gd_width d \<le> GRAPHIC_LIMIT" "0 < gd_height d" "gd_height d \<le> GRAPHIC_LIMIT"
    and "0 < fst cell" "0 < snd cell"
  shows "occupied (new_placement t i p q size2 (word_of_nat (cells_for (gd_width d) (fst cell)),
      word_of_nat (cells_for (gd_height d) (snd cell))) z) =
    {int (grid_history (cgrid t)) + cur_row t ..< int (grid_history (cgrid t)) + cur_row t + int (cells_for (gd_height d) (snd cell))} \<times>
    {cur_col t ..< cur_col t + cells_for (gd_width d) (fst cell)}"
  using assms by (simp add: new_placement_def occupied_def plain_placement_def cells_for_bounds)

lemma transmit_places:
  assumes V: "image_env_ok V n w" and s: "image_inv n w k s" and q: "plain_placement q"
    and d: "gd_resize d = None" "gd_width d \<in> {1..GRAPHIC_LIMIT}" "gd_height d \<in> {1..GRAPHIC_LIMIT}"
    and t_def: "t = it_term s" and rows_def: "rows = cells_for (gd_height d) (snd (ie_cell V))"
    and room: "cur_row t + int rows \<le> snd (scroll_region t)"
    and i_def: "i = ucast (gd_id d)"
  shows "\<exists>s' p. kitty_transmit_and_display V d q s = Some s' \<and> image_inv n w k s' \<and>
    map_of (placements (it_term s')) (i, pq_placement_id q) = Some p \<and>
    occupied p = {int (grid_history (cgrid t)) + cur_row t ..< int (grid_history (cgrid t)) + cur_row t + int rows} \<times>
      {cur_col t ..< cur_col t + cells_for (gd_width d) (fst (ie_cell V))} \<and>
    get_kitty_image (cw_graphics (it_term s')) i = Some \<lparr>si_data = d\<lparr>gd_transmit_time := now V s\<rparr>, si_time = now V s\<rparr> \<and>
    cpos (cur (it_term s')) = Pos (cur_row t + int rows - 1) 0"
proof -
  let ?t = "it_term (store_graphic V d s)" and ?m = "\<lparr>si_data = d\<lparr>gd_transmit_time := now V s\<rparr>, si_time = now V s\<rparr>"
  have t: "term_inv n w ?t" using s by (simp add: store_graphic_def image_inv_def)
  have same: "cgrid ?t = cgrid t" "scroll_region ?t = scroll_region t" by (simp_all add: store_graphic_def t_def)
  have img: "get_kitty_image (cw_graphics ?t) i = Some ?m" by (simp add: store_graphic_def store_image_get i_def)
  note env = image_env_okD [OF V t]
  obtain e where e: "gd_transmit_time e = now V s" "place_kitty_overlay V i q ?t = show_overlay q i e (gd_width d, gd_height d)
      (word_of_nat (cells_for (gd_width d) (fst (ie_cell V))), word_of_nat rows) ?t"
    using place_kitty_overlay_plain [OF V t q img] d by (auto simp: rows_def)
  have b: "(0 :: u32) < word_of_nat rows" "unat (word_of_nat rows :: u32) = rows"
    using cells_for_bounds [of "gd_height d" "snd (ie_cell V)"] d(3) env(3) by (simp_all add: rows_def)
  let ?area = "(word_of_nat (cells_for (gd_width d) (fst (ie_cell V))) :: u32, word_of_nat rows :: u32)"
  have "wp (show_overlay q i e (gd_width d, gd_height d) ?area ?t) (\<lambda>u. term_inv n w u \<and>
    cpos (cur u) = Pos (cur_row ?t + int (unat (snd ?area)) - 1) 0 \<and> grid_history (cgrid u) = grid_history (cgrid ?t) \<and>
    placements u = AList.update (i, pq_placement_id q)
      (new_placement ?t i (pq_placement_id q) q (gd_width d, gd_height d) ?area (gd_transmit_time e)) (placements ?t) \<and>
    ks_images (gr_active (cw_graphics u)) = ks_images (gr_active (cw_graphics ?t)))"
    by (rule show_overlay_places [OF t]) (use q b room same in \<open>simp_all add: plain_placement_def\<close>)
  then obtain u where u: "show_overlay q i e (gd_width d, gd_height d) ?area ?t = Some u" "term_inv n w u"
    "cpos (cur u) = Pos (cur_row t + int rows - 1) 0"
    "placements u = AList.update (i, pq_placement_id q)
      (new_placement ?t i (pq_placement_id q) q (gd_width d, gd_height d) ?area (gd_transmit_time e)) (placements ?t)"
    "ks_images (gr_active (cw_graphics u)) = ks_images (gr_active (cw_graphics ?t))"
    using b(2) same by (auto simp: wp_iff)
  have "kitty_transmit_and_display V d q s = Some (s\<lparr>it_term := u\<rparr>)"
    using q e u(1) by (simp add: kitty_transmit_and_display_def plain_placement_def i_def)
  moreover have "image_inv n w k (s\<lparr>it_term := u\<rparr>)" using image_inv_term [OF s u(2)] .
  moreover have "get_kitty_image (cw_graphics u) i = Some ?m" using img u(5) by (simp add: get_kitty_image_def)
  moreover have "occupied (new_placement ?t i (pq_placement_id q) q (gd_width d, gd_height d) ?area (gd_transmit_time e)) =
      {int (grid_history (cgrid t)) + cur_row t ..< int (grid_history (cgrid t)) + cur_row t + int rows} \<times>
      {cur_col t ..< cur_col t + cells_for (gd_width d) (fst (ie_cell V))}"
    using new_placement_occupies [OF q, of d "ie_cell V" ?t] d env(2,3) same by (simp add: rows_def)
  ultimately show ?thesis using u(3,4) by (auto simp: update_conv')
qed

subsection \<open>Image numbers\<close>

definition numbers :: "crosswords \<Rightarrow> (u32 \<times> u32) set" where
  "numbers t = set (ks_numbers (gr_active (cw_graphics t)))"

lemma linefeed_active: "wlp (linefeed t) (\<lambda>u. gr_active (cw_graphics u) = gr_active (cw_graphics t))"
proof -
  have damage: "damage_line u l = Some v \<Longrightarrow> gr_active (cw_graphics v) = gr_active (cw_graphics u)" for u l v
    by (auto simp: damage_line_def)
  have lines: "foldM damage_line u ls = Some v \<Longrightarrow> gr_active (cw_graphics v) = gr_active (cw_graphics u)" for u ls v
    by (induction ls arbitrary: u) (auto split: option.splits dest: damage)
  have moved: "gr_active (cw_graphics (overlays_moved u)) = gr_active (cw_graphics u)" for u
    by (simp add: overlays_moved_def)
  have rot: "rotate_selection u r k = Some v \<Longrightarrow> gr_active (cw_graphics v) = gr_active (cw_graphics u)" for u r k v
    by (auto simp: rotate_selection_def split: option.splits)
  have scroll: "scroll_up_relative t a k = Some u \<Longrightarrow> gr_active (cw_graphics u) = gr_active (cw_graphics t)" for a k u
    by (auto simp: scroll_up_relative_def Let_def bind_eq_Some_conv on_grid_def damage_lines_def moved
        split: prod.splits if_splits dest!: rot lines)
  show ?thesis
    by (auto simp: wlp_iff linefeed_def Let_def damage_cursor_def bind_eq_Some_conv set_cur_row_def with_cursor_def
        split: prod.splits if_splits dest!: damage scroll)
qed

lemma linefeeds_active: "linefeeds m t = Some u \<Longrightarrow> gr_active (cw_graphics u) = gr_active (cw_graphics t)"
  by (induction m arbitrary: t) (use linefeed_active in \<open>fastforce simp: wlp_iff bind_eq_Some_conv\<close>)+

lemma carriage_return_active: "carriage_return t = Some u \<Longrightarrow> gr_active (cw_graphics u) = gr_active (cw_graphics t)"
  by (auto simp: carriage_return_def bind_eq_Some_conv damage_cursor_def damage_line_def set_should_wrap_def
      set_cur_col_def with_cursor_def)

lemma evicted_numbers: "set (ks_numbers (gr_active (fst (evict_images g k used)))) \<subseteq> set (ks_numbers (gr_active g))"
proof -
  have one: "set (ks_numbers (gr_active (evict_one c h))) \<subseteq> set (ks_numbers (gr_active h))" for c h
    by (auto simp: evict_one_def Let_def screen_remove_def split: candidate_source.splits)
  have "set (ks_numbers (gr_active (fold evict_one cs h))) \<subseteq> set (ks_numbers (gr_active h))" for cs h
    by (induction cs arbitrary: h) (use one in force)+
  then show ?thesis
    by (auto simp: evict_images_def Let_def sweep_placements_def case_prod_unfold)
qed

lemma stored_numbers: "set (ks_numbers (gr_active (store_kitty_image g t i None d))) \<subseteq> set (ks_numbers (gr_active g))"
  using evicted_numbers [of g "image_bytes d"]
  by (auto simp: store_kitty_image_def Let_def forget_bytes_def make_room_def image_bytes_def split: option.splits)

lemma numbers_simps [simp]:
  "numbers (send_graphics_updates t) = numbers t"
  "numbers (place_virtual_graphic q t) = numbers t" "numbers (pty_response t m) = numbers t"
  by (simp_all add: numbers_def place_virtual_graphic_def pty_response_def pty_write_def send_def)

lemma show_overlay_numbers: "show_overlay q i d size2 area t = Some u \<Longrightarrow> numbers u = numbers t"
proof -
  have rest: "numbers u = numbers v" if "linefeeds m v = Some x" "carriage_return x = Some u" for m v x
    using linefeeds_active [OF that(1)] carriage_return_active [OF that(2)] by (simp add: numbers_def)
  have "numbers (add_overlay q i d size2 area t) = numbers t"
    by (simp add: add_overlay_def Let_def allocate_placement_id_def numbers_def)
  moreover assume "show_overlay q i d size2 area t = Some u"
  ultimately show ?thesis
    by (auto simp: show_overlay_def Let_def bind_eq_Some_conv split: if_splits dest: rest)
qed

lemma overlay_numbers: "place_kitty_overlay V i q t = Some u \<Longrightarrow> numbers u = numbers t"
  by (auto simp: place_kitty_overlay_def Let_def bind_eq_Some_conv split: option.splits if_splits dest: show_overlay_numbers)

lemma store_graphic_numbers: "numbers (it_term (store_graphic V d s)) \<subseteq> numbers (it_term s)"
  using stored_numbers by (simp add: store_graphic_def numbers_def)

lemma transmit_numbers:
  assumes "kitty_transmit_and_display V d q s = Some s'"
  shows "numbers (it_term s') \<subseteq> numbers (it_term s)"
proof (cases "pq_virtual q")
  case True
  with assms store_graphic_numbers [of V d s] show ?thesis
    by (auto simp: kitty_transmit_and_display_def Let_def) (auto simp: numbers_def)
next
  case False
  with assms obtain u where "place_kitty_overlay V (ucast (gd_id d)) q (it_term (store_graphic V d s)) = Some u" "it_term s' = u"
    by (auto simp: kitty_transmit_and_display_def Let_def)
  with overlay_numbers store_graphic_numbers [of V d s] show ?thesis by blast
qed

lemma dropped_numbers:
  "numbers t \<subseteq> S \<Longrightarrow> numbers (fst (drop_placements P t)) \<subseteq> S"
  "numbers t \<subseteq> S \<Longrightarrow> numbers (drop_images R t) \<subseteq> S"
  "numbers t \<subseteq> S \<Longrightarrow> numbers (cleanup_unused_kitty_images V k t) \<subseteq> S"
  "numbers t \<subseteq> S \<Longrightarrow> numbers (on_graphics t (\<lambda>g. g\<lparr>gr_active := (gr_active g)\<lparr>ks_placements := ps\<rparr>\<rparr>)) \<subseteq> S"
  "numbers (on_graphics t (\<lambda>g. g\<lparr>gr_active := (gr_active g)\<lparr>ks_images := xs, ks_numbers := []\<rparr>\<rparr>)) \<subseteq> S"
  by (auto simp: numbers_def drop_placements_def drop_images_def cleanup_unused_kitty_images_def Let_def
      delete_kitty_images_def collect_active_graphic_ids_def on_graphics_def)

lemma wlp_ifI: "(b \<Longrightarrow> wlp m P) \<Longrightarrow> (\<not> b \<Longrightarrow> wlp n P) \<Longrightarrow> wlp (if b then m else n) P"
  by simp

lemma delete_numbers: "wlp (delete_step V k q t) (\<lambda>(u, changed). numbers u \<subseteq> numbers t)"
proof -
  have view: "numbers u \<subseteq> numbers t" if "same_view t u" for u
    using that by (simp add: same_view_def numbers_def)
  have cells: "wlp (delete_all_graphics t) (\<lambda>u. numbers u \<subseteq> numbers t)"
    "wlp (delete_graphic_at_position t p) (\<lambda>u. numbers u \<subseteq> numbers t)"
    "wlp (delete_graphics_in_column t c) (\<lambda>u. numbers u \<subseteq> numbers t)"
    "wlp (delete_graphics_in_row t l) (\<lambda>u. numbers u \<subseteq> numbers t)" for p c l
    using delete_cells_view view by (blast intro: wlp_mono)+
  show ?thesis
    unfolding delete_step_def Let_def
    by (intro wlp_ifI)
      (auto simp only: wlp_simps case_prod_unfold prod.sel split: option.split intro!: dropped_numbers
        wlp_mono [OF cells(1)] wlp_mono [OF cells(2)] wlp_mono [OF cells(3)] wlp_mono [OF cells(4)] split: if_split)
qed

lemma delete_graphics_numbers: "wlp (delete_graphics V k q t) (\<lambda>u. numbers u \<subseteq> numbers t)"
  unfolding delete_graphics_def wlp_bind
  by (rule wlp_mono [OF delete_numbers]) (auto simp: wlp_simps numbers_def)

lemma response_numbers:
  assumes "kitty_response_effect V r s = Some s'"
  shows "numbers (it_term s') \<subseteq> numbers (it_term s)"
proof (cases "kr_incomplete r")
  case True
  with assms show ?thesis by (simp add: kitty_response_effect_def)
next
  case False
  from assms obtain x y where x: "(case kr_graphic r of
        Some d \<Rightarrow> (case kr_placement r of Some q \<Rightarrow> kitty_transmit_and_display V d q s | None \<Rightarrow> Some (store_graphic V d s))
      | None \<Rightarrow> (case kr_placement r of
            Some q \<Rightarrow> map_option (\<lambda>t. s\<lparr>it_term := t\<rparr>) (place_graphic V q (it_term s)) | None \<Rightarrow> Some s)) = Some x"
    and y: "(case kr_delete r of
        Some q \<Rightarrow> map_option (\<lambda>t. x\<lparr>it_term := t\<rparr>) (delete_graphics V (it_reads x) q (it_term x)) | None \<Rightarrow> Some x) = Some y"
    and s': "s' = (case kr_response r of Some m \<Rightarrow> y\<lparr>it_term := pty_response (it_term y) m\<rparr> | None \<Rightarrow> y)"
    using False by (simp add: kitty_response_effect_def bind_eq_Some_conv) blast
  have "numbers (it_term x) \<subseteq> numbers (it_term s)"
  proof (cases "kr_graphic r")
    case None
    with x overlay_numbers show ?thesis
      by (fastforce simp: place_graphic_def split: option.splits if_splits)
  next
    case (Some d)
    with x transmit_numbers store_graphic_numbers show ?thesis by (fastforce split: option.splits)
  qed
  moreover have "numbers (it_term y) \<subseteq> numbers (it_term x)"
  proof (cases "kr_delete r")
    case (Some q)
    with y obtain u where "delete_graphics V (it_reads x) q (it_term x) = Some u" "it_term y = u" by auto
    with delete_graphics_numbers [of V "it_reads x" q "it_term x"] show ?thesis by (simp add: wlp_iff)
  qed (use y in simp)
  ultimately show ?thesis using s' by (auto split: option.splits)
qed

definition shown_request :: placement_request where
  "shown_request = \<lparr>pq_image_id = 7, pq_placement_id = 1, pq_x = 0, pq_y = 0, pq_width = 0, pq_height = 0, pq_columns = 0,
     pq_rows = 0, pq_z_index = 0, pq_virtual = False, pq_unicode_placeholder = 0, pq_cursor_movement = 0\<rparr>"

definition shown_image :: graphic_data where
  \<comment> \<open>20 by 40 pixels\<close>
  "shown_image = \<lparr>gd_id = 7, gd_width = 20, gd_height = 40, gd_color_type = ColorRgba, gd_pixels = replicate 3200 255,
     gd_is_opaque = True, gd_resize = None, gd_display_width = None, gd_display_height = None, gd_transmit_time = 0\<rparr>"

subsection \<open>Properties\<close>

text \<open>C23. An image transmitted for display covers the cells from the cursor on that its pixels need, rounded up
  in both directions; it is stored under its id with the time of its transmission, the placement is found under its
  ids, and the cursor ends at the start of the image's last line. This is for a request that names its
  placement (\<open>p\<close> is not 0), gives no source position and no size (\<open>x\<close>, \<open>y\<close>, \<open>c\<close> and \<open>r\<close> are 0), is not virtual and moves
  the cursor (\<open>C\<close> is not 1), for an image that is not to be resized and whose sides are between 1 and the limit, and
  when the scroll region has room for the image below the cursor, so that nothing scrolls.\<close>

theorem transmitted_image_is_placed:
  assumes "image_env_ok V n w" "image_inv n w k s" "plain_placement q"
    and "gd_resize d = None" "gd_width d \<in> {1..GRAPHIC_LIMIT}" "gd_height d \<in> {1..GRAPHIC_LIMIT}"
    and "t = it_term s" "rows = cells_for (gd_height d) (snd (ie_cell V))"
    and "cur_row t + int rows \<le> snd (scroll_region t)" "i = ucast (gd_id d)"
  shows "\<exists>s' p. kitty_transmit_and_display V d q s = Some s' \<and> image_inv n w k s' \<and>
    map_of (placements (it_term s')) (i, pq_placement_id q) = Some p \<and>
    occupied p = {int (grid_history (cgrid t)) + cur_row t ..< int (grid_history (cgrid t)) + cur_row t + int rows} \<times>
      {cur_col t ..< cur_col t + cells_for (gd_width d) (fst (ie_cell V))} \<and>
    get_kitty_image (cw_graphics (it_term s')) i = Some \<lparr>si_data = d\<lparr>gd_transmit_time := now V s\<rparr>, si_time = now V s\<rparr> \<and>
    cpos (cur (it_term s')) = Pos (cur_row t + int rows - 1) 0"
  by (rule transmit_places [OF assms])

theorem transmitted_image_is_placed_witness:
  "\<exists>s' p. kitty_transmit_and_display plain_image_env shown_image shown_request (image_terminal_new (fresh 24 80)) = Some s' \<and>
    map_of (placements (it_term s')) (7, 1) = Some p \<and> occupied p = {0 ..< 3} \<times> {0 ..< 3} \<and>
    cpos (cur (it_term s')) = Pos 2 0"
proof -
  have inv: "image_inv 24 80 0 (image_terminal_new (fresh 24 80))"
    by (rule image_terminal_new_inv [OF fresh_facts(2)]) simp_all
  have q: "plain_placement shown_request" by (simp add: plain_placement_def shown_request_def)
  have rows: "cells_for (gd_height shown_image) (snd (ie_cell plain_image_env)) = 3"
    "cells_for (gd_width shown_image) (fst (ie_cell plain_image_env)) = 3"
    by (simp_all add: cells_for_def shown_image_def plain_image_env_def)
  have t: "it_term (image_terminal_new (fresh 24 80)) = fresh 24 80" by (simp add: image_terminal_new_def)
  note f = fresh_facts [of 24 80, simplified]
  from transmitted_image_is_placed [OF plain_image_env_ok inv q, of shown_image "fresh 24 80" 3 7]
  show ?thesis
    using f(3,9,10) rows t by (auto simp: shown_image_def GRAPHIC_LIMIT_def shown_request_def)
qed

text \<open>Image numbers are accepted and then lost: no command of the Kitty protocol ever adds to the map from
  numbers to images, so an image transmitted with a number cannot be deleted by it.\<close>

theorem image_numbers_are_lost:
  assumes "kitty_command_effect V control payload s = Some s'"
  shows "numbers (it_term s') \<subseteq> numbers (it_term s)"
proof -
  obtain st r where "(case r of Some r \<Rightarrow> kitty_response_effect V r (s\<lparr>it_chunks := st\<rparr>) | None \<Rightarrow> Some (s\<lparr>it_chunks := st\<rparr>)) = Some s'"
    using assms by (auto simp: kitty_command_effect_def bind_eq_Some_conv Let_def)
  with response_numbers [of V _ "s\<lparr>it_chunks := st\<rparr>" s'] show ?thesis by (cases r) auto
qed

theorem image_numbers_are_lost_witness:
  "\<exists>s'. kitty_command_effect plain_image_env (bytes_of ''I=5,s=1,v=1'') [255, 0, 0, 255] (image_terminal_new (fresh 24 80)) = Some s' \<and>
    numbers (it_term s') = {}"
proof -
  have "image_inv 24 80 0 (image_terminal_new (fresh 24 80))"
    by (rule image_terminal_new_inv [OF fresh_facts(2)]) simp_all
  from kitty_command_effect_wp [OF plain_image_env_ok this, of "bytes_of ''I=5,s=1,v=1''" "[255, 0, 0, 255]"] obtain s' where
    s': "kitty_command_effect plain_image_env (bytes_of ''I=5,s=1,v=1'') [255, 0, 0, 255] (image_terminal_new (fresh 24 80)) = Some s'" by (auto simp: wp_iff)
  have "cw_graphics t = graphics_default" if "crosswords_new \<lparr>total_lines = 24, screen_lines = 24, columns = 80\<rparr> ShapeBlock 100 = Some t" for t
    using that by (auto simp: crosswords_new_def Let_def bind_eq_Some_conv)
  from this [OF fresh_facts(1)] have "numbers (it_term (image_terminal_new (fresh 24 80))) = {}"
    by (simp add: numbers_def image_terminal_new_def graphics_default_def kitty_screen_empty_def)
  with image_numbers_are_lost [OF s'] s' show ?thesis by auto
qed

end
