(* ===== verification/ScreenProps.thy ===== *)
theory ScreenProps
  imports OverlayProps EditProps
begin

text \<open>
  From the bytes to the cells: the parser, the performer and the terminal composed on a whole input.
\<close>

subsection \<open>Input\<close>

definition shown_char :: "image_env \<Rightarrow> rchar \<Rightarrow> bool" where
  \<comment> \<open>a character of width one that the parser prints\<close>
  "shown_char V c \<longleftrightarrow> is_scalar c \<and> 0x20 \<le> c \<and> \<not> (0x80 \<le> c \<and> c \<le> 0x9F) \<and>
     char_width (ie_env V) c = Some 1 \<and> c \<noteq> PLACEHOLDER"

lemma encode_utf8_no_escape: "is_scalar c \<Longrightarrow> 0x20 \<le> c \<Longrightarrow> 0x1B \<notin> set (encode_utf8 c)"
proof -
  assume c: "is_scalar c" "0x20 \<le> c"
  have "c div 64 < 32" if "c < 0x800" using that by auto
  moreover have "c div 4096 < 16" if "c < 0x10000" using that by auto
  moreover have "c div 262144 < 8" using c(1) by (auto simp: is_scalar_def)
  ultimately show ?thesis
    using c by (auto simp: encode_utf8_def byte_compare [symmetric] dest!: sym [of "0x1B :: u8"] simp: byte_compare)
qed

lemma shown_chars:
  assumes "\<forall>c \<in> set cs. shown_char V c"
  shows "\<forall>c \<in> set cs. is_scalar c" "0x1B \<notin> set (encode_str cs)" "map ground_event cs = map Print cs"
    "\<forall>c \<in> set cs. char_width (ie_env V) c = Some 1 \<and> c \<noteq> PLACEHOLDER"
  using assms encode_utf8_no_escape by (auto simp: shown_char_def encode_str_def ground_event_def)

context text_lib_spec
begin

lemma csi_then_text:
  assumes p: "parser_inv p" "partial_utf8_len p = 0" "pstate p = Ground" "csi_wf marker G ints f"
    and cs: "\<forall>c \<in> set cs. is_scalar c" "0x1B \<notin> set (encode_str cs)"
  shows "\<exists>q ps. advance lib p (render_csi marker G ints f @ encode_str cs) =
      Some (q, CsiDispatch ps (marker @ ints) False (unat f) # map ground_event cs) \<and>
    params_iter ps = Some (map (map sat16) G) \<and> parser_inv q \<and> pstate q = Ground \<and> partial_utf8_len q = 0"
proof -
  obtain q ps where q: "leads lib p (render_csi marker G ints f) q [CsiDispatch ps (marker @ ints) False (unat f)]"
    "params_iter ps = Some (map (map sat16) G)" "parser_inv q" "pstate q = Ground" "partial_utf8_len q = 0"
    using leads_csi [OF p(1-3,4)] by blast
  have "run lib q (encode_str cs) = Some (q, map ground_event cs)"
    using run_text [OF q(3,5,4) std_from_utf8_encode [OF cs(1)] cs(2)]
    by (simp add: ground_dispatch_def utf8_chars_encode [OF cs(1)])
  with q(1) have "run lib p (render_csi marker G ints f @ encode_str cs) =
      Some (q, CsiDispatch ps (marker @ ints) False (unat f) # map ground_event cs)"
    by (simp add: leads_def)
  with q(2-) show ?thesis using advance_run [OF p(1,2)] by auto
qed

end

subsection \<open>What the performer does with it\<close>

lemma perform_print:
  "perform E (terminal_handler V) (st, s) (Print c) =
     map_option (\<lambda>u. (st\<lparr>preceding_char := Some c\<rparr>, s\<lparr>it_term := u\<rparr>)) (input (ie_env V) (it_term s) c)"
  by (simp add: perform_def terminal_handler_def handle_def option.map_comp o_def)

lemma perform_prints:
  "perform_all E (terminal_handler V) (st, s) (map Print cs) =
     map_option (\<lambda>u. (if cs = [] then st else st\<lparr>preceding_char := Some (last cs)\<rparr>, s\<lparr>it_term := u\<rparr>))
       (foldM (input (ie_env V)) (it_term s) cs)"
proof (induction cs arbitrary: st s)
  case (Cons c cs)
  show ?case
  proof (cases "input (ie_env V) (it_term s) c")
    case (Some u)
    with Cons [of "st\<lparr>preceding_char := Some c\<rparr>" "s\<lparr>it_term := u\<rparr>"] show ?thesis
      by (simp add: perform_all_def perform_print)
  qed (simp add: perform_all_def perform_print)
qed (simp add: perform_all_def)

lemma uint_sat16: "uint (sat16 n) = int (min 65535 n)"
  by (simp only: uint_nat unat_sat16)

lemma perform_goto:
  assumes "params_iter ps = Some [[sat16 r], [sat16 c]]" "1 \<le> r" "r < 65536" "1 \<le> c" "c < 65536"
  shows "perform E (terminal_handler V) (st, s) (CsiDispatch ps [] False 0x48) =
    map_option (\<lambda>u. (st, s\<lparr>it_term := u\<rparr>)) (goto (it_term s) (int r - 1) (c - 1))"
proof -
  have nz: "sat16 r \<noteq> 0" "sat16 c \<noteq> 0" using assms(2-5) by (simp_all flip: unat_eq_zero)
  have "csi_calls (preceding_char st) [[sat16 r], [sat16 c]] [] False 0x48 = Some (False, [Goto (int r - 1) (c - 1)])"
    using nz assms(2-5) by (simp add: csi_calls_def csi_plain_def next_param_or_def usub_def Let_def uint_sat16)
  with assms(1) show ?thesis
    by (simp add: perform_def run_calls_def terminal_handler_def handle_def split: option.split)
qed

lemma goto_keeps_pen:
  assumes "goto t l k = Some u"
  shows "written_cell u = written_cell t" "cw_mode u = cw_mode t"
  using assms
  by (auto simp: goto_def bind_eq_Some_conv Let_def written_cell_def damage_cursor_def damage_line_def set_cur_row_def
      set_cur_col_def set_should_wrap_def with_cursor_def split: if_splits)

subsection \<open>The property\<close>



end
