(* ===== verification/Search.thy ===== *)
theory Search
  imports Terminal
begin

text \<open>
  \<open>crosswords/search.rs\<close> without the regular expressions, and the ranges of semantic and of line
  selections: walks over the cells of the grid in reading order. The walks are loops over the grid's
  bidirectional iterator; that they end is proved in \<open>SearchProps\<close>.
\<close>

definition BRACKET_PAIRS :: "(rchar \<times> rchar) list" where
  "BRACKET_PAIRS = [(0x28, 0x29), (0x5B, 0x5D), (0x7B, 0x7D), (0x3C, 0x3E)]"

definition SEMANTIC_ESCAPE_CHARS :: rstring where
  \<comment> \<open>the field \<open>semantic_escape_chars\<close>, which is set at the creation and never changed\<close>
  "SEMANTIC_ESCAPE_CHARS =
     [0x2C, 0x2502, 0x60, 0x7C, 0x3A, 0x22, 0x27, 0x20, 0x28, 0x29, 0x5B, 0x5D, 0x7B, 0x7D, 0x3C, 0x3E, 0x09, 0x00]"

definition any_spacer :: "square \<Rightarrow> bool" where
  "any_spacer c \<longleftrightarrow> sq_wide c = Spacer \<or> sq_wide c = LeadingSpacer"

definition search_start :: "grid \<Rightarrow> pos \<Rightarrow> pos" where
  \<comment> \<open>limited to the history\<close>
  "search_start g p = Pos (max (row p) (topmost_line (grid_dims g))) (col p)"

subsection \<open>Characters\<close>

text \<open>A search ends with \<open>Inr\<close> the place of a character, or \<open>Inl\<close> the last cell of the line.\<close>

partial_function (option) search_left_loop :: "grid \<Rightarrow> rstring \<Rightarrow> nat \<Rightarrow> pos \<Rightarrow> (pos + pos) option" where
  "search_left_loop g needles lc p =
     Option.bind (iter_prev g p) (\<lambda>r. case r of
         None \<Rightarrow> Some (Inl p)
       | Some (q, c) \<Rightarrow>
           if col q = lc \<and> \<not> sq_wrapline c then Some (Inl p)
           else if \<not> any_spacer c \<and> sq_c c \<in> set needles then Some (Inr q)
           else search_left_loop g needles lc q)"

definition inline_search_left :: "grid \<Rightarrow> pos \<Rightarrow> rstring \<Rightarrow> (pos + pos) option" where
  "inline_search_left g p needles = do {
     lc \<leftarrow> usub (g_columns g) 1;
     search_left_loop g needles lc (search_start g p)
   }"

partial_function (option) search_right_loop :: "grid \<Rightarrow> rstring \<Rightarrow> nat \<Rightarrow> pos \<Rightarrow> pos \<Rightarrow> (pos + pos) option" where
  "search_right_loop g needles lc e p =
     Option.bind (iter_next g e p) (\<lambda>r. case r of
         None \<Rightarrow> Some (Inl p)
       | Some (q, c) \<Rightarrow>
           if \<not> any_spacer c \<and> sq_c c \<in> set needles then Some (Inr q)
           else if col q = lc \<and> \<not> sq_wrapline c then Some (Inl q)
           else search_right_loop g needles lc e q)"

definition inline_search_right :: "grid \<Rightarrow> pos \<Rightarrow> rstring \<Rightarrow> (pos + pos) option" where
  "inline_search_right g p needles = do {
     let p = search_start g p;
     lc \<leftarrow> usub (g_columns g) 1;
     stop \<leftarrow> (if col p = lc then map_option (\<lambda>c. \<not> sq_wrapline c) (grid_cell g p) else Some False);
     if stop then Some (Inl p)
     else do {
       e \<leftarrow> iter_from_end g;
       search_right_loop g needles lc e p
     }
   }"

partial_function (option) skip_spacers :: "grid \<Rightarrow> pos \<Rightarrow> pos \<Rightarrow> pos option option" where
  \<comment> \<open>\<open>iter_from(..).find(..)\<close>: the next cell that is no spacer\<close>
  "skip_spacers g e p =
     Option.bind (iter_next g e p) (\<lambda>r. case r of
         None \<Rightarrow> Some None
       | Some (q, c) \<Rightarrow> if \<not> any_spacer c then Some (Some q) else skip_spacers g e q)"

definition semantic_search_left :: "grid \<Rightarrow> pos \<Rightarrow> pos option" where
  "semantic_search_left g p = do {
     r \<leftarrow> inline_search_left g p SEMANTIC_ESCAPE_CHARS;
     case r of
       Inl q \<Rightarrow> Some q
     | Inr q \<Rightarrow> do {
         e \<leftarrow> iter_from_end g;
         s \<leftarrow> skip_spacers g e q;
         Some (case s of Some s \<Rightarrow> s | None \<Rightarrow> q)
       }
   }"

definition semantic_search_right :: "grid \<Rightarrow> pos \<Rightarrow> pos option" where
  "semantic_search_right g p = do {
     r \<leftarrow> inline_search_right g p SEMANTIC_ESCAPE_CHARS;
     case r of
       Inl q \<Rightarrow> Some q
     | Inr q \<Rightarrow> map_option (\<lambda>s. case s of Some (s, _) \<Rightarrow> s | None \<Rightarrow> q) (iter_prev g q)
   }"

subsection \<open>Brackets\<close>

fun bracket_of :: "rchar \<Rightarrow> (rchar \<times> rchar) list \<Rightarrow> (bool \<times> rchar) option" where
  \<comment> \<open>whether the character opens, and its partner\<close>
  "bracket_of c [] = None"
| "bracket_of c ((open, close) # ps) =
     (if open = c then Some (True, close) else if close = c then Some (False, open) else bracket_of c ps)"

partial_function (option) bracket_loop ::
    "grid \<Rightarrow> bool \<Rightarrow> rchar \<Rightarrow> rchar \<Rightarrow> pos \<Rightarrow> int \<Rightarrow> pos \<Rightarrow> pos option option" where
  "bracket_loop g forward start_char end_char e skip_pairs p =
     Option.bind (if forward then iter_next g e p else iter_prev g p) (\<lambda>r. case r of
         None \<Rightarrow> Some None
       | Some (q, c) \<Rightarrow>
           if sq_c c = end_char \<and> skip_pairs = 0 then Some (Some q)
           else bracket_loop g forward start_char end_char e
             (if sq_c c = start_char then skip_pairs + 1
              else if sq_c c = end_char then skip_pairs - 1 else skip_pairs) q)"

definition bracket_search :: "grid \<Rightarrow> pos \<Rightarrow> pos option option" where
  "bracket_search g p = do {
     c \<leftarrow> grid_cell g p;
     case bracket_of (sq_c c) BRACKET_PAIRS of
       None \<Rightarrow> Some None
     | Some (forward, end_char) \<Rightarrow> do {
         e \<leftarrow> iter_from_end g;
         bracket_loop g forward (sq_c c) end_char e 0 p
       }
   }"

subsection \<open>Lines\<close>

definition wraps :: "grid \<Rightarrow> int \<Rightarrow> bool option" where
  \<comment> \<open>whether a line goes on in the next one\<close>
  "wraps g l = do {
     lc \<leftarrow> last_column (grid_dims g);
     map_option sq_wrapline (grid_cell g (Pos l lc))
   }"

partial_function (option) row_left_loop :: "grid \<Rightarrow> int \<Rightarrow> int option" where
  "row_left_loop g l =
     (if l > topmost_line (grid_dims g)
      then Option.bind (wraps g (l - 1)) (\<lambda>b. if b then row_left_loop g (l - 1) else Some l)
      else Some l)"

definition row_search_left :: "grid \<Rightarrow> pos \<Rightarrow> pos option" where
  "row_search_left g p = map_option (\<lambda>l. Pos l 0) (row_left_loop g (row p))"

partial_function (option) row_right_loop :: "grid \<Rightarrow> int \<Rightarrow> int option" where
  "row_right_loop g l =
     (if l + 1 < int (g_lines g)
      then Option.bind (wraps g l) (\<lambda>b. if b then row_right_loop g (l + 1) else Some l)
      else Some l)"

definition row_search_right :: "grid \<Rightarrow> pos \<Rightarrow> pos option" where
  "row_search_right g p = do {
     l \<leftarrow> row_right_loop g (row p);
     lc \<leftarrow> last_column (grid_dims g);
     Some (Pos l lc)
   }"

subsection \<open>Ranges of selections\<close>

definition range_lines :: "grid \<Rightarrow> pos \<Rightarrow> pos \<Rightarrow> selection_range option" where
  "range_lines g a b = do {
     p \<leftarrow> row_search_left g a;
     q \<leftarrow> row_search_right g b;
     Some \<lparr>sr_start = p, sr_end = q, sr_block = False\<rparr>
   }"

definition range_semantic :: "grid \<Rightarrow> pos \<Rightarrow> pos \<Rightarrow> selection_range option" where
  "range_semantic g a b = do {
     matching \<leftarrow> (if a = b then bracket_search g a else Some None);
     case matching of
       Some m \<Rightarrow>
         Some (if (row m = row a \<and> col m < col a) \<or> row m < row a
           then \<lparr>sr_start = m, sr_end = b, sr_block = False\<rparr>
           else \<lparr>sr_start = a, sr_end = m, sr_block = False\<rparr>)
     | None \<Rightarrow> do {
         p \<leftarrow> semantic_search_left g a;
         q \<leftarrow> semantic_search_right g b;
         Some \<lparr>sr_start = p, sr_end = q, sr_block = False\<rparr>
       }
   }"

definition term_selection_range :: "crosswords \<Rightarrow> selection \<Rightarrow> selection_range option option" where
  \<comment> \<open>\<open>Selection::to_range\<close> on the terminal\<close>
  "term_selection_range t s = selection_to_range (range_lines (cgrid t)) (range_semantic (cgrid t)) (grid_dims (cgrid t)) s"

end
