(* ===== verification/CopyText.thy ===== *)
theory CopyText
  imports Search
begin

text \<open>
  The text of a selection (\<open>crosswords/mod.rs\<close>, \<open>selection_to_string\<close> and what it calls): blank cells are
  counted and become spaces only when something follows them in their line.
\<close>

definition append_cell ::
    "crosswords \<Rightarrow> square grid_row \<Rightarrow> rstring \<times> nat \<times> bool \<times> bool \<Rightarrow> nat \<Rightarrow> (rstring \<times> nat \<times> bool \<times> bool) option" where
  \<comment> \<open>the loop of \<open>append_cells\<close>: the text, the blanks, whether a tab is being skipped, and whether there was content\<close>
  "append_cell t r st k = (case st of (text, blanks, tab_mode, had_content) \<Rightarrow> do {
     c \<leftarrow> row_index r k;
     stop \<leftarrow> (if tab_mode then map_option (\<lambda>b. b \<or> sq_c c \<noteq> 0) (idx (tabs t) k) else Some False);
     if tab_mode \<and> \<not> stop then Some (text, blanks, tab_mode, had_content)
     else
       (let tab_mode = (sq_c c = 9) in
        if any_spacer c then Some (text, blanks, tab_mode, had_content)
        else if \<not> sq_has_extras c \<and> (sq_c c = 0 \<or> sq_c c = 0x20) then Some (text, blanks + 1, tab_mode, had_content)
        else Some (text @ replicate blanks 0x20 @ [sq_c c] @
            (case sq_extras_id c of None \<Rightarrow> []
             | Some i \<Rightarrow> (case extras_get (g_extras (cgrid t)) i of None \<Rightarrow> [] | Some e \<Rightarrow> zerowidth e)),
          0, tab_mode, True))
   })"

definition append_cells ::
    "crosswords \<Rightarrow> rstring \<Rightarrow> int \<Rightarrow> nat \<times> nat \<Rightarrow> bool \<Rightarrow> nat \<Rightarrow> (rstring \<times> nat \<times> bool) option" where
  \<comment> \<open>of the text, the line, the columns, whether a wrapped wide character belongs to it, and the blanks so far\<close>
  "append_cells t text line cols include_wrapped_wide blanks = do {
     r \<leftarrow> storage_index (raw (cgrid t)) line;
     len \<leftarrow> line_length r;
     let n = min len (snd cols + 1);
     a \<leftarrow> (if fst cols < g_columns (cgrid t) then do {
         c \<leftarrow> row_index r (fst cols);
         if sq_wide c = Spacer then usub (fst cols) 1 else Some (fst cols)
       }
       else Some (fst cols));
     (text, blanks, _, had_content) \<leftarrow> foldM (append_cell t r) (text, blanks, False, False) [a..<n];
     leading \<leftarrow> (if n = g_columns (cgrid t) \<and> n \<ge> 2 then map_option (\<lambda>c. sq_wide c = LeadingSpacer) (row_index r (n - 1)) else Some False);
     if leading \<and> include_wrapped_wide then do {
       c \<leftarrow> grid_cell (cgrid t) (Pos (line - 1) 0);
       Some (text @ replicate blanks 0x20 @ [sq_c c], 0, True)
     }
     else Some (text, blanks, had_content)
   }"

definition line_to_string :: "crosswords \<Rightarrow> int \<Rightarrow> nat \<times> nat \<Rightarrow> bool \<Rightarrow> rstring option" where
  "line_to_string t line cols include_wrapped_wide = map_option fst (append_cells t [] line cols include_wrapped_wide 0)"

definition bounds_line ::
    "crosswords \<Rightarrow> pos \<Rightarrow> pos \<Rightarrow> nat \<Rightarrow> rstring \<times> nat \<times> nat \<Rightarrow> int \<Rightarrow> (rstring \<times> nat \<times> nat) option" where
  \<comment> \<open>the loop of \<open>bounds_to_string\<close>: the text, the blank rows held back and the blank cells\<close>
  "bounds_line t start end lc st line = (case st of (text, blank_rows, blank_cells) \<Rightarrow> do {
     let start_col = (if line = row start then col start else 0);
     let end_col = (if line = row end then col end else lc);
     continued \<leftarrow> (if line > row start then wraps (cgrid t) (line - 1) else Some False);
     (row_text, blank_cells, had_content) \<leftarrow>
       append_cells t [] line (start_col, end_col) (line = row end) (if continued then blank_cells else 0);
     if \<not> had_content then Some (text, blank_rows + 1, blank_cells)
     else do {
       cur_wraps \<leftarrow> wraps (cgrid t) line;
       let text = text @ replicate blank_rows 0x0A @ row_text;
       Some (if end_col \<ge> lc \<and> \<not> cur_wraps then (text @ [0x0A], 0, 0) else (text, 0, blank_cells))
     }
   })"

definition strip_newline :: "rstring \<Rightarrow> rstring" where
  \<comment> \<open>\<open>strip_suffix\<close>\<close>
  "strip_newline s = (if s \<noteq> [] \<and> last s = 0x0A then butlast s else s)"

definition bounds_to_string :: "crosswords \<Rightarrow> pos \<Rightarrow> pos \<Rightarrow> rstring option" where
  "bounds_to_string t start end = do {
     lc \<leftarrow> last_column (grid_dims (cgrid t));
     (text, _, _) \<leftarrow> foldM (bounds_line t start end lc) ([], 0, 0) [row start..row end];
     Some (strip_newline text)
   }"

definition block_line :: "crosswords \<Rightarrow> pos \<Rightarrow> pos \<Rightarrow> rstring \<Rightarrow> int \<Rightarrow> rstring option" where
  \<comment> \<open>a line of a block selection but the last\<close>
  "block_line t start end text line =
     map_option (\<lambda>s. text @ s @ [0x0A]) (line_to_string t line (col start, col end) (col start \<noteq> 0))"

definition selection_to_string :: "crosswords \<Rightarrow> rstring option option" where
  "selection_to_string t =
     (case cw_selection t of
        None \<Rightarrow> Some None
      | Some s \<Rightarrow> do {
          range \<leftarrow> term_selection_range t s;
          case range of
            None \<Rightarrow> Some None
          | Some r \<Rightarrow>
              if sel_ty s = SelBlock then do {
                text \<leftarrow> foldM (block_line t (sr_start r) (sr_end r)) [] [row (sr_start r)..row (sr_end r) - 1];
                last \<leftarrow> line_to_string t (row (sr_end r)) (col (sr_start r), col (sr_end r)) True;
                Some (Some (text @ last))
              }
              else do {
                text \<leftarrow> bounds_to_string t (sr_start r) (sr_end r);
                Some (Some (if sel_ty s = SelLines then text @ [0x0A] else text))
              }
        })"

end
