(* ===== verification/SearchProps.thy ===== *)
theory SearchProps
  imports Search TermProps
begin

text \<open>
  What the searches find. The cells of a grid in reading order are numbered; the grid's iterator walks
  over these numbers, so each search is a function on the list of the cells that lie ahead, and it ends.
\<close>

subsection \<open>Cells in reading order\<close>

definition cell_total :: "grid \<Rightarrow> nat" where
  "cell_total g = (grid_history g + g_lines g) * g_columns g"

definition place :: "grid \<Rightarrow> nat \<Rightarrow> pos" where
  "place g i = Pos (int (i div g_columns g) - int (grid_history g)) (i mod g_columns g)"

definition nth_cell :: "grid \<Rightarrow> nat \<Rightarrow> square" where
  "nth_cell g i = grid_line g (row (place g i)) ! col (place g i)"

definition ahead :: "grid \<Rightarrow> bool \<Rightarrow> nat \<Rightarrow> nat list" where
  \<comment> \<open>the numbers of the cells after the given one, or before it\<close>
  "ahead g forward i = (if forward then [Suc i..<cell_total g] else rev [0..<i])"

lemma place_ok:
  assumes "grid_wf g" "i < cell_total g"
  shows "has_line g (row (place g i))" "col (place g i) < g_columns g" "grid_cell g (place g i) = Some (nth_cell g i)"
proof -
  have w: "0 < g_columns g" using assms(1) by (simp add: grid_wf_def)
  have "i div g_columns g < grid_history g + g_lines g"
    using assms(2) w by (simp add: cell_total_def div_less_iff_less_mult)
  then show l: "has_line g (row (place g i))" by (auto simp: has_line_def place_def)
  show c: "col (place g i) < g_columns g" using w by (simp add: place_def)
  show "grid_cell g (place g i) = Some (nth_cell g i)"
    using grid_cell_ok [OF assms(1) l c] by (simp add: nth_cell_def)
qed

lemma place_of:
  assumes "grid_wf g" "has_line g (row p)" "col p < g_columns g"
  shows "\<exists>i < cell_total g. place g i = p"
proof -
  let ?r = "nat (row p + int (grid_history g))" and ?w = "g_columns g"
  have r: "int ?r = row p + int (grid_history g)" "?r < grid_history g + g_lines g"
    using assms(2) by (auto simp: has_line_def)
  have "?r * ?w + col p < Suc ?r * ?w" using assms(3) by simp
  also have "\<dots> \<le> cell_total g" unfolding cell_total_def using r(2) by (intro mult_le_mono1) simp
  finally have "?r * ?w + col p < cell_total g" .
  moreover have "place g (?r * ?w + col p) = p" using assms(3) r(1) by (cases p) (simp add: place_def)
  ultimately show ?thesis by blast
qed

lemma place_step:
  assumes "0 < g_columns g"
  shows "place g (Suc i) = (if col (place g i) = g_columns g - 1 then Pos (row (place g i) + 1) 0
    else Pos (row (place g i)) (col (place g i) + 1))"
proof (cases "i mod g_columns g = g_columns g - 1")
  case True
  then have "Suc i mod g_columns g = 0" "Suc i div g_columns g = Suc (i div g_columns g)"
    using assms by (auto simp: mod_Suc div_Suc)
  with True show ?thesis by (simp add: place_def)
next
  case False
  then have "Suc (i mod g_columns g) \<noteq> g_columns g" using assms by auto
  then have "Suc i mod g_columns g = Suc (i mod g_columns g)" "Suc i div g_columns g = i div g_columns g"
    by (auto simp: mod_Suc div_Suc)
  with False show ?thesis by (simp add: place_def)
qed

lemma place_le_iff:
  assumes "0 < g_columns g"
  shows "place g j \<le> place g i \<longleftrightarrow> j \<le> i"
proof -
  let ?w = "g_columns g"
  have "i div ?w * ?w + i mod ?w = i" "j div ?w * ?w + j mod ?w = j" by simp_all
  moreover have "j div ?w < i div ?w \<Longrightarrow> j < i" "i div ?w < j div ?w \<Longrightarrow> i < j"
    by (meson div_le_mono not_le)+
  ultimately have "j \<le> i \<longleftrightarrow> j div ?w < i div ?w \<or> j div ?w = i div ?w \<and> j mod ?w \<le> i mod ?w"
    by (metis add_le_cancel_left less_or_eq_imp_le linorder_cases linorder_not_less)
  then show ?thesis by (auto simp: place_def less_eq_pos_def less_pos_def pos_le_def pos_lt_def)
qed

definition last_place :: "grid \<Rightarrow> pos" where
  "last_place g = place g (cell_total g - 1)"

lemma grid_ends:
  assumes "grid_wf g"
  shows "last_column (grid_dims g) = Some (g_columns g - 1)" "0 < g_columns g" "0 < cell_total g"
    "iter_from_end g = Some (last_place g)" "Pos (topmost_line (grid_dims g)) 0 = place g 0"
proof -
  have w: "0 < g_columns g" "0 < g_lines g" using assms by (simp_all add: grid_wf_def)
  then show lc: "last_column (grid_dims g) = Some (g_columns g - 1)" "0 < g_columns g" "0 < cell_total g"
    by (simp_all add: last_column_def usub_def grid_dims_def cell_total_def)
  let ?n = "grid_history g + g_lines g" and ?w = "g_columns g"
  have "cell_total g - 1 = (?n - 1) * ?w + (?w - 1)"
    using w by (cases ?n) (simp_all add: cell_total_def)
  moreover have "((?n - 1) * ?w + (?w - 1)) div ?w = ?n - 1" "((?n - 1) * ?w + (?w - 1)) mod ?w = ?w - 1"
    using w by (simp_all only: div_mult_self3 mod_mult_self3 div_less mod_less diff_less zero_less_one add_0_right)
  ultimately have "(cell_total g - 1) div ?w = ?n - 1" "(cell_total g - 1) mod ?w = ?w - 1" by simp_all
  then show "iter_from_end g = Some (last_place g)"
    using lc(1) w by (simp add: last_place_def iter_from_end_def place_def bottommost_line_def grid_dims_def)
  show "Pos (topmost_line (grid_dims g)) 0 = place g 0"
    by (simp add: place_def topmost_line_def grid_history_def)
qed

lemma iter_next_place:
  assumes "grid_wf g" "i < cell_total g"
  shows "iter_next g (last_place g) (place g i) =
    Some (if Suc i < cell_total g then Some (place g (Suc i), nth_cell g (Suc i)) else None)"
proof (cases "Suc i < cell_total g")
  case True
  then show ?thesis
    using place_ok(3) [OF assms(1) True] place_step [of g i] place_le_iff [of g "cell_total g - 1" i] grid_ends [OF assms(1)]
    by (auto simp: iter_next_def last_place_def)
next
  case False
  then have "place g (cell_total g - 1) \<le> place g i" using place_le_iff [of g "cell_total g - 1" i] grid_ends(2) [OF assms(1)] by auto
  with False show ?thesis by (simp add: iter_next_def last_place_def)
qed

lemma iter_prev_place:
  assumes "grid_wf g" "i < cell_total g"
  shows "iter_prev g (place g i) = Some (case i of 0 \<Rightarrow> None | Suc k \<Rightarrow> Some (place g k, nth_cell g k))"
proof (cases i)
  case 0
  then show ?thesis using grid_ends [OF assms(1)] by (simp add: iter_prev_def)
next
  case (Suc k)
  have w: "0 < g_columns g" by (rule grid_ends(2) [OF assms(1)])
  have ne: "place g i \<noteq> place g 0" using place_le_iff [OF w, of i 0] Suc by force
  have stepped: "(if col (place g i) = 0 then Pos (row (place g i) - 1) (g_columns g - 1)
      else Pos (row (place g i)) (col (place g i) - 1)) = place g k"
    using place_step [OF w, of k] w unfolding Suc by (cases "place g k") auto
  show ?thesis
    using ne stepped place_ok(3) [OF assms(1), of k] assms(2) grid_ends(1,5) [OF assms(1)] unfolding Suc
    by (auto simp: iter_prev_def Let_def split: if_splits)
qed

lemma ahead_rec:
  "ahead g True i = (if Suc i < cell_total g then Suc i # ahead g True (Suc i) else [])"
  "ahead g False i = (case i of 0 \<Rightarrow> [] | Suc k \<Rightarrow> k # ahead g False k)"
  by (simp_all add: ahead_def upt_conv_Cons split: nat.split)

lemma ahead_step:
  assumes "grid_wf g" "i < cell_total g"
  shows "(if forward then iter_next g (last_place g) (place g i) else iter_prev g (place g i)) =
    Some (case ahead g forward i of [] \<Rightarrow> None | k # ks \<Rightarrow> Some (place g k, nth_cell g k))"
    and "ahead g forward i = k # ks \<Longrightarrow> ks = ahead g forward k \<and> k < cell_total g"
  using iter_next_place [OF assms] iter_prev_place [OF assms] assms(2)
  by (cases forward; auto simp: ahead_rec(1) [of g i] ahead_rec(2) [of g i] split: nat.splits if_splits)+

subsection \<open>Brackets\<close>

fun partner :: "rchar \<Rightarrow> rchar \<Rightarrow> int \<Rightarrow> (nat \<times> rchar) list \<Rightarrow> nat option" where
  \<comment> \<open>the search on a list of numbered characters\<close>
  "partner a b skip [] = None"
| "partner a b skip ((k, c) # cs) =
     (if c = b \<and> skip = 0 then Some k
      else partner a b (if c = a then skip + 1 else if c = b then skip - 1 else skip) cs)"

definition chars_ahead :: "grid \<Rightarrow> bool \<Rightarrow> nat \<Rightarrow> (nat \<times> rchar) list" where
  "chars_ahead g forward i = map (\<lambda>k. (k, sq_c (nth_cell g k))) (ahead g forward i)"

lemma bracket_loop_ahead:
  assumes "grid_wf g" "i < cell_total g"
  shows "bracket_loop g forward a b (last_place g) skip (place g i) =
    Some (map_option (place g) (partner a b skip (chars_ahead g forward i)))"
  using assms(2)
proof (induction "length (ahead g forward i)" arbitrary: i skip)
  case 0
  with ahead_step(1) [OF assms(1) 0(2), of forward] show ?case
    by (subst bracket_loop.simps) (simp add: chars_ahead_def)
next
  case (Suc n)
  then obtain k ks where k: "ahead g forward i = k # ks" by (cases "ahead g forward i") auto
  with ahead_step(2) [OF assms(1) Suc.prems k] have ks: "ks = ahead g forward k" "k < cell_total g" by simp_all
  have IH: "bracket_loop g forward a b (last_place g) skip' (place g k) =
      Some (map_option (place g) (partner a b skip' (chars_ahead g forward k)))" for skip'
    using Suc.hyps(1) [OF _ ks(2)] Suc.hyps(2) k ks(1) by simp
  have "chars_ahead g forward i = (k, sq_c (nth_cell g k)) # chars_ahead g forward k"
    using k ks(1) by (simp add: chars_ahead_def)
  then show ?case
    using ahead_step(1) [OF assms(1) Suc.prems, of forward] k
    by (subst bracket_loop.simps) (simp add: IH)
qed

definition closes :: "rchar \<Rightarrow> rchar \<Rightarrow> nat \<Rightarrow> rchar list \<Rightarrow> bool" where
  \<comment> \<open>the text closes \<open>d\<close> open brackets and all of its own, and never one more\<close>
  "closes a b d cs \<longleftrightarrow> (\<forall>n. count_list (take n cs) b \<le> count_list (take n cs) a + d) \<and> count_list cs b = count_list cs a + d"

lemma closes_Nil: "closes a b d [] \<longleftrightarrow> d = 0"
  by (auto simp: closes_def)

lemma closes_Cons:
  assumes "a \<noteq> b"
  shows "closes a b d (c # cs) \<longleftrightarrow>
    (if c = a then closes a b (Suc d) cs else if c = b then 0 < d \<and> closes a b (d - 1) cs else closes a b d cs)"
proof -
  have all: "(\<forall>n. P n) \<longleftrightarrow> P 0 \<and> (\<forall>n. P (Suc n))" for P :: "nat \<Rightarrow> bool"
    by (metis nat.exhaust)
  have pos: "0 < d" if "\<forall>n. Suc (count_list (take n cs) b) \<le> count_list (take n cs) a + d"
    using that [THEN spec, of 0] by simp
  show ?thesis
    unfolding closes_def using assms pos
    by (subst all, cases d) (auto simp: Suc_le_eq less_Suc_eq_le)
qed

lemma partner_iff:
  assumes "a \<noteq> b"
  shows "partner a b (int d) cs = Some k \<longleftrightarrow>
    (\<exists>ys zs. cs = ys @ (k, b) # zs \<and> closes a b d (map snd ys))"
proof (induction cs arbitrary: d)
  case (Cons x cs)
  obtain j c where x: "x = (j, c)" by (cases x)
  have split: "(\<exists>ys zs. x # cs = ys @ (k, b) # zs \<and> closes a b d (map snd ys)) \<longleftrightarrow>
      (d = 0 \<and> x = (k, b)) \<or> (\<exists>ys zs. cs = ys @ (k, b) # zs \<and> closes a b d (c # map snd ys))" (is "?l \<longleftrightarrow> ?r")
  proof
    assume ?l
    then obtain ys zs where "x # cs = ys @ (k, b) # zs" "closes a b d (map snd ys)" by blast
    then show ?r by (cases ys) (auto simp: x closes_Nil)
  next
    assume ?r
    then show ?l
    proof
      assume "d = 0 \<and> x = (k, b)"
      then have "x # cs = [] @ (k, b) # cs \<and> closes a b d (map snd [])" by (simp add: closes_Nil)
      then show ?l by blast
    next
      assume "\<exists>ys zs. cs = ys @ (k, b) # zs \<and> closes a b d (c # map snd ys)"
      then obtain ys zs where "cs = ys @ (k, b) # zs" "closes a b d (c # map snd ys)" by blast
      then have "x # cs = (x # ys) @ (k, b) # zs \<and> closes a b d (map snd (x # ys))" by (simp add: x)
      then show ?l by blast
    qed
  qed
  consider "c = b" "d = 0" | "c = b" "0 < d" | "c = a" | "c \<noteq> a" "c \<noteq> b" by auto
  then show ?case
  proof cases
    case 1
    then show ?thesis unfolding split closes_Cons [OF assms] using assms by (auto simp: x)
  next
    case 2
    then have "int (d - 1) = int d - 1" by (simp add: of_nat_diff)
    with 2 Cons [of "d - 1"] assms show ?thesis unfolding split closes_Cons [OF assms] by (simp add: x)
  next
    case 3
    with Cons [of "Suc d"] assms show ?thesis unfolding split closes_Cons [OF assms] by (simp add: x add.commute)
  next
    case 4
    with Cons [of d] show ?thesis unfolding split closes_Cons [OF assms] by (simp add: x)
  qed
qed simp

lemma pairs_differ: "bracket_of c BRACKET_PAIRS = Some (forward, b) \<Longrightarrow> c \<noteq> b"
  by (auto simp: BRACKET_PAIRS_def split: if_splits)

lemma partner_ahead:
  assumes "a \<noteq> b"
  shows "partner a b 0 (chars_ahead g forward i) = Some k \<longleftrightarrow>
    (\<exists>ks rest. ahead g forward i = ks @ k # rest \<and> sq_c (nth_cell g k) = b \<and>
       closes a b 0 (map (\<lambda>j. sq_c (nth_cell g j)) ks))"
proof -
  let ?f = "\<lambda>k. (k, sq_c (nth_cell g k))"
  have snd: "map snd (map ?f ks) = map (\<lambda>j. sq_c (nth_cell g j)) ks" for ks
    by (simp add: comp_def)
  have "(\<exists>ys zs. map ?f (ahead g forward i) = ys @ (k, b) # zs \<and> closes a b 0 (map snd ys)) \<longleftrightarrow>
      (\<exists>ks rest. ahead g forward i = ks @ k # rest \<and> sq_c (nth_cell g k) = b \<and> closes a b 0 (map snd (map ?f ks)))"
    (is "?l \<longleftrightarrow> ?r")
  proof
    assume ?l
    then obtain ys zs where m: "map ?f (ahead g forward i) = ys @ (k, b) # zs" and c: "closes a b 0 (map snd ys)" by blast
    obtain us vs where uv: "ahead g forward i = us @ vs" "ys = map ?f us" "(k, b) # zs = map ?f vs"
      using m unfolding map_eq_append_conv by (elim exE conjE) (rule that)
    obtain rest where "vs = k # rest" "sq_c (nth_cell g k) = b" using uv(3) by (cases vs) simp_all
    with uv(1) c show ?r unfolding uv(2) by blast
  next
    assume ?r
    then obtain ks rest where "ahead g forward i = ks @ k # rest" "sq_c (nth_cell g k) = b" "closes a b 0 (map snd (map ?f ks))"
      by blast
    then have "map ?f (ahead g forward i) = map ?f ks @ (k, b) # map ?f rest \<and> closes a b 0 (map snd (map ?f ks))" by simp
    then show ?l by blast
  qed
  moreover have "partner a b 0 (chars_ahead g forward i) = Some k \<longleftrightarrow> ?l"
    using partner_iff [OF assms, of 0 "chars_ahead g forward i" k] by (simp add: chars_ahead_def)
  ultimately show ?thesis unfolding snd by blast
qed

lemma place_inject: "0 < g_columns g \<Longrightarrow> place g j = place g i \<longleftrightarrow> j = i"
  using place_le_iff [of g j i] place_le_iff [of g i j] by fastforce

text \<open>C14. Bracket matching finds the partner: with a bracket under the cursor the search returns, and what it
  returns is the cell ahead, to the right of an opening bracket and to the left of a closing one, that holds the
  partner and is reached with every bracket of the kind in between closed; if no cell is like that, it finds
  nothing.\<close>

theorem bracket_matches:
  assumes "grid_wf g" "i < cell_total g" "a = sq_c (nth_cell g i)" "bracket_of a BRACKET_PAIRS = Some (forward, b)"
  shows "\<exists>r. bracket_search g (place g i) = Some r \<and>
    (\<forall>k < cell_total g. r = Some (place g k) \<longleftrightarrow>
      (\<exists>ks rest. ahead g forward i = ks @ k # rest \<and> sq_c (nth_cell g k) = b \<and>
        closes a b 0 (map (\<lambda>j. sq_c (nth_cell g j)) ks)))"
proof -
  let ?r = "partner a b 0 (chars_ahead g forward i)"
  have "bracket_search g (place g i) = Some (map_option (place g) ?r)"
    using bracket_loop_ahead [OF assms(1,2), of forward a b 0] place_ok(3) [OF assms(1,2)] grid_ends(4) [OF assms(1)] assms(3,4)
    by (simp add: bracket_search_def)
  moreover have "map_option (place g) ?r = Some (place g k) \<longleftrightarrow> ?r = Some k" for k
    using place_inject [OF grid_ends(2) [OF assms(1)]] by auto
  ultimately show ?thesis using partner_ahead [OF pairs_differ [OF assms(4)], of g forward i] by auto
qed

theorem bracket_matches_witness:
  "\<exists>u. foldM (input plain_env) (fresh 24 80) [0x28, 0x78, 0x29] = Some u \<and>
     bracket_search (cgrid u) (Pos 0 0) = Some (Some (Pos 0 2))"
proof -
  obtain u where u: "foldM (input plain_env) (fresh 24 80) [0x28, 0x78, 0x29] = Some u" "term_inv 24 80 u"
    "line_at u 0 = map (written_cell (fresh 24 80)) [0x28, 0x78, 0x29] @ replicate 77 0"
    using typing_on_fresh [of 24 80 "[0x28, 0x78, 0x29]" plain_env]
    by (auto simp: plain_width PLACEHOLDER_def simp del: foldM.simps)
  note chars = fieldsD(1) [OF fresh_cell [of 24 80]]
  let ?g = "cgrid u"
  have g: "grid_wf ?g" "g_columns ?g = 80" "0 < g_columns ?g" "has_line ?g 0"
    using term_invD [OF u(2)] screen_has_line [OF u(2), of 0] by simp_all
  obtain i where i: "i < cell_total ?g" "place ?g i = Pos 0 0" using place_of [OF g(1), of "Pos 0 0"] g by auto
  obtain k where k: "k < cell_total ?g" "place ?g k = Pos 0 2" using place_of [OF g(1), of "Pos 0 2"] g by auto
  have p: "place ?g (Suc i) = Pos 0 1" "place ?g (Suc (Suc i)) = Pos 0 2"
    using place_step [OF g(3)] i(2) g(2) by simp_all
  with k have ki: "k = Suc (Suc i)" using place_inject [OF g(3)] by metis
  have c: "sq_c (nth_cell ?g i) = 0x28" "sq_c (nth_cell ?g (Suc i)) = 0x78" "sq_c (nth_cell ?g k) = 0x29"
    using u(3) unfolding nth_cell_def ki p i by (simp_all add: chars)
  have "ahead ?g True i = [Suc i] @ k # ahead ?g True k"
    using k(1) unfolding ki by (simp add: ahead_rec(1) [of ?g i] ahead_rec(1) [of ?g "Suc i"])
  moreover have "closes 0x28 0x29 0 (map (\<lambda>j. sq_c (nth_cell ?g j)) [Suc i])"
    by (simp add: closes_Cons closes_Nil c(2))
  moreover have "bracket_of 0x28 BRACKET_PAIRS = Some (True, 0x29)" by (simp add: BRACKET_PAIRS_def)
  ultimately have "bracket_search ?g (place ?g i) = Some (Some (place ?g k))"
    using bracket_matches [OF g(1) i(1) c(1) [symmetric], of True "0x29"] k(1) c(3) by blast
  with u(1) show ?thesis unfolding i(2) k(2) by blast
qed

subsection \<open>Lines\<close>

lemma wraps_eq:
  assumes "grid_wf g" "has_line g l"
  shows "wraps g l = Some (sq_wrapline (last (grid_line g l)))"
proof -
  have w: "0 < g_columns g" and len: "length (grid_line g l) = g_columns g"
    using assms grid_line_length by (auto simp: grid_wf_def)
  then have "grid_line g l \<noteq> []" by auto
  with len w show ?thesis
    using grid_cell_ok [of g "Pos l (g_columns g - 1)"] assms grid_ends(1) [OF assms(1)]
    by (simp add: wraps_def last_conv_nth)
qed

definition wrapped :: "grid \<Rightarrow> int \<Rightarrow> bool" where
  \<comment> \<open>the line goes on in the next one\<close>
  "wrapped g l \<longleftrightarrow> sq_wrapline (last (grid_line g l))"

lemma row_left_ok:
  assumes "grid_wf g" "has_line g l"
  shows "\<exists>k. row_left_loop g l = Some k \<and> - int (grid_history g) \<le> k \<and> k \<le> l \<and> (\<forall>j \<in> {k..l - 1}. wrapped g j) \<and>
    (k = - int (grid_history g) \<or> \<not> wrapped g (k - 1))"
  using assms(2)
proof (induction "nat (l + int (grid_history g))" arbitrary: l)
  case 0
  then have "l = topmost_line (grid_dims g)" by (auto simp: has_line_def topmost_line_def grid_history_def)
  then show ?case by (subst row_left_loop.simps) (auto simp: topmost_line_def grid_history_def)
next
  case (Suc n)
  have top: "topmost_line (grid_dims g) = - int (grid_history g)" by (simp add: topmost_line_def grid_history_def)
  have l: "- int (grid_history g) < l" "has_line g (l - 1)" "n = nat (l - 1 + int (grid_history g))"
    using Suc(2,3) by (auto simp: has_line_def)
  show ?case
  proof (cases "wrapped g (l - 1)")
    case True
    obtain k where k: "row_left_loop g (l - 1) = Some k" "- int (grid_history g) \<le> k" "k \<le> l - 1"
      "\<forall>j \<in> {k..l - 1 - 1}. wrapped g j" "k = - int (grid_history g) \<or> \<not> wrapped g (k - 1)"
      using Suc(1) [OF l(3,2)] by blast
    have "\<forall>j \<in> {k..l - 1}. wrapped g j"
    proof
      fix j assume "j \<in> {k..l - 1}"
      then show "wrapped g j" using k(4) True by (cases "j = l - 1") auto
    qed
    with k True wraps_eq [OF assms(1) l(2)] l(1) show ?thesis
      by (subst row_left_loop.simps) (simp add: top wrapped_def)
  next
    case False
    with wraps_eq [OF assms(1) l(2)] l(1) show ?thesis
      by (subst row_left_loop.simps) (simp add: top wrapped_def)
  qed
qed

lemma row_right_ok:
  assumes "grid_wf g" "has_line g l"
  shows "\<exists>k. row_right_loop g l = Some k \<and> l \<le> k \<and> k < int (g_lines g) \<and> (\<forall>j \<in> {l..k - 1}. wrapped g j) \<and>
    (k = int (g_lines g) - 1 \<or> \<not> wrapped g k)"
  using assms(2)
proof (induction "nat (int (g_lines g) - 1 - l)" arbitrary: l)
  case 0
  then show ?case by (subst row_right_loop.simps) (auto simp: has_line_def)
next
  case (Suc n)
  have l: "l + 1 < int (g_lines g)" "has_line g (l + 1)" "n = nat (int (g_lines g) - 1 - (l + 1))"
    using Suc(2,3) by (auto simp: has_line_def)
  show ?case
  proof (cases "wrapped g l")
    case True
    obtain k where k: "row_right_loop g (l + 1) = Some k" "l + 1 \<le> k" "k < int (g_lines g)"
      "\<forall>j \<in> {l + 1..k - 1}. wrapped g j" "k = int (g_lines g) - 1 \<or> \<not> wrapped g k"
      using Suc(1) [OF l(3,2)] by blast
    have "\<forall>j \<in> {l..k - 1}. wrapped g j"
    proof
      fix j assume "j \<in> {l..k - 1}"
      then show "wrapped g j" using k(4) True by (cases "j = l") auto
    qed
    with k True wraps_eq [OF assms(1) Suc.prems] l(1) show ?thesis
      by (subst row_right_loop.simps) (simp add: wrapped_def)
  next
    case False
    with wraps_eq [OF assms(1) Suc.prems] l(1) Suc.prems show ?thesis
      by (subst row_right_loop.simps) (auto simp: wrapped_def has_line_def)
  qed
qed

end
