(* ===== verification/CopyProps.thy ===== *)
theory CopyProps
  imports CopyText SearchProps
begin

text \<open>
  What copying gives: rows that wrap are joined to lines, blanks at the end of a line are dropped, and so are
  blank lines at the end.
\<close>

subsection \<open>The text of a line\<close>

definition blank_char :: "rchar \<Rightarrow> bool" where
  "blank_char c \<longleftrightarrow> c = 0 \<or> c = 0x20"

definition printed :: "rstring \<Rightarrow> rstring" where
  \<comment> \<open>empty cells are spaces, and the spaces at the end are dropped\<close>
  "printed s = rev (dropWhile (\<lambda>c. c = 0x20) (rev (map (\<lambda>c. if c = 0 then 0x20 else c) s)))"

fun emit :: "nat \<Rightarrow> rstring \<Rightarrow> rstring \<times> nat" where
  \<comment> \<open>the code's way: what is written after so many blanks, and the blanks held back\<close>
  "emit b [] = ([], b)"
| "emit b (c # cs) =
     (if blank_char c then emit (Suc b) cs
      else (replicate b 0x20 @ c # fst (emit 0 cs), snd (emit 0 cs)))"

lemma emit_append: "emit b (xs @ ys) = (fst (emit b xs) @ fst (emit (snd (emit b xs)) ys), snd (emit (snd (emit b xs)) ys))"
  by (induction b xs rule: emit.induct) auto

lemma printed_content: "\<not> blank_char c \<Longrightarrow> printed (xs @ c # ys) = map (\<lambda>c. if c = 0 then 0x20 else c) xs @ c # printed ys"
  by (simp add: printed_def blank_char_def dropWhile_append3)

lemma printed_blank: "\<forall>c \<in> set xs. blank_char c \<Longrightarrow> printed xs = []"
  by (auto simp: printed_def blank_char_def dropWhile_eq_Nil_conv)

lemma emit_printed: "fst (emit b xs) = printed (replicate b 0x20 @ xs)"
proof (induction b xs rule: emit.induct)
  case (1 b)
  show ?case by (simp add: printed_blank blank_char_def)
next
  case (2 b c cs)
  show ?case
  proof (cases "blank_char c")
    case True
    have "printed (replicate b 0x20 @ c # cs) = printed (replicate (Suc b) 0x20 @ cs)"
      using True by (auto simp: printed_def blank_char_def replicate_app_Cons_same)
    with 2 True show ?thesis by simp
  next
    case False
    with 2 show ?thesis by (simp add: printed_content)
  qed
qed

lemma emit_0: "fst (emit 0 xs) = printed xs"
  using emit_printed [of 0 xs] by simp

lemma emit_blank: "\<forall>c \<in> set xs. blank_char c \<Longrightarrow> emit b xs = ([], b + length xs)"
  by (induction xs arbitrary: b) auto

lemma emit_content: "\<not> (\<forall>c \<in> set xs. blank_char c) \<Longrightarrow> fst (emit b xs) \<noteq> []"
  by (induction xs arbitrary: b) auto

subsection \<open>Rows\<close>

definition plain_cell :: "square \<Rightarrow> bool" where
  \<comment> \<open>no combining characters, links or images, no tab and no line feed\<close>
  "plain_cell c \<longleftrightarrow> \<not> sq_has_extras c \<and> sq_c c \<noteq> 9 \<and> sq_c c \<noteq> 0x0A"

definition cell_chars :: "square list \<Rightarrow> rstring" where
  "cell_chars cs = map sq_c (filter (\<lambda>c. \<not> any_spacer c) cs)"

lemma append_cell_plain:
  assumes "row_index r k = Some c" "plain_cell c"
  shows "append_cell t r (text, b, False, h) k =
    Some (text @ fst (emit b (cell_chars [c])), snd (emit b (cell_chars [c])), False,
      h \<or> \<not> (\<forall>c \<in> set (cell_chars [c]). blank_char c))"
  using assms
  by (auto simp: append_cell_def plain_cell_def cell_chars_def blank_char_def sq_has_extras_def)

lemma append_cells_loop:
  assumes "\<forall>c \<in> set (cells r). plain_cell c" "n \<le> length (cells r)"
  shows "foldM (append_cell t r) (text, b, False, False) [0..<n] =
    Some (text @ fst (emit b (cell_chars (take n (cells r)))), snd (emit b (cell_chars (take n (cells r)))), False,
      \<not> (\<forall>c \<in> set (cell_chars (take n (cells r))). blank_char c))"
  using assms(2)
proof (induction n)
  case (Suc n)
  then have n: "row_index r n = Some (cells r ! n)" "plain_cell (cells r ! n)" "n < length (cells r)"
    using assms(1) by (auto simp: row_index_def idx_def)
  have "cell_chars (take (Suc n) (cells r)) = cell_chars (take n (cells r)) @ cell_chars [cells r ! n]"
    using n(3) by (simp add: take_Suc_conv_app_nth cell_chars_def)
  with Suc append_cell_plain [OF n(1,2)] show ?case
    by (auto simp: foldM_append emit_append)
qed (simp add: cell_chars_def)

definition row_chars :: "grid \<Rightarrow> int \<Rightarrow> rstring" where
  "row_chars g l = cell_chars (grid_line g l)"

definition copyable :: "grid \<Rightarrow> int \<Rightarrow> bool" where
  \<comment> \<open>a row of plain cells that starts with a character, says something if it wraps, and ends with a place
     holder for a wide character only if the row below goes on\<close>
  "copyable g l \<longleftrightarrow> (\<forall>c \<in> set (grid_line g l). plain_cell c) \<and> sq_wide (hd (grid_line g l)) \<noteq> Spacer \<and>
     (wrapped g l \<longrightarrow> \<not> (\<forall>c \<in> set (row_chars g l). blank_char c)) \<and>
     (wrapped g l \<and> l + 1 < int (g_lines g) \<or> sq_wide (last (grid_line g l)) \<noteq> LeadingSpacer)"

lemma cell_chars_cut:
  assumes "\<forall>i. n \<le> i \<and> i < length cs \<longrightarrow> \<not> content_cell (cs ! i)"
  shows "\<exists>zs. cell_chars cs = cell_chars (take n cs) @ zs \<and> (\<forall>c \<in> set zs. blank_char c)"
proof -
  have "\<forall>c \<in> set (cell_chars (drop n cs)). blank_char c"
  proof
    fix c assume "c \<in> set (cell_chars (drop n cs))"
    then obtain q where q: "q \<in> set (drop n cs)" "c = sq_c q" by (auto simp: cell_chars_def)
    then obtain i where i: "i < length (drop n cs)" "q = drop n cs ! i" by (auto simp: in_set_conv_nth)
    then have "\<not> content_cell (cs ! (n + i))" using assms by auto
    with i q show "blank_char c" by (simp add: content_cell_def blank_char_def)
  qed
  moreover have "cell_chars cs = cell_chars (take n cs) @ cell_chars (drop n cs)"
    by (simp add: cell_chars_def flip: map_append filter_append)
  ultimately show ?thesis by blast
qed

lemma emit_cut: "\<forall>c \<in> set zs. blank_char c \<Longrightarrow> fst (emit b (xs @ zs)) = fst (emit b xs)"
  by (simp add: emit_append emit_blank)

lemma append_cells_row:
  assumes "grid_wf (cgrid t)" "has_line (cgrid t) l" "copyable (cgrid t) l"
    and "fin \<longrightarrow> \<not> (wrapped (cgrid t) l \<and> l + 1 < int (g_lines (cgrid t)))"
  shows "\<exists>k. append_cells t [] l (0, g_columns (cgrid t) - 1) fin b =
      Some (fst (emit b (row_chars (cgrid t) l)), k, \<not> (\<forall>c \<in> set (row_chars (cgrid t) l). blank_char c)) \<and>
    (wrapped (cgrid t) l \<longrightarrow> k = snd (emit b (row_chars (cgrid t) l)))"
proof -
  let ?g = "cgrid t" and ?r = "row_at (raw (cgrid t)) l"
  have w: "0 < g_columns ?g" and len: "length (cells ?r) = g_columns ?g"
    using assms(1) grid_line_length [OF assms(1,2)] by (simp_all add: grid_wf_def grid_line_def)
  have st: "storage_index (raw ?g) l = Some ?r"
    using storage_index_ok has_line_in_store [OF assms(1)] assms(1,2) by (auto simp: grid_wf_def)
  have ne: "cells ?r \<noteq> []" using w len by auto
  have c: "\<forall>c \<in> set (cells ?r). plain_cell c" "sq_wide (cells ?r ! 0) \<noteq> Spacer"
    "\<not> wrapped ?g l \<or> \<not> l + 1 < int (g_lines ?g) \<longrightarrow> sq_wide (cells ?r ! (g_columns ?g - 1)) \<noteq> LeadingSpacer"
    using assms(3) ne len by (auto simp: copyable_def grid_line_def hd_conv_nth last_conv_nth)
  obtain n where n: "line_length ?r = Some n" "n \<le> g_columns ?g" "wrapped ?g l \<longrightarrow> n = g_columns ?g"
    "\<exists>zs. row_chars ?g l = cell_chars (take n (cells ?r)) @ zs \<and> (\<forall>c \<in> set zs. blank_char c)"
    using line_length_spec [OF ne] cell_chars_cut [of _ "cells ?r"] len
    by (auto simp: wrapped_def row_chars_def grid_line_def split: if_splits)
  obtain zs where zs: "row_chars ?g l = cell_chars (take n (cells ?r)) @ zs" "\<forall>c \<in> set zs. blank_char c" using n(4) by blast
  let ?e = "emit b (cell_chars (take n (cells ?r)))"
  have loop: "foldM (append_cell t ?r) ([], b, False, False) [0..<n] =
      Some (fst ?e, snd ?e, False, \<not> (\<forall>c \<in> set (cell_chars (take n (cells ?r))). blank_char c))"
    using append_cells_loop [OF c(1), of n t "[]" b] n(2) len by simp
  have first: "row_index ?r 0 = Some (cells ?r ! 0)" and final: "row_index ?r (g_columns ?g - 1) = Some (cells ?r ! (g_columns ?g - 1))"
    using w len by (simp_all add: row_index_def idx_def)
  have "append_cells t [] l (0, g_columns ?g - 1) fin b =
      Some (fst ?e, snd ?e, \<not> (\<forall>c \<in> set (cell_chars (take n (cells ?r))). blank_char c))"
    using st n(1,2) first final w c(2,3) assms(4) loop
    by (cases fin) (auto simp: append_cells_def Let_def min_def)
  moreover have "fst ?e = fst (emit b (row_chars ?g l))" using zs by (simp add: emit_cut)
  moreover have "(\<forall>c \<in> set (cell_chars (take n (cells ?r))). blank_char c) = (\<forall>c \<in> set (row_chars ?g l). blank_char c)"
    using zs by auto
  moreover have "wrapped ?g l \<longrightarrow> snd ?e = snd (emit b (row_chars ?g l))"
    using n(3) len by (auto simp: row_chars_def grid_line_def)
  ultimately show ?thesis by auto
qed

subsection \<open>Lines\<close>

fun copied :: "rstring list \<Rightarrow> rstring" where
  \<comment> \<open>the lines with newlines between them, without the empty lines at the end\<close>
  "copied [] = []"
| "copied (l # ls) = (if \<forall>m \<in> set ls. m = [] then l else l @ 0x0A # copied ls)"

fun logical_lines :: "(rstring \<times> bool) list \<Rightarrow> rstring list" where
  \<comment> \<open>rows, each with its characters and whether it goes on in the next one\<close>
  "logical_lines [] = []"
| "logical_lines [(cs, w)] = [cs]"
| "logical_lines ((cs, w) # (ds, v) # rows) =
     (if w then logical_lines ((cs @ ds, v) # rows) else cs # logical_lines ((ds, v) # rows))"

fun pend :: "rstring list \<Rightarrow> nat" where
  \<comment> \<open>the newlines to write before the next line\<close>
  "pend [] = 0"
| "pend (l # ls) = (if \<forall>m \<in> set ls. m = [] then Suc (length ls) else pend ls)"

lemma pend_empty: "\<forall>m \<in> set ls. m = [] \<Longrightarrow> pend ls = length ls"
  by (induction ls) auto

lemma copied_empty: "\<forall>m \<in> set ls. m = [] \<Longrightarrow> copied ls = []"
  by (induction ls) auto

lemma copied_snoc: "copied (ls @ [y]) = copied ls @ (if y = [] then [] else replicate (pend ls) 0x0A @ y)"
  by (induction ls) (auto simp: copied_empty pend_empty)

lemma pend_snoc: "pend (ls @ [y]) = (if y = [] then Suc (pend ls) else 1)"
  by (induction ls) (auto simp: pend_empty)

lemma logical_lines_Nil: "logical_lines rows = [] \<longleftrightarrow> rows = []"
  by (induction rows rule: logical_lines.induct) auto

lemma logical_lines_snoc:
  "logical_lines (rows @ [(cs, w)]) =
     (if rows \<noteq> [] \<and> snd (last rows) then butlast (logical_lines rows) @ [last (logical_lines rows) @ cs]
      else logical_lines rows @ [cs])"
  by (induction rows rule: logical_lines.induct) (auto simp: logical_lines_Nil)

lemma printed_append: "printed (xs @ ys) = fst (emit 0 xs) @ fst (emit (snd (emit 0 xs)) ys)"
  by (simp add: emit_append flip: emit_0)

lemma printed_empty: "printed xs = [] \<longleftrightarrow> (\<forall>c \<in> set xs. blank_char c)"
  using emit_content [of xs 0] printed_blank by (auto simp: emit_0)

definition copy_step :: "(rstring \<times> bool) \<Rightarrow> bool \<Rightarrow> rstring \<times> nat \<times> nat \<Rightarrow> rstring \<times> nat \<times> nat \<Rightarrow> bool" where
  \<comment> \<open>what \<open>bounds_line\<close> does with a row; the blanks do not matter where the row does not go on\<close>
  "copy_step r continued s s' \<longleftrightarrow> (case (r, s, s') of ((cs, w), (text, br, b), (text', br', b')) \<Rightarrow>
     (let e = emit (if continued then b else 0) cs in
      if \<forall>c \<in> set cs. blank_char c then text' = text \<and> br' = br + 1
      else text' = text @ replicate br 0x0A @ fst e @ (if w then [] else [0x0A]) \<and> br' = 0 \<and> (w \<longrightarrow> b' = snd e)))"

definition copying :: "(rstring \<times> bool) list \<Rightarrow> rstring \<times> nat \<times> nat \<Rightarrow> bool" where
  \<comment> \<open>the state of the loop after these rows\<close>
  "copying rows s \<longleftrightarrow> (case s of (text, br, b) \<Rightarrow>
     (let lines = map printed (logical_lines rows); more_row = (rows \<noteq> [] \<and> snd (last rows)) in
      text = copied lines @ (if more_row then [] else replicate (pend lines - br) 0x0A) \<and>
      br \<le> pend lines \<and> pend lines \<le> br + 1 \<and>
      (more_row \<longrightarrow> br = 0 \<and> last lines \<noteq> [] \<and> b = snd (emit 0 (last (logical_lines rows))))))"

lemma copying_Nil: "copying [] ([], 0, 0)"
  by (simp add: copying_def)

lemma copying_new:
  assumes "copying rows (text, br, b)" "\<not> (rows \<noteq> [] \<and> snd (last rows))"
    and "copy_step (cs, w) False (text, br, b) s'" "w \<longrightarrow> \<not> (\<forall>c \<in> set cs. blank_char c)"
  shows "copying (rows @ [(cs, w)]) s'"
proof -
  let ?lines = "map printed (logical_lines rows)"
  have ls: "map printed (logical_lines (rows @ [(cs, v)])) = ?lines @ [printed cs]" for v
    using assms(2) by (auto simp: logical_lines_snoc)
  have ll: "last (logical_lines (rows @ [(cs, v)])) = cs" for v using assms(2) by (auto simp: logical_lines_snoc)
  have t: "text = copied ?lines @ replicate (pend ?lines - br) 0x0A" "br \<le> pend ?lines" "pend ?lines \<le> br + 1"
    using assms(1,2) by (auto simp: copying_def Let_def)
  have "replicate (pend ?lines - br) (0x0A::rchar) @ replicate br 0x0A = replicate (pend ?lines) 0x0A"
    using t(2) by (simp flip: replicate_add)
  with t assms(3,4) show ?thesis
    by (cases s') (auto simp: copying_def copy_step_def ls ll copied_snoc pend_snoc emit_0 printed_empty Let_def)
qed

lemma copying_more:
  assumes "copying rows (text, br, b)" "rows \<noteq> []" "snd (last rows)"
    and "copy_step (cs, w) True (text, br, b) s'" "w \<longrightarrow> \<not> (\<forall>c \<in> set cs. blank_char c)"
  shows "copying (rows @ [(cs, w)]) s'"
proof -
  let ?z = "last (logical_lines rows)" and ?init = "map printed (butlast (logical_lines rows))"
  have ne: "logical_lines rows \<noteq> []" using assms(2) by (simp add: logical_lines_Nil)
  have "logical_lines rows = butlast (logical_lines rows) @ [?z]" using ne by simp
  then have old: "map printed (logical_lines rows) = ?init @ [printed ?z]" by (metis map_append list.simps(8,9))
  have ls: "map printed (logical_lines (rows @ [(cs, v)])) = ?init @ [printed (?z @ cs)]"
    and ll: "last (logical_lines (rows @ [(cs, v)])) = ?z @ cs" for v
    using assms(2,3) by (simp_all add: logical_lines_snoc)
  have t: "text = copied (?init @ [printed ?z])" "br = 0" "printed ?z \<noteq> []" "b = snd (emit 0 ?z)"
    using assms(1-3) unfolding copying_def old by (auto simp: Let_def)
  have p: "printed (?z @ cs) = printed ?z @ fst (emit b cs)" using t(4) by (simp add: printed_append emit_0)
  show ?thesis
  proof (cases "\<forall>c \<in> set cs. blank_char c")
    case True
    with assms(5) have "\<not> w" "fst (emit b cs) = []" by (auto simp: emit_blank)
    with True t assms(4) p show ?thesis
      by (cases s') (auto simp: copying_def copy_step_def ls ll copied_snoc pend_snoc Let_def)
  next
    case False
    with t assms(4) p show ?thesis
      by (cases s') (auto simp: copying_def copy_step_def ls ll copied_snoc pend_snoc Let_def emit_append)
  qed
qed

definition copy_rows :: "grid \<Rightarrow> int \<Rightarrow> int \<Rightarrow> (rstring \<times> bool) list" where
  "copy_rows g s e = map (\<lambda>l. (row_chars g l, wrapped g l)) [s..e]"

lemma copy_rows_snoc: "s \<le> e \<Longrightarrow> copy_rows g s e = copy_rows g s (e - 1) @ [(row_chars g e, wrapped g e)]"
  by (simp add: copy_rows_def upto_rec2)

lemma copy_rows_last: "copy_rows g s e \<noteq> [] \<and> snd (last (copy_rows g s e)) \<longleftrightarrow> s \<le> e \<and> wrapped g e"
  by (cases "s \<le> e") (simp_all add: copy_rows_snoc, simp add: copy_rows_def)

lemma bounds_line_step:
  assumes "grid_wf (cgrid t)" "has_line (cgrid t) s" "has_line (cgrid t) l" "copyable (cgrid t) l" "s \<le> l"
    and "l = e \<longrightarrow> \<not> (wrapped (cgrid t) l \<and> l + 1 < int (g_lines (cgrid t)))" "lc = g_columns (cgrid t) - 1"
  shows "\<exists>u. bounds_line t (Pos s 0) (Pos e lc) lc st l = Some u \<and>
    copy_step (row_chars (cgrid t) l, wrapped (cgrid t) l) (s < l \<and> wrapped (cgrid t) (l - 1)) st u"
proof -
  obtain tx br b where st: "st = (tx, br, b)" by (cases st)
  define C where "C \<longleftrightarrow> s < l \<and> wrapped (cgrid t) (l - 1)"
  have wl: "wraps (cgrid t) l = Some (wrapped (cgrid t) l)"
    using wraps_eq [OF assms(1,3)] by (simp add: wrapped_def)
  have "has_line (cgrid t) (l - 1)" if "s < l" using that assms(2,3) by (auto simp: has_line_def)
  then have wp: "(if s < l then wraps (cgrid t) (l - 1) else Some False) = Some C"
    using wraps_eq [OF assms(1)] by (auto simp: wrapped_def C_def)
  obtain k where k: "append_cells t [] l (0, lc) (l = e) (if C then b else 0) =
      Some (fst (emit (if C then b else 0) (row_chars (cgrid t) l)), k, \<not> (\<forall>c \<in> set (row_chars (cgrid t) l). blank_char c))"
    "wrapped (cgrid t) l \<longrightarrow> k = snd (emit (if C then b else 0) (row_chars (cgrid t) l))"
    using append_cells_row [OF assms(1,3,4), of "l = e" "if C then b else 0"] assms(6) unfolding assms(7) by blast
  define F B where "F \<longleftrightarrow> l = e" and "B = (if C then b else 0)"
  have "bounds_line t (Pos s 0) (Pos e lc) lc st l = (do {
      (row_text, b, h) \<leftarrow> append_cells t [] l (0, lc) F B;
      if \<not> h then Some (tx, br + 1, b)
      else Some (if \<not> wrapped (cgrid t) l then (tx @ replicate br 0x0A @ row_text @ [0x0A], 0, 0)
        else (tx @ replicate br 0x0A @ row_text, 0, b)) })"
    unfolding bounds_line_def st F_def B_def by (simp add: wp wl Let_def cong: if_cong prod.case_cong)
  with k show ?thesis
    unfolding C_def [symmetric] F_def [symmetric] B_def [symmetric]
    by (simp add: copy_step_def st B_def [symmetric])
qed

lemma bounds_loop:
  assumes "grid_wf (cgrid t)" "has_line (cgrid t) s" "has_line (cgrid t) e"
    and "\<forall>l \<in> {s..e}. copyable (cgrid t) l" "\<not> (wrapped (cgrid t) e \<and> e + 1 < int (g_lines (cgrid t)))"
    and "lc = g_columns (cgrid t) - 1" "s + int n \<le> e + 1"
  shows "\<exists>u. foldM (bounds_line t (Pos s 0) (Pos e lc) lc) ([], 0, 0) [s..s + int n - 1] = Some u \<and>
    copying (copy_rows (cgrid t) s (s + int n - 1)) u"
  using assms(7)
proof (induction n)
  case 0
  then show ?case by (simp add: copying_Nil copy_rows_def)
next
  case (Suc n)
  let ?l = "s + int n"
  obtain u where u: "foldM (bounds_line t (Pos s 0) (Pos e lc) lc) ([], 0, 0) [s..?l - 1] = Some u"
    "copying (copy_rows (cgrid t) s (?l - 1)) u" using Suc by auto
  have l: "has_line (cgrid t) ?l" "copyable (cgrid t) ?l" "s \<le> ?l"
    "?l = e \<longrightarrow> \<not> (wrapped (cgrid t) ?l \<and> ?l + 1 < int (g_lines (cgrid t)))"
    using Suc.prems assms(2-5) by (auto simp: has_line_def)
  obtain v where v: "bounds_line t (Pos s 0) (Pos e lc) lc u ?l = Some v"
    "copy_step (row_chars (cgrid t) ?l, wrapped (cgrid t) ?l) (s < ?l \<and> wrapped (cgrid t) (?l - 1)) u v"
    using bounds_line_step [OF assms(1,2) l(1-4) assms(6)] by blast
  have wc: "wrapped (cgrid t) ?l \<longrightarrow> \<not> (\<forall>c \<in> set (row_chars (cgrid t) ?l). blank_char c)"
    using l(2) by (simp add: copyable_def)
  obtain tx br b where up: "u = (tx, br, b)" by (cases u)
  have "copying (copy_rows (cgrid t) s ?l) v"
  proof (cases "s \<le> ?l - 1 \<and> wrapped (cgrid t) (?l - 1)")
    case True
    with u v show ?thesis
      using copying_more [OF _ _ _ _ wc, of "copy_rows (cgrid t) s (?l - 1)" tx br b v] copy_rows_last [of "cgrid t" s "?l - 1"]
      by (simp add: up copy_rows_snoc [of s ?l])
  next
    case False
    then have "\<not> (copy_rows (cgrid t) s (?l - 1) \<noteq> [] \<and> snd (last (copy_rows (cgrid t) s (?l - 1))))"
      unfolding copy_rows_last by auto
    moreover have "(s < ?l \<and> wrapped (cgrid t) (?l - 1)) = False" using False by auto
    note v(2) [unfolded this]
    ultimately show ?thesis
      using u copying_new [OF _ _ _ wc, of "copy_rows (cgrid t) s (?l - 1)" tx br b v]
      by (simp add: up copy_rows_snoc [of s ?l])
  qed
  moreover have "[s..?l] = [s..?l - 1] @ [?l]" by (simp add: upto_rec2)
  moreover have "s + int (Suc n) - 1 = ?l" by simp
  ultimately show ?case using u(1) v(1) by (simp add: foldM_append)
qed

lemma copied_ends: "copied ls \<noteq> [] \<Longrightarrow> \<forall>l \<in> set ls. 0x0A \<notin> set l \<Longrightarrow> last (copied ls) \<noteq> 0x0A"
proof (induction ls)
  case (Cons l ls)
  have "copied ls \<noteq> []" if "\<not> (\<forall>m \<in> set ls. m = [])" using that by (induction ls) auto
  with Cons show ?case by (auto split: if_splits dest: last_in_set)
qed simp

lemma logical_lines_chars: "\<Union> (set ` set (logical_lines rows)) = (\<Union>r \<in> set rows. set (fst r))"
  by (induction rows rule: logical_lines.induct) auto

lemma printed_chars: "set (printed xs) \<subseteq> set xs \<union> {0x20}"
  by (auto simp: printed_def dest!: set_dropWhileD)

lemma strip_copied:
  assumes "copying rows (text, br, b)" "\<forall>r \<in> set rows. 0x0A \<notin> set (fst r)"
  shows "strip_newline text = copied (map printed (logical_lines rows))"
proof -
  let ?ls = "map printed (logical_lines rows)"
  have "\<forall>l \<in> set ?ls. 0x0A \<notin> set l"
    using printed_chars logical_lines_chars [of rows] assms(2) by fastforce
  then have e: "copied ?ls \<noteq> [] \<longrightarrow> last (copied ?ls) \<noteq> 0x0A" using copied_ends by blast
  have "text = copied ?ls \<or> text = copied ?ls @ [0x0A]"
  proof -
    have "pend ?ls - br = 0 \<or> pend ?ls - br = 1" using assms(1) by (auto simp: copying_def Let_def)
    then show ?thesis using assms(1) by (auto simp: copying_def Let_def split: if_splits)
  qed
  with e show ?thesis by (auto simp: strip_newline_def)
qed

subsection \<open>The property\<close>

lemma bounds_copied:
  assumes "grid_wf (cgrid t)" "has_line (cgrid t) s" "has_line (cgrid t) e" "s \<le> e"
    and "\<forall>l \<in> {s..e}. copyable (cgrid t) l" "\<not> (wrapped (cgrid t) e \<and> e + 1 < int (g_lines (cgrid t)))"
    and "lc = g_columns (cgrid t) - 1"
  shows "bounds_to_string t (Pos s 0) (Pos e lc) = Some (copied (map printed (logical_lines (copy_rows (cgrid t) s e))))"
proof -
  obtain tx br b where r: "foldM (bounds_line t (Pos s 0) (Pos e lc) lc) ([], 0, 0) [s..e] = Some (tx, br, b)"
    "copying (copy_rows (cgrid t) s e) (tx, br, b)"
    using bounds_loop [OF assms(1,2,3,5,6,7), of "nat (e + 1 - s)"] assms(4) by (auto simp: algebra_simps)
  have "\<forall>r \<in> set (copy_rows (cgrid t) s e). 0x0A \<notin> set (fst r)"
    using assms(5) by (auto simp: copy_rows_def copyable_def row_chars_def cell_chars_def plain_cell_def)
  from strip_copied [OF r(2) this] r(1) grid_ends(1) [OF assms(1)] show ?thesis
    unfolding bounds_to_string_def assms(7) [symmetric] by simp
qed

text \<open>C13. Copying a selection of lines from a grid of plain rows gives the lines as they were written: from the first row
  of the wrapped line that the selection starts in to the last row of the one it ends in, rows that wrap are joined
  with no newline and with their blanks kept, every empty cell counts as a space, the spaces at the end of each
  line are dropped, and so are empty lines at the end; then one newline. A row is plain (\<open>copyable\<close>) if its
  cells have no combining characters, links or images and are no tabs or line feeds, if it does not begin with the
  second half of a wide character, if it is not blank when it wraps (a blank row that wraps is not joined: it
  gives an empty line), and if it ends with the place holder of a wide character only when it wraps into a row below.\<close>

theorem lines_are_copied:
  assumes "term_inv n w t" "cw_selection t = Some sel" "sel_ty sel = SelLines"
    and "in_grid (grid_dims (cgrid t)) (an_point (lower_anchor sel))" "in_grid (grid_dims (cgrid t)) (an_point (upper_anchor sel))"
    and "\<forall>l. has_line (cgrid t) l \<longrightarrow> copyable (cgrid t) l"
  shows "\<exists>s e. s \<le> row (an_point (lower_anchor sel)) \<and> row (an_point (upper_anchor sel)) \<le> e \<and>
    has_line (cgrid t) s \<and> has_line (cgrid t) e \<and>
    (\<forall>l \<in> {s..row (an_point (lower_anchor sel)) - 1} \<union> {row (an_point (upper_anchor sel))..e - 1}. wrapped (cgrid t) l) \<and>
    (has_line (cgrid t) (s - 1) \<longrightarrow> \<not> wrapped (cgrid t) (s - 1)) \<and> (e + 1 < int n \<longrightarrow> \<not> wrapped (cgrid t) e) \<and>
    selection_to_string t =
      Some (Some (copied (map printed (logical_lines (map (\<lambda>l. (row_chars (cgrid t) l, wrapped (cgrid t) l)) [s..e]))) @ [0x0A]))"
proof -
  let ?g = "cgrid t" and ?a = "an_point (lower_anchor sel)" and ?b = "an_point (upper_anchor sel)"
  note g = term_invD(1) [OF assms(1)]
  have dims: "topmost_line (grid_dims ?g) = - int (grid_history ?g)" "bottommost_line (grid_dims ?g) = int (g_lines ?g) - 1"
    by (simp_all add: topmost_line_def bottommost_line_def grid_dims_def grid_history_def)
  have l: "has_line ?g (row ?a)" "has_line ?g (row ?b)"
    using assms(4,5) by (auto simp: in_grid_def has_line_def dims)
  obtain s where s: "row_left_loop ?g (row ?a) = Some s" "- int (grid_history ?g) \<le> s" "s \<le> row ?a"
    "\<forall>j \<in> {s..row ?a - 1}. wrapped ?g j" "s = - int (grid_history ?g) \<or> \<not> wrapped ?g (s - 1)"
    using row_left_ok [OF g l(1)] by blast
  obtain e where e: "row_right_loop ?g (row ?b) = Some e" "row ?b \<le> e" "e < int (g_lines ?g)"
    "\<forall>j \<in> {row ?b..e - 1}. wrapped ?g j" "e = int (g_lines ?g) - 1 \<or> \<not> wrapped ?g e"
    using row_right_ok [OF g l(2)] by blast
  have se: "has_line ?g s" "has_line ?g e" "s \<le> e"
    using s e l le_row [OF ends_ordered [of sel]] by (auto simp: has_line_def)
  obtain lc where lc: "lc = g_columns ?g - 1" by simp
  have lcol: "last_column (grid_dims ?g) = Some lc" using grid_ends(1) [OF g] lc by simp
  have clamp: "pos_grid_clamp ?a (grid_dims ?g) BGrid = Some ?a"
    using pos_grid_clamp_ok [OF term_inv_dims(5) [OF assms(1)], of ?a BGrid] assms(4) by (auto simp: wp_iff)
  have "\<not> row ?b < topmost_line (grid_dims ?g)" using assms(5) by (simp add: in_grid_def)
  then have range: "term_selection_range t sel = Some (Some \<lparr>sr_start = Pos s 0, sr_end = Pos e lc, sr_block = False\<rparr>)"
    using clamp s(1) e(1) lcol assms(3)
    by (simp add: term_selection_range_def selection_to_range_def range_lines_def row_search_left_def row_search_right_def Let_def)
  have "bounds_to_string t (Pos s 0) (Pos e lc) = Some (copied (map printed (logical_lines (copy_rows ?g s e))))"
    using bounds_copied [OF g se _ _ lc] assms(6) se e(5) by (force simp: has_line_def)
  then have "selection_to_string t = Some (Some (copied (map printed (logical_lines (copy_rows ?g s e))) @ [0x0A]))"
    using assms(2,3) range by (simp add: selection_to_string_def)
  then show ?thesis
    using s e se term_invD(2) [OF assms(1)] unfolding copy_rows_def by (intro exI [of _ s] exI [of _ e]) (auto simp: has_line_def)
qed

lemma blank_row_copyable: "grid_line g l = replicate w 0 \<Longrightarrow> 0 < w \<Longrightarrow> copyable g l \<and> \<not> wrapped g l"
  by (cases w) (simp_all add: copyable_def plain_cell_def wrapped_def sq_simps sq_has_extras_def last_replicate
      sq_wrapline_def sq_contains_cell_flag_def CF_WRAPLINE_def)

theorem lines_are_copied_witness:
  "\<exists>u. foldM (input plain_env) (fresh 24 80) [0x68, 0x69] = Some u \<and>
     selection_to_string (u\<lparr>cw_selection := Some (selection_new SelLines (Pos 0 2) DirLeft)\<rparr>) = Some (Some [0x68, 0x69, 0x0A])"
proof -
  let ?cs = "[0x68, 0x69] :: rstring"
  define sel where "sel = selection_new SelLines (Pos 0 2) DirLeft"
  have a: "an_point (lower_anchor sel) = Pos 0 2" "an_point (upper_anchor sel) = Pos 0 2" "sel_ty sel = SelLines"
    by (simp_all add: lower_anchor_def upper_anchor_def selection_new_def sel_def anchor_new_def)
  obtain u where u: "foldM (input plain_env) (fresh 24 80) ?cs = Some u" "term_inv 24 80 u" "grid_history (cgrid u) = 0"
    "line_at u 0 = map (written_cell (fresh 24 80)) ?cs @ replicate 78 0" "\<forall>l. 0 < l \<and> l < 24 \<longrightarrow> line_at u l = replicate 80 0"
    using typing_on_fresh [of 24 80 ?cs plain_env] by (auto simp: plain_width PLACEHOLDER_def simp del: foldM.simps)
  let ?t = "u\<lparr>cw_selection := Some sel\<rparr>"
  have t: "term_inv 24 80 ?t" using u(2) by (simp add: term_inv_def)
  note cell = fieldsD [OF fresh_cell [of 24 80]]
  have row0: "copyable (cgrid u) 0" "\<not> wrapped (cgrid u) 0" "row_chars (cgrid u) 0 = [0x68, 0x69] @ replicate 78 0"
    by (simp_all add: copyable_def plain_cell_def wrapped_def u(4) cell sq_simps sq_has_extras_def sq_wrapline_def
        sq_contains_cell_flag_def CF_WRAPLINE_def row_chars_def cell_chars_def any_spacer_def blank_char_def)
  have lines: "has_line (cgrid u) l \<longleftrightarrow> 0 \<le> l \<and> l < 24" for l using u(3) term_invD(2) [OF u(2)] by (simp add: has_line_def)
  have all: "copyable (cgrid u) l" if "has_line (cgrid u) l" for l
    using that row0(1) u(5) blank_row_copyable [of "cgrid u" l 80] unfolding lines by (cases "l = 0") auto
  have i: "in_grid (grid_dims (cgrid u)) (Pos 0 2)"
    using u(3) term_invD [OF u(2)] by (simp add: in_grid_def topmost_line_def bottommost_line_def grid_dims_def grid_history_def)
  obtain s e where se: "s \<le> 0" "0 \<le> e" "has_line (cgrid u) s" "\<forall>l \<in> {0..e - 1}. wrapped (cgrid u) l"
    "selection_to_string ?t = Some (Some (copied (map printed (logical_lines (map (\<lambda>l. (row_chars (cgrid u) l, wrapped (cgrid u) l)) [s..e]))) @ [0x0A]))"
    using lines_are_copied [OF t, of sel] all i by (auto simp: a)
  have "s = 0" "e = 0" using se row0(2) by (auto simp: lines order_le_less)
  with se(5) have "selection_to_string ?t = Some (Some (printed ([0x68] @ 0x69 # replicate 78 0) @ [0x0A]))"
    by (simp add: row0(3))
  moreover have "printed ([0x68] @ 0x69 # replicate 78 0) = [0x68, 0x69]"
    by (subst printed_content) (simp_all add: blank_char_def printed_blank)
  ultimately show ?thesis using u(1) by (simp add: sel_def)
qed

end
