(* ===== verification/Resize.thy ===== *)
theory Resize
  imports Terminal
begin

text \<open>
  \<open>crosswords/grid/resize.rs\<close> and \<open>Crosswords::resize\<close>: resizing the screen. When the columns change, rows that wrap
  are reflowed: a wider grid pulls cells up from the next row, a narrower one pushes them down. The
  vectors that the code fills at their ends and reverses are lists with the last element at the head.
\<close>

subsection \<open>Lines\<close>

definition move_cursors :: "grid \<Rightarrow> (square cursor \<Rightarrow> square cursor) \<Rightarrow> grid" where
  "move_cursors g f = g\<lparr>gcursor := f (gcursor g), saved_cursor := f (saved_cursor g)\<rparr>"

definition at_row :: "int \<Rightarrow> square cursor \<Rightarrow> square cursor" where
  "at_row l c = c\<lparr>cpos := Pos l (col (cpos c))\<rparr>"

definition at_col :: "nat \<Rightarrow> square cursor \<Rightarrow> square cursor" where
  "at_col k c = c\<lparr>cpos := Pos (row (cpos c)) k\<rparr>"

definition grid_grow_lines :: "grid \<Rightarrow> nat \<Rightarrow> grid option" where
  "grid_grow_lines g target = do {
     lines_added \<leftarrow> usub target (g_lines g);
     g \<leftarrow> on_raw g (grow_visible_lines 0 (raw g) target);
     let g = g\<lparr>g_lines := target\<rparr>;
     let from_history = min (grid_history g) lines_added;
     g \<leftarrow> (if from_history \<noteq> lines_added
           then scroll_up g (0, int target) (lines_added - from_history) else Some g);
     let g = move_cursors g (\<lambda>c. at_row (row (cpos c) + int from_history) c);
     let g = g\<lparr>display_offset := display_offset g - lines_added\<rparr>;
     decrease_scroll_limit g lines_added
   }"

definition grid_shrink_lines :: "grid \<Rightarrow> nat \<Rightarrow> grid option" where
  "grid_shrink_lines g target = do {
     let required_scrolling = as_usize (row (cpos (gcursor g))) + 1 - target;
     g \<leftarrow> (if required_scrolling > 0 then do {
            g \<leftarrow> scroll_up g (0, int (g_lines g)) required_scrolling;
            Some (g\<lparr>gcursor := at_row (min (row (cpos (gcursor g))) (int target - 1)) (gcursor g)\<rparr>)
          } else Some g);
     let g = g\<lparr>saved_cursor := at_row (min (row (cpos (saved_cursor g))) (int target - 1)) (saved_cursor g)\<rparr>;
     n \<leftarrow> usub (g_lines g) target;
     g \<leftarrow> on_raw g (rotate (raw g) (int n));
     g \<leftarrow> on_raw g (shrink_visible_lines (raw g) target);
     Some (g\<lparr>g_lines := target\<rparr>)
   }"

subsection \<open>More columns\<close>

definition cursor_buffer_line :: "grid \<Rightarrow> nat option" where
  \<comment> \<open>the cursor's line, counted from the bottom\<close>
  "cursor_buffer_line g = do {
     n \<leftarrow> usub (g_lines g) (as_usize (row (cpos (gcursor g))));
     usub n 1
   }"

definition leading_spacer :: square where
  "leading_spacer = sq_set_wide 0 LeadingSpacer"

definition unwrap_cursor :: "bool \<Rightarrow> grid \<Rightarrow> grid" where
  \<comment> \<open>a pending wrap becomes a position outside of the grid\<close>
  "unwrap_cursor reflow g =
     (if should_wrap (gcursor g) \<and> reflow
      then g\<lparr>gcursor := at_col (col (cpos (gcursor g)) + 1) ((gcursor g)\<lparr>should_wrap := False\<rparr>)\<rparr> else g)"

definition should_reflow :: "bool \<Rightarrow> nat \<Rightarrow> square grid_row \<Rightarrow> bool" where
  "should_reflow reflow width r \<longleftrightarrow>
     reflow \<and> row_len r > 0 \<and> row_len r < width \<and> sq_wrapline (last (cells r))"

definition pull_cells ::
    "nat \<Rightarrow> square grid_row \<Rightarrow> square grid_row \<Rightarrow> (square grid_row \<times> square grid_row \<times> nat) option" where
  \<comment> \<open>cells from the front of the row to the end of the last one; the number counts a cell less when a wide
     character does not fit\<close>
  "pull_cells width last_row r = do {
     let last_row = row_last_mut last_row (\<lambda>c. sq_set_wrapline c False);
     let last_row = (if row_len last_row \<ge> 1 \<and> sq_wide (last (cells last_row)) = LeadingSpacer
                     then fst (row_shrink sq_is_empty last_row (row_len last_row - 1)) else last_row);
     num_wrapped \<leftarrow> usub width (row_len last_row);
     let n = min (row_len r) num_wrapped;
     k \<leftarrow> usub n 1;
     c \<leftarrow> row_index r k;
     if sq_wide c = Wide then do {
       num_wrapped \<leftarrow> usub num_wrapped 1;
       (r, front) \<leftarrow> row_front_split_off r k;
       Some (row_append last_row (front @ [leading_spacer]), r, num_wrapped)
     }
     else do {
       (r, front) \<leftarrow> row_front_split_off r n;
       Some (row_append last_row front, r, num_wrapped)
     }
   }"

definition reflow_cursor :: "grid \<Rightarrow> square grid_row \<Rightarrow> nat \<Rightarrow> (grid \<times> int) option" where
  \<comment> \<open>the cursor's column after its line moved, and by how many lines the cursor has to go up\<close>
  "reflow_cursor g r num_wrapped = do {
     target \<leftarrow> pos_sub (cpos (gcursor g)) (grid_dims g) BCursor num_wrapped;
     let clamp = (col target = 0 \<and> row_is_clear sq_is_empty r);
     target \<leftarrow> (if clamp then pos_sub target (grid_dims g) BCursor 1 else Some target);
     let c = (if clamp then (gcursor g)\<lparr>should_wrap := True\<rparr> else gcursor g);
     Some (g\<lparr>gcursor := at_col (col target) c\<rparr>, row (cpos c) - row target)
   }"

type_synonym grow_state = "grid \<times> square grid_row list \<times> nat"

definition push_wrapped :: "square grid_row \<Rightarrow> square grid_row list \<Rightarrow> square grid_row \<Rightarrow> square grid_row list" where
  "push_wrapped last_row rest r = r # row_last_mut last_row (\<lambda>c. sq_set_wrapline c True) # rest"

definition grow_pulled :: "bool \<Rightarrow> nat \<Rightarrow> grid \<Rightarrow> square grid_row \<Rightarrow> square grid_row list \<Rightarrow> nat \<Rightarrow>
    square grid_row \<Rightarrow> nat \<Rightarrow> grow_state option" where
  \<comment> \<open>what happens to the cursor and to the rest of the row\<close>
  "grow_pulled reflow i g last_row rest delta r num_wrapped = do {
     buffer_line \<leftarrow> cursor_buffer_line g;
     let clear = row_is_clear sq_is_empty r;
     if i = buffer_line \<and> reflow then do {
       (g, line_delta) \<leftarrow> reflow_cursor g r num_wrapped;
       if line_delta \<noteq> 0 \<and> clear then Some (g, last_row # rest, delta)
       else Some (g, push_wrapped last_row rest r, delta + as_usize line_delta)
     }
     else if clear then
       (let g = (if i < display_offset g then g\<lparr>display_offset := display_offset g - 1\<rparr> else g);
            g = (if i < buffer_line then g\<lparr>gcursor := at_row (row (cpos (gcursor g)) + 1) (gcursor g)\<rparr> else g)
        in Some (g, last_row # rest, delta))
     else Some (g, push_wrapped last_row rest r, delta)
   }"

definition grow_row :: "bool \<Rightarrow> nat \<Rightarrow> grow_state \<Rightarrow> nat \<times> square grid_row \<Rightarrow> grow_state option" where
  "grow_row reflow width st indexed = (case (st, indexed) of ((g, acc, delta), (i, r)) \<Rightarrow>
     (case acc of
        [] \<Rightarrow> Some (g, [r], delta)
      | last_row # rest \<Rightarrow>
          if should_reflow reflow width last_row then do {
            (last_row, r, num_wrapped) \<leftarrow> pull_cells width last_row r;
            grow_pulled reflow i g last_row rest delta r num_wrapped
          }
          else Some (g, r # acc, delta)))"

definition fill_viewport :: "nat \<Rightarrow> grow_state \<Rightarrow> grow_state option" where
  "fill_viewport width = (\<lambda>(g, acc, delta).
     if length acc < g_lines g then do {
       rows \<leftarrow> replicate_rows 0 (g_lines g - length acc) width;
       let l = max (row (cpos (gcursor g)) - int (g_lines g - length acc)) 0;
       Some (g\<lparr>gcursor := at_row l (gcursor g)\<rparr>, rows @ acc, delta)
     }
     else Some (g, acc, delta))"

definition pull_content :: "grow_state \<Rightarrow> (grid \<times> square grid_row list) option" where
  "pull_content = (\<lambda>(g, acc, delta).
     if delta \<noteq> 0 then do {
       buffer_line \<leftarrow> cursor_buffer_line g;
       room \<leftarrow> usub (length acc) (g_lines g);
       let overflow = delta - min buffer_line room;
       keep \<leftarrow> usub (length acc + overflow) delta;
       Some (g\<lparr>gcursor := at_row (max (row (cpos (gcursor g)) - int overflow) 0) (gcursor g)\<rparr>, drop (length acc - keep) acc)
     }
     else Some (g, acc))"

definition grow_columns :: "bool \<Rightarrow> nat \<Rightarrow> grid \<Rightarrow> grid option" where
  "grow_columns reflow width g = do {
     let g = unwrap_cursor reflow (g\<lparr>g_columns := width\<rparr>);
     let (s, rows) = take_all (raw g);
     let g = g\<lparr>raw := s\<rparr>;
     st \<leftarrow> foldM (grow_row reflow width) (g, [], 0) (rev (enumerate 0 rows));
     st \<leftarrow> fill_viewport width st;
     (g, acc) \<leftarrow> pull_content st;
     let g = g\<lparr>raw := replace_inner (raw g) (map (\<lambda>r. row_grow 0 r width) acc)\<rparr>;
     Some (g\<lparr>display_offset := min (display_offset g) (grid_history g)\<rparr>)
   }"

subsection \<open>Fewer columns\<close>

type_synonym shrink_state = "grid \<times> square grid_row list \<times> square grid_row"

type_synonym shrink_result = "grid \<times> square grid_row list \<times> square list option"

definition cut_row ::
    "bool \<Rightarrow> nat \<Rightarrow> nat \<Rightarrow> grid \<Rightarrow> square grid_row \<Rightarrow> (square grid_row \<times> square list option) option" where
  \<comment> \<open>the row without what does not fit, and what has to be wrapped, if anything has\<close>
  "cut_row reflow width i g r = (let (r, w) = row_shrink sq_is_empty r width in
     (case (w, reflow) of
        (Some wrapped, True) \<Rightarrow> Some (r, Some wrapped)
      | _ \<Rightarrow> do {
          buffer_line \<leftarrow> cursor_buffer_line g;
          Some (r, if reflow \<and> i = buffer_line \<and> col (cpos (gcursor g)) > width then Some [] else None)
        }))"

definition keep_wide :: "nat \<Rightarrow> square grid_row \<Rightarrow> square list \<Rightarrow> (square grid_row \<times> square list) option" where
  \<comment> \<open>a wide character in the last column is wrapped too\<close>
  "keep_wide width r wrapped =
     (if row_len r \<ge> width then do {
        k \<leftarrow> usub width 1;
        c \<leftarrow> row_index r k;
        if sq_wide c = Wide then do {
          r \<leftarrow> row_index_mut r k (\<lambda>_. leading_spacer);
          Some (r, c # wrapped)
        } else Some (r, wrapped)
      }
      else Some (r, wrapped))"

definition set_last_wrap :: "bool \<Rightarrow> square list \<Rightarrow> square list" where
  "set_last_wrap b cs = (if cs = [] then [] else butlast cs @ [sq_set_wrapline (last cs) b])"

definition wrap_rest ::
    "nat \<Rightarrow> nat \<Rightarrow> grid \<Rightarrow> square grid_row list \<Rightarrow> square list \<Rightarrow> shrink_state option" where
  \<comment> \<open>a new row of the cells that were cut off\<close>
  "wrap_rest width i g new_raw wrapped = do {
     buffer_line \<leftarrow> cursor_buffer_line g;
     let c = gcursor g;
     let k = col (cpos c);
     let c = (if (i = buffer_line \<and> k < width) \<or> i < buffer_line
              then at_row (max (row (cpos c) - 1) 0) c else c);
     let c = (if i = buffer_line \<and> k \<ge> width then at_col (k - width) c else c);
     let g = g\<lparr>gcursor := c\<rparr>;
     let r = row_from_vec (wrapped @ replicate (width - length wrapped) 0) (length wrapped);
     let g = (if i < display_offset g then g\<lparr>display_offset := display_offset g + 1\<rparr> else g);
     Some (g, new_raw, r)
   }"

definition shrink_step :: "bool \<Rightarrow> nat \<Rightarrow> nat \<Rightarrow> shrink_state \<Rightarrow> (shrink_result + shrink_state) option" where
  \<comment> \<open>the body of the loop: \<open>Inl\<close> is a \<open>break\<close>\<close>
  "shrink_step reflow width i = (\<lambda>(g, new_raw, r). do {
     (r, w) \<leftarrow> cut_row reflow width i g r;
     case w of
       None \<Rightarrow> Some (Inl (g, r # new_raw, None))
     | Some wrapped \<Rightarrow> do {
         (r, wrapped) \<leftarrow> keep_wide width r wrapped;
         let spacer_last = (wrapped \<noteq> [] \<and> sq_wide (last wrapped) = LeadingSpacer);
         if spacer_last \<and> length wrapped = 1 then do {
           k \<leftarrow> usub width 1;
           r \<leftarrow> row_index_mut r k (\<lambda>c. sq_set_wrapline c True);
           Some (Inl (g, r # new_raw, None))
         }
         else
           (let wrapped = (if spacer_last then set_last_wrap True (butlast wrapped) else wrapped);
                new_raw = row_last_mut r (\<lambda>c. sq_set_wrapline c True) # new_raw
            in
            if wrapped \<noteq> [] \<and> sq_wrapline (last wrapped) \<and> i \<ge> 1 \<and> length wrapped < width
            then Some (Inl (g, new_raw, Some (set_last_wrap False wrapped)))
            else map_option Inr (wrap_rest width i g new_raw wrapped))
       }
   })"

partial_function (option) shrink_loop :: "bool \<Rightarrow> nat \<Rightarrow> nat \<Rightarrow> shrink_state \<Rightarrow> shrink_result option" where
  "shrink_loop reflow width i st =
     Option.bind (shrink_step reflow width i st)
       (\<lambda>r. case r of Inl done \<Rightarrow> Some done | Inr st \<Rightarrow> shrink_loop reflow width i st)"

definition shrink_row :: "bool \<Rightarrow> nat \<Rightarrow> shrink_result \<Rightarrow> nat \<times> square grid_row \<Rightarrow> shrink_result option" where
  "shrink_row reflow width st indexed = (case (st, indexed) of ((g, new_raw, buffered), (i, r)) \<Rightarrow> do {
     (g, r) \<leftarrow> (case buffered of
         None \<Rightarrow> Some (g, r)
       | Some b \<Rightarrow> do {
           buffer_line \<leftarrow> cursor_buffer_line g;
           let g = (if i = buffer_line
                    then g\<lparr>gcursor := at_col (col (cpos (gcursor g)) + length b) (gcursor g)\<rparr> else g);
           Some (g, row_append_front r b)
         });
     shrink_loop reflow width i (g, new_raw, r)
   })"

definition place_cursor :: "bool \<Rightarrow> nat \<Rightarrow> grid \<Rightarrow> grid option" where
  \<comment> \<open>the cursors at the end\<close>
  "place_cursor reflow width g = do {
     lc \<leftarrow> usub width 1;
     let c = gcursor g;
     full \<leftarrow> (if reflow \<and> col (cpos c) = width
             then map_option (\<lambda>x. \<not> sq_wrapline x) (grid_cell g (Pos (row (cpos c)) lc)) else Some False);
     c \<leftarrow> (if \<not> reflow then Some (at_col (min (col (cpos c)) lc) c)
          else if full then do {
            k \<leftarrow> usub (col (cpos c)) 1;
            Some (at_col k (c\<lparr>should_wrap := True\<rparr>))
          }
          else map_option (\<lambda>p. c\<lparr>cpos := p\<rparr>) (pos_grid_clamp (cpos c) (grid_dims g) BCursor));
     Some (g\<lparr>gcursor := c, saved_cursor := at_col (min (col (cpos (saved_cursor g))) lc) (saved_cursor g)\<rparr>)
   }"

definition shrink_columns :: "bool \<Rightarrow> nat \<Rightarrow> grid \<Rightarrow> grid option" where
  "shrink_columns reflow width g = do {
     let g = unwrap_cursor reflow (g\<lparr>g_columns := width\<rparr>);
     let (s, rows) = take_all (raw g);
     let g = g\<lparr>raw := s\<rparr>;
     (g, new_raw, _) \<leftarrow> foldM (shrink_row reflow width) (g, [], None) (rev (enumerate 0 rows));
     let g = g\<lparr>raw := replace_inner (raw g) (take (max_scroll_limit g + g_lines g) new_raw)\<rparr>;
     place_cursor reflow width (g\<lparr>display_offset := min (display_offset g) (grid_history g)\<rparr>)
   }"

subsection \<open>The grid and the terminal\<close>

definition grid_resize :: "grid \<Rightarrow> bool \<Rightarrow> nat \<Rightarrow> nat \<Rightarrow> grid option" where
  "grid_resize g reflow lines width = do {
     let tmpl = template (gcursor g);
     let g = g\<lparr>gcursor := (gcursor g)\<lparr>template := 0\<rparr>\<rparr>;
     g \<leftarrow> (if g_lines g < lines then grid_grow_lines g lines
          else if g_lines g > lines then grid_shrink_lines g lines else Some g);
     g \<leftarrow> (if g_columns g < width then grow_columns reflow width g
          else if g_columns g > width then shrink_columns reflow width g else Some g);
     Some (g\<lparr>gcursor := (gcursor g)\<lparr>template := tmpl\<rparr>\<rparr>)
   }"

definition resize_placement :: "nat \<times> nat \<Rightarrow> int \<Rightarrow> kitty_placement \<Rightarrow> kitty_placement" where
  "resize_placement cell shift p =
     (let p = (if kp_columns p \<noteq> 0 then p\<lparr>kp_pixel_width := word_of_nat (unat (kp_columns p) * fst cell)\<rparr> else p);
          p = (if kp_rows p \<noteq> 0 then p\<lparr>kp_pixel_height := word_of_nat (unat (kp_rows p) * snd cell)\<rparr> else p)
      in p\<lparr>kp_dest_row := kp_dest_row p + shift\<rparr>)"

definition resize_overlays :: "nat \<times> nat \<Rightarrow> int \<Rightarrow> graphics \<Rightarrow> graphics" where
  \<comment> \<open>of the new size of a cell\<close>
  "resize_overlays cell shift gr =
     (if fst cell > 0 \<and> snd cell > 0 then
        (let move = (\<lambda>s. s\<lparr>ks_placements := map (\<lambda>(k, p). (k, resize_placement cell shift p)) (ks_placements s)\<rparr>);
             gr = gr\<lparr>gr_active := move (gr_active gr), gr_inactive := move (gr_inactive gr)\<rparr>
         in if ks_placements (gr_active gr) \<noteq> [] \<or> ks_placements (gr_inactive gr) \<noteq> []
            then gr\<lparr>gr_dirty := True\<rparr> else gr)
      else gr)"

definition absolute_row :: "crosswords \<Rightarrow> int" where
  "absolute_row t = int (grid_history (cgrid t)) + cur_row t"

definition resize_delta :: "crosswords \<Rightarrow> nat \<Rightarrow> int" where
  "resize_delta t num_lines =
     (let min_delta = min 0 (int num_lines - cur_row t - 1)
      in min (max (int num_lines - int (g_lines (cgrid t))) min_delta) (int (grid_history (cgrid t))))"

definition resize_selection :: "crosswords \<Rightarrow> nat \<times> nat \<Rightarrow> int \<Rightarrow> crosswords option" where
  \<comment> \<open>of the old lines and columns\<close>
  "resize_selection t old delta =
     (if snd old \<noteq> grid_col_count t then
        Some (t\<lparr>cw_selection := None, tabs := tabs_resize (tabs t) (grid_col_count t)\<rparr>)
      else (case cw_selection t of
              None \<Rightarrow> Some t
            | Some s \<Rightarrow> map_option (\<lambda>r. t\<lparr>cw_selection := r\<rparr>)
                (selection_rotate s (grid_dims (cgrid t)) (0, max (int (screen_line_count t)) (int (fst old))) (- delta))))"

definition clamp_vi_cursor :: "crosswords \<Rightarrow> crosswords option" where
  "clamp_vi_cursor t = do {
     let vi_top = - int (display_offset (cgrid t));
     let vi_bottom = vi_top + bottommost_line (grid_dims (cgrid t));
     lc \<leftarrow> last_column (grid_dims (cgrid t));
     Some (t\<lparr>vi_cursor := Pos (max (min (row (vi_cursor t)) vi_bottom) vi_top) (min (col (vi_cursor t)) lc)\<rparr>)
   }"

definition term_resize :: "nat \<times> nat \<Rightarrow> crosswords \<Rightarrow> nat \<Rightarrow> nat \<Rightarrow> crosswords option" where
  \<comment> \<open>\<open>Crosswords::resize\<close>, of the new size of a cell, the lines and the columns\<close>
  "term_resize cell t num_lines num_cols =
     (if grid_col_count t = num_cols \<and> screen_line_count t = num_lines then Some t
      else do {
        let delta = resize_delta t num_lines;
        let old = (screen_line_count t, grid_col_count t);
        let before = absolute_row t;
        let t = t\<lparr>vi_cursor := Pos (row (vi_cursor t) + delta) (col (vi_cursor t))\<rparr>;
        let is_alt = mode_on t M_ALT_SCREEN;
        g \<leftarrow> grid_resize (cgrid t) (\<not> is_alt) num_lines num_cols;
        h \<leftarrow> grid_resize (inactive_grid t) is_alt num_lines num_cols;
        t \<leftarrow> resize_selection (t\<lparr>cgrid := g, inactive_grid := h\<rparr>) old delta;
        t \<leftarrow> clamp_vi_cursor t;
        let t = t\<lparr>scroll_region := (0, int (screen_line_count t)), damage := damage_resize (damage t) num_lines\<rparr>;
        Some (t\<lparr>cw_graphics := resize_overlays cell (absolute_row t - before) (cw_graphics t)\<rparr>)
      })"

end
