(* ===== verification/ResizeLines.thy ===== *)
theory ResizeLines
  imports Resize TermKeep
begin

text \<open>
  More and fewer lines: what \<open>grow_lines\<close> and \<open>shrink_lines\<close> do to the lines of the screen and of the history.
\<close>

subsection \<open>The storage\<close>

lemma grow_visible_lines_ok:
  assumes "storage_wf w s" "0 < w" "0 < visible_lines s" "visible_lines s \<le> n"
  shows "\<exists>s'. grow_visible_lines d s n = Some s' \<and> storage_wf w s' \<and> visible_lines s' = n \<and>
    st_len s' = st_len s + (n - visible_lines s) \<and> take (st_len s) (ring s') = ring s"
proof -
  have "in_store s 0" using assms(1,3) by (auto simp: in_store_def storage_wf_def)
  from storage_index_ok [OF assms(1) this] row_at_width [OF assms(1) this]
  have r: "storage_index s 0 = Some (row_at s 0)" "row_len (row_at s 0) = w" by (simp_all add: row_len_def)
  obtain s' where s': "initialize d s (n - visible_lines s) w = Some s'" "storage_wf w s'"
    "st_len s' = st_len s + (n - visible_lines s)" "visible_lines s' = visible_lines s" "take (st_len s) (ring s') = ring s"
    using initialize_ok [OF assms(1,2), of d "n - visible_lines s"] by blast
  have "visible_lines s \<le> st_len s" using assms(1) by (simp add: storage_wf_def)
  then have "storage_wf w (s'\<lparr>visible_lines := n\<rparr>)" using s'(2-4) assms(4) by (auto simp: storage_wf_def)
  moreover have "ring (s'\<lparr>visible_lines := n\<rparr>) = ring s'" by (simp add: ring_def)
  ultimately show ?thesis
    using r s' assms(4) by (simp add: grow_visible_lines_def usub_def)
qed

lemma rotate_forward_ok:
  assumes "storage_wf w s" "n \<le> length (inner s)"
  shows "\<exists>s'. rotate s (int n) = Some s' \<and> storage_wf w s' \<and> st_len s' = st_len s \<and>
    visible_lines s' = visible_lines s \<and> (\<forall>k. k + n < st_len s \<longrightarrow> ring s' ! k = ring s ! (k + n))"
proof -
  have L: "0 < length (inner s)" using assms(1) by (auto simp: storage_wf_def)
  have "nat (int (zero s) + int n + int (length (inner s))) mod length (inner s) = (zero s + n) mod length (inner s)"
    by (simp add: nat_add_distrib nat_int_add)
  then have "rotate s (int n) = rotate_down s n"
    using assms(2) L by (simp add: rotate_def rotate_down_def check_def)
  with rotate_down_ok [OF assms(1), of n] show ?thesis by simp
qed

lemma shrink_visible_lines_eq:
  "n \<le> visible_lines s \<Longrightarrow> shrink_visible_lines s n = shrink_lines (s\<lparr>visible_lines := n\<rparr>) (visible_lines s - n)"
  by (auto simp: shrink_visible_lines_def shrink_lines_def usub_def Let_def storage_truncate_def rezero_def)

lemma shrink_visible_lines_ok:
  assumes "storage_wf w s" "0 < n" "n \<le> visible_lines s"
  shows "\<exists>s'. shrink_visible_lines s n = Some s' \<and> storage_wf w s' \<and>
    ring s' = take (st_len s - (visible_lines s - n)) (ring s) \<and>
    st_len s' = st_len s - (visible_lines s - n) \<and> visible_lines s' = n"
proof -
  have v: "visible_lines s \<le> st_len s" using assms(1) by (simp add: storage_wf_def)
  then have "storage_wf w (s\<lparr>visible_lines := n\<rparr>)" using assms by (simp add: storage_wf_def)
  moreover have "ring (s\<lparr>visible_lines := n\<rparr>) = ring s" by (simp add: ring_def)
  ultimately show ?thesis
    using shrink_lines_ok [of w "s\<lparr>visible_lines := n\<rparr>" "visible_lines s - n"] v assms(2,3)
    by (auto simp: shrink_visible_lines_eq)
qed

subsection \<open>The grid\<close>

abbreviation cur_line :: "grid \<Rightarrow> int" where "cur_line g \<equiv> row (cpos (gcursor g))"

lemma grow_visible_effect:
  assumes "grid_wf g" "g_lines g \<le> m"
  shows "\<exists>h. on_raw g (grow_visible_lines 0 (raw g) m) = Some h \<and> grid_wf (h\<lparr>g_lines := m\<rparr>) \<and>
    (\<exists>s. h = g\<lparr>raw := s\<rparr>) \<and> grid_history (h\<lparr>g_lines := m\<rparr>) = grid_history g \<and>
    (\<forall>l. has_line g l \<longrightarrow> grid_line (h\<lparr>g_lines := m\<rparr>) (l + int (m - g_lines g)) = grid_line g l)"
proof -
  have w: "storage_wf (g_columns g) (raw g)" "0 < g_columns g" "0 < visible_lines (raw g)" "visible_lines (raw g) = g_lines g"
    using assms(1) by (auto simp: grid_wf_def)
  obtain s where s: "grow_visible_lines 0 (raw g) m = Some s" "storage_wf (g_columns g) s" "visible_lines s = m"
    "st_len s = st_len (raw g) + (m - g_lines g)" "take (st_len (raw g)) (ring s) = ring (raw g)"
    using grow_visible_lines_ok [OF w(1-3), of m 0] assms(2) w(4) by auto
  let ?h = "g\<lparr>raw := s, g_lines := m\<rparr>"
  have v: "g_lines g \<le> st_len (raw g)" using w by (auto simp: storage_wf_def)
  have hist: "grid_history ?h = grid_history g" using s(4) assms(2) v by (simp add: grid_history_raw)
  moreover have "grid_wf ?h" using assms s hist by (auto simp: grid_wf_def)
  moreover have "grid_line ?h (l + int (m - g_lines g)) = grid_line g l" if "has_line g l" for l
  proof -
    have p: "pos_of (raw g) l < st_len (raw g)" using that has_line_in_store [OF assms(1)] by (simp add: pos_of_less)
    moreover have "pos_of s (l + int (m - g_lines g)) = pos_of (raw g) l"
      using s(3) w(4) assms(2) by (simp add: pos_of_def of_nat_diff)
    moreover have "ring s ! k = ring (raw g) ! k" if "k < st_len (raw g)" for k
      using that s(5) by (metis nth_take)
    ultimately show ?thesis by (simp add: grid_line_def row_at_def)
  qed
  ultimately show ?thesis using s(1) by (auto simp: on_raw_def)
qed

lemma decrease_scroll_limit_ok:
  assumes "grid_wf g"
  shows "wp (decrease_scroll_limit g n) (\<lambda>h. grid_wf h \<and> same_frame g h \<and> grid_history h = grid_history g - n \<and>
    (\<forall>l. has_line h l \<longrightarrow> grid_line h l = grid_line g l))"
proof (cases "min n (grid_history g) = 0")
  case True
  then show ?thesis using assms by (auto simp: decrease_scroll_limit_def wp_simps min_def split: if_splits)
next
  case False
  have lim: "grid_history g - min n (grid_history g) \<le> max_scroll_limit g" using assms by (auto simp: grid_wf_def)
  obtain s where s: "shrink_lines (raw g) (min n (grid_history g)) = Some s"
    "\<forall>d m. grid_history g - min n (grid_history g) \<le> m \<longrightarrow>
      (let h = g\<lparr>raw := s, display_offset := d, max_scroll_limit := m\<rparr> in
       grid_wf h \<and> grid_history h = grid_history g - min n (grid_history g) \<and>
       (\<forall>l. has_line h l \<longrightarrow> grid_line h l = grid_line g l))"
    using shrink_history_ok [OF assms min.cobounded2] by blast
  have h: "\<And>d. g\<lparr>raw := s, display_offset := d, max_scroll_limit := max_scroll_limit g\<rparr> = g\<lparr>raw := s, display_offset := d\<rparr>"
    by simp
  have "grid_history g - min n (grid_history g) = grid_history g - n" by simp
  with s(2) [rule_format, OF lim, unfolded h] s(1) False show ?thesis
    by (simp add: decrease_scroll_limit_def on_raw_def wp_simps Let_def same_frame_def)
qed

lemma cursor_at_row: "cursor_ok n w c \<Longrightarrow> 0 \<le> l \<Longrightarrow> l < int m \<Longrightarrow> cursor_ok m w (at_row l c)"
  by (simp add: cursor_ok_def at_row_def)

definition lines_moved :: "nat \<Rightarrow> nat \<Rightarrow> grid \<Rightarrow> int \<Rightarrow> nat \<Rightarrow> grid \<Rightarrow> bool" where
  \<comment> \<open>the text and the cursor went down by \<open>d\<close> lines, new lines below are blank, \<open>k\<close> lines of history are left\<close>
  "lines_moved m w g d k h \<longleftrightarrow> grid_ok m w h \<and> grid_history h = k \<and> max_scroll_limit h = max_scroll_limit g \<and>
     gcursor h = at_row (cur_line g + d) (gcursor g) \<and>
     (\<forall>l. has_line h l \<longrightarrow> grid_line h l = (if l - d < int (g_lines g) then grid_line g (l - d) else replicate w 0))"

lemma pulled_up:
  assumes "grid_wf g" "d \<le> g_lines g" "template (gcursor g) = 0"
  shows "wp (if d \<noteq> 0 then Grid.scroll_up g (0, int (g_lines g)) d else Some g) (\<lambda>h. grid_wf h \<and> same_frame g h \<and>
    grid_history h = min (grid_history g + d) (max_scroll_limit g) \<and>
    (\<forall>l. has_line h l \<longrightarrow> grid_line h l = (if l < int (g_lines g) - int d
       then grid_line g (l + int d) else replicate (g_columns g) 0)))"
proof (cases "d = 0")
  case True
  then show ?thesis using assms(1) by (auto simp: wp_Some has_line_def grid_wf_def)
next
  case False
  then show ?thesis
    using scroll_up_top [OF assms(1,2) order_refl] assms(3)
    by (auto simp: grid_moved_def blank_line_def grid_template_def sq_reset_0 has_line_def same_frame_def elim!: wp_mono)
qed

lemma cursors_pulled_down:
  assumes "grid_wf u" "same_frame g u" "g_lines g = m" "g_columns g = w"
    and "cursor_ok n w (gcursor g)" "cursor_ok n w (saved_cursor g)" "n + k \<le> m"
  shows "wp (decrease_scroll_limit ((move_cursors u (\<lambda>c. at_row (row (cpos c) + int k) c))\<lparr>display_offset := d\<rparr>) a)
    (\<lambda>h. grid_ok m w h \<and> grid_history h = grid_history u - a \<and> max_scroll_limit h = max_scroll_limit g \<and>
      gcursor h = at_row (cur_line g + int k) (gcursor g) \<and> (\<forall>l. has_line h l \<longrightarrow> has_line u l \<and> grid_line h l = grid_line u l))"
proof -
  let ?v = "(move_cursors u (\<lambda>c. at_row (row (cpos c) + int k) c))\<lparr>display_offset := d\<rparr>"
  have v: "grid_wf ?v" "grid_history ?v = grid_history u" "\<And>l. grid_line ?v l = grid_line u l"
    using assms(1) by (simp_all add: move_cursors_def grid_wf_def grid_history_raw grid_line_def)
  have c: "cursor_ok m w (at_row (cur_line g + int k) (gcursor g))"
    "cursor_ok m w (at_row (row (cpos (saved_cursor g)) + int k) (saved_cursor g))"
    using assms(5-7) by (auto simp: cursor_ok_def at_row_def)
  show ?thesis
    by (rule wp_mono [OF decrease_scroll_limit_ok [OF v(1)]])
      (use assms(2-4) c v in \<open>auto simp: grid_ok_def same_frame_def move_cursors_def has_line_def\<close>)
qed

lemma grow_lines_effect:
  assumes "grid_ok n w g" "n \<le> m" "template (gcursor g) = 0"
  defines "k \<equiv> min (grid_history g) (m - n)"
  shows "wp (grid_grow_lines g m) (lines_moved m w g (int k) (grid_history g - k))"
proof -
  note g = grid_okD [OF assms(1)]
  obtain s where s: "on_raw g (grow_visible_lines 0 (raw g) m) = Some (g\<lparr>raw := s\<rparr>)"
    "grid_wf (g\<lparr>raw := s, g_lines := m\<rparr>)" "grid_history (g\<lparr>raw := s, g_lines := m\<rparr>) = grid_history g"
    "\<forall>l. has_line g l \<longrightarrow> grid_line (g\<lparr>raw := s, g_lines := m\<rparr>) (l + int (m - n)) = grid_line g l"
    using grow_visible_effect [OF g(1), of m] assms(2) g(2) by auto
  define g1 where "g1 = g\<lparr>raw := s, g_lines := m\<rparr>"
  have g1: "grid_wf g1" "grid_history g1 = grid_history g" "g_lines g1 = m" "g_columns g1 = w"
    "max_scroll_limit g1 = max_scroll_limit g" "template (gcursor g1) = 0" "gcursor g1 = gcursor g" "saved_cursor g1 = saved_cursor g"
    using s assms(3) g(3) by (simp_all add: g1_def)
  define d where "d = m - n - k"
  have k: "k \<le> m - n" "k \<le> grid_history g" "d \<noteq> 0 \<Longrightarrow> k = grid_history g" "d = 0 \<longleftrightarrow> k = m - n"
    by (auto simp: k_def d_def)
  have hist: "grid_history g \<le> max_scroll_limit g" using g(1) by (simp add: grid_wf_def)
  have lines: "grid_line g1 (l + int d) = grid_line g (l - int k)" if "- int (grid_history g - k) \<le> l" "l < int n + int k" for l
  proof -
    have "has_line g (l - int k)" using that k(2) g(2) by (auto simp: has_line_def)
    moreover have "l - int k + int (m - n) = l + int d" using k(1) by (simp add: d_def)
    ultimately show ?thesis using s(4) by (metis g1_def)
  qed
  have "wp (if d \<noteq> 0 then Grid.scroll_up g1 (0, int m) d else Some g1) (\<lambda>u. wp (decrease_scroll_limit
      ((move_cursors u (\<lambda>c. at_row (row (cpos c) + int k) c))\<lparr>display_offset := display_offset u - (m - n)\<rparr>) (m - n))
      (lines_moved m w g (int k) (grid_history g - k)))"
  proof (rule wp_mono [OF pulled_up [OF g1(1) _ g1(6), of d, unfolded g1(3)]], simp add: d_def, elim conjE)
    fix u
    assume u: "grid_wf u" "same_frame g1 u" "grid_history u = min (grid_history g1 + d) (max_scroll_limit g1)"
      "\<forall>l. has_line u l \<longrightarrow> grid_line u l = (if l < int m - int d then grid_line g1 (l + int d) else replicate (g_columns g1) 0)"
    have md: "int m - int d = int n + int k" using k(1) assms(2) by (simp add: d_def)
    have hu: "grid_history u - (m - n) = grid_history g - k"
      using u(3) k hist by (auto simp: g1 d_def k_def min_def split: if_splits)
    have co: "cursor_ok n w (gcursor g1)" "cursor_ok n w (saved_cursor g1)" using g(4,5) g1 by simp_all
    have nk: "n + k \<le> m" using k(1) assms(2) by simp
    show "wp (decrease_scroll_limit
      ((move_cursors u (\<lambda>c. at_row (row (cpos c) + int k) c))\<lparr>display_offset := display_offset u - (m - n)\<rparr>) (m - n))
      (lines_moved m w g (int k) (grid_history g - k))"
    proof (rule wp_mono [OF cursors_pulled_down [OF u(1,2) g1(3,4) co nk]], elim conjE)
      fix h
      assume h: "grid_ok m w h" "grid_history h = grid_history u - (m - n)" "max_scroll_limit h = max_scroll_limit g1"
        "gcursor h = at_row (cur_line g1 + int k) (gcursor g1)" "\<forall>l. has_line h l \<longrightarrow> has_line u l \<and> grid_line h l = grid_line u l"
      have "grid_line h l = (if l - int k < int n then grid_line g (l - int k) else replicate w 0)" if l: "has_line h l" for l
      proof -
        have "- int (grid_history g - k) \<le> l" using l h(2) hu by (simp add: has_line_def)
        then show ?thesis using l h(5) u(4) lines [of l] md g1(4) by auto
      qed
      with h hu g1 g(2) show "lines_moved m w g (int k) (grid_history g - k) h" by (simp add: lines_moved_def)
    qed
  qed
  moreover have "grid_grow_lines g m = Option.bind (if d \<noteq> 0 then Grid.scroll_up g1 (0, int m) d else Some g1)
      (\<lambda>u. decrease_scroll_limit
        ((move_cursors u (\<lambda>c. at_row (row (cpos c) + int k) c))\<lparr>display_offset := display_offset u - (m - n)\<rparr>) (m - n))"
  proof -
    have "usub m (g_lines g) = Some (m - n)" using assms(2) g(2) by (simp add: usub_def)
    moreover have "display_offset (move_cursors u f) = display_offset u" for u f by (simp add: move_cursors_def)
    moreover have "(g\<lparr>raw := s\<rparr>)\<lparr>g_lines := m\<rparr> = g1" by (simp add: g1_def)
    moreover have "(k \<noteq> m - n) = (d \<noteq> 0)" using k(4) by simp
    ultimately show ?thesis
      unfolding grid_grow_lines_def
      by (simp only: s(1) Option.bind.simps Let_def g1(2) k_def [symmetric] d_def [symmetric])
  qed
  ultimately show ?thesis by (simp only: wp_bind)
qed

lemma cut_bottom:
  assumes "grid_wf u" "0 < m" "m \<le> g_lines u"
  shows "\<exists>s s'. on_raw u (rotate (raw u) (int (g_lines u - m))) = Some (u\<lparr>raw := s\<rparr>) \<and>
    on_raw (u\<lparr>raw := s\<rparr>) (shrink_visible_lines s m) = Some (u\<lparr>raw := s'\<rparr>) \<and>
    grid_wf (u\<lparr>raw := s', g_lines := m\<rparr>) \<and> grid_history (u\<lparr>raw := s', g_lines := m\<rparr>) = grid_history u \<and>
    (\<forall>l. has_line (u\<lparr>raw := s', g_lines := m\<rparr>) l \<longrightarrow> grid_line (u\<lparr>raw := s', g_lines := m\<rparr>) l = grid_line u l)"
proof -
  let ?n = "g_lines u - m"
  have w: "storage_wf (g_columns u) (raw u)" "visible_lines (raw u) = g_lines u" "g_lines u \<le> st_len (raw u)"
    "st_len (raw u) \<le> length (inner (raw u))"
    using assms(1) by (auto simp: grid_wf_def storage_wf_def)
  have len: "?n \<le> length (inner (raw u))" using w(3,4) by linarith
  obtain s where s: "rotate (raw u) (int ?n) = Some s" "storage_wf (g_columns u) s" "st_len s = st_len (raw u)"
    "visible_lines s = g_lines u" "\<forall>k. k + ?n < st_len (raw u) \<longrightarrow> ring s ! k = ring (raw u) ! (k + ?n)"
    using rotate_forward_ok [OF w(1) len] unfolding w(2) by blast
  obtain s' where s': "shrink_visible_lines s m = Some s'" "storage_wf (g_columns u) s'"
    "ring s' = take (st_len s - ?n) (ring s)" "st_len s' = st_len s - ?n" "visible_lines s' = m"
    using shrink_visible_lines_ok [OF s(2) assms(2)] s(4) assms(3) by auto
  let ?h = "u\<lparr>raw := s', g_lines := m\<rparr>"
  have hist: "grid_history ?h = grid_history u" using s(3) s'(4) assms(3) w(3) by (simp add: grid_history_raw)
  then have wf: "grid_wf ?h" using assms s' by (simp add: grid_wf_def)
  have "grid_line ?h l = grid_line u l" if l: "has_line ?h l" for l
  proof -
    have "pos_of s' l < st_len s'" using l has_line_in_store [OF wf] by (simp add: pos_of_less)
    moreover have "pos_of (raw u) l = pos_of s' l + ?n" using l s'(5) w(2) assms(3) by (auto simp: pos_of_def has_line_def)
    ultimately show ?thesis using s(3,5) s'(3,4) by (simp add: grid_line_def row_at_def)
  qed
  with hist wf s(1) s'(1) show ?thesis by (auto simp: on_raw_def)
qed

lemma at_row_same [simp]: "at_row (row (cpos c)) c = c"
  by (simp add: at_row_def)

lemma shrink_lines_effect:
  assumes "grid_ok n w g" "0 < m" "m \<le> n" "template (gcursor g) = 0"
  defines "k \<equiv> nat (cur_line g) + 1 - m"
  shows "wp (grid_shrink_lines g m) (lines_moved m w g (- int k) (min (grid_history g + k) (max_scroll_limit g)))"
proof -
  note g = grid_okD [OF assms(1)]
  have c: "0 \<le> cur_line g" "cur_line g < int n" "k \<le> n - m" "k \<noteq> 0 \<Longrightarrow> cur_line g - int k = int m - 1" "k = 0 \<Longrightarrow> cur_line g < int m"
    using g(4) assms(2) by (auto simp: cursor_ok_def k_def)
  then have ck: "0 \<le> cur_line g - int k" "cur_line g - int k < int m" "k \<noteq> 0 \<longrightarrow> min (cur_line g) (int m - 1) = cur_line g - int k"
    using assms(2) by (cases "k = 0"; simp)+
  have as: "as_usize (cur_line g) + 1 - m = k" using c(1) by (simp add: k_def as_usize_def)
  let ?cut = "\<lambda>u. usub (g_lines u) m \<bind> (\<lambda>i. on_raw u (rotate (raw u) (int i)) \<bind>
    (\<lambda>u. on_raw u (shrink_visible_lines (raw u) m) \<bind> (\<lambda>u. Some (u\<lparr>g_lines := m\<rparr>))))"
  let ?fit = "\<lambda>u. if k \<noteq> 0 then u\<lparr>gcursor := at_row (min (cur_line u) (int m - 1)) (gcursor u)\<rparr> else u"
  let ?saved = "\<lambda>u. u\<lparr>saved_cursor := at_row (min (row (cpos (saved_cursor u))) (int m - 1)) (saved_cursor u)\<rparr>"
  let ?cur = "\<lambda>u. u\<lparr>gcursor := at_row (cur_line g - int k) (gcursor g),
    saved_cursor := at_row (min (row (cpos (saved_cursor u))) (int m - 1)) (saved_cursor u)\<rparr>"
  have main: "wp (if k \<noteq> 0 then Grid.scroll_up g (0, int (g_lines g)) k else Some g)
    (\<lambda>u. wp (?cut (?saved (?fit u))) (lines_moved m w g (- int k) (min (grid_history g + k) (max_scroll_limit g))))"
  proof (rule wp_mono [OF pulled_up [OF g(1) _ assms(4)]])
    show "k \<le> g_lines g" using c(3) g(2) by simp
    fix u
    assume u: "grid_wf u \<and> same_frame g u \<and> grid_history u = min (grid_history g + k) (max_scroll_limit g) \<and>
      (\<forall>l. has_line u l \<longrightarrow> grid_line u l = (if l < int (g_lines g) - int k then grid_line g (l + int k) else replicate (g_columns g) 0))"
    have v: "grid_wf (?cur u)" "g_lines (?cur u) = n" "grid_history (?cur u) = grid_history u" "\<And>l. grid_line (?cur u) l = grid_line u l"
      using u g(2) by (auto simp: grid_wf_def same_frame_def grid_history_raw grid_line_def)
    obtain s s' where s: "on_raw (?cur u) (rotate (raw (?cur u)) (int (n - m))) = Some ((?cur u)\<lparr>raw := s\<rparr>)"
      "on_raw ((?cur u)\<lparr>raw := s\<rparr>) (shrink_visible_lines s m) = Some ((?cur u)\<lparr>raw := s'\<rparr>)"
      "grid_wf ((?cur u)\<lparr>raw := s', g_lines := m\<rparr>)" "grid_history ((?cur u)\<lparr>raw := s', g_lines := m\<rparr>) = grid_history u"
      "\<forall>l. has_line ((?cur u)\<lparr>raw := s', g_lines := m\<rparr>) l \<longrightarrow> grid_line ((?cur u)\<lparr>raw := s', g_lines := m\<rparr>) l = grid_line u l"
      using cut_bottom [OF v(1) assms(2)] assms(3) unfolding v(2-4) by blast
    let ?h = "(?cur u)\<lparr>raw := s', g_lines := m\<rparr>"
    have us: "usub (g_lines u) m = Some (n - m)" using v(2) assms(3) by (simp add: usub_def)
    have "grid_ok m w ?h"
      using s(3) u g ck assms(2) by (auto simp: grid_ok_def same_frame_def cursor_ok_def at_row_def)
    moreover have "grid_line ?h l = (if l - - int k < int n then grid_line g (l - - int k) else replicate w 0)"
      if l: "has_line ?h l" for l
    proof -
      have "has_line u l" "l + int k < int n" using l s(4) u g(2) c(3) assms(3) by (auto simp: has_line_def same_frame_def)
      with s(5) l u g(2) show ?thesis by simp
    qed
    ultimately have "lines_moved m w g (- int k) (min (grid_history g + k) (max_scroll_limit g)) ?h"
      using s(4) u g(2) by (simp add: lines_moved_def same_frame_def)
    moreover have "?saved (?fit u) = ?cur u" using u ck(3) by (auto simp: same_frame_def)
    ultimately show "wp (?cut (?saved (?fit u))) (lines_moved m w g (- int k) (min (grid_history g + k) (max_scroll_limit g)))"
      using s(1,2) us by (simp add: wp_Some)
  qed
  moreover have "grid_shrink_lines g m =
      (if k \<noteq> 0 then Grid.scroll_up g (0, int (g_lines g)) k else Some g) \<bind> (\<lambda>u. ?cut (?saved (?fit u)))"
    unfolding grid_shrink_lines_def as Let_def by (cases "k = 0") (simp_all add: g(2))
  ultimately show ?thesis by (simp only: wp_bind)
qed

end
