(* ===== verification/ResizeColumns.thy ===== *)
theory ResizeColumns
  imports ResizeLines
begin

text \<open>
  More and fewer columns: the loops of \<open>grow_columns\<close> and \<open>shrink_columns\<close> return, give rows of the new width and
  keep the text.
\<close>

subsection \<open>The text of rows\<close>

definition shown :: "square \<Rightarrow> bool" where
  \<comment> \<open>a cell with a character; tabs and place holders for wrapped wide characters do not count\<close>
  "shown c \<longleftrightarrow> sq_c c \<noteq> 0 \<and> sq_c c \<noteq> 9 \<and> sq_wide c \<noteq> LeadingSpacer"

definition cells_text :: "square list \<Rightarrow> rstring" where
  "cells_text cs = map sq_c (filter shown cs)"

definition rows_text :: "square grid_row list \<Rightarrow> rstring" where
  \<comment> \<open>of a list of rows from the bottom up\<close>
  "rows_text rs = concat (map (\<lambda>r. cells_text (cells r)) (rev rs))"

lemma cells_text_simps [simp]:
  "cells_text [] = []" "cells_text (c # cs) = (if shown c then [sq_c c] else []) @ cells_text cs"
  "cells_text (xs @ ys) = cells_text xs @ cells_text ys"
  by (simp_all add: cells_text_def)

lemma rows_text_simps [simp]:
  "rows_text [] = []" "rows_text (r # rs) = rows_text rs @ cells_text (cells r)"
  "rows_text (rs @ qs) = rows_text qs @ rows_text rs"
  by (simp_all add: rows_text_def)

lemma rows_text_take: "k \<le> m \<Longrightarrow> length (rows_text (take k rs)) \<le> length (rows_text (take m rs))"
proof -
  assume "k \<le> m"
  then have "take m rs = take k rs @ drop k (take m rs)"
    by (metis append_take_drop_id min.absorb1 take_take)
  then show ?thesis by (metis le_add2 length_append rows_text_simps(3))
qed

lemma shown_wrapline [simp]: "shown (sq_set_wrapline c b) = shown c" "sq_c (sq_set_wrapline c b) = sq_c c"
  using fieldsD [OF fields_set_wrapline [of c b]] by (simp_all add: shown_def)

lemma not_shown: "sq_is_empty c \<Longrightarrow> \<not> shown c" "sq_wide c = LeadingSpacer \<Longrightarrow> \<not> shown c" "\<not> shown leading_spacer" "\<not> shown 0"
  by (auto simp: shown_def sq_is_empty_def leading_spacer_def sq_simps split: if_splits)

lemma cells_text_none: "\<forall>c \<in> set cs. \<not> shown c \<Longrightarrow> cells_text cs = []"
  by (simp add: cells_text_def)

lemma cells_text_cut: "cells_text (take k cs) @ cells_text (drop k cs) = cells_text cs"
  by (metis append_take_drop_id cells_text_simps(3))

lemma cells_text_drop: "length (cells_text (drop k cs)) \<le> length (cells_text cs)"
  using arg_cong [OF cells_text_cut [of k cs], of length] by simp

lemma cells_text_blank [simp]: "cells_text (replicate n 0) = []"
  by (rule cells_text_none) (simp add: not_shown)

lemma clear_text: "row_is_clear sq_is_empty r \<Longrightarrow> cells_text (cells r) = []"
  by (rule cells_text_none) (auto simp: row_is_clear_def list_all_iff not_shown)

lemma row_last_mut_wrap [simp]:
  "cells_text (cells (row_last_mut r (\<lambda>c. sq_set_wrapline c b))) = cells_text (cells r)"
  "length (cells (row_last_mut r f)) = length (cells r)"
proof -
  show "cells_text (cells (row_last_mut r (\<lambda>c. sq_set_wrapline c b))) = cells_text (cells r)"
    by (cases "cells r" rule: rev_cases) (simp_all add: row_last_mut_def)
  show "length (cells (row_last_mut r f)) = length (cells r)" by (simp add: row_last_mut_def)
qed

lemma rposition_after:
  "c \<in> set (drop (case rposition P xs of None \<Rightarrow> 0 | Some i \<Rightarrow> i + 1) xs) \<Longrightarrow> \<not> P c"
proof (cases "rposition P xs")
  case None
  with rposition_None [OF this] show "c \<in> set (drop (case rposition P xs of None \<Rightarrow> 0 | Some i \<Rightarrow> i + 1) xs) \<Longrightarrow> \<not> P c"
    by (auto simp: in_set_conv_nth)
next
  case (Some i)
  with rposition_Some [OF this] show "c \<in> set (drop (case rposition P xs of None \<Rightarrow> 0 | Some i \<Rightarrow> i + 1) xs) \<Longrightarrow> \<not> P c"
    by (auto simp: in_set_conv_nth)
qed

lemma row_shrink_cells:
  assumes "row_shrink sq_is_empty r k = (r', w)"
  shows "cells r' = take k (cells r)"
    and "cells_text (take k (cells r)) @ cells_text (case w of None \<Rightarrow> [] | Some cs \<Rightarrow> cs) = cells_text (cells r)"
    and "length (case w of None \<Rightarrow> [] | Some cs \<Rightarrow> cs) \<le> length (cells r) - k"
    and "w \<noteq> None \<Longrightarrow> k < length (cells r)"
proof -
  define new where "new = drop k (cells r)"
  define j where "j = (case rposition (\<lambda>c. \<not> sq_is_empty c) new of None \<Rightarrow> 0 | Some i \<Rightarrow> i + 1)"
  have "\<not> shown c" if "c \<in> set (drop j new)" for c
    using rposition_after [OF that [unfolded j_def]] not_shown(1) by blast
  then have "cells_text (take j new) = cells_text new"
    using cells_text_cut [of j new] cells_text_none [of "drop j new"] by simp
  moreover have "cells_text (take k (cells r)) @ cells_text new = cells_text (cells r)"
    using cells_text_cut [of k "cells r"] by (simp add: new_def)
  moreover have "row_shrink sq_is_empty r k = (if length (cells r) \<le> k then (r, None)
      else (r\<lparr>cells := take k (cells r), occ := min (occ r) k, dirty := True\<rparr>, if take j new = [] then None else Some (take j new)))"
    by (simp add: row_shrink_def Let_def new_def j_def)
  moreover have "length (take j new) \<le> length (cells r) - k" by (simp add: new_def)
  ultimately   show "cells r' = take k (cells r)"
    "cells_text (take k (cells r)) @ cells_text (case w of None \<Rightarrow> [] | Some cs \<Rightarrow> cs) = cells_text (cells r)"
    "length (case w of None \<Rightarrow> [] | Some cs \<Rightarrow> cs) \<le> length (cells r) - k"
    "w \<noteq> None \<Longrightarrow> k < length (cells r)"
    using assms by (auto split: if_splits)
qed

subsection \<open>More columns\<close>

definition flow_ok :: "nat \<Rightarrow> nat \<Rightarrow> grid \<Rightarrow> grid \<Rightarrow> bool" where
  \<comment> \<open>what the loops keep: everything but the cursor's position and the display offset\<close>
  "flow_ok n w g h \<longleftrightarrow> g_lines h = n \<and> g_columns h = w \<and> raw h = raw g \<and> max_scroll_limit h = max_scroll_limit g \<and>
     g_style_set h = g_style_set g \<and> g_extras h = g_extras g \<and> saved_cursor h = saved_cursor g \<and>
     0 \<le> cur_line h \<and> cur_line h < int n \<and> charsets (gcursor h) = charsets (gcursor g)"

lemma buffer_line: "flow_ok n w g h \<Longrightarrow> cursor_buffer_line h = Some (nat (int n - 1 - cur_line h))"
  by (auto simp: flow_ok_def cursor_buffer_line_def usub_def as_usize_def nat_diff_distrib')

lemma clamp_cursor:
  assumes "0 < screen_lines d" "0 < columns d"
  shows "\<exists>q. pos_grid_clamp p d BCursor = Some q \<and> 0 \<le> row q \<and> row q < int (screen_lines d) \<and> col q < columns d \<and>
    row q \<le> max (row p) 0"
  using assms
  by (auto simp: pos_grid_clamp_def last_column_def usub_def Let_def bottommost_line_def)

lemma sub_cursor:
  assumes "0 < screen_lines d" "0 < columns d"
  shows "\<exists>q. pos_sub p d BCursor k = Some q \<and> 0 \<le> row q \<and> row q < int (screen_lines d) \<and> col q < columns d \<and>
    row q \<le> max (row p) 0"
  using clamp_cursor [OF assms, of "pos_sub_raw p d k"] pos_sub_raw [OF assms(2), of p BCursor k]
  by (auto simp: pos_sub_raw_def intro: order_trans [of _ _ "max (row p) 0"])

lemma reflow_cursor_ok:
  assumes "flow_ok n w g h" "0 < w"
  shows "\<exists>h' d. reflow_cursor h r k = Some (h', d) \<and> 0 \<le> d \<and> flow_ok n w g h' \<and> col (cpos (gcursor h')) < w \<and> cur_line h' = cur_line h"
proof -
  have d: "0 < screen_lines (grid_dims h)" "0 < columns (grid_dims h)" "screen_lines (grid_dims h) = n" "columns (grid_dims h) = w"
    "0 \<le> cur_line h"
    using assms by (auto simp: flow_ok_def grid_dims_def)
  obtain p where p: "pos_sub (cpos (gcursor h)) (grid_dims h) BCursor k = Some p" "row p \<le> cur_line h" "col p < w" "0 \<le> row p"
    using sub_cursor [OF d(1,2), of "cpos (gcursor h)" k] d by auto
  obtain q where q: "pos_sub p (grid_dims h) BCursor 1 = Some q" "row q \<le> cur_line h" "col q < w"
    using sub_cursor [OF d(1,2), of p 1] d p(2,4) by auto
  show ?thesis
    using p q assms(1) by (auto simp: reflow_cursor_def Let_def flow_ok_def at_col_def)
qed

lemma pull_cells_ok:
  assumes "cells s \<noteq> []" "row_len s < w" "cells r \<noteq> []"
  shows "wp (pull_cells w s r) (\<lambda>(s', r', k). row_len s' \<le> w \<and> row_len r' \<le> row_len r \<and>
    length (cells_text (cells r')) \<le> length (cells_text (cells r)) \<and>
    cells_text (cells s') @ cells_text (cells r') = cells_text (cells s) @ cells_text (cells r))"
proof -
  define s1 where "s1 = row_last_mut s (\<lambda>c. sq_set_wrapline c False)"
  define s2 where "s2 = (if row_len s1 \<ge> 1 \<and> sq_wide (last (cells s1)) = LeadingSpacer
    then fst (row_shrink sq_is_empty s1 (row_len s1 - 1)) else s1)"
  have "cells_text (butlast (cells s1)) = cells_text (cells s1)" if "sq_wide (last (cells s1)) = LeadingSpacer"
    using that by (cases "cells s1" rule: rev_cases) (simp_all add: not_shown)
  moreover have "cells (fst (row_shrink sq_is_empty s1 (row_len s1 - 1))) = butlast (cells s1)"
    using row_shrink_cells(1) [OF prod.collapse [symmetric]] by (simp add: row_len_def butlast_conv_take)
  ultimately have s2: "cells_text (cells s2) = cells_text (cells s)" "row_len s2 < w"
    using assms(1,2) by (auto simp: s2_def s1_def row_len_def)
  define n where "n = min (row_len r) (w - row_len s2)"
  have n: "0 < n" "n \<le> row_len r" "n \<le> w - row_len s2" using assms(3) s2(2) by (auto simp: n_def row_len_def)
  show ?thesis
    unfolding pull_cells_def Let_def s1_def [symmetric] s2_def [symmetric] n_def [symmetric]
    using n s2 cells_text_cut [of _ "cells r"] cells_text_drop [of _ "cells r"]
    by (auto simp: wp_simps row_index_def row_front_split_off_def row_append_def row_len_def n_def [symmetric] not_shown)
qed

definition growing :: "nat \<Rightarrow> nat \<Rightarrow> grid \<Rightarrow> grow_state \<Rightarrow> bool" where
  "growing n w g st \<longleftrightarrow> (case st of (h, acc, delta) \<Rightarrow>
     flow_ok n w g h \<and> col (cpos (gcursor h)) < w \<and> (\<forall>r \<in> set acc. row_len r \<le> w))"

definition lines_below :: "nat \<Rightarrow> grid \<Rightarrow> nat" where
  \<comment> \<open>how many lines of the screen are below the cursor\<close>
  "lines_below n h = nat (int n - 1 - cur_line h)"

definition grown_by :: "grow_state \<Rightarrow> square grid_row list \<Rightarrow> grow_state \<Rightarrow> bool" where
  \<comment> \<open>the rows have the text of these as well\<close>
  "grown_by st rs st' \<longleftrightarrow> (case (st, st') of ((h, acc, _), (h', acc', _)) \<Rightarrow>
     length acc' \<le> length acc + length rs \<and> rows_text acc' = rows_text acc @ rows_text rs)"

definition below_step :: "nat \<Rightarrow> nat \<Rightarrow> square grid_row \<Rightarrow> grow_state \<Rightarrow> grow_state \<Rightarrow> bool" where
  \<comment> \<open>a row below the cursor is added below the cursor, or is used up and the cursor has one line less below it;
    the lowest rows gain no more text than it has\<close>
  "below_step n i r st st' \<longleftrightarrow> (case (st, st') of ((h, acc, _), (h', acc', _)) \<Rightarrow>
     if i < lines_below n h
     then \<exists>e \<le> 1. lines_below n h' + 1 = lines_below n h + e \<and> length acc' = length acc + e \<and>
       (\<forall>m. length (rows_text (take (m + e) acc')) \<le> length (rows_text (take m acc)) + length (cells_text (cells r)))
     else lines_below n h' = lines_below n h)"

lemma grow_pulled_ok:
  assumes "growing n w g (h, s # rest, delta)" "0 < w" "row_len s' \<le> w" "row_len r' \<le> w"
    and "cells_text (cells s') @ cells_text (cells r') = cells_text (cells s) @ cells_text (cells r)"
    and "length (cells_text (cells r')) \<le> length (cells_text (cells r))"
  shows "wp (grow_pulled reflow i h s' rest delta r' k)
    (\<lambda>st. growing n w g st \<and> grown_by (h, s # rest, delta) [r] st \<and> below_step n i r (h, s # rest, delta) st)"
proof -
  have h: "flow_ok n w g h" "col (cpos (gcursor h)) < w" "\<forall>r \<in> set rest. row_len r \<le> w"
    using assms(1) by (auto simp: growing_def)
  let ?b = "lines_below n h"
    and ?Q = "\<lambda>st. growing n w g st \<and> grown_by (h, s # rest, delta) [r] st \<and> below_step n i r (h, s # rest, delta) st"
  have b: "cursor_buffer_line h = Some ?b" using buffer_line [OF h(1)] by (simp add: lines_below_def)
  obtain h' d where c: "reflow_cursor h r' k = Some (h', d)" "0 \<le> d" "flow_ok n w g h'" "col (cpos (gcursor h')) < w" "cur_line h' = cur_line h"
    using reflow_cursor_ok [OF h(1) assms(2)] by blast
  have len: "length (cells_text (cells s')) + length (cells_text (cells r')) = length (cells_text (cells s)) + length (cells_text (cells r))"
    using arg_cong [OF assms(5), of length] by simp
  have pushed: "length (rows_text (take (m + 1) (push_wrapped s' rest r'))) \<le>
      length (rows_text (take m (s # rest))) + length (cells_text (cells r))" for m
    using len assms(6) by (cases m) (simp_all add: push_wrapped_def)
  have skipped: "length (rows_text (take m (s' # rest))) \<le> length (rows_text (take m (s # rest))) + length (cells_text (cells r))" for m
    using len by (cases m) simp_all
  have push: "?Q (u, push_wrapped s' rest r', e)"
    if u: "flow_ok n w g u" "col (cpos (gcursor u)) < w" "cur_line u = cur_line h" for u e
  proof -
    have "below_step n i r (h, s # rest, delta) (u, push_wrapped s' rest r', e)"
      using pushed u(3) by (auto simp: below_step_def lines_below_def push_wrapped_def intro!: exI [of _ "1::nat"])
    then show ?thesis using u h(3) assms(3-5) by (auto simp: growing_def grown_by_def push_wrapped_def row_len_def)
  qed
  have skip: "?Q (u, s' # rest, e)"
    if u: "row_is_clear sq_is_empty r'" "flow_ok n w g u" "col (cpos (gcursor u)) < w"
      "lines_below n u = (if i < ?b then ?b - 1 else ?b)" for u e
  proof -
    have "below_step n i r (h, s # rest, delta) (u, s' # rest, e)"
      using skipped u(4) by (auto simp: below_step_def intro!: exI [of _ "0::nat"])
    then show ?thesis using u h(3) assms(3,5) clear_text [OF u(1)] by (auto simp: growing_def grown_by_def)
  qed
  show ?thesis
  proof (cases "i = ?b \<and> reflow")
    case True
    have "lines_below n h' = (if i < ?b then ?b - 1 else ?b)" using True c(5) by (simp add: lines_below_def)
    then show ?thesis
      using True b c push [OF c(3-5)] skip [OF _ c(3,4)] by (simp add: grow_pulled_def wp_simps Let_def)
  next
    case False
    show ?thesis
    proof (cases "row_is_clear sq_is_empty r'")
      case True
      define u where "u = (if i < display_offset h then h\<lparr>display_offset := display_offset h - 1\<rparr> else h)"
      define v where "v = (if i < ?b then u\<lparr>gcursor := at_row (cur_line u + 1) (gcursor u)\<rparr> else u)"
      have "flow_ok n w g v" "col (cpos (gcursor v)) < w" "lines_below n v = (if i < ?b then ?b - 1 else ?b)"
        using h(1,2) by (auto simp: u_def v_def flow_ok_def at_row_def lines_below_def)
      from skip [OF True this] False True b show ?thesis
        by (auto simp: grow_pulled_def wp_simps Let_def simp flip: u_def v_def)
    next
      case clear: False
      from push [OF h(1,2) refl] False clear b show ?thesis by (auto simp: grow_pulled_def wp_simps Let_def)
    qed
  qed
qed

lemma grow_row_ok:
  assumes "growing n w g st" "0 < w" "cells r \<noteq> []" "row_len r \<le> w"
  shows "wp (grow_row reflow w st (i, r)) (\<lambda>st'. growing n w g st' \<and> grown_by st [r] st' \<and> below_step n i r st st')"
proof -
  obtain h acc delta where st: "st = (h, acc, delta)" by (cases st)
  show ?thesis
  proof (cases "\<exists>s rest. acc = s # rest \<and> should_reflow reflow w s")
    case True
    then obtain s rest where s: "acc = s # rest" "should_reflow reflow w s" by blast
    then have "cells s \<noteq> []" "row_len s < w" by (auto simp: should_reflow_def row_len_def)
    from pull_cells_ok [OF this assms(3)] obtain s' r' k where p: "pull_cells w s r = Some (s', r', k)"
      "row_len s' \<le> w" "row_len r' \<le> row_len r" "length (cells_text (cells r')) \<le> length (cells_text (cells r))"
      "cells_text (cells s') @ cells_text (cells r') = cells_text (cells s) @ cells_text (cells r)"
      by (auto simp: wp_iff)
    have "row_len r' \<le> w" using p(3) assms(4) by simp
    from grow_pulled_ok [OF assms(1) [unfolded st s(1)] assms(2) p(2) this p(5,4)] show ?thesis
      by (simp add: st s grow_row_def p(1) wp_simps)
  next
    case False
    then have "grow_row reflow w st (i, r) = Some (h, r # acc, delta)"
      by (auto simp: st grow_row_def split: list.split)
    moreover have "below_step n i r st (h, r # acc, delta)"
      by (auto simp: st below_step_def intro!: exI [of _ "1::nat"])
    ultimately show ?thesis using assms(1,4) by (simp add: wp_Some st growing_def grown_by_def)
  qed
qed

text \<open>While the rows from the top down to the one with the cursor are joined, the cursor's distance from the bottom stays;
  after that, the rows that are below the cursor by now have no more text than the rows below it that are done.\<close>

definition below_bound :: "nat \<Rightarrow> nat \<Rightarrow> square grid_row list \<Rightarrow> nat \<Rightarrow> grow_state \<Rightarrow> bool" where
  \<comment> \<open>\<open>j\<close> of the rows \<open>rs\<close> are left, \<open>c\<close> are below the cursor at first\<close>
  "below_bound n c rs j st \<longleftrightarrow> (case st of (h, acc, _) \<Rightarrow>
     if c < j then lines_below n h = c
     else j \<le> lines_below n h \<and> lines_below n h - j \<le> length acc \<and>
       length (rows_text (take (lines_below n h - j) acc)) \<le> length (rows_text (drop j (take c rs))))"

lemma below_bound_step:
  assumes "below_bound n c rs (Suc j) st" "below_step n j (rs ! j) st st'" "c \<le> length rs"
  shows "below_bound n c rs j st'"
proof -
  obtain h acc d h' acc' d' where st: "st = (h, acc, d)" "st' = (h', acc', d')" by (cases st, cases st')
  let ?b = "lines_below n h" and ?b' = "lines_below n h'"
  consider "c < Suc j" "c < j" | "c = j" | "Suc j \<le> c" by linarith
  then show ?thesis
  proof cases
    case 3
    then have b: "Suc j \<le> ?b" "?b - Suc j \<le> length acc"
      "length (rows_text (take (?b - Suc j) acc)) \<le> length (rows_text (drop (Suc j) (take c rs)))"
      using assms(1) by (auto simp: below_bound_def st)
    then obtain e where e: "e \<le> 1" "?b' + 1 = ?b + e" "length acc' = length acc + e"
      "\<And>m. length (rows_text (take (m + e) acc')) \<le> length (rows_text (take m acc)) + length (cells_text (cells (rs ! j)))"
      using assms(2) by (auto simp: below_step_def st)
    have "drop j (take c rs) = rs ! j # drop (Suc j) (take c rs)"
      using 3 assms(3) Cons_nth_drop_Suc [of j "take c rs"] by simp
    moreover have "?b' - j = (?b - Suc j) + e" using b(1) e(2) by simp
    ultimately show ?thesis
      using 3 b e(2,3) e(4) [of "?b - Suc j"] by (auto simp: below_bound_def st)
  qed (use assms(1,2) in \<open>auto simp: below_bound_def below_step_def st\<close>)
qed

lemma grow_rows_ok:
  assumes "growing n w g (h, [], 0)" "0 < w" "\<forall>r \<in> set rs. cells r \<noteq> [] \<and> row_len r \<le> w" "lines_below n h < length rs"
  shows "wp (foldM (grow_row reflow w) (h, [], 0) (rev (enumerate 0 rs)))
    (\<lambda>st. growing n w g st \<and> grown_by (h, [], 0) rs st \<and> below_bound n (lines_below n h) rs 0 st)"
proof -
  let ?st = "(h, [], 0)" and ?c = "lines_below n h"
  let ?I = "\<lambda>ys st'. growing n w g st' \<and> grown_by ?st (rev (map snd ys)) st' \<and> below_bound n ?c rs (length rs - length ys) st'"
  have "wp (foldM (grow_row reflow w) ?st (rev (enumerate 0 rs))) (?I (rev (enumerate 0 rs)))"
  proof (rule wp_foldM)
    show "?I [] ?st" using assms(1,4) by (simp add: grown_by_def below_bound_def)
  next
    fix ys x zs st'
    assume x: "rev (enumerate 0 rs) = ys @ x # zs" and I: "?I ys st'"
    have l: "length rs = length ys + Suc (length zs)" using arg_cong [OF x, of length] by simp
    have "x = rev (enumerate 0 rs) ! length ys" by (simp add: x)
    then have ir: "x = (length zs, rs ! length zs)" using l by (simp add: rev_nth nth_enumerate_eq)
    have r: "cells (rs ! length zs) \<noteq> []" "row_len (rs ! length zs) \<le> w" using assms(3) l by simp_all
    have j: "length rs - length ys = Suc (length zs)" "length rs - length (ys @ [x]) = length zs" using l by simp_all
    from I have "growing n w g st'" by simp
    from grow_row_ok [OF this assms(2) r, of reflow "length zs"] show "wp (grow_row reflow w st' x) (?I (ys @ [x]))"
      unfolding ir
    proof (rule wp_mono)
      fix st'' assume s: "growing n w g st'' \<and> grown_by st' [rs ! length zs] st'' \<and> below_step n (length zs) (rs ! length zs) st' st''"
      have "below_bound n ?c rs (length zs) st''"
        using I s assms(4) unfolding j by (intro below_bound_step [of n ?c rs "length zs" st']) auto
      with s I show "?I (ys @ [(length zs, rs ! length zs)]) st''"
        using j(2) by (auto simp: ir grown_by_def split: prod.splits)
    qed
  qed
  then show ?thesis by (simp flip: rev_map)
qed

lemma blank_rows: "0 < w \<Longrightarrow> \<exists>rows. replicate_rows 0 k w = Some rows \<and> length rows = k \<and> rows_text rows = [] \<and> (\<forall>r \<in> set rows. row_len r = w)"
  by (auto simp: replicate_rows_def row_new_def check_def rows_text_def row_len_def)

lemma fill_viewport_ok:
  assumes "growing n w g (h, acc, delta)" "0 < w"
  shows "wp (fill_viewport w (h, acc, delta)) (\<lambda>(h', acc', delta'). growing n w g (h', acc', delta') \<and>
    n \<le> length acc' \<and> length acc' \<le> max (length acc) n \<and> rows_text acc' = rows_text acc \<and>
    (\<forall>k \<le> lines_below n h'. length (rows_text (take k acc')) \<le> length (rows_text (take (lines_below n h) acc))))"
proof (cases "length acc < n")
  case True
  obtain rows where rows: "replicate_rows 0 (n - length acc) w = Some rows" "length rows = n - length acc" "rows_text rows = []"
    "\<forall>r \<in> set rows. row_len r = w" using blank_rows [OF assms(2)] by blast
  define u where "u = h\<lparr>gcursor := at_row (max (cur_line h - int (n - length acc)) 0) (gcursor h)\<rparr>"
  have h: "0 \<le> cur_line h" "cur_line h < int n" "g_lines h = n" using assms(1) by (auto simp: growing_def flow_ok_def)
  then have b: "lines_below n u \<le> lines_below n h + length rows"
    by (auto simp: u_def lines_below_def at_row_def rows(2))
  have "length (rows_text (take k (rows @ acc))) \<le> length (rows_text (take (lines_below n h) acc))" if "k \<le> lines_below n u" for k
    using rows_text_take [of "k - length rows" "lines_below n h" acc] rows_text_take [of k "length rows" rows] rows(3) that b
    by (cases "k \<le> length rows") auto
  moreover have "fill_viewport w (h, acc, delta) = Some (u, rows @ acc, delta)"
    using True h(3) rows(1) by (simp add: fill_viewport_def u_def Let_def)
  moreover have "growing n w g (u, rows @ acc, delta)"
    using assms(1) rows(4) h by (auto simp: growing_def flow_ok_def at_row_def u_def)
  ultimately show ?thesis using True rows(2,3) by (simp add: wp_Some)
next
  case False
  with assms(1) show ?thesis
    using rows_text_take [of _ "lines_below n h" acc] by (auto simp: fill_viewport_def wp_simps growing_def flow_ok_def)
qed

lemma pull_content_ok:
  assumes "growing n w g (h, acc, delta)" "n \<le> length acc"
  shows "wp (pull_content (h, acc, delta)) (\<lambda>(h', acc'). growing n w g (h', acc', delta) \<and> n \<le> length acc' \<and>
    (\<exists>k \<le> lines_below n h. acc' = drop k acc))"
proof (cases "delta = 0")
  case True
  with assms show ?thesis by (auto simp: pull_content_def wp_simps intro: exI [of _ 0])
next
  case False
  have h: "flow_ok n w g h" "g_lines h = n" using assms(1) by (auto simp: growing_def flow_ok_def)
  define a where "a = min (nat (int n - 1 - cur_line h)) (length acc - n)"
  have a: "a \<le> length acc - n" "a \<le> lines_below n h" by (auto simp: a_def lines_below_def)
  let ?over = "delta - a" and ?k = "min a delta"
  let ?h = "h\<lparr>gcursor := at_row (max (cur_line h - int ?over) 0) (gcursor h)\<rparr>"
  have k: "length acc - (length acc + ?over - delta) = ?k" "delta \<le> length acc + ?over" "n \<le> length acc - ?k"
    using a(1) assms(2) by (cases "a \<le> delta"; simp)+
  have "usub (length acc) n = Some (length acc - n)" "usub (length acc + ?over) delta = Some (length acc + ?over - delta)"
    using assms(2) k(2) by (simp_all only: usub_def if_True)
  then have "pull_content (h, acc, delta) = Some (?h, drop ?k acc)"
    using False by (simp only: pull_content_def prod.case buffer_line [OF h(1)] h(2) Option.bind.simps Let_def k(1) if_True simp_thms
        a_def [symmetric])
  moreover have "growing n w g (?h, drop ?k acc, delta)"
    using assms(1) by (auto simp: growing_def flow_ok_def at_row_def dest: in_set_dropD)
  moreover have "n \<le> length (drop ?k acc)" using k(3) by (simp only: length_drop)
  moreover have "?k \<le> lines_below n h" using a(2) by simp
  ultimately show ?thesis by (simp only: wp_Some prod.case) blast
qed

subsection \<open>The new storage\<close>

definition store_text :: "grid \<Rightarrow> rstring" where
  \<comment> \<open>from the oldest line of the history to the last of the screen\<close>
  "store_text g = rows_text (ring (raw g))"

lemma ring_replaced: "ring (replace_inner s v) = v"
  by (rule nth_equalityI) (simp_all add: ring_def replace_inner_def)

lemma replaced_ok:
  assumes "flow_ok n w g h" "visible_lines (raw g) = n" "0 < n" "0 < w" "style_inv (g_style_set g)" "extras_inv (g_extras g)"
    and "n \<le> length v" "length v \<le> max_scroll_limit g + n" "\<forall>r \<in> set v. row_len r = w"
  shows "grid_wf (h\<lparr>raw := replace_inner (raw h) v, display_offset := d\<rparr>)"
    "grid_history (h\<lparr>raw := replace_inner (raw h) v, display_offset := d\<rparr>) = length v - n"
    "store_text (h\<lparr>raw := replace_inner (raw h) v, display_offset := d\<rparr>) = rows_text v"
proof -
  show hist: "grid_history (h\<lparr>raw := replace_inner (raw h) v, display_offset := d\<rparr>) = length v - n"
    using assms(1) by (simp add: grid_history_raw replace_inner_def flow_ok_def)
  show "grid_wf (h\<lparr>raw := replace_inner (raw h) v, display_offset := d\<rparr>)"
    using assms hist by (auto simp: grid_wf_def storage_wf_def replace_inner_def flow_ok_def row_len_def)
  show "store_text (h\<lparr>raw := replace_inner (raw h) v, display_offset := d\<rparr>) = rows_text v"
    by (simp add: store_text_def ring_replaced)
qed

lemma take_all_ok:
  assumes "grid_wf g"
  shows "\<exists>s. take_all (raw g) = (s, ring (raw g)) \<and> visible_lines s = g_lines g"
    and "\<forall>(i, r) \<in> set (rev (enumerate 0 (ring (raw g)))). cells r \<noteq> [] \<and> row_len r = g_columns g"
    and "map snd (rev (enumerate 0 (ring (raw g)))) = rev (ring (raw g))"
    and "length (ring (raw g)) \<le> max_scroll_limit g + g_lines g" "g_lines g \<le> length (ring (raw g))"
    and "\<forall>r \<in> set (ring (raw g)). cells r \<noteq> [] \<and> row_len r = g_columns g"
proof -
  have s: "storage_wf (g_columns g) (raw g)" "visible_lines (raw g) = g_lines g" "0 < g_lines g" "g_lines g \<le> st_len (raw g)"
    "0 < g_columns g" "st_len (raw g) - g_lines g \<le> max_scroll_limit g"
    using assms by (auto simp: grid_wf_def storage_wf_def grid_history_raw)
  then have "0 < st_len (raw g)" by simp
  from truncate_ring [OF s(1) this] s(2) show "\<exists>s. take_all (raw g) = (s, ring (raw g)) \<and> visible_lines s = g_lines g"
    by (simp add: take_all_def Let_def)
  have len: "length (cells r) = g_columns g" if "r \<in> set (ring (raw g))" for r
    using that s(1) compute_index_less [OF s(1)] by (auto simp: ring_def storage_wf_def)
  then show "\<forall>r \<in> set (ring (raw g)). cells r \<noteq> [] \<and> row_len r = g_columns g"
    using s(5) by (fastforce simp: row_len_def)
  from len show "\<forall>(i, r) \<in> set (rev (enumerate 0 (ring (raw g)))). cells r \<noteq> [] \<and> row_len r = g_columns g"
    using s(5) by (fastforce simp: row_len_def enumerate_eq_zip dest: set_zip_rightD)
  show "map snd (rev (enumerate 0 (ring (raw g)))) = rev (ring (raw g))" by (simp flip: rev_map)
  show "length (ring (raw g)) \<le> max_scroll_limit g + g_lines g" "g_lines g \<le> length (ring (raw g))" using s by simp_all
qed

lemma suffix_of_suffix:
  assumes "xs @ ys = us @ vs" "length ys \<le> length vs"
  shows "\<exists>ks. vs = ks @ ys"
  using assms by (auto simp: append_eq_append_conv2)

definition below_text :: "grid \<Rightarrow> rstring" where
  \<comment> \<open>the text of the lines of the screen below the cursor\<close>
  "below_text g = rows_text (take (lines_below (g_lines g) g) (ring (raw g)))"

lemma grow_columns_ok:
  assumes "grid_ok n w g" "w < w'"
  shows "wp (grow_columns reflow w' g) (\<lambda>h. grid_ok n w' h \<and>
    (\<exists>lost kept. store_text g = store_text h @ lost \<and> below_text g = kept @ lost))"
proof -
  note g = grid_okD [OF assms(1)]
  have n: "0 < n" "0 < w'" using g(1,2) assms(2) by (auto simp: grid_wf_def)
  obtain s where s: "take_all (raw g) = (s, ring (raw g))" "visible_lines s = n" using take_all_ok(1) [OF g(1)] g(2) by auto
  note rows = take_all_ok(2-6) [OF g(1), unfolded g(2,3)]
  define g1 where "g1 = (unwrap_cursor reflow (g\<lparr>g_columns := w'\<rparr>))\<lparr>raw := s\<rparr>"
  have g1: "growing n w' g1 (g1, [], 0)" "cur_line g1 = cur_line g" "visible_lines (raw g1) = n" "max_scroll_limit g1 = max_scroll_limit g"
    "style_inv (g_style_set g1)" "extras_inv (g_extras g1)" "saved_cursor g1 = saved_cursor g" "charsets (gcursor g1) = charsets (gcursor g)"
    using g assms(2) s(2) by (auto simp: g1_def growing_def flow_ok_def unwrap_cursor_def cursor_ok_def at_col_def)
  define c where "c = lines_below n g1"
  have c: "c < length (ring (raw g))" "below_text g = rows_text (take c (ring (raw g)))"
    using g(1,2,4) rows(4) n(1) g1(2) by (auto simp: c_def lines_below_def below_text_def cursor_ok_def)
  obtain h acc delta where f: "foldM (grow_row reflow w') (g1, [], 0) (rev (enumerate 0 (ring (raw g)))) = Some (h, acc, delta)"
    "growing n w' g1 (h, acc, delta)" "grown_by (g1, [], 0) (ring (raw g)) (h, acc, delta)" "below_bound n c (ring (raw g)) 0 (h, acc, delta)"
    using grow_rows_ok [OF g1(1) n(2), of "ring (raw g)" reflow] rows(5) assms(2) c(1) unfolding c_def wp_iff by fastforce
  obtain h2 acc2 d2 where f2: "fill_viewport w' (h, acc, delta) = Some (h2, acc2, d2)" "growing n w' g1 (h2, acc2, d2)"
    "n \<le> length acc2" "length acc2 \<le> max (length acc) n" "rows_text acc2 = rows_text acc"
    "\<And>k. k \<le> lines_below n h2 \<Longrightarrow> length (rows_text (take k acc2)) \<le> length (rows_text (take (lines_below n h) acc))"
    using fill_viewport_ok [OF f(2) n(2)] by (auto simp: wp_iff)
  obtain h3 k where f3: "pull_content (h2, acc2, d2) = Some (h3, drop k acc2)" "growing n w' g1 (h3, drop k acc2, d2)"
    "n \<le> length (drop k acc2)" "k \<le> lines_below n h2"
    using pull_content_ok [OF f2(2,3)] by (auto simp: wp_iff simp del: length_drop)
  define v where "v = map (\<lambda>r. row_grow 0 r w') (drop k acc2)"
  have len: "n \<le> length v" "length v \<le> max_scroll_limit g1 + n"
    using f3(3) f2(4) f(3) rows(3,4) g1(4) by (auto simp: v_def grown_by_def)
  have wide: "\<forall>r \<in> set v. row_len r = w'" using f3(2) by (auto simp: v_def growing_def row_grow_def row_len_def)
  have "cells_text (cells (row_grow 0 r w')) = cells_text (cells r)" for r by (simp add: row_grow_def)
  then have vt: "rows_text v = rows_text (drop k acc2)" by (simp add: v_def rows_text_def rev_map comp_def)
  have cut: "rows_text acc2 = rows_text (drop k acc2) @ rows_text (take k acc2)"
    by (metis append_take_drop_id rows_text_simps(3))
  have flow: "flow_ok n w' g1 h3" "col (cpos (gcursor h3)) < w'" using f3(2) by (simp_all add: growing_def)
  note new = replaced_ok [OF flow(1) g1(3) n g1(5,6) len wide]
  have "store_text g = rows_text v @ rows_text (take k acc2)"
    using f(3) f2(5) vt cut by (simp add: store_text_def grown_by_def)
  moreover have "\<exists>kept. below_text g = kept @ rows_text (take k acc2)"
  proof -
    have "length (rows_text (take k acc2)) \<le> length (below_text g)"
      using f2(6) [OF f3(4)] f(4) by (simp add: below_bound_def c(2))
    moreover have "store_text g = rows_text (drop c (ring (raw g))) @ below_text g"
      unfolding store_text_def c(2) by (metis append_take_drop_id rows_text_simps(3))
    ultimately show ?thesis
      using suffix_of_suffix \<open>store_text g = rows_text v @ rows_text (take k acc2)\<close> by metis
  qed
  moreover have "grid_ok n w' (h3\<lparr>raw := replace_inner (raw h3) v, display_offset := d\<rparr>)" for d
    using new(1) flow g(4,5) g1(7,8) assms(2) by (auto simp: grid_ok_def flow_ok_def cursor_ok_def)
  moreover have "\<exists>d. grow_columns reflow w' g = Some (h3\<lparr>raw := replace_inner (raw h3) v, display_offset := d\<rparr>)"
  proof -
    have "raw (unwrap_cursor reflow (g\<lparr>g_columns := w'\<rparr>)) = raw g" by (simp add: unwrap_cursor_def)
    then show ?thesis
      by (simp only: grow_columns_def Let_def s(1) prod.case g1_def [symmetric] f(1) Option.bind.simps f2(1) f3(1) v_def [symmetric])
        blast
  qed
  ultimately show ?thesis using new(3) by (auto simp: wp_iff)
qed

end
