(* ===== verification/ResizeShrink.thy ===== *)
theory ResizeShrink
  imports ResizeColumns
begin

text \<open>
  Fewer columns: the loop that cuts a row ends when at least two columns are left, because every turn leaves less
  to cut or moves the cursor to the left, and it keeps the text.
\<close>

subsection \<open>A turn of the loop\<close>

lemma set_last_wrap_simps [simp]:
  "cells_text (set_last_wrap b cs) = cells_text cs" "length (set_last_wrap b cs) = length cs"
  by (cases cs rule: rev_cases; simp add: set_last_wrap_def)+

lemma cut_row_ok:
  assumes "flow_ok n w g h" "w \<le> row_len r"
  shows "wp (cut_row reflow w i h r) (\<lambda>(r', x). row_len r' = w \<and> (case x of
      None \<Rightarrow> reflow \<longrightarrow> cells_text (cells r') = cells_text (cells r)
    | Some cs \<Rightarrow> reflow \<and> cells_text (cells r') @ cells_text cs = cells_text (cells r) \<and> length cs \<le> row_len r - w \<and>
        (w < row_len r \<or> int i = int n - 1 - cur_line h \<and> w < col (cpos (gcursor h)))))"
proof -
  obtain r' x where s: "row_shrink sq_is_empty r w = (r', x)" by (cases "row_shrink sq_is_empty r w")
  note c = row_shrink_cells [OF s]
  have len: "row_len r' = w" using c(1) assms(2) by (simp add: row_len_def)
  have b: "cursor_buffer_line h = Some (nat (int n - 1 - cur_line h))" "i = nat (int n - 1 - cur_line h) \<longleftrightarrow> int i = int n - 1 - cur_line h"
    using buffer_line [OF assms(1)] assms(1) by (auto simp: flow_ok_def)
  show ?thesis
  proof (cases "x = None \<or> \<not> reflow")
    case True
    then have "cut_row reflow w i h r =
        Some (r', if reflow \<and> int i = int n - 1 - cur_line h \<and> col (cpos (gcursor h)) > w then Some [] else None)"
      unfolding b(2) [symmetric] using b(1) by (auto simp: cut_row_def s split: option.split)
    with c len True show ?thesis by (auto simp: wp_simps row_len_def)
  next
    case False
    then obtain cs where "x = Some cs" by auto
    then show ?thesis using c len False by (simp add: cut_row_def s wp_simps row_len_def)
  qed
qed

lemma keep_wide_ok:
  assumes "row_len r = w" "0 < w"
  shows "wp (keep_wide w r cs) (\<lambda>(r', cs'). row_len r' = w \<and> length cs' \<le> Suc (length cs) \<and>
    cells_text (cells r') @ cells_text cs' = cells_text (cells r) @ cells_text cs)"
proof -
  obtain ds c where d: "cells r = ds @ [c]" using assms by (cases "cells r" rule: rev_cases) (auto simp: row_len_def)
  then have "w - 1 = length ds" "row_index r (w - 1) = Some c" "idx (cells r) (w - 1) = Some c"
    using assms by (auto simp: row_len_def row_index_def idx_def)
  with d assms show ?thesis
    by (auto simp: keep_wide_def wp_simps row_index_mut_def row_len_def usub_def Suc_le_eq not_shown)
qed

lemma wrap_rest_ok:
  assumes "flow_ok n w g h"
  shows "\<exists>h' r'. wrap_rest w i h acc cs = Some (h', acc, r') \<and> flow_ok n w g h' \<and> row_len r' = max w (length cs) \<and>
    cells_text (cells r') = cells_text cs \<and> col (cpos (gcursor h')) \<le> col (cpos (gcursor h)) \<and>
    (int i = int n - 1 - cur_line h \<and> w \<le> col (cpos (gcursor h)) \<longrightarrow> col (cpos (gcursor h')) = col (cpos (gcursor h)) - w)"
proof -
  have b: "cursor_buffer_line h = Some (nat (int n - 1 - cur_line h))" "int i = int n - 1 - cur_line h \<longleftrightarrow> i = nat (int n - 1 - cur_line h)"
    using buffer_line [OF assms] assms by (auto simp: flow_ok_def)
  show ?thesis
    unfolding b(2) using assms
    by (auto simp: wrap_rest_def b(1) Let_def flow_ok_def at_row_def at_col_def row_from_vec_def row_len_def)
qed

lemma mark_last_cell:
  assumes "row_len r = w" "0 < w"
  shows "wp (row_index_mut r (w - 1) (\<lambda>c. sq_set_wrapline c b)) (\<lambda>s. row_len s = w \<and> cells_text (cells s) = cells_text (cells r))"
proof -
  obtain ds c where d: "cells r = ds @ [c]" using assms by (cases "cells r" rule: rev_cases) (auto simp: row_len_def)
  then have "w - 1 = length ds" using assms by (simp add: row_len_def)
  with d assms show ?thesis by (simp add: wp_simps row_index_mut_def row_len_def)
qed

definition turn_ok :: "nat \<Rightarrow> nat \<Rightarrow> bool \<Rightarrow> nat \<Rightarrow> grid \<Rightarrow> shrink_state \<Rightarrow> shrink_result + shrink_state \<Rightarrow> bool" where
  \<comment> \<open>one more row of the new width, less to do, and the same text\<close>
  "turn_ok n w reflow i g st res \<longleftrightarrow> (case st of (h, acc, r) \<Rightarrow> (case res of
      Inl (h', acc', b) \<Rightarrow> flow_ok n w g h' \<and> (\<exists>s. acc' = s # acc \<and> row_len s = w) \<and> (b \<noteq> None \<longrightarrow> 1 \<le> i) \<and>
        (reflow \<longrightarrow> rows_text acc' @ cells_text (case b of None \<Rightarrow> [] | Some cs \<Rightarrow> cs) = rows_text acc @ cells_text (cells r))
    | Inr (h', acc', r') \<Rightarrow> flow_ok n w g h' \<and> (\<exists>s. acc' = s # acc \<and> row_len s = w) \<and> w \<le> row_len r' \<and>
        row_len r' + col (cpos (gcursor h')) < row_len r + col (cpos (gcursor h)) \<and>
        (reflow \<longrightarrow> rows_text acc' @ cells_text (cells r') = rows_text acc @ cells_text (cells r))))"

lemma shrink_step_ok:
  assumes "flow_ok n w g h" "2 \<le> w" "w \<le> row_len r"
  shows "wp (shrink_step reflow w i (h, acc, r)) (turn_ok n w reflow i g (h, acc, r))"
proof -
  obtain s x where s: "cut_row reflow w i h r = Some (s, x)" "row_len s = w"
    "case x of None \<Rightarrow> reflow \<longrightarrow> cells_text (cells s) = cells_text (cells r)
    | Some cs \<Rightarrow> reflow \<and> cells_text (cells s) @ cells_text cs = cells_text (cells r) \<and> length cs \<le> row_len r - w \<and>
        (w < row_len r \<or> int i = int n - 1 - cur_line h \<and> w < col (cpos (gcursor h)))"
    using cut_row_ok [OF assms(1,3), of reflow i] by (auto simp: wp_iff)
  show ?thesis
  proof (cases x)
    case None
    with s assms show ?thesis by (simp add: shrink_step_def wp_simps turn_ok_def)
  next
    case (Some cs)
    with s(3) have cs: "reflow" "cells_text (cells s) @ cells_text cs = cells_text (cells r)" "length cs \<le> row_len r - w"
      "w < row_len r \<or> int i = int n - 1 - cur_line h \<and> w < col (cpos (gcursor h))" by simp_all
    have "0 < w" using assms(2) by simp
    from keep_wide_ok [OF s(2) this, of cs] obtain s' ds where k: "keep_wide w s cs = Some (s', ds)" "row_len s' = w"
      "length ds \<le> Suc (length cs)" "cells_text (cells s') @ cells_text ds = cells_text (cells s) @ cells_text cs"
      by (auto simp: wp_iff)
    define sp where "sp \<longleftrightarrow> ds \<noteq> [] \<and> sq_wide (last ds) = LeadingSpacer"
    define es where "es = (if sp then set_last_wrap True (butlast ds) else ds)"
    have es: "cells_text es = cells_text ds" "length es \<le> length ds"
      by (cases ds rule: rev_cases; simp add: es_def sp_def not_shown)+
    have last: "cells_text (cells (row_last_mut s' (\<lambda>c. sq_set_wrapline c True))) @ cells_text es = cells_text (cells r)"
      using es(1) k(4) cs(2) by simp
    have rl: "row_len (row_last_mut s' f) = w" for f using k(2) by (simp add: row_len_def)
    let ?next = "row_last_mut s' (\<lambda>c. sq_set_wrapline c True) # acc"
    have step: "shrink_step reflow w i (h, acc, r) =
        (if sp \<and> length ds = 1 then do {
           k \<leftarrow> usub w 1; t \<leftarrow> row_index_mut s' k (\<lambda>c. sq_set_wrapline c True); Some (Inl (h, t # acc, None)) }
         else if es \<noteq> [] \<and> sq_wrapline (last es) \<and> 1 \<le> i \<and> length es < w
         then Some (Inl (h, ?next, Some (set_last_wrap False es)))
         else map_option Inr (wrap_rest w i h ?next es))"
      unfolding shrink_step_def prod.case s(1) Some Option.bind.simps option.case k(1) Let_def sp_def [symmetric] es_def [symmetric] ..
    consider "sp \<and> length ds = 1" | "\<not> (sp \<and> length ds = 1)" "es \<noteq> [] \<and> sq_wrapline (last es) \<and> 1 \<le> i \<and> length es < w"
      | "\<not> (sp \<and> length ds = 1)" "\<not> (es \<noteq> [] \<and> sq_wrapline (last es) \<and> 1 \<le> i \<and> length es < w)" by blast
    then show ?thesis
    proof cases
      case 1
      then have "cells_text ds = []" by (cases ds) (auto simp: sp_def not_shown)
      with mark_last_cell [OF k(2)] \<open>0 < w\<close> assms(1) k(4) cs(2) show ?thesis
        unfolding step if_P [OF 1] by (auto simp: wp_simps turn_ok_def elim!: wp_mono)
    next
      case 2
      with last rl assms(1) show ?thesis
        unfolding step if_not_P [OF 2(1)] if_P [OF 2(2)] by (simp add: wp_Some turn_ok_def)
    next
      case 3
      obtain h' r' where w: "wrap_rest w i h ?next es = Some (h', ?next, r')" "flow_ok n w g h'" "row_len r' = max w (length es)"
        "cells_text (cells r') = cells_text es" "col (cpos (gcursor h')) \<le> col (cpos (gcursor h))"
        "int i = int n - 1 - cur_line h \<and> w \<le> col (cpos (gcursor h)) \<longrightarrow> col (cpos (gcursor h')) = col (cpos (gcursor h)) - w"
        using wrap_rest_ok [OF assms(1), of i ?next es] by blast
      have "row_len r' + col (cpos (gcursor h')) < row_len r + col (cpos (gcursor h))"
      proof (cases "w < row_len r")
        case True
        then have "row_len r' < row_len r" using w(3) es(2) k(3) cs(3) assms(2) by linarith
        with w(5) show ?thesis by linarith
      next
        case False
        then have "row_len r' \<le> row_len r" using w(3) es(2) k(3) cs(3) assms(2,3) by linarith
        moreover have "col (cpos (gcursor h')) < col (cpos (gcursor h))" using False cs(4) w(6) \<open>0 < w\<close> by linarith
        ultimately show ?thesis by linarith
      qed
      with w last rl show ?thesis
        unfolding step if_not_P [OF 3(1)] if_not_P [OF 3(2)] by (simp add: wp_Some turn_ok_def)
    qed
  qed
qed

subsection \<open>The loop\<close>

definition cut_ok :: "nat \<Rightarrow> nat \<Rightarrow> bool \<Rightarrow> nat \<Rightarrow> grid \<Rightarrow> square grid_row list \<Rightarrow> rstring \<Rightarrow> shrink_result \<Rightarrow> bool" where
  \<comment> \<open>some more rows of the new width; what is held back goes into the next row\<close>
  "cut_ok n w reflow i g acc str res \<longleftrightarrow> (case res of (h, acc', b) \<Rightarrow>
     flow_ok n w g h \<and> (\<exists>rs. rs \<noteq> [] \<and> acc' = rs @ acc \<and> (\<forall>r \<in> set rs. row_len r = w)) \<and> (b \<noteq> None \<longrightarrow> 1 \<le> i) \<and>
     (reflow \<longrightarrow> rows_text acc' @ cells_text (case b of None \<Rightarrow> [] | Some cs \<Rightarrow> cs) = str))"

lemma shrink_loop_ok:
  assumes "flow_ok n w g h" "2 \<le> w" "w \<le> row_len r"
  shows "\<exists>res. shrink_loop reflow w i (h, acc, r) = Some res \<and>
    cut_ok n w reflow i g acc (rows_text acc @ cells_text (cells r)) res"
  using assms
proof (induction "row_len r + col (cpos (gcursor h))" arbitrary: h acc r rule: less_induct)
  case less
  obtain res where s: "shrink_step reflow w i (h, acc, r) = Some res" "turn_ok n w reflow i g (h, acc, r) res"
    using shrink_step_ok [OF less.prems, of reflow i acc] unfolding wp_iff by blast
  show ?case
  proof (cases res)
    case (Inl d)
    obtain h' acc' b where d: "d = (h', acc', b)" by (cases d)
    then obtain s' where "acc' = [s'] @ acc" "row_len s' = w" using s(2) Inl by (auto simp: turn_ok_def)
    with s(2) have "cut_ok n w reflow i g acc (rows_text acc @ cells_text (cells r)) d"
      unfolding Inl d cut_ok_def turn_ok_def by fastforce
    with s(1) Inl show ?thesis by (subst shrink_loop.simps) simp
  next
    case (Inr st)
    obtain h' acc' r' where st: "st = (h', acc', r')" by (cases st)
    obtain s' where t: "flow_ok n w g h'" "acc' = s' # acc" "row_len s' = w" "w \<le> row_len r'"
      "row_len r' + col (cpos (gcursor h')) < row_len r + col (cpos (gcursor h))"
      "reflow \<longrightarrow> rows_text acc' @ cells_text (cells r') = rows_text acc @ cells_text (cells r)"
      using s(2) by (auto simp: turn_ok_def Inr st)
    from less.hyps [OF t(5,1) less.prems(2) t(4)] obtain res' where res': "shrink_loop reflow w i (h', acc', r') = Some res'"
      "cut_ok n w reflow i g acc' (rows_text acc' @ cells_text (cells r')) res'" by blast
    obtain h2 acc2 b where r2: "res' = (h2, acc2, b)" by (cases res')
    obtain rs where rs: "acc2 = rs @ acc'" "\<forall>r \<in> set rs. row_len r = w"
      using res'(2) unfolding r2 cut_ok_def prod.case by blast
    have "acc2 = (rs @ [s']) @ acc" "rs @ [s'] \<noteq> []" "\<forall>r \<in> set (rs @ [s']). row_len r = w" using rs t(2,3) by auto
    then have new: "\<exists>rs. rs \<noteq> [] \<and> acc2 = rs @ acc \<and> (\<forall>r \<in> set rs. row_len r = w)" by blast
    have "reflow \<longrightarrow> rows_text acc2 @ cells_text (case b of None \<Rightarrow> [] | Some cs \<Rightarrow> cs) = rows_text acc @ cells_text (cells r)"
      using res'(2) t(6) unfolding r2 cut_ok_def prod.case by simp
    with new res'(2) have "cut_ok n w reflow i g acc (rows_text acc @ cells_text (cells r)) res'"
      unfolding r2 cut_ok_def prod.case by blast
    with s(1) res'(1) Inr st show ?thesis by (subst shrink_loop.simps) simp
  qed
qed

definition shrinking :: "nat \<Rightarrow> nat \<Rightarrow> grid \<Rightarrow> bool \<Rightarrow> rstring \<Rightarrow> nat \<Rightarrow> shrink_result \<Rightarrow> bool" where
  \<comment> \<open>at least \<open>k\<close> rows of the new width with this text\<close>
  "shrinking n w g reflow str k res \<longleftrightarrow> (case res of (h, acc, b) \<Rightarrow>
     flow_ok n w g h \<and> k \<le> length acc \<and> (\<forall>r \<in> set acc. row_len r = w) \<and>
     (reflow \<longrightarrow> rows_text acc @ cells_text (case b of None \<Rightarrow> [] | Some cs \<Rightarrow> cs) = str))"

lemma shrink_row_ok:
  assumes "shrinking n w g reflow str k st" "2 \<le> w" "w \<le> row_len r"
  shows "\<exists>res. shrink_row reflow w st (i, r) = Some res \<and> shrinking n w g reflow (str @ cells_text (cells r)) (Suc k) res \<and>
    (snd (snd res) \<noteq> None \<longrightarrow> 1 \<le> i)"
proof -
  obtain h acc b where st: "st = (h, acc, b)" by (cases st)
  have h: "flow_ok n w g h" "k \<le> length acc" "\<forall>r \<in> set acc. row_len r = w"
    "reflow \<longrightarrow> rows_text acc @ cells_text (case b of None \<Rightarrow> [] | Some cs \<Rightarrow> cs) = str"
    using assms(1) by (auto simp: st shrinking_def)
  define cs where "cs = (case b of None \<Rightarrow> [] | Some cs \<Rightarrow> cs)"
  obtain h' r' where p: "shrink_row reflow w st (i, r) = shrink_loop reflow w i (h', acc, r')" "flow_ok n w g h'"
    "w \<le> row_len r'" "cells r' = cs @ cells r"
  proof (cases b)
    case None
    with that [of h r] h(1) assms(3) show ?thesis by (simp add: st shrink_row_def cs_def)
  next
    case (Some ds)
    let ?h = "if i = nat (int n - 1 - cur_line h)
      then h\<lparr>gcursor := at_col (col (cpos (gcursor h)) + length ds) (gcursor h)\<rparr> else h"
    have "flow_ok n w g ?h" using h(1) by (auto simp: flow_ok_def at_col_def)
    then show ?thesis
      using that [of ?h "row_append_front r ds"] assms(3)
      by (simp add: st shrink_row_def cs_def Some buffer_line [OF h(1)] Let_def row_append_front_def row_len_def)
  qed
  obtain res where res: "shrink_loop reflow w i (h', acc, r') = Some res"
    "cut_ok n w reflow i g acc (rows_text acc @ cells_text (cells r')) res"
    using shrink_loop_ok [OF p(2) assms(2) p(3)] by blast
  have e: "reflow \<longrightarrow> rows_text acc @ cells_text (cells r') = str @ cells_text (cells r)"
    using h(4) p(4) by (auto simp: cs_def)
  obtain h2 acc2 b2 where r2: "res = (h2, acc2, b2)" by (cases res)
  obtain rs where "rs \<noteq> []" "acc2 = rs @ acc" "\<forall>r \<in> set rs. row_len r = w"
    using res(2) unfolding r2 cut_ok_def prod.case by blast
  moreover have "Suc k \<le> length rs + length acc" using h(2) \<open>rs \<noteq> []\<close> by (cases rs) simp_all
  ultimately have "shrinking n w g reflow (str @ cells_text (cells r)) (Suc k) res" "b2 \<noteq> None \<longrightarrow> 1 \<le> i"
    using res(2) h(3) e by (auto simp: r2 cut_ok_def shrinking_def)
  with p(1) res(1) show ?thesis by (simp add: r2)
qed

lemma shrink_rows_ok:
  assumes "flow_ok n w g g" "2 \<le> w" "\<forall>r \<in> set rows. w \<le> row_len r" "rows \<noteq> []"
  shows "\<exists>h acc. foldM (shrink_row reflow w) (g, [], None) (rev (enumerate 0 rows)) = Some (h, acc, None) \<and>
    shrinking n w g reflow (rows_text rows) (length rows) (h, acc, None)"
proof -
  have "wp (foldM (shrink_row reflow w) (g, [], None) (rev (enumerate 0 rows)))
      ((\<lambda>ys st. shrinking n w g reflow (rows_text (rev (map snd ys))) (length ys) st \<and>
        (ys \<noteq> [] \<and> snd (snd st) \<noteq> None \<longrightarrow> 1 \<le> fst (last ys))) (rev (enumerate 0 rows)))"
  proof (rule wp_foldM)
    show "shrinking n w g reflow (rows_text (rev (map snd []))) (length []) (g, [], None) \<and>
        ([] \<noteq> [] \<and> snd (snd (g, [], None)) \<noteq> None \<longrightarrow> 1 \<le> fst (last []))"
      using assms(1) by (simp add: shrinking_def)
  next
    fix ys x zs st
    assume x: "rev (enumerate 0 rows) = ys @ x # zs" and I: "shrinking n w g reflow (rows_text (rev (map snd ys))) (length ys) st \<and>
        (ys \<noteq> [] \<and> snd (snd st) \<noteq> None \<longrightarrow> 1 \<le> fst (last ys))"
    obtain i r where ir: "x = (i, r)" by (cases x)
    have "x \<in> set (rev (enumerate 0 rows))" using x by simp
    then have "w \<le> row_len r" using assms(3) by (auto simp: ir enumerate_eq_zip dest: set_zip_rightD)
    from shrink_row_ok [OF conjunct1 [OF I] assms(2) this, of i] show
      "wp (shrink_row reflow w st x) (\<lambda>st'. shrinking n w g reflow (rows_text (rev (map snd (ys @ [x])))) (length (ys @ [x])) st' \<and>
        (ys @ [x] \<noteq> [] \<and> snd (snd st') \<noteq> None \<longrightarrow> 1 \<le> fst (last (ys @ [x]))))"
      by (auto simp: ir wp_iff)
  qed
  moreover have "fst (last (rev (enumerate 0 rows))) = 0" "rev (enumerate 0 rows) \<noteq> []"
    using assms(4) by (cases rows; simp add: last_rev enumerate_simps)+
  moreover have "rev (map snd (rev (enumerate 0 rows))) = rows" by (simp flip: rev_map)
  ultimately show ?thesis by (auto simp: wp_iff)
qed

subsection \<open>The columns\<close>

lemma place_cursor_ok:
  assumes "grid_wf g" "flow_ok n w g g" "length (charsets (gcursor g)) = 4"
    and "0 \<le> row (cpos (saved_cursor g))" "row (cpos (saved_cursor g)) < int n" "length (charsets (saved_cursor g)) = 4"
  shows "\<exists>c d. place_cursor reflow w g = Some (g\<lparr>gcursor := c, saved_cursor := d\<rparr>) \<and> grid_ok n w (g\<lparr>gcursor := c, saved_cursor := d\<rparr>)"
proof -
  let ?c = "gcursor g" and ?lc = "w - 1"
  have g: "g_lines g = n" "g_columns g = w" "0 \<le> cur_line g" "cur_line g < int n" "0 < w" "0 < n"
    using assms(1,2) by (auto simp: flow_ok_def grid_wf_def)
  then have lc: "usub w 1 = Some ?lc" "?lc < w" by (simp_all add: usub_def)
  have "has_line g (cur_line g)" using g by (simp add: has_line_def)
  with grid_cell_ok [OF assms(1), of "Pos (cur_line g) ?lc"] g lc(2) have cell: "\<exists>x. grid_cell g (Pos (cur_line g) ?lc) = Some x" by auto
  have dims: "0 < screen_lines (grid_dims g)" "0 < columns (grid_dims g)" "screen_lines (grid_dims g) = n" "columns (grid_dims g) = w"
    using g by (simp_all add: grid_dims_def)
  obtain q where q: "pos_grid_clamp (cpos ?c) (grid_dims g) BCursor = Some q" "0 \<le> row q" "row q < int n" "col q < w"
    using clamp_cursor [OF dims(1,2), of "cpos ?c"] dims(3,4) by auto
  obtain full where full: "(if reflow \<and> col (cpos ?c) = w then map_option (\<lambda>x. \<not> sq_wrapline x) (grid_cell g (Pos (cur_line g) ?lc))
      else Some False) = Some full" "full \<longrightarrow> col (cpos ?c) = w"
    using cell by (cases "reflow \<and> col (cpos ?c) = w") auto
  have "\<exists>c. (if \<not> reflow then Some (at_col (min (col (cpos ?c)) ?lc) ?c)
      else if full then do { k \<leftarrow> usub (col (cpos ?c)) 1; Some (at_col k (?c\<lparr>should_wrap := True\<rparr>)) }
      else map_option (\<lambda>p. ?c\<lparr>cpos := p\<rparr>) (pos_grid_clamp (cpos ?c) (grid_dims g) BCursor)) = Some c \<and> cursor_ok n w c"
    using full(2) q g lc assms(3) by (auto simp: cursor_ok_def at_col_def)
  then obtain c where "place_cursor reflow w g = Some (g\<lparr>gcursor := c, saved_cursor :=
      at_col (min (col (cpos (saved_cursor g))) ?lc) (saved_cursor g)\<rparr>)" "cursor_ok n w c"
    unfolding place_cursor_def lc(1) Option.bind.simps Let_def full(1) by auto
  moreover have "cursor_ok n w (at_col (min (col (cpos (saved_cursor g))) ?lc) (saved_cursor g))"
    using assms(4-6) lc(2) by (simp add: cursor_ok_def at_col_def)
  ultimately show ?thesis
    using assms(1) g by (auto simp: grid_ok_def grid_wf_def grid_history_raw)
qed

lemma shrink_columns_ok:
  assumes "grid_ok n w g" "2 \<le> w'" "w' < w"
  shows "wp (shrink_columns reflow w' g) (\<lambda>h. grid_ok n w' h \<and>
    (reflow \<longrightarrow> (\<exists>lost. store_text g = lost @ store_text h \<and> (lost = [] \<or> grid_history h = max_scroll_limit g))))"
proof -
  note g = grid_okD [OF assms(1)]
  have n: "0 < n" "0 < w'" using g(1,2) assms(2) by (auto simp: grid_wf_def)
  obtain s where s: "take_all (raw g) = (s, ring (raw g))" "visible_lines s = n" using take_all_ok(1) [OF g(1)] g(2) by auto
  note rows = take_all_ok(2-5) [OF g(1), unfolded g(2,3)]
  define g1 where "g1 = (unwrap_cursor reflow (g\<lparr>g_columns := w'\<rparr>))\<lparr>raw := s\<rparr>"
  have g1: "flow_ok n w' g1 g1" "visible_lines (raw g1) = n" "max_scroll_limit g1 = max_scroll_limit g"
    "style_inv (g_style_set g1)" "extras_inv (g_extras g1)" "saved_cursor g1 = saved_cursor g" "charsets (gcursor g1) = charsets (gcursor g)"
    using g s(2) by (auto simp: g1_def flow_ok_def unwrap_cursor_def cursor_ok_def at_col_def)
  have wide: "w' \<le> row_len r" if r: "r \<in> set (ring (raw g))" for r
  proof -
    obtain i where "i < length (ring (raw g))" "ring (raw g) ! i = r" using r unfolding in_set_conv_nth by blast
    then have "(i, r) \<in> set (rev (enumerate 0 (ring (raw g))))" by (auto simp: in_set_enumerate_eq)
    with rows(1) assms(3) show ?thesis by auto
  qed
  have "ring (raw g) \<noteq> []" using rows(4) n(1) by (metis list.size(3) not_less)
  then obtain h acc where f: "foldM (shrink_row reflow w') (g1, [], None) (rev (enumerate 0 (ring (raw g)))) = Some (h, acc, None)"
    "shrinking n w' g1 reflow (rows_text (ring (raw g))) (length (ring (raw g))) (h, acc, None)"
    using shrink_rows_ok [OF g1(1) assms(2), of "ring (raw g)" reflow] wide by blast
  have h: "flow_ok n w' g1 h" "\<forall>r \<in> set acc. row_len r = w'" "n \<le> length acc" "reflow \<longrightarrow> rows_text acc = store_text g"
    using f(2) rows(4) by (auto simp: shrinking_def store_text_def)
  define v where "v = take (max_scroll_limit h + g_lines h) acc"
  have limit: "max_scroll_limit h = max_scroll_limit g1" "g_lines h = n" using h(1) by (simp_all add: flow_ok_def)
  have v: "n \<le> length v" "length v \<le> max_scroll_limit g1 + n" "\<forall>r \<in> set v. row_len r = w'"
    using h(2,3) limit by (auto simp: v_def dest: in_set_takeD)
  note new = replaced_ok [OF h(1) g1(2) n g1(4,5) v]
  let ?k = "\<lambda>d. h\<lparr>raw := replace_inner (raw h) v, display_offset := d\<rparr>"
  have flow: "flow_ok n w' (?k d) (?k d)" "cursor_ok n w (saved_cursor (?k d))" "length (charsets (gcursor (?k d))) = 4" for d
    using h(1) g(4,5) g1(6,7) by (auto simp: flow_ok_def cursor_ok_def)
  have "\<exists>d. shrink_columns reflow w' g = place_cursor reflow w' (?k d)"
  proof -
    have "raw (unwrap_cursor reflow (g\<lparr>g_columns := w'\<rparr>)) = raw g" by (simp add: unwrap_cursor_def)
    then show ?thesis
      by (simp only: shrink_columns_def Let_def s(1) prod.case g1_def [symmetric] f(1) Option.bind.simps v_def [symmetric]) blast
  qed
  then obtain d where e: "shrink_columns reflow w' g = place_cursor reflow w' (?k d)" by blast
  obtain c x where p: "place_cursor reflow w' (?k d) = Some ((?k d)\<lparr>gcursor := c, saved_cursor := x\<rparr>)"
    "grid_ok n w' ((?k d)\<lparr>gcursor := c, saved_cursor := x\<rparr>)"
    using place_cursor_ok [OF new(1) flow(1,3)] flow(2) [of d] unfolding cursor_ok_def by blast
  let ?h = "(?k d)\<lparr>gcursor := c, saved_cursor := x\<rparr>"
  have "store_text ?h = rows_text v" "grid_history ?h = length v - n"
    using new(2,3) [of d] by (simp_all add: store_text_def grid_history_raw)
  moreover have "\<exists>lost. rows_text acc = lost @ rows_text v \<and> (lost = [] \<or> length v - n = max_scroll_limit g)"
  proof (intro exI conjI)
    show "rows_text acc = rows_text (drop (max_scroll_limit h + g_lines h) acc) @ rows_text v"
      unfolding v_def by (metis append_take_drop_id rows_text_simps(3))
    show "rows_text (drop (max_scroll_limit h + g_lines h) acc) = [] \<or> length v - n = max_scroll_limit g"
      using limit g1(3) by (auto simp: v_def)
  qed
  ultimately show ?thesis using e p h(4) by (auto simp: wp_Some)
qed

end
