(* ===== verification/ResizeProps.thy ===== *)
theory ResizeProps
  imports ResizeShrink EditProps
begin

text \<open>
  Resizing the grid and the terminal: it returns, keeps the invariant, moves the lines with the cursor and keeps the text.
\<close>

subsection \<open>The grid\<close>

definition with_template :: "grid \<Rightarrow> square \<Rightarrow> grid" where
  "with_template g x = g\<lparr>gcursor := (gcursor g)\<lparr>template := x\<rparr>\<rparr>"

lemma with_template_same [simp]:
  "raw (with_template g x) = raw g" "g_lines (with_template g x) = g_lines g" "g_columns (with_template g x) = g_columns g"
  "grid_history (with_template g x) = grid_history g" "max_scroll_limit (with_template g x) = max_scroll_limit g"
  "grid_line (with_template g x) = grid_line g" "has_line (with_template g x) = has_line g"
  "cpos (gcursor (with_template g x)) = cpos (gcursor g)" "template (gcursor (with_template g x)) = x"
  "store_text (with_template g x) = store_text g"
  by (simp_all add: with_template_def grid_history_raw grid_line_def has_line_def store_text_def fun_eq_iff)

lemma with_template_ok: "grid_ok n w g \<Longrightarrow> grid_ok n w (with_template g x)"
  unfolding with_template_def by (rule grid_update_ok(3)) (simp_all add: grid_ok_def cursor_ok_def)

lemma resize_lines_effect:
  assumes "grid_ok n w g" "0 < m"
  defines "d \<equiv> (if n \<le> m then int (min (grid_history g) (m - n)) else - int (nat (cur_line g) + 1 - m))"
    and "k \<equiv> (if n \<le> m then grid_history g - (m - n) else min (grid_history g + (nat (cur_line g) + 1 - m)) (max_scroll_limit g))"
  shows "wp (if n < m then grid_grow_lines (with_template g 0) m
      else if n > m then grid_shrink_lines (with_template g 0) m else Some (with_template g 0))
    (lines_moved m w (with_template g 0) d k)"
proof -
  let ?g = "with_template g 0"
  have g: "grid_ok n w ?g" "template (gcursor ?g) = 0" using assms(1) by (simp_all add: with_template_ok)
  consider "n < m" | "m < n" | "n = m" by linarith
  then show ?thesis
  proof cases
    case 1
    have "grid_history g - min (grid_history g) (m - n) = grid_history g - (m - n)" by simp
    with grow_lines_effect [OF g(1) less_imp_le [OF 1] g(2)] 1 show ?thesis
      unfolding d_def k_def with_template_same by (simp only: less_imp_le if_True)
  next
    case 2
    with shrink_lines_effect [OF g(1) assms(2) less_imp_le [OF 2] g(2)] show ?thesis
      unfolding d_def k_def with_template_same by (simp add: not_le)
  next
    case 3
    have "at_row (cur_line ?g) (gcursor ?g) = gcursor ?g" by (rule at_row_same)
    with 3 g(1) grid_okD [OF assms(1)] show ?thesis
      by (auto simp: wp_Some lines_moved_def d_def k_def has_line_def)
  qed
qed

lemma resize_columns_effect:
  assumes "grid_ok n w g" "2 \<le> w'"
  shows "wp (if w < w' then grow_columns reflow w' g else if w > w' then shrink_columns reflow w' g else Some g)
    (\<lambda>h. grid_ok n w' h \<and> (reflow \<and> w < w' \<longrightarrow> (\<exists>lost kept. store_text g = store_text h @ lost \<and> below_text g = kept @ lost)) \<and>
      (reflow \<and> w' < w \<longrightarrow> (\<exists>lost. store_text g = lost @ store_text h \<and> (lost = [] \<or> grid_history h = max_scroll_limit g))) \<and>
      (w' = w \<longrightarrow> h = g))"
proof -
  consider "w < w'" | "w' < w" | "w = w'" by linarith
  then show ?thesis
  proof cases
    case 1
    then show ?thesis using grow_columns_ok [OF assms(1) 1, of reflow] by (auto elim!: wp_mono)
  next
    case 2
    then show ?thesis using shrink_columns_ok [OF assms(1,2) 2, of reflow] by (auto elim!: wp_mono)
  next
    case 3
    with assms(1) show ?thesis by (simp add: wp_Some)
  qed
qed

lemma grid_resize_eq:
  assumes "grid_ok n w g"
  shows "grid_resize g reflow m w' =
    ((if n < m then grid_grow_lines (with_template g 0) m
      else if n > m then grid_shrink_lines (with_template g 0) m else Some (with_template g 0)) \<bind>
    (\<lambda>h. (if g_columns h < w' then grow_columns reflow w' h else if g_columns h > w' then shrink_columns reflow w' h else Some h) \<bind>
    (\<lambda>h. Some (with_template h (template (gcursor g))))))"
  using grid_okD(2) [OF assms] unfolding grid_resize_def Let_def with_template_def by simp

lemma grid_resize_ok:
  assumes "grid_ok n w g" "0 < m" "2 \<le> w'"
  shows "\<exists>h. grid_resize g reflow m w' = Some h \<and> grid_ok m w' h"
proof -
  have "wp (grid_resize g reflow m w') (grid_ok m w')"
    unfolding grid_resize_eq [OF assms(1)] wp_bind
  proof (rule wp_mono [OF resize_lines_effect [OF assms(1,2)]])
    fix h assume "lines_moved m w (with_template g 0)
      (if n \<le> m then int (min (grid_history g) (m - n)) else - int (nat (cur_line g) + 1 - m))
      (if n \<le> m then grid_history g - (m - n) else min (grid_history g + (nat (cur_line g) + 1 - m)) (max_scroll_limit g)) h"
    then have h: "grid_ok m w h" by (simp add: lines_moved_def)
    then show "wp (if g_columns h < w' then grow_columns reflow w' h else if g_columns h > w' then shrink_columns reflow w' h else Some h)
        (\<lambda>h. wp (Some (with_template h (template (gcursor g)))) (grid_ok m w'))"
      using resize_columns_effect [OF h assms(3), of reflow] unfolding grid_okD(3) [OF h]
      by (auto simp: wp_Some with_template_ok elim!: wp_mono)
  qed
  then show ?thesis by (simp add: wp_iff)
qed

definition grid_text :: "grid \<Rightarrow> rstring" where
  \<comment> \<open>the characters from the oldest line of the history to the last of the screen, without empty cells and tabs\<close>
  "grid_text g = concat (map (\<lambda>l. cells_text (grid_line g l)) [- int (grid_history g)..int (g_lines g) - 1])"

definition text_below :: "grid \<Rightarrow> rstring" where
  \<comment> \<open>the characters of the lines of the screen below the cursor\<close>
  "text_below g = concat (map (\<lambda>l. cells_text (grid_line g l)) [cur_line g + 1..int (g_lines g) - 1])"

lemma lowest_lines:
  assumes "grid_wf g" "k \<le> st_len (raw g)"
  shows "concat (map (\<lambda>l. cells_text (grid_line g l)) [int (g_lines g) - int k..int (g_lines g) - 1]) = rows_text (take k (ring (raw g)))"
proof -
  have s: "visible_lines (raw g) = g_lines g" "g_lines g \<le> st_len (raw g)" using assms by (auto simp: grid_wf_def storage_wf_def)
  have "map (grid_line g) [int (g_lines g) - int k..int (g_lines g) - 1] = map cells (rev (take k (ring (raw g))))"
  proof (rule nth_equalityI)
    show len: "length (map (grid_line g) [int (g_lines g) - int k..int (g_lines g) - 1]) = length (map cells (rev (take k (ring (raw g)))))"
      using assms(2) by simp
    fix i assume "i < length (map (grid_line g) [int (g_lines g) - int k..int (g_lines g) - 1])"
    then have i: "i < k" by simp
    then have "pos_of (raw g) (int (g_lines g) - int k + int i) = k - Suc i"
      using s by (simp add: pos_of_def)
    then show "map (grid_line g) [int (g_lines g) - int k..int (g_lines g) - 1] ! i = map cells (rev (take k (ring (raw g)))) ! i"
      using i assms(2) by (simp add: grid_line_def row_at_def rev_nth)
  qed
  then have "map cells_text (map (grid_line g) [int (g_lines g) - int k..int (g_lines g) - 1]) =
      map cells_text (map cells (rev (take k (ring (raw g)))))" by simp
  then show ?thesis by (simp add: rows_text_def comp_def)
qed

lemma grid_text_store:
  assumes "grid_wf g"
  shows "grid_text g = store_text g"
proof -
  have s: "visible_lines (raw g) = g_lines g" "g_lines g \<le> st_len (raw g)" using assms by (auto simp: grid_wf_def storage_wf_def)
  then have "int (g_lines g) - int (st_len (raw g)) = - int (grid_history g)" by (simp add: grid_history_raw)
  with lowest_lines [OF assms le_refl] show ?thesis by (simp add: grid_text_def store_text_def)
qed

lemma text_below_store:
  assumes "grid_wf g" "0 \<le> cur_line g"
  shows "text_below g = below_text g"
proof -
  have s: "g_lines g \<le> st_len (raw g)" using assms(1) by (auto simp: grid_wf_def storage_wf_def)
  show ?thesis
  proof (cases "cur_line g < int (g_lines g)")
    case True
    then have "int (g_lines g) - int (lines_below (g_lines g) g) = cur_line g + 1" "lines_below (g_lines g) g \<le> st_len (raw g)"
      using assms(2) s by (simp_all add: lines_below_def)
    with lowest_lines [OF assms(1) this(2)] show ?thesis by (simp add: text_below_def below_text_def)
  qed (simp add: text_below_def below_text_def lines_below_def)
qed

text \<open>C12. Another number of lines: the text and the cursor move together. With more lines as many lines as there are
  come back from the history and the rest of the new ones is blank, below the text; with fewer lines the text
  goes up just so far that the cursor's line stays on the screen, and what leaves the screen at the top becomes
  history, up to its limit. No line of the screen that is left and of the history that is left is changed.\<close>

theorem resize_lines:
  assumes "grid_ok n w g" "0 < m" "2 \<le> w"
  defines "d \<equiv> (if n \<le> m then int (min (grid_history g) (m - n)) else - int (nat (cur_line g) + 1 - m))"
  shows "\<exists>h. grid_resize g reflow m w = Some h \<and> grid_ok m w h \<and>
    gcursor h = at_row (cur_line g + d) (gcursor g) \<and>
    grid_history h = (if n \<le> m then grid_history g - (m - n) else min (grid_history g + nat (- d)) (max_scroll_limit g)) \<and>
    (\<forall>l. has_line h l \<longrightarrow> grid_line h l = (if l - d < int n then grid_line g (l - d) else replicate w 0))"
proof -
  let ?k = "if n \<le> m then grid_history g - (m - n) else min (grid_history g + (nat (cur_line g) + 1 - m)) (max_scroll_limit g)"
  obtain h where h: "(if n < m then grid_grow_lines (with_template g 0) m
      else if n > m then grid_shrink_lines (with_template g 0) m else Some (with_template g 0)) = Some h"
    "lines_moved m w (with_template g 0) d ?k h"
    using resize_lines_effect [OF assms(1,2)] unfolding d_def wp_iff by blast
  have ok: "grid_ok m w h" using h(2) by (simp add: lines_moved_def)
  have "grid_resize g reflow m w = Some (with_template h (template (gcursor g)))"
    using grid_okD(3) [OF ok] unfolding grid_resize_eq [OF assms(1)] h(1) by simp
  moreover have "gcursor (with_template h (template (gcursor g))) = at_row (cur_line g + d) (gcursor g)"
    using h(2) by (simp add: lines_moved_def with_template_def at_row_def)
  ultimately show ?thesis
    using h(2) with_template_ok [OF ok] grid_okD(2) [OF assms(1)] by (auto simp: lines_moved_def d_def)
qed

theorem resize_lines_witness:
  "\<exists>t h. goto (fresh 24 80) 20 0 = Some t \<and> grid_resize (cgrid t) True 10 80 = Some h \<and>
     cpos (gcursor h) = Pos 9 0 \<and> grid_history h = 11 \<and> has_line h (- 11)"
proof -
  note f = fresh_facts [of 24 80, simplified]
  obtain t where t: "goto (fresh 24 80) 20 0 = Some t" "term_inv 24 80 t" "cpos (cur t) = Pos 20 0"
    using goto_effect [OF f(2), of 20 0] fresh_origin
    by (auto simp: wp_iff moved_to_def goto_row_def term_inv_dims(4) [OF f(2)])
  moreover have "grid_history (cgrid t) = 0" "max_scroll_limit (cgrid t) = 100"
    using t(1) f(10,11)
    by (auto simp: goto_def bind_eq_Some_conv Let_def damage_cursor_def damage_line_def set_cur_row_def
        set_cur_col_def set_should_wrap_def with_cursor_def grid_history_raw split: if_splits)
  ultimately show ?thesis
    using resize_lines [OF term_inv_gridD [OF t(2)], of 10 True] by (auto simp: at_row_def has_line_def)
qed

text \<open>C11. Another number of columns keeps the text: rows that wrap are joined and cut again, and the characters of
  the history and the screen, read from the top, stay the same in the same order. A wider grid can lose the
  end of it, but only characters of lines below the cursor (nothing if the cursor is on the last line); a narrower one
  loses the beginning only when the history is full.\<close>

theorem reflow_keeps_text:
  assumes "grid_ok n w g" "2 \<le> w'"
  shows "\<exists>h. grid_resize g True n w' = Some h \<and> grid_ok n w' h \<and>
    (w < w' \<longrightarrow> (\<exists>lost kept. grid_text g = grid_text h @ lost \<and> text_below g = kept @ lost)) \<and>
    (w' < w \<longrightarrow> (\<exists>lost. grid_text g = lost @ grid_text h \<and> (lost = [] \<or> grid_history h = max_scroll_limit g)))"
proof -
  let ?g = "with_template g 0"
  have g: "grid_ok n w ?g" by (rule with_template_ok [OF assms(1)])
  obtain h where h: "(if w < w' then grow_columns True w' ?g else if w > w' then shrink_columns True w' ?g else Some ?g) = Some h"
    "grid_ok n w' h" "w < w' \<longrightarrow> (\<exists>lost kept. store_text ?g = store_text h @ lost \<and> below_text ?g = kept @ lost)"
    "w' < w \<longrightarrow> (\<exists>lost. store_text ?g = lost @ store_text h \<and> (lost = [] \<or> grid_history h = max_scroll_limit ?g))"
    using resize_columns_effect [OF g assms(2), of True] by (auto simp: wp_iff)
  let ?h = "with_template h (template (gcursor g))"
  have "grid_resize g True n w' = (if w < w' then grow_columns True w' ?g else if w > w' then shrink_columns True w' ?g else Some ?g) \<bind>
      (\<lambda>h. Some (with_template h (template (gcursor g))))"
    using grid_okD(3) [OF assms(1)] unfolding grid_resize_eq [OF assms(1)] by simp
  then have "grid_resize g True n w' = Some ?h" unfolding h(1) by simp
  moreover have "grid_text g = store_text g" "grid_text ?h = store_text h"
    using grid_text_store grid_okD(1) [OF assms(1)] grid_okD(1) [OF with_template_ok [OF h(2)]] by simp_all
  moreover have "text_below g = below_text ?g"
    using grid_okD(4) [OF assms(1)] text_below_store [OF grid_okD(1) [OF assms(1)]]
    by (simp add: cursor_ok_def below_text_def with_template_def lines_below_def)
  ultimately show ?thesis using h with_template_ok [OF h(2)] by simp
qed

lemma fresh_text: "cells_text (map (written_cell (fresh 24 80)) [0x68, 0x69] @ replicate k 0) = [0x68, 0x69]"
  by (simp add: shown_def fieldsD [OF fresh_cell [of 24 80]])

theorem reflow_keeps_text_witness:
  "\<exists>u h. foldM (input plain_env) (fresh 24 80) [0x68, 0x69] = Some u \<and> cur_line (cgrid u) = 0 \<and>
     grid_resize (cgrid u) True 24 100 = Some h \<and> grid_text h = [0x68, 0x69]"
proof -
  let ?cs = "[0x68, 0x69] :: rstring"
  obtain u where u: "foldM (input plain_env) (fresh 24 80) ?cs = Some u" "term_inv 24 80 u" "grid_history (cgrid u) = 0"
    "line_at u 0 = map (written_cell (fresh 24 80)) ?cs @ replicate 78 0" "\<forall>l. 0 < l \<and> l < 24 \<longrightarrow> line_at u l = replicate 80 0"
    "cur_line (cgrid u) = 0"
    using typing_on_fresh [of 24 80 ?cs plain_env] by (auto simp: plain_width PLACEHOLDER_def simp del: foldM.simps)
  have g: "grid_ok 24 80 (cgrid u)" and lines: "g_lines (cgrid u) = 24"
    using term_inv_gridD [OF u(2)] term_invD(2) [OF u(2)] by simp_all
  have split: "[- int 0..int 24 - 1] = 0 # [1..23::int]" by (simp add: upto_rec1)
  have rest: "concat (map (\<lambda>l. cells_text (line_at u l)) [1..23]) = []" using u(5) by simp
  have "cells_text (line_at u 0) = [0x68, 0x69]" unfolding u(4) by (rule fresh_text)
  then have "grid_text (cgrid u) = [0x68, 0x69]" unfolding grid_text_def lines u(3) split list.map concat.simps rest by simp
  moreover have "text_below (cgrid u) = []" unfolding text_below_def lines u(6) using rest by simp
  ultimately show ?thesis using reflow_keeps_text [OF g, of 100] u(1,6) by auto
qed

subsection \<open>The terminal\<close>

text \<open>C10. Resizing the terminal returns without a panic for at least one line and two columns, whatever the screens,
  the history, the selection and the placements are, and the invariant holds for the new size.\<close>

theorem term_resize_total:
  assumes "term_inv n w t" "0 < m" "2 \<le> w'"
  shows "\<exists>u. term_resize cell t m w' = Some u \<and> term_inv m w' u"
proof (cases "grid_col_count t = w' \<and> screen_line_count t = m")
  case True
  with assms show ?thesis
    using term_invD(2,3) [OF assms(1)] by (auto simp: term_resize_def grid_col_count_def screen_line_count_def)
next
  case False
  have ok: "grid_ok n w (cgrid t)" "grid_ok n w (inactive_grid t)" using assms(1) by (simp_all add: term_inv_def)
  define is_alt where "is_alt = mode_on t M_ALT_SCREEN"
  obtain g where g: "grid_resize (cgrid t) (\<not> is_alt) m w' = Some g" "grid_ok m w' g"
    using grid_resize_ok [OF ok(1) assms(2,3)] by blast
  obtain h where h: "grid_resize (inactive_grid t) is_alt m w' = Some h" "grid_ok m w' h"
    using grid_resize_ok [OF ok(2) assms(2,3)] by blast
  define t1 where "t1 = t\<lparr>vi_cursor := Pos (row (vi_cursor t) + resize_delta t m) (col (vi_cursor t)), cgrid := g, inactive_grid := h\<rparr>"
  have t1: "cgrid t1 = g" "inactive_grid t1 = h" "tabs t1 = tabs t" by (simp_all add: t1_def)
  have cols: "0 < columns (grid_dims g)" "grid_col_count t1 = w'" "screen_line_count t1 = m"
    using grid_okD [OF g(2)] assms(3) by (auto simp: grid_dims_def grid_col_count_def screen_line_count_def t1)
  have "\<exists>s ts. resize_selection t1 (screen_line_count t, grid_col_count t) (resize_delta t m) =
      Some (t1\<lparr>cw_selection := s, tabs := ts\<rparr>) \<and> length ts = w'"
  proof (cases "grid_col_count t = w'")
    case True
    then have len: "length (tabs t1) = w'" using term_invD(3,9) [OF assms(1)] by (simp add: grid_col_count_def t1)
    show ?thesis
    proof (cases "cw_selection t1")
      case None
      then have "t1\<lparr>cw_selection := None, tabs := tabs t1\<rparr> = t1" by simp
      with None len True cols(2) show ?thesis unfolding resize_selection_def by (metis option.case(1) snd_conv)
    next
      case (Some x)
      obtain r where "selection_rotate x (grid_dims g) (0, max (int (screen_line_count t1)) (int (screen_line_count t))) (- resize_delta t m) = Some r"
        using selection_rotate_total [OF cols(1)] by blast
      then have "resize_selection t1 (screen_line_count t, grid_col_count t) (resize_delta t m) =
          Some (t1\<lparr>cw_selection := r, tabs := tabs t1\<rparr>)"
        using Some True cols(2) by (simp add: resize_selection_def t1(1))
      with len show ?thesis by blast
    qed
  next
    case False
    then have "resize_selection t1 (screen_line_count t, grid_col_count t) (resize_delta t m) =
        Some (t1\<lparr>cw_selection := None, tabs := tabs_resize (tabs t1) w'\<rparr>)"
      using cols(2) by (simp add: resize_selection_def)
    then show ?thesis using length_tabs(3) by blast
  qed
  then obtain s ts where s: "resize_selection t1 (screen_line_count t, grid_col_count t) (resize_delta t m) =
      Some (t1\<lparr>cw_selection := s, tabs := ts\<rparr>)" "length ts = w'" by blast
  obtain v where v: "clamp_vi_cursor (t1\<lparr>cw_selection := s, tabs := ts\<rparr>) = Some (t1\<lparr>cw_selection := s, tabs := ts, vi_cursor := v\<rparr>)"
    using cols(1) by (simp add: clamp_vi_cursor_def last_column_def usub_def Let_def t1)
  let ?u = "t1\<lparr>cw_selection := s, tabs := ts, vi_cursor := v, scroll_region := (0, int m),
    damage := damage_resize (damage t) m\<rparr>"
  let ?v = "?u\<lparr>cw_graphics := resize_overlays cell (absolute_row ?u - absolute_row t) (cw_graphics t)\<rparr>"
  have "term_resize cell t m w' = Some ?v"
  proof -
    have "mode_on (t\<lparr>vi_cursor := x\<rparr>) M_ALT_SCREEN = is_alt" for x by (simp add: is_alt_def mode_on_def)
    moreover have "cgrid (t\<lparr>vi_cursor := x\<rparr>) = cgrid t" "inactive_grid (t\<lparr>vi_cursor := x\<rparr>) = inactive_grid t" for x
      by simp_all
    moreover have "screen_line_count (t1\<lparr>cw_selection := s, tabs := ts, vi_cursor := v\<rparr>) = m"
      using cols(3) by (simp add: screen_line_count_def)
    moreover have "damage (t1\<lparr>cw_selection := s, tabs := ts, vi_cursor := v\<rparr>) = damage t" "cw_graphics ?u = cw_graphics t"
      by (simp_all add: t1_def)
    ultimately show ?thesis
      unfolding term_resize_def if_not_P [OF False] Let_def
      by (simp only: g(1) h(1) Option.bind.simps t1_def [symmetric] s(1) v)
  qed
  moreover have "term_inv m w' ?v"
    using assms g(2) h(2) s(2) damage_resize_wf [OF assms(2), of "damage t"] by (simp add: term_inv_def t1_def region_ok_def)
  ultimately show ?thesis by blast
qed

theorem term_resize_total_witness:
  "\<exists>u. term_resize (8, 16) (fresh 24 80) 1 2 = Some u \<and> term_inv 1 2 u"
  using term_resize_total [OF fresh_facts(2) [of 24 80], of 1 2 "(8, 16)"] by simp

subsection \<open>One column\<close>

primrec turns :: "nat \<Rightarrow> bool \<Rightarrow> nat \<Rightarrow> nat \<Rightarrow> shrink_state \<Rightarrow> shrink_state option" where
  \<comment> \<open>the state after so many turns of the loop, all without a \<open>break\<close>\<close>
  "turns 0 reflow w i st = Some st"
| "turns (Suc k) reflow w i st =
     Option.bind (shrink_step reflow w i st) (\<lambda>r. case r of Inl _ \<Rightarrow> None | Inr st' \<Rightarrow> turns k reflow w i st')"

definition wide_row :: "square \<Rightarrow> square \<Rightarrow> shrink_state \<Rightarrow> bool" where
  \<comment> \<open>a wide character and its spacer are left\<close>
  "wide_row c d st \<longleftrightarrow> (case st of (h, acc, r) \<Rightarrow> flow_ok (g_lines h) 1 h h \<and> cells r = [c, d])"

lemma wide_row_turn:
  assumes "wide_row c d st" "sq_wide c = Wide" "sq_wide d = Spacer"
  shows "\<exists>st'. shrink_step True 1 i st = Some (Inr st') \<and> wide_row c d st'"
proof -
  obtain h acc r where st: "st = (h, acc, r)" by (cases st)
  have h: "flow_ok (g_lines h) 1 h h" "cells r = [c, d]" using assms(1) by (simp_all add: st wide_row_def)
  have d: "\<not> sq_is_empty d" "d \<noteq> 0" using assms(3) by (auto simp: sq_is_empty_def sq_simps)
  have cut: "\<exists>s. cut_row True 1 i h r = Some (s, Some [d]) \<and> cells s = [c]"
    using h(2) d by (simp add: cut_row_def row_shrink_def rposition_def Let_def)
  then obtain s where s: "cut_row True 1 i h r = Some (s, Some [d])" "cells s = [c]" by blast
  obtain s' where k: "keep_wide 1 s [d] = Some (s', [c, d])"
    using s(2) assms(2) by (auto simp: keep_wide_def row_len_def usub_def row_index_def idx_def row_index_mut_def)
  obtain h' r' acc' where w: "wrap_rest 1 i h acc' [c, d] = Some (h', acc', r')" "flow_ok (g_lines h) 1 h h'"
    "row_len r' = 2" "acc' = row_last_mut s' (\<lambda>c. sq_set_wrapline c True) # acc"
    using wrap_rest_ok [OF h(1), of i "row_last_mut s' (\<lambda>c. sq_set_wrapline c True) # acc" "[c, d]"] by auto
  have "cells r' = [c, d]" using w(1) by (auto simp: wrap_rest_def Let_def bind_eq_Some_conv row_from_vec_def)
  moreover have "shrink_step True 1 i st = Some (Inr (h', acc', r'))"
    unfolding st shrink_step_def prod.case s(1) Option.bind.simps option.case k Let_def
    using w(1,4) assms(3) by simp
  moreover have "flow_ok (g_lines h') 1 h' h'" using w(2) by (simp add: flow_ok_def)
  ultimately show ?thesis by (simp add: wide_row_def)
qed

text \<open>Why there have to be two columns: reflowed to one column, a row that begins with a wide character is cut for
  ever. After any number of turns the loop has not come to its \<open>break\<close>, so it returns nothing.\<close>

theorem one_column_never_ends:
  assumes "wide_row c d st" "sq_wide c = Wide" "sq_wide d = Spacer"
  shows "(\<exists>st'. turns k True 1 i st = Some st') \<and> shrink_loop True 1 i st = None"
proof
  show "\<exists>st'. turns k True 1 i st = Some st'"
    using assms(1)
  proof (induction k arbitrary: st)
    case (Suc k)
    with wide_row_turn [OF Suc.prems assms(2,3), of i] show ?case by auto
  next
    case 0
    show ?case by (intro exI) (rule turns.simps(1))
  qed
  have never: "reflow \<and> w = 1 \<longrightarrow> \<not> wide_row c d st" if "shrink_loop reflow w i st = Some res" for reflow w i st res
  proof (rule shrink_loop.raw_induct [OF _ that])
    fix f reflow w i st res
    assume IH: "\<And>reflow w i st res. f reflow w i st = Some res \<Longrightarrow> reflow \<and> w = 1 \<longrightarrow> \<not> wide_row c d st"
      and e: "Option.bind (shrink_step reflow w i st) (\<lambda>r. case r of Inl d \<Rightarrow> Some d | Inr st \<Rightarrow> f reflow w i st) = Some res"
    show "reflow \<and> w = 1 \<longrightarrow> \<not> wide_row c d st"
    proof (intro impI notI, elim conjE)
      assume r: "reflow" "w = 1" "wide_row c d st"
      obtain st' where st': "shrink_step True 1 i st = Some (Inr st')" "wide_row c d st'"
        using wide_row_turn [OF r(3) assms(2,3)] by blast
      have "f True 1 i st' = Some res" using e r(1) unfolding r(2) by (simp only: st'(1) Option.bind.simps sum.case)
      from IH [OF this] st'(2) show False by simp
    qed
  qed
  show "shrink_loop True 1 i st = None"
    using never [of True 1 i st] assms(1) by (cases "shrink_loop True 1 i st") blast+
qed

theorem one_column_never_ends_witness:
  "shrink_loop True 1 0 ((cgrid (fresh 24 80))\<lparr>g_columns := 1\<rparr>, [], row_from_vec [sq_set_wide 0x4E00 Wide, sq_set_wide 0 Spacer] 2) = None"
proof -
  note f = fresh_facts [of 24 80, simplified]
  have "wide_row (sq_set_wide 0x4E00 Wide) (sq_set_wide 0 Spacer)
      ((cgrid (fresh 24 80))\<lparr>g_columns := 1\<rparr>, [], row_from_vec [sq_set_wide 0x4E00 Wide, sq_set_wide 0 Spacer] 2)"
    using f(3) term_invD(2) [OF f(2)] by (simp add: wide_row_def flow_ok_def row_from_vec_def)
  from one_column_never_ends [OF this] show ?thesis by (simp add: sq_simps)
qed

end
