(* ===== verification/Vi.thy ===== *)
theory Vi
  imports Search
begin

text \<open>
  The vi mode: \<open>crosswords/vi_mode.rs\<close> and the operations of the terminal it uses. The motions read the grid
  and give the new position of the vi cursor; then the display scrolls to it. The loops that follow wrapped
  lines or skip words need not end on any grid whatever; \<open>ViProps\<close> shows where they do.
\<close>

datatype vi_move =
    ViUp | ViDown | ViLeft | ViRight | ViFirst | ViLast | ViFirstOccupied | ViHigh | ViMiddle | ViLow
  | ViSemanticLeft | ViSemanticRight | ViSemanticLeftEnd | ViSemanticRightEnd
  | ViWordLeft | ViWordRight | ViWordLeftEnd | ViWordRightEnd | ViBracket

subsection \<open>Cells\<close>

definition is_space :: "grid \<Rightarrow> pos \<Rightarrow> bool option" where
  "is_space g p = map_option (\<lambda>c. \<not> any_spacer c \<and> (sq_c c = 0 \<or> sq_c c = 0x20 \<or> sq_c c = 9)) (grid_cell g p)"

definition is_wrap :: "grid \<Rightarrow> pos \<Rightarrow> bool option" where
  "is_wrap g p = map_option sq_wrapline (grid_cell g p)"

definition is_boundary :: "grid \<Rightarrow> pos \<Rightarrow> direction \<Rightarrow> bool" where
  "is_boundary g p d \<longleftrightarrow>
     (row p \<le> topmost_line (grid_dims g) \<and> col p = 0 \<and> d = DirLeft) \<or>
     (row p = bottommost_line (grid_dims g) \<and> col p + 1 \<ge> g_columns g \<and> d = DirRight)"

definition advance_pos :: "grid \<Rightarrow> pos \<Rightarrow> direction \<Rightarrow> pos option" where
  \<comment> \<open>\<open>advance\<close>\<close>
  "advance_pos g p d =
     (if d = DirLeft then pos_sub p (grid_dims g) BGrid 1 else pos_add p (grid_dims g) BGrid 1)"

definition expand_wide :: "grid \<Rightarrow> pos \<Rightarrow> direction \<Rightarrow> pos option" where
  "expand_wide g p d = do {
     c \<leftarrow> grid_cell g p;
     if d = DirRight \<and> sq_wide c = LeadingSpacer then Some (Pos (row p + 1) 1)
     else if d = DirRight \<and> sq_wide c = Wide then
       map_option (\<lambda>lc. Pos (row p) (min (col p + 1) lc)) (last_column (grid_dims g))
     else if d = DirLeft \<and> (sq_wide c = Wide \<or> sq_wide c = Spacer) then do {
       k \<leftarrow> (if sq_wide c = Spacer then usub (col p) 1 else Some (col p));
       prev \<leftarrow> pos_sub (Pos (row p) k) (grid_dims g) BGrid 1;
       b \<leftarrow> grid_cell g prev;
       Some (if sq_wide b = LeadingSpacer then prev else Pos (row p) k)
     }
     else Some p
   }"

fun find_occupied :: "grid \<Rightarrow> int \<Rightarrow> nat list \<Rightarrow> pos option option" where
  \<comment> \<open>\<open>find\<close> over the columns\<close>
  "find_occupied g l [] = Some None"
| "find_occupied g l (k # ks) =
     Option.bind (is_space g (Pos l k)) (\<lambda>b. if \<not> b then Some (Some (Pos l k)) else find_occupied g l ks)"

definition first_occupied_in_line :: "grid \<Rightarrow> int \<Rightarrow> pos option option" where
  "first_occupied_in_line g l = find_occupied g l [0..<g_columns g]"

definition last_occupied_in_line :: "grid \<Rightarrow> int \<Rightarrow> pos option option" where
  "last_occupied_in_line g l = find_occupied g l (rev [0..<g_columns g])"

definition pos_default :: pos where
  "pos_default = Pos 0 0"

definition or_pos :: "pos option \<Rightarrow> pos \<Rightarrow> pos" where
  \<comment> \<open>\<open>unwrap_or\<close>\<close>
  "or_pos o' p = (case o' of Some q \<Rightarrow> q | None \<Rightarrow> p)"

subsection \<open>Lines\<close>

partial_function (option) wrap_down :: "grid \<Rightarrow> pos \<Rightarrow> pos option" where
  \<comment> \<open>the loop of \<open>last\<close>\<close>
  "wrap_down g p = Option.bind (is_wrap g p) (\<lambda>b. if b then wrap_down g (Pos (row p + 1) (col p)) else Some p)"

definition last_pos :: "grid \<Rightarrow> pos \<Rightarrow> pos option" where
  \<comment> \<open>\<open>last\<close>\<close>
  "last_pos g p = do {
     p \<leftarrow> expand_wide g p DirRight;
     occupied \<leftarrow> map_option (\<lambda>r. or_pos r pos_default) (last_occupied_in_line g (row p));
     if col p < col occupied then Some occupied
     else do {
       b \<leftarrow> is_wrap g p;
       if b then do {
         p \<leftarrow> wrap_down g p;
         map_option (\<lambda>r. or_pos r p) (last_occupied_in_line g (row p))
       }
       else map_option (Pos (row p)) (last_column (grid_dims g))
     }
   }"

fun occupied_above :: "grid \<Rightarrow> nat \<Rightarrow> pos option \<Rightarrow> int list \<Rightarrow> pos option option" where
  \<comment> \<open>the loop over the previous lines\<close>
  "occupied_above g lc found [] = Some found"
| "occupied_above g lc found (l # ls) =
     Option.bind (is_wrap g (Pos l lc)) (\<lambda>b.
       if \<not> b then Some found
       else Option.bind (first_occupied_in_line g l) (\<lambda>r.
         occupied_above g lc (case r of Some q \<Rightarrow> Some q | None \<Rightarrow> found) ls))"

partial_function (option) occupied_below :: "grid \<Rightarrow> nat \<Rightarrow> int \<Rightarrow> pos option" where
  \<comment> \<open>the fallback, the next cell that is not empty\<close>
  "occupied_below g lc l =
     Option.bind (first_occupied_in_line g l) (\<lambda>r. case r of
         Some q \<Rightarrow> Some q
       | None \<Rightarrow> Option.bind (is_wrap g (Pos l lc)) (\<lambda>b.
           if \<not> b then Some (Pos l lc) else occupied_below g lc (l + 1)))"

definition first_occupied :: "grid \<Rightarrow> pos \<Rightarrow> pos option" where
  "first_occupied g p = do {
     lc \<leftarrow> last_column (grid_dims g);
     p \<leftarrow> expand_wide g p DirLeft;
     occupied \<leftarrow> map_option (\<lambda>r. or_pos r (Pos (row p) lc)) (first_occupied_in_line g (row p));
     if p = occupied then do {
       found \<leftarrow> occupied_above g lc None (rev [topmost_line (grid_dims g)..row p - 1]);
       case found of Some q \<Rightarrow> Some q | None \<Rightarrow> occupied_below g lc (row p)
     }
     else Some occupied
   }"

partial_function (option) first_loop :: "grid \<Rightarrow> nat \<Rightarrow> pos \<Rightarrow> pos option" where
  \<comment> \<open>the loop of \<open>ViMotion::First\<close>\<close>
  "first_loop g lc p =
     (if col p = 0 \<and> row p > topmost_line (grid_dims g)
      then Option.bind (is_wrap g (Pos (row p - 1) lc)) (\<lambda>b. if b then first_loop g lc (Pos (row p - 1) (col p)) else Some p)
      else Some p)"

subsection \<open>Words\<close>

partial_function (option) skip_next :: "bool \<Rightarrow> grid \<Rightarrow> direction \<Rightarrow> pos \<Rightarrow> pos option" where
  \<comment> \<open>\<open>while !is_boundary(pos) && is_space(next_pos) == space\<close>\<close>
  "skip_next space g d p =
     Option.bind (advance_pos g p d) (\<lambda>next_pos.
       if is_boundary g p d then Some p
       else Option.bind (is_space g next_pos) (\<lambda>b. if b = space then skip_next space g d next_pos else Some p))"

partial_function (option) skip_here :: "bool \<Rightarrow> grid \<Rightarrow> direction \<Rightarrow> pos \<Rightarrow> pos option" where
  \<comment> \<open>\<open>while !is_boundary(pos) && is_space(pos) == space\<close>\<close>
  "skip_here space g d p =
     (if is_boundary g p d then Some p
      else Option.bind (is_space g p) (\<lambda>b.
        if b = space then Option.bind (advance_pos g p d) (skip_here space g d) else Some p))"

definition expand_semantic :: "grid \<Rightarrow> direction \<Rightarrow> pos \<Rightarrow> pos option" where
  "expand_semantic g d p = do {
     c \<leftarrow> grid_cell g p;
     if sq_c c \<in> set SEMANTIC_ESCAPE_CHARS \<and> \<not> any_spacer c then Some p
     else if d = DirLeft then semantic_search_left g p
     else semantic_search_right g p
   }"

definition semantic_move :: "grid \<Rightarrow> pos \<Rightarrow> direction \<Rightarrow> direction \<Rightarrow> pos option" where
  \<comment> \<open>\<open>semantic\<close>; a side is a direction\<close>
  "semantic_move g p d side = do {
     p \<leftarrow> expand_wide g p d;
     p \<leftarrow> (if d \<noteq> side \<and> \<not> is_boundary g p d then expand_semantic g d p else Some p);
     p \<leftarrow> skip_next True g d p;
     p \<leftarrow> (if \<not> is_boundary g p d then advance_pos g p d else Some p);
     if d = side \<and> \<not> is_boundary g p d then expand_semantic g d p else Some p
   }"

definition word_move :: "grid \<Rightarrow> pos \<Rightarrow> direction \<Rightarrow> direction \<Rightarrow> pos option" where
  \<comment> \<open>\<open>word\<close>\<close>
  "word_move g p d side = do {
     p \<leftarrow> expand_wide g p d;
     if d = side then Option.bind (skip_next True g d p) (skip_next False g d)
     else Option.bind (skip_here False g d p) (skip_here True g d)
   }"

subsection \<open>Motions\<close>

definition line_start :: "grid \<Rightarrow> int \<Rightarrow> pos option" where
  \<comment> \<open>a line of the screen and its first occupied column\<close>
  "line_start g l = map_option (\<lambda>r. Pos l (col (or_pos r pos_default))) (first_occupied_in_line g l)"

definition vi_left :: "grid \<Rightarrow> pos \<Rightarrow> pos option" where
  "vi_left g p = do {
     p \<leftarrow> expand_wide g p DirLeft;
     lc \<leftarrow> last_column (grid_dims g);
     let wrap_pos = Pos (row p - 1) lc;
     b \<leftarrow> (if col p = 0 \<and> row p > topmost_line (grid_dims g) then is_wrap g wrap_pos else Some False);
     Some (if b then wrap_pos else Pos (row p) (col p - 1))
   }"

definition vi_right :: "grid \<Rightarrow> pos \<Rightarrow> pos option" where
  "vi_right g p = do {
     p \<leftarrow> expand_wide g p DirRight;
     b \<leftarrow> is_wrap g p;
     if b then Some (Pos (row p + 1) 0)
     else map_option (\<lambda>lc. Pos (row p) (min (col p + 1) lc)) (last_column (grid_dims g))
   }"

definition vi_first :: "grid \<Rightarrow> pos \<Rightarrow> pos option" where
  "vi_first g p = do {
     p \<leftarrow> expand_wide g p DirLeft;
     lc \<leftarrow> last_column (grid_dims g);
     map_option (\<lambda>p. Pos (row p) 0) (first_loop g lc p)
   }"

definition vi_target :: "grid \<Rightarrow> pos \<Rightarrow> vi_move \<Rightarrow> pos option" where
  \<comment> \<open>the match of \<open>ViModeCursor::motion\<close>\<close>
  "vi_target g p m =
     (case m of
        ViUp \<Rightarrow> Some (if row p > topmost_line (grid_dims g) then Pos (row p - 1) (col p) else p)
      | ViDown \<Rightarrow> Some (if row p + 1 < int (g_lines g) then Pos (row p + 1) (col p) else p)
      | ViLeft \<Rightarrow> vi_left g p
      | ViRight \<Rightarrow> vi_right g p
      | ViFirst \<Rightarrow> vi_first g p
      | ViLast \<Rightarrow> last_pos g p
      | ViFirstOccupied \<Rightarrow> first_occupied g p
      | ViHigh \<Rightarrow> line_start g (- int (display_offset g))
      | ViMiddle \<Rightarrow> line_start g (- int (display_offset g) + int (g_lines g) div 2 - 1)
      | ViLow \<Rightarrow> line_start g (- int (display_offset g) + int (g_lines g) - 1)
      | ViSemanticLeft \<Rightarrow> semantic_move g p DirLeft DirLeft
      | ViSemanticRight \<Rightarrow> semantic_move g p DirRight DirLeft
      | ViSemanticLeftEnd \<Rightarrow> semantic_move g p DirLeft DirRight
      | ViSemanticRightEnd \<Rightarrow> semantic_move g p DirRight DirRight
      | ViWordLeft \<Rightarrow> word_move g p DirLeft DirLeft
      | ViWordRight \<Rightarrow> word_move g p DirRight DirLeft
      | ViWordLeftEnd \<Rightarrow> word_move g p DirLeft DirRight
      | ViWordRightEnd \<Rightarrow> word_move g p DirRight DirRight
      | ViBracket \<Rightarrow> map_option (\<lambda>r. or_pos r p) (bracket_search g p))"

definition vi_scroll :: "grid \<Rightarrow> pos \<Rightarrow> int \<Rightarrow> pos option" where
  \<comment> \<open>\<open>ViModeCursor::scroll\<close>\<close>
  "vi_scroll g p n = Option.bind (line_grid_clamp (row p - n) (grid_dims g) BGrid) (line_start g)"

subsection \<open>The terminal\<close>

definition vi_mode_recompute_selection :: "crosswords \<Rightarrow> crosswords" where
  "vi_mode_recompute_selection t =
     (if \<not> mode_on t M_VI then t
      else (case cw_selection t of
              None \<Rightarrow> t
            | Some s \<Rightarrow>
                if selection_is_empty s then t
                else t\<lparr>cw_selection := Some (include_all (selection_update s (vi_cursor t) DirLeft))\<rparr>))"

definition term_scroll_display :: "crosswords \<Rightarrow> scroll \<Rightarrow> crosswords" where
  \<comment> \<open>\<open>Crosswords::scroll_display\<close>\<close>
  "term_scroll_display t sc =
     (let old = display_offset (cgrid t);
          t = send (t\<lparr>cgrid := scroll_display (cgrid t) sc\<rparr>) MouseCursorDirty;
          viewport_start = - int (display_offset (cgrid t));
          viewport_end = viewport_start + bottommost_line (grid_dims (cgrid t));
          t = t\<lparr>vi_cursor := Pos (min viewport_end (max viewport_start (row (vi_cursor t)))) (col (vi_cursor t))\<rparr>;
          t = vi_mode_recompute_selection t
      in if old \<noteq> display_offset (cgrid t) then overlays_moved (mark_fully_damaged t) else t)"

definition scroll_to_pos :: "crosswords \<Rightarrow> pos \<Rightarrow> crosswords" where
  "scroll_to_pos t p =
     (let offset = int (display_offset (cgrid t)); n = int (g_lines (cgrid t)) in
      if row p < - offset then term_scroll_display t (Delta (- (row p + offset)))
      else if row p \<ge> n - offset then term_scroll_display t (Delta (- (row p + offset - n + 1)))
      else t)"

definition vi_goto_pos :: "crosswords \<Rightarrow> pos \<Rightarrow> crosswords" where
  "vi_goto_pos t p = vi_mode_recompute_selection ((scroll_to_pos t p)\<lparr>vi_cursor := p\<rparr>)"

definition vi_motion :: "crosswords \<Rightarrow> vi_move \<Rightarrow> crosswords option" where
  "vi_motion t m =
     (if \<not> mode_on t M_VI then Some t
      else map_option (vi_goto_pos t) (vi_target (cgrid t) (vi_cursor t) m))"

definition toggle_vi_mode :: "crosswords \<Rightarrow> crosswords" where
  "toggle_vi_mode t =
     (let t = t\<lparr>cw_mode := cw_mode t XOR M_VI\<rparr>;
          offset = int (display_offset (cgrid t));
          t = (if mode_on t M_VI then
                 t\<lparr>vi_cursor := (if row (cpos (gcursor (cgrid t))) > bottommost_line (grid_dims (cgrid t)) - offset
                   then Pos (- offset) 0 else cpos (gcursor (cgrid t)))\<rparr>
               else t)
      in send t CursorBlinkingChange)"

end
