(* ===== verification/ViProps.thy ===== *)
theory ViProps
  imports Vi SearchProps
begin

text \<open>
  The motions of the vi mode end inside the grid and never panic, on a grid whose last line does not wrap and
  whose lines do not begin with the second half of a wide character.
\<close>

subsection \<open>Cells\<close>

definition at_cell :: "grid \<Rightarrow> pos \<Rightarrow> bool" where
  "at_cell g p \<longleftrightarrow> has_line g (row p) \<and> col p < g_columns g"

definition vi_safe :: "grid \<Rightarrow> bool" where
  \<comment> \<open>what a motion needs of the grid: the last line does not go on in a next one, and no line begins with a spacer\<close>
  "vi_safe g \<longleftrightarrow> grid_wf g \<and> 2 \<le> g_columns g \<and>
     (\<forall>l. has_line g l \<longrightarrow> sq_wide (grid_line g l ! 0) \<noteq> Spacer) \<and>
     (\<forall>c \<in> set (grid_line g (int (g_lines g) - 1)). \<not> sq_wrapline c \<and> sq_wide c \<noteq> LeadingSpacer)"

lemma vi_safeD:
  assumes "vi_safe g"
  shows "grid_wf g" "2 \<le> g_columns g" "0 < g_lines g" "0 < g_columns g"
    "last_column (grid_dims g) = Some (g_columns g - 1)" "dims_ok (grid_dims g)"
    "topmost_line (grid_dims g) = - int (grid_history g)" "bottommost_line (grid_dims g) = int (g_lines g) - 1"
    "columns (grid_dims g) = g_columns g"
  using assms grid_ends(1) [of g] dims_ok_grid [of g]
  by (auto simp: vi_safe_def grid_wf_def topmost_line_def bottommost_line_def grid_history_def grid_dims_def)

lemma at_cell_in_grid: "vi_safe g \<Longrightarrow> in_grid (grid_dims g) p \<longleftrightarrow> at_cell g p"
  by (auto simp: in_grid_def at_cell_def has_line_def vi_safeD)

lemma at_cellI:
  "- int (grid_history g) \<le> l \<Longrightarrow> l < int (g_lines g) \<Longrightarrow> k < g_columns g \<Longrightarrow> at_cell g (Pos l k)"
  by (simp add: at_cell_def has_line_def)

lemma at_cellD: "at_cell g p \<Longrightarrow> - int (grid_history g) \<le> row p \<and> row p < int (g_lines g) \<and> col p < g_columns g"
  by (simp add: at_cell_def has_line_def)

lemma vi_cell:
  assumes "vi_safe g" "at_cell g p"
  shows "grid_cell g p = Some (grid_line g (row p) ! col p)"
    "col p = 0 \<Longrightarrow> sq_wide (grid_line g (row p) ! col p) \<noteq> Spacer"
    "sq_wrapline (grid_line g (row p) ! col p) \<or> sq_wide (grid_line g (row p) ! col p) = LeadingSpacer \<Longrightarrow>
      row p + 1 < int (g_lines g)"
proof -
  have p: "has_line g (row p)" "col p < g_columns g" using assms(2) by (simp_all add: at_cell_def)
  show "grid_cell g p = Some (grid_line g (row p) ! col p)" by (rule grid_cell_ok [OF vi_safeD(1) [OF assms(1)] p])
  show "sq_wide (grid_line g (row p) ! col p) \<noteq> Spacer" if "col p = 0"
    using assms(1) p that by (simp add: vi_safe_def)
  have "grid_line g (row p) ! col p \<in> set (grid_line g (row p))"
    using p grid_line_length [OF vi_safeD(1) [OF assms(1)] p(1)] by simp
  then show "row p + 1 < int (g_lines g)"
    if "sq_wrapline (grid_line g (row p) ! col p) \<or> sq_wide (grid_line g (row p) ! col p) = LeadingSpacer"
    using assms(1) p(1) that by (cases "row p = int (g_lines g) - 1") (auto simp: vi_safe_def has_line_def)
qed

lemma is_space_wp: "vi_safe g \<Longrightarrow> at_cell g p \<Longrightarrow> (\<And>b. P b) \<Longrightarrow> wp (is_space g p) P"
  by (simp add: is_space_def vi_cell(1) wp_simps)

lemma is_wrap_wp:
  "vi_safe g \<Longrightarrow> at_cell g p \<Longrightarrow> (\<And>b. (b \<Longrightarrow> row p + 1 < int (g_lines g)) \<Longrightarrow> P b) \<Longrightarrow> wp (is_wrap g p) P"
  using vi_cell(3) [of g p] by (simp add: is_wrap_def vi_cell(1) wp_simps)

subsection \<open>Single steps\<close>

lemma offset_range:
  assumes "dims_ok d" "col p < columns d"
  shows "in_grid d p \<longleftrightarrow> topmost_line d * int (columns d) \<le> offset d p \<and> offset d p < (bottommost_line d + 1) * int (columns d)"
proof -
  let ?w = "int (columns d)"
  have "k * ?w \<le> offset d p \<longleftrightarrow> k \<le> row p" for k
  proof
    assume "k \<le> row p"
    then have "k * ?w \<le> row p * ?w" by (rule mult_right_mono) simp
    then show "k * ?w \<le> offset d p" by (simp add: offset_def)
  next
    assume k: "k * ?w \<le> offset d p"
    show "k \<le> row p"
    proof (rule ccontr)
      assume "\<not> k \<le> row p"
      then have "(row p + 1) * ?w \<le> k * ?w" by (intro mult_right_mono) auto
      with k assms(2) show False by (simp add: offset_def distrib_right)
    qed
  qed
  then show ?thesis using assms(2) by (auto simp: in_grid_def not_le [symmetric])
qed

definition rank :: "grid \<Rightarrow> direction \<Rightarrow> pos \<Rightarrow> nat" where
  \<comment> \<open>how many cells are ahead\<close>
  "rank g d p = (let o' = offset (grid_dims g) p in
     if d = DirLeft then nat (o' + int (grid_history g) * int (g_columns g)) else nat (int (g_lines g) * int (g_columns g) - o'))"

lemma advance_wp:
  assumes "vi_safe g" "at_cell g p"
    and "\<And>q. at_cell g q \<Longrightarrow> (\<not> is_boundary g p d \<Longrightarrow> rank g d q < rank g d p) \<Longrightarrow> P q"
  shows "wp (advance_pos g p d) P"
proof -
  let ?d = "grid_dims g" and ?w = "int (g_columns g)"
  note s = vi_safeD [OF assms(1)]
  have p: "in_grid ?d p" "col p < columns ?d" using assms(2) at_cell_in_grid [OF assms(1)] s(9) by (simp_all add: at_cell_def)
  obtain q r where q: "pos_add p ?d BGrid 1 = Some q" "in_grid ?d q"
      "in_grid ?d (pos_add_raw p ?d 1) \<longrightarrow> offset ?d q = offset ?d p + 1"
    and r: "pos_sub p ?d BGrid 1 = Some r" "in_grid ?d r"
      "in_grid ?d (pos_sub_raw p ?d 1) \<longrightarrow> offset ?d r = offset ?d p - 1"
    using pos_arithmetic [OF s(6) p(1), of 1] by auto
  have range: "- int (grid_history g) * ?w \<le> offset ?d p" "offset ?d p < int (g_lines g) * ?w"
    using p offset_range [OF s(6) p(2)] s(7-9) by auto
  have raw: "in_grid ?d (pos_add_raw p ?d 1) \<longleftrightarrow> offset ?d p + 1 < int (g_lines g) * ?w"
    "in_grid ?d (pos_sub_raw p ?d 1) \<longleftrightarrow> - int (grid_history g) * ?w \<le> offset ?d p - 1"
    using offset_range [OF s(6) offset_add(2)] offset_range [OF s(6) offset_sub(2) [OF p(2)]] offset_add(1) [of ?d p 1]
      offset_sub(1) [OF p(2), of 1] range s(4,7-9) by auto
  have off: "offset ?d p = row p * ?w + int (col p)" by (simp add: offset_def s)
  have bounds: "- int (grid_history g) \<le> row p" "row p < int (g_lines g)" "int (col p) < ?w"
    using at_cellD [OF assms(2)] by auto
  have right: "offset ?d p + 1 < int (g_lines g) * ?w" if "\<not> is_boundary g p DirRight"
  proof (cases "row p = int (g_lines g) - 1")
    case True
    then have "int (col p) + 1 < ?w" using that s(8) by (auto simp: is_boundary_def)
    moreover have "int (g_lines g) = row p + 1" using True by simp
    ultimately show ?thesis by (simp add: off distrib_right)
  next
    case False
    then have "(row p + 2) * ?w \<le> int (g_lines g) * ?w" using bounds(2) by (intro mult_right_mono) auto
    with bounds(3) show ?thesis by (simp add: off algebra_simps)
  qed
  have left: "- int (grid_history g) * ?w \<le> offset ?d p - 1" if "\<not> is_boundary g p DirLeft"
  proof (cases "row p = - int (grid_history g)")
    case True
    then have "0 < col p" using that s(7) by (auto simp: is_boundary_def)
    with True show ?thesis by (simp add: off)
  next
    case False
    then have "(- int (grid_history g) + 1) * ?w \<le> row p * ?w" using bounds(1) by (intro mult_right_mono) auto
    with s(4) show ?thesis by (simp add: off algebra_simps)
  qed
  show ?thesis
  proof (cases d)
    case DirLeft
    then have "at_cell g r" "\<not> is_boundary g p d \<Longrightarrow> rank g d r < rank g d p"
      using r raw left range at_cell_in_grid [OF assms(1)] by (auto simp: rank_def Let_def)
    with DirLeft r(1) assms(3) show ?thesis by (simp add: advance_pos_def wp_Some)
  next
    case DirRight
    then have "at_cell g q" "\<not> is_boundary g p d \<Longrightarrow> rank g d q < rank g d p"
      using q raw right range at_cell_in_grid [OF assms(1)] by (auto simp: rank_def Let_def)
    with DirRight q(1) assms(3) show ?thesis by (simp add: advance_pos_def wp_Some)
  qed
qed

lemma expand_wide_wp:
  assumes "vi_safe g" "at_cell g p" "\<And>q. at_cell g q \<Longrightarrow> P q"
  shows "wp (expand_wide g p d) P"
proof -
  note s = vi_safeD [OF assms(1)] and c = vi_cell [OF assms(1,2)] and p = at_cellD [OF assms(2)]
  have sub: "wp (pos_sub (Pos (row p) k) (grid_dims g) BGrid 1) (\<lambda>prev. wp (grid_cell g prev)
      (\<lambda>b. wp (Some (if sq_wide b = LeadingSpacer then prev else Pos (row p) k)) P))" if "k \<le> col p" for k
  proof -
    have k: "at_cell g (Pos (row p) k)" using p that by (intro at_cellI) auto
    have "wp (advance_pos g (Pos (row p) k) DirLeft) (\<lambda>prev. wp (grid_cell g prev)
        (\<lambda>b. wp (Some (if sq_wide b = LeadingSpacer then prev else Pos (row p) k)) P))"
      by (rule advance_wp [OF assms(1) k]) (use k assms(3) vi_cell(1) [OF assms(1)] in \<open>auto simp: wp_Some\<close>)
    then show ?thesis by (simp add: advance_pos_def)
  qed
  let ?c = "grid_line g (row p) ! col p"
  note e = expand_wide_def c(1) s(5) wp_bind wp_usub wp_Some wp_map_option
  consider "d = DirRight" "sq_wide ?c = LeadingSpacer" | "d = DirRight" "sq_wide ?c = Wide"
    | "d = DirLeft" "sq_wide ?c = Wide" | "d = DirLeft" "sq_wide ?c = Spacer"
    | "expand_wide g p d = Some p"
    by (cases d; cases "sq_wide ?c") (simp_all add: expand_wide_def c(1))
  then show ?thesis
  proof cases
    case 1
    have "at_cell g (Pos (row p + 1) 1)" using c(3) 1(2) p s(2) by (intro at_cellI) auto
    with 1 assms(3) show ?thesis by (simp add: e)
  next
    case 2
    have "at_cell g (Pos (row p) (min (col p + 1) (g_columns g - 1)))" using p s(4) by (intro at_cellI) auto
    with 2 assms(3) show ?thesis by (simp add: e)
  next
    case 3
    with sub [of "col p"] show ?thesis by (simp add: e split del: if_split)
  next
    case 4
    then have "0 < col p" using c(2) by (cases "col p") auto
    with 4 sub [of "col p - 1"] show ?thesis by (simp add: e Suc_le_eq cong: if_cong split del: if_split)
  next
    case 5
    with assms(2,3) show ?thesis by (simp add: wp_Some)
  qed
qed

lemma find_occupied_wp:
  assumes "vi_safe g" "has_line g l" "\<forall>k \<in> set ks. k < g_columns g"
    and "P None" "\<And>k. k < g_columns g \<Longrightarrow> P (Some (Pos l k))"
  shows "wp (find_occupied g l ks) P"
  using assms(3)
proof (induction ks)
  case Nil
  with assms(4) show ?case by (simp add: wp_Some)
next
  case (Cons k ks)
  then have "at_cell g (Pos l k)" using assms(2) by (simp add: at_cell_def)
  with Cons assms(1,5) show ?case by (auto simp: wp_simps intro!: is_space_wp)
qed

lemma occupied_wp:
  assumes "vi_safe g" "has_line g l" "P None" "\<And>k. k < g_columns g \<Longrightarrow> P (Some (Pos l k))"
  shows "wp (first_occupied_in_line g l) P" "wp (last_occupied_in_line g l) P"
  unfolding first_occupied_in_line_def last_occupied_in_line_def
  by (rule find_occupied_wp [OF assms(1,2)]; use assms(3,4) in simp)+

subsection \<open>Lines\<close>

lemma line_start_wp:
  assumes "vi_safe g" "has_line g l"
  shows "wp (line_start g l) (at_cell g)"
  unfolding line_start_def wp_map_option
  by (rule occupied_wp(1) [OF assms]) (use assms vi_safeD(4) [OF assms(1)] in \<open>auto simp: at_cell_def or_pos_def pos_default_def\<close>)

lemma wrap_down_wp:
  assumes "vi_safe g" "at_cell g p"
  shows "wp (wrap_down g p) (at_cell g)"
  using assms(2)
proof (induction "nat (int (g_lines g) - row p)" arbitrary: p rule: less_induct)
  case less
  have "wp (wrap_down g (Pos (row p + 1) (col p))) (at_cell g)" if "row p + 1 < int (g_lines g)"
    using that at_cellD [OF less.prems] by (intro less.hyps at_cellI) auto
  with less.prems show ?case
    by (subst wrap_down.simps) (auto simp: wp_simps intro!: is_wrap_wp [OF assms(1)])
qed

lemma last_pos_wp:
  assumes "vi_safe g" "at_cell g p"
  shows "wp (last_pos g p) (at_cell g)"
  unfolding last_pos_def wp_bind
proof (rule expand_wide_wp [OF assms])
  fix q assume q: "at_cell g q"
  note l = at_cellD [OF q] and s = vi_safeD [OF assms(1)]
  let ?tail = "\<lambda>o'. if col q < col o' then Some o' else do {
       b \<leftarrow> is_wrap g q;
       if b then do {
         p \<leftarrow> wrap_down g q;
         map_option (\<lambda>r. or_pos r p) (last_occupied_in_line g (row p))
       }
       else map_option (Pos (row q)) (last_column (grid_dims g))
     }"
  have below: "wp (last_occupied_in_line g (row r)) (\<lambda>o'. at_cell g (or_pos o' r))" if "at_cell g r" for r
    using that by (intro occupied_wp(2) [OF assms(1)]) (auto simp: or_pos_def at_cell_def)
  have tail: "wp (?tail o') (at_cell g)" if "col q < col o' \<Longrightarrow> at_cell g o'" for o'
    using that s(5) q below
    by (auto simp: wp_simps at_cell_def intro!: is_wrap_wp [OF assms(1) q] wp_mono [OF wrap_down_wp [OF assms(1) q]])
  show "wp (map_option (\<lambda>r. or_pos r pos_default) (last_occupied_in_line g (row q))) (\<lambda>o'. wp (?tail o') (at_cell g))"
    unfolding wp_map_option
    by (intro occupied_wp(2) [OF assms(1)]; (intro tail)?) (use q in \<open>auto simp: or_pos_def pos_default_def at_cell_def\<close>)
qed

lemma occupied_above_wp:
  assumes "vi_safe g" "\<forall>l \<in> set ls. has_line g l" "\<And>q. found = Some q \<Longrightarrow> at_cell g q"
  shows "wp (occupied_above g (g_columns g - 1) found ls) (\<lambda>r. \<forall>q. r = Some q \<longrightarrow> at_cell g q)"
  using assms(2,3)
proof (induction ls arbitrary: found)
  case Nil
  then show ?case by (simp add: wp_Some)
next
  case (Cons l ls)
  have l: "has_line g l" "at_cell g (Pos l (g_columns g - 1))" using Cons.prems(1) vi_safeD(4) [OF assms(1)] by (auto simp: at_cell_def)
  have "wp (first_occupied_in_line g l)
      (\<lambda>r. wp (occupied_above g (g_columns g - 1) (case r of Some q \<Rightarrow> Some q | None \<Rightarrow> found) ls) (\<lambda>r. \<forall>q. r = Some q \<longrightarrow> at_cell g q))"
  proof (rule occupied_wp(1) [OF assms(1) l(1)])
    have IH: "wp (occupied_above g (g_columns g - 1) f ls) (\<lambda>r. \<forall>q. r = Some q \<longrightarrow> at_cell g q)"
      if "\<And>q. f = Some q \<Longrightarrow> at_cell g q" for f
      using Cons.prems(1) that by (intro Cons.IH) auto
    show "wp (occupied_above g (g_columns g - 1) (case None of Some q \<Rightarrow> Some q | None \<Rightarrow> found) ls) (\<lambda>r. \<forall>q. r = Some q \<longrightarrow> at_cell g q)"
      using IH [of found] Cons.prems(2) by simp
    show "wp (occupied_above g (g_columns g - 1) (case Some (Pos l k) of Some q \<Rightarrow> Some q | None \<Rightarrow> found) ls)
        (\<lambda>r. \<forall>q. r = Some q \<longrightarrow> at_cell g q)" if "k < g_columns g" for k
      using IH [of "Some (Pos l k)"] l(1) that by (simp add: at_cell_def)
  qed
  with Cons.prems(2) show ?case
    unfolding occupied_above.simps wp_bind by (intro is_wrap_wp [OF assms(1) l(2)]) (auto simp: wp_bind wp_Some)
qed

lemma occupied_below_wp:
  assumes "vi_safe g" "has_line g l"
  shows "wp (occupied_below g (g_columns g - 1) l) (at_cell g)"
  using assms(2)
proof (induction "nat (int (g_lines g) - l)" arbitrary: l rule: less_induct)
  case less
  have last: "at_cell g (Pos l (g_columns g - 1))" using less.prems vi_safeD(4) [OF assms(1)] by (simp add: at_cell_def)
  have IH: "wp (occupied_below g (g_columns g - 1) (l + 1)) (at_cell g)" if "l + 1 < int (g_lines g)"
    using that less.prems by (intro less.hyps) (auto simp: has_line_def)
  show ?case
    by (subst occupied_below.simps, unfold wp_bind, rule occupied_wp(1) [OF assms(1) less.prems])
      (use less.prems last IH in \<open>auto simp: wp_simps at_cell_def intro!: is_wrap_wp [OF assms(1)]\<close>)
qed

lemma first_occupied_wp:
  assumes "vi_safe g" "at_cell g p"
  shows "wp (first_occupied g p) (at_cell g)"
proof -
  note s = vi_safeD [OF assms(1)]
  define lc where "lc = g_columns g - 1"
  note below = occupied_below_wp [OF assms(1), folded lc_def] and above = occupied_above_wp [OF assms(1), folded lc_def]
  have "wp (map_option (\<lambda>r. or_pos r (Pos (row q) lc)) (first_occupied_in_line g (row q)))
      (\<lambda>o'. wp (if q = o' then do {
           found \<leftarrow> occupied_above g lc None (rev [topmost_line (grid_dims g)..row q - 1]);
           case found of Some q \<Rightarrow> Some q | None \<Rightarrow> occupied_below g lc (row q)
         } else Some o') (at_cell g))" if q: "at_cell g q" for q
  proof -
    have "wp (occupied_above g lc None (rev [topmost_line (grid_dims g)..row q - 1]))
        (\<lambda>found. wp (case found of Some q \<Rightarrow> Some q | None \<Rightarrow> occupied_below g lc (row q)) (at_cell g))"
      by (rule wp_mono [OF above])
        (use at_cellD [OF q] s(7) below [of "row q"] q in
          \<open>auto simp: has_line_def at_cell_def wp_Some split: option.split\<close>)
    moreover have "at_cell g (Pos (row q) lc)" using q s(4) by (simp add: at_cell_def lc_def)
    ultimately show ?thesis unfolding wp_map_option
      by (intro occupied_wp(1) [OF assms(1)]) (use q in \<open>auto simp: or_pos_def at_cell_def wp_bind wp_Some\<close>)
  qed
  then show ?thesis
    unfolding first_occupied_def s(5) lc_def [symmetric] by (simp add: wp_bind expand_wide_wp [OF assms])
qed

lemma first_loop_wp:
  assumes "vi_safe g" "at_cell g p"
  shows "wp (first_loop g (g_columns g - 1) p) (at_cell g)"
  using assms(2)
proof (induction "nat (row p + int (grid_history g))" arbitrary: p rule: less_induct)
  case less
  note s = vi_safeD [OF assms(1)] and p = at_cellD [OF less.prems]
  have "at_cell g (Pos (row p - 1) (g_columns g - 1))" "wp (first_loop g (g_columns g - 1) (Pos (row p - 1) (col p))) (at_cell g)"
    if "- int (grid_history g) < row p"
    using that p s(4) less.hyps [of "Pos (row p - 1) (col p)"] by (auto simp: at_cell_def has_line_def)
  with less.prems show ?case
    by (subst first_loop.simps) (auto simp: wp_simps s(7) intro!: is_wrap_wp [OF assms(1)])
qed

subsection \<open>Words\<close>

lemma skip_next_wp:
  assumes "vi_safe g" "at_cell g p"
  shows "wp (skip_next b g d p) (at_cell g)"
  using assms(2)
proof (induction "rank g d p" arbitrary: p rule: less_induct)
  case less
  show ?case
    by (subst skip_next.simps, unfold wp_bind, rule advance_wp [OF assms(1) less.prems])
      (use less in \<open>auto simp: wp_simps intro!: is_space_wp [OF assms(1)]\<close>)
qed

lemma skip_here_wp:
  assumes "vi_safe g" "at_cell g p"
  shows "wp (skip_here b g d p) (at_cell g)"
  using assms(2)
proof (induction "rank g d p" arbitrary: p rule: less_induct)
  case less
  have "wp (advance_pos g p d) (\<lambda>q. wp (skip_here b g d q) (at_cell g))" if "\<not> is_boundary g p d"
    by (rule advance_wp [OF assms(1) less.prems]) (use less.hyps that in auto)
  with less.prems show ?case
    by (subst skip_here.simps) (auto simp: wp_simps intro!: is_space_wp [OF assms(1)])
qed

subsection \<open>Searches\<close>

definition found_cell :: "grid \<Rightarrow> pos + pos \<Rightarrow> bool" where
  "found_cell g r \<longleftrightarrow> at_cell g (case r of Inl q \<Rightarrow> q | Inr q \<Rightarrow> q)"

lemma found_simps [simp]: "found_cell g (Inl q) = at_cell g q" "found_cell g (Inr q) = at_cell g q"
  by (simp_all add: found_cell_def)

lemma place_at_cell: "grid_wf g \<Longrightarrow> i < cell_total g \<Longrightarrow> at_cell g (place g i)"
  using place_ok(1,2) by (simp add: at_cell_def)

lemma search_left_wp:
  assumes "grid_wf g" "i < cell_total g"
  shows "wp (search_left_loop g cs lc (place g i)) (found_cell g)"
  using assms(2)
proof (induction i)
  case 0
  then show ?case
    by (subst search_left_loop.simps) (simp add: iter_prev_place [OF assms(1)] wp_Some place_at_cell [OF assms(1)])
next
  case (Suc i)
  then show ?case
    by (subst search_left_loop.simps)
      (simp add: iter_prev_place [OF assms(1)] wp_simps place_at_cell [OF assms(1)])
qed

lemma search_right_wp:
  assumes "grid_wf g" "i < cell_total g"
  shows "wp (search_right_loop g cs lc (last_place g) (place g i)) (found_cell g)"
  using assms(2)
proof (induction "cell_total g - i" arbitrary: i rule: less_induct)
  case less
  then show ?case
    by (subst search_right_loop.simps)
      (auto simp: iter_next_place [OF assms(1)] wp_simps place_at_cell [OF assms(1)])
qed

lemma skip_spacers_wp:
  assumes "grid_wf g" "i < cell_total g"
  shows "wp (skip_spacers g (last_place g) (place g i)) (\<lambda>r. \<forall>q. r = Some q \<longrightarrow> at_cell g q)"
  using assms(2)
proof (induction "cell_total g - i" arbitrary: i rule: less_induct)
  case less
  then show ?case
    by (subst skip_spacers.simps) (auto simp: iter_next_place [OF assms(1)] wp_simps place_at_cell [OF assms(1)])
qed

lemma at_cell_place: "grid_wf g \<Longrightarrow> at_cell g p \<Longrightarrow> \<exists>i < cell_total g. place g i = p"
  using place_of by (simp add: at_cell_def)

lemma search_start_same: "vi_safe g \<Longrightarrow> at_cell g p \<Longrightarrow> search_start g p = p"
  by (cases p) (auto simp: search_start_def vi_safeD(7) dest: at_cellD)

lemma semantic_search_wp:
  assumes "vi_safe g" "at_cell g p"
  shows "wp (semantic_search_left g p) (at_cell g)" "wp (semantic_search_right g p) (at_cell g)"
proof -
  note s = vi_safeD [OF assms(1)]
  obtain i where i: "i < cell_total g" "place g i = p" using at_cell_place [OF s(1) assms(2)] by blast
  have left: "wp (skip_spacers g (last_place g) q) (\<lambda>r. at_cell g (case r of Some s \<Rightarrow> s | None \<Rightarrow> q))" if q: "at_cell g q" for q
  proof -
    obtain k where "k < cell_total g" "place g k = q" using at_cell_place [OF s(1) q] by blast
    with skip_spacers_wp [OF s(1), of k] q show ?thesis by (auto elim!: wp_mono split: option.split)
  qed
  have right: "wp (iter_prev g q) (\<lambda>r. at_cell g (case r of Some (s, _) \<Rightarrow> s | None \<Rightarrow> q))" if q: "at_cell g q" for q
  proof -
    obtain k where "k < cell_total g" "place g k = q" using at_cell_place [OF s(1) q] by blast
    with iter_prev_place [OF s(1), of k] q place_at_cell [OF s(1)] show ?thesis
      by (auto simp: wp_Some split: nat.split)
  qed
  show "wp (semantic_search_left g p) (at_cell g)"
    using search_left_wp [OF s(1) i(1), of SEMANTIC_ESCAPE_CHARS "g_columns g - 1"] left s(4) grid_ends(4) [OF s(1)]
    unfolding semantic_search_left_def inline_search_left_def search_start_same [OF assms] i(2)
    by (auto simp: wp_simps found_cell_def elim!: wp_mono split: sum.split)
  define lc where "lc = g_columns g - 1"
  have last: "usub (g_columns g) 1 = Some lc" using s(4) by (simp add: usub_def lc_def)
  have stop: "wp (if col p = lc then map_option (\<lambda>c. \<not> sq_wrapline c) (grid_cell g p) else Some False)
      (\<lambda>stop. wp (if stop then Some (Inl p) else do { e \<leftarrow> iter_from_end g; search_right_loop g cs lc e p })
        (found_cell g))" for cs
    using search_right_wp [OF s(1) i(1), of cs lc] vi_cell(1) [OF assms] assms(2) grid_ends(4) [OF s(1)] i(2)
    by (simp add: wp_simps)
  have "wp (inline_search_right g p SEMANTIC_ESCAPE_CHARS) (found_cell g)"
    using stop [of SEMANTIC_ESCAPE_CHARS] unfolding inline_search_right_def search_start_same [OF assms] Let_def last by (simp add: wp_bind)
  then show "wp (semantic_search_right g p) (at_cell g)"
    using right unfolding semantic_search_right_def wp_bind
    by (elim wp_mono) (auto simp: wp_simps split: sum.split)
qed

lemma partner_in: "partner a b skip cs = Some k \<Longrightarrow> k \<in> fst ` set cs"
  by (induction a b skip cs rule: partner.induct) (auto split: if_splits)

lemma bracket_search_wp:
  assumes "vi_safe g" "at_cell g p"
  shows "wp (bracket_search g p) (\<lambda>r. at_cell g (or_pos r p))"
proof -
  note s = vi_safeD [OF assms(1)]
  obtain i where i: "i < cell_total g" "place g i = p" using at_cell_place [OF s(1) assms(2)] by blast
  have "k < cell_total g" if "partner a b 0 (chars_ahead g forward i) = Some k" for a b k forward
    using partner_in [OF that] i(1) by (auto simp: chars_ahead_def ahead_def split: if_splits)
  then have "at_cell g (or_pos (map_option (place g) (partner a b 0 (chars_ahead g forward i))) p)" for a b forward
    using assms(2) place_at_cell [OF s(1)] by (auto simp: or_pos_def split: option.split)
  then show ?thesis
    using bracket_loop_ahead [OF s(1) i(1)] grid_ends(4) [OF s(1)] vi_cell(1) [OF assms] i(2) assms(2)
    by (auto simp: bracket_search_def wp_simps or_pos_def [of None] split: option.split)
qed

lemma expand_semantic_wp:
  assumes "vi_safe g" "at_cell g p"
  shows "wp (expand_semantic g d p) (at_cell g)"
  using semantic_search_wp [OF assms] assms(2) by (simp add: expand_semantic_def wp_simps vi_cell(1) [OF assms])

lemma word_moves_wp:
  assumes "vi_safe g" "at_cell g p"
  shows "wp (word_move g p d side) (at_cell g)" "wp (semantic_move g p d side) (at_cell g)"
proof -
  note skip = skip_next_wp [OF assms(1)] skip_here_wp [OF assms(1)] and e = expand_semantic_wp [OF assms(1)]
  have two: "wp (skip_next True g d q) (\<lambda>q. wp (skip_next False g d q) (at_cell g))"
    "wp (skip_here False g d q) (\<lambda>q. wp (skip_here True g d q) (at_cell g))" if "at_cell g q" for q
    by (rule wp_mono [OF skip(1) [OF that]], rule skip(1), assumption,
        rule wp_mono [OF skip(2) [OF that]], rule skip(2), assumption)
  show "wp (word_move g p d side) (at_cell g)"
    unfolding word_move_def wp_bind by (rule expand_wide_wp [OF assms]) (auto simp only: wp_if wp_bind two split: if_split)
  have step: "wp (if \<not> is_boundary g q d then advance_pos g q d else Some q) (at_cell g)" if "at_cell g q" for q
    using that by (auto simp: wp_Some intro!: advance_wp [OF assms(1) that])
  have opt: "wp (if c then expand_semantic g d q else Some q) (at_cell g)" if "at_cell g q" for c q
    using e [OF that] that by (simp add: wp_Some)
  show "wp (semantic_move g p d side) (at_cell g)"
    unfolding semantic_move_def wp_bind
    by (rule expand_wide_wp [OF assms])
      (intro wp_mono [OF opt] wp_mono [OF skip(1)] wp_mono [OF step] opt; assumption)
qed

subsection \<open>The property\<close>

lemma vi_target_wp:
  assumes "vi_safe g" "at_cell g p" "display_offset g \<le> grid_history g" "m = ViMiddle \<longrightarrow> 2 \<le> g_lines g"
  shows "wp (vi_target g p m) (at_cell g)"
proof -
  note s = vi_safeD [OF assms(1)] and p = at_cellD [OF assms(2)]
  have lines: "has_line g (- int (display_offset g))" "has_line g (- int (display_offset g) + int (g_lines g) - 1)"
    "m = ViMiddle \<Longrightarrow> has_line g (- int (display_offset g) + int (g_lines g) div 2 - 1)"
    using assms(3,4) s(3) by (auto simp: has_line_def)
  have zero: "at_cell g (Pos (row q) 0)" if "at_cell g q" for q using that s(4) by (simp add: at_cell_def)
  have "wp (vi_left g p) (at_cell g)"
    unfolding vi_left_def wp_bind
    by (rule expand_wide_wp [OF assms(1,2)])
      (use s(4,5,7) in \<open>auto simp: wp_simps at_cell_def has_line_def intro!: is_wrap_wp [OF assms(1)]\<close>)
  moreover have "wp (vi_right g p) (at_cell g)"
    unfolding vi_right_def wp_bind
    by (rule expand_wide_wp [OF assms(1,2)])
      (use s(4,5) in \<open>auto simp: wp_simps at_cell_def has_line_def intro!: is_wrap_wp [OF assms(1)]\<close>)
  moreover have "wp (vi_first g p) (at_cell g)"
    unfolding vi_first_def wp_bind
    by (rule expand_wide_wp [OF assms(1,2)])
      (use s(5) in \<open>auto simp: wp_simps zero intro!: wp_mono [OF first_loop_wp [OF assms(1), simplified]]\<close>)
  moreover have "at_cell g (if row p > - int (grid_history g) then Pos (row p - 1) (col p) else p)"
    "at_cell g (if row p + 1 < int (g_lines g) then Pos (row p + 1) (col p) else p)"
    using p assms(2) by (auto simp: at_cell_def has_line_def)
  ultimately show ?thesis
    using last_pos_wp [OF assms(1,2)] first_occupied_wp [OF assms(1,2)] line_start_wp [OF assms(1)] lines
      word_moves_wp [OF assms(1,2)] bracket_search_wp [OF assms(1,2)]
    by (cases m) (simp_all only: vi_target_def vi_move.simps s(7) wp_Some wp_map_option)
qed

text \<open>Without the condition on the last line the cursor leaves the grid: from a cell of the last line that wraps, a
  motion to the right goes to the line below the screen, where the next motion that looks at the cell panics.\<close>

lemma wrapped_last_line_leaves_grid:
  assumes "grid_cell g (Pos (int (g_lines g) - 1) k) = Some c" "sq_wide c = Narrow" "sq_wrapline c"
  shows "vi_target g (Pos (int (g_lines g) - 1) k) ViRight = Some (Pos (int (g_lines g)) 0)"
  using assms by (simp add: vi_target_def vi_right_def expand_wide_def is_wrap_def)

lemma recompute_fields [simp]:
  "cgrid (vi_mode_recompute_selection t) = cgrid t" "vi_cursor (vi_mode_recompute_selection t) = vi_cursor t"
  "cw_mode (vi_mode_recompute_selection t) = cw_mode t"
  "term_inv n w (vi_mode_recompute_selection t) = term_inv n w t"
  by (auto simp: vi_mode_recompute_selection_def split: option.split)

lemma scroll_display_offset:
  "\<exists>k \<le> grid_history g. scroll_display g (Delta i) = g\<lparr>display_offset := k\<rparr> \<and>
     (0 \<le> int (display_offset g) + i \<and> int (display_offset g) + i \<le> int (grid_history g) \<longrightarrow> int k = int (display_offset g) + i)"
  by (intro exI [of _ "min (nat (max (int (display_offset g) + i) 0)) (grid_history g)"]) (auto simp: scroll_display_def)

lemma scroll_to_pos_fields:
  assumes "term_inv n w t" "at_cell (cgrid t) p" "display_offset (cgrid t) \<le> grid_history (cgrid t)"
  shows "\<exists>k \<le> grid_history (cgrid t). cgrid (scroll_to_pos t p) = (cgrid t)\<lparr>display_offset := k\<rparr> \<and>
    term_inv n w (scroll_to_pos t p) \<and> cw_mode (scroll_to_pos t p) = cw_mode t \<and>
    - int k \<le> row p \<and> row p < int n - int k"
proof -
  let ?g = "cgrid t"
  note l = at_cellD [OF assms(2)] and n = term_invD(2) [OF assms(1)]
  have n0: "0 < n" using term_invD(1,2) [OF assms(1)] by (simp add: grid_wf_def)
  have shifted: "term_inv n w (t\<lparr>cgrid := ?g\<lparr>display_offset := k\<rparr>\<rparr>)" for k
    using term_inv_gridD [OF assms(1)] by (intro term_inv_grid [OF assms(1)]) (auto simp: grid_ok_def grid_wf_def grid_history_raw)
  have scrolled: "cgrid (term_scroll_display t (Delta i)) = scroll_display ?g (Delta i)"
      "cw_mode (term_scroll_display t (Delta i)) = cw_mode t"
      "term_inv n w (term_scroll_display t (Delta i))" for i
    using shifted scroll_display_offset [of ?g i] by (auto simp: term_scroll_display_def Let_def send_def)
  consider "row p < - int (display_offset ?g)" | "row p \<ge> int n - int (display_offset ?g)"
    | "- int (display_offset ?g) \<le> row p" "row p < int n - int (display_offset ?g)" by linarith
  then show ?thesis
  proof cases
    case 1
    obtain k where "k \<le> grid_history ?g" "scroll_display ?g (Delta (- (row p + int (display_offset ?g)))) = ?g\<lparr>display_offset := k\<rparr>"
      "int k = - row p"
      using scroll_display_offset [of ?g "- (row p + int (display_offset ?g))"] 1 l by auto
    with 1 n n0 scrolled show ?thesis
      by (intro exI [of _ k]) (use l in \<open>auto simp: scroll_to_pos_def Let_def\<close>)
  next
    case 2
    let ?i = "- (row p + int (display_offset ?g) - int n + 1)"
    obtain k where k: "k \<le> grid_history ?g" "scroll_display ?g (Delta ?i) = ?g\<lparr>display_offset := k\<rparr>"
      "0 \<le> int (display_offset ?g) + ?i \<and> int (display_offset ?g) + ?i \<le> int (grid_history ?g) \<longrightarrow> int k = int (display_offset ?g) + ?i"
      using scroll_display_offset [of ?g ?i] by blast
    then have "int k = int n - 1 - row p" using 2 l n assms(3) by simp
    with k(1,2) 2 n n0 scrolled show ?thesis
      by (intro exI [of _ k]) (use l in \<open>auto simp: scroll_to_pos_def Let_def\<close>)
  next
    case 3
    with assms(1,3) n show ?thesis by (intro exI [of _ "display_offset ?g"]) (auto simp: scroll_to_pos_def)
  qed
qed

definition vi_ready :: "nat \<Rightarrow> nat \<Rightarrow> crosswords \<Rightarrow> bool" where
  "vi_ready n w t \<longleftrightarrow> term_inv n w t \<and> vi_safe (cgrid t) \<and> at_cell (cgrid t) (vi_cursor t) \<and>
     display_offset (cgrid t) \<le> grid_history (cgrid t)"

lemma other_offset [simp]:
  "vi_safe (g\<lparr>display_offset := k\<rparr>) = vi_safe g" "at_cell (g\<lparr>display_offset := k\<rparr>) = at_cell g"
  "grid_history (g\<lparr>display_offset := k\<rparr>) = grid_history g"
  by (auto simp: vi_safe_def at_cell_def fun_eq_iff grid_wf_def grid_history_raw has_line_def grid_line_def)

definition vi_shown :: "nat \<Rightarrow> crosswords \<Rightarrow> bool" where
  \<comment> \<open>the vi cursor is in the part of the grid that is displayed\<close>
  "vi_shown n t \<longleftrightarrow> - int (display_offset (cgrid t)) \<le> row (vi_cursor t) \<and>
     row (vi_cursor t) < int n - int (display_offset (cgrid t))"

lemma vi_motion_wp:
  assumes "vi_ready n w t" "m = ViMiddle \<longrightarrow> 2 \<le> n"
  shows "wp (vi_motion t m) (\<lambda>u. vi_ready n w u \<and> (\<exists>k. cgrid u = (cgrid t)\<lparr>display_offset := k\<rparr>) \<and>
    cw_mode u = cw_mode t \<and> (mode_on t M_VI \<longrightarrow> vi_shown n u))"
proof (cases "mode_on t M_VI")
  case True
  note r = assms(1) [unfolded vi_ready_def]
  have "wp (vi_target (cgrid t) (vi_cursor t) m) (at_cell (cgrid t))"
    using r assms(2) term_invD(2) [of n w t] by (intro vi_target_wp) auto
  then obtain p where p: "vi_target (cgrid t) (vi_cursor t) m = Some p" "at_cell (cgrid t) p" by (auto simp: wp_iff)
  obtain k where k: "k \<le> grid_history (cgrid t)" "cgrid (scroll_to_pos t p) = (cgrid t)\<lparr>display_offset := k\<rparr>"
    "term_inv n w (scroll_to_pos t p)" "cw_mode (scroll_to_pos t p) = cw_mode t" "- int k \<le> row p" "row p < int n - int k"
    using scroll_to_pos_fields [of n w t p] r p(2) by blast
  with p True r show ?thesis
    by (auto simp: vi_motion_def vi_goto_pos_def wp_Some vi_ready_def vi_shown_def)
next
  case False
  then show ?thesis using assms(1) by (auto simp: vi_motion_def wp_Some intro: exI [of _ "display_offset (cgrid t)"])
qed

text \<open>C15. The motions of the vi mode: from a grid whose last line has no cell with the wrap mark and no place holder
  of a wide character, and whose lines do not begin with the second half of one, with the vi cursor on a cell and the
  display inside the history, every sequence of motions ends without a panic (the motion to the middle is
  allowed on screens of at least two lines only, it panics on one line); it leaves the text as it is, and after
  each the vi cursor is on a cell, and on one that is displayed.\<close>

theorem vi_motions_total:
  assumes "vi_ready n w t" "ViMiddle \<in> set ms \<longrightarrow> 2 \<le> n" "mode_on t M_VI"
  shows "\<exists>u k. foldM vi_motion t ms = Some u \<and> vi_ready n w u \<and> cgrid u = (cgrid t)\<lparr>display_offset := k\<rparr> \<and>
    (ms \<noteq> [] \<longrightarrow> vi_shown n u)"
proof -
  have "wp (foldM vi_motion t ms) (\<lambda>u. vi_ready n w u \<and> (\<exists>k. cgrid u = (cgrid t)\<lparr>display_offset := k\<rparr>) \<and>
      cw_mode u = cw_mode t \<and> (ms \<noteq> [] \<longrightarrow> vi_shown n u))"
  proof (rule wp_foldM)
    show "vi_ready n w t \<and> (\<exists>k. cgrid t = (cgrid t)\<lparr>display_offset := k\<rparr>) \<and> cw_mode t = cw_mode t \<and> ([] \<noteq> [] \<longrightarrow> vi_shown n t)"
      using assms(1) by (auto intro: exI [of _ "display_offset (cgrid t)"])
    fix ys x zs s
    assume ms: "ms = ys @ x # zs" and s: "vi_ready n w s \<and> (\<exists>k. cgrid s = (cgrid t)\<lparr>display_offset := k\<rparr>) \<and>
      cw_mode s = cw_mode t \<and> (ys \<noteq> [] \<longrightarrow> vi_shown n s)"
    then have "x = ViMiddle \<longrightarrow> 2 \<le> n" "mode_on s M_VI" using assms(2,3) by (auto simp: mode_on_def)
    with vi_motion_wp [of n w s x] s
    show "wp (vi_motion s x) (\<lambda>u. vi_ready n w u \<and> (\<exists>k. cgrid u = (cgrid t)\<lparr>display_offset := k\<rparr>) \<and>
        cw_mode u = cw_mode t \<and> (ys @ [x] \<noteq> [] \<longrightarrow> vi_shown n u))"
      by (auto elim!: wp_mono)
  qed
  then show ?thesis by (auto simp: wp_iff)
qed

lemma fresh_offset: "display_offset (cgrid (fresh 24 80)) = 0"
proof -
  have "display_offset (cgrid t) = 0" if "crosswords_new d s k = Some t" for t d s k
    using that by (auto simp: crosswords_new_def grid_new_def bind_eq_Some_conv Let_def)
  from this [OF fresh_facts(1) [of 24 80, simplified]] show ?thesis .
qed

theorem vi_motions_total_witness:
  "\<exists>u. foldM vi_motion (toggle_vi_mode (fresh 24 80)) [ViMiddle, ViWordLeft, ViLast, ViRight, ViFirstOccupied] = Some u \<and>
     vi_shown 24 u \<and> (\<forall>l. grid_line (cgrid u) l = grid_line (cgrid (fresh 24 80)) l)"
proof -
  note f = fresh_facts [of 24 80, simplified]
  let ?t = "toggle_vi_mode (fresh 24 80)"
  have on: "mode_on ?t M_VI" "cgrid ?t = cgrid (fresh 24 80)" "vi_cursor ?t = Pos 0 0"
    using f(3,6) fresh_offset term_inv_dims(2) [OF f(2)]
    by (simp_all add: toggle_vi_mode_def Let_def send_def mode_on_def M_VI_def M_SHOW_CURSOR_def M_LINE_WRAP_def
        M_ALTERNATE_SCROLL_def M_URGENCY_HINTS_def bit_contains_def)
  have inv: "term_inv 24 80 ?t" using f(2) by (simp add: toggle_vi_mode_def Let_def)
  have cell: "sq_wide 0 = Narrow" "\<not> sq_wrapline 0" by (rule fieldsD(2) [OF fields_0], code_simp)
  have "vi_safe (cgrid (fresh 24 80))"
    using term_invD [OF f(2)] f(7,8) cell unfolding vi_safe_def by auto
  then have "vi_ready 24 80 ?t"
    using inv on f(10) fresh_offset f(7) term_invD [OF f(2)] by (auto simp: vi_ready_def at_cell_def)
  from vi_motions_total [OF this _ on(1), of "[ViMiddle, ViWordLeft, ViLast, ViRight, ViFirstOccupied]"] on(2)
  show ?thesis by (auto simp: grid_line_def simp del: foldM.simps)
qed

end
