(* ===== verification/Spec2Isabelle.thy ===== *)
theory Spec2Isabelle
  imports CopaProps GridProps ModeProps ScrollProps ProcProps SixelProps KittyProps ScreenProps CopyProps ResizeProps ViProps
begin

text \<open>
  The core of the Rio terminal: what happens between the bytes that a program writes and the state of the
  screen that is drawn. The crates \<open>src/copa\<close> (the escape sequence parser) and
  \<open>src/rio-backend\<close> (the dispatcher and the terminal) are modelled function by function; each definition
  has the name of its function or type, as far as the name is free.

  The parts and how they interact. A chunk of bytes goes to \<open>Processor::advance\<close>
  (\<open>performer/handler.rs\<close>, theory \<open>Processor\<close>), which either keeps it back while a synchronized update is
  pending or hands it to the parser through \<open>BatchedParser\<close> (\<open>batched_parser.rs\<close>). The parser
  (\<open>copa/src/lib.rs\<close>, theories \<open>Params\<close>, \<open>Copa\<close>) is a state machine over bytes, with fast paths for text;
  every call it makes to its \<open>Perform\<close> trait is an event. The performer (\<open>Performer\<close>, \<open>PerfParse\<close>) turns an
  event into calls of the \<open>Handler\<close> trait. The terminal (\<open>crosswords/mod.rs\<close>) implements that trait:
  \<open>Terminal\<close> holds its state and the input of characters, \<open>Handlers\<close> and \<open>Handlers2\<close> its handlers, and
  \<open>Images\<close> and \<open>Overlays\<close> the images, which come from the parsers of the three image protocols, \<open>Sixel\<close>
  (\<open>ansi/sixel.rs\<close>), \<open>Iterm\<close> (\<open>ansi/iterm2_image_protocol.rs\<close>, and the display size of an image in
  \<open>sugarloaf/graphics.rs\<close>) and \<open>KittyProtocol\<close> (\<open>ansi/kitty_graphics_protocol.rs\<close>), and are kept in the
  store of \<open>KittyStore\<close> (\<open>ansi/graphics.rs\<close>). The terminal's data are built from below: \<open>Square\<close> the packed
  cell (\<open>square.rs\<close>), \<open>Style\<close> and \<open>Extras\<close> the tables a cell refers to (\<open>style.rs\<close>, \<open>grid/mod.rs\<close>),
  \<open>Row\<close> (\<open>grid/row.rs\<close>), \<open>Storage\<close> the ring buffer of rows (\<open>grid/storage.rs\<close>), \<open>Pos\<close> positions, character
  sets and the cursor (\<open>pos.rs\<close>), \<open>Grid\<close> (\<open>grid/mod.rs\<close>), \<open>Modes\<close> (\<open>ansi/mode.rs\<close>), \<open>Damage\<close> and
  \<open>Selection\<close> (\<open>selection.rs\<close>). Beside the stream of bytes the frontend works on the terminal directly: \<open>Resize\<close>
  (\<open>grid/resize.rs\<close> and \<open>Crosswords::resize\<close>) gives it another size, \<open>Search\<close> (\<open>search.rs\<close>) walks over its cells,
  \<open>CopyText\<close> reads the text of a selection, and \<open>Vi\<close> (\<open>vi_mode.rs\<close>) moves a cursor of its own over screen and
  history. \<open>terminal_handler\<close> in \<open>Overlays\<close> ties the knot: it is the terminal as the
  handler of the performer.

  How code becomes definitions. A struct is a record, an enum a datatype. A function that can panic returns an
  option, and \<open>None\<close> is the panic: an index out of bounds, an unsigned subtraction below zero, a failed
  assertion. Fixed-width integers are words, \<open>usize\<close> and \<open>char\<close> are natural numbers, and line numbers, which
  the code keeps in 32 bits, are unbounded integers. A loop is a recursion over a list or over the numbers it
  counts, or a \<open>partial_function\<close> where it might not end; that it ends is then a theorem. No fuel is used.
  What other packages do is a field of a record that the definitions take (\<open>text_lib\<close> for simdutf8 and memchr,
  \<open>env\<close> for the widths of characters, \<open>perf_env\<close> for URLs and cursor icons, \<open>kitty_env\<close> for Base64, zlib,
  PNG and files, \<open>image_env\<close> for clocks, image decoders and floating point), and what is assumed of
  it is a named predicate (\<open>text_lib_spec\<close>, \<open>perf_lib_ok\<close>, \<open>perf_env_ok\<close>, \<open>image_env_ok\<close>, \<open>png_ok\<close>), shown to
  hold of a concrete instance in the witnesses. \<open>wp\<close> of \<open>Prelude\<close> says that a function does not panic and that
  its result has a property, \<open>wlp\<close> only the latter.

  The interfaces. \<open>text_lib_spec\<close> (\<open>Utf8\<close>) is the contract of the text packages, interpreted by the
  standard library's UTF-8; the parser's lemmas are proved in it. \<open>handler_contract\<close> (\<open>PerfKeep\<close>) is what the
  performer may rely on from a handler: every call with arguments as the performer makes them returns
  and keeps the handler's invariant. It is interpreted by the terminal in \<open>ImageKeep\<close>.

  What the lemmas show.
  \<^item> The parser (\<open>CopaInv\<close>, \<open>CopaRun\<close>, \<open>CopaSpec\<close>, \<open>CopaOsc\<close>, \<open>CopaProps\<close>): it returns on every input and keeps
    its invariant, its calls are well bracketed, the bulk paths agree with a machine that reads one byte at a time,
    and rendered control sequences, OSC strings and text come back as they were written.
  \<^item> The processor and the performer (\<open>PerfKeep\<close>, \<open>ProcProps\<close>): batching changes nothing, a synchronized
    update is atomic and its end performs what was kept back, and a handler that meets its contract is never driven out of its invariant.
  \<^item> The data (\<open>Square\<close>, \<open>Style\<close>, \<open>Extras\<close>, \<open>Row\<close>, \<open>Storage\<close>, \<open>LineStore\<close>, \<open>GridProps\<close>, \<open>Damage\<close>,
    \<open>Selection\<close>, \<open>KittyStore\<close>): each has an invariant that its operations keep, and scrolling is described on the
    list of lines although the ring buffer moves rows by rotation and swaps.
  \<^item> The terminal (\<open>TermInv\<close>, \<open>TermKeep\<close>, \<open>HandlerKeep\<close>): the invariant \<open>term_inv\<close> of a screen of \<open>n\<close> lines and
    \<open>w\<close> columns, with at least two columns, is kept by every handler. \<open>TermProps\<close>, \<open>ModeProps\<close>, \<open>EditProps\<close> and
    \<open>ScrollProps\<close> say what the handlers do: typing, line feeds, editing, scrolling, clearing, modes, tabs.
  \<^item> Images (\<open>SixelProps\<close>, \<open>KittyProps\<close>, \<open>ImageKeep\<close>, \<open>ImageProps\<close>, \<open>DeleteProps\<close>, \<open>OverlayProps\<close>): the
    Sixel parser refines a drawing on an unbounded canvas, an upload in chunks is the upload in one piece, placing
    and deleting do what their requests say, and the whole chain from bytes to the terminal never panics outside
    synchronized updates, but for the two cases its statement names.
  \<^item> The whole (\<open>ScreenProps\<close>): bytes in, cells out, through parser, batching, performer and terminal.
  \<^item> Resizing (\<open>ResizeLines\<close>, \<open>ResizeColumns\<close>, \<open>ResizeShrink\<close>, \<open>ResizeProps\<close>): it returns from two columns on and
    keeps the invariant, lines move with the cursor, and reflow keeps the text: what a wider grid
    loses are characters below the cursor, what a narrower one loses is the oldest of a full history.
  \<^item> Search and copying (\<open>SearchProps\<close>, \<open>CopyProps\<close>): the cells in reading order as a sequence, on which the walks
    of the grid's iterator end; matching brackets, the ends of wrapped lines, and the copied text.
  \<^item> The vi mode (\<open>ViProps\<close>): its motions end, stay inside the grid and on the displayed part of it.
  \<^item> Some properties state what the code does where it does not do what it means to; their texts say so.

  Bounds. Sixel pictures have sides of at most 4096 pixels, kitty images of 10000; the terminal's
  \<open>image_inv\<close> carries a budget of image ids, because the 64-bit counter would overflow.

  Not modelled: the regex search (\<open>search.rs\<close>), which runs the automata of the package regex-automata, the decoding of
  placeholder cells (\<open>kitty_virtual.rs\<close>, used by the renderer only), logging and statistics, the memory mapping
  of shared memory images, the PTY and its event loop (\<open>performer/mod.rs\<close>, \<open>teletypewriter\<close>, \<open>corcovado\<close>), the
  configuration, and everything that draws or talks to the desktop (\<open>sugarloaf\<close>, \<open>rio-window\<close>, the
  frontends): input and output, the graphics card and other packages decide what these do, not the code of the
  terminal.
\<close>

end
